(* ===== verification/C_Prelude.thy ===== *)
theory C_Prelude
  imports Main "HOL-Library.Word" "HOL-Library.Monad_Syntax"
begin

text \<open>
  Shared foundations of the development: the machine types of the x86_64 target, a byte-addressed
  memory in which an access outside the mapped addresses is an explicit failure, and the
  predicates that say what a range of memory holds.

  A C function is an HOL function of the memory (and of the globals it uses).  Its result is
  an \<open>option\<close>: \<open>None\<close> stands for undefined behaviour (an access to an unmapped address)
  and, for the unbounded loops, for not returning.  A theorem that a call equals
  \<open>Some ...\<close> therefore also says that the call returns and stays inside the mapped memory.

  Addresses and values of type \<open>size_t\<close> are natural numbers (a C object never wraps around
  the address space); the arithmetic of \<open>int\<close>, \<open>long\<close> and their unsigned variants is
  written with the explicit truncations below wherever a computation can leave its range.
\<close>

section \<open>Types\<close>

type_synonym addr = nat
type_synonym byte = "8 word"
type_synonym mem = "addr \<rightharpoonup> byte"

text \<open>Simplification rules for memory contents, collected while the theory is built.\<close>

named_theorems mem_simps "what a range of memory holds after an update"

abbreviation (input) NULL :: addr where "NULL \<equiv> 0"

section \<open>C integers on x86_64 (LP64)\<close>

abbreviation (input) INT_MAX :: int where "INT_MAX \<equiv> 2147483647"
abbreviation (input) INT_MIN :: int where "INT_MIN \<equiv> - 2147483648"
abbreviation (input) LONG_MAX :: int where "LONG_MAX \<equiv> 9223372036854775807"
abbreviation (input) LONG_MIN :: int where "LONG_MIN \<equiv> - 9223372036854775808"
abbreviation (input) ULONG_MAX :: int where "ULONG_MAX \<equiv> 18446744073709551615"
abbreviation (input) SIZE_MAX :: nat where "SIZE_MAX \<equiv> 18446744073709551615"

text \<open>Conversion of a value to the 32- and 64-bit integer types.\<close>

definition s32 :: "int \<Rightarrow> int" where "s32 x = signed_take_bit 31 x"
definition u32 :: "int \<Rightarrow> int" where "u32 x = take_bit 32 x"
definition s64 :: "int \<Rightarrow> int" where "s64 x = signed_take_bit 63 x"
definition u64 :: "int \<Rightarrow> int" where "u64 x = take_bit 64 x"

text \<open>Conversion of a count to \<open>size_t\<close>.\<close>

definition size64 :: "nat \<Rightarrow> nat" where "size64 n = n mod 18446744073709551616"

text \<open>Division and remainder of C truncate towards zero.\<close>

definition cdiv :: "int \<Rightarrow> int \<Rightarrow> int" where
  "cdiv a b = sgn a * sgn b * (\<bar>a\<bar> div \<bar>b\<bar>)"

definition cmod :: "int \<Rightarrow> int \<Rightarrow> int" where
  "cmod a b = a - b * cdiv a b"

lemma cdiv_nonneg: "0 \<le> a \<Longrightarrow> 0 < b \<Longrightarrow> cdiv a b = a div b"
  by (cases "a = 0") (auto simp: cdiv_def)

lemma cmod_nonneg: "0 \<le> a \<Longrightarrow> 0 < b \<Longrightarrow> cmod a b = a mod b"
  by (simp add: cmod_def cdiv_nonneg minus_mult_div_eq_mod)

lemma s32_id: "INT_MIN \<le> x \<Longrightarrow> x \<le> INT_MAX \<Longrightarrow> s32 x = x"
  unfolding s32_def by (rule signed_take_bit_int_eq_self) auto

lemma s64_id: "LONG_MIN \<le> x \<Longrightarrow> x \<le> LONG_MAX \<Longrightarrow> s64 x = x"
  unfolding s64_def by (rule signed_take_bit_int_eq_self) auto

lemma u64_id: "0 \<le> x \<Longrightarrow> x \<le> ULONG_MAX \<Longrightarrow> u64 x = x"
  unfolding u64_def by (rule take_bit_int_eq_self) auto

lemma u32_id: "0 \<le> x \<Longrightarrow> x \<le> 4294967295 \<Longrightarrow> u32 x = x"
  unfolding u32_def by (rule take_bit_int_eq_self) auto

lemma u64_minus_s64: "u64 (- s64 x) = u64 (- x)"
proof -
  have "take_bit 64 (- s64 x) = take_bit 64 (- take_bit 64 (s64 x))" by (simp only: take_bit_minus)
  also have "take_bit 64 (s64 x) = take_bit 64 x"
    unfolding s64_def by (rule take_bit_signed_take_bit) simp
  also have "take_bit 64 (- take_bit 64 x) = take_bit 64 (- x)" by (simp only: take_bit_minus)
  finally show ?thesis by (simp only: u64_def)
qed

lemma s32_u64 [simp]: "s32 (u64 x) = s32 x"
  by (simp only: s32_def u64_def signed_take_bit_take_bit) simp

lemma s64_u64 [simp]: "s64 (u64 x) = s64 x"
  by (simp only: s64_def u64_def signed_take_bit_take_bit) simp

lemma cmod_eq: "b \<noteq> 0 \<Longrightarrow> cmod a b = sgn a * (\<bar>a\<bar> mod \<bar>b\<bar>)"
proof -
  assume "b \<noteq> 0"
  have "cmod a b = a - b * sgn b * sgn a * (\<bar>a\<bar> div \<bar>b\<bar>)" by (simp add: cmod_def cdiv_def)
  also have "\<dots> = sgn a * \<bar>a\<bar> - \<bar>b\<bar> * sgn a * (\<bar>a\<bar> div \<bar>b\<bar>)"
    by (metis abs_sgn mult_sgn_abs)
  also have "\<dots> = sgn a * (\<bar>a\<bar> - \<bar>b\<bar> * (\<bar>a\<bar> div \<bar>b\<bar>))" by (simp add: algebra_simps)
  finally show ?thesis by (simp add: minus_mult_div_eq_mod)
qed

lemma cdiv_cmod: "b * cdiv a b + cmod a b = a"
  by (simp add: cmod_def)

lemma cmod_less: "b \<noteq> 0 \<Longrightarrow> \<bar>cmod a b\<bar> < \<bar>b\<bar>"
  by (cases "a = 0") (auto simp: cmod_eq abs_mult)

lemma cdiv_abs: "\<bar>cdiv a b\<bar> \<le> \<bar>a\<bar>"
proof (cases "a = 0 \<or> b = 0")
  case False
  then have "\<bar>a\<bar> div \<bar>b\<bar> \<le> \<bar>a\<bar> div 1" by (intro zdiv_mono2) auto
  with False show ?thesis by (simp add: cdiv_def abs_mult pos_imp_zdiv_nonneg_iff)
qed (auto simp: cdiv_def)

lemma size64_id: "n \<le> SIZE_MAX \<Longrightarrow> size64 n = n"
  by (simp add: size64_def)

text \<open>
  A plain \<open>char\<close> is signed on x86; \<open>cv\<close> is the value of a \<open>char\<close> after the integer
  promotions, \<open>uv\<close> that of a \<open>uint8_t\<close>, and \<open>to_byte\<close> the conversion of an \<open>int\<close>
  to either.
\<close>

definition cv :: "byte \<Rightarrow> int" where "cv b = sint b"
definition uv :: "byte \<Rightarrow> int" where "uv b = uint b"
definition to_byte :: "int \<Rightarrow> byte" where "to_byte x = word_of_int x"

lemma to_byte_uv [simp]: "to_byte (uv b) = b"
  by (simp add: to_byte_def uv_def)

lemma to_byte_cv [simp]: "to_byte (cv b) = b"
  by (simp add: to_byte_def cv_def)

lemma uv_inj [simp]: "uv a = uv b \<longleftrightarrow> a = b"
  by (metis to_byte_uv)

lemma cv_inj [simp]: "cv a = cv b \<longleftrightarrow> a = b"
  by (metis to_byte_cv)

lemma cv_zero [simp]: "cv b = 0 \<longleftrightarrow> b = 0"
  by (metis cv_def cv_inj signed_0)

lemma uv_zero [simp]: "uv b = 0 \<longleftrightarrow> b = 0"
  by (metis uv_def uv_inj unsigned_0)

lemma uv_0 [simp]: "uv 0 = 0" and cv_0 [simp]: "cv 0 = 0"
  by (simp_all add: uv_def cv_def)

lemma uv_less [simp]: "uv a < uv b \<longleftrightarrow> a < b"
  by (simp add: uv_def word_less_def)

lemma uv_range: "0 \<le> uv b" "uv b \<le> 255"
  using uint_bounded[of b] by (auto simp: uv_def)

lemma cv_range: "- 128 \<le> cv b" "cv b \<le> 127"
  using sint_range_size[of b] by (auto simp: cv_def word_size)

text \<open>The value of a character literal, as an \<open>int\<close> and as a byte.\<close>

abbreviation ic :: "char \<Rightarrow> int" where "ic c \<equiv> of_char c"
abbreviation bc :: "char \<Rightarrow> byte" where "bc c \<equiv> of_char c"

text \<open>The bytes of a string literal, without the terminator.\<close>

abbreviation lit :: "string \<Rightarrow> byte list" where "lit s \<equiv> map of_char s"

section \<open>Writing memory\<close>

definition wr :: "mem \<Rightarrow> addr \<Rightarrow> byte \<Rightarrow> mem option" where
  "wr m p b = (case m p of None \<Rightarrow> None | Some _ \<Rightarrow> Some (m(p \<mapsto> b)))"

lemma wr_Some [simp]: "m p = Some c \<Longrightarrow> wr m p b = Some (m(p \<mapsto> b))"
  by (simp add: wr_def)

lemma wr_eq_Some: "wr m p b = Some m' \<longleftrightarrow> p \<in> dom m \<and> m' = m(p \<mapsto> b)"
  by (auto simp: wr_def split: option.splits)

lemma wr_dom: "wr m p b = Some m' \<Longrightarrow> dom m' = dom m"
  by (auto simp: wr_eq_Some)

text \<open>An update that the simplifier has unfolded under a binder is folded again.\<close>

lemma fun_upd_fold [simp]: "(\<lambda>p. if p = a then b else m p) = m(a := b)"
  by auto

lemma restrict_UNIV [simp]: "m |` UNIV = m"
  by (rule ext) simp

text \<open>A list of bytes laid out from an address.\<close>

fun store :: "mem \<Rightarrow> addr \<Rightarrow> byte list \<Rightarrow> mem" where
  "store m a [] = m"
| "store m a (x # xs) = store (m(a \<mapsto> x)) (Suc a) xs"

lemma store_apply:
  "store m a xs p = (if a \<le> p \<and> p < a + length xs then Some (xs ! (p - a)) else m p)"
proof (induction xs arbitrary: m a)
  case Nil
  show ?case by auto
next
  case (Cons x xs)
  show ?case
    by (auto simp: Cons.IH nth_Cons' not_less le_Suc_eq intro: arg_cong[of _ _ "(!) xs"])
qed

lemma store_other [mem_simps]: "p < a \<or> a + length xs \<le> p \<Longrightarrow> store m a xs p = m p"
  by (auto simp: store_apply)

lemma store_append: "store m a (xs @ ys) = store (store m a xs) (a + length xs) ys"
  by (induction xs arbitrary: m a) auto

lemma store_upd_comm: "p < a \<or> a + length xs \<le> p \<Longrightarrow> store (m(p \<mapsto> b)) a xs = (store m a xs)(p \<mapsto> b)"
  by (rule ext) (auto simp: store_apply)

lemma store_Cons_upd: "store m a (x # xs) = (store m (Suc a) xs)(a \<mapsto> x)"
  by (simp add: store_upd_comm)

lemma store_snoc: "store m a (xs @ [x]) = (store m a xs)(a + length xs \<mapsto> x)"
  by (simp add: store_append)

lemma store_twice: "length xs = length ys \<Longrightarrow> store (store m a xs) a ys = store m a ys"
  by (rule ext) (auto simp: store_apply)

section \<open>What memory holds\<close>

fun bytes_at :: "mem \<Rightarrow> addr \<Rightarrow> byte list \<Rightarrow> bool" where
  "bytes_at m a [] = True"
| "bytes_at m a (x # xs) = (m a = Some x \<and> bytes_at m (Suc a) xs)"

fun mapped :: "mem \<Rightarrow> addr \<Rightarrow> nat \<Rightarrow> bool" where
  "mapped m a 0 = True"
| "mapped m a (Suc n) = ((\<exists>x. m a = Some x) \<and> mapped m (Suc a) n)"

text \<open>The NUL-terminated string at an address (without its terminator).\<close>

fun str_at :: "mem \<Rightarrow> addr \<Rightarrow> byte list \<Rightarrow> bool" where
  "str_at m s [] = (m s = Some 0)"
| "str_at m s (x # xs) = (x \<noteq> 0 \<and> m s = Some x \<and> str_at m (Suc s) xs)"

lemma bytes_at_iff: "bytes_at m a xs \<longleftrightarrow> (\<forall>i < length xs. m (a + i) = Some (xs ! i))"
proof (induction xs arbitrary: a)
  case Nil
  then show ?case by simp
next
  case (Cons x xs)
  show ?case by (simp add: Cons.IH All_less_Suc2)
qed

lemma mapped_iff: "mapped m a n \<longleftrightarrow> (\<forall>i < n. \<exists>x. m (a + i) = Some x)"
proof (induction n arbitrary: a)
  case 0
  then show ?case by simp
next
  case (Suc n)
  show ?case by (simp add: Suc.IH All_less_Suc2)
qed

lemma mapped_dom: "mapped m a n \<longleftrightarrow> {a..<a + n} \<subseteq> dom m"
proof
  assume "mapped m a n"
  then have "m p \<noteq> None" if "a \<le> p" "p < a + n" for p
    using that unfolding mapped_iff by (metis add_diff_inverse_nat nat_add_left_cancel_less
        not_less option.distinct(1))
  then show "{a..<a + n} \<subseteq> dom m" by auto
next
  assume "{a..<a + n} \<subseteq> dom m"
  then show "mapped m a n" unfolding mapped_iff by (auto simp: domD subset_iff)
qed

lemma str_at_iff: "str_at m s xs \<longleftrightarrow> bytes_at m s (xs @ [0]) \<and> 0 \<notin> set xs"
  by (induction xs arbitrary: s) auto

lemma str_at_nth:
  assumes "str_at m s xs"
  shows "i < length xs \<Longrightarrow> m (s + i) = Some (xs ! i) \<and> xs ! i \<noteq> 0"
    and "m (s + length xs) = Some 0"
  using assms by (auto simp: str_at_iff bytes_at_iff nth_append dest: nth_mem split: if_splits)

lemma str_at_nonzero: "str_at m s xs \<Longrightarrow> 0 \<notin> set xs"
  by (simp add: str_at_iff)

lemma str_at_bytes: "str_at m s xs \<Longrightarrow> bytes_at m s (xs @ [0])"
  by (simp add: str_at_iff)

lemma str_at_drop: "str_at m s xs \<Longrightarrow> i \<le> length xs \<Longrightarrow> str_at m (s + i) (drop i xs)"
proof (induction xs arbitrary: s i)
  case Nil
  then show ?case by simp
next
  case (Cons x xs)
  then show ?case by (cases i) (auto simp flip: add_Suc)
qed

lemma str_at_append: "0 \<notin> set xs \<Longrightarrow> str_at m s (xs @ ys) \<longleftrightarrow> bytes_at m s xs \<and> str_at m (s + length xs) ys"
  by (induction xs arbitrary: s) auto

lemma str_at_unique: "str_at m s xs \<Longrightarrow> str_at m s ys \<Longrightarrow> xs = ys"
proof (induction xs arbitrary: s ys)
  case Nil
  then show ?case by (cases ys) auto
next
  case (Cons x xs)
  then show ?case by (cases ys) auto
qed

lemma bytes_at_append [simp]:
  "bytes_at m a (xs @ ys) \<longleftrightarrow> bytes_at m a xs \<and> bytes_at m (a + length xs) ys"
  by (induction xs arbitrary: a) auto

lemma bytes_at_mapped: "bytes_at m a xs \<Longrightarrow> mapped m a (length xs)"
  by (induction xs arbitrary: a) auto

lemma str_at_mapped: "str_at m s xs \<Longrightarrow> mapped m s (Suc (length xs))"
  using bytes_at_mapped[OF str_at_bytes] by fastforce

lemma mapped_add: "mapped m a (n + k) \<longleftrightarrow> mapped m a n \<and> mapped m (a + n) k"
  by (induction n arbitrary: a) auto

lemma mapped_le: "mapped m a n \<Longrightarrow> k \<le> n \<Longrightarrow> mapped m a k"
  by (auto simp: mapped_iff)

lemma mapped_get: "mapped m a n \<Longrightarrow> a \<le> p \<Longrightarrow> p < a + n \<Longrightarrow> \<exists>x. m p = Some x"
  by (auto simp: mapped_dom dom_def subset_iff)

lemma bytes_at_get: "bytes_at m a xs \<Longrightarrow> i < length xs \<Longrightarrow> m (a + i) = Some (xs ! i)"
  by (simp add: bytes_at_iff)

subsection \<open>After an update\<close>

lemma mapped_upd [mem_simps]: "mapped m a n \<Longrightarrow> mapped (m(p \<mapsto> b)) a n"
  by (auto simp: mapped_iff)

lemma mapped_store [mem_simps]: "mapped m a n \<Longrightarrow> mapped (store m p xs) a n"
  by (auto simp: mapped_iff store_apply)

lemma bytes_at_frame: "(\<And>i. i < length xs \<Longrightarrow> m' (a + i) = m (a + i)) \<Longrightarrow> bytes_at m' a xs = bytes_at m a xs"
  by (simp add: bytes_at_iff)

lemma bytes_at_upd [mem_simps]: "p < a \<or> a + length xs \<le> p \<Longrightarrow> bytes_at (m(p \<mapsto> b)) a xs = bytes_at m a xs"
  by (rule bytes_at_frame) auto

lemma bytes_at_store [mem_simps]:
  "p + length ys \<le> a \<or> a + length xs \<le> p \<Longrightarrow> bytes_at (store m p ys) a xs = bytes_at m a xs"
  by (rule bytes_at_frame) (auto simp: store_apply)

lemma bytes_at_store_same [simp]: "bytes_at (store m a xs) a xs"
  by (simp add: bytes_at_iff store_apply)

lemma str_at_frame: "(\<And>i. i \<le> length xs \<Longrightarrow> m' (s + i) = m (s + i)) \<Longrightarrow> str_at m' s xs = str_at m s xs"
  unfolding str_at_iff by (subst bytes_at_frame[of "xs @ [0]" m' s m]) auto

lemma str_at_upd [mem_simps]: "p < s \<or> s + length xs < p \<Longrightarrow> str_at (m(p \<mapsto> b)) s xs = str_at m s xs"
  by (auto simp: str_at_iff bytes_at_upd)

lemma str_at_store [mem_simps]:
  "p + length ys \<le> s \<or> s + length xs < p \<Longrightarrow> str_at (store m p ys) s xs = str_at m s xs"
  by (auto simp: str_at_iff bytes_at_store store_apply)

lemma str_at_store_same: "0 \<notin> set xs \<Longrightarrow> str_at (store m s (xs @ [0])) s xs"
  unfolding str_at_iff using bytes_at_store_same by blast

lemma dom_store: "dom (store m a xs) = {a..<a + length xs} \<union> dom m"
  by (auto simp: store_apply dom_def)

lemma dom_store_mapped: "mapped m a (length xs) \<Longrightarrow> dom (store m a xs) = dom m"
  by (auto simp: dom_store mapped_dom)

section \<open>Several bytes at a time\<close>

fun rd_n :: "mem \<Rightarrow> addr \<Rightarrow> nat \<Rightarrow> byte list option" where
  "rd_n m p 0 = Some []"
| "rd_n m p (Suc n) = do { b \<leftarrow> m p; bs \<leftarrow> rd_n m (Suc p) n; Some (b # bs) }"

fun wr_n :: "mem \<Rightarrow> addr \<Rightarrow> byte list \<Rightarrow> mem option" where
  "wr_n m p [] = Some m"
| "wr_n m p (b # bs) = do { m \<leftarrow> wr m p b; wr_n m (Suc p) bs }"

lemma rd_n_bytes: "bytes_at m p xs \<Longrightarrow> rd_n m p (length xs) = Some xs"
  by (induction xs arbitrary: p) auto

lemma wr_n_mapped: "mapped m p (length xs) \<Longrightarrow> wr_n m p xs = Some (store m p xs)"
proof (induction xs arbitrary: m p)
  case Nil
  then show ?case by simp
next
  case (Cons x xs)
  then have "mapped (m(p \<mapsto> x)) (Suc p) (length xs)" by (auto intro: mapped_upd)
  with Cons show ?case by auto
qed

lemma rd_n_mapped: "mapped m p n \<Longrightarrow> \<exists>xs. rd_n m p n = Some xs \<and> length xs = n \<and> bytes_at m p xs"
  by (induction n arbitrary: p) force+

section \<open>Evaluation\<close>

text \<open>
  Unfolding a loop on a concrete memory: the continuation of a bind is left alone until its
  first argument is a value.
\<close>

lemma bind_weak_cong: "f = g \<Longrightarrow> Option.bind f h = Option.bind g h"
  by simp

lemma bind_eq_SomeI: "f = Some x \<Longrightarrow> h x = r \<Longrightarrow> Option.bind f h = r"
  by simp

section \<open>Error numbers\<close>

abbreviation (input) EBADF :: int where "EBADF \<equiv> 8"
abbreviation (input) EBUSY :: int where "EBUSY \<equiv> 10"
abbreviation (input) EEXIST :: int where "EEXIST \<equiv> 20"
abbreviation (input) EFAULT :: int where "EFAULT \<equiv> 21"
abbreviation (input) EINVAL :: int where "EINVAL \<equiv> 29"
abbreviation (input) EIO :: int where "EIO \<equiv> 30"
abbreviation (input) EISDIR :: int where "EISDIR \<equiv> 32"
abbreviation (input) ENOENT :: int where "ENOENT \<equiv> 46"
abbreviation (input) ENOEXEC :: int where "ENOEXEC \<equiv> 47"
abbreviation (input) ENOMEM :: int where "ENOMEM \<equiv> 50"
abbreviation (input) ENOSYS :: int where "ENOSYS \<equiv> 56"
abbreviation (input) ENOTDIR :: int where "ENOTDIR \<equiv> 58"
abbreviation (input) ENOTEMPTY :: int where "ENOTEMPTY \<equiv> 59"
abbreviation (input) ENOTSUP :: int where "ENOTSUP \<equiv> 62"
abbreviation (input) ENOTTY :: int where "ENOTTY \<equiv> 63"
abbreviation (input) EPERM :: int where "EPERM \<equiv> 68"
abbreviation (input) ERANGE :: int where "ERANGE \<equiv> 73"
abbreviation (input) EXDEV :: int where "EXDEV \<equiv> 82"

lemma find_append: "find P (xs @ ys) = (case find P xs of None \<Rightarrow> find P ys | Some x \<Rightarrow> Some x)"
  by (induction xs) auto

end
