(* ===== verification/Mem_Ops.thy ===== *)
theory Mem_Ops
  imports C_Prelude
begin

text \<open>
  The block operations of \<open>libc/src/string\<close>: \<open>memcpy\<close>, \<open>memmove\<close>, \<open>memset\<close>,
  \<open>memchr\<close> and \<open>memcmp\<close>.  A writing function returns the pointer the C function returns
  and the memory it leaves.
\<close>

section \<open>Operations\<close>

subsection \<open>memcpy: four bytes, then two, then one at a time\<close>

text \<open>Each loop returns the two pointers and the count it ends with, and the memory.\<close>

function memcpy_words :: "mem \<Rightarrow> addr \<Rightarrow> addr \<Rightarrow> nat \<Rightarrow> (addr \<times> addr \<times> nat \<times> mem) option" where
  "memcpy_words m targetPtr sourcePtr num =
     (if num \<ge> 4 then do {
        w \<leftarrow> rd_n m sourcePtr 4;
        m \<leftarrow> wr_n m targetPtr w;
        memcpy_words m (targetPtr + 4) (sourcePtr + 4) (num - 4)
      } else Some (targetPtr, sourcePtr, num, m))"
  by pat_completeness auto
termination
  by (relation "measure (\<lambda>(m, t, s, n). n)") auto

function memcpy_halves :: "mem \<Rightarrow> addr \<Rightarrow> addr \<Rightarrow> nat \<Rightarrow> (addr \<times> addr \<times> nat \<times> mem) option" where
  "memcpy_halves m targetPtr sourcePtr num =
     (if num \<ge> 2 then do {
        w \<leftarrow> rd_n m sourcePtr 2;
        m \<leftarrow> wr_n m targetPtr w;
        memcpy_halves m (targetPtr + 2) (sourcePtr + 2) (num - 2)
      } else Some (targetPtr, sourcePtr, num, m))"
  by pat_completeness auto
termination
  by (relation "measure (\<lambda>(m, t, s, n). n)") auto

fun copy_forward :: "mem \<Rightarrow> addr \<Rightarrow> addr \<Rightarrow> nat \<Rightarrow> mem option" where
  "copy_forward m dest src 0 = Some m"
| "copy_forward m dest src (Suc num) = do {
     b \<leftarrow> m src;
     m \<leftarrow> wr m dest b;
     copy_forward m (dest + 1) (src + 1) num
   }"

definition memcpy :: "mem \<Rightarrow> addr \<Rightarrow> addr \<Rightarrow> nat \<Rightarrow> (addr \<times> mem) option" where
  "memcpy m dest src num = do {
     (targetPtr, sourcePtr, num, m) \<leftarrow> memcpy_words m dest src num;
     (targetPtr, sourcePtr, num, m) \<leftarrow> memcpy_halves m targetPtr sourcePtr num;
     m \<leftarrow> copy_forward m targetPtr sourcePtr num;
     Some (dest, m)
   }"

subsection \<open>memmove\<close>

fun copy_backward :: "mem \<Rightarrow> addr \<Rightarrow> addr \<Rightarrow> nat \<Rightarrow> mem option" where
  "copy_backward m dest_8 src_8 0 = Some m"
| "copy_backward m dest_8 src_8 (Suc num) = do {
     b \<leftarrow> m src_8;
     m \<leftarrow> wr m dest_8 b;
     copy_backward m (dest_8 - 1) (src_8 - 1) num
   }"

definition memmove :: "mem \<Rightarrow> addr \<Rightarrow> addr \<Rightarrow> nat \<Rightarrow> (addr \<times> mem) option" where
  "memmove m dest src num = do {
     m \<leftarrow> (if dest > src
           then copy_backward m (dest + num - 1) (src + num - 1) num
           else copy_forward m dest src num);
     Some (dest, m)
   }"

subsection \<open>memset, memchr, memcmp\<close>

fun memset_loop :: "mem \<Rightarrow> addr \<Rightarrow> byte \<Rightarrow> nat \<Rightarrow> mem option" where
  "memset_loop m mem8 v 0 = Some m"
| "memset_loop m mem8 v (Suc len) = do { m \<leftarrow> wr m (mem8 + len) v; memset_loop m mem8 v len }"

definition memset :: "mem \<Rightarrow> addr \<Rightarrow> int \<Rightarrow> nat \<Rightarrow> (addr \<times> mem) option" where
  "memset m p value len = do { m \<leftarrow> memset_loop m p (to_byte value) len; Some (p, m) }"

fun memchr_loop :: "mem \<Rightarrow> addr \<Rightarrow> byte \<Rightarrow> nat \<Rightarrow> addr option" where
  "memchr_loop m mem8 v 0 = Some NULL"
| "memchr_loop m mem8 v (Suc num) = do {
     c \<leftarrow> m mem8;
     if c = v then Some mem8 else memchr_loop m (mem8 + 1) v num
   }"

definition memchr :: "mem \<Rightarrow> addr \<Rightarrow> int \<Rightarrow> nat \<Rightarrow> addr option" where
  "memchr m p value num = memchr_loop m p (to_byte value) num"

function memcmp_loop :: "mem \<Rightarrow> addr \<Rightarrow> addr \<Rightarrow> nat \<Rightarrow> nat \<Rightarrow> int option" where
  "memcmp_loop m mem_a8 mem_b8 len i =
     (if i < len then do {
        a \<leftarrow> m (mem_a8 + i);
        b \<leftarrow> m (mem_b8 + i);
        if a > b then Some 1
        else if a < b then Some (- 1)
        else memcmp_loop m mem_a8 mem_b8 len (i + 1)
      } else Some 0)"
  by pat_completeness auto
termination
  by (relation "measure (\<lambda>(m, a, b, len, i). len - i)") auto

definition memcmp :: "mem \<Rightarrow> addr \<Rightarrow> addr \<Rightarrow> nat \<Rightarrow> int option" where
  "memcmp m mem_a mem_b len = memcmp_loop m mem_a mem_b len 0"

declare memcpy_words.simps [simp del] memcpy_halves.simps [simp del] memcmp_loop.simps [simp del]

section \<open>Copying\<close>

text \<open>
  A forward copy never reads a byte it has already overwritten when the target lies before the
  source or behind its end.
\<close>

definition fwd_ok :: "addr \<Rightarrow> addr \<Rightarrow> nat \<Rightarrow> bool" where
  "fwd_ok d s n \<longleftrightarrow> d \<le> s \<or> s + n \<le> d"

lemma copy_forward_correct:
  "bytes_at m s xs \<Longrightarrow> mapped m d (length xs) \<Longrightarrow> fwd_ok d s (length xs) \<Longrightarrow>
   copy_forward m d s (length xs) = Some (store m d xs)"
proof (induction xs arbitrary: m d s)
  case Nil
  then show ?case by simp
next
  case (Cons x xs)
  let ?m = "m(d \<mapsto> x)"
  from Cons.prems have 1: "bytes_at ?m (Suc s) xs" "mapped ?m (Suc d) (length xs)"
    by (auto simp: fwd_ok_def bytes_at_upd mapped_upd)
  have 2: "fwd_ok (Suc d) (Suc s) (length xs)"
    using Cons.prems by (auto simp: fwd_ok_def)
  from Cons.prems obtain c where c: "m s = Some x" "m d = Some c" by auto
  show ?case using Cons.IH[OF 1 2] c by (simp del: fun_upd_apply)
qed

text \<open>One chunk of \<open>k\<close> bytes, as the word-wise loops move it, then the rest.\<close>

lemma chunk_step:
  assumes "bytes_at m s xs" "mapped m d (length xs)" "fwd_ok d s (length xs)" "k \<le> length xs"
  shows "rd_n m s k = Some (take k xs)"
    and "wr_n m d (take k xs) = Some (store m d (take k xs))"
    and "bytes_at (store m d (take k xs)) (s + k) (drop k xs)"
    and "mapped (store m d (take k xs)) (d + k) (length (drop k xs))"
    and "fwd_ok (d + k) (s + k) (length (drop k xs))"
    and "store (store m d (take k xs)) (d + k) (drop k xs) = store m d xs"
proof -
  have len: "length (take k xs) = k" using assms(4) by simp
  have split: "bytes_at m s (take k xs)" "bytes_at m (s + k) (drop k xs)"
    using assms(1) len bytes_at_append[of m s "take k xs" "drop k xs"] by auto
  show "rd_n m s k = Some (take k xs)" using rd_n_bytes[OF split(1)] len by simp
  have map2: "mapped m d k" "mapped m (d + k) (length xs - k)"
    using assms(2,4) mapped_add[of m d k "length xs - k"] by auto
  show "wr_n m d (take k xs) = Some (store m d (take k xs))"
    using wr_n_mapped[of m d "take k xs"] map2 len by simp
  show "bytes_at (store m d (take k xs)) (s + k) (drop k xs)"
    using split(2) assms(3,4) by (subst bytes_at_store) (auto simp: fwd_ok_def)
  show "mapped (store m d (take k xs)) (d + k) (length (drop k xs))"
    using map2(2) by (simp add: mapped_store)
  show "fwd_ok (d + k) (s + k) (length (drop k xs))"
    using assms(3,4) by (auto simp: fwd_ok_def)
  show "store (store m d (take k xs)) (d + k) (drop k xs) = store m d xs"
    using store_append[of m d "take k xs" "drop k xs"] len by simp
qed

text \<open>
  The word-wise loops are a forward copy of a multiple of the chunk size, and leave a rest
  shorter than a chunk.
\<close>

lemma memcpy_words_correct:
  assumes "bytes_at m s xs" "mapped m d (length xs)" "fwd_ok d s (length xs)"
  shows "\<exists>k \<le> length xs. length xs - k < 4 \<and>
    memcpy_words m d s (length xs) = Some (d + k, s + k, length xs - k, store m d (take k xs))"
  using assms
proof (induction "length xs" arbitrary: m d s xs rule: less_induct)
  case less
  show ?case
  proof (cases "length xs \<ge> 4")
    case False
    then show ?thesis by (intro exI[of _ 0]) (simp add: memcpy_words.simps)
  next
    case True
    note c = chunk_step[OF less.prems True]
    let ?ys = "drop 4 xs" and ?m = "store m d (take 4 xs)"
    have "length ?ys < length xs" using True by simp
    from less.hyps[OF this c(3-5)] obtain k where k: "k \<le> length ?ys" "length ?ys - k < 4"
      "memcpy_words ?m (d + 4) (s + 4) (length ?ys)
         = Some (d + 4 + k, s + 4 + k, length ?ys - k, store ?m (d + 4) (take k ?ys))"
      by blast
    have "store ?m (d + 4) (take k ?ys) = store m d (take (4 + k) xs)"
      using store_append[of m d "take 4 xs" "take k ?ys"] True by (simp add: take_add)
    with k True c(1,2) show ?thesis
      by (intro exI[of _ "4 + k"])
        (auto simp: memcpy_words.simps[of m] add.assoc)
  qed
qed

lemma memcpy_halves_correct:
  assumes "bytes_at m s xs" "mapped m d (length xs)" "fwd_ok d s (length xs)"
  shows "\<exists>k \<le> length xs. length xs - k < 2 \<and>
    memcpy_halves m d s (length xs) = Some (d + k, s + k, length xs - k, store m d (take k xs))"
  using assms
proof (induction "length xs" arbitrary: m d s xs rule: less_induct)
  case less
  show ?case
  proof (cases "length xs \<ge> 2")
    case False
    then show ?thesis by (intro exI[of _ 0]) (simp add: memcpy_halves.simps)
  next
    case True
    note c = chunk_step[OF less.prems True]
    let ?ys = "drop 2 xs" and ?m = "store m d (take 2 xs)"
    have "length ?ys < length xs" using True by simp
    from less.hyps[OF this c(3-5)] obtain k where k: "k \<le> length ?ys" "length ?ys - k < 2"
      "memcpy_halves ?m (d + 2) (s + 2) (length ?ys)
         = Some (d + 2 + k, s + 2 + k, length ?ys - k, store ?m (d + 2) (take k ?ys))"
      by blast
    have "store ?m (d + 2) (take k ?ys) = store m d (take (2 + k) xs)"
      using store_append[of m d "take 2 xs" "take k ?ys"] True
      by (simp add: take_add del: add_2_eq_Suc add_2_eq_Suc' take_Suc_Cons)
    with k True c(1,2) show ?thesis
      by (intro exI[of _ "2 + k"])
        (auto simp: memcpy_halves.simps[of m] add.assoc)
  qed
qed

lemma memcpy_correct:
  assumes "bytes_at m s xs" "mapped m d (length xs)" "fwd_ok d s (length xs)"
  shows "memcpy m d s (length xs) = Some (d, store m d xs)"
proof -
  obtain k where k: "k \<le> length xs"
    "memcpy_words m d s (length xs) = Some (d + k, s + k, length xs - k, store m d (take k xs))"
    using memcpy_words_correct[OF assms] by blast
  note c = chunk_step[OF assms k(1)]
  let ?m = "store m d (take k xs)" and ?ys = "drop k xs"
  obtain j where j: "j \<le> length ?ys"
    "memcpy_halves ?m (d + k) (s + k) (length ?ys)
       = Some (d + k + j, s + k + j, length ?ys - j, store ?m (d + k) (take j ?ys))"
    using memcpy_halves_correct[OF c(3-5)] by blast
  note e = chunk_step[OF c(3-5) j(1)]
  have "copy_forward (store ?m (d + k) (take j ?ys)) (d + k + j) (s + k + j) (length ?ys - j)
      = Some (store (store ?m (d + k) (take j ?ys)) (d + k + j) (drop j ?ys))"
    using copy_forward_correct[OF e(3-5)] by (simp only: length_drop)
  then have "copy_forward (store ?m (d + k) (take j ?ys)) (d + k + j) (s + k + j) (length ?ys - j)
      = Some (store m d xs)"
    using c(6) e(6) by (simp only:)
  with k j show ?thesis by (simp add: memcpy_def)
qed

lemma copy_backward_correct:
  "bytes_at m s xs \<Longrightarrow> mapped m d (length xs) \<Longrightarrow> s \<le> d \<Longrightarrow>
   copy_backward m (d + length xs - 1) (s + length xs - 1) (length xs) = Some (store m d xs)"
proof (induction xs arbitrary: m rule: rev_induct)
  case Nil
  then show ?case by simp
next
  case (snoc x xs)
  let ?m = "m(d + length xs \<mapsto> x)"
  from snoc.prems have 1: "bytes_at ?m s xs" "mapped ?m d (length xs)"
    using mapped_le[OF snoc.prems(2), of "length xs"] by (auto simp: bytes_at_upd mapped_upd)
  obtain c where c: "m (d + length xs) = Some c"
    using mapped_get[OF snoc.prems(2)] by fastforce
  have "store ?m d xs = store m d (xs @ [x])"
    by (simp add: store_append store_upd_comm)
  moreover have "m (s + length xs) = Some x" using snoc.prems(1) by simp
  ultimately show ?case using snoc.IH[OF 1 snoc.prems(3)] c by (simp del: fun_upd_apply)
qed

lemma memmove_correct:
  assumes "bytes_at m s xs" "mapped m d (length xs)"
  shows "memmove m d s (length xs) = Some (d, store m d xs)"
proof (cases "d > s")
  case True
  then show ?thesis using copy_backward_correct[OF assms] by (simp add: memmove_def)
next
  case False
  then have "fwd_ok d s (length xs)" by (simp add: fwd_ok_def)
  then show ?thesis using copy_forward_correct[OF assms] False by (simp add: memmove_def)
qed

section \<open>Filling, searching, comparing\<close>

lemma memset_loop_correct:
  "mapped m p n \<Longrightarrow> memset_loop m p v n = Some (store m p (replicate n v))"
proof (induction n arbitrary: m)
  case 0
  then show ?case by simp
next
  case (Suc n)
  obtain c where c: "m (p + n) = Some c"
    using mapped_get[OF Suc.prems] by fastforce
  have m: "mapped (m(p + n \<mapsto> v)) p n"
    using mapped_le[OF Suc.prems] by (simp add: mapped_upd)
  have "store m p (replicate n v @ [v]) = store (m(p + n \<mapsto> v)) p (replicate n v)"
    by (simp add: store_snoc store_upd_comm del: store.simps)
  then have "store (m(p + n \<mapsto> v)) p (replicate n v) = store m p (replicate (Suc n) v)"
    by (simp add: replicate_append_same)
  with Suc.IH[OF m] c show ?case by (simp del: fun_upd_apply)
qed

lemma memset_correct:
  "mapped m p n \<Longrightarrow> memset m p v n = Some (p, store m p (replicate n (to_byte v)))"
  by (simp add: memset_def memset_loop_correct)

lemma memchr_correct:
  "bytes_at m p xs \<Longrightarrow>
   memchr m p v (length xs)
     = Some (if to_byte v \<in> set xs then p + length (takeWhile (\<lambda>b. b \<noteq> to_byte v) xs) else NULL)"
  unfolding memchr_def by (induction xs arbitrary: p) auto

text \<open>The sign of the first difference of two lists, the order \<open>memcmp\<close> computes.\<close>

fun lex_cmp :: "byte list \<Rightarrow> byte list \<Rightarrow> int" where
  "lex_cmp (x # xs) (y # ys) = (if x > y then 1 else if x < y then - 1 else lex_cmp xs ys)"
| "lex_cmp [] (y # ys) = - 1"
| "lex_cmp (x # xs) [] = 1"
| "lex_cmp [] [] = 0"

lemma lex_cmp_eq: "lex_cmp xs ys = 0 \<longleftrightarrow> xs = ys"
  by (induction xs ys rule: lex_cmp.induct) auto

lemma lex_cmp_refl [simp]: "lex_cmp xs xs = 0"
  by (simp add: lex_cmp_eq)

lemma lex_cmp_swap: "lex_cmp ys xs = - lex_cmp xs ys"
  by (induction xs ys rule: lex_cmp.induct) auto

lemma lex_cmp_trans: "lex_cmp xs ys \<le> 0 \<Longrightarrow> lex_cmp ys zs \<le> 0 \<Longrightarrow> lex_cmp xs zs \<le> 0"
proof (induction xs ys arbitrary: zs rule: lex_cmp.induct)
  case (1 x xs y ys)
  then show ?case by (cases zs) (auto split: if_splits)
next
  case (2 y ys)
  then show ?case by (cases zs) auto
qed auto

lemma memcmp_loop_correct:
  "bytes_at m a (us @ xs) \<Longrightarrow> bytes_at m b (vs @ ys) \<Longrightarrow> length us = length vs \<Longrightarrow>
   length xs = length ys \<Longrightarrow> memcmp_loop m a b (length us + length xs) (length us) = Some (lex_cmp xs ys)"
proof (induction xs arbitrary: us vs ys)
  case Nil
  then show ?case by (simp add: memcmp_loop.simps)
next
  case (Cons x xs)
  then obtain y ys' where y: "ys = y # ys'" by (cases ys) auto
  have "memcmp_loop m a b (length (us @ [x]) + length xs) (length (us @ [x])) = Some (lex_cmp xs ys')"
    using Cons.prems y by (intro Cons.IH[of "us @ [x]" "vs @ [y]"]) auto
  with Cons.prems y show ?case
    by (subst memcmp_loop.simps) (auto simp: not_less_iff_gr_or_eq)
qed

lemma memcmp_correct:
  "bytes_at m a xs \<Longrightarrow> bytes_at m b ys \<Longrightarrow> length xs = length ys \<Longrightarrow>
   memcmp m a b (length xs) = Some (lex_cmp xs ys)"
  unfolding memcmp_def using memcmp_loop_correct[of m a "[]" xs b "[]" ys] by simp

section \<open>Properties\<close>

text \<open>
  C29. \<open>memmove\<close> returns its target, leaves there exactly the bytes the source held before the
  call, however the two blocks overlap, and changes no byte outside the target block.
\<close>

theorem memmove_overlapping:
  assumes "bytes_at m s xs" "mapped m d (length xs)"
  shows "\<exists>m'. memmove m d s (length xs) = Some (d, m') \<and> bytes_at m' d xs \<and>
    (\<forall>p. p < d \<or> d + length xs \<le> p \<longrightarrow> m' p = m p)"
  using memmove_correct[OF assms] by (auto simp: store_other)

theorem memmove_overlapping_witness:
  "\<exists>m'. memmove (store (\<lambda>_. Some 0) 100 [1, 2, 3]) 101 100 (length [1 :: byte, 2, 3]) = Some (101, m') \<and>
    bytes_at m' 101 [1, 2, 3] \<and>
    (\<forall>p. p < 101 \<or> 101 + length [1 :: byte, 2, 3] \<le> p \<longrightarrow> m' p = store (\<lambda>_. Some 0) 100 [1, 2, 3] p)"
  by (rule memmove_overlapping) simp_all

text \<open>
  Where no byte of the source is overwritten before it is read, \<open>memcpy\<close> with its loops of
  four, two and one bytes is the plain bytewise copy, which is what \<open>memmove\<close> computes.
\<close>

theorem memcpy_is_memmove:
  assumes "mapped m s n" "mapped m d n" "d \<le> s \<or> s + n \<le> d"
  shows "memcpy m d s n = memmove m d s n \<and> memcpy m d s n \<noteq> None"
proof -
  obtain xs where "bytes_at m s xs" "length xs = n" using rd_n_mapped[OF assms(1)] by blast
  then show ?thesis
    using memcpy_correct[of m s xs d] memmove_correct[of m s xs d] assms by (auto simp: fwd_ok_def)
qed

theorem memcpy_is_memmove_witness:
  "memcpy (store (\<lambda>_. Some 0) 100 [1, 2, 3, 4, 5, 6, 7]) 98 100 7
     = memmove (store (\<lambda>_. Some 0) 100 [1, 2, 3, 4, 5, 6, 7]) 98 100 7 \<and>
   memcpy (store (\<lambda>_. Some 0) 100 [1, 2, 3, 4, 5, 6, 7]) 98 100 7 \<noteq> None"
  by (rule memcpy_is_memmove) (simp_all add: mapped_iff)

end
