(* ===== verification/Ctype.thy ===== *)
theory Ctype
  imports C_Prelude
begin

text \<open>
  The character classes of \<open>libc/src/ctype/*.c\<close>.  Each function takes an \<open>int\<close>; the
  0/1 results of the predicates are truth values here.
\<close>

definition islower :: "int \<Rightarrow> bool" where
  "islower c = (c \<ge> ic CHR ''a'' \<and> c \<le> ic CHR ''z'')"

definition isupper :: "int \<Rightarrow> bool" where
  "isupper c = (c \<ge> ic CHR ''A'' \<and> c \<le> ic CHR ''Z'')"

definition isalpha :: "int \<Rightarrow> bool" where
  "isalpha c = (islower c \<or> isupper c)"

definition isdigit :: "int \<Rightarrow> bool" where
  "isdigit c = (c \<ge> ic CHR ''0'' \<and> c \<le> ic CHR ''9'')"

definition isalnum :: "int \<Rightarrow> bool" where
  "isalnum c = (isalpha c \<or> isdigit c)"

text \<open>\<open>(unsigned int) c\<close> is \<open>c\<close> modulo \<open>2^32\<close>.\<close>

definition isascii :: "int \<Rightarrow> bool" where
  "isascii c = (u32 c \<le> 0x7f)"

definition isblank :: "int \<Rightarrow> bool" where
  "isblank c = (c = ic CHR '' '' \<or> c = 9)"

definition iscntrl :: "int \<Rightarrow> bool" where
  "iscntrl c = (c \<ge> 0 \<and> c < 32)"

definition isgraph :: "int \<Rightarrow> bool" where
  "isgraph c = (c \<ge> ic CHR ''!'' \<and> c \<le> ic CHR ''~'')"

definition isprint :: "int \<Rightarrow> bool" where
  "isprint c = (c \<ge> ic CHR '' '' \<and> c \<le> ic CHR ''~'')"

definition ispunct :: "int \<Rightarrow> bool" where
  "ispunct c = (isgraph c \<and> \<not> isalnum c)"

text \<open>The escapes \<open>\f \n \r \t \v\<close> are 12, 10, 13, 9 and 11.\<close>

definition isspace :: "int \<Rightarrow> bool" where
  "isspace c = (c = ic CHR '' '' \<or> c = 12 \<or> c = 10 \<or> c = 13 \<or> c = 9 \<or> c = 11)"

definition isxdigit :: "int \<Rightarrow> bool" where
  "isxdigit c = ((c \<ge> ic CHR ''0'' \<and> c \<le> ic CHR ''9'') \<or> (c \<ge> ic CHR ''a'' \<and> c \<le> ic CHR ''f'')
     \<or> (c \<ge> ic CHR ''A'' \<and> c \<le> ic CHR ''F''))"

definition tolower :: "int \<Rightarrow> int" where
  "tolower c = (if c \<ge> ic CHR ''A'' \<and> c \<le> ic CHR ''Z'' then ic CHR ''a'' + (c - ic CHR ''A'') else c)"

definition toupper :: "int \<Rightarrow> int" where
  "toupper c = (if c \<ge> ic CHR ''a'' \<and> c \<le> ic CHR ''z'' then ic CHR ''A'' + (c - ic CHR ''a'') else c)"

lemmas ctype_defs = islower_def isupper_def isalpha_def isdigit_def isalnum_def isascii_def
  isblank_def iscntrl_def isgraph_def isprint_def ispunct_def isspace_def isxdigit_def
  tolower_def toupper_def

section \<open>The classes fit together\<close>

lemma tolower_idem [simp]: "tolower (tolower c) = tolower c"
  by (auto simp: tolower_def)

lemma toupper_tolower: "islower c \<Longrightarrow> tolower (toupper c) = c"
  by (auto simp: ctype_defs)

lemma tolower_not_upper: "\<not> isupper (tolower c)"
  by (auto simp: ctype_defs)

lemma isgraph_iff: "isgraph c \<longleftrightarrow> isalnum c \<or> ispunct c"
  by (auto simp: ctype_defs)

lemma isprint_iff: "isprint c \<longleftrightarrow> isgraph c \<or> c = ic CHR '' ''"
  by (auto simp: ctype_defs)

lemma iscntrl_not_isprint: "iscntrl c \<Longrightarrow> \<not> isprint c"
  by (auto simp: ctype_defs)

lemma isdigit_cv_range: "isdigit (cv b) \<Longrightarrow> 48 \<le> cv b \<and> cv b \<le> 57"
  by (simp add: isdigit_def)

text \<open>Case folding of a byte, as the case-insensitive comparisons apply it.\<close>

definition lowerb :: "byte \<Rightarrow> byte" where
  "lowerb b = to_byte (tolower (uv b))"

lemma uv_to_byte: "0 \<le> x \<Longrightarrow> x < 256 \<Longrightarrow> uv (to_byte x) = x"
  by (simp add: uv_def to_byte_def uint_word_of_int)

lemma tolower_uv_range: "0 \<le> tolower (uv b)" "tolower (uv b) < 256"
  using uv_range[of b] by (auto simp: tolower_def)

lemma uv_lowerb [simp]: "uv (lowerb b) = tolower (uv b)"
  by (simp add: lowerb_def uv_to_byte tolower_uv_range)

lemma lowerb_idem [simp]: "lowerb (lowerb b) = lowerb b"
  by (metis uv_lowerb uv_inj tolower_idem)

lemma lowerb_zero [simp]: "lowerb b = 0 \<longleftrightarrow> b = 0"
proof -
  have "tolower (uv b) = 0 \<longleftrightarrow> uv b = 0" by (auto simp: tolower_def)
  then show ?thesis by (metis uv_lowerb uv_zero)
qed

lemma lowerb_0 [simp]: "lowerb 0 = 0"
  by simp

lemma lowerb_pos [simp]: "0 < lowerb b \<longleftrightarrow> 0 < b"
  using lowerb_zero[of b] by (simp add: word_neq_0_conv[symmetric] del: lowerb_zero)

end
