(* ===== verification/C_String.thy ===== *)
theory C_String
  imports Ctype Mem_Ops
begin

text \<open>
  The NUL-terminated string functions of \<open>libc/src/string\<close> and \<open>libc/src/strings\<close> that
  measure, compare, copy and search single strings.  The loops that run to a terminator are
  \<open>partial_function (option)\<close>: their \<open>None\<close> is a read outside the mapped memory, or a loop that
  never meets a terminator.
\<close>

section \<open>Length\<close>

partial_function (option) strlen_loop :: "mem \<Rightarrow> addr \<Rightarrow> nat \<Rightarrow> nat option" where
  "strlen_loop m s len = do { c \<leftarrow> m (s + len); if c \<noteq> 0 then strlen_loop m s (len + 1) else Some len }"

definition strlen :: "mem \<Rightarrow> addr \<Rightarrow> nat option" where
  "strlen m s = (if s = NULL then Some 0 else strlen_loop m s 0)"

section \<open>Comparison\<close>

text \<open>The loops read the characters as \<open>uint8_t\<close>.\<close>

partial_function (option) strcmp :: "mem \<Rightarrow> addr \<Rightarrow> addr \<Rightarrow> int option" where
  "strcmp m mem_a8 mem_b8 = do {
     a \<leftarrow> m mem_a8;
     b \<leftarrow> m mem_b8;
     if a = 0 \<and> b = 0 then Some 0
     else if a < b then Some (- 1)
     else if a > b then Some 1
     else strcmp m (mem_a8 + 1) (mem_b8 + 1)
   }"

text \<open>\<open>strcmp(str, "...")\<close> with a literal, given by its bytes.\<close>

fun strcmp_lit :: "mem \<Rightarrow> addr \<Rightarrow> byte list \<Rightarrow> int option" where
  "strcmp_lit m p [] = do { a \<leftarrow> m p; Some (if a = 0 then 0 else 1) }"
| "strcmp_lit m p (b # bs) = do {
     a \<leftarrow> m p;
     if a < b then Some (- 1) else if a > b then Some 1 else strcmp_lit m (p + 1) bs
   }"

definition strcoll :: "mem \<Rightarrow> addr \<Rightarrow> addr \<Rightarrow> int option" where
  "strcoll m str_a str_b = strcmp m str_a str_b"

fun strncmp :: "mem \<Rightarrow> addr \<Rightarrow> addr \<Rightarrow> nat \<Rightarrow> int option" where
  "strncmp m mem_a8 mem_b8 0 = Some 0"
| "strncmp m mem_a8 mem_b8 (Suc num) = do {
     a \<leftarrow> m mem_a8;
     b \<leftarrow> m mem_b8;
     if a = 0 \<and> b = 0 then Some 0
     else if a < b then Some (- 1)
     else if a > b then Some 1
     else strncmp m (mem_a8 + 1) (mem_b8 + 1) num
   }"

partial_function (option) strcasecmp :: "mem \<Rightarrow> addr \<Rightarrow> addr \<Rightarrow> int option" where
  "strcasecmp m mem_a8 mem_b8 = do {
     x \<leftarrow> m mem_a8;
     y \<leftarrow> m mem_b8;
     let a = to_byte (tolower (uv x)); b = to_byte (tolower (uv y)) in
     if a = 0 \<and> b = 0 then Some 0
     else if a < b then Some (- 1)
     else if a > b then Some 1
     else strcasecmp m (mem_a8 + 1) (mem_b8 + 1)
   }"

fun strncasecmp :: "mem \<Rightarrow> addr \<Rightarrow> addr \<Rightarrow> nat \<Rightarrow> int option" where
  "strncasecmp m mem_a8 mem_b8 0 = Some 0"
| "strncasecmp m mem_a8 mem_b8 (Suc num) = do {
     x \<leftarrow> m mem_a8;
     y \<leftarrow> m mem_b8;
     let a = to_byte (tolower (uv x)); b = to_byte (tolower (uv y)) in
     if a = 0 \<and> b = 0 then Some 0
     else if a < b then Some (- 1)
     else if a > b then Some 1
     else strncasecmp m (mem_a8 + 1) (mem_b8 + 1) num
   }"

section \<open>Copying and concatenation\<close>

text \<open>\<open>strcpy\<close> advances \<open>dest\<close> itself, so the pointer it returns is the advanced one.\<close>

partial_function (option) strcpy :: "mem \<Rightarrow> addr \<Rightarrow> addr \<Rightarrow> (addr \<times> mem) option" where
  "strcpy m dest src = do {
     c \<leftarrow> m src;
     if c \<noteq> 0 then do { m \<leftarrow> wr m dest c; strcpy m (dest + 1) (src + 1) }
     else do { m \<leftarrow> wr m dest 0; Some (dest, m) }
   }"

definition stpcpy :: "mem \<Rightarrow> addr \<Rightarrow> addr \<Rightarrow> (addr \<times> mem) option" where
  "stpcpy m dest src = do {
     len \<leftarrow> strlen m src;
     (_, m) \<leftarrow> memcpy m dest src (len + 1);
     Some (dest + len, m)
   }"

definition strcat :: "mem \<Rightarrow> addr \<Rightarrow> addr \<Rightarrow> (addr \<times> mem) option" where
  "strcat m dest src = do {
     len \<leftarrow> strlen m dest;
     (_, m) \<leftarrow> strcpy m (dest + len) src;
     Some (dest, m)
   }"

function strncpy_copy :: "mem \<Rightarrow> addr \<Rightarrow> addr \<Rightarrow> nat \<Rightarrow> nat \<Rightarrow> (nat \<times> mem) option" where
  "strncpy_copy m dest src num i =
     (if i < num then do {
        c \<leftarrow> m (src + i);
        if c \<noteq> 0 then do { m \<leftarrow> wr m (dest + i) c; strncpy_copy m dest src num (i + 1) }
        else Some (i, m)
      } else Some (i, m))"
  by pat_completeness auto
termination
  by (relation "measure (\<lambda>(m, d, s, num, i). num - i)") auto

function strncpy_pad :: "mem \<Rightarrow> addr \<Rightarrow> nat \<Rightarrow> nat \<Rightarrow> mem option" where
  "strncpy_pad m dest num i =
     (if i < num then do { m \<leftarrow> wr m (dest + i) 0; strncpy_pad m dest num (i + 1) } else Some m)"
  by pat_completeness auto
termination
  by (relation "measure (\<lambda>(m, d, num, i). num - i)") auto

definition strncpy :: "mem \<Rightarrow> addr \<Rightarrow> addr \<Rightarrow> nat \<Rightarrow> (addr \<times> mem) option" where
  "strncpy m dest src num = do {
     (i, m) \<leftarrow> strncpy_copy m dest src num 0;
     m \<leftarrow> strncpy_pad m dest num i;
     Some (dest, m)
   }"

definition strxfrm :: "mem \<Rightarrow> addr \<Rightarrow> addr \<Rightarrow> nat \<Rightarrow> (nat \<times> mem) option" where
  "strxfrm m dest src num = do {
     (_, m) \<leftarrow> strncpy m dest src num;
     len \<leftarrow> strlen m src;
     Some (len, m)
   }"

text \<open>The loop of \<open>strncat\<close>, up to the terminator it writes behind the copied bytes.\<close>

fun strncat_loop :: "mem \<Rightarrow> addr \<Rightarrow> addr \<Rightarrow> nat \<Rightarrow> mem option" where
  "strncat_loop m d src 0 = wr m d 0"
| "strncat_loop m d src (Suc n) = do {
     c \<leftarrow> m src;
     if c \<noteq> 0 then do { m \<leftarrow> wr m d c; strncat_loop m (d + 1) (src + 1) n } else wr m d 0
   }"

definition strncat :: "mem \<Rightarrow> addr \<Rightarrow> addr \<Rightarrow> nat \<Rightarrow> (addr \<times> mem) option" where
  "strncat m dest src n = do {
     len \<leftarrow> strlen m dest;
     m \<leftarrow> strncat_loop m (dest + len) src n;
     Some (dest, m)
   }"

section \<open>Allocating copies\<close>

text \<open>
  \<open>malloc\<close> is a parameter: from a size and the memory it gives a block and the memory in which
  the block is mapped, or \<open>NULL\<close> and the memory as it was.
\<close>

type_synonym allocator = "nat \<Rightarrow> mem \<Rightarrow> addr \<times> mem"

definition strdup :: "allocator \<Rightarrow> mem \<Rightarrow> addr \<Rightarrow> (addr \<times> mem) option" where
  "strdup malloc m src = do {
     len \<leftarrow> strlen m src;
     let (dest, m) = malloc (len + 1) m;
     if dest = NULL then Some (NULL, m)
     else do { (_, m) \<leftarrow> strcpy m dest src; Some (dest, m) }
   }"

function strnlen_loop :: "mem \<Rightarrow> addr \<Rightarrow> nat \<Rightarrow> nat \<Rightarrow> nat option" where
  "strnlen_loop m s n len =
     (if len < n then do { c \<leftarrow> m (s + len); if c \<noteq> 0 then strnlen_loop m s n (len + 1) else Some len }
      else Some len)"
  by pat_completeness auto
termination
  by (relation "measure (\<lambda>(m, s, n, len). n - len)") auto

definition strndup :: "allocator \<Rightarrow> mem \<Rightarrow> addr \<Rightarrow> nat \<Rightarrow> (addr \<times> mem) option" where
  "strndup malloc m s n = (if s = NULL then Some (NULL, m) else do {
     len \<leftarrow> strnlen_loop m s n 0;
     let (out, m) = malloc (len + 1) m;
     if out = NULL then Some (NULL, m)
     else do {
       (_, m) \<leftarrow> memcpy m out s len;
       m \<leftarrow> wr m (out + len) 0;
       Some (out, m)
     }
   })"

section \<open>Searching for a character\<close>

text \<open>
  \<open>*str == c\<close> compares the promoted (signed) character with the \<open>int\<close> argument, and the loop
  of \<open>strchr\<close> stops at the terminator before comparing it.
\<close>

partial_function (option) strchr :: "mem \<Rightarrow> addr \<Rightarrow> int \<Rightarrow> addr option" where
  "strchr m str c = do {
     x \<leftarrow> m str;
     if x \<noteq> 0 then (if cv x = c then Some str else strchr m (str + 1) c) else Some NULL
   }"

partial_function (option) strrchr_loop :: "mem \<Rightarrow> addr \<Rightarrow> int \<Rightarrow> addr \<Rightarrow> addr option" where
  "strrchr_loop m str c rstr = do {
     x \<leftarrow> m rstr;
     if cv x = c then Some rstr
     else if str = rstr then Some NULL
     else strrchr_loop m str c (rstr - 1)
   }"

definition strrchr :: "mem \<Rightarrow> addr \<Rightarrow> int \<Rightarrow> addr option" where
  "strrchr m str c = do { len \<leftarrow> strlen m str; strrchr_loop m str c (str + len) }"

text \<open>\<open>strerror\<close> returns the same literal for every error number.\<close>

definition strerror :: "int \<Rightarrow> byte list" where
  "strerror errno = lit ''ERROR(TODO)''"

declare strlen_loop.simps [code] strcmp.simps [code] strcasecmp.simps [code] strcpy.simps [code]
  strchr.simps [code] strrchr_loop.simps [code]
declare strncpy_copy.simps [simp del] strncpy_pad.simps [simp del] strnlen_loop.simps [simp del]

section \<open>What they compute on strings\<close>

lemma strlen_loop_correct:
  "str_at m (s + len) xs \<Longrightarrow> strlen_loop m s len = Some (len + length xs)"
proof (induction xs arbitrary: len)
  case Nil
  then show ?case by (simp add: strlen_loop.simps)
next
  case (Cons x xs)
  then have "strlen_loop m s (Suc len) = Some (Suc len + length xs)" by (intro Cons.IH) auto
  with Cons.prems show ?case by (simp add: strlen_loop.simps[of m s len])
qed

lemma strlen_correct: "str_at m s xs \<Longrightarrow> s \<noteq> NULL \<Longrightarrow> strlen m s = Some (length xs)"
  using strlen_loop_correct[of m s 0 xs] by (simp add: strlen_def)

lemma strcmp_correct: "str_at m a xs \<Longrightarrow> str_at m b ys \<Longrightarrow> strcmp m a b = Some (lex_cmp xs ys)"
proof (induction xs ys arbitrary: a b rule: lex_cmp.induct)
  case (1 x xs y ys)
  then show ?case by (subst strcmp.simps) (auto simp: not_less_iff_gr_or_eq)
qed (subst strcmp.simps; auto simp: word_neq_0_conv)+

lemma strcmp_lit_strcmp: "str_at m q bs \<Longrightarrow> strcmp_lit m p bs = strcmp m p q"
proof (induction bs arbitrary: p q)
  case Nil
  then show ?case
    by (cases "m p"; subst strcmp.simps) (simp_all add: word_gt_0)
next
  case (Cons b bs)
  then have IH: "strcmp_lit m (p + 1) bs = strcmp m (p + 1) (q + 1)" and q: "m q = Some b" "b \<noteq> 0" by auto
  show ?case
    by (cases "m p"; subst strcmp.simps) (use q IH in \<open>auto simp: not_less_iff_gr_or_eq\<close>)
qed

lemma strcmp_lit_correct: "str_at m p xs \<Longrightarrow> 0 \<notin> set bs \<Longrightarrow> strcmp_lit m p bs = Some (lex_cmp xs bs)"
proof (induction xs bs arbitrary: p rule: lex_cmp.induct)
  case (1 x xs y ys)
  then show ?case by (auto simp: not_less_iff_gr_or_eq)
qed (auto simp: word_neq_0_conv)

lemma strncmp_correct:
  "str_at m a xs \<Longrightarrow> str_at m b ys \<Longrightarrow> strncmp m a b n = Some (lex_cmp (take n xs) (take n ys))"
proof (induction xs ys arbitrary: a b n rule: lex_cmp.induct)
  case (1 x xs y ys)
  then show ?case by (cases n) (auto simp: not_less_iff_gr_or_eq)
qed (case_tac n; auto simp: word_neq_0_conv)+

lemma strcasecmp_correct:
  "str_at m a xs \<Longrightarrow> str_at m b ys \<Longrightarrow> strcasecmp m a b = Some (lex_cmp (map lowerb xs) (map lowerb ys))"
proof (induction xs arbitrary: a b ys)
  case Nil
  then show ?case
    by (cases ys; subst strcasecmp.simps) (auto simp: word_neq_0_conv Let_def simp flip: lowerb_def)
next
  case (Cons x xs)
  then show ?case
    by (cases ys; subst strcasecmp.simps)
      (auto simp: not_less_iff_gr_or_eq word_neq_0_conv Let_def simp flip: lowerb_def)
qed

lemma strncasecmp_correct:
  "str_at m a xs \<Longrightarrow> str_at m b ys \<Longrightarrow>
   strncasecmp m a b n = Some (lex_cmp (map lowerb (take n xs)) (map lowerb (take n ys)))"
proof (induction n arbitrary: a b xs ys)
  case 0
  then show ?case by simp
next
  case (Suc n)
  then show ?case
    by (cases xs; cases ys)
      (auto simp: not_less_iff_gr_or_eq word_neq_0_conv Let_def simp flip: lowerb_def)
qed

lemma strcpy_correct:
  "str_at m s xs \<Longrightarrow> mapped m d (Suc (length xs)) \<Longrightarrow> fwd_ok d s (Suc (length xs)) \<Longrightarrow>
   strcpy m d s = Some (d + length xs, store m d (xs @ [0]))"
proof (induction xs arbitrary: m d s)
  case Nil
  then show ?case by (auto simp: strcpy.simps)
next
  case (Cons x xs)
  let ?m = "m(d \<mapsto> x)"
  from Cons.prems have 1: "str_at ?m (Suc s) xs" "mapped ?m (Suc d) (Suc (length xs))"
    by (auto simp: fwd_ok_def str_at_upd mapped_upd)
  have 2: "fwd_ok (Suc d) (Suc s) (Suc (length xs))"
    using Cons.prems by (auto simp: fwd_ok_def)
  from Cons.prems obtain c where c: "m s = Some x" "x \<noteq> 0" "m d = Some c" by auto
  show ?case using Cons.IH[OF 1 2] c
    by (simp add: strcpy.simps[of m d s] del: fun_upd_apply)
qed

lemma stpcpy_correct:
  assumes "str_at m s xs" "s \<noteq> NULL" "mapped m d (Suc (length xs))" "fwd_ok d s (Suc (length xs))"
  shows "stpcpy m d s = Some (d + length xs, store m d (xs @ [0]))"
proof -
  have "memcpy m d s (length (xs @ [0])) = Some (d, store m d (xs @ [0]))"
    using assms str_at_bytes[OF assms(1)] by (intro memcpy_correct) auto
  with strlen_correct[OF assms(1,2)] show ?thesis by (simp add: stpcpy_def)
qed

lemma strcat_correct:
  assumes "str_at m d xs" "d \<noteq> NULL" "str_at m s ys"
    and "mapped m (d + length xs) (Suc (length ys))"
    and "d + length xs + length ys < s \<or> s + length ys < d + length xs"
  shows "strcat m d s = Some (d, store m (d + length xs) (ys @ [0]))"
    and "str_at (store m (d + length xs) (ys @ [0])) d (xs @ ys)"
proof -
  have "strcpy m (d + length xs) s = Some (d + length xs + length ys, store m (d + length xs) (ys @ [0]))"
    using assms(3-5) by (intro strcpy_correct) (auto simp: fwd_ok_def)
  then show "strcat m d s = Some (d, store m (d + length xs) (ys @ [0]))"
    using strlen_correct[OF assms(1,2)] by (simp add: strcat_def)
  have "bytes_at (store m (d + length xs) (ys @ [0])) d xs"
    using assms(1) by (subst bytes_at_store) (auto simp: str_at_iff)
  then show "str_at (store m (d + length xs) (ys @ [0])) d (xs @ ys)"
    using assms(1,3) by (simp add: str_at_append str_at_nonzero str_at_store_same)
qed

lemma strncpy_copy_correct:
  "str_at m (s + i) xs \<Longrightarrow> i \<le> n \<Longrightarrow> mapped m (d + i) (n - i) \<Longrightarrow>
   d + n \<le> s \<or> s + i + length xs < d + i \<Longrightarrow>
   strncpy_copy m d s n i = Some (i + length (take (n - i) xs), store m (d + i) (take (n - i) xs))"
proof (induction xs arbitrary: m i)
  case Nil
  then show ?case by (simp add: strncpy_copy.simps)
next
  case (Cons x xs)
  show ?case
  proof (cases "i < n")
    case False
    with Cons.prems show ?thesis by (simp add: strncpy_copy.simps)
  next
    case True
    then obtain k where k: "n - i = Suc k" "n - Suc i = k" by (metis Suc_diff_Suc)
    let ?m = "m(d + i \<mapsto> x)"
    from Cons.prems k obtain c where c: "m (s + i) = Some x" "x \<noteq> 0" "m (d + i) = Some c" by auto
    have "strncpy_copy ?m d s n (Suc i)
        = Some (Suc i + length (take (n - Suc i) xs), store ?m (d + Suc i) (take (n - Suc i) xs))"
    proof (rule Cons.IH)
      show "str_at ?m (s + Suc i) xs"
        using Cons.prems True by (subst str_at_upd) auto
      show "mapped ?m (d + Suc i) (n - Suc i)"
        using Cons.prems(3) k by (auto intro!: mapped_upd)
    qed (use Cons.prems True in auto)
    with c k True show ?thesis
      by (simp add: strncpy_copy.simps[of m d s n i] del: fun_upd_apply)
  qed
qed

lemma strncpy_pad_correct:
  "i \<le> n \<Longrightarrow> mapped m (d + i) (n - i) \<Longrightarrow>
   strncpy_pad m d n i = Some (store m (d + i) (replicate (n - i) 0))"
proof (induction "n - i" arbitrary: m i)
  case 0
  then show ?case by (simp add: strncpy_pad.simps)
next
  case (Suc k)
  let ?m = "m(d + i \<mapsto> 0)"
  from Suc have k: "n - i = Suc k" "n - Suc i = k" "i < n" by auto
  with Suc.prems obtain c where c: "m (d + i) = Some c" by auto
  have "strncpy_pad ?m d n (Suc i) = Some (store ?m (d + Suc i) (replicate (n - Suc i) 0))"
    using Suc.prems k by (intro Suc.hyps(1)) (auto intro!: mapped_upd)
  with c k show ?case by (simp add: strncpy_pad.simps[of m d n i] del: fun_upd_apply)
qed

lemma strncpy_correct:
  assumes "str_at m s xs" "mapped m d n" "d + n \<le> s \<or> s + length xs < d"
  shows "strncpy m d s n = Some (d, store m d (take n xs @ replicate (n - length xs) 0))"
proof -
  let ?ys = "take n xs" and ?k = "min (length xs) n"
  have 1: "strncpy_copy m d s n 0 = Some (?k, store m d ?ys)"
    using strncpy_copy_correct[of m s 0 xs n d] assms by simp
  have "mapped (store m d ?ys) (d + ?k) (n - ?k)"
    using mapped_add[of m d ?k "n - ?k"] assms(2) by (simp add: mapped_store)
  then have "strncpy_pad (store m d ?ys) d n ?k
      = Some (store (store m d ?ys) (d + ?k) (replicate (n - ?k) 0))"
    by (intro strncpy_pad_correct) auto
  moreover have "n - ?k = n - length xs" by auto
  ultimately show ?thesis using 1 by (simp add: strncpy_def store_append)
qed

lemma strncat_loop_correct:
  "str_at m s ys \<Longrightarrow> mapped m d (Suc (length (take n ys))) \<Longrightarrow>
   d + length (take n ys) < s \<or> s + length ys < d \<Longrightarrow>
   strncat_loop m d s n = Some (store m d (take n ys @ [0]))"
proof (induction ys arbitrary: m d s n)
  case Nil
  then show ?case by (cases n) auto
next
  case (Cons y ys)
  show ?case
  proof (cases n)
    case 0
    with Cons.prems show ?thesis by auto
  next
    case (Suc k)
    let ?m = "m(d \<mapsto> y)"
    from Cons.prems Suc obtain c where c: "m s = Some y" "y \<noteq> 0" "m d = Some c" by auto
    have "strncat_loop ?m (Suc d) (Suc s) k = Some (store ?m (Suc d) (take k ys @ [0]))"
    proof (rule Cons.IH)
      show "str_at ?m (Suc s) ys" using Cons.prems by (subst str_at_upd) auto
      show "mapped ?m (Suc d) (Suc (length (take k ys)))"
        using Cons.prems(2) Suc by (auto intro!: mapped_upd simp del: length_take)
    qed (use Cons.prems Suc in auto)
    with c Suc show ?thesis by (simp del: fun_upd_apply)
  qed
qed

lemma strncat_correct:
  assumes "str_at m d xs" "d \<noteq> NULL" "str_at m s ys"
    and "mapped m (d + length xs) (Suc (length (take n ys)))"
    and "d + length xs + length (take n ys) < s \<or> s + length ys < d + length xs"
  shows "strncat m d s n = Some (d, store m (d + length xs) (take n ys @ [0]))"
  using strncat_loop_correct[OF assms(3,4)] assms(5) strlen_correct[OF assms(1,2)]
  by (simp add: strncat_def)

lemma strchr_correct:
  "str_at m s xs \<Longrightarrow>
   strchr m s c = Some (if c \<in> cv ` set xs then s + length (takeWhile (\<lambda>x. cv x \<noteq> c) xs) else NULL)"
proof (induction xs arbitrary: s)
  case Nil
  then show ?case by (simp add: strchr.simps)
next
  case (Cons x xs)
  then have "strchr m (Suc s) c = Some (if c \<in> cv ` set xs then Suc s + length (takeWhile (\<lambda>x. cv x \<noteq> c) xs) else NULL)"
    by auto
  with Cons.prems show ?case by (subst strchr.simps) auto
qed

lemma strchr_found: "str_at m s xs \<Longrightarrow> s \<noteq> NULL \<Longrightarrow> \<exists>p. strchr m s c = Some p \<and> (p \<noteq> NULL \<longleftrightarrow> c \<in> cv ` set xs)"
  by (simp add: strchr_correct)

text \<open>\<open>strrchr\<close> scans backwards and compares the terminator too.\<close>

fun last_pos :: "int \<Rightarrow> byte list \<Rightarrow> nat option" where
  "last_pos c [] = None"
| "last_pos c (x # xs) = (case last_pos c xs of Some i \<Rightarrow> Some (Suc i)
                          | None \<Rightarrow> if cv x = c then Some 0 else None)"

lemma last_pos_snoc:
  "last_pos c (xs @ [x]) = (if cv x = c then Some (length xs) else last_pos c xs)"
  by (induction xs) (auto split: option.splits)

lemma last_pos_less: "last_pos c xs = Some i \<Longrightarrow> i < length xs \<and> cv (xs ! i) = c"
  by (induction xs arbitrary: i) (auto split: option.splits if_splits)

lemma last_pos_None: "last_pos c xs = None \<longleftrightarrow> c \<notin> cv ` set xs"
  by (induction xs) (auto split: option.splits)

lemma last_pos_after: "last_pos c xs = Some i \<Longrightarrow> i < j \<Longrightarrow> j < length xs \<Longrightarrow> cv (xs ! j) \<noteq> c"
proof (induction xs arbitrary: i j)
  case Nil
  then show ?case by simp
next
  case (Cons x xs)
  then obtain j' where j: "j = Suc j'" by (cases j) auto
  show ?case
  proof (cases "last_pos c xs")
    case None
    with Cons.prems j show ?thesis by (auto simp: last_pos_None)
  next
    case (Some k)
    with Cons.prems Cons.IH[of k j'] j show ?thesis by auto
  qed
qed

lemma strrchr_loop_correct:
  "bytes_at m s xs \<Longrightarrow> xs \<noteq> [] \<Longrightarrow>
   strrchr_loop m s c (s + length xs - 1) = Some (case last_pos c xs of None \<Rightarrow> NULL | Some i \<Rightarrow> s + i)"
proof (induction xs rule: rev_induct)
  case Nil
  then show ?case by simp
next
  case (snoc x xs)
  show ?case
  proof (cases "xs = []")
    case True
    with snoc.prems show ?thesis by (simp add: strrchr_loop.simps last_pos_snoc)
  next
    case False
    with snoc show ?thesis
      by (subst strrchr_loop.simps) (auto simp: last_pos_snoc)
  qed
qed

lemma strrchr_correct:
  assumes "str_at m s xs" "s \<noteq> NULL"
  shows "strrchr m s c = Some (case last_pos c (xs @ [0]) of None \<Rightarrow> NULL | Some i \<Rightarrow> s + i)"
  using strrchr_loop_correct[OF str_at_bytes[OF assms(1)]] strlen_correct[OF assms]
  by (simp add: strrchr_def)

lemma strrchr_char:
  assumes "str_at m s xs" "s \<noteq> NULL" "c \<noteq> 0"
  shows "strrchr m s c = Some (case last_pos c xs of None \<Rightarrow> NULL | Some i \<Rightarrow> s + i)"
  using strrchr_correct[OF assms(1,2)] assms(3) by (simp add: last_pos_snoc)

section \<open>Allocation\<close>

text \<open>
  The documented behaviour of \<open>malloc\<close>: it fails and changes nothing, or gives a block of the
  size at addresses nobody uses, and changes no other byte.
\<close>

definition good_malloc :: "allocator \<Rightarrow> bool" where
  "good_malloc malloc \<longleftrightarrow> (\<forall>n m. case malloc n m of (p, m') \<Rightarrow>
     (p = NULL \<and> m' = m) \<or>
     (p \<noteq> NULL \<and> mapped m' p n \<and> (\<forall>a. p \<le> a \<and> a < p + n \<longrightarrow> m a = None) \<and>
      (\<forall>a. a < p \<or> p + n \<le> a \<longrightarrow> m' a = m a)))"

lemma good_mallocD:
  assumes "good_malloc malloc" "malloc n m = (p, m')"
  shows "p = NULL \<Longrightarrow> m' = m"
    and "p \<noteq> NULL \<Longrightarrow> mapped m' p n"
    and "p \<noteq> NULL \<Longrightarrow> p \<le> a \<Longrightarrow> a < p + n \<Longrightarrow> m a = None"
    and "p \<noteq> NULL \<Longrightarrow> a < p \<or> p + n \<le> a \<Longrightarrow> m' a = m a"
    and "p \<noteq> NULL \<Longrightarrow> m a = Some b \<Longrightarrow> m' a = Some b"
proof -
  have *: "(p = NULL \<and> m' = m) \<or> (p \<noteq> NULL \<and> mapped m' p n \<and>
      (\<forall>a. p \<le> a \<and> a < p + n \<longrightarrow> m a = None) \<and> (\<forall>a. a < p \<or> p + n \<le> a \<longrightarrow> m' a = m a))"
    using assms(1)[unfolded good_malloc_def, THEN spec[of _ n], THEN spec[of _ m]] unfolding assms(2) prod.case .
  then show "p = NULL \<Longrightarrow> m' = m" "p \<noteq> NULL \<Longrightarrow> mapped m' p n"
    "p \<noteq> NULL \<Longrightarrow> p \<le> a \<Longrightarrow> a < p + n \<Longrightarrow> m a = None"
    "p \<noteq> NULL \<Longrightarrow> a < p \<or> p + n \<le> a \<Longrightarrow> m' a = m a" by auto
  show "m' a = Some b" if p: "p \<noteq> NULL" and a: "m a = Some b"
  proof (cases "p \<le> a \<and> a < p + n")
    case True
    with * p have "m a = None" by blast
    with a show ?thesis by simp
  next
    case False
    with * p have "m' a = m a" by (meson not_le)
    with a show ?thesis by simp
  qed
qed

text \<open>An allocator for examples: one block at a fixed address while that is free.\<close>

definition bump_malloc :: "addr \<Rightarrow> allocator" where
  "bump_malloc base n m =
     (if base = NULL \<or> (\<exists>a \<in> {base..<base + n}. m a \<noteq> None) then (NULL, m)
      else (base, store m base (replicate n 0)))"

lemma bump_malloc_good: "good_malloc (bump_malloc base)"
  unfolding good_malloc_def bump_malloc_def
  by (auto simp: mapped_iff store_apply split: if_splits)

lemma str_at_sub: "str_at m s xs \<Longrightarrow> (\<And>a b. m a = Some b \<Longrightarrow> m' a = Some b) \<Longrightarrow> str_at m' s xs"
  by (induction xs arbitrary: s) auto

lemma strdup_correct:
  assumes "good_malloc malloc" "str_at m s xs" "s \<noteq> NULL" "malloc (length xs + 1) m = (p, m1)"
  shows "strdup malloc m s = Some (p, if p = NULL then m else store m1 p (xs @ [0]))"
proof (cases "p = NULL")
  case True
  with assms show ?thesis using good_mallocD(1)[OF assms(1,4)] strlen_correct[OF assms(2,3)]
    by (simp add: strdup_def)
next
  case False
  note g = good_mallocD[OF assms(1,4)]
  have at: "str_at m1 s xs" using str_at_sub[OF assms(2)] g(5) False by blast
  have "s + length xs < p \<or> p + length xs < s"
  proof (rule ccontr)
    assume "\<not> ?thesis"
    then have "max s p \<le> s + length xs" "p \<le> max s p" "max s p < p + (length xs + 1)" by auto
    then have "m (max s p) = None" using g(3)[OF False] by blast
    moreover have "\<exists>x. m (max s p) = Some x"
      using mapped_get[OF str_at_mapped[OF assms(2)], of "max s p"] \<open>max s p \<le> s + length xs\<close> by auto
    ultimately show False by simp
  qed
  then have "fwd_ok p s (Suc (length xs))" by (auto simp: fwd_ok_def)
  then have "strcpy m1 p s = Some (p + length xs, store m1 p (xs @ [0]))"
    using strcpy_correct[OF at] g(2)[OF False] by simp
  with assms False strlen_correct[OF assms(2,3)] show ?thesis by (simp add: strdup_def)
qed

end
