(* ===== verification/C_Token.thy ===== *)
theory C_Token
  imports C_String
begin

text \<open>
  Spans, substring search and the tokenizers of \<open>libc/src/string\<close>: \<open>strspn\<close>,
  \<open>strcspn\<close>, \<open>strpbrk\<close>, \<open>strstr\<close>, \<open>strcasestr\<close>, \<open>strtok\<close> and \<open>strtok_r\<close>.
\<close>

section \<open>Spans\<close>

partial_function (option) strspn_loop :: "mem \<Rightarrow> addr \<Rightarrow> addr \<Rightarrow> nat \<Rightarrow> nat option" where
  "strspn_loop m str chrs ret = do {
     x \<leftarrow> m str;
     if x \<noteq> 0 then do {
       p \<leftarrow> strchr m chrs (cv x);
       if p \<noteq> NULL then strspn_loop m (str + 1) chrs (ret + 1) else Some ret
     } else Some ret
   }"

definition strspn :: "mem \<Rightarrow> addr \<Rightarrow> addr \<Rightarrow> nat option" where
  "strspn m str chrs = strspn_loop m str chrs 0"

partial_function (option) strcspn_loop :: "mem \<Rightarrow> addr \<Rightarrow> addr \<Rightarrow> nat \<Rightarrow> nat option" where
  "strcspn_loop m str chrs ret = do {
     x \<leftarrow> m str;
     if x \<noteq> 0 then do {
       p \<leftarrow> strchr m chrs (cv x);
       if p \<noteq> NULL then Some ret else strcspn_loop m (str + 1) chrs (ret + 1)
     } else Some ret
   }"

definition strcspn :: "mem \<Rightarrow> addr \<Rightarrow> addr \<Rightarrow> nat option" where
  "strcspn m str chrs = strcspn_loop m str chrs 0"

text \<open>The inner loop of \<open>strpbrk\<close>: whether the character occurs in the second string.\<close>

partial_function (option) strpbrk_inner :: "mem \<Rightarrow> byte \<Rightarrow> addr \<Rightarrow> bool option" where
  "strpbrk_inner m x p = do {
     y \<leftarrow> m p;
     if y \<noteq> 0 then (if x = y then Some True else strpbrk_inner m x (p + 1)) else Some False
   }"

partial_function (option) strpbrk :: "mem \<Rightarrow> addr \<Rightarrow> addr \<Rightarrow> addr option" where
  "strpbrk m str_a str_b = do {
     x \<leftarrow> m str_a;
     if x \<noteq> 0 then do {
       found \<leftarrow> strpbrk_inner m x str_b;
       if found then Some str_a else strpbrk m (str_a + 1) str_b
     } else Some NULL
   }"

section \<open>Substring search\<close>

text \<open>
  \<open>strstr\<close> as it is written: the guard \<open>if(*str_b)\<close> returns at once for every non-empty
  needle, and the inner loop is guarded by \<open>str_b[i]\<close>, the index of the outer loop.
  The inner loop returns the flag \<open>same\<close>.
\<close>

partial_function (option) strstr_inner :: "mem \<Rightarrow> addr \<Rightarrow> addr \<Rightarrow> nat \<Rightarrow> nat \<Rightarrow> bool option" where
  "strstr_inner m str_a str_b i j = do {
     c \<leftarrow> m (str_b + i);
     if c \<noteq> 0 then do {
       x \<leftarrow> m (str_a + (i + j));
       y \<leftarrow> m (str_b + j);
       if x \<noteq> y then Some False else strstr_inner m str_a str_b i (j + 1)
     } else Some True
   }"

partial_function (option) strstr_loop :: "mem \<Rightarrow> addr \<Rightarrow> addr \<Rightarrow> nat \<Rightarrow> addr option" where
  "strstr_loop m str_a str_b i = do {
     c \<leftarrow> m (str_a + i);
     if c \<noteq> 0 then do {
       same \<leftarrow> strstr_inner m str_a str_b i 0;
       if \<not> same then strstr_loop m str_a str_b (i + 1) else Some (str_a + i)
     } else Some NULL
   }"

definition strstr :: "mem \<Rightarrow> addr \<Rightarrow> addr \<Rightarrow> addr option" where
  "strstr m str_a str_b = do {
     c \<leftarrow> m str_b;
     if c \<noteq> 0 then Some str_a else strstr_loop m str_a str_b 0
   }"

text \<open>The inner loop of \<open>strcasestr\<close> returns the pointer into the needle it stops at.\<close>

partial_function (option) strcasestr_inner :: "mem \<Rightarrow> addr \<Rightarrow> addr \<Rightarrow> addr option" where
  "strcasestr_inner m h_it n_it = do {
     h \<leftarrow> m h_it;
     if h \<noteq> 0 then do {
       n \<leftarrow> m n_it;
       if n \<noteq> 0 then
         (if tolower (uv h) \<noteq> tolower (uv n) then Some n_it
          else strcasestr_inner m (h_it + 1) (n_it + 1))
       else Some n_it
     } else Some n_it
   }"

partial_function (option) strcasestr_loop :: "mem \<Rightarrow> addr \<Rightarrow> addr \<Rightarrow> addr option" where
  "strcasestr_loop m h needle = do {
     c \<leftarrow> m h;
     if c \<noteq> 0 then do {
       n_it \<leftarrow> strcasestr_inner m h needle;
       n \<leftarrow> m n_it;
       if n = 0 then Some h else strcasestr_loop m (h + 1) needle
     } else Some NULL
   }"

definition strcasestr :: "mem \<Rightarrow> addr \<Rightarrow> addr \<Rightarrow> addr option" where
  "strcasestr m haystack needle =
     (if haystack = NULL \<or> needle = NULL then Some NULL
      else do {
        c \<leftarrow> m needle;
        if c = 0 then Some haystack else strcasestr_loop m haystack needle
      })"

section \<open>Tokenizers\<close>

text \<open>
  \<open>strtok_r\<close> works on a variable of the caller; \<open>None\<close> is a null \<open>saveptr\<close>, \<open>Some p\<close> the
  value \<open>p\<close> of \<open>*saveptr\<close>.  The result is the token, the new \<open>*saveptr\<close> and the memory.
\<close>

definition strtok_r :: "mem \<Rightarrow> addr \<Rightarrow> addr \<Rightarrow> addr option \<Rightarrow> (addr \<times> addr option \<times> mem) option" where
  "strtok_r m str delim saveptr = (case saveptr of
     None \<Rightarrow> Some (NULL, None, m)
   | Some saved \<Rightarrow>
     if delim = NULL then Some (NULL, saveptr, m)
     else let str = (if str = NULL then saved else str) in
       if str = NULL then Some (NULL, saveptr, m)
       else do {
         n \<leftarrow> strspn m str delim;
         let str = str + n;
         c \<leftarrow> m str;
         if c = 0 then Some (NULL, Some str, m)
         else do {
           k \<leftarrow> strcspn m str delim;
           let token_end = str + k;
           e \<leftarrow> m token_end;
           if e = 0 then Some (str, Some token_end, m)
           else do {
             m \<leftarrow> wr m token_end 0;
             Some (str, Some (token_end + 1), m)
           }
         }
       })"

text \<open>\<open>strtok\<close> keeps its position in the static variable \<open>g_strtok_next\<close>.\<close>

definition strtok :: "mem \<Rightarrow> addr \<Rightarrow> addr \<Rightarrow> addr \<Rightarrow> (addr \<times> addr \<times> mem) option" where
  "strtok m str delim g_strtok_next =
     (if delim = NULL then Some (NULL, g_strtok_next, m)
      else let str = (if str = NULL then g_strtok_next else str) in
        if str = NULL then Some (NULL, g_strtok_next, m)
        else do {
          n \<leftarrow> strspn m str delim;
          let str = str + n;
          c \<leftarrow> m str;
          if c = 0 then Some (NULL, NULL, m)
          else do {
            k \<leftarrow> strcspn m str delim;
            let token_end = str + k;
            e \<leftarrow> m token_end;
            if e = 0 then Some (str, NULL, m)
            else do {
              m \<leftarrow> wr m token_end 0;
              Some (str, token_end + 1, m)
            }
          }
        })"

declare strspn_loop.simps [code] strcspn_loop.simps [code] strpbrk_inner.simps [code]
  strpbrk.simps [code] strstr_inner.simps [code] strstr_loop.simps [code]
  strcasestr_inner.simps [code] strcasestr_loop.simps [code]

section \<open>Spans of strings\<close>

lemma strchr_member:
  "str_at m s ds \<Longrightarrow> s \<noteq> NULL \<Longrightarrow> \<exists>p. strchr m s (cv x) = Some p \<and> (p \<noteq> NULL \<longleftrightarrow> x \<in> set ds)"
  by (auto simp: strchr_correct)

lemma strspn_loop_correct:
  "str_at m s xs \<Longrightarrow> str_at m d ds \<Longrightarrow> d \<noteq> NULL \<Longrightarrow>
   strspn_loop m s d r = Some (r + length (takeWhile (\<lambda>x. x \<in> set ds) xs))"
proof (induction xs arbitrary: s r)
  case Nil
  then show ?case by (simp add: strspn_loop.simps)
next
  case (Cons x xs)
  obtain p where "strchr m d (cv x) = Some p" "p \<noteq> NULL \<longleftrightarrow> x \<in> set ds"
    using strchr_member[OF Cons.prems(2,3)] by blast
  with Cons show ?case by (simp add: strspn_loop.simps[of m s])
qed

lemma strcspn_loop_correct:
  "str_at m s xs \<Longrightarrow> str_at m d ds \<Longrightarrow> d \<noteq> NULL \<Longrightarrow>
   strcspn_loop m s d r = Some (r + length (takeWhile (\<lambda>x. x \<notin> set ds) xs))"
proof (induction xs arbitrary: s r)
  case Nil
  then show ?case by (simp add: strcspn_loop.simps)
next
  case (Cons x xs)
  obtain p where "strchr m d (cv x) = Some p" "p \<noteq> NULL \<longleftrightarrow> x \<in> set ds"
    using strchr_member[OF Cons.prems(2,3)] by blast
  with Cons show ?case by (simp add: strcspn_loop.simps[of m s])
qed

lemma strspn_correct:
  "str_at m s xs \<Longrightarrow> str_at m d ds \<Longrightarrow> d \<noteq> NULL \<Longrightarrow>
   strspn m s d = Some (length (takeWhile (\<lambda>x. x \<in> set ds) xs))"
  by (simp add: strspn_def strspn_loop_correct)

lemma strcspn_correct:
  "str_at m s xs \<Longrightarrow> str_at m d ds \<Longrightarrow> d \<noteq> NULL \<Longrightarrow>
   strcspn m s d = Some (length (takeWhile (\<lambda>x. x \<notin> set ds) xs))"
  by (simp add: strcspn_def strcspn_loop_correct)

lemma strpbrk_inner_correct: "str_at m p ys \<Longrightarrow> strpbrk_inner m x p = Some (x \<in> set ys)"
proof (induction ys arbitrary: p)
  case Nil
  then show ?case by (simp add: strpbrk_inner.simps)
next
  case (Cons y ys)
  then show ?case by (simp add: strpbrk_inner.simps[of m x p])
qed

lemma strpbrk_correct:
  "str_at m s xs \<Longrightarrow> str_at m d ds \<Longrightarrow>
   strpbrk m s d = Some (if set xs \<inter> set ds = {} then NULL
                         else s + length (takeWhile (\<lambda>x. x \<notin> set ds) xs))"
proof (induction xs arbitrary: s)
  case Nil
  then show ?case by (simp add: strpbrk.simps)
next
  case (Cons x xs)
  then have "strpbrk m (Suc s) d = Some (if set xs \<inter> set ds = {} then NULL
      else Suc s + length (takeWhile (\<lambda>x. x \<notin> set ds) xs))" by simp
  with Cons.prems show ?case by (simp add: strpbrk.simps[of m s] strpbrk_inner_correct)
qed

section \<open>Substring search on strings\<close>

lemma strstr_nonempty_needle:
  "str_at m b ys \<Longrightarrow> ys \<noteq> [] \<Longrightarrow> strstr m a b = Some a"
  by (cases ys) (auto simp: strstr_def)

lemma strstr_empty_needle:
  "str_at m a xs \<Longrightarrow> str_at m b [] \<Longrightarrow> strstr m a b = Some (if xs = [] then NULL else a)"
  by (cases xs) (auto simp: strstr_def strstr_loop.simps strstr_inner.simps)

text \<open>
  The case-insensitive search: the least position at which the folded needle is a prefix of
  the folded haystack.
\<close>

fun is_prefix :: "byte list \<Rightarrow> byte list \<Rightarrow> bool" where
  "is_prefix [] ys = True"
| "is_prefix (x # xs) [] = False"
| "is_prefix (x # xs) (y # ys) = (x = y \<and> is_prefix xs ys)"

lemma is_prefix_iff: "is_prefix xs ys \<longleftrightarrow> (\<exists>zs. ys = xs @ zs)"
  by (induction xs ys rule: is_prefix.induct) auto

fun find_sub :: "byte list \<Rightarrow> byte list \<Rightarrow> nat option" where
  "find_sub needle [] = None"
| "find_sub needle (x # xs) =
     (if is_prefix needle (x # xs) then Some 0 else map_option Suc (find_sub needle xs))"

lemma tolower_uv_eq: "tolower (uv a) = tolower (uv b) \<longleftrightarrow> lowerb a = lowerb b"
  by (metis uv_lowerb uv_inj)

lemma strcasestr_inner_correct:
  "str_at m h xs \<Longrightarrow> str_at m n ys \<Longrightarrow>
   \<exists>k \<le> length ys. strcasestr_inner m h n = Some (n + k) \<and>
     (k = length ys \<longleftrightarrow> is_prefix (map lowerb ys) (map lowerb xs))"
proof (induction xs arbitrary: h n ys)
  case Nil
  then show ?case by (cases ys) (auto simp: strcasestr_inner.simps intro!: exI[of _ 0])
next
  case (Cons x xs)
  show ?case
  proof (cases ys)
    case Nil
    with Cons.prems show ?thesis by (auto simp: strcasestr_inner.simps intro!: exI[of _ 0])
  next
    case y: (Cons y ys')
    show ?thesis
    proof (cases "lowerb x = lowerb y")
      case False
      with Cons.prems y show ?thesis
        by (auto simp: strcasestr_inner.simps tolower_uv_eq intro!: exI[of _ 0])
    next
      case True
      obtain k where k: "k \<le> length ys'" "strcasestr_inner m (Suc h) (Suc n) = Some (Suc n + k)"
        "k = length ys' \<longleftrightarrow> is_prefix (map lowerb ys') (map lowerb xs)"
        using Cons.IH[of "Suc h" "Suc n" ys'] Cons.prems y by auto
      from Cons.prems y True k show ?thesis
        by (intro exI[of _ "Suc k"]) (simp add: strcasestr_inner.simps[of m h n] tolower_uv_eq)
    qed
  qed
qed

lemma strcasestr_loop_correct:
  assumes "str_at m n ys"
  shows "str_at m h xs \<Longrightarrow> strcasestr_loop m h n
    = Some (case find_sub (map lowerb ys) (map lowerb xs) of None \<Rightarrow> NULL | Some i \<Rightarrow> h + i)"
proof (induction xs arbitrary: h)
  case Nil
  then show ?case by (simp add: strcasestr_loop.simps)
next
  case (Cons x xs)
  obtain k where k: "k \<le> length ys" "strcasestr_inner m h n = Some (n + k)"
    "k = length ys \<longleftrightarrow> is_prefix (map lowerb ys) (map lowerb (x # xs))"
    using strcasestr_inner_correct[OF Cons.prems assms] by blast
  have e: "\<exists>c. m (n + k) = Some c \<and> (c = 0 \<longleftrightarrow> k = length ys)"
    using str_at_nth[OF assms] k(1) by (cases "k = length ys") auto
  with k Cons show ?case
    by (subst strcasestr_loop.simps) (auto split: option.splits)
qed

lemma strcasestr_correct:
  assumes "str_at m h xs" "str_at m n ys" "h \<noteq> NULL" "n \<noteq> NULL"
  shows "strcasestr m h n = Some (if ys = [] then h else
     case find_sub (map lowerb ys) (map lowerb xs) of None \<Rightarrow> NULL | Some i \<Rightarrow> h + i)"
  using assms strcasestr_loop_correct[OF assms(2,1)]
  by (cases ys) (auto simp: strcasestr_def)

lemma find_sub_Some:
  "find_sub needle xs = Some i \<Longrightarrow> \<exists>us vs. xs = us @ needle @ vs \<and> length us = i"
proof (induction xs arbitrary: i)
  case Nil
  then show ?case by simp
next
  case (Cons x xs)
  show ?case
  proof (cases "is_prefix needle (x # xs)")
    case True
    with Cons.prems show ?thesis by (auto simp: is_prefix_iff)
  next
    case False
    with Cons.prems obtain j where j: "find_sub needle xs = Some j" "i = Suc j" by auto
    from Cons.IH[OF j(1)] obtain us vs where "xs = us @ needle @ vs" "length us = j" by blast
    with j(2) show ?thesis by (intro exI[of _ "x # us"] exI[of _ vs]) simp
  qed
qed

lemma find_sub_first:
  "find_sub needle xs = r \<Longrightarrow> xs = us @ needle @ vs \<Longrightarrow> needle \<noteq> [] \<Longrightarrow> \<exists>i \<le> length us. r = Some i"
proof (induction xs arbitrary: r us)
  case Nil
  then show ?case by simp
next
  case (Cons x xs)
  show ?case
  proof (cases us)
    case Nil
    with Cons.prems have "is_prefix needle (x # xs)" by (auto simp: is_prefix_iff)
    with Cons.prems(1) have "r = Some 0" by simp
    then show ?thesis by simp
  next
    case u: (Cons u us')
    with Cons.prems have "xs = us' @ needle @ vs" by simp
    from Cons.IH[OF refl this Cons.prems(3)] obtain j where "j \<le> length us'" "find_sub needle xs = Some j"
      by blast
    moreover have "r = (if is_prefix needle (x # xs) then Some 0 else map_option Suc (find_sub needle xs))"
      using Cons.prems(1) by simp
    ultimately show ?thesis using u by (cases "is_prefix needle (x # xs)") auto
  qed
qed

section \<open>Tokens\<close>

text \<open>The maximal runs of characters outside the delimiters.\<close>

function tokens :: "byte list \<Rightarrow> byte list \<Rightarrow> byte list list" where
  "tokens ds xs = (let ys = dropWhile (\<lambda>x. x \<in> set ds) xs in
     if ys = [] then []
     else takeWhile (\<lambda>x. x \<notin> set ds) ys # tokens ds (dropWhile (\<lambda>x. x \<notin> set ds) ys))"
  by pat_completeness auto
termination
proof (relation "measure (\<lambda>(ds, xs). length xs)", goal_cases)
  case 1
  then show ?case by simp
next
  case (2 ds xs ys)
  then have "ys \<noteq> []" "hd ys \<notin> set ds" using hd_dropWhile[of "\<lambda>x. x \<in> set ds" xs] by auto
  then have "length (dropWhile (\<lambda>x. x \<notin> set ds) ys) < length ys"
    by (cases ys) (auto simp: length_dropWhile_le less_Suc_eq_le)
  also have "length ys \<le> length xs" using 2 by (simp add: length_dropWhile_le)
  finally show ?case by simp
qed

declare tokens.simps [simp del]

lemma tokens_skip: "x \<in> set ds \<Longrightarrow> tokens ds (x # xs) = tokens ds xs"
  by (subst (1 2) tokens.simps) simp

text \<open>
  What a call that finds the string \<open>xs\<close> at its position does: \<open>skip\<close> is what it passes over,
  \<open>tok\<close> the token, \<open>rest\<close> what is left behind the delimiter it overwrites.
\<close>

definition tok_skip :: "byte list \<Rightarrow> byte list \<Rightarrow> nat" where
  "tok_skip ds xs = length (takeWhile (\<lambda>x. x \<in> set ds) xs)"

definition tok_word :: "byte list \<Rightarrow> byte list \<Rightarrow> byte list" where
  "tok_word ds xs = takeWhile (\<lambda>x. x \<notin> set ds) (dropWhile (\<lambda>x. x \<in> set ds) xs)"

definition tok_rest :: "byte list \<Rightarrow> byte list \<Rightarrow> byte list" where
  "tok_rest ds xs = tl (dropWhile (\<lambda>x. x \<notin> set ds) (dropWhile (\<lambda>x. x \<in> set ds) xs))"

lemma tok_word_Nil: "tok_word ds xs = [] \<longleftrightarrow> dropWhile (\<lambda>x. x \<in> set ds) xs = []"
proof (cases "dropWhile (\<lambda>x. x \<in> set ds) xs")
  case Nil
  then show ?thesis unfolding tok_word_def Nil by simp
next
  case (Cons y ys)
  then have "y \<notin> set ds" using hd_dropWhile[of "\<lambda>x. x \<in> set ds" xs] by auto
  then show ?thesis unfolding tok_word_def Cons by simp
qed

lemma tokens_unfold:
  "tokens ds xs = (if tok_word ds xs = [] then [] else tok_word ds xs # tokens ds (tok_rest ds xs))"
proof -
  let ?ys = "dropWhile (\<lambda>x. x \<in> set ds) xs"
  let ?zs = "dropWhile (\<lambda>x. x \<notin> set ds) ?ys"
  have "tokens ds ?zs = tokens ds (tl ?zs)"
  proof (cases ?zs)
    case (Cons z zs)
    then have "z \<in> set ds" using hd_dropWhile[of "\<lambda>x. x \<notin> set ds" ?ys] by auto
    then show ?thesis unfolding Cons by (simp add: tokens_skip)
  next
    case Nil
    show ?thesis unfolding Nil by simp
  qed
  then show ?thesis
    unfolding tok_word_Nil by (subst tokens.simps) (simp only: Let_def tok_word_def tok_rest_def)
qed

lemma tok_split:
  assumes "tok_word ds xs \<noteq> []"
  shows "\<exists>pre. length pre = tok_skip ds xs \<and>
    (xs = pre @ tok_word ds xs \<and> tok_rest ds xs = [] \<or>
     (\<exists>c \<in> set ds. xs = pre @ tok_word ds xs @ c # tok_rest ds xs))"
proof -
  let ?pre = "takeWhile (\<lambda>x. x \<in> set ds) xs"
  let ?ys = "dropWhile (\<lambda>x. x \<in> set ds) xs"
  let ?zs = "dropWhile (\<lambda>x. x \<notin> set ds) ?ys"
  have x: "xs = ?pre @ tok_word ds xs @ ?zs"
    unfolding tok_word_def by (simp only: takeWhile_dropWhile_id)
  show ?thesis
  proof (cases ?zs)
    case Nil
    have "xs = ?pre @ tok_word ds xs" using x unfolding Nil by (simp only: append_Nil2)
    moreover have "tok_rest ds xs = []" unfolding tok_rest_def Nil by simp
    ultimately show ?thesis unfolding tok_skip_def by blast
  next
    case (Cons z zs)
    then have "z \<in> set ds" using hd_dropWhile[of "\<lambda>x. x \<notin> set ds" ?ys] by auto
    moreover have "xs = ?pre @ tok_word ds xs @ z # tok_rest ds xs"
      using x unfolding tok_rest_def Cons by (simp only: list.sel)
    ultimately show ?thesis unfolding tok_skip_def by blast
  qed
qed

lemma tok_word_nonempty_iff: "tok_word ds xs = [] \<longleftrightarrow> tok_skip ds xs = length xs"
proof -
  let ?ys = "dropWhile (\<lambda>x. x \<in> set ds) xs"
  have "length xs = tok_skip ds xs + length ?ys"
    unfolding tok_skip_def by (metis length_append takeWhile_dropWhile_id)
  then show ?thesis unfolding tok_word_Nil by auto
qed

text \<open>The scanning both tokenizers do before they differ, on a string \<open>xs\<close> at \<open>s\<close>.\<close>

lemma tok_scan:
  assumes "str_at m s xs" "str_at m d ds" "d \<noteq> NULL"
  shows "strspn m s d = Some (tok_skip ds xs)"
    and "tok_word ds xs = [] \<Longrightarrow> m (s + tok_skip ds xs) = Some 0"
    and "tok_word ds xs \<noteq> [] \<Longrightarrow> \<exists>c. m (s + tok_skip ds xs) = Some c \<and> c \<noteq> 0"
    and "tok_word ds xs \<noteq> [] \<Longrightarrow> strcspn m (s + tok_skip ds xs) d = Some (length (tok_word ds xs))"
proof -
  have le: "tok_skip ds xs \<le> length xs" unfolding tok_skip_def by (rule length_takeWhile_le)
  have dr: "drop (tok_skip ds xs) xs = dropWhile (\<lambda>x. x \<in> set ds) xs"
    unfolding tok_skip_def by (simp add: dropWhile_eq_drop)
  have at: "str_at m (s + tok_skip ds xs) (dropWhile (\<lambda>x. x \<in> set ds) xs)"
    using str_at_drop[OF assms(1) le] by (simp only: dr)
  show "strspn m s d = Some (tok_skip ds xs)"
    using strspn_correct[OF assms] by (simp only: tok_skip_def)
  show "tok_word ds xs = [] \<Longrightarrow> m (s + tok_skip ds xs) = Some 0"
    using str_at_nth(2)[OF assms(1)] by (simp add: tok_word_nonempty_iff)
  show "tok_word ds xs \<noteq> [] \<Longrightarrow> \<exists>c. m (s + tok_skip ds xs) = Some c \<and> c \<noteq> 0"
    using str_at_nth(1)[OF assms(1), of "tok_skip ds xs"] le by (auto simp: tok_word_nonempty_iff)
  show "tok_word ds xs \<noteq> [] \<Longrightarrow> strcspn m (s + tok_skip ds xs) d = Some (length (tok_word ds xs))"
    using strcspn_correct[OF at assms(2,3)] by (simp only: tok_word_def)
qed

text \<open>
  One call of \<open>strtok_r\<close> at a string: without a token left it returns \<open>NULL\<close>; otherwise the
  first token is NUL-terminated in place, the saved pointer is at the string behind it, and no
  byte outside the string changes.
\<close>

lemma strtok_r_none:
  assumes "str_at m s xs" "s \<noteq> NULL" "str_at m d ds" "d \<noteq> NULL" "tok_word ds xs = []"
  shows "strtok_r m s d (Some sp) = Some (NULL, Some (s + length xs), m)"
    and "strtok_r m NULL d (Some s) = Some (NULL, Some (s + length xs), m)"
  using assms(2,4) tok_scan(1,2)[OF assms(1,3,4)] assms(5)
  by (auto simp: strtok_r_def Let_def tok_word_nonempty_iff)

lemma strtok_r_some:
  assumes "str_at m s xs" "s \<noteq> NULL" "str_at m d ds" "d \<noteq> NULL" "tok_word ds xs \<noteq> []"
    and "s + length xs < d \<or> d + length ds < s"
  shows "\<exists>p q m'. strtok_r m s d (Some sp) = Some (p, Some q, m') \<and>
      strtok_r m NULL d (Some s) = Some (p, Some q, m') \<and>
      p = s + tok_skip ds xs \<and> str_at m' p (tok_word ds xs) \<and>
      p + length (tok_word ds xs) \<le> q \<and> q + length (tok_rest ds xs) = s + length xs \<and>
      str_at m' q (tok_rest ds xs) \<and> str_at m' d ds \<and>
      (\<forall>r. r < s \<or> q \<le> r \<longrightarrow> m' r = m r)"
proof -
  define w r where w: "w = tok_word ds xs" and r: "r = tok_rest ds xs"
  let ?p = "s + tok_skip ds xs" and ?e = "s + tok_skip ds xs + length w"
  note scan = tok_scan[OF assms(1,3,4), folded w]
  have ne: "w \<noteq> []" using assms(5) w by simp
  obtain c where c: "m ?p = Some c" "c \<noteq> 0" using scan(3) ne by blast
  obtain pre where pre: "length pre = tok_skip ds xs"
    "xs = pre @ w \<and> r = [] \<or> (\<exists>z \<in> set ds. xs = pre @ w @ z # r)"
    using tok_split[OF assms(5), folded w r] by blast
  from pre(2) show ?thesis
  proof
    assume x: "xs = pre @ w \<and> r = []"
    then have xs: "xs = pre @ w" by blast
    have "str_at m (s + length pre) w"
      using assms(1) str_at_nonzero[OF assms(1)] unfolding xs by (simp add: str_at_append)
    then have at: "str_at m ?p w" by (simp only: pre(1))
    have e: "m ?e = Some 0" using str_at_nth(2)[OF at] .
    have "strtok_r m s d (Some sp) = Some (?p, Some ?e, m)"
      "strtok_r m NULL d (Some s) = Some (?p, Some ?e, m)"
      using scan assms(2,4) ne c e by (auto simp: strtok_r_def Let_def)
    moreover have "length xs = tok_skip ds xs + length w" using x pre(1) by simp
    ultimately show ?thesis unfolding w[symmetric] r[symmetric] using at e x assms(3)
      by (intro exI[of _ ?p] exI[of _ ?e] exI[of _ m]) auto
  next
    assume "\<exists>z \<in> set ds. xs = pre @ w @ z # r"
    then obtain z where x: "xs = pre @ w @ z # r" by blast
    have "bytes_at m (s + length pre) w \<and> m (s + length pre + length w) = Some z \<and> z \<noteq> 0 \<and>
        str_at m (Suc (s + length pre + length w)) r \<and> 0 \<notin> set w"
      using assms(1) str_at_nonzero[OF assms(1)] unfolding x by (auto simp: str_at_append)
    then have at: "bytes_at m ?p w" "m ?e = Some z" "z \<noteq> 0" "str_at m (Suc ?e) r" "0 \<notin> set w"
      unfolding pre(1) by blast+
    let ?m = "m(?e \<mapsto> 0)"
    have "strtok_r m s d (Some sp) = Some (?p, Some (Suc ?e), ?m)"
      "strtok_r m NULL d (Some s) = Some (?p, Some (Suc ?e), ?m)"
      using scan assms(2,4) ne c at by (auto simp: strtok_r_def Let_def)
    moreover have "str_at ?m ?p w" "str_at ?m (Suc ?e) r"
      using at by (auto simp: str_at_iff bytes_at_upd)
    moreover have l: "length xs = tok_skip ds xs + length w + Suc (length r)"
      using x pre(1) by simp
    moreover have "str_at ?m d ds" using assms(3,6) l by (subst str_at_upd) auto
    ultimately show ?thesis unfolding w[symmetric] r[symmetric]
      by (intro exI[of _ ?p] exI[of _ "Suc ?e"] exI[of _ ?m]) auto
  qed
qed

text \<open>
  \<open>strtok\<close> is \<open>strtok_r\<close> with its static variable as the saved pointer, except that it
  forgets its position when the string is used up.
\<close>

lemma strtok_via_strtok_r:
  assumes "strtok_r m s d (Some g) = Some (p, Some q, m')" "d \<noteq> NULL" "s \<noteq> NULL \<or> g \<noteq> NULL"
  shows "\<exists>g'. strtok m s d g = Some (p, g', m') \<and> (g' = NULL \<or> g' = q)"
  using assms unfolding strtok_r_def strtok_def
  by (auto simp: Let_def split: if_splits bind_splits option.splits)

section \<open>Consuming a whole string\<close>

text \<open>
  The client's loop: a first call on the string, then calls with \<open>NULL\<close>, collecting the tokens
  until \<open>NULL\<close> comes back.  The counter bounds the number of calls.
\<close>

fun strtok_r_all :: "nat \<Rightarrow> mem \<Rightarrow> addr \<Rightarrow> addr \<Rightarrow> (addr list \<times> mem) option" where
  "strtok_r_all 0 m delim saved = None"
| "strtok_r_all (Suc n) m delim saved = do {
     (p, sp, m) \<leftarrow> strtok_r m NULL delim (Some saved);
     if p = NULL then Some ([], m)
     else do { (ps, m) \<leftarrow> strtok_r_all n m delim (the sp); Some (p # ps, m) }
   }"

lemma length_tok_rest: "tok_word ds xs \<noteq> [] \<Longrightarrow> length (tok_rest ds xs) < length xs"
  using tok_split[of ds xs] by (metis add_diff_cancel_right' diff_less length_0_conv length_append
      length_greater_0_conv list.size(4) less_add_Suc2 trans_less_add2 length_Cons)

lemma strtok_r_all_correct:
  "str_at m s xs \<Longrightarrow> s \<noteq> NULL \<Longrightarrow> str_at m d ds \<Longrightarrow> d \<noteq> NULL \<Longrightarrow>
   s + length xs < d \<or> d + length ds < s \<Longrightarrow> length xs < n \<Longrightarrow>
   \<exists>ps m'. strtok_r_all n m d s = Some (ps, m') \<and>
     list_all2 (str_at m') ps (tokens ds xs) \<and> (\<forall>r. r < s \<or> s + length xs \<le> r \<longrightarrow> m' r = m r)"
proof (induction n arbitrary: m s xs)
  case 0
  then show ?case by simp
next
  case (Suc n)
  show ?case
  proof (cases "tok_word ds xs = []")
    case True
    with strtok_r_none(2)[OF Suc.prems(1-4) True] show ?thesis
      by (simp add: tokens_unfold[of ds xs])
  next
    case False
    let ?w = "tok_word ds xs" and ?r = "tok_rest ds xs"
    obtain p q m1 where c: "strtok_r m NULL d (Some s) = Some (p, Some q, m1)"
      "p = s + tok_skip ds xs" "str_at m1 p ?w" "p + length ?w \<le> q" "q + length ?r = s + length xs"
      "str_at m1 q ?r" "str_at m1 d ds" "\<forall>r. r < s \<or> q \<le> r \<longrightarrow> m1 r = m r"
      using strtok_r_some[OF Suc.prems(1-4) False Suc.prems(5)] by blast
    have q: "s \<le> q" "q \<noteq> NULL" "q + length ?r < d \<or> d + length ds < q" "length ?r < n"
      using c(2,4,5) Suc.prems(2,5,6) length_tok_rest[OF False] by auto
    obtain ps m2 where i: "strtok_r_all n m1 d q = Some (ps, m2)"
      "list_all2 (str_at m2) ps (tokens ds ?r)" "\<forall>r. r < q \<or> q + length ?r \<le> r \<longrightarrow> m2 r = m1 r"
      using Suc.IH[OF c(6) q(2) c(7) Suc.prems(4) q(3,4)] by blast
    have "m2 r = m1 r" if "r < p + length ?w" for r using i(3) c(4) that by simp
    moreover have "m1 (p + length ?w) = Some 0" using str_at_nth(2)[OF c(3)] .
    moreover have "m2 (p + length ?w) = Some 0"
    proof (cases "p + length ?w < q")
      case True
      then show ?thesis using i(3) calculation(2) by simp
    next
      case qe: False
      with c(4) have e: "q = p + length ?w" by simp
      then have "?r = []" using calculation(2) c(6) by (cases ?r) auto
      then show ?thesis using i(3) e calculation(2) by simp
    qed
    ultimately have "m2 (p + i) = m1 (p + i)" if "i \<le> length ?w" for i
      using that by (cases "i = length ?w") auto
    then have "str_at m2 p ?w" using c(3) by (subst str_at_frame) auto
    moreover have "p \<noteq> NULL" using c(2) Suc.prems(2) by simp
    moreover have "\<forall>r. r < s \<or> s + length xs \<le> r \<longrightarrow> m2 r = m r"
      using i(3) c(5,8) q(1) by (auto simp: less_le_trans)
    ultimately show ?thesis using c(1) i(1,2) False
      by (simp add: tokens_unfold[of ds xs])
  qed
qed

section \<open>Properties\<close>

text \<open>
  C28. A client that calls \<open>strtok_r\<close> with \<open>NULL\<close> until \<open>NULL\<close> comes back gets, after at most one
  call per character, pointers to NUL-terminated copies, in order, of exactly the maximal runs
  of non-delimiter characters of the string, and no byte outside the string is changed.
\<close>

theorem strtok_r_yields_tokens:
  assumes "str_at m s xs" "s \<noteq> NULL" "str_at m d ds" "d \<noteq> NULL"
    and "s + length xs < d \<or> d + length ds < s" "length xs < n"
  shows "\<exists>ps m'. strtok_r_all n m d s = Some (ps, m') \<and>
     list_all2 (str_at m') ps (tokens ds xs) \<and> (\<forall>r. r < s \<or> s + length xs \<le> r \<longrightarrow> m' r = m r)"
  by (rule strtok_r_all_correct[OF assms])

theorem strtok_r_yields_tokens_witness:
  "\<exists>ps m'. strtok_r_all 6 (store (store (\<lambda>_. Some 0) 100 (lit ''a,,b '')) 200 (lit '','')) 200 100
      = Some (ps, m') \<and>
     list_all2 (str_at m') ps (tokens (lit '','') (lit ''a,,b '')) \<and>
     (\<forall>r. r < 100 \<or> 100 + length (lit ''a,,b '') \<le> r \<longrightarrow>
       m' r = store (store (\<lambda>_. Some 0) 100 (lit ''a,,b '')) 200 (lit '','') r)"
  by (rule strtok_r_yields_tokens) simp_all

text \<open>
  C30. \<open>strcasestr\<close> returns the first position at which the needle occurs up to the case of its
  letters, and \<open>NULL\<close> exactly when there is none.
\<close>

theorem strcasestr_first_occurrence:
  assumes "str_at m h xs" "str_at m n ys" "h \<noteq> NULL" "n \<noteq> NULL" "ys \<noteq> []"
  shows "\<exists>r. strcasestr m h n = Some r \<and>
    (r = NULL \<longleftrightarrow> (\<nexists>us vs. map lowerb xs = us @ map lowerb ys @ vs)) \<and>
    (r \<noteq> NULL \<longrightarrow> h \<le> r \<and> (\<exists>vs. map lowerb xs = take (r - h) (map lowerb xs) @ map lowerb ys @ vs) \<and>
      (\<forall>us vs. map lowerb xs = us @ map lowerb ys @ vs \<longrightarrow> r \<le> h + length us))"
proof (cases "find_sub (map lowerb ys) (map lowerb xs)")
  case None
  then have "\<nexists>us vs. map lowerb xs = us @ map lowerb ys @ vs"
    using find_sub_first[OF None] assms(5) by auto
  with None show ?thesis using strcasestr_correct[OF assms(1-4)] assms(5) by simp
next
  case (Some i)
  obtain us vs where uv: "map lowerb xs = us @ map lowerb ys @ vs" "length us = i"
    using find_sub_Some[OF Some] by blast
  have "i \<le> length us'" if "map lowerb xs = us' @ map lowerb ys @ vs'" for us' vs'
    using find_sub_first[OF Some that] assms(5) by simp
  with Some uv show ?thesis using strcasestr_correct[OF assms(1-4)] assms(3,5) by force
qed

theorem strcasestr_first_occurrence_witness:
  "\<exists>r. strcasestr (store (store (\<lambda>_. Some 0) 100 (lit ''xAb'')) 200 (lit ''aB'')) 100 200 = Some r \<and>
    (r = NULL \<longleftrightarrow> (\<nexists>us vs. map lowerb (lit ''xAb'') = us @ map lowerb (lit ''aB'') @ vs)) \<and>
    (r \<noteq> NULL \<longrightarrow> 100 \<le> r \<and>
      (\<exists>vs. map lowerb (lit ''xAb'') = take (r - 100) (map lowerb (lit ''xAb'')) @ map lowerb (lit ''aB'') @ vs) \<and>
      (\<forall>us vs. map lowerb (lit ''xAb'') = us @ map lowerb (lit ''aB'') @ vs \<longrightarrow> r \<le> 100 + length us))"
  by (rule strcasestr_first_occurrence) simp_all

text \<open>
  \<open>strstr\<close> returns the haystack itself for every non-empty needle, occurring in it or not:
  its first guard has lost a negation.
\<close>

theorem strstr_ignores_haystack:
  assumes "str_at m b ys" "ys \<noteq> []"
  shows "strstr m a b = Some a"
  by (rule strstr_nonempty_needle[OF assms])

theorem strstr_ignores_haystack_witness:
  "strstr (store (store (\<lambda>_. Some 0) 100 (lit ''abc'')) 200 (lit ''z'')) 100 200 = Some 100"
  by (rule strstr_ignores_haystack[of _ _ "lit ''z''"]) simp_all

end
