(* ===== verification/Stdlib_Num.thy ===== *)
theory Stdlib_Num
  imports C_String
begin

text \<open>
  Number conversion and arithmetic of \<open>libc/src/stdlib\<close>: \<open>strtol\<close>, \<open>strtoul\<close>,
  \<open>atoi\<close>, \<open>atol\<close>, \<open>div\<close>, \<open>ldiv\<close>, \<open>lldiv\<close>, \<open>rand\<close>, \<open>srand\<close>
  and \<open>mktemp\<close>.
\<close>

section \<open>Operations\<close>

subsection \<open>The parts strtol and strtoul share\<close>

text \<open>\<open>while(isspace(*p)) p++\<close>\<close>

partial_function (option) strto_skip :: "mem \<Rightarrow> addr \<Rightarrow> addr option" where
  "strto_skip m p = do { c \<leftarrow> m p; if isspace (cv c) then strto_skip m (p + 1) else Some p }"

text \<open>The optional sign: whether it is a minus, and the pointer behind it.\<close>

definition strto_sign :: "mem \<Rightarrow> addr \<Rightarrow> (bool \<times> addr) option" where
  "strto_sign m p = do {
     c \<leftarrow> m p;
     if c = bc CHR ''+'' \<or> c = bc CHR ''-'' then Some (c = bc CHR ''-'', p + 1) else Some (False, p)
   }"

text \<open>The base a prefix selects (\<open>base == 0\<close>) or confirms (\<open>base == 16\<close>).\<close>

definition strto_base :: "mem \<Rightarrow> addr \<Rightarrow> int \<Rightarrow> (int \<times> addr) option" where
  "strto_base m p base =
     (if base = 0 then do {
        c \<leftarrow> m p;
        if c = bc CHR ''0'' then do {
          d \<leftarrow> m (p + 1);
          if d = bc CHR ''x'' \<or> d = bc CHR ''X'' then Some (16, p + 2) else Some (8, p + 1)
        } else Some (10, p)
      }
      else if base = 16 then do {
        c \<leftarrow> m p;
        if c = bc CHR ''0'' then do {
          d \<leftarrow> m (p + 1);
          if d = bc CHR ''x'' \<or> d = bc CHR ''X'' then Some (16, p + 2) else Some (16, p)
        } else Some (16, p)
      }
      else Some (base, p))"

text \<open>The value of a digit character; \<open>None\<close> is the \<open>break\<close> on any other character.\<close>

definition strto_digit :: "byte \<Rightarrow> int option" where
  "strto_digit c =
     (if isdigit (cv c) then Some (cv c - ic CHR ''0'')
      else if isalpha (cv c) then Some (tolower (cv c) - ic CHR ''a'' + 10)
      else None)"

subsection \<open>strtol, strtoul\<close>

text \<open>The digit loops return the value and the pointer they stop at.\<close>

partial_function (option) strtol_loop :: "mem \<Rightarrow> addr \<Rightarrow> int \<Rightarrow> int \<Rightarrow> (int \<times> addr) option" where
  "strtol_loop m p base result = do {
     c \<leftarrow> m p;
     if c = 0 then Some (result, p)
     else (case strto_digit c of
       None \<Rightarrow> Some (result, p)
     | Some digit \<Rightarrow>
         if digit \<ge> base then Some (result, p)
         else if result > cdiv (LONG_MAX - digit) base then Some (LONG_MAX, p)
         else strtol_loop m (p + 1) base (s64 (result * base + digit)))
   }"

text \<open>The result and the value stored through a non-null \<open>endptr\<close>.\<close>

definition strtol :: "mem \<Rightarrow> addr \<Rightarrow> int \<Rightarrow> (int \<times> addr) option" where
  "strtol m str base = do {
     p \<leftarrow> strto_skip m str;
     (neg, p) \<leftarrow> strto_sign m p;
     (base, p) \<leftarrow> strto_base m p base;
     (result, p) \<leftarrow> strtol_loop m p base 0;
     Some (s64 ((if neg then - 1 else 1) * result), p)
   }"

partial_function (option) strtoul_loop :: "mem \<Rightarrow> addr \<Rightarrow> int \<Rightarrow> int \<Rightarrow> (int \<times> addr) option" where
  "strtoul_loop m p base result = do {
     c \<leftarrow> m p;
     if c = 0 then Some (result, p)
     else (case strto_digit c of
       None \<Rightarrow> Some (result, p)
     | Some digit \<Rightarrow>
         if digit \<ge> base then Some (result, p)
         else if result > cdiv (ULONG_MAX - digit) base then Some (ULONG_MAX, p)
         else strtoul_loop m (p + 1) base (u64 (result * base + digit)))
   }"

definition strtoul :: "mem \<Rightarrow> addr \<Rightarrow> int \<Rightarrow> (int \<times> addr) option" where
  "strtoul m str base = do {
     p \<leftarrow> strto_skip m str;
     (neg, p) \<leftarrow> strto_sign m p;
     (base, p) \<leftarrow> strto_base m p base;
     (result, p) \<leftarrow> strtoul_loop m p base 0;
     Some (if neg then u64 (- s64 result) else result, p)
   }"

definition atol :: "mem \<Rightarrow> addr \<Rightarrow> int option" where
  "atol m str = do { (v, _) \<leftarrow> strtol m str 10; Some v }"

text \<open>\<open>atoi\<close> also sets \<open>errno\<close>.\<close>

definition atoi :: "mem \<Rightarrow> addr \<Rightarrow> int \<Rightarrow> (int \<times> int) option" where
  "atoi m str errno = do {
     (aslong, _) \<leftarrow> strtol m str 10;
     if aslong > INT_MAX then Some (INT_MAX, ERANGE)
     else if aslong < INT_MIN then Some (INT_MIN, ERANGE)
     else Some (aslong, errno)
   }"

subsection \<open>div, ldiv, lldiv\<close>

text \<open>A zero divisor and the one quotient out of range trap on the target: \<open>None\<close>.\<close>

definition div_int :: "int \<Rightarrow> int \<Rightarrow> (int \<times> int) option" where
  "div_int numer denom =
     (if denom = 0 \<or> (numer = INT_MIN \<and> denom = - 1) then None
      else Some (cdiv numer denom, cmod numer denom))"

definition ldiv :: "int \<Rightarrow> int \<Rightarrow> (int \<times> int) option" where
  "ldiv numer denom =
     (if denom = 0 \<or> (numer = LONG_MIN \<and> denom = - 1) then None
      else Some (cdiv numer denom, cmod numer denom))"

definition lldiv :: "int \<Rightarrow> int \<Rightarrow> (int \<times> int) option" where
  "lldiv numer denom =
     (if denom = 0 \<or> (numer = LONG_MIN \<and> denom = - 1) then None
      else Some (cdiv numer denom, cmod numer denom))"

subsection \<open>rand, srand\<close>

text \<open>\<open>s - 1\<close> is computed in \<open>unsigned\<close>; the seed and its step have 64 bits.\<close>

definition srand :: "32 word \<Rightarrow> 64 word" where
  "srand s = ucast (s - 1)"

definition rand :: "64 word \<Rightarrow> int \<times> 64 word" where
  "rand seed = (let seed = 9418247712843950125 * seed + 1
     in (s32 (uint (drop_bit 33 seed)), seed))"

subsection \<open>mktemp\<close>

text \<open>
  The loop over the last six characters; \<open>True\<close> when all of them were \<open>X\<close>.  Each \<open>X\<close> is
  overwritten as it is met.
\<close>

function mktemp_loop :: "mem \<Rightarrow> 64 word \<Rightarrow> addr \<Rightarrow> nat \<Rightarrow> nat \<Rightarrow> (bool \<times> 64 word \<times> mem) option" where
  "mktemp_loop m seed templ templlen i =
     (if i < templlen then do {
        c \<leftarrow> m (templ + i);
        if c \<noteq> bc CHR ''X'' then Some (False, seed, m)
        else do {
          let (r, seed) = rand seed;
          m \<leftarrow> wr m (templ + i) (to_byte (ic CHR ''a'' + cmod r (ic CHR ''z'' - ic CHR ''a'')));
          mktemp_loop m seed templ templlen (i + 1)
        }
      } else Some (True, seed, m))"
  by pat_completeness auto
termination
  by (relation "measure (\<lambda>(m, seed, t, n, i). n - i)") auto

definition mktemp :: "mem \<Rightarrow> 64 word \<Rightarrow> int \<Rightarrow> addr \<Rightarrow> (addr \<times> 64 word \<times> int \<times> mem) option" where
  "mktemp m seed errno templ =
     (if templ = NULL then Some (templ, seed, errno, m)
      else do {
        templlen \<leftarrow> strlen m templ;
        if templlen < 6 then do { m \<leftarrow> wr m templ 0; Some (templ, seed, errno, m) }
        else do {
          (ok, seed, m) \<leftarrow> mktemp_loop m seed templ templlen (templlen - 6);
          if ok then Some (templ, seed, errno, m)
          else do { m \<leftarrow> wr m templ 0; Some (templ, seed, EINVAL, m) }
        }
      })"

declare strto_skip.simps [code] strtol_loop.simps [code] strtoul_loop.simps [code]
declare mktemp_loop.simps [simp del]

section \<open>Digits\<close>

definition dig :: "int \<Rightarrow> byte \<Rightarrow> bool" where
  "dig base c = (case strto_digit c of None \<Rightarrow> False | Some d \<Rightarrow> d < base)"

definition digval :: "byte \<Rightarrow> int" where
  "digval c = (case strto_digit c of None \<Rightarrow> 0 | Some d \<Rightarrow> d)"

text \<open>The value of a digit sequence read behind a value \<open>r\<close>.\<close>

fun numval :: "int \<Rightarrow> int \<Rightarrow> byte list \<Rightarrow> int" where
  "numval base r [] = r"
| "numval base r (c # cs) = numval base (r * base + digval c) cs"

lemma strto_digit_range: "strto_digit c = Some d \<Longrightarrow> 0 \<le> d \<and> d < 36"
  using cv_range[of c] by (auto simp: strto_digit_def ctype_defs split: if_splits)

lemma strto_digit_0 [simp]: "strto_digit 0 = None"
  by (simp add: strto_digit_def ctype_defs)

lemma digval_nonneg: "0 \<le> digval c"
  using strto_digit_range by (auto simp: digval_def split: option.splits)

lemma numval_ge: "1 \<le> base \<Longrightarrow> 0 \<le> r \<Longrightarrow> r \<le> numval base r cs"
proof (induction cs arbitrary: r)
  case Nil
  then show ?case by simp
next
  case (Cons c cs)
  have "r * 1 \<le> r * base" using Cons.prems by (intro mult_left_mono) auto
  then have "r \<le> r * base + digval c" using digval_nonneg[of c] by simp
  also have "\<dots> \<le> numval base (r * base + digval c) cs"
    using Cons.prems digval_nonneg[of c] by (intro Cons.IH) auto
  finally show ?case by simp
qed

lemma int_le_div_iff: "0 < (b :: int) \<Longrightarrow> r \<le> a div b \<longleftrightarrow> r * b \<le> a"
proof
  assume b: "0 < b" and "r \<le> a div b"
  then have "r * b \<le> a div b * b" by (intro mult_right_mono) auto
  also have "\<dots> \<le> a" using pos_mod_sign[OF b, of a] by (simp flip: minus_mod_eq_div_mult)
  finally show "r * b \<le> a" .
next
  assume b: "0 < b" and "r * b \<le> a"
  then have "r * b div b \<le> a div b" by (intro zdiv_mono1)
  then show "r \<le> a div b" using b by simp
qed

lemma overflow_test:
  assumes "0 < base" "0 \<le> d" "d \<le> M"
  shows "r > cdiv (M - d) base \<longleftrightarrow> r * base + d > (M :: int)"
proof -
  have "cdiv (M - d) base = (M - d) div base" using assms by (intro cdiv_nonneg) auto
  moreover have "r \<le> (M - d) div base \<longleftrightarrow> r * base \<le> M - d"
    by (rule int_le_div_iff[OF assms(1)])
  ultimately show ?thesis by linarith
qed

lemma numval_append: "numval base r (xs @ ys) = numval base (numval base r xs) ys"
  by (induction xs arbitrary: r) auto

text \<open>
  The loop of \<open>strtol\<close> on digits in front of anything that does not continue them: it stops behind them, or
  at the first one that takes the value past \<open>LONG_MAX\<close>.
\<close>

lemma strtol_loop_correct:
  assumes "2 \<le> base" "rest = [] \<or> \<not> dig base (hd rest)"
  shows "str_at m p (ds @ rest) \<Longrightarrow> \<forall>c\<in>set ds. dig base c \<Longrightarrow> 0 \<le> r \<Longrightarrow> r \<le> LONG_MAX \<Longrightarrow>
    \<exists>k\<le>length ds. strtol_loop m p base r = Some (min (numval base r ds) LONG_MAX, p + k) \<and>
      numval base r (take k ds) \<le> LONG_MAX \<and> (k < length ds \<longrightarrow> LONG_MAX < numval base r (take (Suc k) ds))"
proof (induction ds arbitrary: p r)
  case Nil
  with assms show ?case
    by (cases rest) (subst strtol_loop.simps, auto simp: dig_def split: option.splits)+
next
  case (Cons c ds)
  then obtain d where d: "strto_digit c = Some d" "d < base" by (auto simp: dig_def split: option.splits)
  have d0: "0 \<le> d" "d < 36" "digval c = d" using strto_digit_range d by (auto simp: digval_def)
  have at: "m p = Some c" "c \<noteq> 0" "str_at m (Suc p) (ds @ rest)" using Cons.prems(1) by auto
  note ov = overflow_test [of base d LONG_MAX r]
  show ?case
  proof (cases "r * base + d \<le> LONG_MAX")
    case True
    have nn: "0 \<le> r * base + d" using Cons.prems(3) assms(1) d0 by simp
    then have s: "s64 (r * base + d) = r * base + d" using True by (intro s64_id) auto
    obtain k where k: "k \<le> length ds" "strtol_loop m (Suc p) base (r * base + d) = Some (min (numval base (r * base + d) ds) LONG_MAX, Suc p + k)"
      "numval base (r * base + d) (take k ds) \<le> LONG_MAX"
      "k < length ds \<longrightarrow> LONG_MAX < numval base (r * base + d) (take (Suc k) ds)"
      using Cons.IH [OF at(3) _ nn True] Cons.prems(2) by auto
    have "strtol_loop m p base r = strtol_loop m (Suc p) base (r * base + d)"
      using True ov assms(1) d d0 s at by (subst strtol_loop.simps) auto
    with k d0(3) show ?thesis by (intro exI [of _ "Suc k"]) simp
  next
    case False
    have "r * base + d \<le> numval base (r * base + d) ds"
      using Cons.prems(3) assms(1) d0 by (intro numval_ge) auto
    moreover have "strtol_loop m p base r = Some (LONG_MAX, p)"
      using False ov assms(1) d d0 at by (subst strtol_loop.simps) auto
    ultimately show ?thesis using False d0(3) Cons.prems(4) by (intro exI [of _ 0]) simp
  qed
qed

lemma strtoul_loop_correct:
  assumes "2 \<le> base"
  shows "str_at m p xs \<Longrightarrow> 0 \<le> r \<Longrightarrow> r \<le> ULONG_MAX \<Longrightarrow>
    \<exists>q. strtoul_loop m p base r = Some (min (numval base r (takeWhile (dig base) xs)) ULONG_MAX, q) \<and>
        (numval base r (takeWhile (dig base) xs) \<le> ULONG_MAX \<longrightarrow> q = p + length (takeWhile (dig base) xs))"
proof (induction xs arbitrary: p r)
  case Nil
  then show ?case by (simp add: strtoul_loop.simps)
next
  case (Cons c xs)
  show ?case
  proof (cases "dig base c")
    case False
    with Cons.prems show ?thesis
      by (subst strtoul_loop.simps) (auto simp: dig_def split: option.splits)
  next
    case True
    then obtain d where d: "strto_digit c = Some d" "d < base" by (auto simp: dig_def split: option.splits)
    have d0: "0 \<le> d" "d < 36" "digval c = d" using strto_digit_range d by (auto simp: digval_def)
    note ov = overflow_test[of base d ULONG_MAX r]
    show ?thesis
    proof (cases "r * base + d \<le> ULONG_MAX")
      case True
      have nn: "0 \<le> r * base + d" using Cons.prems(2) assms d0 by simp
      then have s: "u64 (r * base + d) = r * base + d" using True by (intro u64_id) auto
      obtain q where "strtoul_loop m (Suc p) base (r * base + d)
           = Some (min (numval base (r * base + d) (takeWhile (dig base) xs)) ULONG_MAX, q)"
        "numval base (r * base + d) (takeWhile (dig base) xs) \<le> ULONG_MAX \<longrightarrow>
           q = Suc p + length (takeWhile (dig base) xs)"
        using Cons.IH[of "Suc p" "r * base + d"] Cons.prems True nn by auto
      with True ov assms d d0 s Cons.prems \<open>dig base c\<close> show ?thesis
        by (subst strtoul_loop.simps) auto
    next
      case False
      have "r * base + d \<le> numval base (r * base + d) (takeWhile (dig base) xs)"
        using Cons.prems(2) assms d0 by (intro numval_ge) auto
      with False ov assms d d0 Cons.prems \<open>dig base c\<close> show ?thesis
        by (subst strtoul_loop.simps) auto
    qed
  qed
qed

section \<open>Whole numerals\<close>

text \<open>
  A numeral is leading white space, an optional sign, and digits of the base, in front of
  anything that does not continue it.
\<close>

definition sgn_ok :: "byte list \<Rightarrow> bool" where
  "sgn_ok sg \<longleftrightarrow> sg = [] \<or> sg = [bc CHR ''+''] \<or> sg = [bc CHR ''-'']"

definition numeral_ok :: "int \<Rightarrow> byte list \<Rightarrow> byte list \<Rightarrow> byte list \<Rightarrow> byte list \<Rightarrow> bool" where
  "numeral_ok base ws sg ds rest \<longleftrightarrow>
     (\<forall>c \<in> set ws. isspace (cv c)) \<and> sgn_ok sg \<and> ds \<noteq> [] \<and> (\<forall>c \<in> set ds. dig base c) \<and>
     (rest = [] \<or> \<not> dig base (hd rest))"

lemma strto_skip_correct:
  "str_at m p (ws @ xs) \<Longrightarrow> \<forall>c \<in> set ws. isspace (cv c) \<Longrightarrow> xs = [] \<or> \<not> isspace (cv (hd xs)) \<Longrightarrow>
   strto_skip m p = Some (p + length ws)"
proof (induction ws arbitrary: p)
  case Nil
  then show ?case by (cases xs) (auto simp: strto_skip.simps isspace_def)
next
  case (Cons w ws)
  then show ?case by (subst strto_skip.simps) auto
qed

lemma dig_not_space: "dig base c \<Longrightarrow> \<not> isspace (cv c)"
  by (auto simp: dig_def strto_digit_def ctype_defs split: if_splits option.splits)

lemma dig_not_sign: "dig base c \<Longrightarrow> c \<noteq> bc CHR ''+'' \<and> c \<noteq> bc CHR ''-''"
  by (auto simp: dig_def strto_digit_def ctype_defs cv_def split: if_splits option.splits)

lemma strto_sign_correct:
  assumes "str_at m p (sg @ ds @ rest)" "sgn_ok sg" "ds \<noteq> []" "\<forall>c \<in> set ds. dig base c"
  shows "strto_sign m p = Some (sg = [bc CHR ''-''], p + length sg)"
proof -
  obtain d ds' where d: "ds = d # ds'" using assms(3) by (cases ds) auto
  with assms(4) dig_not_sign have "d \<noteq> bc CHR ''+''" "d \<noteq> bc CHR ''-''" by auto
  with assms d show ?thesis by (auto simp: strto_sign_def sgn_ok_def)
qed

lemma strto_prefix_correct:
  assumes "str_at m p (ws @ sg @ ds @ rest)" "numeral_ok base ws sg ds rest"
  shows "strto_skip m p = Some (p + length ws)"
    and "strto_sign m (p + length ws) = Some (sg = [bc CHR ''-''], p + length ws + length sg)"
    and "str_at m (p + length ws + length sg) (ds @ rest)"
    and "takeWhile (dig base) (ds @ rest) = ds"
proof -
  have nz: "0 \<notin> set (ws @ sg)" using str_at_nonzero[OF assms(1)] by simp
  note n = assms(2)[unfolded numeral_ok_def]
  have "sg @ ds @ rest \<noteq> [] \<and> \<not> isspace (cv (hd (sg @ ds @ rest)))"
    using n dig_not_space[of base] by (cases ds) (auto simp: sgn_ok_def isspace_def cv_def)
  then show "strto_skip m p = Some (p + length ws)"
    using strto_skip_correct[OF assms(1)] n by blast
  have at: "str_at m (p + length ws) (sg @ ds @ rest)" using assms(1) nz by (simp add: str_at_append)
  show "strto_sign m (p + length ws) = Some (sg = [bc CHR ''-''], p + length ws + length sg)"
    using strto_sign_correct[OF at] n by blast
  show "str_at m (p + length ws + length sg) (ds @ rest)" using at nz by (simp add: str_at_append)
  show "takeWhile (dig base) (ds @ rest) = ds" using n by (cases rest) auto
qed

text \<open>
  The base of the digits and the prefix in front of them: base 0 takes it from the prefix, base 16 allows the
  prefix of hexadecimal digits.
\<close>

definition hex_mark :: "byte list \<Rightarrow> bool" where
  "hex_mark s \<longleftrightarrow> take 2 s = lit ''0x'' \<or> take 2 s = lit ''0X''"

definition prefix_ok :: "int \<Rightarrow> int \<Rightarrow> byte list \<Rightarrow> byte list \<Rightarrow> bool" where
  "prefix_ok base b pre s \<longleftrightarrow>
     (pre = lit ''0x'' \<or> pre = lit ''0X'') \<and> (base = 0 \<or> base = 16) \<and> b = 16 \<or>
     pre = lit ''0'' \<and> \<not> hex_mark (pre @ s) \<and> base = 0 \<and> b = 8 \<or>
     pre = [] \<and> take 1 s \<noteq> lit ''0'' \<and> base = 0 \<and> b = 10 \<or>
     pre = [] \<and> \<not> hex_mark s \<and> base = 16 \<and> b = 16 \<or>
     pre = [] \<and> base \<noteq> 0 \<and> base \<noteq> 16 \<and> b = base"

lemma hex_mark_Cons: "hex_mark (c # d # s) \<longleftrightarrow> c = bc CHR ''0'' \<and> (d = bc CHR ''x'' \<or> d = bc CHR ''X'')"
  by (auto simp: hex_mark_def numeral_2_eq_2)

lemma strto_base_correct:
  assumes "str_at m p (pre @ s)" "prefix_ok base b pre s" "pre @ s \<noteq> []"
  shows "strto_base m p base = Some (b, p + length pre)"
proof -
  consider x where "pre = [bc CHR ''0'', x]" "x = bc CHR ''x'' \<or> x = bc CHR ''X''" "base = 0 \<or> base = 16" "b = 16"
    | "pre = [bc CHR ''0'']" "\<not> hex_mark (pre @ s)" "base = 0" "b = 8"
    | "pre = []" "take 1 s \<noteq> lit ''0''" "base = 0" "b = 10"
    | "pre = []" "\<not> hex_mark s" "base = 16" "b = 16"
    | "pre = []" "base \<noteq> 0" "base \<noteq> 16" "b = base"
    using assms(2) unfolding prefix_ok_def by fastforce
  then show ?thesis
  proof cases
    case 1
    then show ?thesis using assms(1) by (auto simp: strto_base_def)
  next
    case 2
    then show ?thesis using assms(1) by (cases s) (auto simp: strto_base_def hex_mark_def)
  next
    case 3
    then show ?thesis using assms(1,3) by (cases s) (auto simp: strto_base_def)
  next
    case 4
    then obtain c t where "s = c # t" using assms(3) by (cases s) auto
    with 4 show ?thesis using assms(1) by (cases t) (auto simp: strto_base_def hex_mark_Cons)
  qed (simp add: strto_base_def)
qed

lemma dig_mono: "dig b c \<Longrightarrow> b \<le> b' \<Longrightarrow> dig b' c"
  by (auto simp: dig_def split: option.splits)

lemma strto_lead:
  assumes "str_at m p (ws @ sg @ x # xs)" "\<forall>c\<in>set ws. isspace (cv c)" "sgn_ok sg" "dig 36 x"
  shows "strto_skip m p = Some (p + length ws)"
    and "strto_sign m (p + length ws) = Some (sg = [bc CHR ''-''], p + length ws + length sg)"
    and "str_at m (p + length ws + length sg) (x # xs)"
proof -
  have nz: "0 \<notin> set (ws @ sg)" using str_at_nonzero [OF assms(1)] by simp
  have "\<not> isspace (cv (hd (sg @ x # xs)))"
    using assms(3) dig_not_space [OF assms(4)] by (auto simp: sgn_ok_def isspace_def cv_def)
  then show "strto_skip m p = Some (p + length ws)" using strto_skip_correct [OF assms(1,2)] by blast
  have at: "str_at m (p + length ws) (sg @ x # xs)" using assms(1) nz by (simp add: str_at_append)
  show "strto_sign m (p + length ws) = Some (sg = [bc CHR ''-''], p + length ws + length sg)"
    using strto_sign_correct [of m "p + length ws" sg "[x]" xs] at assms(3,4) by simp
  show "str_at m (p + length ws + length sg) (x # xs)" using at nz by (simp add: str_at_append)
qed

lemma strtol_any_base:
  assumes at: "str_at m p (ws @ sg @ pre @ ds @ rest)" and pre: "prefix_ok base b pre (ds @ rest)"
    and base: "base = 0 \<or> 2 \<le> base \<and> base \<le> 36"
    and num: "\<forall>c\<in>set ws. isspace (cv c)" "sgn_ok sg" "pre @ ds \<noteq> []" "\<forall>c\<in>set ds. dig b c" "rest = [] \<or> \<not> dig b (hd rest)"
  shows "\<exists>k\<le>length ds. strtol m p base =
      Some ((if sg = [bc CHR ''-''] then - 1 else 1) * min (numval b 0 ds) LONG_MAX, p + length (ws @ sg @ pre) + k) \<and>
    numval b 0 (take k ds) \<le> LONG_MAX \<and> (k < length ds \<longrightarrow> LONG_MAX < numval b 0 (take (Suc k) ds))"
proof -
  have b: "2 \<le> b" "b \<le> 36" using pre base by (auto simp: prefix_ok_def)
  have p0: "pre = [] \<or> hd pre = bc CHR ''0''" using pre by (auto simp: prefix_ok_def)
  obtain x xs where x: "pre @ ds @ rest = x # xs" "dig 36 x"
  proof (cases pre)
    case Nil
    then obtain d ds' where "ds = d # ds'" using num(3) by (cases ds) auto
    then show ?thesis using that [of d "ds' @ rest"] Nil num(4) dig_mono [OF _ b(2)] by simp
  next
    case (Cons c cs)
    then have "dig 36 c" using p0 by (simp add: dig_def strto_digit_def ctype_defs cv_def)
    then show ?thesis using that [of c "cs @ ds @ rest"] Cons by simp
  qed
  let ?q = "p + length ws + length sg"
  note lead = strto_lead [OF at [unfolded x(1)] num(1,2) x(2), folded x(1)]
  have "strto_base m ?q base = Some (b, ?q + length pre)" using strto_base_correct [OF lead(3) pre] num(3) by fastforce
  moreover have "0 \<notin> set pre" using str_at_nonzero [OF lead(3)] by simp
  then have "str_at m (?q + length pre) (ds @ rest)" using lead(3) by (simp add: str_at_append)
  from strtol_loop_correct [OF b(1) num(5) this num(4), of 0] obtain k where k: "k \<le> length ds"
    "strtol_loop m (?q + length pre) b 0 = Some (min (numval b 0 ds) LONG_MAX, ?q + length pre + k)"
    "numval b 0 (take k ds) \<le> LONG_MAX" "k < length ds \<longrightarrow> LONG_MAX < numval b 0 (take (Suc k) ds)" by auto
  moreover have "0 \<le> numval b 0 ds" using b(1) numval_ge [of b 0 ds] by simp
  then have "s64 ((if sg = [bc CHR ''-''] then - 1 else 1) * min (numval b 0 ds) LONG_MAX)
      = (if sg = [bc CHR ''-''] then - 1 else 1) * min (numval b 0 ds) LONG_MAX"
    by (intro s64_id) auto
  ultimately show ?thesis using lead(1,2) by (intro exI [of _ k]) (simp add: strtol_def)
qed

lemma strtol_correct:
  assumes "str_at m p (ws @ sg @ ds @ rest)" "numeral_ok base ws sg ds rest"
    and "2 \<le> base" "base \<le> 36" "base \<noteq> 16"
  shows "\<exists>q. strtol m p base =
      Some ((if sg = [bc CHR ''-''] then - 1 else 1) * min (numval base 0 ds) LONG_MAX, q) \<and>
    (numval base 0 ds \<le> LONG_MAX \<longrightarrow> q = p + length (ws @ sg @ ds))"
proof -
  have "prefix_ok base base [] (ds @ rest)" using assms(3,5) by (simp add: prefix_ok_def)
  then obtain k where k: "k \<le> length ds" "strtol m p base =
      Some ((if sg = [bc CHR ''-''] then - 1 else 1) * min (numval base 0 ds) LONG_MAX, p + length (ws @ sg) + k)"
    "k < length ds \<longrightarrow> LONG_MAX < numval base 0 (take (Suc k) ds)"
    using strtol_any_base [of m p ws sg "[]" ds rest base base] assms by (auto simp: numeral_ok_def)
  have "numval base 0 (take (Suc k) ds) \<le> numval base 0 ds"
    using assms(3) numval_ge [of base 0] numval_ge [of base "numval base 0 (take (Suc k) ds)" "drop (Suc k) ds"]
    by (simp flip: numval_append)
  with k have "numval base 0 ds \<le> LONG_MAX \<longrightarrow> k = length ds" by linarith
  with k show ?thesis by auto
qed

lemma strtoul_correct:
  assumes "str_at m p (ws @ sg @ ds @ rest)" "numeral_ok base ws sg ds rest"
    and "2 \<le> base" "base \<noteq> 16"
  shows "\<exists>q. strtoul m p base =
      Some (if sg = [bc CHR ''-''] then u64 (- min (numval base 0 ds) ULONG_MAX)
            else min (numval base 0 ds) ULONG_MAX, q) \<and>
    (numval base 0 ds \<le> ULONG_MAX \<longrightarrow> q = p + length (ws @ sg @ ds))"
proof -
  note c = strto_prefix_correct[OF assms(1,2)]
  obtain q where q: "strtoul_loop m (p + length ws + length sg) base 0
      = Some (min (numval base 0 ds) ULONG_MAX, q)"
    "numval base 0 ds \<le> ULONG_MAX \<longrightarrow> q = p + length ws + length sg + length ds"
    using strtoul_loop_correct[OF assms(3) c(3), of 0] unfolding c(4) by auto
  with c(1,2) q assms(3,4) show ?thesis by (simp add: strtoul_def strto_base_def u64_minus_s64)
qed

lemma atoi_correct:
  assumes "str_at m p (ws @ sg @ ds @ rest)" "numeral_ok 10 ws sg ds rest"
  shows "atoi m p e =
    (let v = (if sg = [bc CHR ''-''] then - 1 else 1) * numval 10 0 ds in
     Some (if v > INT_MAX then (INT_MAX, ERANGE) else if v < INT_MIN then (INT_MIN, ERANGE) else (v, e)))"
proof -
  obtain q where "strtol m p 10 =
      Some ((if sg = [bc CHR ''-''] then - 1 else 1) * min (numval 10 0 ds) LONG_MAX, q)"
    using strtol_correct [OF assms] by auto
  moreover have "0 \<le> numval 10 0 ds" using numval_ge[of 10 0 ds] by simp
  ultimately show ?thesis by (auto simp: atoi_def Let_def min_def)
qed

section \<open>Division\<close>

lemma div_result:
  assumes "b \<noteq> 0" "lo \<le> a" "a \<le> hi" "lo = - hi - 1" "\<not> (a = lo \<and> b = - 1)"
  shows "b * cdiv a b + cmod a b = a" "\<bar>cmod a b\<bar> < \<bar>b\<bar>" "cmod a b = 0 \<or> sgn (cmod a b) = sgn a"
    "lo \<le> cdiv a b \<and> cdiv a b \<le> hi"
proof -
  show "b * cdiv a b + cmod a b = a" by (rule cdiv_cmod)
  show "\<bar>cmod a b\<bar> < \<bar>b\<bar>" using assms(1) by (rule cmod_less)
  show "cmod a b = 0 \<or> sgn (cmod a b) = sgn a"
  proof (cases "\<bar>a\<bar> mod \<bar>b\<bar> = 0")
    case False
    then have "0 < \<bar>a\<bar> mod \<bar>b\<bar>" using assms(1) by (simp add: order.not_eq_order_implies_strict)
    then show ?thesis using assms(1) by (simp add: cmod_eq sgn_mult)
  qed (use assms(1) in \<open>simp add: cmod_eq\<close>)
  have "cdiv a b \<noteq> hi + 1"
  proof
    assume *: "cdiv a b = hi + 1"
    with cdiv_abs[of a b] assms have "a = lo" by auto
    have "0 \<le> hi" using assms by simp
    with \<open>a = lo\<close> assms(4) have a: "a < 0" "\<bar>a\<bar> = hi + 1" by auto
    show False
    proof (cases "1 < \<bar>b\<bar>")
      case True
      then have "\<bar>a\<bar> div \<bar>b\<bar> < \<bar>a\<bar>" using a int_div_less_self[of "\<bar>a\<bar>" "\<bar>b\<bar>"] by auto
      moreover have "cdiv a b \<le> \<bar>a\<bar> div \<bar>b\<bar>"
        using True a by (cases "b > 0") (auto simp: cdiv_def pos_imp_zdiv_nonneg_iff)
      ultimately show False using * a by simp
    next
      case False
      with assms(1) have "b = 1 \<or> b = - 1" by auto
      moreover have "cdiv a 1 = a" by (simp add: cdiv_def mult_sgn_abs)
      ultimately show False using * a \<open>a = lo\<close> assms(5) by auto
    qed
  qed
  then show "lo \<le> cdiv a b \<and> cdiv a b \<le> hi" using cdiv_abs[of a b] assms by auto
qed

section \<open>The random generator\<close>

lemma rand_range: "0 \<le> fst (rand seed) \<and> fst (rand seed) \<le> INT_MAX"
proof -
  have "uint (drop_bit 33 w) \<le> INT_MAX" for w :: "64 word"
  proof -
    have "uint (drop_bit 33 w) = uint w div 2 ^ 33"
      by (simp add: uint_div_distrib drop_bit_eq_div)
    also have "\<dots> < 2147483648" using uint_bounded[of w] by (simp add: div_less_iff_less_mult)
    finally show ?thesis by simp
  qed
  then show ?thesis by (simp add: rand_def Let_def s32_id order_trans[OF _ uint_ge_0])
qed

text \<open>
  The seed goes through all \<open>2 ^ 64\<close> values: the sums of the multiplier's powers carry exactly
  as many factors of two as their number of terms.
\<close>

fun geo :: "int \<Rightarrow> nat \<Rightarrow> int" where
  "geo a 0 = 0"
| "geo a (Suc n) = a * geo a n + 1"

lemma geo_add: "geo a (k + j) = geo a k + a ^ k * geo a j"
proof (induction k)
  case (Suc k)
  then show ?case by (simp add: algebra_simps)
qed simp

lemma geo_double: "geo a (2 * j) = geo a j * (1 + a ^ j)"
  by (simp only: mult_2 geo_add) (simp add: algebra_simps)

lemma geo_closed: "(a - 1) * geo a n = a ^ n - 1"
  by (induction n) (auto simp: algebra_simps)

lemma geo_even: "odd a \<Longrightarrow> even (geo a n) \<longleftrightarrow> even n"
  by (induction n) auto

lemma pow_mod4: "a mod 4 = (1 :: int) \<Longrightarrow> a ^ j mod 4 = 1"
  by (metis power_mod power_one one_mod_numeral semiring_norm(3) num.distinct(1) one_less_numeral_iff mod_pos_pos_trivial zero_le_one semiring_norm(76))

lemma geo_pow2_dvd:
  assumes "a mod 4 = (1 :: int)"
  shows "2 ^ k dvd geo a n \<longleftrightarrow> (2 ^ k :: nat) dvd n"
proof (induction k arbitrary: n)
  case 0
  then show ?case by simp
next
  case (Suc k)
  have "odd a" using assms by presburger
  show ?case
  proof (cases "even n")
    case False
    then have "odd (geo a n)" using geo_even[OF \<open>odd a\<close>] by simp
    with False show ?thesis
      by (metis dvd_trans dvd_triv_left power_Suc)
  next
    case True
    then obtain j where j: "n = 2 * j" by (rule evenE)
    obtain u where u: "1 + a ^ j = 2 * u" "odd u"
    proof
      show "1 + a ^ j = 2 * ((1 + a ^ j) div 2)" "odd ((1 + a ^ j) div 2)"
        using pow_mod4[OF assms, of j] by presburger+
    qed
    have "(2 ^ Suc k) dvd geo a n \<longleftrightarrow> 2 ^ k dvd geo a j * u"
      by (simp add: j geo_double u mult.left_commute[of _ 2])
    also have "\<dots> \<longleftrightarrow> 2 ^ k dvd geo a j"
      using u(2) by (simp add: coprime_dvd_mult_left_iff coprime_commute)
    finally show ?thesis by (simp add: j Suc.IH)
  qed
qed

lemma rand_seed_iterate:
  "((\<lambda>s. snd (rand s)) ^^ n) s = of_int (9418247712843950125 ^ n) * s + of_int (geo 9418247712843950125 n)"
  by (induction n) (auto simp: rand_def Let_def algebra_simps)

lemma rand_period: "((\<lambda>s. snd (rand s)) ^^ n) s = s \<longleftrightarrow> 2 ^ 64 dvd n"
proof -
  let ?a = "9418247712843950125 :: int"
  let ?u = "(?a - 1) * uint s + 1"
  have "of_int (?a ^ n) * s + of_int (geo ?a n) - s = of_int (geo ?a n * ?u)"
  proof -
    have "geo ?a n * ?u = (?a ^ n - 1) * uint s + geo ?a n"
      by (simp only: geo_closed[symmetric]) (simp add: algebra_simps)
    then show ?thesis by (simp only: of_int_add of_int_mult of_int_diff word_of_int_uint) 
      (simp add: algebra_simps)
  qed
  then have "((\<lambda>s. snd (rand s)) ^^ n) s = s \<longleftrightarrow> (of_int (geo ?a n * ?u) :: 64 word) = 0"
    unfolding rand_seed_iterate by (metis eq_iff_diff_eq_0)
  also have "\<dots> \<longleftrightarrow> 2 ^ 64 dvd geo ?a n * ?u" by (simp only: word_of_int_eq_0_iff len_num1 len_bit0 len_num0) simp
  also have "\<dots> \<longleftrightarrow> 2 ^ 64 dvd geo ?a n"
  proof (rule coprime_dvd_mult_left_iff)
    have "odd ?u" by simp
    then have "coprime 2 ?u" by (simp only: coprime_left_2_iff_odd not_False_eq_True)
    then show "coprime (2 ^ 64) ?u" by (simp only: coprime_power_left_iff simp_thms)
  qed
  also have "\<dots> \<longleftrightarrow> 2 ^ 64 dvd n" by (rule geo_pow2_dvd) simp
  finally show ?thesis .
qed

section \<open>Temporary names\<close>

lemma mktemp_letter:
  "97 \<le> ic CHR ''a'' + cmod (fst (rand seed)) (ic CHR ''z'' - ic CHR ''a'')"
  "ic CHR ''a'' + cmod (fst (rand seed)) (ic CHR ''z'' - ic CHR ''a'') \<le> 121"
  using rand_range[of seed] pos_mod_bound[of 25 "fst (rand seed)"] by (simp_all add: cmod_nonneg)

lemma to_byte_letter: "97 \<le> x \<Longrightarrow> x \<le> 121 \<Longrightarrow> 97 \<le> to_byte x \<and> to_byte x \<le> 121"
  by (simp add: to_byte_def word_le_def uint_word_of_int)

lemma mktemp_loop_correct:
  "mapped m (t + i) (length xs) \<Longrightarrow> bytes_at m (t + i) xs \<Longrightarrow> \<forall>x \<in> set xs. x = bc CHR ''X'' \<Longrightarrow>
   \<exists>ys seed'. mktemp_loop m seed t (i + length xs) i = Some (True, seed', store m (t + i) ys) \<and>
     length ys = length xs \<and> (\<forall>y \<in> set ys. bc CHR ''a'' \<le> y \<and> y \<le> bc CHR ''y'')"
proof (induction xs arbitrary: m seed i)
  case Nil
  then show ?case by (simp add: mktemp_loop.simps)
next
  case (Cons x xs)
  define y where "y = to_byte (ic CHR ''a'' + cmod (fst (rand seed)) (ic CHR ''z'' - ic CHR ''a''))"
  have y: "bc CHR ''a'' \<le> y" "y \<le> bc CHR ''y''"
    using to_byte_letter[OF mktemp_letter, of seed] by (simp_all add: y_def)
  have "bytes_at (m(t + i \<mapsto> y)) (t + Suc i) xs" using Cons.prems by (simp add: bytes_at_upd)
  moreover have "mapped (m(t + i \<mapsto> y)) (t + Suc i) (length xs)"
    using Cons.prems mapped_upd by auto
  ultimately obtain ys seed' where ys:
    "mktemp_loop (m(t + i \<mapsto> y)) (snd (rand seed)) t (Suc i + length xs) (Suc i)
       = Some (True, seed', store (m(t + i \<mapsto> y)) (t + Suc i) ys)"
    "length ys = length xs" "\<forall>y \<in> set ys. bc CHR ''a'' \<le> y \<and> y \<le> bc CHR ''y''"
    using Cons.IH[of "m(t + i \<mapsto> y)" "Suc i" "snd (rand seed)"] Cons.prems by auto
  have "mktemp_loop m seed t (i + length (x # xs)) i = Some (True, seed', store m (t + i) (y # ys))"
    using Cons.prems ys(1) by (subst mktemp_loop.simps) (auto simp: y_def case_prod_beta)
  with ys(2,3) y show ?case by (intro exI[of _ "y # ys"] exI[of _ seed']) auto
qed

lemma mktemp_correct:
  assumes "str_at m t (xs @ lit ''XXXXXX'')" "t \<noteq> NULL"
  shows "\<exists>ys seed'. mktemp m seed e t = Some (t, seed', e, store m (t + length xs) ys) \<and> length ys = 6 \<and>
    (\<forall>y \<in> set ys. bc CHR ''a'' \<le> y \<and> y \<le> bc CHR ''y'') \<and> str_at (store m (t + length xs) ys) t (xs @ ys)"
proof -
  have nz: "0 \<notin> set xs" using str_at_nonzero[OF assms(1)] by simp
  have at: "str_at m (t + length xs) (lit ''XXXXXX'')" "bytes_at m t xs"
    using assms(1) nz by (simp_all add: str_at_append del: str_at.simps list.map)
  then have b: "bytes_at m (t + length xs) (lit ''XXXXXX'')" by (simp add: str_at_iff)
  obtain ys seed' where ys:
    "mktemp_loop m seed t (length xs + 6) (length xs) = Some (True, seed', store m (t + length xs) ys)"
    "length ys = 6" "\<forall>y \<in> set ys. bc CHR ''a'' \<le> y \<and> y \<le> bc CHR ''y''"
    using mktemp_loop_correct[OF bytes_at_mapped[OF b] b, of seed]
    by (auto simp: add.commute[of "length xs"] eval_nat_numeral)
  have "m (t + length xs + 6) = Some 0" using str_at_nth(2)[OF at(1)] by (simp add: eval_nat_numeral)
  then have "str_at (store m (t + length xs) ys) t (xs @ ys)"
    using nz at(2) ys(2,3) by (force simp: str_at_iff bytes_at_store mem_simps store_apply)
  moreover have "strlen m t = Some (length xs + 6)"
    using strlen_correct[OF assms(1)] assms(2) by (simp add: eval_nat_numeral)
  then have "mktemp m seed e t = Some (t, seed', e, store m (t + length xs) ys)"
    using assms(2) ys(1) by (simp add: mktemp_def)
  ultimately show ?thesis using ys by blast
qed

section \<open>Properties\<close>

text \<open>
  C31. On white space, an optional sign, the prefix of the base (\<open>0x\<close> for 16, and with base 0 also \<open>0\<close> for 8) and
  digits of the base, \<open>strtol\<close> returns the signed value when its magnitude is at most \<open>LONG_MAX\<close>, with the end
  pointer behind the last digit, and otherwise the nearer of \<open>LONG_MAX\<close> and \<open>-LONG_MAX\<close>, with the end pointer at the
  first digit that takes the value past \<open>LONG_MAX\<close>.
\<close>

theorem strtol_value:
  assumes "str_at m p (ws @ sg @ pre @ ds @ rest)" "prefix_ok base b pre (ds @ rest)" "base = 0 \<or> 2 \<le> base \<and> base \<le> 36"
    and "\<forall>c\<in>set ws. isspace (cv c)" "sgn_ok sg" "pre @ ds \<noteq> []" "\<forall>c\<in>set ds. dig b c" "rest = [] \<or> \<not> dig b (hd rest)"
  shows "\<exists>k\<le>length ds. strtol m p base =
      Some ((if sg = [bc CHR ''-''] then - 1 else 1) * min (numval b 0 ds) LONG_MAX, p + length (ws @ sg @ pre) + k) \<and>
    numval b 0 (take k ds) \<le> LONG_MAX \<and> (k < length ds \<longrightarrow> LONG_MAX < numval b 0 (take (Suc k) ds))"
  by (rule strtol_any_base [OF assms])

theorem strtol_value_witness:
  "strtol (store (\<lambda>_. Some 0) 100 (lit '' -0x7fz'')) 100 0 = Some (- 127, 106)"
proof -
  have d: "\<forall>c\<in>set (lit ''7f''). dig 16 c" "\<not> dig 16 (bc CHR ''z'')" "numval 16 0 (lit ''7f'') = 127" "numval 16 0 (lit ''7'') = 7"
    by (simp_all add: dig_def digval_def strto_digit_def ctype_defs cv_def tolower_def)
  have "\<exists>k\<le>length (lit ''7f''). strtol (store (\<lambda>_. Some 0) 100 (lit '' -0x7fz'')) 100 0 =
      Some ((if lit ''-'' = [bc CHR ''-''] then - 1 else 1) * min (numval 16 0 (lit ''7f'')) LONG_MAX,
        100 + length (lit '' '' @ lit ''-'' @ lit ''0x'') + k) \<and>
    numval 16 0 (take k (lit ''7f'')) \<le> LONG_MAX \<and> (k < length (lit ''7f'') \<longrightarrow> LONG_MAX < numval 16 0 (take (Suc k) (lit ''7f'')))"
    by (rule strtol_value [where rest = "lit ''z''"]) (use d in \<open>simp_all add: sgn_ok_def prefix_ok_def isspace_def cv_def\<close>)
  then obtain k where k: "k \<le> 2" "strtol (store (\<lambda>_. Some 0) 100 (lit '' -0x7fz'')) 100 0 = Some (- 127, 104 + k)"
    "k < 2 \<longrightarrow> LONG_MAX < numval 16 0 (take (Suc k) (lit ''7f''))"
    using d(3) by (auto simp del: numval.simps store.simps)
  moreover have "k < 2 \<Longrightarrow> numval 16 0 (take (Suc k) (lit ''7f'')) \<le> LONG_MAX"
    using d(3,4) by (cases k) (auto simp: less_Suc_eq eval_nat_numeral simp del: numval.simps)
  ultimately show ?thesis by (cases "k = 2") auto
qed

text \<open>
  \<open>atoi\<close> of a decimal numeral is its value where it fits an \<open>int\<close>, and the nearer bound with
  \<open>errno\<close> set to \<open>ERANGE\<close> where it does not.
\<close>

theorem atoi_clamps:
  assumes "str_at m p (ws @ sg @ ds @ rest)" "numeral_ok 10 ws sg ds rest"
  shows "atoi m p e =
    (let v = (if sg = [bc CHR ''-''] then - 1 else 1) * numval 10 0 ds in
     Some (if v > INT_MAX then (INT_MAX, ERANGE) else if v < INT_MIN then (INT_MIN, ERANGE) else (v, e)))"
  by (rule atoi_correct[OF assms])

theorem atoi_clamps_witness:
  "atoi (store (\<lambda>_. Some 0) 100 (lit ''+2147483648 '')) 100 0 =
    (let v = (if lit ''+'' = [bc CHR ''-''] then - 1 else 1) * numval 10 0 (lit ''2147483648'') in
     Some (if v > INT_MAX then (INT_MAX, ERANGE) else if v < INT_MIN then (INT_MIN, ERANGE) else (v, 0)))"
  by (rule atoi_clamps[where ws = "[]" and rest = "lit '' ''"])
    (simp_all add: numeral_ok_def sgn_ok_def dig_def strto_digit_def ctype_defs cv_def tolower_def)

text \<open>
  \<open>rand\<close> always returns a value from 0 to \<open>INT_MAX\<close>, and its seed comes back to a value only
  after a multiple of \<open>2 ^ 64\<close> calls: the generator has full period from every seed.
\<close>

theorem rand_full_period:
  "0 \<le> fst (rand s) \<and> fst (rand s) \<le> INT_MAX \<and> (((\<lambda>s. snd (rand s)) ^^ n) s = s \<longleftrightarrow> 2 ^ 64 dvd n)"
  using rand_range rand_period by blast

text \<open>
  \<open>mktemp\<close> on a template that ends in six \<open>X\<close> replaces exactly these by letters from \<open>a\<close> to
  \<open>y\<close>, keeps the string's length and leaves \<open>errno\<close> alone.
\<close>

theorem mktemp_fills_template:
  assumes "str_at m t (xs @ lit ''XXXXXX'')" "t \<noteq> NULL"
  shows "\<exists>ys seed' m'. mktemp m seed e t = Some (t, seed', e, m') \<and> length ys = 6 \<and>
    (\<forall>y \<in> set ys. bc CHR ''a'' \<le> y \<and> y \<le> bc CHR ''y'') \<and> str_at m' t (xs @ ys)"
  using mktemp_correct[OF assms] by blast

theorem mktemp_fills_template_witness:
  "\<exists>ys seed' m'. mktemp (store (\<lambda>_. Some 0) 100 (lit ''f'' @ lit ''XXXXXX'')) 5 0 100
      = Some (100, seed', 0, m') \<and> length ys = 6 \<and>
    (\<forall>y \<in> set ys. bc CHR ''a'' \<le> y \<and> y \<le> bc CHR ''y'') \<and> str_at m' 100 (lit ''f'' @ ys)"
  by (rule mktemp_fills_template) simp_all

end
