(* ===== verification/Stdlib_Sort.thy ===== *)
theory Stdlib_Sort
  imports Mem_Ops "HOL-Library.Multiset"
begin

text \<open>
  \<open>qsort\<close> and \<open>bsearch\<close> of \<open>libc/src/stdlib\<close>.  The comparator the caller passes is an
  argument: it reads two elements of the memory.  What it has to promise is the locale
  \<open>comparator\<close>, inside which both functions are proved correct; \<open>memcmp\<close> is an instance.
\<close>

section \<open>Operations\<close>

type_synonym comparator = "mem \<Rightarrow> addr \<Rightarrow> addr \<Rightarrow> int option"

subsection \<open>qsort\<close>

text \<open>The indices are \<open>int\<close>s; the address of the element with an index.\<close>

definition elem_addr :: "addr \<Rightarrow> int \<Rightarrow> nat \<Rightarrow> addr" where
  "elem_addr array a sz = array + nat a * sz"

function swap_loop :: "mem \<Rightarrow> addr \<Rightarrow> addr \<Rightarrow> nat \<Rightarrow> nat \<Rightarrow> mem option" where
  "swap_loop m va vb sz i =
     (if i < sz then do {
        temp \<leftarrow> m (va + i);
        x \<leftarrow> m (vb + i);
        m \<leftarrow> wr m (va + i) x;
        m \<leftarrow> wr m (vb + i) temp;
        swap_loop m va vb sz (i + 1)
      } else Some m)"
  by pat_completeness auto
termination
  by (relation "measure (\<lambda>(m, va, vb, sz, i). sz - i)") auto

definition swapElement :: "mem \<Rightarrow> addr \<Rightarrow> int \<Rightarrow> int \<Rightarrow> nat \<Rightarrow> mem option" where
  "swapElement m array a b sz =
     (if a = b then Some m
      else swap_loop m (elem_addr array a sz) (elem_addr array b sz) sz 0)"

text \<open>The partition loop of \<open>qsortr\<close>, from \<open>g\<close> and \<open>s\<close> on.\<close>

function qsortr_partition ::
  "comparator \<Rightarrow> mem \<Rightarrow> addr \<Rightarrow> nat \<Rightarrow> int \<Rightarrow> int \<Rightarrow> int \<Rightarrow> int \<Rightarrow> (int \<times> mem) option" where
  "qsortr_partition comparator m array sz p high g s =
     (if s < high then do {
        c \<leftarrow> comparator m (elem_addr array s sz) (elem_addr array p sz);
        if c \<le> 0 then do {
          m \<leftarrow> swapElement m array (g + 1) s sz;
          qsortr_partition comparator m array sz p high (g + 1) (s + 1)
        } else qsortr_partition comparator m array sz p high g (s + 1)
      } else Some (g, m))"
  by pat_completeness auto
termination
  by (relation "measure (\<lambda>(c, m, a, sz, p, high, g, s). nat (high - s))") auto

text \<open>The recursion need not end for an arbitrary comparator.\<close>

partial_function (option) qsortr ::
  "comparator \<Rightarrow> mem \<Rightarrow> addr \<Rightarrow> nat \<Rightarrow> int \<Rightarrow> int \<Rightarrow> mem option" where
  "qsortr comparator m array sz low high =
     (if low \<ge> high then Some m
      else do {
        (g, m) \<leftarrow> qsortr_partition comparator m array sz high high (low - 1) low;
        m \<leftarrow> swapElement m array (g + 1) high sz;
        m \<leftarrow> qsortr comparator m array sz low g;
        qsortr comparator m array sz (g + 1) high
      })"

definition qsort :: "comparator \<Rightarrow> mem \<Rightarrow> addr \<Rightarrow> nat \<Rightarrow> nat \<Rightarrow> mem option" where
  "qsort comparator m array elements sz =
     qsortr comparator m array sz 0 (s32 (u64 (int elements - 1)))"

subsection \<open>bsearch\<close>

function bsearch_loop ::
  "comparator \<Rightarrow> mem \<Rightarrow> addr \<Rightarrow> addr \<Rightarrow> nat \<Rightarrow> nat \<Rightarrow> nat \<Rightarrow> addr option" where
  "bsearch_loop comparator m value array sz low high =
     (if low < high then
        (let mid = low + (high - low) div 2; elem = array + mid * sz in do {
          c \<leftarrow> comparator m value elem;
          if c < 0 then bsearch_loop comparator m value array sz low mid
          else if c > 0 then bsearch_loop comparator m value array sz (mid + 1) high
          else Some elem
        })
      else Some NULL)"
  by pat_completeness auto
termination
  by (relation "measure (\<lambda>(c, m, v, a, sz, low, high). high - low)") auto

definition bsearch :: "comparator \<Rightarrow> mem \<Rightarrow> addr \<Rightarrow> addr \<Rightarrow> nat \<Rightarrow> nat \<Rightarrow> addr option" where
  "bsearch comparator m value array num_elements sz =
     bsearch_loop comparator m value array sz 0 num_elements"

declare swap_loop.simps [simp del] qsortr_partition.simps [simp del] bsearch_loop.simps [simp del]
  qsortr.simps [code]

section \<open>Arrays of elements\<close>

text \<open>The array at an address holds a list of elements, all of one sz.\<close>

definition elems :: "mem \<Rightarrow> addr \<Rightarrow> nat \<Rightarrow> byte list list \<Rightarrow> bool" where
  "elems m a sz es \<longleftrightarrow> (\<forall>i < length es. bytes_at m (a + i * sz) (es ! i) \<and> length (es ! i) = sz)"

lemma elems_get:
  "elems m a sz es \<Longrightarrow> i < length es \<Longrightarrow> bytes_at m (a + i * sz) (es ! i)"
  "elems m a sz es \<Longrightarrow> i < length es \<Longrightarrow> length (es ! i) = sz"
  by (auto simp: elems_def)

lemma elem_addr_nat [simp]: "elem_addr a (int i) sz = a + i * sz"
  by (simp add: elem_addr_def)

lemma slot_disjoint: "i < j \<Longrightarrow> a + i * sz + sz \<le> a + j * (sz :: nat)"
  using mult_le_mono1[of "Suc i" j sz] by simp

lemma swap_loop_correct:
  "bytes_at m (va + i) xs \<Longrightarrow> bytes_at m (vb + i) ys \<Longrightarrow> length ys = length xs \<Longrightarrow>
   va + i + length xs \<le> vb + i \<or> vb + i + length ys \<le> va + i \<Longrightarrow>
   swap_loop m va vb (i + length xs) i = Some (store (store m (va + i) ys) (vb + i) xs)"
proof (induction xs arbitrary: m i ys)
  case Nil
  then show ?case by (simp add: swap_loop.simps)
next
  case (Cons x xs)
  then obtain y ys' where ys: "ys = y # ys'" "length ys' = length xs" by (cases ys) auto
  let ?m = "m(va + i \<mapsto> y, vb + i \<mapsto> x)"
  have "bytes_at ?m (va + Suc i) xs" "bytes_at ?m (vb + Suc i) ys'"
    using Cons.prems ys by (auto simp: bytes_at_upd)
  then have "swap_loop ?m va vb (Suc i + length xs) (Suc i)
      = Some (store (store ?m (va + Suc i) ys') (vb + Suc i) xs)"
    using Cons.prems ys by (intro Cons.IH) auto
  moreover have "store (store ?m (va + Suc i) ys') (vb + Suc i) xs
      = store (store m (va + i) ys) (vb + i) (x # xs)"
    using Cons.prems ys by (intro ext) (auto simp: store_apply nth_Cons')
  ultimately show ?case
    using Cons.prems ys by (subst swap_loop.simps) auto
qed

definition swapped :: "'a list \<Rightarrow> nat \<Rightarrow> nat \<Rightarrow> 'a list" where
  "swapped es i j = es[i := es ! j, j := es ! i]"

lemma length_swapped [simp]: "length (swapped es i j) = length es"
  by (simp add: swapped_def)

lemma swapElement_correct:
  assumes "elems m a sz es" "i < length es" "j < length es"
  shows "\<exists>m'. swapElement m a (int i) (int j) sz = Some m' \<and> elems m' a sz (swapped es i j) \<and>
    (\<forall>p. p < a \<or> a + length es * sz \<le> p \<longrightarrow> m' p = m p)"
proof (cases "i = j")
  case True
  with assms show ?thesis by (simp add: swapElement_def swapped_def)
next
  case False
  let ?va = "a + i * sz" and ?vb = "a + j * sz"
  note g = elems_get[OF assms(1,2)] elems_get[OF assms(1,3)]
  have disj: "?va + sz \<le> ?vb \<or> ?vb + sz \<le> ?va"
    using slot_disjoint[of i j a sz] slot_disjoint[of j i a sz] False by linarith
  let ?m = "store (store m ?va (es ! j)) ?vb (es ! i)"
  have "swapElement m a (int i) (int j) sz = Some ?m"
    using swap_loop_correct[of m ?va 0 "es ! i" ?vb "es ! j"] g disj False by (simp add: swapElement_def)
  moreover have "elems ?m a sz (swapped es i j)"
    unfolding elems_def
  proof (intro allI impI)
    fix k assume k: "k < length (swapped es i j)"
    have d: "a + k * sz + sz \<le> a + l * sz \<or> a + l * sz + sz \<le> a + k * sz" if "k \<noteq> l" for l
      using slot_disjoint[of k l a sz] slot_disjoint[of l k a sz] that by linarith
    consider "k = j" | "k = i" | "k \<noteq> i" "k \<noteq> j" by blast
    then show "bytes_at ?m (a + k * sz) (swapped es i j ! k) \<and> length (swapped es i j ! k) = sz"
    proof cases
      case 1
      with g assms(2,3) show ?thesis by (simp add: swapped_def)
    next
      case 2
      with g assms(2,3) False disj show ?thesis by (auto simp: swapped_def bytes_at_store)
    next
      case 3
      with g assms k d[of i] d[of j] show ?thesis
        by (auto simp: swapped_def bytes_at_store elems_get)
    qed
  qed
  moreover have "?vb + sz \<le> a + length es * sz" "?va + sz \<le> a + length es * sz"
    using slot_disjoint[OF assms(2)] slot_disjoint[OF assms(3)] by auto
  then have "\<forall>p. p < a \<or> a + length es * sz \<le> p \<longrightarrow> ?m p = m p"
    using g by (auto simp: store_apply)
  ultimately show ?thesis by blast
qed

lemma swapped_append:
  "swapped (xs @ v # ys @ w # zs) (length xs) (Suc (length xs + length ys)) = xs @ w # ys @ v # zs"
  by (auto simp: swapped_def nth_append list_update_append)

lemma swapped_same [simp]: "swapped es i i = es"
  by (simp add: swapped_def)

lemma swapElement_split:
  assumes "elems m a sz (xs @ v # ys @ w # zs)"
  shows "\<exists>m'. swapElement m a (int (length xs)) (int (Suc (length xs + length ys))) sz = Some m' \<and>
    elems m' a sz (xs @ w # ys @ v # zs) \<and>
    (\<forall>p. p < a \<or> a + length (xs @ v # ys @ w # zs) * sz \<le> p \<longrightarrow> m' p = m p)"
  using swapElement_correct[OF assms, of "length xs" "Suc (length xs + length ys)"]
  unfolding swapped_append by simp

section \<open>The contract of a comparator\<close>

text \<open>
  A comparator reads its two elements and nothing else, and computes a total preorder of the
  elements: its sign swaps with its arguments, and \<open>\<le>\<close> is transitive.
\<close>

locale comparator =
  fixes comparator :: comparator
    and sz :: nat
    and cmp :: "byte list \<Rightarrow> byte list \<Rightarrow> int"
  assumes reads: "bytes_at m p x \<Longrightarrow> bytes_at m q y \<Longrightarrow> length x = sz \<Longrightarrow> length y = sz \<Longrightarrow>
      comparator m p q = Some (cmp x y)"
    and swap: "length x = sz \<Longrightarrow> length y = sz \<Longrightarrow> cmp x y < 0 \<longleftrightarrow> cmp y x > 0"
    and trans: "length x = sz \<Longrightarrow> length y = sz \<Longrightarrow> length z = sz \<Longrightarrow>
      cmp x y \<le> 0 \<Longrightarrow> cmp y z \<le> 0 \<Longrightarrow> cmp x z \<le> 0"
begin

lemma total: "length x = sz \<Longrightarrow> length y = sz \<Longrightarrow> \<not> cmp x y \<le> 0 \<Longrightarrow> cmp y x \<le> 0"
  using swap[of y x] by simp

lemma refl: "length x = sz \<Longrightarrow> cmp x x \<le> 0"
  using total by blast

lemma elems_reads:
  assumes "elems m a sz es" "i < length es" "j < length es"
  shows "comparator m (elem_addr a (int i) sz) (elem_addr a (int j) sz) = Some (cmp (es ! i) (es ! j))"
  using elems_get[OF assms(1,2)] elems_get[OF assms(1,3)] by (simp add: reads)

lemma partition_correct:
  assumes "elems m a sz (xs @ us @ vs @ ws @ p # zs)"
    and "s = int (length (xs @ us @ vs))" "h = s + int (length ws)"
    and "n = length (xs @ us @ vs @ ws @ p # zs)"
  shows "\<exists>us' vs' m'. qsortr_partition comparator m a sz h h (int (length (xs @ us)) - 1) s
        = Some (int (length (xs @ us')) - 1, m') \<and>
      elems m' a sz (xs @ us' @ vs' @ p # zs) \<and>
      mset us' = mset us + {#w \<in># mset ws. cmp w p \<le> 0#} \<and>
      mset vs' = mset vs + {#w \<in># mset ws. \<not> cmp w p \<le> 0#} \<and>
      (\<forall>q. q < a \<or> a + n * sz \<le> q \<longrightarrow> m' q = m q)"
  using assms
proof (induction ws arbitrary: m us vs s)
  case Nil
  then show ?case by (intro exI[of _ us] exI[of _ vs]) (simp add: qsortr_partition.simps)
next
  case (Cons w ws)
  let ?es = "xs @ us @ vs @ (w # ws) @ p # zs"
  let ?i = "length (xs @ us @ vs)" and ?j = "length (xs @ us @ vs @ w # ws)"
  have "comparator m (elem_addr a (int ?i) sz) (elem_addr a (int ?j) sz) = Some (cmp (?es ! ?i) (?es ! ?j))"
    by (rule elems_reads[OF Cons.prems(1)]) auto
  then have c: "comparator m (elem_addr a s sz) (elem_addr a h sz) = Some (cmp w p)"
    using Cons.prems(2,3) by (simp add: nth_append ac_simps)
  have lt: "s < h" using Cons.prems(3) by simp
  have h: "h = (s + 1) + int (length ws)" using Cons.prems(3) by simp
  show ?case
  proof (cases "cmp w p \<le> 0")
    case False
    have *: "elems m a sz (xs @ us @ (vs @ [w]) @ ws @ p # zs)" "s + 1 = int (length (xs @ us @ vs @ [w]))"
      "n = length (xs @ us @ (vs @ [w]) @ ws @ p # zs)"
      using Cons.prems by auto
    show ?thesis using Cons.IH[OF *(1,2) h *(3)] c lt False
      by (subst qsortr_partition.simps) auto
  next
    case True
    have "\<exists>vs1 m1. swapElement m a (int (length (xs @ us))) s sz = Some m1 \<and>
        elems m1 a sz (xs @ (us @ [w]) @ vs1 @ ws @ p # zs) \<and> mset vs1 = mset vs \<and>
        (\<forall>q. q < a \<or> a + n * sz \<le> q \<longrightarrow> m1 q = m q)"
    proof (cases vs)
      case Nil
      then show ?thesis using Cons.prems(1,2) by (intro exI[of _ "[]"]) (simp add: swapElement_def)
    next
      case v: (Cons v vs')
      have e: "elems m a sz ((xs @ us) @ v # vs' @ w # ws @ p # zs)" using Cons.prems(1) v by simp
      have "s = int (Suc (length (xs @ us) + length vs'))" using Cons.prems(2) v by simp
      with swapElement_split[OF e] Cons.prems(4) v show ?thesis
        by (intro exI[of _ "vs' @ [v]"]) auto
    qed
    then obtain vs1 m1 where m1: "swapElement m a (int (length (xs @ us))) s sz = Some m1"
      "elems m1 a sz (xs @ (us @ [w]) @ vs1 @ ws @ p # zs)" "mset vs1 = mset vs"
      "\<forall>q. q < a \<or> a + n * sz \<le> q \<longrightarrow> m1 q = m q" by blast
    have l: "length vs1 = length vs" using m1(3) mset_eq_length by blast
    have *: "s + 1 = int (length (xs @ (us @ [w]) @ vs1))" "n = length (xs @ (us @ [w]) @ vs1 @ ws @ p # zs)"
      using Cons.prems l by auto
    obtain us' vs' m' where r:
      "qsortr_partition comparator m1 a sz h h (int (length (xs @ us @ [w])) - 1) (s + 1)
        = Some (int (length (xs @ us')) - 1, m')"
      "elems m' a sz (xs @ us' @ vs' @ p # zs)"
      "mset us' = mset (us @ [w]) + {#w \<in># mset ws. cmp w p \<le> 0#}"
      "mset vs' = mset vs1 + {#w \<in># mset ws. \<not> cmp w p \<le> 0#}"
      "\<forall>q. q < a \<or> a + n * sz \<le> q \<longrightarrow> m' q = m1 q"
      using Cons.IH[OF m1(2) *(1) h *(2)] by blast
    have "qsortr_partition comparator m a sz h h (int (length (xs @ us)) - 1) s
        = qsortr_partition comparator m1 a sz h h (int (length (xs @ us @ [w])) - 1) (s + 1)"
      using c lt True m1(1) by (subst qsortr_partition.simps) (simp add: add.commute)
    with r m1(3,4) True show ?thesis
      by (intro exI[of _ us'] exI[of _ vs'] exI[of _ m']) auto
  qed
qed

text \<open>
  One level of \<open>qsortr\<close>: the pivot is moved between the elements it bounds.
\<close>

lemma partition_pivot:
  assumes "elems m a sz (xs @ ws @ p # zs)" "low = int (length xs)" "high = low + int (length ws)"
    and "n = length (xs @ ws @ p # zs)"
  shows "\<exists>us vs m1 m2 g. qsortr_partition comparator m a sz high high (low - 1) low = Some (g, m1) \<and>
      g = int (length (xs @ us)) - 1 \<and> swapElement m1 a (g + 1) high sz = Some m2 \<and>
      elems m2 a sz (xs @ us @ (p # vs) @ zs) \<and> mset ws = mset us + mset vs \<and>
      (\<forall>u \<in> set us. cmp u p \<le> 0) \<and> (\<forall>v \<in> set vs. \<not> cmp v p \<le> 0) \<and>
      (us = [] \<longleftrightarrow> (\<forall>w \<in> set ws. \<not> cmp w p \<le> 0)) \<and>
      (\<forall>q. q < a \<or> a + n * sz \<le> q \<longrightarrow> m2 q = m q)"
proof -
  obtain us vs m1 where 1:
    "qsortr_partition comparator m a sz high high (low - 1) low = Some (int (length (xs @ us)) - 1, m1)"
    "elems m1 a sz (xs @ us @ vs @ p # zs)"
    "mset us = {#w \<in># mset ws. cmp w p \<le> 0#}" "mset vs = {#w \<in># mset ws. \<not> cmp w p \<le> 0#}"
    "\<forall>q. q < a \<or> a + n * sz \<le> q \<longrightarrow> m1 q = m q"
    using partition_correct[of m a xs "[]" "[]" ws p zs low high n] assms by auto
  have lw: "length ws = length us + length vs"
    using 1(3,4) by (metis multiset_partition size_mset size_union)
  have "\<exists>vs' m2. swapElement m1 a (int (length (xs @ us))) high sz = Some m2 \<and>
      elems m2 a sz (xs @ us @ (p # vs') @ zs) \<and> mset vs' = mset vs \<and>
      (\<forall>q. q < a \<or> a + n * sz \<le> q \<longrightarrow> m2 q = m1 q)"
  proof (cases vs)
    case Nil
    with 1(2) lw assms(2,3) show ?thesis by (intro exI[of _ "[]"]) (simp add: swapElement_def)
  next
    case v: (Cons v vs')
    have "elems m1 a sz ((xs @ us) @ v # vs' @ p # zs)" using 1(2) v by simp
    moreover have "high = int (Suc (length (xs @ us) + length vs'))" using lw assms(2,3) v by simp
    moreover have n: "n = length ((xs @ us) @ v # vs' @ p # zs)" using lw assms(4) v by simp
    ultimately show ?thesis using swapElement_split[of m1 a sz "xs @ us" v vs' p zs, folded n] v
      by (intro exI[of _ "vs' @ [v]"]) auto
  qed
  then obtain vs' m2 where 2: "swapElement m1 a (int (length (xs @ us))) high sz = Some m2"
    "elems m2 a sz (xs @ us @ (p # vs') @ zs)" "mset vs' = mset vs"
    "\<forall>q. q < a \<or> a + n * sz \<le> q \<longrightarrow> m2 q = m1 q" by blast
  have su: "set us = {w \<in> set ws. cmp w p \<le> 0}"
    using arg_cong[OF 1(3), of set_mset] by simp
  have sv: "set vs' = {w \<in> set ws. \<not> cmp w p \<le> 0}"
    using arg_cong[OF 1(4), of set_mset] mset_eq_setD[OF 2(3)] by simp
  have "mset ws = mset us + mset vs'" using 1(3,4) 2(3) multiset_partition by metis
  moreover have "us = [] \<longleftrightarrow> (\<forall>w \<in> set ws. \<not> cmp w p \<le> 0)"
    using su by (metis (mono_tags, lifting) Collect_empty_eq set_empty)
  ultimately show ?thesis using 1(1,5) 2(1,2,4) su sv
    by (intro exI[of _ us] exI[of _ vs'] exI[of _ m1] exI[of _ m2]) auto
qed

text \<open>
  The pivot stays in the upper part, which is as long as before when no element is \<open>\<le>\<close> the
  pivot.  Then the pivot is the least element and comes first, so the next pivot is not below
  everything else: each second level of the recursion is shorter.
\<close>

definition head_min :: "byte list list \<Rightarrow> bool" where
  "head_min ys \<longleftrightarrow> (\<forall>y \<in> set ys. cmp (hd ys) y \<le> 0)"

lemma elems_length: "elems m a sz es \<Longrightarrow> e \<in> set es \<Longrightarrow> length e = sz"
  by (auto simp: in_set_conv_nth elems_get)

lemma qsortr_correct:
  assumes "elems m a sz (xs @ ys @ zs)" "low = int (length xs)" "high = low + int (length ys) - 1"
    and "n = length (xs @ ys @ zs)"
  shows "\<exists>ys' m'. qsortr comparator m a sz low high = Some m' \<and> elems m' a sz (xs @ ys' @ zs) \<and>
    mset ys' = mset ys \<and> sorted_wrt (\<lambda>x y. cmp x y \<le> 0) ys' \<and>
    (\<forall>q. q < a \<or> a + n * sz \<le> q \<longrightarrow> m' q = m q)"
  using assms
proof (induction "2 * length ys + (if head_min ys then 0 else 1)" arbitrary: m xs ys zs low high
    rule: less_induct)
  case less
  note len = elems_length[OF less.prems(1)]
  show ?case
  proof (cases "length ys \<le> 1")
    case True
    then have "low \<ge> high" "sorted_wrt (\<lambda>x y. cmp x y \<le> 0) ys"
      using less.prems(2,3) by (cases ys; auto)+
    with less.prems(1) show ?thesis by (subst qsortr.simps) auto
  next
    case False
    then obtain ws p where ys: "ys = ws @ [p]" "ws \<noteq> []"
      by (cases ys rule: rev_cases) auto
    have lt: "\<not> low \<ge> high" using False less.prems(3) by simp
    have e: "elems m a sz (xs @ ws @ p # zs)" "high = low + int (length ws)"
      "n = length (xs @ ws @ p # zs)" using less.prems ys by auto
    obtain us vs m1 m2 g where pt:
      "qsortr_partition comparator m a sz high high (low - 1) low = Some (g, m1)"
      "g = int (length (xs @ us)) - 1" "swapElement m1 a (g + 1) high sz = Some m2"
      "elems m2 a sz (xs @ us @ (p # vs) @ zs)" "mset ws = mset us + mset vs"
      "\<forall>u \<in> set us. cmp u p \<le> 0" "\<forall>v \<in> set vs. \<not> cmp v p \<le> 0"
      "us = [] \<longleftrightarrow> (\<forall>w \<in> set ws. \<not> cmp w p \<le> 0)"
      "\<forall>q. q < a \<or> a + n * sz \<le> q \<longrightarrow> m2 q = m q"
      using partition_pivot[OF e(1) less.prems(2) e(2,3)] by blast
    have lw: "length ws = length us + length vs"
      using arg_cong[OF pt(5), of size] by simp
    have p_le: "\<forall>v \<in> set (p # vs). cmp p v \<le> 0"
      using pt(7) total refl elems_length[OF pt(4)] by auto
    have l1: "2 * length us + (if head_min us then 0 else 1) < 2 * length ys + (if head_min ys then 0 else 1)"
      using lw ys by simp
    have l2: "2 * length (p # vs) + (if head_min (p # vs) then 0 else 1)
        < 2 * length ys + (if head_min ys then 0 else 1)"
    proof (cases "us = []")
      case True
      have "\<not> cmp (hd ys) p \<le> 0" using pt(8) True ys by simp
      then have "\<not> head_min ys" using ys by (auto simp: head_min_def)
      moreover have "head_min (p # vs)" using p_le by (simp add: head_min_def)
      ultimately show ?thesis using lw ys True by simp
    next
      case False
      then have "1 \<le> length us" by (cases us) auto
      then show ?thesis using lw ys by auto
    qed
    obtain us' m3 where r1: "qsortr comparator m2 a sz low g = Some m3"
      "elems m3 a sz (xs @ us' @ (p # vs) @ zs)" "mset us' = mset us"
      "sorted_wrt (\<lambda>x y. cmp x y \<le> 0) us'" "\<forall>q. q < a \<or> a + n * sz \<le> q \<longrightarrow> m3 q = m2 q"
      using less.hyps[OF l1 pt(4) less.prems(2), of g] pt(2) less.prems(2,4) lw ys by auto
    have lu: "length us' = length us" using r1(3) mset_eq_length by blast
    obtain vs' m4 where r2: "qsortr comparator m3 a sz (g + 1) high = Some m4"
      "elems m4 a sz ((xs @ us') @ vs' @ zs)" "mset vs' = mset (p # vs)"
      "sorted_wrt (\<lambda>x y. cmp x y \<le> 0) vs'" "\<forall>q. q < a \<or> a + n * sz \<le> q \<longrightarrow> m4 q = m3 q"
      using less.hyps[OF l2, of m3 "xs @ us'" zs "g + 1" high] r1(2) pt(2) e(2,3) less.prems(2) lu lw
      by auto
    have "cmp u v \<le> 0" if "u \<in> set us'" "v \<in> set vs'" for u v
    proof (rule trans[of u p v])
      show "cmp u p \<le> 0" using that(1) pt(6) mset_eq_setD[OF r1(3)] by blast
      show "cmp p v \<le> 0" using that(2) p_le mset_eq_setD[OF r2(3)] by blast
      show "length u = sz" using elems_length[OF r2(2)] that(1) by simp
      show "length v = sz" using elems_length[OF r2(2)] that(2) by simp
      show "length p = sz" using len ys by simp
    qed
    then have "sorted_wrt (\<lambda>x y. cmp x y \<le> 0) (us' @ vs')" using r1(4) r2(4) by (simp add: sorted_wrt_append)
    moreover have "mset (us' @ vs') = mset ys" using r1(3) r2(3) pt(5) ys by simp
    moreover have "qsortr comparator m a sz low high = Some m4"
      using pt(1,3) r1(1) r2(1) lt by (subst qsortr.simps) simp
    ultimately show ?thesis using r1(5) r2(2,5) pt(9)
      by (intro exI[of _ "us' @ vs'"] exI[of _ m4]) auto
  qed
qed

lemma qsort_correct:
  assumes "elems m a sz es" "int (length es) \<le> INT_MAX"
  shows "\<exists>es' m'. qsort comparator m a (length es) sz = Some m' \<and> elems m' a sz es' \<and>
    mset es' = mset es \<and> sorted_wrt (\<lambda>x y. cmp x y \<le> 0) es' \<and>
    (\<forall>q. q < a \<or> a + length es * sz \<le> q \<longrightarrow> m' q = m q)"
proof -
  have "s32 (u64 (int (length es) - 1)) = int (length es) - 1"
    using assms(2) by (simp add: s32_id)
  then show ?thesis using qsortr_correct[of m a "[]" es "[]" 0 "int (length es) - 1"] assms(1)
    by (simp add: qsort_def)
qed

text \<open>The bounds of \<open>bsearch\<close> enclose every element that may compare equal.\<close>

lemma bsearch_loop_correct:
  assumes "elems m a sz es" "sorted_wrt (\<lambda>x y. cmp x y \<le> 0) es" "bytes_at m q v" "length v = sz"
  shows "low \<le> high \<Longrightarrow> high \<le> length es \<Longrightarrow>
    \<forall>i < low. cmp v (es ! i) > 0 \<Longrightarrow> \<forall>i < length es. high \<le> i \<longrightarrow> cmp v (es ! i) < 0 \<Longrightarrow>
    (\<exists>i < length es. bsearch_loop comparator m q a sz low high = Some (a + i * sz) \<and> cmp v (es ! i) = 0) \<or>
    (bsearch_loop comparator m q a sz low high = Some NULL \<and> (\<forall>i < length es. cmp v (es ! i) \<noteq> 0))"
proof (induction "high - low" arbitrary: low high rule: less_induct)
  case less
  show ?case
  proof (cases "low < high")
    case False
    have "cmp v (es ! i) \<noteq> 0" if "i < length es" for i
      using less.prems(3,4) that False by (cases "i < low") force+
    with False show ?thesis by (subst (1 2) bsearch_loop.simps) simp
  next
    case True
    let ?mid = "low + (high - low) div 2"
    have mid: "low \<le> ?mid" "?mid < high" "?mid < length es" using True less.prems(2) by auto
    have le: "cmp (es ! i) (es ! j) \<le> 0" if "i < j" "j < length es" for i j
      using assms(2) that by (simp add: sorted_wrt_iff_nth_less)
    have len: "length (es ! i) = sz" if "i < length es" for i using elems_get(2)[OF assms(1) that] .
    have c: "comparator m q (a + ?mid * sz) = Some (cmp v (es ! ?mid))"
      by (rule reads[OF assms(3) elems_get(1)[OF assms(1) mid(3)] assms(4) len[OF mid(3)]])
    consider "cmp v (es ! ?mid) < 0" | "cmp v (es ! ?mid) > 0" | "cmp v (es ! ?mid) = 0" by linarith
    then show ?thesis
    proof cases
      case 1
      have "cmp v (es ! i) < 0" if i: "i < length es" "?mid \<le> i" for i
      proof (rule ccontr)
        assume "\<not> cmp v (es ! i) < 0"
        then have "cmp (es ! i) v \<le> 0" using swap[OF assms(4) len[OF i(1)]] by simp
        moreover have "cmp (es ! ?mid) (es ! i) \<le> 0"
          using le[of ?mid i] refl len i by (cases "i = ?mid") auto
        ultimately have "cmp (es ! ?mid) v \<le> 0" using trans len assms(4) i(1) mid(3) by blast
        then show False using 1 swap[OF assms(4) len[OF mid(3)]] by simp
      qed
      then show ?thesis using less.hyps[of ?mid low] less.prems mid 1 c
        by (subst (1 2) bsearch_loop.simps) (simp add: True Let_def)
    next
      case 2
      have step: "bsearch_loop comparator m q a sz low high = bsearch_loop comparator m q a sz (?mid + 1) high"
        using c 2 by (subst bsearch_loop.simps) (simp add: True Let_def)
      have "cmp v (es ! i) > 0" if i: "i \<le> ?mid" for i
      proof (rule ccontr)
        assume "\<not> cmp v (es ! i) > 0"
        then have "cmp v (es ! i) \<le> 0" by simp
        moreover have "cmp (es ! i) (es ! ?mid) \<le> 0"
          using le[of i ?mid] refl len i mid(3) by (cases "i = ?mid") auto
        ultimately have "cmp v (es ! ?mid) \<le> 0"
          using trans[of v "es ! i" "es ! ?mid"] len[of i] len[of ?mid] assms(4) i mid(3) by simp
        then show False using 2 by simp
      qed
      then show ?thesis using less.hyps[of high "?mid + 1"] less.prems mid
        unfolding step by (simp add: less_Suc_eq_le)
    next
      case 3
      then show ?thesis using c mid(3) by (subst (1 2) bsearch_loop.simps) (auto simp: True Let_def)
    qed
  qed
qed

lemma bsearch_correct:
  assumes "elems m a sz es" "sorted_wrt (\<lambda>x y. cmp x y \<le> 0) es" "bytes_at m q v" "length v = sz"
  shows "(\<exists>i < length es. bsearch comparator m q a (length es) sz = Some (a + i * sz) \<and> cmp v (es ! i) = 0) \<or>
    (bsearch comparator m q a (length es) sz = Some NULL \<and> (\<forall>i < length es. cmp v (es ! i) \<noteq> 0))"
  unfolding bsearch_def by (rule bsearch_loop_correct[OF assms]) auto

end

section \<open>memcmp as a comparator\<close>

interpretation memcmp_order: comparator "\<lambda>m p q. memcmp m p q sz" sz lex_cmp for sz
proof
  show "memcmp m p q sz = Some (lex_cmp x y)"
    if "bytes_at m p x" "bytes_at m q y" "length x = sz" "length y = sz" for m p q x y
    using memcmp_correct[of m p x q y] that by simp
  show "lex_cmp x y < 0 \<longleftrightarrow> lex_cmp y x > 0" for x y using lex_cmp_swap[of x y] by simp
  show "lex_cmp x z \<le> 0" if "lex_cmp x y \<le> 0" "lex_cmp y z \<le> 0" for x y z
    using lex_cmp_trans[OF that] .
qed

section \<open>Properties\<close>

text \<open>
  C32. \<open>qsort\<close> with \<open>memcmp\<close> as the comparator ends, leaves the elements sorted and none lost or
  duplicated, and changes no byte outside the array.
\<close>

theorem qsort_sorts:
  assumes "elems m a sz es" "int (length es) \<le> INT_MAX"
  shows "\<exists>es' m'. qsort (\<lambda>m p q. memcmp m p q sz) m a (length es) sz = Some m' \<and> elems m' a sz es' \<and>
    mset es' = mset es \<and> sorted_wrt (\<lambda>x y. lex_cmp x y \<le> 0) es' \<and>
    (\<forall>q. q < a \<or> a + length es * sz \<le> q \<longrightarrow> m' q = m q)"
  by (rule memcmp_order.qsort_correct[OF assms])

theorem qsort_sorts_witness:
  "\<exists>es' m'. qsort (\<lambda>m p q. memcmp m p q 2) (store (\<lambda>_. Some 0) 100 [7, 1, 0, 5, 7, 0]) 100
        (length [[7, 1], [0, 5], [7, 0 :: byte]]) 2 = Some m' \<and> elems m' 100 2 es' \<and>
    mset es' = mset [[7, 1], [0, 5], [7, 0]] \<and> sorted_wrt (\<lambda>x y. lex_cmp x y \<le> 0) es' \<and>
    (\<forall>q. q < 100 \<or> 100 + length [[7, 1], [0, 5], [7, 0 :: byte]] * 2 \<le> q \<longrightarrow>
      m' q = store (\<lambda>_. Some 0) 100 [7, 1, 0, 5, 7, 0] q)"
  by (rule qsort_sorts) (auto simp: elems_def less_Suc_eq)

text \<open>
  \<open>bsearch\<close> in a sorted array returns the address of an element equal to the key when there
  is one, and \<open>NULL\<close> exactly when there is none.
\<close>

theorem bsearch_finds:
  assumes "elems m a sz es" "sorted_wrt (\<lambda>x y. lex_cmp x y \<le> 0) es" "bytes_at m q v" "length v = sz"
    and "a \<noteq> NULL"
  shows "\<exists>r. bsearch (\<lambda>m p q. memcmp m p q sz) m q a (length es) sz = Some r \<and>
    (r = NULL \<longleftrightarrow> v \<notin> set es) \<and> (r \<noteq> NULL \<longrightarrow> (\<exists>i < length es. r = a + i * sz \<and> es ! i = v))"
  using memcmp_order.bsearch_correct[OF assms(1-4)] assms(5)
  by (auto simp: lex_cmp_eq in_set_conv_nth)

theorem bsearch_finds_witness:
  "\<exists>r. bsearch (\<lambda>m p q. memcmp m p q 2) (store (store (\<lambda>_. Some 0) 100 [0, 5, 7, 0, 7, 1]) 50 [7, 0]) 50 100
        (length [[0, 5], [7, 0], [7, 1 :: byte]]) 2 = Some r \<and>
    (r = NULL \<longleftrightarrow> [7, 0] \<notin> set [[0, 5], [7, 0], [7, 1 :: byte]]) \<and>
    (r \<noteq> NULL \<longrightarrow> (\<exists>i < length [[0, 5], [7, 0], [7, 1 :: byte]]. r = 100 + i * 2 \<and>
      [[0, 5], [7, 0], [7, 1 :: byte]] ! i = [7, 0]))"
  by (rule bsearch_finds) (auto simp: elems_def less_Suc_eq)

end
