(* ===== verification/Stdlib_Float.thy ===== *)
theory Stdlib_Float
  imports Stdlib_Num Complex_Main
begin

text \<open>
  \<open>strtod\<close>, \<open>strtof\<close> and \<open>atof\<close> of \<open>libc/src/stdlib\<close>.  The floating-point operations, with their
  roundings, and the function \<open>pow\<close> of the vendored mathematics library are parameters: the fields of a
  record over a type \<open>'d\<close> of numbers.
\<close>

section \<open>Operations\<close>

record 'd arith =
  f_of_int :: "int \<Rightarrow> 'd"
  f_add :: "'d \<Rightarrow> 'd \<Rightarrow> 'd"
  f_mul :: "'d \<Rightarrow> 'd \<Rightarrow> 'd"
  f_tenth :: 'd
  f_pow :: "'d \<Rightarrow> 'd \<Rightarrow> 'd"
  f_to_float :: "'d \<Rightarrow> 'd"

partial_function (option) strtod_int :: "'d arith \<Rightarrow> mem \<Rightarrow> addr \<Rightarrow> 'd \<Rightarrow> ('d \<times> addr) option" where
  "strtod_int A m p val = do {
     c \<leftarrow> m p;
     if isdigit (cv c) then
       strtod_int A m (p + 1) (f_add A (f_mul A val (f_of_int A 10)) (f_of_int A (cv c - ic CHR ''0'')))
     else Some (val, p)
   }"

partial_function (option) strtod_frac :: "'d arith \<Rightarrow> mem \<Rightarrow> addr \<Rightarrow> 'd \<Rightarrow> 'd \<Rightarrow> ('d \<times> addr) option" where
  "strtod_frac A m p val fr = do {
     c \<leftarrow> m p;
     if isdigit (cv c) then
       let fr = f_mul A fr (f_tenth A) in
       strtod_frac A m (p + 1) (f_add A val (f_mul A (f_of_int A (cv c - ic CHR ''0'')) fr)) fr
     else Some (val, p)
   }"

text \<open>An overflow of the \<open>int\<close> exponent is undefined.\<close>

partial_function (option) strtod_exp :: "mem \<Rightarrow> addr \<Rightarrow> int \<Rightarrow> (int \<times> addr) option" where
  "strtod_exp m p exp_val = do {
     c \<leftarrow> m p;
     if isdigit (cv c) then
       let e = exp_val * 10 + (cv c - ic CHR ''0'') in
       if e > INT_MAX then None else strtod_exp m (p + 1) e
     else Some (exp_val, p)
   }"

text \<open>The optional exponent with its sign.\<close>

definition strtod_exponent :: "mem \<Rightarrow> addr \<Rightarrow> (int \<times> addr) option" where
  "strtod_exponent m p = do {
     c \<leftarrow> m p;
     if c = bc CHR ''e'' \<or> c = bc CHR ''E'' then do {
       (neg, p) \<leftarrow> strto_sign m (p + 1);
       (exp_val, p) \<leftarrow> strtod_exp m p 0;
       Some ((if neg then - 1 else 1) * exp_val, p)
     } else Some (0, p)
   }"

text \<open>The result and the end pointer, which is stored if \<open>endptr\<close> is not null.\<close>

definition strtod :: "'d arith \<Rightarrow> mem \<Rightarrow> addr \<Rightarrow> ('d \<times> addr) option" where
  "strtod A m str = do {
     p \<leftarrow> strto_skip m str;
     (neg, p) \<leftarrow> strto_sign m p;
     (val, p) \<leftarrow> strtod_int A m p (f_of_int A 0);
     c \<leftarrow> m p;
     (val, p) \<leftarrow> (if c = bc CHR ''.'' then strtod_frac A m (p + 1) val (f_of_int A 1) else Some (val, p));
     (e, p) \<leftarrow> strtod_exponent m p;
     Some (f_mul A (f_mul A (f_of_int A (if neg then - 1 else 1)) val) (f_pow A (f_of_int A 10) (f_of_int A e)), p)
   }"

definition strtof :: "'d arith \<Rightarrow> mem \<Rightarrow> addr \<Rightarrow> ('d \<times> addr) option" where
  "strtof A m str = do { (d, p) \<leftarrow> strtod A m str; Some (f_to_float A d, p) }"

definition atof :: "'d arith \<Rightarrow> mem \<Rightarrow> addr \<Rightarrow> 'd option" where
  "atof A m str = do { (d, p) \<leftarrow> strtof A m str; Some d }"

section \<open>Exact arithmetic\<close>

text \<open>
  With exact operations on the rational numbers the functions compute the value of the numeral;
  what a machine computes differs from it by the roundings of the operations alone.
\<close>

definition exact :: "rat arith" where
  "exact = \<lparr>f_of_int = of_int, f_add = (+), f_mul = (*), f_tenth = 1 / 10,
     f_pow = (\<lambda>x y. x powi \<lfloor>y\<rfloor>), f_to_float = (\<lambda>x. x)\<rparr>"

lemma exact_sel [simp]:
  "f_of_int exact = of_int" "f_add exact = (+)" "f_mul exact = (*)" "f_tenth exact = 1 / 10"
  "f_pow exact x (of_int e) = x powi e" "f_to_float exact x = x"
  by (simp_all add: exact_def)

abbreviation num :: "byte \<Rightarrow> bool" where "num c \<equiv> isdigit (cv c)"

fun dec :: "int \<Rightarrow> byte list \<Rightarrow> int" where
  "dec v [] = v"
| "dec v (c # cs) = dec (v * 10 + (cv c - ic CHR ''0'')) cs"

lemma dec_shift: "dec v cs = v * 10 ^ length cs + dec 0 cs"
proof (induction cs arbitrary: v)
  case (Cons c cs)
  show ?case unfolding dec.simps Cons.IH [of "v * 10 + (cv c - ic CHR ''0'')"] Cons.IH [of "0 * 10 + (cv c - ic CHR ''0'')"]
    by (simp add: algebra_simps)
qed simp

lemma dec_nonneg: "list_all num cs \<Longrightarrow> 0 \<le> v \<Longrightarrow> v \<le> dec v cs"
proof (induction cs arbitrary: v)
  case (Cons c cs)
  then have "v \<le> v * 10 + (cv c - ic CHR ''0'')" by (simp add: isdigit_def)
  also have "\<dots> \<le> dec \<dots> cs" using Cons by (intro Cons.IH) (simp_all add: isdigit_def)
  finally show ?case by simp
qed simp

lemma strtod_int_correct:
  assumes "bytes_at m p (ds @ [c])" "list_all num ds" "\<not> num c"
  shows "strtod_int exact m p (of_int v) = Some (of_int (dec v ds), p + length ds)"
  using assms
proof (induction ds arbitrary: p v)
  case Nil
  then show ?case by (auto simp: strtod_int.simps)
next
  case (Cons d ds)
  have "strtod_int exact m (p + 1) (of_int (v * 10 + (cv d - ic CHR ''0''))) =
    Some (of_int (dec (v * 10 + (cv d - ic CHR ''0'')) ds), p + 1 + length ds)"
    using Cons.prems by (intro Cons.IH) simp_all
  with Cons.prems show ?case by (subst strtod_int.simps) simp
qed

lemma shift:
  fixes a b c :: rat
  assumes "c = a * 10 ^ l + b" "l' = Suc l"
  shows "a * (1 / 10 ^ Suc k) + b / 10 ^ (Suc k + l) = c / 10 ^ (k + l')"
  using assms by (simp add: power_add add_divide_distrib)

lemma strtod_frac_correct:
  assumes "bytes_at m p (ds @ [c])" "list_all num ds" "\<not> num c"
  shows "strtod_frac exact m p x (1 / 10 ^ k) = Some (x + of_int (dec 0 ds) / 10 ^ (k + length ds), p + length ds)"
  using assms
proof (induction ds arbitrary: p x k)
  case Nil
  then show ?case by (auto simp: strtod_frac.simps)
next
  case (Cons d ds)
  let ?d = "of_int (cv d - ic CHR ''0'') :: rat"
  have "strtod_frac exact m (p + 1) (x + ?d * (1 / 10 ^ Suc k)) (1 / 10 ^ Suc k) =
    Some (x + ?d * (1 / 10 ^ Suc k) + of_int (dec 0 ds) / 10 ^ (Suc k + length ds), p + 1 + length ds)"
    using Cons.prems by (intro Cons.IH) simp_all
  moreover have "(of_int (dec 0 (d # ds)) :: rat) = ?d * 10 ^ length ds + of_int (dec 0 ds)"
    using dec_shift [of "cv d - ic CHR ''0''" ds] by simp
  then have "?d * (1 / 10 ^ Suc k) + of_int (dec 0 ds) / 10 ^ (Suc k + length ds) = of_int (dec 0 (d # ds)) / 10 ^ (k + length (d # ds))"
    by (rule shift) simp_all
  moreover have "(1 / 10 ^ k) * (1 / 10) = (1 / 10 ^ Suc k :: rat)" by simp
  ultimately show ?case using Cons.prems
    by (subst strtod_frac.simps) (simp add: Let_def add.assoc del: power_Suc)
qed

lemma strtod_exp_correct:
  assumes "bytes_at m p (ds @ [c])" "list_all num ds" "\<not> num c" "0 \<le> v" "dec v ds \<le> INT_MAX"
  shows "strtod_exp m p v = Some (dec v ds, p + length ds)"
  using assms
proof (induction ds arbitrary: p v)
  case Nil
  then show ?case by (auto simp: strtod_exp.simps)
next
  case (Cons d ds)
  let ?v = "v * 10 + (cv d - ic CHR ''0'')"
  have v: "0 \<le> ?v" using Cons.prems by (simp add: isdigit_def)
  have "?v \<le> dec ?v ds" using Cons.prems v by (intro dec_nonneg) simp_all
  then have le: "?v \<le> INT_MAX" using Cons.prems(5) by simp
  have "strtod_exp m (p + 1) ?v = Some (dec ?v ds, p + 1 + length ds)"
    using Cons.prems v by (intro Cons.IH) simp_all
  with Cons.prems le show ?case by (subst strtod_exp.simps) (simp add: Let_def)
qed

section \<open>The whole numeral\<close>

text \<open>White space, a sign, digits, a fraction and an exponent, in front of a character that continues none of them.\<close>

definition sign_text :: "bool option \<Rightarrow> byte list" where
  "sign_text s = (case s of None \<Rightarrow> [] | Some neg \<Rightarrow> [if neg then bc CHR ''-'' else bc CHR ''+''])"

abbreviation neg_sign :: "bool option \<Rightarrow> bool" where "neg_sign s \<equiv> s = Some True"

text \<open>The character at the end of a segment: the next one or the terminator.\<close>

definition next_char :: "byte list \<Rightarrow> byte" where
  "next_char xs = (case xs of [] \<Rightarrow> 0 | c # cs \<Rightarrow> c)"

lemma next_char_simps [simp]: "next_char [] = 0" "next_char (c # cs) = c"
  by (simp_all add: next_char_def)

lemma str_at_segment:
  assumes "str_at m p (xs @ ys)"
  shows "bytes_at m p (xs @ [next_char ys])" "str_at m (p + length xs) ys"
  using assms str_at_drop [OF assms, of "length xs"] by (cases ys; auto simp: str_at_iff)+

lemma strtod_sign:
  assumes "str_at m p (sign_text s @ xs)" "s = None \<Longrightarrow> next_char xs \<noteq> bc CHR ''+'' \<and> next_char xs \<noteq> bc CHR ''-''"
  shows "strto_sign m p = Some (neg_sign s, p + length (sign_text s))"
  using str_at_segment(1) [OF assms(1)] assms(2)
  by (cases s) (auto simp: strto_sign_def sign_text_def)

definition fraction_text :: "byte list option \<Rightarrow> byte list" where
  "fraction_text f = (case f of None \<Rightarrow> [] | Some fs \<Rightarrow> bc CHR ''.'' # fs)"

definition fraction_value :: "byte list option \<Rightarrow> rat" where
  "fraction_value f = (case f of None \<Rightarrow> 0 | Some fs \<Rightarrow> of_int (dec 0 fs) / 10 ^ length fs)"

definition exponent_text :: "(bool \<times> bool option \<times> byte list) option \<Rightarrow> byte list" where
  "exponent_text x = (case x of None \<Rightarrow> []
     | Some (upper, s, xs) \<Rightarrow> (if upper then bc CHR ''E'' else bc CHR ''e'') # sign_text s @ xs)"

definition exponent_value :: "(bool \<times> bool option \<times> byte list) option \<Rightarrow> int" where
  "exponent_value x = (case x of None \<Rightarrow> 0 | Some (upper, s, xs) \<Rightarrow> (if neg_sign s then - 1 else 1) * dec 0 xs)"

lemma num_not_special [simp]:
  "num c \<Longrightarrow> c \<noteq> bc CHR ''+'' \<and> c \<noteq> bc CHR ''-'' \<and> c \<noteq> bc CHR ''.'' \<and> c \<noteq> bc CHR ''e'' \<and> c \<noteq> bc CHR ''E'' \<and> \<not> isspace (cv c)"
  by (auto simp: isdigit_def isspace_def cv_def)

lemma not_num [simp]: "\<not> num 0" "\<not> num (bc CHR ''.'')" "\<not> num (bc CHR ''e'')" "\<not> num (bc CHR ''E'')"
  by (simp_all add: isdigit_def cv_def)

text \<open>A list of digits that is not empty starts with one.\<close>

lemma next_digit: "list_all num ds \<Longrightarrow> ds \<noteq> [] \<Longrightarrow> num (next_char (ds @ xs))"
  by (cases ds) auto

lemma digits_no_sign:
  "list_all num ds \<Longrightarrow> ds \<noteq> [] \<Longrightarrow> next_char (ds @ xs) \<noteq> bc CHR ''+'' \<and> next_char (ds @ xs) \<noteq> bc CHR ''-''"
  using num_not_special [OF next_digit] by blast

lemma strtod_exponent_correct:
  assumes "str_at m p (exponent_text x @ rest)" "\<not> num (next_char rest)"
    and "x = None \<Longrightarrow> next_char rest \<noteq> bc CHR ''e'' \<and> next_char rest \<noteq> bc CHR ''E''"
    and "\<And>u s xs. x = Some (u, s, xs) \<Longrightarrow> xs \<noteq> [] \<and> list_all num xs \<and> dec 0 xs \<le> INT_MAX"
  shows "strtod_exponent m p = Some (exponent_value x, p + length (exponent_text x))"
proof (cases x)
  case None
  then show ?thesis using str_at_segment(1) [OF assms(1)] assms(3)
    by (auto simp: strtod_exponent_def exponent_text_def exponent_value_def)
next
  case (Some y)
  then obtain u s xs where x: "x = Some (u, s, xs)" by (cases y) auto
  note xs = assms(4) [OF x]
  let ?e = "if u then bc CHR ''E'' else bc CHR ''e''"
  have at: "str_at m p (?e # sign_text s @ xs @ rest)" using assms(1) by (simp add: x exponent_text_def)
  then have e: "m p = Some ?e" "str_at m (p + 1) (sign_text s @ xs @ rest)" by auto
  have sg: "strto_sign m (p + 1) = Some (neg_sign s, p + 1 + length (sign_text s))"
    using xs by (intro strtod_sign [OF e(2)] digits_no_sign) simp_all
  have "strtod_exp m (p + 1 + length (sign_text s)) 0 = Some (dec 0 xs, p + 1 + length (sign_text s) + length xs)"
    using str_at_segment(1) [OF str_at_segment(2) [OF e(2)]] xs assms(2) by (intro strtod_exp_correct) auto
  then show ?thesis using e(1) sg by (simp add: strtod_exponent_def x exponent_text_def exponent_value_def)
qed

section \<open>Properties\<close>

text \<open>
  C40. In exact arithmetic \<open>strtod\<close> returns the value of the decimal numeral: white space, a sign, the
  integral digits, a fraction and an exponent are read as far as they go, the value is
  sign * (integral part + fraction) * 10 ^ exponent, and the end pointer is behind the numeral.
\<close>

theorem strtod_decimal:
  assumes "str_at m p (ws @ sign_text s @ ds @ fraction_text f @ exponent_text x @ rest)"
    and "\<forall>c\<in>set ws. isspace (cv c)" "list_all num ds" "ds \<noteq> []" "\<And>fs. f = Some fs \<Longrightarrow> list_all num fs"
    and "\<And>u s xs. x = Some (u, s, xs) \<Longrightarrow> xs \<noteq> [] \<and> list_all num xs \<and> dec 0 xs \<le> INT_MAX"
    and "\<not> num (next_char rest)" "f = None \<Longrightarrow> x = None \<Longrightarrow> next_char rest \<noteq> bc CHR ''.''"
    and "x = None \<Longrightarrow> next_char rest \<noteq> bc CHR ''e'' \<and> next_char rest \<noteq> bc CHR ''E''"
  shows "strtod exact m p = Some ((if neg_sign s then - 1 else 1) * (of_int (dec 0 ds) + fraction_value f) * 10 powi exponent_value x,
    p + length (ws @ sign_text s @ ds @ fraction_text f @ exponent_text x))"
proof -
  let ?r = "exponent_text x @ rest"
  let ?q = "p + length ws" and ?a = "p + length ws + length (sign_text s)"
  note q = str_at_segment(2) [OF assms(1)] and a = str_at_segment(2) [OF str_at_segment(2) [OF assms(1)]]
  have "sign_text s @ ds @ fraction_text f @ ?r \<noteq> [] \<and> \<not> isspace (cv (hd (sign_text s @ ds @ fraction_text f @ ?r)))"
    using assms(3,4) by (cases ds; cases s) (auto simp: sign_text_def isspace_def isdigit_def cv_def)
  then have skip: "strto_skip m p = Some ?q" using assms(2) by (intro strto_skip_correct [OF assms(1)]) auto
  have sg: "strto_sign m ?q = Some (neg_sign s, ?a)"
    using assms(3,4) by (intro strtod_sign [OF q] digits_no_sign)
  have r: "next_char ?r = (if x = None then next_char rest else if fst (the x) then bc CHR ''E'' else bc CHR ''e'')"
    by (cases x) (auto simp: exponent_text_def split: prod.split)
  have nr: "\<not> num (next_char ?r)" using assms(7) by (auto simp: r isdigit_def cv_def)
  let ?b = "?a + length ds"
  have "\<not> num (next_char (fraction_text f @ ?r))" using nr not_num(2)
    by (cases f) (simp_all only: fraction_text_def option.case append.simps next_char_simps not_False_eq_True)
  then have int: "strtod_int exact m ?a 0 = Some (of_int (dec 0 ds), ?b)"
    using strtod_int_correct [OF str_at_segment(1) [OF a] assms(3), of 0] by simp
  note b = str_at_segment(2) [OF a]
  let ?c = "?b + length (fraction_text f)"
  have fr: "\<exists>c. m ?b = Some c \<and> (if c = bc CHR ''.'' then strtod_frac exact m (?b + 1) (of_int (dec 0 ds)) 1 else Some (of_int (dec 0 ds), ?b)) =
      Some (of_int (dec 0 ds) + fraction_value f, ?c)"
  proof (cases f)
    case None
    then have "m ?b = Some (next_char ?r)" using str_at_segment(1) [of m ?b "[]" ?r] b by (simp add: fraction_text_def)
    moreover have "next_char ?r \<noteq> bc CHR ''.''" using None assms(8) by (auto simp: r)
    ultimately show ?thesis using None by (simp add: fraction_text_def fraction_value_def)
  next
    case (Some fs)
    then have at: "m ?b = Some (bc CHR ''.'')" "str_at m (?b + 1) (fs @ ?r)" using b by (auto simp: fraction_text_def)
    have "strtod_frac exact m (?b + 1) (of_int (dec 0 ds)) (1 / 10 ^ 0) = Some (of_int (dec 0 ds) + of_int (dec 0 fs) / 10 ^ (0 + length fs), ?b + 1 + length fs)"
      using str_at_segment(1) [OF at(2)] assms(5) [OF Some] nr by (rule strtod_frac_correct)
    then show ?thesis using at(1) Some by (simp add: fraction_text_def fraction_value_def)
  qed
  then obtain c where c: "m ?b = Some c" "(if c = bc CHR ''.'' then strtod_frac exact m (?b + 1) (of_int (dec 0 ds)) 1 else Some (of_int (dec 0 ds), ?b)) =
      Some (of_int (dec 0 ds) + fraction_value f, ?c)" by blast
  have ex: "strtod_exponent m ?c = Some (exponent_value x, ?c + length (exponent_text x))"
    using str_at_segment(2) [OF b] assms(6,7,9) by (intro strtod_exponent_correct) auto
  have "strtod exact m p = Some (of_int (if neg_sign s then - 1 else 1) * (of_int (dec 0 ds) + fraction_value f) *
      of_int 10 powi exponent_value x, ?c + length (exponent_text x))"
    by (simp only: strtod_def skip sg int c ex Option.bind.bind_lunit prod.case exact_sel of_int_0 of_int_1)
  then show ?thesis by (simp add: add.assoc)
qed

theorem strtod_decimal_witness:
  "strtod exact (store Map.empty 100 (lit '' -12.5e1x'' @ [0])) 100 = Some (- 125, 108)"
proof -
  let ?m = "store Map.empty 100 (lit '' -12.5e1x'' @ [0])"
  have "strtod exact ?m 100 = Some ((if neg_sign (Some True) then - 1 else 1) *
      (of_int (dec 0 (lit ''12'')) + fraction_value (Some (lit ''5''))) * 10 powi exponent_value (Some (False, None, lit ''1'')),
    100 + length (lit '' '' @ sign_text (Some True) @ lit ''12'' @ fraction_text (Some (lit ''5'')) @ exponent_text (Some (False, None, lit ''1''))))"
    by (rule strtod_decimal [where rest = "lit ''x''"])
      (auto simp: sign_text_def fraction_text_def exponent_text_def isspace_def isdigit_def cv_def)
  then show ?thesis
    by (simp add: sign_text_def fraction_text_def exponent_text_def fraction_value_def exponent_value_def cv_def)
qed

end
