(* ===== verification/Libgen.thy ===== *)
theory Libgen
  imports C_String
begin

text \<open>
  \<open>basename\<close> and \<open>dirname\<close> of \<open>libc/src/libgen\<close>.  The static buffer \<open>_statbuf\<close> each of them
  returns for the special answers is an argument, its address.
\<close>

section \<open>Operations\<close>

text \<open>The two bytes a special answer writes into the static buffer.\<close>

definition statbuf_answer :: "mem \<Rightarrow> addr \<Rightarrow> byte \<Rightarrow> (addr \<times> mem) option" where
  "statbuf_answer m statbuf c = do {
     m \<leftarrow> wr m statbuf c;
     m \<leftarrow> wr m (statbuf + 1) 0;
     Some (statbuf, m)
   }"

text \<open>\<open>while(last >= path \&\& *last == '/')\<close>\<close>

partial_function (option) strip_slashes :: "mem \<Rightarrow> addr \<Rightarrow> addr \<Rightarrow> mem option" where
  "strip_slashes m path lst =
     (if lst \<ge> path then do {
        c \<leftarrow> m lst;
        if c = bc CHR ''/'' then do { m \<leftarrow> wr m lst 0; strip_slashes m path (lst - 1) } else Some m
      } else Some m)"

definition basename :: "mem \<Rightarrow> addr \<Rightarrow> addr \<Rightarrow> (addr \<times> mem) option" where
  "basename m statbuf path =
     (if path = NULL then statbuf_answer m statbuf (bc CHR ''.'')
      else do {
        len \<leftarrow> strlen m path;
        if len = 0 then statbuf_answer m statbuf (bc CHR ''.'')
        else do {
          m \<leftarrow> strip_slashes m path (path + len - 1);
          c \<leftarrow> m path;
          if c = 0 then statbuf_answer m statbuf (bc CHR ''/'')
          else do {
            rightmostSlash \<leftarrow> strrchr m path (ic CHR ''/'');
            if rightmostSlash = NULL then Some (path, m) else Some (rightmostSlash + 1, m)
          }
        }
      })"

definition dirname :: "mem \<Rightarrow> addr \<Rightarrow> addr \<Rightarrow> (addr \<times> mem) option" where
  "dirname m statbuf path =
     (if path = NULL then statbuf_answer m statbuf (bc CHR ''.'')
      else do {
        len \<leftarrow> strlen m path;
        if len = 0 then statbuf_answer m statbuf (bc CHR ''.'')
        else do {
          m \<leftarrow> strip_slashes m path (path + len - 1);
          c \<leftarrow> m path;
          if c = 0 then statbuf_answer m statbuf (bc CHR ''/'')
          else do {
            rightmostSlash \<leftarrow> strrchr m path (ic CHR ''/'');
            if rightmostSlash = NULL then statbuf_answer m statbuf (bc CHR ''.'')
            else do {
              m \<leftarrow> (if rightmostSlash = path then wr m (rightmostSlash + 1) 0
                   else wr m rightmostSlash 0);
              Some (path, m)
            }
          }
        }
      })"

declare strip_slashes.simps [code]

section \<open>What they compute\<close>

abbreviation (input) slash :: byte where "slash \<equiv> bc CHR ''/''"

lemma last_pos_append_notin: "c \<notin> cv ` set ys \<Longrightarrow> last_pos c (xs @ ys) = last_pos c xs"
proof (induction ys rule: rev_induct)
  case (snoc y ys)
  then show ?case by (auto simp: last_pos_snoc simp flip: append_assoc)
qed simp

lemma strip_slashes_correct:
  "str_at m p (ys @ replicate k slash) \<Longrightarrow> ys = [] \<or> last ys \<noteq> slash \<Longrightarrow> p \<noteq> NULL \<Longrightarrow>
   strip_slashes m p (p + length ys + k - 1) = Some (store m (p + length ys) (replicate k 0))"
proof (induction k arbitrary: m)
  case 0
  show ?case
  proof (cases ys rule: rev_cases)
    case Nil
    with 0 show ?thesis by (subst strip_slashes.simps) auto
  next
    case (snoc zs z)
    with str_at_nth(1)[OF 0(1), of "length zs"] 0 show ?thesis
      by (subst strip_slashes.simps) (auto simp: nth_append)
  qed
next
  case (Suc k)
  let ?l = "p + length ys + k" and ?m = "m(p + length ys + k \<mapsto> 0)"
  have l: "m ?l = Some slash"
    using str_at_nth(1)[OF Suc.prems(1), of "length ys + k"] 
    by (simp add: nth_append add.assoc del: replicate_Suc)
  have "str_at m p ((ys @ replicate k slash) @ [slash])"
    using Suc.prems(1) by (simp add: replicate_append_same)
  then have "bytes_at m p (ys @ replicate k slash)" "0 \<notin> set (ys @ replicate k slash)"
    using str_at_append[of "ys @ replicate k slash" m p "[slash]"]
    by (auto simp: str_at_iff)
  then have "str_at ?m p (ys @ replicate k slash)"
    by (simp add: str_at_iff bytes_at_upd add.assoc del: fun_upd_apply) (simp add: add.assoc)
  then have "strip_slashes ?m p (p + length ys + k - 1) = Some (store ?m (p + length ys) (replicate k 0))"
    using Suc.IH[of ?m] Suc.prems by blast
  moreover have "store ?m (p + length ys) (replicate k 0) = store m (p + length ys) (replicate (Suc k) 0)"
    by (simp add: store_upd_comm replicate_append_same[symmetric] store_snoc del: replicate_Suc store.simps
        add: replicate_Suc[of k, folded replicate_append_same])
  ultimately show ?case using l by (subst strip_slashes.simps) simp
qed

lemma stripped_at:
  assumes "str_at m p (ys @ replicate k slash)"
  shows "str_at (store m (p + length ys) (replicate k 0)) p ys"
proof -
  have *: "0 \<notin> set ys" "bytes_at m p ys" "m (p + length ys + k) = Some 0"
    using assms str_at_nth(2)[OF assms] by (auto simp: str_at_iff add.assoc)
  then show ?thesis
    by (cases "k = 0") (simp_all add: str_at_iff bytes_at_store store_apply)
qed

lemma statbuf_answer_correct:
  assumes "mapped m b 2" "c \<noteq> 0"
  shows "statbuf_answer m b c = Some (b, store m b [c, 0]) \<and> str_at (store m b [c, 0]) b [c]"
proof -
  have "\<exists>x. m b = Some x" "\<exists>x. m (Suc b) = Some x" using assms(1) by (auto simp: numeral_2_eq_2)
  with assms(2) show ?thesis by (auto simp: statbuf_answer_def wr_def)
qed

lemma last_pos_slash:
  assumes "slash \<notin> set zs"
  shows "last_pos (ic CHR ''/'') (ys @ slash # zs) = Some (length ys)"
proof -
  have "ic CHR ''/'' \<notin> cv ` set zs"
  proof
    assume "ic CHR ''/'' \<in> cv ` set zs"
    then obtain z where "z \<in> set zs" "cv z = cv slash" by (auto simp: cv_def)
    with assms show False by simp
  qed
  then show ?thesis using last_pos_append_notin[of _ zs "ys @ [slash]"]
    by (simp add: last_pos_snoc cv_def)
qed

lemma last_pos_no_slash: "slash \<notin> set zs \<Longrightarrow> last_pos (ic CHR ''/'') zs = None"
proof -
  assume "slash \<notin> set zs"
  have "cv z \<noteq> ic CHR ''/''" if "z \<in> set zs" for z
  proof
    assume "cv z = ic CHR ''/''"
    then have "cv z = cv slash" by (simp add: cv_def)
    with that \<open>slash \<notin> set zs\<close> show False by simp
  qed
  then show ?thesis unfolding last_pos_None by (metis imageE)
qed

lemma basename_cases:
  assumes "str_at m p (ys @ replicate k slash)" "p \<noteq> NULL" "ys \<noteq> []" "last ys \<noteq> slash"
  shows "basename m b p = Some (case last_pos (ic CHR ''/'') ys of None \<Rightarrow> p | Some i \<Rightarrow> p + i + 1,
      store m (p + length ys) (replicate k 0))"
proof -
  let ?m = "store m (p + length ys) (replicate k 0)"
  have at: "str_at ?m p ys" by (rule stripped_at[OF assms(1)])
  have "strlen m p = Some (length ys + k)" using strlen_correct[OF assms(1,2)] by simp
  moreover have "strip_slashes m p (p + length ys + k - 1) = Some ?m"
    using strip_slashes_correct[OF assms(1)] assms(2,4) by blast
  moreover obtain c where "?m p = Some c" "c \<noteq> 0" using at assms(3) by (cases ys) auto
  moreover note strrchr_char[OF at assms(2), of "ic CHR ''/''"]
  ultimately show ?thesis using assms(2,3)
    by (cases "last_pos (ic CHR ''/'') ys") (simp_all add: basename_def add.assoc)
qed

lemma dirname_cases:
  assumes "str_at m p (ys @ replicate k slash)" "p \<noteq> NULL" "ys \<noteq> []" "last ys \<noteq> slash"
  shows "dirname m b p = (case last_pos (ic CHR ''/'') ys of
      None \<Rightarrow> statbuf_answer (store m (p + length ys) (replicate k 0)) b (bc CHR ''.'')
    | Some i \<Rightarrow> Some (p, (store m (p + length ys) (replicate k 0))
        ((if i = 0 then p + 1 else p + i) \<mapsto> 0)))"
proof -
  let ?m = "store m (p + length ys) (replicate k 0)"
  have at: "str_at ?m p ys" by (rule stripped_at[OF assms(1)])
  have 1: "strlen m p = Some (length ys + k)" using strlen_correct[OF assms(1,2)] by simp
  have 2: "strip_slashes m p (p + length ys + k - 1) = Some ?m"
    using strip_slashes_correct[OF assms(1)] assms(2,4) by blast
  obtain c where 3: "?m p = Some c" "c \<noteq> 0" using at assms(3) by (cases ys) auto
  note 4 = strrchr_char[OF at assms(2), of "ic CHR ''/''"]
  show ?thesis
  proof (cases "last_pos (ic CHR ''/'') ys")
    case None
    with 1 2 3 4 assms(2,3) show ?thesis by (simp add: dirname_def add.assoc)
  next
    case (Some i)
    have i: "i < length ys" using last_pos_less[OF Some] by simp
    have "mapped ?m p (Suc (length ys))" by (rule str_at_mapped[OF at])
    then obtain x y where "?m (p + i) = Some x" "?m (p + 1) = Some y"
      using mapped_get[of ?m p "Suc (length ys)" "p + i"] mapped_get[of ?m p "Suc (length ys)" "p + 1"]
        i assms(3) by auto
    with Some 1 2 3 4 assms(2,3) show ?thesis by (cases "i = 0") (auto simp: dirname_def add.assoc)
  qed
qed

section \<open>Properties\<close>

text \<open>
  On a path of a directory, a slash, a last component without slashes and any number of
  trailing slashes, \<open>basename\<close> returns the component and \<open>dirname\<close> the directory (\<open>/\<close> for the
  root), each as a NUL-terminated string: joining them with a slash gives the path again.
\<close>

theorem basename_dirname_split:
  assumes "str_at m p (d @ slash # w @ replicate k slash)" "p \<noteq> NULL" "w \<noteq> []" "slash \<notin> set w"
  shows "\<exists>q m1 m2. basename m b p = Some (q, m1) \<and> str_at m1 q w \<and>
    dirname m b p = Some (p, m2) \<and> str_at m2 p (if d = [] then [slash] else d)"
proof -
  let ?ys = "d @ slash # w"
  let ?m = "store m (p + length ?ys) (replicate k 0)"
  have at: "str_at m p (?ys @ replicate k slash)" using assms(1) by simp
  have l: "?ys \<noteq> []" "last ?ys \<noteq> slash" using assms(3,4) last_in_set by fastforce+
  note at2 = stripped_at[OF at]
  have nz: "0 \<notin> set d" "bytes_at ?m p d" "?m (p + length d) = Some slash"
    "str_at ?m (p + length d + 1) w"
    using at2 str_at_nonzero[OF at] by (auto simp: str_at_append)
  have pos: "last_pos (ic CHR ''/'') ?ys = Some (length d)" by (rule last_pos_slash[OF assms(4)])
  have "str_at (?m((if length d = 0 then p + 1 else p + length d) \<mapsto> 0)) p (if d = [] then [slash] else d)"
    using nz by (auto simp: str_at_iff bytes_at_upd)
  then show ?thesis
    using basename_cases[OF at assms(2) l, of b] dirname_cases[OF at assms(2) l, of b] nz(4) pos by simp
qed

theorem basename_dirname_split_witness:
  "\<exists>q m1 m2. basename (store (\<lambda>_. Some 0) 100 (lit ''/usr/lib//'')) 50 100 = Some (q, m1) \<and>
    str_at m1 q (lit ''lib'') \<and>
    dirname (store (\<lambda>_. Some 0) 100 (lit ''/usr/lib//'')) 50 100 = Some (100, m2) \<and>
    str_at m2 100 (if lit ''/usr'' = [] then [slash] else lit ''/usr'')"
  by (rule basename_dirname_split[where k = "Suc (Suc 0)"]) simp_all

text \<open>
  The special answers: \<open>.\<close> for \<open>NULL\<close> and the empty path, \<open>/\<close> for a path of slashes only, and
  for a name without a directory the name itself and \<open>.\<close>.
\<close>

theorem basename_dirname_special:
  assumes "mapped m b 2" "str_at m p (w @ replicate k slash)" "p \<noteq> NULL" "slash \<notin> set w"
  shows "\<exists>q1 m1 q2 m2. basename m b p = Some (q1, m1) \<and> dirname m b p = Some (q2, m2) \<and>
    str_at m1 q1 (if w \<noteq> [] then w else if k = 0 then lit ''.'' else [slash]) \<and>
    str_at m2 q2 (if w = [] \<and> k > 0 then [slash] else lit ''.'') \<and>
    basename m b NULL = dirname m b NULL \<and> basename m b NULL = Some (b, store m b [bc CHR ''.'', 0])"
proof -
  let ?m = "store m (p + length w) (replicate k 0)"
  have null: "basename m b NULL = dirname m b NULL" "basename m b NULL = Some (b, store m b [bc CHR ''.'', 0])"
    using statbuf_answer_correct[OF assms(1)] by (simp_all add: basename_def dirname_def)
  have mb: "mapped ?m b 2" by (rule mapped_store[OF assms(1)])
  have 1: "strlen m p = Some (length w + k)" using strlen_correct[OF assms(2,3)] by simp
  have 2: "str_at ?m p w" by (rule stripped_at[OF assms(2)])
  consider "w = []" "k = 0" | "w = []" "k > 0" | "w \<noteq> []" by blast
  then show ?thesis
  proof cases
    case 1
    with null \<open>strlen m p = _\<close> assms(3) statbuf_answer_correct[OF assms(1), of "bc CHR ''.''"] show ?thesis
      by (simp add: basename_def dirname_def)
  next
    case 2
    have "strip_slashes m p (p + k - 1) = Some ?m" "?m p = Some 0"
      using strip_slashes_correct[OF assms(2)] assms(3) \<open>str_at ?m p w\<close> 2 by simp_all
    with 2 null \<open>strlen m p = _\<close> assms(3) statbuf_answer_correct[OF mb, of slash] show ?thesis
      by (simp add: basename_def dirname_def)
  next
    case 3
    then have l: "last w \<noteq> slash" using assms(4) last_in_set by fastforce
    show ?thesis
      using basename_cases[OF assms(2,3) 3 l, of b] dirname_cases[OF assms(2,3) 3 l, of b] null 3 2
        last_pos_no_slash[OF assms(4)] statbuf_answer_correct[OF mb, of "bc CHR ''.''"] by simp
  qed
qed

theorem basename_dirname_special_witness:
  "\<exists>q1 m1 q2 m2. basename (store (\<lambda>_. Some 0) 100 (lit ''a/'')) 50 100 = Some (q1, m1) \<and>
    dirname (store (\<lambda>_. Some 0) 100 (lit ''a/'')) 50 100 = Some (q2, m2) \<and>
    str_at m1 q1 (if lit ''a'' \<noteq> [] then lit ''a'' else if Suc 0 = 0 then lit ''.'' else [slash]) \<and>
    str_at m2 q2 (if lit ''a'' = [] \<and> Suc 0 > 0 then [slash] else lit ''.'') \<and>
    basename (store (\<lambda>_. Some 0) 100 (lit ''a/'')) 50 NULL = dirname (store (\<lambda>_. Some 0) 100 (lit ''a/'')) 50 NULL \<and>
    basename (store (\<lambda>_. Some 0) 100 (lit ''a/'')) 50 NULL
      = Some (50, store (store (\<lambda>_. Some 0) 100 (lit ''a/'')) 50 [bc CHR ''.'', 0])"
  by (rule basename_dirname_special) (simp_all add: mapped_iff)

end
