(* ===== verification/Printf.thy ===== *)
theory Printf
  imports C_String
begin

text \<open>
  Formatted output of \<open>libc/src/stdio\<close>: \<open>vcbprintf\<close>, which hands its output piece by piece to a
  callback, and the functions that print to memory (\<open>vsnprintf\<close>, \<open>snprintf\<close>, \<open>vsprintf\<close>,
  \<open>sprintf\<close>, \<open>vasprintf\<close>, \<open>asprintf\<close>).

  The position \<open>s\<close> of the C code is, within one round of its loop, the list of the bytes still to
  come, its end the terminator: a round reads the format before it writes anything.  A format in memory
  is read again in every round, from the memory as the output so far has left it (\<open>vcbprintf_at\<close>); a
  literal does not change (\<open>vcbprintf\<close>).  The argument list holds one entry per argument: the 64-bit
  slot of an integer or pointer, or a floating point value.
\<close>

section \<open>Arguments\<close>

text \<open>A finite binary floating point value \<open>m * 2 ^ e\<close>.\<close>

datatype fl = Fl (mant: int) (expo: int)

datatype va = VWord int | VFloat fl

type_synonym va_list = "va list"

fun va_word :: "va_list \<Rightarrow> (int \<times> va_list) option" where
  "va_word (VWord x # args) = Some (x, args)"
| "va_word _ = None"

fun va_float :: "va_list \<Rightarrow> (fl \<times> va_list) option" where
  "va_float (VFloat x # args) = Some (x, args)"
| "va_float _ = None"

section \<open>Floating point\<close>

text \<open>Rounding to the 53 bits of a \<open>double\<close>, to nearest and ties to even.\<close>

function bitlen :: "int \<Rightarrow> int" where
  "bitlen m = (if m \<le> 0 then 0 else 1 + bitlen (m div 2))"
  by pat_completeness auto
termination
  by (relation "measure nat") auto

declare bitlen.simps [simp del]

definition fl_round :: "fl \<Rightarrow> fl" where
  "fl_round x = (let m = \<bar>mant x\<bar>; k = bitlen m - 53 in
     if k \<le> 0 then x
     else let q = m div 2 ^ nat k; r = m mod 2 ^ nat k; h = 2 ^ nat (k - 1);
              q = (if r > h \<or> (r = h \<and> odd q) then q + 1 else q)
       in Fl (sgn (mant x) * q) (expo x + k))"

definition fl_trunc :: "fl \<Rightarrow> int" where
  "fl_trunc x = (if expo x \<ge> 0 then mant x * 2 ^ nat (expo x) else cdiv (mant x) (2 ^ nat (- expo x)))"

text \<open>\<open>x - (intmax_t) x\<close>, which is exact.\<close>

definition fl_frac :: "fl \<Rightarrow> fl" where
  "fl_frac x = (if expo x \<ge> 0 then Fl 0 0 else Fl (cmod (mant x) (2 ^ nat (- expo x))) (expo x))"

definition fl_mul10 :: "fl \<Rightarrow> fl" where
  "fl_mul10 x = fl_round (Fl (10 * mant x) (expo x))"

text \<open>\<open>while(d - ((intmax_t) d) != 0) d *= 10\<close>\<close>

partial_function (option) fl_scale :: "fl \<Rightarrow> fl option" where
  "fl_scale d = (if mant (fl_frac d) \<noteq> 0 then fl_scale (fl_mul10 d) else Some d)"

section \<open>Numbers in the format and digits\<close>

definition cur :: "byte list \<Rightarrow> byte" where
  "cur s = (case s of [] \<Rightarrow> 0 | c # _ \<Rightarrow> c)"

text \<open>\<open>STEP\<close>: the next position, or \<open>None\<close> at the terminator, where the code returns.\<close>

fun pf_step :: "byte list \<Rightarrow> byte list option" where
  "pf_step (_ # c # s) = Some (c # s)"
| "pf_step _ = None"

definition is_dec :: "byte \<Rightarrow> bool" where
  "is_dec c = (cv c \<ge> ic CHR ''0'' \<and> cv c \<le> ic CHR ''9'')"

fun get_number :: "byte list \<Rightarrow> int \<Rightarrow> int \<times> byte list" where
  "get_number [] res = (res, [])"
| "get_number (c # s) res =
     (if is_dec c then get_number s (s32 (res * 10 + (cv c - ic CHR ''0''))) else (res, c # s))"

text \<open>
  \<open>_integer_to_string\<close>: the number of digits, then the digits from the last to the first.  The
  base is 8, 10 or 16 in every call.
\<close>

function its_count :: "int \<Rightarrow> int \<Rightarrow> nat \<Rightarrow> nat" where
  "its_count temp base count =
     (if base > 1 \<and> temp \<ge> base then its_count (temp div base) base (count + 1) else count)"
  by pat_completeness auto
termination
  by (relation "measure (\<lambda>(temp, base, count). nat temp)") (auto simp: int_div_less_self)

fun its_fill :: "nat \<Rightarrow> int \<Rightarrow> int \<Rightarrow> byte list \<Rightarrow> byte list \<Rightarrow> byte list" where
  "its_fill 0 value base digits out = out"
| "its_fill (Suc i) value base digits out =
     its_fill i (value div base) base digits (digits ! nat (value mod base) # out)"

definition integer_to_string :: "int \<Rightarrow> int \<Rightarrow> byte list \<Rightarrow> byte list" where
  "integer_to_string value base digits = its_fill (its_count value base 1) value base digits []"

section \<open>Directives\<close>

record pf_flags =
  flag_left_justify :: bool
  flag_always_prepend_sign :: bool
  flag_always_prepend_space_plussign :: bool
  flag_force_0x_or_dec :: bool
  flag_left_pad_zeroes :: bool

definition no_flags :: pf_flags where
  "no_flags = \<lparr>flag_left_justify = False, flag_always_prepend_sign = False,
     flag_always_prepend_space_plussign = False, flag_force_0x_or_dec = False,
     flag_left_pad_zeroes = False\<rparr>"

definition pf_set_flag :: "byte \<Rightarrow> pf_flags \<Rightarrow> pf_flags option" where
  "pf_set_flag c f =
     (if c = bc CHR ''-'' then Some (f\<lparr>flag_left_justify := True\<rparr>)
      else if c = bc CHR ''+'' then Some (f\<lparr>flag_always_prepend_sign := True\<rparr>)
      else if c = bc CHR '' '' then Some (f\<lparr>flag_always_prepend_space_plussign := True\<rparr>)
      else if c = bc CHR ''#'' then Some (f\<lparr>flag_force_0x_or_dec := True\<rparr>)
      else if c = bc CHR ''0'' then Some (f\<lparr>flag_left_pad_zeroes := True\<rparr>)
      else None)"

text \<open>The parsing functions are \<open>None\<close> where a \<open>STEP\<close> meets the terminator.\<close>

fun pf_flags_loop :: "byte list \<Rightarrow> pf_flags \<Rightarrow> (pf_flags \<times> byte list) option" where
  "pf_flags_loop [] f = Some (f, [])"
| "pf_flags_loop (c # s) f = (case pf_set_flag c f of
     None \<Rightarrow> Some (f, c # s)
   | Some f \<Rightarrow> if s = [] then None else pf_flags_loop s f)"

text \<open>A number that may be \<open>*\<close> (the result \<open>None\<close>, taken from the arguments later).\<close>

definition pf_number :: "byte list \<Rightarrow> int \<Rightarrow> (int option \<times> byte list) option" where
  "pf_number s dflt =
     (if cur s = bc CHR ''*'' then do { s \<leftarrow> pf_step s; Some (None, s) }
      else if is_dec (cur s) then (let (n, s) = get_number s 0 in Some (Some n, s))
      else Some (Some dflt, s))"

datatype pf_length = LEN_DEFAULT | LEN_hh | LEN_h | LEN_l | LEN_ll | LEN_j | LEN_z | LEN_t | LEN_L

definition pf_parse_length :: "byte list \<Rightarrow> (pf_length \<times> byte list) option" where
  "pf_parse_length s =
     (if cur s = bc CHR ''h'' then do {
        s \<leftarrow> pf_step s;
        if cur s = bc CHR ''h'' then do { s \<leftarrow> pf_step s; Some (LEN_hh, s) } else Some (LEN_h, s)
      }
      else if cur s = bc CHR ''l'' then do {
        s \<leftarrow> pf_step s;
        if cur s = bc CHR ''l'' then do { s \<leftarrow> pf_step s; Some (LEN_ll, s) } else Some (LEN_l, s)
      }
      else if cur s = bc CHR ''j'' then do { s \<leftarrow> pf_step s; Some (LEN_j, s) }
      else if cur s = bc CHR ''z'' then do { s \<leftarrow> pf_step s; Some (LEN_z, s) }
      else if cur s = bc CHR ''t'' then do { s \<leftarrow> pf_step s; Some (LEN_t, s) }
      else if cur s = bc CHR ''L'' then do { s \<leftarrow> pf_step s; Some (LEN_L, s) }
      else Some (LEN_DEFAULT, s))"

record directive =
  d_flags :: pf_flags
  d_width :: "int option"
  d_precision :: "int option"
  d_explicit :: bool
  d_length :: pf_length
  d_spec :: byte

text \<open>Everything between \<open>%\<close> and the conversion character; the rest starts at that character.\<close>

definition pf_parse :: "byte list \<Rightarrow> (directive \<times> byte list) option" where
  "pf_parse s = do {
     (flags, s) \<leftarrow> pf_flags_loop s no_flags;
     (width, s) \<leftarrow> pf_number s 0;
     (explicit, precision, s) \<leftarrow>
       (if cur s = bc CHR ''.'' then do {
          s \<leftarrow> pf_step s;
          (precision, s) \<leftarrow> pf_number s 6;
          Some (True, precision, s)
        } else Some (False, Some 6, s));
     (len, s) \<leftarrow> pf_parse_length s;
     Some (\<lparr>d_flags = flags, d_width = width, d_precision = precision, d_explicit = explicit,
            d_length = len, d_spec = cur s\<rparr>, s)
   }"

section \<open>Output\<close>

text \<open>
  The callback gets its parameter, the bytes to write and the memory; its result is what it
  returns, with the parameter's new state.  The state of \<open>vcbprintf\<close> is the number of bytes
  written, \<open>errno\<close>, and the parameter and the memory the callback works on.
\<close>

type_synonym 'p callback = "'p \<Rightarrow> byte list \<Rightarrow> mem \<Rightarrow> (int \<times> 'p \<times> mem) option"

record 'p pstate =
  written :: int
  perrno :: int
  param :: 'p
  pmem :: mem

text \<open>
  A step of the output: \<open>Inl\<close> is the state in which \<open>vcbprintf\<close> returns \<open>-1\<close>, \<open>Inr\<close> the state in
  which it goes on.
\<close>

type_synonym 'p pstep = "'p pstate \<Rightarrow> ('p pstate + 'p pstate) option"

fun pf_seq :: "'p pstep list \<Rightarrow> 'p pstep" where
  "pf_seq [] st = Some (Inr st)"
| "pf_seq (f # fs) st = (case f st of
     None \<Rightarrow> None
   | Some (Inl st) \<Rightarrow> Some (Inl st)
   | Some (Inr st) \<Rightarrow> pf_seq fs st)"

text \<open>\<open>if(callback(param, buf, len) != len) return -1; written += len;\<close>\<close>

definition emit :: "'p callback \<Rightarrow> byte list \<Rightarrow> 'p pstep" where
  "emit callback buf st = do {
     (r, p, m) \<leftarrow> callback (param st) buf (pmem st);
     let st = st\<lparr>param := p, pmem := m\<rparr>;
     Some (if r \<noteq> int (length buf) then Inl st
           else Inr (st\<lparr>written := s32 (written st + int (length buf))\<rparr>))
   }"

definition fail :: "int \<Rightarrow> 'p pstep" where
  "fail e st = Some (Inl (st\<lparr>perrno := e\<rparr>))"

definition whenever :: "bool \<Rightarrow> 'p pstep \<Rightarrow> 'p pstep" where
  "whenever b f = (if b then f else pf_seq [])"

text \<open>A padding loop that runs \<open>n\<close> times.\<close>

definition pad :: "'p callback \<Rightarrow> char \<Rightarrow> int \<Rightarrow> 'p pstep" where
  "pad callback c n = pf_seq (replicate (nat n) (emit callback [bc c]))"

definition sign_of :: "bool \<Rightarrow> pf_flags \<Rightarrow> byte list" where
  "sign_of isnegative f =
     (if isnegative then lit ''-''
      else if flag_always_prepend_sign f then lit ''+''
      else if flag_always_prepend_space_plussign f then lit '' ''
      else [])"

definition emit_nonempty :: "'p callback \<Rightarrow> byte list \<Rightarrow> 'p pstep" where
  "emit_nonempty callback buf = whenever (buf \<noteq> []) (emit callback buf)"

section \<open>Conversions\<close>

subsection \<open>u, o, x, X, d, i, p\<close>

text \<open>The value as \<open>uintmax_t\<close>; \<open>None\<close> is the length \<open>L\<close>, an error.\<close>

definition pf_int_value :: "bool \<Rightarrow> pf_length \<Rightarrow> int \<Rightarrow> int option" where
  "pf_int_value issigned len slot =
     (if issigned then (case len of
        LEN_DEFAULT \<Rightarrow> Some (u64 (s32 slot))
      | LEN_hh \<Rightarrow> Some (u64 (signed_take_bit 7 slot))
      | LEN_h \<Rightarrow> Some (u64 (signed_take_bit 15 slot))
      | LEN_L \<Rightarrow> None
      | _ \<Rightarrow> Some (u64 slot))
      else (case len of
        LEN_DEFAULT \<Rightarrow> Some (u32 slot)
      | LEN_hh \<Rightarrow> Some (take_bit 8 slot)
      | LEN_h \<Rightarrow> Some (take_bit 16 slot)
      | LEN_L \<Rightarrow> None
      | _ \<Rightarrow> Some (u64 slot)))"

definition pf_base :: "byte \<Rightarrow> int \<times> byte list" where
  "pf_base spec =
     (if spec = bc CHR ''x'' then (16, lit ''0123456789abcdef'')
      else if spec = bc CHR ''X'' then (16, lit ''0123456789ABCDEF'')
      else if spec = bc CHR ''o'' then (8, lit ''012345678'')
      else (10, lit ''0123456789''))"

definition pf_int_out ::
  "'p callback \<Rightarrow> pf_flags \<Rightarrow> int \<Rightarrow> bool \<Rightarrow> byte \<Rightarrow> bool \<Rightarrow> byte list \<Rightarrow> 'p pstep" where
  "pf_int_out callback f width isnegative spec force number =
     (let len = int (length number);
          hex = (force \<and> (spec = bc CHR ''x'' \<or> spec = bc CHR ''X''));
          oct = (force \<and> spec = bc CHR ''o'');
          additionalslen =
            (if flag_always_prepend_sign f \<or> flag_always_prepend_space_plussign f \<or> isnegative
             then 1 else 0) + (if hex then 2 else 0) + (if oct then 1 else 0);
          width = (if width < len + additionalslen then len + additionalslen else width);
          left = flag_left_justify f; zeroes = flag_left_pad_zeroes f
      in pf_seq
        [whenever (\<not> left \<and> \<not> zeroes) (pad callback CHR '' '' (width - len - additionalslen)),
         emit_nonempty callback (sign_of isnegative f),
         whenever (\<not> left \<and> zeroes) (pad callback CHR ''0'' (width - len - additionalslen)),
         whenever hex (pf_seq [emit callback (lit ''0''),
           emit callback (if spec = bc CHR ''x'' then lit ''x'' else lit ''X'')]),
         whenever oct (emit callback (lit ''0'')),
         emit callback number,
         whenever left (pad callback CHR '' '' (width - len - additionalslen))])"

text \<open>Pointers are printed as \<open>#x\<close>.\<close>

definition pf_print_int ::
  "'p callback \<Rightarrow> pf_flags \<Rightarrow> int \<Rightarrow> byte \<Rightarrow> bool \<Rightarrow> int \<Rightarrow> 'p pstep" where
  "pf_print_int callback f width spec issigned value =
     (let isnegative = (issigned \<and> s64 value < 0);
          (spec, force) = (if spec = bc CHR ''p'' then (bc CHR ''x'', True)
                           else (spec, flag_force_0x_or_dec f));
          (base, digits) = pf_base spec
      in pf_int_out callback f width isnegative spec force
           (integer_to_string (if isnegative then u64 (- s64 value) else value) base digits))"

subsection \<open>f, F, e, E, g, G, a, A\<close>

text \<open>The sizes are \<open>size_t\<close>s, so the computations with them are unsigned.\<close>

definition pf_float_out ::
  "'p callback \<Rightarrow> pf_flags \<Rightarrow> int \<Rightarrow> int \<Rightarrow> bool \<Rightarrow> int \<Rightarrow> int \<Rightarrow> 'p pstep" where
  "pf_float_out callback f width precision isnegative value_integer value_fractional =
     (let number_buffer = integer_to_string value_integer 10 (lit ''0123456789'');
          precision_buffer = integer_to_string value_fractional 10 (lit ''0123456789'');
          len_int = int (length number_buffer);
          len_fract = (if int (length precision_buffer) > u64 precision then u64 precision
                       else int (length precision_buffer));
          additionalslen =
            (if flag_always_prepend_sign f \<or> flag_always_prepend_space_plussign f \<or> isnegative
             then 1 else 0) +
            (if flag_force_0x_or_dec f \<or> (\<exists>c \<in> set (take (nat len_fract) precision_buffer). c \<noteq> bc CHR ''0'')
             then 1 else 0);
          need = u64 (len_int + additionalslen + precision);
          width = (if u64 width < need then s32 need else width);
          fill = u64 (width - len_int - additionalslen - precision);
          left = flag_left_justify f; zeroes = flag_left_pad_zeroes f
      in pf_seq
        [whenever (\<not> left \<and> \<not> zeroes) (pad callback CHR '' '' fill),
         emit_nonempty callback (sign_of isnegative f),
         whenever (\<not> left \<and> \<not> zeroes) (pad callback CHR ''0'' fill),
         emit callback number_buffer,
         whenever (flag_force_0x_or_dec f \<or> value_fractional \<noteq> 0)
           (pf_seq [emit callback (lit ''.''),
              emit callback (take (nat len_fract) precision_buffer),
              pad callback CHR ''0'' (if len_fract = 0 then 1 else u64 (precision - len_fract))]),
         whenever left (pad callback CHR '' '' fill)])"

definition pf_print_float ::
  "'p callback \<Rightarrow> pf_flags \<Rightarrow> int \<Rightarrow> int \<Rightarrow> fl \<Rightarrow> 'p pstep" where
  "pf_print_float callback f width precision value st =
     (let isnegative = mant value < 0;
          value = (if isnegative then Fl (- mant value) (expo value) else value)
      in if fl_trunc value > LONG_MAX then None
      else do {
        value_fractional_d \<leftarrow> fl_scale (fl_round (fl_frac value));
        pf_float_out callback f width precision isnegative (fl_trunc value)
          (u64 (fl_trunc value_fractional_d)) st
      })"

subsection \<open>c, s, n\<close>

definition pf_print_char :: "'p callback \<Rightarrow> pf_flags \<Rightarrow> int \<Rightarrow> byte \<Rightarrow> 'p pstep" where
  "pf_print_char callback f width value = pf_seq
     [whenever (\<not> flag_left_justify f) (pad callback CHR '' '' (width - 1)),
      emit callback [value],
      whenever (flag_left_justify f) (pad callback CHR '' '' (width - 1))]"

text \<open>
  The string is read when it is written; its length is measured first.  The padding is computed
  with \<open>size_t\<close>, on the left with the whole length and on the right with the limited one.
\<close>

definition pf_string_out ::
  "'p callback \<Rightarrow> pf_flags \<Rightarrow> int \<Rightarrow> int \<Rightarrow> bool \<Rightarrow> addr \<Rightarrow> nat \<Rightarrow> 'p pstep" where
  "pf_string_out callback f width precision explicit value len =
     (let width = (if u64 width < int len then s32 (int len) else width);
          lim = (if explicit \<and> int len > u64 precision then nat (u64 precision) else len)
      in pf_seq
        [whenever (\<not> flag_left_justify f) (pad callback CHR '' '' (u64 (width - int len))),
         (\<lambda>st. do { buf \<leftarrow> rd_n (pmem st) value lim; emit callback buf st }),
         whenever (explicit \<and> int lim < u64 precision) (pad callback CHR '' '' (u64 (precision - int lim))),
         whenever (flag_left_justify f) (pad callback CHR '' '' (u64 (width - int lim)))])"

definition pf_print_string ::
  "'p callback \<Rightarrow> pf_flags \<Rightarrow> int \<Rightarrow> int \<Rightarrow> bool \<Rightarrow> addr \<Rightarrow> 'p pstep" where
  "pf_print_string callback f width precision explicit value st = do {
     len \<leftarrow> strlen (pmem st) value;
     pf_string_out callback f width precision explicit value len st
   }"

text \<open>The bytes of an \<open>int\<close> in memory, least significant first.\<close>

definition int_bytes :: "int \<Rightarrow> byte list" where
  "int_bytes x = map (\<lambda>i. to_byte (drop_bit (8 * i) x)) [0, 1, 2, 3]"

definition pf_store_written :: "addr \<Rightarrow> 'p pstep" where
  "pf_store_written p st = do {
     m \<leftarrow> wr_n (pmem st) p (int_bytes (written st));
     Some (Inr (st\<lparr>pmem := m\<rparr>))
   }"

subsection \<open>One directive\<close>

text \<open>A number given by \<open>*\<close> is the next argument, an \<open>int\<close>.\<close>

definition pf_star :: "int option \<Rightarrow> va_list \<Rightarrow> (int \<times> va_list) option" where
  "pf_star n args = (case n of
     Some x \<Rightarrow> Some (x, args)
   | None \<Rightarrow> do { (x, args) \<leftarrow> va_word args; Some (s32 x, args) })"

definition int_spec :: "byte \<Rightarrow> bool" where
  "int_spec c = (c \<in> set (lit ''uoxXdip''))"

definition float_spec :: "byte \<Rightarrow> bool" where
  "float_spec c = (c \<in> set (lit ''fFeEgGaA''))"

text \<open>The \<open>switch\<close> over the specifier: the step it makes and the arguments that are left.\<close>

definition pf_switch ::
  "'p callback \<Rightarrow> directive \<Rightarrow> int \<Rightarrow> int \<Rightarrow> va_list \<Rightarrow> ('p pstep \<times> va_list) option" where
  "pf_switch callback d width precision args =
     (let f = d_flags d; c = d_spec d; len = d_length d in
      if int_spec c then
        (let issigned = (c = bc CHR ''d'' \<or> c = bc CHR ''i'') in
         if len = LEN_L then Some (fail EINVAL, args)
         else do {
           (slot, args) \<leftarrow> va_word args;
           value \<leftarrow> pf_int_value issigned len slot;
           Some (pf_print_int callback f width c issigned value, args)
         })
      else if float_spec c then
        (if len = LEN_DEFAULT \<or> len = LEN_L then do {
           (x, args) \<leftarrow> va_float args;
           Some (pf_print_float callback f width precision x, args)
         } else Some (fail EINVAL, args))
      else if c = bc CHR ''c'' then
        (if len = LEN_DEFAULT \<or> len = LEN_l then do {
           (slot, args) \<leftarrow> va_word args;
           Some (pf_print_char callback f width (to_byte slot), args)
         } else Some (fail EINVAL, args))
      else if c = bc CHR ''s'' then
        (if len = LEN_DEFAULT \<or> len = LEN_l then do {
           (slot, args) \<leftarrow> va_word args;
           Some (pf_print_string callback f width precision (d_explicit d) (nat (u64 slot)), args)
         } else Some (fail EINVAL, args))
      else if c = bc CHR ''n'' then do {
        (slot, args) \<leftarrow> va_word args;
        Some (pf_store_written (nat (u64 slot)), args)
      }
      else Some (fail EINVAL, args))"

definition pf_directive ::
  "'p callback \<Rightarrow> directive \<Rightarrow> va_list \<Rightarrow> ('p pstep \<times> va_list) option" where
  "pf_directive callback d args = do {
     (width, args) \<leftarrow> pf_star (d_width d) args;
     (precision, args) \<leftarrow> pf_star (d_precision d) args;
     pf_switch callback d width precision args
   }"

section \<open>vcbprintf\<close>

lemma pf_step_length: "pf_step s = Some s' \<Longrightarrow> length s' < length s"
  by (induction s rule: pf_step.induct) auto

lemma get_number_length: "length (snd (get_number s n)) \<le> length s"
  by (induction s n rule: get_number.induct) (auto simp: le_SucI)

lemma pf_flags_length: "pf_flags_loop s f = Some (f', s') \<Longrightarrow> length s' \<le> length s"
  by (induction s f rule: pf_flags_loop.induct) (auto split: option.splits if_splits)

lemma pf_number_length: "pf_number s n = Some (x, s') \<Longrightarrow> length s' \<le> length s"
  using get_number_length[of s 0]
  by (auto simp: pf_number_def split: if_splits prod.splits bind_splits dest: pf_step_length)

lemma pf_parse_length_length: "pf_parse_length s = Some (l, s') \<Longrightarrow> length s' \<le> length s"
  by (auto simp: pf_parse_length_def split: if_splits bind_splits dest!: pf_step_length)

lemma pf_parse_shrinks: "pf_parse s = Some (d, s') \<Longrightarrow> length s' \<le> length s"
  by (auto simp: pf_parse_def split: if_splits bind_splits prod.splits
      dest!: pf_step_length pf_flags_length pf_number_length pf_parse_length_length)

text \<open>
  One round of the loop over the format: the result (\<open>Inl\<close>), or what is left of the format and of the
  arguments.  A \<open>STEP\<close> inside a directive returns the count so far; the one at the end of a round does
  the same as the loop's own test.
\<close>

type_synonym 'p pround = "(int \<times> 'p pstate) + (byte list \<times> va_list \<times> 'p pstate)"

definition go_on :: "byte list \<Rightarrow> va_list \<Rightarrow> ('p pstate + 'p pstate) option \<Rightarrow> 'p pround option" where
  "go_on s args r = (case r of
     None \<Rightarrow> None
   | Some (Inl st) \<Rightarrow> Some (Inl (- 1, st))
   | Some (Inr st) \<Rightarrow> Some (Inr (s, args, st)))"

definition pf_round :: "'p callback \<Rightarrow> byte list \<Rightarrow> va_list \<Rightarrow> 'p pstate \<Rightarrow> 'p pround option" where
  "pf_round callback s args st =
     (case s of
        [] \<Rightarrow> Some (Inl (written st, st))
      | c # rest \<Rightarrow>
        if c = bc CHR ''%'' then
          (case pf_step s of
             None \<Rightarrow> Some (Inl (written st, st))
           | Some s1 \<Rightarrow>
             if cur s1 = bc CHR ''%'' then go_on (tl s1) args (emit callback [cur s1] st)
             else (case pf_parse s1 of
                 None \<Rightarrow> Some (Inl (written st, st))
               | Some (d, s2) \<Rightarrow> (case pf_directive callback d args of
                   None \<Rightarrow> None
                 | Some (f, args) \<Rightarrow> go_on (tl s2) args (f st))))
        else go_on rest args (emit callback [c] st))"

lemma go_on_Inr: "go_on s args r = Some (Inr (s', args', st)) \<longleftrightarrow> s' = s \<and> args' = args \<and> r = Some (Inr st)"
  by (auto simp: go_on_def split: option.splits sum.splits)

lemma pf_round_shrinks: "pf_round cb s args st = Some (Inr (s', args', st')) \<Longrightarrow> length s' < length s"
  by (auto simp: pf_round_def go_on_Inr split: list.splits if_splits option.splits
      dest!: pf_step_length pf_parse_shrinks)

function vcbprintf :: "'p callback \<Rightarrow> byte list \<Rightarrow> va_list \<Rightarrow> 'p pstate \<Rightarrow> (int \<times> 'p pstate) option" where
  "vcbprintf callback s args st =
     (case pf_round callback s args st of
        None \<Rightarrow> None
      | Some (Inl r) \<Rightarrow> Some r
      | Some (Inr (s, args, st)) \<Rightarrow> vcbprintf callback s args st)"
  by pat_completeness auto
termination
  by (relation "measure (\<lambda>(c, s, args, st). length s)") (auto dest: pf_round_shrinks)

text \<open>The bytes of a NUL-terminated string.\<close>

partial_function (option) cstr :: "mem \<Rightarrow> addr \<Rightarrow> byte list option" where
  "cstr m p = do { c \<leftarrow> m p; if c = 0 then Some [] else do { s \<leftarrow> cstr m (p + 1); Some (c # s) } }"

declare cstr.simps [code]

text \<open>A format in memory: every round sees what the rounds before it have written.\<close>

partial_function (option) vcbprintf_at :: "'p callback \<Rightarrow> addr \<Rightarrow> va_list \<Rightarrow> 'p pstate \<Rightarrow> (int \<times> 'p pstate) option" where
  "vcbprintf_at callback s args st = do {
     fmt \<leftarrow> cstr (pmem st) s;
     r \<leftarrow> pf_round callback fmt args st;
     (case r of
        Inl r \<Rightarrow> Some r
      | Inr (rest, args, st) \<Rightarrow> vcbprintf_at callback (s + (length fmt - length rest)) args st)
   }"

declare vcbprintf_at.simps [code]

declare its_count.simps [simp del] vcbprintf.simps [simp del] fl_scale.simps [code]

text \<open>The cases of one round of the loop.\<close>

lemma vcb_nil: "vcbprintf cb [] args st = Some (written st, st)"
  by (subst vcbprintf.simps) (simp add: pf_round_def)

lemma vcb_plain:
  "c \<noteq> bc CHR ''%'' \<Longrightarrow> vcbprintf cb (c # rest) args st = (case emit cb [c] st of
     None \<Rightarrow> None | Some (Inl st) \<Rightarrow> Some (- 1, st) | Some (Inr st) \<Rightarrow> vcbprintf cb rest args st)"
  by (subst vcbprintf.simps) (simp add: pf_round_def go_on_def split: option.split sum.split)

lemma vcb_directive:
  "pf_step s = Some s1 \<Longrightarrow> s = bc CHR ''%'' # rest \<Longrightarrow> cur s1 \<noteq> bc CHR ''%'' \<Longrightarrow>
   pf_parse s1 = Some (d, s2) \<Longrightarrow>
   vcbprintf cb s args st = (case pf_directive cb d args of None \<Rightarrow> None
     | Some (f, args) \<Rightarrow> (case f st of
         None \<Rightarrow> None | Some (Inl st) \<Rightarrow> Some (- 1, st) | Some (Inr st) \<Rightarrow> vcbprintf cb (tl s2) args st))"
  by (subst vcbprintf.simps) (simp add: pf_round_def go_on_def split: option.split sum.split)

section \<open>Printing to memory\<close>

record vsn_data =
  vsn_out :: addr
  vsn_maximum :: nat
  vsn_written :: nat
  vsn_produced :: nat

definition vsn_callback :: "vsn_data callback" where
  "vsn_callback data str m =
     (let len = length str in do {
        (data, m) \<leftarrow>
          (if vsn_produced data < vsn_maximum data then
             (let space = vsn_maximum data - vsn_produced data;
                  writable = (if len < space then len else space)
              in do {
                m \<leftarrow> wr_n m (vsn_out data + vsn_produced data) (take writable str);
                Some (data\<lparr>vsn_written := vsn_written data + writable\<rparr>, m)
              })
           else Some (data, m));
        Some (int len, data\<lparr>vsn_produced := vsn_produced data + len\<rparr>, m)
      })"

text \<open>
  The result, \<open>errno\<close> and the memory; \<open>run\<close> is the call of \<open>vcbprintf\<close>, for a literal format or one in
  memory.
\<close>

definition vsn_run ::
  "(vsn_data pstate \<Rightarrow> (int \<times> vsn_data pstate) option) \<Rightarrow> mem \<Rightarrow> int \<Rightarrow> addr \<Rightarrow> nat \<Rightarrow> (int \<times> int \<times> mem) option" where
  "vsn_run run m errno s n =
     (let info = \<lparr>vsn_out = s, vsn_maximum = (if n > 0 then n - 1 else 0), vsn_written = 0,
                  vsn_produced = 0\<rparr>
      in do {
        (result, st) \<leftarrow> run \<lparr>written = 0, perrno = errno, param = info, pmem = m\<rparr>;
        m \<leftarrow> (if n > 0 then wr (pmem st) (vsn_out (param st) + vsn_written (param st)) 0 else Some (pmem st));
        Some (result, perrno st, m)
      })"

definition vsnprintf_lit ::
  "mem \<Rightarrow> int \<Rightarrow> addr \<Rightarrow> nat \<Rightarrow> byte list \<Rightarrow> va_list \<Rightarrow> (int \<times> int \<times> mem) option" where
  "vsnprintf_lit m errno s n fmt arg = vsn_run (vcbprintf vsn_callback fmt arg) m errno s n"

definition vsnprintf ::
  "mem \<Rightarrow> int \<Rightarrow> addr \<Rightarrow> nat \<Rightarrow> addr \<Rightarrow> va_list \<Rightarrow> (int \<times> int \<times> mem) option" where
  "vsnprintf m errno s n format arg = vsn_run (vcbprintf_at vsn_callback format arg) m errno s n"

definition vsprintf :: "mem \<Rightarrow> int \<Rightarrow> addr \<Rightarrow> addr \<Rightarrow> va_list \<Rightarrow> (int \<times> int \<times> mem) option" where
  "vsprintf m errno s format arg = vsnprintf m errno s SIZE_MAX format arg"

text \<open>The variadic functions pass their arguments on as a list.\<close>

definition snprintf ::
  "mem \<Rightarrow> int \<Rightarrow> addr \<Rightarrow> nat \<Rightarrow> addr \<Rightarrow> va_list \<Rightarrow> (int \<times> int \<times> mem) option" where
  "snprintf m errno s n format va = vsnprintf m errno s n format va"

definition sprintf :: "mem \<Rightarrow> int \<Rightarrow> addr \<Rightarrow> addr \<Rightarrow> va_list \<Rightarrow> (int \<times> int \<times> mem) option" where
  "sprintf m errno s format va = vsprintf m errno s format va"

definition cbprintf :: "'p callback \<Rightarrow> addr \<Rightarrow> va_list \<Rightarrow> 'p pstate \<Rightarrow> (int \<times> 'p pstate) option" where
  "cbprintf callback fmt va st = vcbprintf_at callback fmt va st"

text \<open>
  \<open>malloc\<close> and \<open>free\<close> are parameters.  The result is the return value, the pointer stored
  through \<open>strp\<close> (\<open>None\<close> when nothing is stored), \<open>errno\<close> and the memory.
\<close>

type_synonym deallocator = "addr \<Rightarrow> mem \<Rightarrow> mem"

definition vasprintf ::
  "allocator \<Rightarrow> deallocator \<Rightarrow> mem \<Rightarrow> int \<Rightarrow> bool \<Rightarrow> addr \<Rightarrow> va_list \<Rightarrow>
   (int \<times> addr option \<times> int \<times> mem) option" where
  "vasprintf malloc free m errno strp_ok format arg =
     (if \<not> strp_ok \<or> format = NULL then Some (- 1, None, EINVAL, m)
      else do {
        (needed, errno, m) \<leftarrow> vsnprintf m errno NULL 0 format arg;
        if needed < 0 then Some (- 1, Some NULL, errno, m)
        else let (buf, m) = malloc (nat needed + 1) m in
          if buf = NULL then Some (- 1, Some NULL, ENOMEM, m)
          else do {
            (written, errno, m) \<leftarrow> vsnprintf m errno buf (nat needed + 1) format arg;
            if written < 0 then Some (- 1, Some NULL, errno, free buf m)
            else Some (written, Some buf, errno, m)
          }
      })"

definition asprintf ::
  "allocator \<Rightarrow> deallocator \<Rightarrow> mem \<Rightarrow> int \<Rightarrow> bool \<Rightarrow> addr \<Rightarrow> va_list \<Rightarrow>
   (int \<times> addr option \<times> int \<times> mem) option" where
  "asprintf malloc free m errno strp_ok format ap = vasprintf malloc free m errno strp_ok format ap"

text \<open>
  \<open>kvlog\<close> formats into a buffer it doubles until the message fits, and hands it to the kernel
  (\<open>g_log\<close>): the messages logged are the last component of the result.
\<close>

partial_function (option) kvlog_loop ::
  "allocator \<Rightarrow> deallocator \<Rightarrow> mem \<Rightarrow> int \<Rightarrow> addr \<Rightarrow> int \<Rightarrow> addr \<Rightarrow> va_list \<Rightarrow>
   (mem \<times> int \<times> byte list list) option" where
  "kvlog_loop malloc free m errno buf bufLen message lc =
     (let (buf, m) = malloc (nat bufLen) (free buf m) in
      if buf = NULL then
        Some (m, errno, [lit ''failed to allocate buffer for kernel logging''])
      else do {
        (printed, errno, m) \<leftarrow> vsnprintf m errno buf (nat bufLen) message lc;
        if printed \<ge> 0 \<and> u32 printed < bufLen then do {
          text \<leftarrow> cstr m buf;
          Some (free buf m, errno, [text])
        } else kvlog_loop malloc free m errno buf (u32 (bufLen * 2)) message lc
      })"

definition kvlog ::
  "allocator \<Rightarrow> deallocator \<Rightarrow> mem \<Rightarrow> int \<Rightarrow> addr \<Rightarrow> va_list \<Rightarrow> (mem \<times> int \<times> byte list list) option" where
  "kvlog malloc free m errno message l = do {
     messageLen \<leftarrow> strlen m message;
     kvlog_loop malloc free m errno NULL (u32 (u32 (int messageLen) * 2)) message l
   }"

definition klog ::
  "allocator \<Rightarrow> deallocator \<Rightarrow> mem \<Rightarrow> int \<Rightarrow> addr \<Rightarrow> va_list \<Rightarrow> (mem \<times> int \<times> byte list list) option" where
  "klog malloc free m errno message l = kvlog malloc free m errno message l"

section \<open>Reading a part of the memory\<close>

lemma strlen_loop_mono:
  assumes "strlen_loop m s len = Some n"
  shows "(\<forall>a b. m a = Some b \<longrightarrow> m' a = Some b) \<longrightarrow> strlen_loop m' s len = Some n"
  using assms
proof (induction rule: strlen_loop.raw_induct[rotated, consumes 1, case_names step])
  case (step f m s len n)
  show ?case
  proof
    assume le: "\<forall>a b. m a = Some b \<longrightarrow> m' a = Some b"
    from step(2) obtain c where c: "m (s + len) = Some c"
      "(if c \<noteq> 0 then f m s (len + 1) else Some len) = Some n" by (auto split: bind_splits)
    with le step(1)[of m s "len + 1" n] show "strlen_loop m' s len = Some n"
      by (subst strlen_loop.simps) (auto split: if_splits)
  qed
qed

lemma strlen_mono:
  "strlen m s = Some n \<Longrightarrow> (\<forall>a b. m a = Some b \<longrightarrow> m' a = Some b) \<Longrightarrow> strlen m' s = Some n"
  using strlen_loop_mono[of m s 0 n m'] by (auto simp: strlen_def split: if_splits)

lemma cstr_mono:
  assumes "cstr m p = Some xs"
  shows "(\<forall>a b. m a = Some b \<longrightarrow> m' a = Some b) \<longrightarrow> cstr m' p = Some xs"
  using assms
proof (induction rule: cstr.raw_induct[rotated, consumes 1, case_names step])
  case (step f m p xs)
  show ?case
  proof
    assume le: "\<forall>a b. m a = Some b \<longrightarrow> m' a = Some b"
    obtain c where c: "m p = Some c" using step(2) by (cases "m p") auto
    with step(2) have "(if c = 0 then Some [] else do { s \<leftarrow> f m (Suc p); Some (c # s) }) = Some xs" by (simp split del: if_split)
    with c le step(1) show "cstr m' p = Some xs"
      by (subst cstr.simps) (auto split: if_splits bind_splits)
  qed
qed

lemma rd_n_mono:
  "rd_n m p n = Some bs \<Longrightarrow> (\<forall>a b. m a = Some b \<longrightarrow> m' a = Some b) \<Longrightarrow> rd_n m' p n = Some bs"
  by (induction n arbitrary: p bs) (auto split: bind_splits)

lemma wr_n_restrict:
  "wr_n (m |` A) p bs = Some m0 \<Longrightarrow>
   \<exists>m'. wr_n m p bs = Some m' \<and> m' |` A = m0 \<and> (\<forall>a. a \<notin> A \<longrightarrow> m' a = m a)"
proof (induction bs arbitrary: m p)
  case Nil
  then show ?case by auto
next
  case (Cons b bs)
  then have p: "p \<in> A" "p \<in> dom m" and w: "wr_n ((m |` A)(p \<mapsto> b)) (Suc p) bs = Some m0"
    by (auto simp: wr_eq_Some split: bind_splits)
  then have "wr_n (m(p \<mapsto> b) |` A) (Suc p) bs = Some m0" by simp
  from Cons.IH[OF this] p show ?case by (force simp: wr_def)
qed

section \<open>Comparing two runs\<close>

text \<open>
  Two runs of \<open>vcbprintf\<close> with the same format and arguments and two callbacks, over states a
  relation \<open>S\<close> connects: what the relation has to keep for the runs to agree.
\<close>

locale pf_runs =
  fixes cb :: "'p callback" and cb0 :: "'q callback" and S :: "'p pstate \<Rightarrow> 'q pstate \<Rightarrow> bool"
  assumes emits: "S st st0 \<Longrightarrow> emit cb0 bs st0 = Some r0 \<Longrightarrow>
      \<exists>r. emit cb bs st = Some r \<and> rel_sum S S r r0"
    and stores: "S st st0 \<Longrightarrow> pf_store_written p st0 = Some r0 \<Longrightarrow>
      \<exists>r. pf_store_written p st = Some r \<and> rel_sum S S r r0"
    and errno: "S st st0 \<Longrightarrow> S (st\<lparr>perrno := e\<rparr>) (st0\<lparr>perrno := e\<rparr>)"
    and reads: "S st st0 \<Longrightarrow> \<forall>a b. pmem st0 a = Some b \<longrightarrow> pmem st a = Some b"
    and counts: "S st st0 \<Longrightarrow> written st = written st0"
begin

definition sim_step :: "'p pstep \<Rightarrow> 'q pstep \<Rightarrow> bool" where
  "sim_step f f0 \<longleftrightarrow> (\<forall>st st0 r0. S st st0 \<longrightarrow> f0 st0 = Some r0 \<longrightarrow>
     (\<exists>r. f st = Some r \<and> rel_sum S S r r0))"

lemma sim_stepI:
  "(\<And>st st0 r0. S st st0 \<Longrightarrow> f0 st0 = Some r0 \<Longrightarrow> \<exists>r. f st = Some r \<and> rel_sum S S r r0) \<Longrightarrow>
   sim_step f f0"
  by (simp add: sim_step_def)

lemma sim_stepD:
  "sim_step f f0 \<Longrightarrow> S st st0 \<Longrightarrow> f0 st0 = Some r0 \<Longrightarrow> \<exists>r. f st = Some r \<and> rel_sum S S r r0"
  by (simp add: sim_step_def)

lemma sim_emit: "sim_step (emit cb bs) (emit cb0 bs)"
  by (rule sim_stepI) (rule emits)

lemma sim_store_written: "sim_step (pf_store_written p) (pf_store_written p)"
  by (rule sim_stepI) (rule stores)

lemma sim_seq: "list_all2 sim_step fs gs \<Longrightarrow> sim_step (pf_seq fs) (pf_seq gs)"
proof (induction fs gs rule: list_all2_induct)
  case Nil
  show ?case by (rule sim_stepI) auto
next
  case (Cons f fs g gs)
  show ?case
  proof (rule sim_stepI)
    fix st st0 r0 assume s: "S st st0" and r: "pf_seq (g # gs) st0 = Some r0"
    then obtain r1 where r1: "g st0 = Some r1" by (auto split: option.splits)
    obtain r2 where r2: "f st = Some r2" "rel_sum S S r2 r1"
      using sim_stepD[OF Cons(1) s r1] by blast
    show "\<exists>r. pf_seq (f # fs) st = Some r \<and> rel_sum S S r r0"
    proof (cases r1)
      case (Inl st1)
      with r2 r r1 show ?thesis by (cases r2) auto
    next
      case (Inr st1)
      with r2 obtain st2 where "r2 = Inr st2" "S st2 st1" by (cases r2) auto
      with sim_stepD[OF Cons(3)] Inr r2(1) r r1 show ?thesis by auto
    qed
  qed
qed

lemma sim_whenever: "sim_step f g \<Longrightarrow> sim_step (whenever b f) (whenever b g)"
  using sim_seq[of "[]" "[]"] by (simp add: whenever_def)

lemma sim_pad: "sim_step (pad cb c n) (pad cb0 c n)"
  unfolding pad_def by (rule sim_seq) (simp add: list_all2_conv_all_nth sim_emit)

lemma sim_emit_nonempty: "sim_step (emit_nonempty cb bs) (emit_nonempty cb0 bs)"
  unfolding emit_nonempty_def by (intro sim_whenever sim_emit)

lemma sim_fail: "sim_step (fail e) (fail e)"
  by (rule sim_stepI) (auto simp: fail_def errno)

lemmas sim_steps = sim_emit sim_seq sim_whenever sim_pad sim_emit_nonempty sim_fail

lemma sim_int_out: "sim_step (pf_int_out cb f w n c g v) (pf_int_out cb0 f w n c g v)"
  unfolding pf_int_out_def Let_def by (intro sim_seq) (simp add: sim_steps)

lemma sim_print_int: "sim_step (pf_print_int cb f w c i v) (pf_print_int cb0 f w c i v)"
  unfolding pf_print_int_def Let_def case_prod_beta by (rule sim_int_out)

lemma sim_print_char: "sim_step (pf_print_char cb f w v) (pf_print_char cb0 f w v)"
  unfolding pf_print_char_def by (rule sim_seq) (simp add: sim_steps)

lemma sim_float_out: "sim_step (pf_float_out cb f w p n i v) (pf_float_out cb0 f w p n i v)"
  unfolding pf_float_out_def Let_def by (intro sim_seq) (simp add: sim_steps)

lemma sim_print_float: "sim_step (pf_print_float cb f w p v) (pf_print_float cb0 f w p v)"
  by (rule sim_stepI)
    (auto simp: pf_print_float_def Let_def split: if_splits bind_splits intro!: sim_stepD[OF sim_float_out])

lemma sim_read: "sim_step (\<lambda>st. do { buf \<leftarrow> rd_n (pmem st) v n; emit cb buf st })
    (\<lambda>st. do { buf \<leftarrow> rd_n (pmem st) v n; emit cb0 buf st })"
proof (rule sim_stepI)
  fix st st0 r0 assume s: "S st st0"
    and r: "do { buf \<leftarrow> rd_n (pmem st0) v n; emit cb0 buf st0 } = Some r0"
  then obtain bs where bs: "rd_n (pmem st0) v n = Some bs" "emit cb0 bs st0 = Some r0"
    by (auto split: bind_splits)
  have "rd_n (pmem st) v n = Some bs" using rd_n_mono[OF bs(1)] reads[OF s] by blast
  then show "\<exists>r. do { buf \<leftarrow> rd_n (pmem st) v n; emit cb buf st } = Some r \<and> rel_sum S S r r0"
    using emits[OF s bs(2)] by simp
qed

lemma sim_print_string: "sim_step (pf_print_string cb f w p e v) (pf_print_string cb0 f w p e v)"
proof (rule sim_stepI)
  fix st st0 r0 assume s: "S st st0" and r: "pf_print_string cb0 f w p e v st0 = Some r0"
  then obtain len where len: "strlen (pmem st0) v = Some len"
    by (auto simp: pf_print_string_def split: bind_splits)
  have len': "strlen (pmem st) v = Some len" using strlen_mono[OF len] reads[OF s] by blast
  have "sim_step (pf_string_out cb f w p e v len) (pf_string_out cb0 f w p e v len)"
    unfolding pf_string_out_def Let_def by (intro sim_seq) (simp add: sim_steps sim_read)
  from sim_stepD[OF this s] r len len'
  show "\<exists>r. pf_print_string cb f w p e v st = Some r \<and> rel_sum S S r r0"
    by (simp add: pf_print_string_def)
qed

lemmas sim_prints = sim_print_int sim_print_float sim_print_char sim_print_string sim_store_written sim_fail

lemma sim_switch:
  assumes "pf_switch cb0 d w p args = Some (g, args')"
  shows "\<exists>f. pf_switch cb d w p args = Some (f, args') \<and> sim_step f g"
proof -
  have word: ?thesis if "pf_switch cb0 d w p args = do { (x, as) \<leftarrow> va_word args; G x as }"
    "pf_switch cb d w p args = do { (x, as) \<leftarrow> va_word args; F x as }"
    "\<And>x as. G x as = Some (g, args') \<Longrightarrow> \<exists>f. F x as = Some (f, args') \<and> sim_step f g" for F G
    using assms that by (auto split: bind_splits)
  have err: ?thesis if "pf_switch cb0 d w p args = Some (fail EINVAL, args)"
    "pf_switch cb d w p args = Some (fail EINVAL, args)"
    using assms that sim_fail by auto
  note defs = pf_switch_def Let_def
  consider "int_spec (d_spec d)" | "\<not> int_spec (d_spec d)" "float_spec (d_spec d)"
    | "\<not> int_spec (d_spec d)" "\<not> float_spec (d_spec d)" by blast
  then show ?thesis
  proof cases
    case 1
    show ?thesis
    proof (cases "d_length d = LEN_L")
      case True
      with 1 show ?thesis by (intro err) (simp_all add: defs)
    next
      case False
      with 1 show ?thesis
        by (intro word) (simp add: defs, simp add: defs, auto split: bind_splits intro: sim_print_int)
    qed
  next
    case 2
    then show ?thesis using assms sim_print_float sim_fail
      by (auto simp: defs split: if_splits bind_splits)
  next
    case 3
    then show ?thesis using assms
      by (auto simp: defs split: if_splits bind_splits intro: sim_prints)
  qed
qed

lemma sim_directive:
  assumes "pf_directive cb0 d args = Some (g, args')"
  shows "\<exists>f. pf_directive cb d args = Some (f, args') \<and> sim_step f g"
  using assms sim_switch unfolding pf_directive_def by (auto split: bind_splits)

text \<open>Related states stay related through a round, and so through a whole format.\<close>

definition same_round :: "'p pround \<Rightarrow> 'q pround \<Rightarrow> bool" where
  "same_round = rel_sum (rel_prod (=) S) (rel_prod (=) (rel_prod (=) S))"

lemma sim_go_on:
  "sim_step f g \<Longrightarrow> S st st0 \<Longrightarrow> go_on s args (g st0) = Some r0 \<Longrightarrow> \<exists>r. go_on s args (f st) = Some r \<and> same_round r r0"
  by (auto simp: go_on_def same_round_def sim_step_def split: option.splits sum.splits) (fastforce elim: rel_sum.cases)+

lemma round_sim:
  assumes "pf_round cb0 s args st0 = Some r0" "S st st0"
  shows "\<exists>r. pf_round cb s args st = Some r \<and> same_round r r0"
proof -
  have stop: "same_round (Inl (written st, st)) (Inl (written st0, st0))" using assms(2) counts by (simp add: same_round_def)
  show ?thesis
  proof (cases "pf_parse (the (pf_step s))")
    case None
    then show ?thesis using assms stop sim_go_on [OF sim_emit assms(2)]
      by (auto simp: pf_round_def split: list.splits if_splits option.splits)
  next
    case (Some ds)
    obtain d s2 where d: "ds = (d, s2)" by (cases ds) simp
    show ?thesis
    proof (cases "pf_directive cb0 d args")
      case None
      then show ?thesis using assms Some d stop sim_go_on [OF sim_emit assms(2)]
        by (auto simp: pf_round_def split: list.splits if_splits option.splits)
    next
      case g: (Some x)
      obtain g args' where x: "x = (g, args')" by (cases x) simp
      from sim_directive [OF g [unfolded x]] obtain f where f: "pf_directive cb d args = Some (f, args')" "sim_step f g" by blast
      show ?thesis using assms Some d g x f(1) stop sim_go_on [OF sim_emit assms(2)] sim_go_on [OF f(2) assms(2)]
        by (auto simp: pf_round_def split: list.splits if_splits option.splits)
    qed
  qed
qed

lemma vcbprintf_sim:
  "vcbprintf cb0 s args st0 = Some (r, st0') \<Longrightarrow> S st st0 \<Longrightarrow>
   \<exists>st'. vcbprintf cb s args st = Some (r, st') \<and> S st' st0'"
proof (induction "length s" arbitrary: s args st0 st rule: less_induct)
  case less
  obtain r0 where r0: "pf_round cb0 s args st0 = Some r0"
    using less.prems(1) by (subst (asm) vcbprintf.simps) (auto split: option.splits)
  obtain r1 where r1: "pf_round cb s args st = Some r1" "same_round r1 r0" using round_sim[OF r0 less.prems(2)] by blast
  show ?case
  proof (cases r0)
    case (Inl x)
    then show ?thesis using less.prems(1) r0 r1
      by (subst (asm) vcbprintf.simps, subst vcbprintf.simps) (auto simp: same_round_def elim!: rel_sum.cases)
  next
    case (Inr x)
    then obtain s' args' a where r0': "r0 = Inr (s', args', a)" by (cases x) auto
    with r1(2) obtain b where b: "r1 = Inr (s', args', b)" "S b a" by (auto simp: same_round_def elim!: rel_sum.cases)
    have "vcbprintf cb0 s' args' a = Some (r, st0')" using less.prems(1) r0 r0' by (subst (asm) vcbprintf.simps) simp
    from less.hyps[OF _ this b(2)] pf_round_shrinks r0 r0' obtain st' where
      "vcbprintf cb s' args' b = Some (r, st')" "S st' st0'" by blast
    then show ?thesis using r1(1) b(1) by (subst vcbprintf.simps) simp
  qed
qed

lemma vcbprintf_at_sim:
  "vcbprintf_at cb0 s args st0 = Some (r, st0') \<Longrightarrow> S st st0 \<Longrightarrow>
   \<exists>st'. vcbprintf_at cb s args st = Some (r, st') \<and> S st' st0'"
proof -
  have "c = cb0 \<longrightarrow> (\<forall>st. S st st0 \<longrightarrow> (\<exists>st'. vcbprintf_at cb s args st = Some (fst y, st') \<and> S st' (snd y)))"
    if "vcbprintf_at c s args st0 = Some y" for c y
    using that
  proof (induction rule: vcbprintf_at.raw_induct[rotated, consumes 1, case_names step])
    case (step f c s args st0 y)
    show ?case
    proof (intro impI allI)
      fix st assume c: "c = cb0" and S: "S st st0"
      from step(2) obtain fmt r0 where fmt: "cstr (pmem st0) s = Some fmt" and r0: "pf_round cb0 fmt args st0 = Some r0"
        and y: "(case r0 of Inl r \<Rightarrow> Some r | Inr (rest, args, st) \<Rightarrow> f c (s + (length fmt - length rest)) args st) = Some y"
        unfolding c by (auto split: bind_splits)
      obtain r1 where r1: "pf_round cb fmt args st = Some r1" "same_round r1 r0" using round_sim[OF r0 S] by blast
      have fmt': "cstr (pmem st) s = Some fmt" using cstr_mono[OF fmt] reads[OF S] by blast
      show "\<exists>st'. vcbprintf_at cb s args st = Some (fst y, st') \<and> S st' (snd y)"
      proof (cases r0)
        case (Inl x)
        then show ?thesis using y r1 fmt'
          by (subst vcbprintf_at.simps) (auto simp: same_round_def elim!: rel_sum.cases)
      next
        case (Inr x)
        then obtain rest args' a where r0': "r0 = Inr (rest, args', a)" by (cases x) auto
        with r1(2) obtain b where b: "r1 = Inr (rest, args', b)" "S b a" by (auto simp: same_round_def elim!: rel_sum.cases)
        have "f c (s + (length fmt - length rest)) args' a = Some y" using y r0' by simp
        from step(1)[OF this] c b(2) obtain st' where
          "vcbprintf_at cb (s + (length fmt - length rest)) args' b = Some (fst y, st')" "S st' (snd y)" by blast
        then show ?thesis using r1(1) b(1) fmt' by (subst vcbprintf_at.simps) simp
      qed
    qed
  qed
  then show "vcbprintf_at cb0 s args st0 = Some (r, st0') \<Longrightarrow> S st st0 \<Longrightarrow>
   \<exists>st'. vcbprintf_at cb s args st = Some (r, st') \<and> S st' st0'" by fastforce
qed

end

section \<open>The contract of a callback\<close>

text \<open>
  A sink takes every piece of output.  \<open>R p m xs\<close> says that the callback's parameter and the
  memory stand for the output \<open>xs\<close>; the callback writes only into its own addresses, and what
  it stands for depends on no other address.
\<close>

locale sink =
  fixes cb :: "'p callback" and R :: "'p \<Rightarrow> mem \<Rightarrow> byte list \<Rightarrow> bool" and own :: "addr set"
  assumes accepts: "R p m xs \<Longrightarrow> \<exists>p' m'. cb p bs m = Some (int (length bs), p', m') \<and>
      R p' m' (xs @ bs) \<and> m' |` (- own) = m |` (- own)"
    and stable: "R p m xs \<Longrightarrow> (\<And>a. a \<in> own \<Longrightarrow> m' a = m a) \<Longrightarrow> R p m' xs"
begin

definition sim :: "'p pstate \<Rightarrow> byte list pstate \<Rightarrow> bool" where
  "sim st st0 \<longleftrightarrow> written st = written st0 \<and> perrno st = perrno st0 \<and>
     R (param st) (pmem st) (param st0) \<and> pmem st |` (- own) = pmem st0"

end

text \<open>
  The reference sink collects the output in a list.  A sink that runs beside it, with the
  reference barred from the sink's own addresses, always stands for the collected output.
\<close>

definition collect :: "byte list callback" where
  "collect xs bs m = Some (int (length bs), xs @ bs, m)"

sublocale sink \<subseteq> to_list: pf_runs cb collect sim
proof
  fix st st0 bs r0 assume s: "sim st st0" and r: "emit collect bs st0 = Some r0"
  obtain p' m' where "cb (param st) bs (pmem st) = Some (int (length bs), p', m')"
    "R p' m' (param st0 @ bs)" "m' |` (- own) = pmem st |` (- own)"
    using accepts s unfolding sim_def by blast
  with s r show "\<exists>r. emit cb bs st = Some r \<and> rel_sum sim sim r r0"
    by (auto simp: emit_def collect_def sim_def)
next
  fix st st0 p r0 assume s: "sim st st0" and r: "pf_store_written p st0 = Some r0"
  then obtain m0 where m0: "wr_n (pmem st0) p (int_bytes (written st0)) = Some m0"
    "r0 = Inr (st0\<lparr>pmem := m0\<rparr>)" by (auto simp: pf_store_written_def split: bind_splits)
  have "wr_n (pmem st |` (- own)) p (int_bytes (written st)) = Some m0" using s m0 by (simp add: sim_def)
  from wr_n_restrict[OF this] obtain m' where m': "wr_n (pmem st) p (int_bytes (written st)) = Some m'"
    "m' |` (- own) = m0" "\<forall>a \<in> own. m' a = pmem st a" by auto
  have "R (param st) m' (param st0)" using stable s m'(3) unfolding sim_def by blast
  with s m0 m' show "\<exists>r. pf_store_written p st = Some r \<and> rel_sum sim sim r r0"
    by (auto simp: pf_store_written_def sim_def)
next
  fix st st0 assume s: "sim st st0"
  then show "\<forall>a b. pmem st0 a = Some b \<longrightarrow> pmem st a = Some b"
    unfolding sim_def by (metis restrict_in restrict_out option.distinct(1))
  show "written st = written st0" using s by (simp add: sim_def)
  show "sim (st\<lparr>perrno := e\<rparr>) (st0\<lparr>perrno := e\<rparr>)" for e using s by (simp add: sim_def)
qed

text \<open>Through any sink, \<open>vcbprintf\<close> writes what it writes to the reference sink.\<close>

context sink
begin

lemma vcbprintf_to_list:
  assumes "R p m xs"
    and "vcbprintf collect s args \<lparr>written = w, perrno = e, param = xs, pmem = m |` (- own)\<rparr> = Some (r, st0)"
  shows "\<exists>st. vcbprintf cb s args \<lparr>written = w, perrno = e, param = p, pmem = m\<rparr> = Some (r, st) \<and>
    written st = written st0 \<and> perrno st = perrno st0 \<and> R (param st) (pmem st) (param st0) \<and>
    pmem st |` (- own) = pmem st0"
  using to_list.vcbprintf_sim[OF assms(2), of "\<lparr>written = w, perrno = e, param = p, pmem = m\<rparr>"] assms(1)
  by (simp add: sim_def)

text \<open>
  A format in memory has to lie outside the callback's own addresses: the run of the reference sink reads it from
  the memory without them.
\<close>

lemma vcbprintf_at_to_list:
  assumes "R p m xs"
    and "vcbprintf_at collect s args \<lparr>written = w, perrno = e, param = xs, pmem = m |` (- own)\<rparr> = Some (r, st0)"
  shows "\<exists>st. vcbprintf_at cb s args \<lparr>written = w, perrno = e, param = p, pmem = m\<rparr> = Some (r, st) \<and>
    written st = written st0 \<and> perrno st = perrno st0 \<and> R (param st) (pmem st) (param st0) \<and>
    pmem st |` (- own) = pmem st0"
  using to_list.vcbprintf_at_sim[OF assms(2), of "\<lparr>written = w, perrno = e, param = p, pmem = m\<rparr>"] assms(1)
  by (simp add: sim_def)

end

text \<open>The count of the reference sink is the length of its output.\<close>

interpretation collect_runs: pf_runs collect collect
  "\<lambda>st st0. st = st0 \<and> written st = s32 (int (length (param st)))"
proof (unfold_locales, goal_cases)
  case (1 st st0 bs r0)
  have "s32 (s32 a + b) = s32 (a + b)" for a b
    by (simp add: s32_def signed_take_bit_add[of 31 "signed_take_bit 31 a" b, symmetric]
        signed_take_bit_add[of 31 a b, symmetric])
  with 1 show ?case by (auto simp: emit_def collect_def)
next
  case (2 st st0 p r0)
  then show ?case by (cases r0) (auto simp: pf_store_written_def split: bind_splits)
qed auto

text \<open>\<open>vcbprintf\<close> returns \<open>-1\<close> or the count.\<close>

lemma round_result: "pf_round cb s args st = Some (Inl (r, st')) \<Longrightarrow> r = - 1 \<or> r = written st'"
  by (auto simp: pf_round_def go_on_def split: list.splits if_splits option.splits sum.splits)

lemma vcb_result: "vcbprintf cb s args st = Some (r, st') \<Longrightarrow> r = - 1 \<or> r = written st'"
proof (induction cb s args st rule: vcbprintf.induct)
  case (1 cb s args st)
  then show ?case by (subst (asm) (2) vcbprintf.simps) (auto dest: round_result split: option.splits sum.splits prod.splits)
qed

lemma vcb_at_result:
  assumes "vcbprintf_at cb s args st = Some y"
  shows "fst y = - 1 \<or> fst y = written (snd y)"
  using assms
proof (induction rule: vcbprintf_at.raw_induct[rotated, consumes 1, case_names step])
  case (step f cb s args st y)
  then show ?case by (auto dest: round_result split: bind_splits sum.splits prod.splits)
qed

text \<open>What a format prints: the result, the output, \<open>errno\<close> and the memory after \<open>%n\<close>s.\<close>

definition printed :: "byte list \<Rightarrow> va_list \<Rightarrow> int \<Rightarrow> mem \<Rightarrow> (int \<times> byte list \<times> int \<times> mem) option" where
  "printed fmt args e m =
     map_option (\<lambda>(r, st). (r, param st, perrno st, pmem st))
       (vcbprintf collect fmt args \<lparr>written = 0, perrno = e, param = [], pmem = m\<rparr>)"

lemma printed_count: "printed fmt args e m = Some (r, out, e', m') \<Longrightarrow> r = - 1 \<or> r = s32 (int (length out))"
proof -
  assume "printed fmt args e m = Some (r, out, e', m')"
  then obtain st where st: "vcbprintf collect fmt args \<lparr>written = 0, perrno = e, param = [], pmem = m\<rparr>
      = Some (r, st)" "param st = out" by (auto simp: printed_def)
  from collect_runs.vcbprintf_sim[OF st(1), of "\<lparr>written = 0, perrno = e, param = [], pmem = m\<rparr>"]
  have "written st = s32 (int (length (param st)))" by (simp add: s32_def)
  with vcb_result[OF st(1)] st(2) show ?thesis by auto
qed

text \<open>The same for a format in memory, which is read again in every round.\<close>

definition printed_at :: "addr \<Rightarrow> va_list \<Rightarrow> int \<Rightarrow> mem \<Rightarrow> (int \<times> byte list \<times> int \<times> mem) option" where
  "printed_at f args e m =
     map_option (\<lambda>(r, st). (r, param st, perrno st, pmem st))
       (vcbprintf_at collect f args \<lparr>written = 0, perrno = e, param = [], pmem = m\<rparr>)"

lemma printed_at_count: "printed_at f args e m = Some (r, out, e', m') \<Longrightarrow> r = - 1 \<or> r = s32 (int (length out))"
proof -
  assume "printed_at f args e m = Some (r, out, e', m')"
  then obtain st where st: "vcbprintf_at collect f args \<lparr>written = 0, perrno = e, param = [], pmem = m\<rparr>
      = Some (r, st)" "param st = out" by (auto simp: printed_at_def)
  from collect_runs.vcbprintf_at_sim[OF st(1), of "\<lparr>written = 0, perrno = e, param = [], pmem = m\<rparr>"]
  have "written st = s32 (int (length (param st)))" by (simp add: s32_def)
  with vcb_at_result[OF st(1)] st(2) show ?thesis by auto
qed

section \<open>vsnprintf is a sink\<close>

definition vsn_R :: "addr \<Rightarrow> nat \<Rightarrow> vsn_data \<Rightarrow> mem \<Rightarrow> byte list \<Rightarrow> bool" where
  "vsn_R s n p m xs \<longleftrightarrow> vsn_out p = s \<and> vsn_maximum p = n - 1 \<and> vsn_produced p = length xs \<and>
     vsn_written p = min (length xs) (n - 1) \<and> bytes_at m s (take (n - 1) xs) \<and> mapped m s n"

lemma vsn_accepts:
  assumes "vsn_R s n p m xs"
  shows "\<exists>p' m'. vsn_callback p bs m = Some (int (length bs), p', m') \<and> vsn_R s n p' m' (xs @ bs) \<and>
    m' |` (- ({s..<s + n} \<union> X)) = m |` (- ({s..<s + n} \<union> X))"
proof (cases "length xs < n - 1")
  case False
  with assms show ?thesis by (auto simp: vsn_callback_def vsn_R_def Let_def)
next
  case True
  let ?w = "min (length bs) (n - 1 - length xs)"
  let ?m = "store m (s + length xs) (take ?w bs)"
  have "mapped m (s + length xs) (n - length xs)"
    using assms True mapped_add[of m s "length xs" "n - length xs"] by (simp add: vsn_R_def)
  then have "mapped m (s + length xs) (length (take ?w bs))" using True by (auto elim: mapped_le)
  then have w: "wr_n m (s + length xs) (take ?w bs) = Some ?m" by (rule wr_n_mapped)
  have if_min: "(if length bs < k then length bs else k) = min (length bs) k" for k by auto
  have "vsn_callback p bs m = Some (int (length bs),
      p\<lparr>vsn_written := vsn_written p + ?w, vsn_produced := length xs + length bs\<rparr>, ?m)"
    using assms True w by (simp add: vsn_callback_def vsn_R_def Let_def if_min)
  moreover have "take (n - 1) (xs @ bs) = xs @ take ?w bs" using True by (auto simp: min_def)
  then have "bytes_at ?m s (take (n - 1) (xs @ bs))"
    using assms True by (simp add: vsn_R_def bytes_at_store)
  then have "vsn_R s n (p\<lparr>vsn_written := vsn_written p + ?w, vsn_produced := length xs + length bs\<rparr>) ?m (xs @ bs)"
    using assms True by (auto simp: vsn_R_def mapped_store)
  moreover have "?m |` (- ({s..<s + n} \<union> X)) = m |` (- ({s..<s + n} \<union> X))"
    using True by (intro ext) (auto simp: restrict_map_def store_apply)
  ultimately show ?thesis by blast
qed

text \<open>The callback writes into the buffer; the contract also holds with more addresses barred.\<close>

interpretation vsn: sink vsn_callback "vsn_R s n" "{s..<s + n} \<union> X" for s n X
proof
  show "\<exists>p' m'. vsn_callback p bs m = Some (int (length bs), p', m') \<and> vsn_R s n p' m' (xs @ bs) \<and>
      m' |` (- ({s..<s + n} \<union> X)) = m |` (- ({s..<s + n} \<union> X))" if "vsn_R s n p m xs" for p m xs bs
    by (rule vsn_accepts[OF that])
  show "vsn_R s n p m' xs" if R: "vsn_R s n p m xs" and m': "\<And>a. a \<in> {s..<s + n} \<union> X \<Longrightarrow> m' a = m a" for p m xs m'
  proof -
    have eq: "m' (s + i) = m (s + i)" if "i < n" for i by (rule m') (simp add: that)
    have "bytes_at m' s (take (n - 1) xs) = bytes_at m s (take (n - 1) xs)"
      by (rule bytes_at_frame) (rule eq, auto)
    moreover have "mapped m' s n \<longleftrightarrow> mapped m s n" unfolding mapped_iff using eq by simp
    ultimately show ?thesis using R unfolding vsn_R_def by blast
  qed
qed

lemma cstr_correct: "str_at m p xs \<Longrightarrow> cstr m p = Some xs"
proof (induction xs arbitrary: p)
  case Nil
  then show ?case by (subst cstr.simps) simp
next
  case (Cons x xs)
  then show ?case by (subst cstr.simps) simp
qed

text \<open>What \<open>vsnprintf\<close> does around a run that agrees with one on the reference sink.\<close>

lemma vsn_run_correct:
  assumes "mapped m s n"
    and "run0 \<lparr>written = 0, perrno = e, param = [], pmem = m |` (- ({s..<s + n} \<union> X))\<rparr> = Some (r, st0)"
    and run: "\<And>p. vsn_R s n p m [] \<Longrightarrow> \<exists>st. run \<lparr>written = 0, perrno = e, param = p, pmem = m\<rparr> = Some (r, st) \<and>
      written st = written st0 \<and> perrno st = perrno st0 \<and> vsn_R s n (param st) (pmem st) (param st0) \<and>
      pmem st |` (- ({s..<s + n} \<union> X)) = pmem st0"
  shows "\<exists>m'. vsn_run run m e s n = Some (r, perrno st0, m') \<and> m' |` (- ({s..<s + n} \<union> X)) = pmem st0 \<and>
    (n > 0 \<longrightarrow> bytes_at m' s (take (n - 1) (param st0) @ [0]))"
proof -
  let ?info = "\<lparr>vsn_out = s, vsn_maximum = (if n > 0 then n - 1 else 0), vsn_written = 0, vsn_produced = 0\<rparr>"
  have "vsn_R s n ?info m []" using assms(1) by (simp add: vsn_R_def)
  from run[OF this] obtain st where st: "run \<lparr>written = 0, perrno = e, param = ?info, pmem = m\<rparr>
      = Some (r, st)" "perrno st = perrno st0" "vsn_R s n (param st) (pmem st) (param st0)"
    "pmem st |` (- ({s..<s + n} \<union> X)) = pmem st0" by blast
  show ?thesis
  proof (cases "n > 0")
    case False
    with st show ?thesis by (simp add: vsn_run_def Let_def)
  next
    case True
    let ?w = "min (length (param st0)) (n - 1)"
    have w: "vsn_out (param st) + vsn_written (param st) = s + ?w" using st(3) by (simp add: vsn_R_def)
    obtain x where x: "pmem st (s + ?w) = Some x"
    proof -
      have "mapped (pmem st) s n" "s + ?w < s + n" using st(3) True by (auto simp: vsn_R_def)
      then show ?thesis using mapped_get[of "pmem st" s n "s + ?w"] that by auto
    qed
    have "bytes_at ((pmem st)(s + ?w \<mapsto> 0)) s (take (n - 1) (param st0) @ [0])"
      using st(3) by (simp add: vsn_R_def bytes_at_upd min.commute)
    moreover have "(pmem st)(s + ?w \<mapsto> 0) |` (- ({s..<s + n} \<union> X)) = pmem st0"
      unfolding st(4)[symmetric] using True by (intro ext) (auto simp: restrict_map_def)
    ultimately show ?thesis using st w x True by (simp add: vsn_run_def Let_def)
  qed
qed

lemma vsnprintf_lit_correct:
  assumes "mapped m s n"
    and "printed fmt args e (m |` (- ({s..<s + n} \<union> X))) = Some (r, out, e', m0)"
  shows "\<exists>m'. vsnprintf_lit m e s n fmt args = Some (r, e', m') \<and> m' |` (- ({s..<s + n} \<union> X)) = m0 \<and>
    (n > 0 \<longrightarrow> bytes_at m' s (take (n - 1) out @ [0]))"
proof -
  obtain st0 where st0: "vcbprintf collect fmt args
      \<lparr>written = 0, perrno = e, param = [], pmem = m |` (- ({s..<s + n} \<union> X))\<rparr> = Some (r, st0)"
    "out = param st0" "e' = perrno st0" "m0 = pmem st0" using assms(2) by (auto simp: printed_def)
  show ?thesis unfolding st0(2-4) vsnprintf_lit_def
    by (rule vsn_run_correct[OF assms(1), where ?run0.0 = "vcbprintf collect fmt args", OF st0(1)]) (rule vsn.vcbprintf_to_list[where X = X, OF _ st0(1)])
qed

lemma vsnprintf_correct:
  assumes "mapped m s n"
    and "printed_at f args e (m |` (- ({s..<s + n} \<union> X))) = Some (r, out, e', m0)"
  shows "\<exists>m'. vsnprintf m e s n f args = Some (r, e', m') \<and> m' |` (- ({s..<s + n} \<union> X)) = m0 \<and>
    (n > 0 \<longrightarrow> bytes_at m' s (take (n - 1) out @ [0]))"
proof -
  obtain st0 where st0: "vcbprintf_at collect f args
      \<lparr>written = 0, perrno = e, param = [], pmem = m |` (- ({s..<s + n} \<union> X))\<rparr> = Some (r, st0)"
    "out = param st0" "e' = perrno st0" "m0 = pmem st0" using assms(2) by (auto simp: printed_at_def)
  show ?thesis unfolding st0(2-4) vsnprintf_def
    by (rule vsn_run_correct[OF assms(1), where ?run0.0 = "vcbprintf_at collect f args", OF st0(1)]) (rule vsn.vcbprintf_at_to_list[where X = X, OF _ st0(1)])
qed

end
