(* ===== verification/Printf_Spec.thy ===== *)
theory Printf_Spec
  imports Printf Stdlib_Num
begin

text \<open>
  What the conversions of \<open>vcbprintf\<close> print: the text of integers and strings, the agreement of
  printing and reading numbers, and the functions that allocate their result.
\<close>

section \<open>Digits of a number\<close>

text \<open>The shortest sequence of digits with a value.\<close>

function digits_of :: "int \<Rightarrow> byte list \<Rightarrow> int \<Rightarrow> byte list" where
  "digits_of base digits v =
     (if base > 1 \<and> v \<ge> base then digits_of base digits (v div base) @ [digits ! nat (v mod base)]
      else [digits ! nat (v mod base)])"
  by pat_completeness auto
termination
  by (relation "measure (\<lambda>(base, digits, v). nat v)") (auto simp: int_div_less_self)

declare digits_of.simps [simp del]

lemma its_count_shift: "its_count v base (c + k) = its_count v base c + k"
proof (induction v base c rule: its_count.induct)
  case (1 v base c)
  show ?case
  proof (cases "base > 1 \<and> v \<ge> base")
    case True
    with 1 show ?thesis by (simp add: its_count.simps[of v])
  next
    case False
    then show ?thesis by (auto simp: its_count.simps[of v])
  qed
qed

lemma its_count_digits: "its_count v base 1 = length (digits_of base digits v)"
proof (induction base digits v rule: digits_of.induct)
  case (1 base digits v)
  show ?case
  proof (cases "base > 1 \<and> v \<ge> base")
    case True
    with 1 have "its_count (v div base) base 1 = length (digits_of base digits (v div base))" by blast
    with True show ?thesis using its_count_shift[of "v div base" base 1 1]
      by (simp add: its_count.simps[of v] digits_of.simps[of base digits v])
  next
    case False
    then show ?thesis by (auto simp: its_count.simps[of v] digits_of.simps[of base digits v])
  qed
qed

lemma its_fill_digits:
  "its_fill (length (digits_of base digits v)) v base digits out = digits_of base digits v @ out"
proof (induction base digits v arbitrary: out rule: digits_of.induct)
  case (1 base digits v)
  then show ?case by (subst (1 2) digits_of.simps) auto
qed

lemma integer_to_string_digits: "integer_to_string v base digits = digits_of base digits v"
  using its_fill_digits[of base digits v "[]"] its_count_digits[of v base digits]
  by (simp add: integer_to_string_def)

text \<open>Reading the digits back gives the value, for digit characters that stand for themselves.\<close>

definition proper_digits :: "int \<Rightarrow> byte list \<Rightarrow> bool" where
  "proper_digits base digits \<longleftrightarrow> base \<ge> 2 \<and> list_all (\<lambda>d. strto_digit (digits ! nat d) = Some d) [0..base - 1]"

lemma digits_of_numval:
  "0 \<le> v \<Longrightarrow> proper_digits base digits \<Longrightarrow> numval base 0 (digits_of base digits v) = v \<and>
    (\<forall>c \<in> set (digits_of base digits v). dig base c) \<and> digits_of base digits v \<noteq> []"
proof (induction base digits v rule: digits_of.induct)
  case (1 base digits v)
  have b: "base > 1" "base > 0" using 1(3) by (auto simp: proper_digits_def)
  have d: "strto_digit (digits ! nat d) = Some d" if "0 \<le> d" "d < base" for d
    using 1(3) that by (auto simp: proper_digits_def list_all_iff)
  let ?c = "digits ! nat (v mod base)"
  have c: "digval ?c = v mod base" "dig base ?c" using d[of "v mod base"] b by (auto simp: digval_def dig_def)
  show ?case
  proof (cases "v \<ge> base")
    case True
    have "0 \<le> v div base" using 1(2) b by (simp add: pos_imp_zdiv_nonneg_iff)
    with 1(1,3) b True have "numval base 0 (digits_of base digits (v div base)) = v div base"
      "\<forall>c \<in> set (digits_of base digits (v div base)). dig base c" by auto
    with c b True show ?thesis by (subst (1 2 3) digits_of.simps) (auto simp: numval_append)
  next
    case False
    then show ?thesis using c b 1(2) by (subst (1 2 3) digits_of.simps) auto
  qed
qed

lemma proper_decimal: "proper_digits 10 (lit ''0123456789'')"
  by (simp add: proper_digits_def upto.simps[of 0] upto.simps[of 1] upto_rec_numeral strto_digit_def ctype_defs cv_def)

lemma proper_octal: "proper_digits 8 (lit ''012345678'')"
  by (simp add: proper_digits_def upto.simps[of 0] upto.simps[of 1] upto_rec_numeral strto_digit_def ctype_defs cv_def)

lemma proper_hex: "proper_digits 16 (lit ''0123456789abcdef'')"
  by (simp add: proper_digits_def upto.simps[of 0] upto.simps[of 1] upto_rec_numeral strto_digit_def ctype_defs cv_def tolower_def)

lemma proper_HEX: "proper_digits 16 (lit ''0123456789ABCDEF'')"
  by (simp add: proper_digits_def upto.simps[of 0] upto.simps[of 1] upto_rec_numeral strto_digit_def ctype_defs cv_def tolower_def)

section \<open>Output on the reference sink\<close>

text \<open>The state after the output \<open>out\<close>.\<close>

definition after :: "byte list \<Rightarrow> int \<Rightarrow> mem \<Rightarrow> byte list pstate" where
  "after out e m = \<lparr>written = s32 (int (length out)), perrno = e, param = out, pmem = m\<rparr>"

lemma s32_add: "s32 (s32 a + b) = s32 (a + b)"
  by (simp add: s32_def signed_take_bit_add[of 31 "signed_take_bit 31 a" b, symmetric]
      signed_take_bit_add[of 31 a b, symmetric])

lemma emit_after [simp]: "emit collect bs (after out e m) = Some (Inr (after (out @ bs) e m))"
  by (simp add: emit_def collect_def after_def s32_add)

lemma emit_nonempty_after [simp]: "emit_nonempty collect bs (after out e m) = Some (Inr (after (out @ bs) e m))"
  by (simp add: emit_nonempty_def whenever_def)

lemma pf_seq_replicate:
  "pf_seq (replicate n (emit collect [c])) (after out e m) = Some (Inr (after (out @ replicate n c) e m))"
  by (induction n arbitrary: out) auto

lemma pad_after [simp]:
  "pad collect c n (after out e m) = Some (Inr (after (out @ replicate (nat n) (bc c)) e m))"
  by (simp add: pad_def pf_seq_replicate)

lemma whenever_simps [simp]: "whenever True f = f" "whenever False f st = Some (Inr st)"
  by (simp_all add: whenever_def)

lemma after_mem [simp]: "pmem (after out e m) = m"
  by (simp add: after_def)

lemma written_after [simp]: "written (after out e m) = s32 (int (length out))"
  by (simp add: after_def)

lemma start_after: "\<lparr>written = 0, perrno = e, param = [], pmem = m\<rparr> = after [] e m"
  by (simp add: after_def s32_def)

subsection \<open>Integers\<close>

text \<open>The text of an integer conversion: sign, prefix and digits, padded to the width.\<close>

definition int_prefix :: "bool \<Rightarrow> byte \<Rightarrow> byte list" where
  "int_prefix force spec =
     (if force \<and> (spec = bc CHR ''x'' \<or> spec = bc CHR ''X'') then [bc CHR ''0'', spec]
      else if force \<and> spec = bc CHR ''o'' then lit ''0'' else [])"

definition padded :: "pf_flags \<Rightarrow> int \<Rightarrow> byte list \<Rightarrow> byte list \<Rightarrow> byte list" where
  "padded f width sign body =
     (let fill = nat (width - int (length (sign @ body)))
      in if flag_left_justify f then sign @ body @ replicate fill (bc CHR '' '')
         else if flag_left_pad_zeroes f then sign @ replicate fill (bc CHR ''0'') @ body
         else replicate fill (bc CHR '' '') @ sign @ body)"

definition int_text :: "pf_flags \<Rightarrow> int \<Rightarrow> byte \<Rightarrow> bool \<Rightarrow> int \<Rightarrow> byte list" where
  "int_text f width spec issigned value =
     (let n = (issigned \<and> s64 value < 0);
          (c, force) = (if spec = bc CHR ''p'' then (bc CHR ''x'', True) else (spec, flag_force_0x_or_dec f));
          (base, digits) = pf_base c
      in padded f width (sign_of n f)
           (int_prefix force c @ digits_of base digits (if n then u64 (- s64 value) else value)))"

lemma length_padded: "length (padded f width sign body) = max (nat width) (length (sign @ body))"
  by (simp add: padded_def Let_def max_def) arith

lemma length_sign:
  "int (length (sign_of n f)) =
     (if flag_always_prepend_sign f \<or> flag_always_prepend_space_plussign f \<or> n then 1 else 0)"
  by (simp add: sign_of_def)

lemma length_prefix:
  "int (length (int_prefix g c)) =
     (if g \<and> (c = bc CHR ''x'' \<or> c = bc CHR ''X'') then 2 else 0) + (if g \<and> c = bc CHR ''o'' then 1 else 0)"
  by (auto simp: int_prefix_def)

lemma pad_width: "nat ((if w < l + a then l + a else w) - l - a) = nat (w - (l + a))" for w l a :: int
  by auto

lemma int_out_text:
  "pf_int_out collect f width n c g number (after out e m)
     = Some (Inr (after (out @ padded f width (sign_of n f) (int_prefix g c @ number)) e m))"
proof -
  define hex where "hex = (g \<and> (c = bc CHR ''x'' \<or> c = bc CHR ''X''))"
  define oct where "oct = (g \<and> c = bc CHR ''o'')"
  define add where "add = (if flag_always_prepend_sign f \<or> flag_always_prepend_space_plussign f \<or> n
    then 1 else 0) + (if hex then 2 else 0) + (if oct then 1 else 0 :: int)"
  define k where "k = nat (width - int (length (sign_of n f @ int_prefix g c @ number)))"
  have len: "int (length (sign_of n f @ int_prefix g c @ number)) = int (length number) + add"
    unfolding length_append of_nat_add length_sign length_prefix add_def hex_def oct_def by simp
  have fill: "nat ((if width < int (length number) + add then int (length number) + add else width)
      - int (length number) - add) = k"
    unfolding len k_def by (rule pad_width)
  have pre: "int_prefix g c = (if hex then [bc CHR ''0'', c] else if oct then lit ''0'' else [])"
    and x: "hex \<Longrightarrow> c \<noteq> bc CHR ''x'' \<Longrightarrow> c = bc CHR ''X''" and excl: "\<not> (hex \<and> oct)"
    by (auto simp: int_prefix_def hex_def oct_def)
  have pad: "padded f width (sign_of n f) (int_prefix g c @ number) =
      (if flag_left_justify f then sign_of n f @ int_prefix g c @ number @ replicate k (bc CHR '' '')
       else if flag_left_pad_zeroes f then sign_of n f @ replicate k (bc CHR ''0'') @ int_prefix g c @ number
       else replicate k (bc CHR '' '') @ sign_of n f @ int_prefix g c @ number)"
    by (simp add: padded_def k_def Let_def)
  show ?thesis
    unfolding pf_int_out_def Let_def hex_def[symmetric] oct_def[symmetric] add_def[symmetric] pad
    unfolding pre using x excl
    by (cases "flag_left_justify f"; cases "flag_left_pad_zeroes f"; cases hex; cases oct)
      (simp_all add: fill)
qed

lemma print_int_text:
  "pf_print_int collect f width spec issigned value (after out e m)
     = Some (Inr (after (out @ int_text f width spec issigned value) e m))"
  by (simp add: pf_print_int_def int_text_def Let_def case_prod_beta int_out_text integer_to_string_digits)

subsection \<open>Strings and characters\<close>

lemma strlen_at: "str_at m v xs \<Longrightarrow> v \<noteq> NULL \<Longrightarrow> strlen m v = Some (length xs)"
  by (rule strlen_correct)

lemma rd_n_string: "str_at m v xs \<Longrightarrow> rd_n m v (length xs) = Some xs"
  using rd_n_bytes[of m v xs] str_at_append[of xs m v "[]"] by (simp add: str_at_iff)

lemma print_string_text:
  assumes "str_at m v xs" "v \<noteq> NULL" "0 \<le> width" "width \<le> INT_MAX" "int (length xs) \<le> INT_MAX"
  shows "pf_print_string collect f width precision False v (after out e m) = Some (Inr (after (out @
    (if flag_left_justify f then xs @ replicate (nat width - length xs) (bc CHR '' '')
     else replicate (nat width - length xs) (bc CHR '' '') @ xs)) e m))"
proof -
  let ?len = "int (length xs)"
  let ?w = "if u64 width < ?len then s32 ?len else width"
  have w: "?w = max width ?len" using assms(3-5) by (auto simp: u64_id s32_id)
  have k: "nat (u64 (?w - ?len)) = nat width - length xs"
    unfolding w using assms(3-5) by (auto simp: u64_id max_def)
  have "pf_string_out collect f width precision False v (length xs) (after out e m) = Some (Inr (after (out @
    (if flag_left_justify f then xs @ replicate (nat width - length xs) (bc CHR '' '')
     else replicate (nat width - length xs) (bc CHR '' '') @ xs)) e m))"
    unfolding pf_string_out_def Let_def
    by (cases "flag_left_justify f") (simp_all add: k rd_n_string[OF assms(1)])
  then show ?thesis using strlen_at[OF assms(1,2)] by (simp add: pf_print_string_def)
qed

lemma print_char_text:
  "pf_print_char collect f width c (after out e m) = Some (Inr (after (out @
    (if flag_left_justify f then [c] @ replicate (nat (width - 1)) (bc CHR '' '')
     else replicate (nat (width - 1)) (bc CHR '' '') @ [c])) e m))"
  unfolding pf_print_char_def by (cases "flag_left_justify f") simp_all

section \<open>Whole formats\<close>

text \<open>A directive of one letter: no flags, width, precision or length.\<close>

definition plain_directive :: "byte \<Rightarrow> directive" where
  "plain_directive c = \<lparr>d_flags = no_flags, d_width = Some 0, d_precision = Some 6, d_explicit = False,
     d_length = LEN_DEFAULT, d_spec = c\<rparr>"

definition letter :: "byte \<Rightarrow> bool" where
  "letter c \<longleftrightarrow> c \<in> set (lit ''diuoxXpscn'')"

lemma letter_other:
  assumes "letter c"
  shows "pf_set_flag c f = None" "\<not> is_dec c"
    "c \<notin> set (lit ''*.hljztL%'')"
  using assms unfolding letter_def by (auto simp: pf_set_flag_def is_dec_def cv_def)

lemma parse_letter: "letter c \<Longrightarrow> pf_parse (c # s) = Some (plain_directive c, c # s)"
  using letter_other(1)[of c no_flags] letter_other(2,3)[of c]
  by (simp add: pf_parse_def pf_number_def cur_def pf_parse_length_def plain_directive_def)

lemma vcb_letter:
  assumes "letter c"
  shows "vcbprintf cb (bc CHR ''%'' # c # s) args st =
    (case pf_directive cb (plain_directive c) args of None \<Rightarrow> None
     | Some (f, args) \<Rightarrow> (case f st of
         None \<Rightarrow> None | Some (Inl st) \<Rightarrow> Some (- 1, st) | Some (Inr st) \<Rightarrow> vcbprintf cb s args st))"
proof -
  have step: "pf_step (bc CHR ''%'' # c # s) = Some (c # s)" by simp
  have "cur (c # s) \<noteq> bc CHR ''%''" using letter_other(3)[OF assms] by (simp add: cur_def)
  from vcb_directive[OF step refl this parse_letter[OF assms]] show ?thesis by (simp only: list.sel)
qed

lemma vcb_plain_after:
  "c \<noteq> bc CHR ''%'' \<Longrightarrow> vcbprintf collect (c # s) args (after out e m)
     = vcbprintf collect s args (after (out @ [c]) e m)"
  by (simp add: vcb_plain)

lemma vcb_nil_after: "vcbprintf collect [] args (after out e m) = Some (s32 (int (length out)), after out e m)"
  by (simp add: vcb_nil)

lemma vcb_d:
  "vcbprintf collect (bc CHR ''%'' # bc CHR ''d'' # s) (VWord x # args) (after out e m)
    = vcbprintf collect s args (after (out @ int_text no_flags 0 (bc CHR ''d'') True (u64 (s32 x))) e m)"
  by (subst vcb_letter) (simp_all add: letter_def pf_directive_def plain_directive_def pf_star_def
      pf_switch_def int_spec_def pf_int_value_def Let_def print_int_text)

lemma vcb_s:
  assumes "str_at m v xs" "v \<noteq> NULL" "int v \<le> ULONG_MAX" "int (length xs) \<le> INT_MAX"
  shows "vcbprintf collect (bc CHR ''%'' # bc CHR ''s'' # s) (VWord (int v) # args) (after out e m)
    = vcbprintf collect s args (after (out @ xs) e m)"
proof -
  have "nat (u64 (int v)) = v" using assms(3) by (simp add: u64_id)
  with print_string_text[OF assms(1,2), of 0 no_flags 6 out e] assms(4) show ?thesis
    by (subst vcb_letter) (simp_all add: letter_def pf_directive_def plain_directive_def pf_star_def
        pf_switch_def int_spec_def float_spec_def Let_def no_flags_def)
qed

text \<open>The decimal text of an \<open>int\<close>.\<close>

definition decimal :: "int \<Rightarrow> byte list" where
  "decimal v = (if v < 0 then lit ''-'' else []) @ digits_of 10 (lit ''0123456789'') \<bar>v\<bar>"

lemma s32_range: "INT_MIN \<le> s32 x" "s32 x \<le> INT_MAX"
  using signed_take_bit_int_greater_eq_minus_exp[of 31 x] signed_take_bit_int_less_exp[of 31 x]
  by (auto simp: s32_def)

lemma int_text_decimal:
  assumes "INT_MIN \<le> v" "v \<le> INT_MAX"
  shows "int_text no_flags 0 (bc CHR ''d'') True (u64 v) = decimal v"
proof -
  have "s64 v = v" using assms by (simp add: s64_id)
  moreover have "u64 v = v" if "0 \<le> v" using assms that by (simp add: u64_id)
  moreover have "u64 (- v) = - v" if "v < 0" using assms that by (simp add: u64_id)
  ultimately show ?thesis
    by (auto simp: int_text_def padded_def decimal_def Let_def pf_base_def int_prefix_def sign_of_def
        no_flags_def)
qed

lemma digits_of_length:
  "0 < k \<Longrightarrow> 0 \<le> v \<Longrightarrow> v < base ^ k \<Longrightarrow> base > 1 \<Longrightarrow> length (digits_of base digits v) \<le> k"
proof (induction k arbitrary: v)
  case 0
  then show ?case by simp
next
  case (Suc k)
  show ?case
  proof (cases "v \<ge> base")
    case False
    then show ?thesis by (subst digits_of.simps) simp
  next
    case True
    then have "0 < k" using Suc.prems by (cases k) auto
    moreover have "v div base < base ^ k"
      using Suc.prems int_le_div_iff[of base "base ^ k" v] by (simp add: mult.commute not_le[symmetric])
    ultimately have "length (digits_of base digits (v div base)) \<le> k"
      using Suc.prems by (intro Suc.IH) (auto simp: pos_imp_zdiv_nonneg_iff)
    then show ?thesis by (subst digits_of.simps) simp
  qed
qed

lemma decimal_length:
  assumes "INT_MIN \<le> v" "v \<le> INT_MAX"
  shows "length (decimal v) \<le> 11"
proof -
  have "length (digits_of 10 (lit ''0123456789'') \<bar>v\<bar>) \<le> 10"
    using assms by (intro digits_of_length) auto
  then show ?thesis by (cases "v < 0") (simp_all add: decimal_def)
qed

lemma decimal_numeral:
  "\<exists>sg ds. decimal v = [] @ sg @ ds @ [] \<and> numeral_ok 10 [] sg ds [] \<and>
    (if sg = [bc CHR ''-''] then - 1 else 1) * numval 10 0 ds = v"
proof -
  note d = digits_of_numval[OF abs_ge_zero[of v] proper_decimal]
  show ?thesis
  proof (cases "v < 0")
    case True
    with d show ?thesis
      by (intro exI[of _ "lit ''-''"] exI[of _ "digits_of 10 (lit ''0123456789'') \<bar>v\<bar>"])
        (simp add: decimal_def numeral_ok_def sgn_ok_def)
  next
    case False
    with d show ?thesis
      by (intro exI[of _ "[]"] exI[of _ "digits_of 10 (lit ''0123456789'') \<bar>v\<bar>"])
        (simp add: decimal_def numeral_ok_def sgn_ok_def)
  qed
qed

lemma printed_decimal:
  "printed (lit ''%d'') [VWord x] e m = Some (s32 (int (length (decimal (s32 x)))), decimal (s32 x), e, m)"
  using vcb_d[of "[]" x "[]" "[]" e m] int_text_decimal[OF s32_range, of x]
  by (simp add: printed_def start_after vcb_nil_after) (simp add: after_def)

text \<open>The same with the format in memory.\<close>

lemma str_at_restrict: "str_at m f xs \<Longrightarrow> {f..f + length xs} \<subseteq> A \<Longrightarrow> str_at (m |` A) f xs"
  by (subst str_at_frame [of xs _ f m]) (auto simp: restrict_map_def subset_iff)

lemma printed_at_decimal:
  assumes "str_at m f (lit ''%d'')"
  shows "printed_at f [VWord x] e m = Some (s32 (int (length (decimal (s32 x)))), decimal (s32 x), e, m)"
proof -
  have step: "pf_step (lit ''%d'') = Some (lit ''d'')" "cur (lit ''d'') \<noteq> bc CHR ''%''"
    "pf_parse (lit ''d'') = Some (plain_directive (bc CHR ''d''), lit ''d'')"
    using parse_letter[of "bc CHR ''d''" "[]"] by (simp_all add: cur_def letter_def)
  have "pf_directive collect (plain_directive (bc CHR ''d'')) [VWord x] =
      Some (pf_print_int collect no_flags 0 (bc CHR ''d'') True (u64 (s32 x)), [])"
    by (simp add: pf_directive_def plain_directive_def pf_star_def pf_switch_def int_spec_def pf_int_value_def Let_def)
  then have one: "pf_round collect (lit ''%d'') [VWord x] (after [] e m) = Some (Inr ([], [], after (decimal (s32 x)) e m))"
    using step int_text_decimal[OF s32_range, of x] by (simp add: pf_round_def go_on_def print_int_text)
  have two: "pf_round collect [] [] (after (decimal (s32 x)) e m) =
      Some (Inl (s32 (int (length (decimal (s32 x)))), after (decimal (s32 x)) e m))"
    by (simp add: pf_round_def)
  have "cstr m f = Some (lit ''%d'')" "cstr m (f + 2) = Some []"
    using cstr_correct[OF assms] cstr_correct[of m "f + 2" "[]"] assms by simp_all
  then have "vcbprintf_at collect f [VWord x] (after [] e m) =
      Some (s32 (int (length (decimal (s32 x)))), after (decimal (s32 x)) e m)"
    using one two by (subst vcbprintf_at.simps) (simp add: vcbprintf_at.simps[of _ "Suc (Suc f)"])
  then show ?thesis unfolding printed_at_def start_after by (simp add: after_def)
qed

section \<open>Functions that allocate\<close>

lemma vasprintf_correct:
  assumes "good_malloc malloc" "f \<noteq> NULL"
    and "printed_at f args e m = Some (int (length out), out, e, m)"
    and "malloc (length out + 1) m = (p, m1)"
  shows "if p = NULL then vasprintf malloc free m e True f args = Some (- 1, Some NULL, ENOMEM, m)
    else \<exists>m'. vasprintf malloc free m e True f args = Some (int (length out), Some p, e, m') \<and>
      bytes_at m' p (out @ [0]) \<and> (\<forall>a b. m a = Some b \<longrightarrow> m' a = Some b)"
proof -
  have 1: "vsnprintf m e NULL 0 f args = Some (int (length out), e, m)"
    using vsnprintf_correct[of m NULL 0 f args e "{}" "int (length out)" out e m] assms(3) by auto
  note g = good_mallocD[OF assms(1,4)]
  show ?thesis
  proof (cases "p = NULL")
    case True
    with 1 g(1) assms(2,4) show ?thesis by (auto simp: vasprintf_def)
  next
    case False
    let ?own = "{p..<p + (length out + 1)} \<union> {}"
    have r: "m1 |` (- ?own) = m"
      using g(3,4)[OF False] by (intro ext) (auto simp: restrict_map_def not_le)
    obtain m' where m': "vsnprintf m1 e p (length out + 1) f args = Some (int (length out), e, m')"
      "m' |` (- ?own) = m" "bytes_at m' p (out @ [0])"
      using vsnprintf_correct[OF g(2)[OF False], of f args e "{}" "int (length out)" out e m] assms(3)
      unfolding r by auto
    have "m' a = Some b" if "m a = Some b" for a b
      using that m'(2) by (metis restrict_in restrict_out option.distinct(1))
    with m' 1 False assms(2,4) show ?thesis by (auto simp: vasprintf_def)
  qed
qed

text \<open>
  An allocator that does not run out of memory and never gives out addresses of the memory \<open>m0\<close>,
  and a \<open>free\<close> that leaves these alone.
\<close>

definition keeps :: "mem \<Rightarrow> allocator \<Rightarrow> deallocator \<Rightarrow> bool" where
  "keeps m0 malloc free \<longleftrightarrow>
     (\<forall>n m. m0 \<subseteq>\<^sub>m m \<longrightarrow> (case malloc n m of (p, m') \<Rightarrow>
        p \<noteq> NULL \<and> mapped m' p n \<and> m0 \<subseteq>\<^sub>m m' \<and> (\<forall>a. p \<le> a \<and> a < p + n \<longrightarrow> m0 a = None))) \<and>
     (\<forall>p m. m0 \<subseteq>\<^sub>m m \<longrightarrow> m0 \<subseteq>\<^sub>m free p m)"

lemma keepsD:
  assumes "keeps m0 malloc free" "m0 \<subseteq>\<^sub>m m"
  shows "malloc n m = (p, m') \<Longrightarrow> p \<noteq> NULL \<and> mapped m' p n \<and> m0 \<subseteq>\<^sub>m m' \<and>
      (\<forall>a. p \<le> a \<and> a < p + n \<longrightarrow> m0 a = None)"
    and "m0 \<subseteq>\<^sub>m free p m"
proof -
  show "p \<noteq> NULL \<and> mapped m' p n \<and> m0 \<subseteq>\<^sub>m m' \<and> (\<forall>a. p \<le> a \<and> a < p + n \<longrightarrow> m0 a = None)"
    if "malloc n m = (p, m')"
    using assms(1)[unfolded keeps_def, THEN conjunct1, THEN spec[of _ n], THEN spec[of _ m], THEN mp,
        OF assms(2)] unfolding that prod.case .
  show "m0 \<subseteq>\<^sub>m free p m" using assms unfolding keeps_def by blast
qed

lemma kvlog_loop_correct:
  assumes "keeps m0 malloc free"
    and "printed_at f args e m0 = Some (int (length out), out, e, m0)"
    and "int (length out) \<le> INT_MAX" "0 \<notin> set out"
  shows "0 < bufLen \<Longrightarrow> bufLen \<le> 4294967295 \<Longrightarrow> m0 \<subseteq>\<^sub>m m \<Longrightarrow>
    \<exists>m'. kvlog_loop malloc free m e buf bufLen f args = Some (m', e, [out])"
proof (induction "nat (int (length out) + 1 - bufLen)" arbitrary: bufLen m buf rule: less_induct)
  case less
  obtain p m1 where p: "malloc (nat bufLen) (free buf m) = (p, m1)" by fastforce
  note g = keepsD(1)[OF assms(1) keepsD(2)[OF assms(1) less.prems(3)] p]
  let ?own = "{p..<p + nat bufLen} \<union> - dom m0"
  have r: "m1 |` (- ?own) = m0"
  proof
    fix a show "(m1 |` (- ?own)) a = m0 a"
      using g by (cases "m0 a") (auto simp: restrict_map_def map_le_def dom_def)
  qed
  obtain m2 where m2: "vsnprintf m1 e p (nat bufLen) f args = Some (int (length out), e, m2)"
    "m2 |` (- ?own) = m0" "bytes_at m2 p (take (nat bufLen - 1) out @ [0])"
    using vsnprintf_correct[of m1 p "nat bufLen" f args e "- dom m0" "int (length out)" out e m0]
      assms(2) less.prems(1) g unfolding r by auto
  have le2: "m0 \<subseteq>\<^sub>m m2"
    unfolding map_le_def using m2(2) by (metis ComplI restrict_map_def domIff)
  have u: "u32 (int (length out)) = int (length out)" using assms(3) by (simp add: u32_id)
  show ?case
  proof (cases "int (length out) < bufLen")
    case True
    then have "take (nat bufLen - 1) out = out" by simp
    then have "cstr m2 p = Some out" using m2(3) assms(4) by (intro cstr_correct) (simp add: str_at_iff)
    with p g m2(1) True u show ?thesis by (subst kvlog_loop.simps) simp
  next
    case False
    then have b: "u32 (bufLen * 2) = bufLen * 2" using less.prems(1) assms(3) by (simp add: u32_id)
    have "\<exists>m'. kvlog_loop malloc free m2 e p (bufLen * 2) f args = Some (m', e, [out])"
      using less.prems(1) False assms(3) le2 by (intro less.hyps) auto
    with p g m2(1) False u b show ?thesis by (subst kvlog_loop.simps) simp
  qed
qed

lemma kvlog_correct:
  assumes "keeps m0 malloc free" "str_at m0 f fmt" "f \<noteq> NULL" "fmt \<noteq> []" "int (length fmt) \<le> INT_MAX"
    and "printed_at f args e m0 = Some (int (length out), out, e, m0)"
    and "int (length out) \<le> INT_MAX" "0 \<notin> set out"
  shows "\<exists>m'. kvlog malloc free m0 e f args = Some (m', e, [out])"
proof -
  have "u32 (u32 (int (length fmt)) * 2) = int (length fmt) * 2"
    using assms(5) by (simp add: u32_id)
  then show ?thesis using strlen_correct[OF assms(2,3)] assms(4,5)
      kvlog_loop_correct[OF assms(1,6-8), of "int (length fmt) * 2" m0 NULL] by (simp add: kvlog_def)
qed

text \<open>With an empty message the buffer has no size, and doubling does not change that.\<close>

lemma kvlog_loop_empty:
  assumes "kvlog_loop malloc free m e buf bufLen f args = Some r"
  shows "bufLen = 0 \<Longrightarrow> \<exists>n m. fst (malloc n m) = NULL"
  using assms
proof (induction rule: kvlog_loop.raw_induct[rotated, consumes 1, case_names step])
  case (step k malloc free m e buf bufLen f args r)
  then show ?case
    by (auto simp: Let_def u32_def split: prod.splits if_splits bind_splits) (metis fst_conv)+
qed

section \<open>Properties\<close>

text \<open>
  C33. \<open>vsnprintf\<close> returns the length of the whole output and leaves in a buffer of \<open>n > 0\<close> bytes its
  first \<open>n - 1\<close> bytes and a terminator, whatever the format and arguments: it never writes
  outside the buffer, apart from the \<open>%n\<close> stores the format asks for.  The format and the strings have to lie
  outside the buffer: the output is that of the same format printed to a list from the memory without it.
\<close>

theorem vsnprintf_truncates:
  assumes "mapped m s n" "printed_at f args e (m |` (- {s..<s + n})) = Some (r, out, e', m0)" "r \<noteq> - 1"
  shows "\<exists>m'. vsnprintf m e s n f args = Some (s32 (int (length out)), e', m') \<and>
    m' |` (- {s..<s + n}) = m0 \<and> (n > 0 \<longrightarrow> bytes_at m' s (take (n - 1) out @ [0]))"
  using vsnprintf_correct[OF assms(1), where X = "{}"] assms(2,3) printed_at_count[OF assms(2)] by simp

theorem vsnprintf_truncates_witness:
  "\<exists>m'. vsnprintf (store (\<lambda>_. Some 0) 100 (lit ''%d'')) 0 200 4 100 [VWord 12345]
      = Some (s32 (int (length (decimal (s32 12345)))), 0, m') \<and>
    m' |` (- {200..<200 + 4}) = store (\<lambda>_. Some 0) 100 (lit ''%d'') |` (- {200..<200 + 4}) \<and>
    ((4 :: nat) > 0 \<longrightarrow> bytes_at m' 200 (take (4 - 1) (decimal (s32 12345)) @ [0]))"
proof (rule vsnprintf_truncates)
  let ?m = "store (\<lambda>_. Some 0) 100 (lit ''%d'')"
  have "str_at ?m 100 (lit ''%d'')" by simp
  then have "str_at (?m |` (- {200..<200 + 4})) 100 (lit ''%d'')" by (rule str_at_restrict) auto
  from printed_at_decimal[OF this] show "printed_at 100 [VWord 12345] 0 (?m |` (- {200..<200 + 4})) =
      Some (s32 (int (length (decimal (s32 12345)))), decimal (s32 12345), 0, ?m |` (- {200..<200 + 4}))" .
  show "s32 (int (length (decimal (s32 12345)))) \<noteq> - 1" by (simp add: s32_id decimal_def digits_of.simps)
qed (simp add: mapped_iff)

text \<open>
  C34. Printing an \<open>int\<close> with \<open>snprintf(s, n, "%d", x)\<close> into at least twelve bytes apart from the format, and reading
  it back with \<open>atoi\<close>, gives the same value, for every \<open>int\<close>, and \<open>errno\<close> is untouched.
\<close>

theorem print_read_int:
  assumes "str_at m f (lit ''%d'')" "mapped m s n" "n \<ge> 12" "INT_MIN \<le> x" "x \<le> INT_MAX" "f + 2 < s \<or> s + n \<le> f"
  shows "\<exists>k m'. snprintf m e s n f [VWord x] = Some (k, e, m') \<and> atoi m' s e = Some (x, e)"
proof -
  have x: "s32 x = x" using assms(4,5) by (rule s32_id)
  have "str_at (m |` (- {s..<s + n})) f (lit ''%d'')" using assms(1,6) by (intro str_at_restrict) auto
  from printed_at_decimal[OF this] have "printed_at f [VWord x] e (m |` (- ({s..<s + n} \<union> {}))) =
      Some (s32 (int (length (decimal x))), decimal x, e, m |` (- {s..<s + n}))" by (simp add: x)
  from vsnprintf_correct[OF assms(2) this] assms(3) obtain m' where m': "vsnprintf m e s n f [VWord x]
      = Some (s32 (int (length (decimal x))), e, m')" "bytes_at m' s (take (n - 1) (decimal x) @ [0])" by auto
  obtain sg ds where n: "decimal x = [] @ sg @ ds @ []" "numeral_ok 10 [] sg ds []"
    "(if sg = [bc CHR ''-''] then - 1 else 1) * numval 10 0 ds = x"
    using decimal_numeral by blast
  have "0 \<notin> set ds" using n(2) by (auto simp: numeral_ok_def dig_def)
  then have "0 \<notin> set (decimal x)" using n(1,2) by (auto simp: numeral_ok_def sgn_ok_def)
  moreover have "take (n - 1) (decimal x) = decimal x" using decimal_length[OF assms(4,5)] assms(3) by simp
  ultimately have "str_at m' s (decimal x)" using m'(2) by (simp add: str_at_iff)
  then have "atoi m' s e = Some (x, e)"
    using atoi_correct[of m' s "[]" sg ds "[]" e] n assms(4,5) by (simp add: Let_def)
  with m'(1) show ?thesis by (simp add: snprintf_def)
qed

theorem print_read_int_witness:
  "\<exists>k m'. snprintf (store (\<lambda>_. Some 0) 100 (lit ''%d'')) 0 200 12 100 [VWord (- 42)] = Some (k, 0, m') \<and>
    atoi m' 200 0 = Some (- 42, 0)"
  by (rule print_read_int) (simp_all add: mapped_iff)

text \<open>
  A buffer over the format: of the digits 12345 the first three are stored over \<open>%d\<close> and its terminator, so
  that the third is read as the rest of the format and printed once more.
\<close>

lemma format_overwritten:
  "\<exists>m'. vsnprintf (store (\<lambda>_. Some 0) 100 (lit ''%d'')) 0 100 4 100 [VWord 12345] = Some (6, 0, m')"
proof -
  let ?m = "store (\<lambda>_. Some 0) 100 (lit ''%d'')" and ?m1 = "store (\<lambda>_. Some 0) 100 (lit ''123'')"
  let ?st = "\<lambda>w k n m. \<lparr>written = w, perrno = 0, param = \<lparr>vsn_out = 100, vsn_maximum = 3, vsn_written = k, vsn_produced = n\<rparr>, pmem = m\<rparr>"
  have fmt: "cstr ?m 100 = Some (lit ''%d'')" "cstr ?m1 102 = Some (lit ''3'')" "cstr ?m1 103 = Some []"
    by (rule cstr_correct, simp)+
  have parse: "pf_step (lit ''%d'') = Some (lit ''d'')" "cur (lit ''d'') \<noteq> bc CHR ''%''"
    "pf_parse (lit ''d'') = Some (plain_directive (bc CHR ''d''), lit ''d'')"
    using parse_letter[of "bc CHR ''d''" "[]"] by (simp_all add: cur_def letter_def)
  have digits: "integer_to_string 12345 10 (lit ''0123456789'') = lit ''12345''"
    by (simp add: integer_to_string_digits digits_of.simps)
  have dir: "pf_directive vsn_callback (plain_directive (bc CHR ''d'')) [VWord 12345] =
      Some (pf_print_int vsn_callback no_flags 0 (bc CHR ''d'') True 12345, [])"
    by (simp add: pf_directive_def plain_directive_def pf_star_def pf_switch_def int_spec_def pf_int_value_def Let_def s32_id u64_id)
  have out: "emit vsn_callback (lit ''12345'') (?st 0 0 0 ?m) = Some (Inr (?st 5 3 5 ?m1))"
    by (simp add: emit_def vsn_callback_def Let_def numeral_3_eq_3 s32_id fun_upd_twist)
  have "pf_print_int vsn_callback no_flags 0 (bc CHR ''d'') True 12345 (?st 0 0 0 ?m) = Some (Inr (?st 5 3 5 ?m1))"
    using out digits by (simp add: pf_print_int_def pf_base_def Let_def s64_id pf_int_out_def no_flags_def sign_of_def
        emit_nonempty_def whenever_def pad_def)
  then have one: "pf_round vsn_callback (lit ''%d'') [VWord 12345] (?st 0 0 0 ?m) = Some (Inr ([], [], ?st 5 3 5 ?m1))"
    using parse dir by (simp add: pf_round_def go_on_def)
  have two: "pf_round vsn_callback (lit ''3'') [] (?st 5 3 5 ?m1) = Some (Inr ([], [], ?st 6 3 6 ?m1))"
    by (simp add: pf_round_def go_on_def emit_def vsn_callback_def s32_id)
  have three: "pf_round vsn_callback [] [] (?st 6 3 6 ?m1) = Some (Inl (6, ?st 6 3 6 ?m1))"
    by (simp add: pf_round_def)
  have "vcbprintf_at vsn_callback 103 [] (?st 6 3 6 ?m1) = Some (6, ?st 6 3 6 ?m1)"
    by (subst vcbprintf_at.simps) (simp only: pstate.simps fmt(3) three Option.bind.simps sum.case)
  then have "vcbprintf_at vsn_callback 102 [] (?st 5 3 5 ?m1) = Some (6, ?st 6 3 6 ?m1)"
    by (subst vcbprintf_at.simps) (simp only: pstate.simps fmt(2) two Option.bind.simps sum.case prod.case, simp)
  then have "vcbprintf_at vsn_callback 100 [VWord 12345] (?st 0 0 0 ?m) = Some (6, ?st 6 3 6 ?m1)"
    by (subst vcbprintf_at.simps) (simp only: pstate.simps fmt(1) one Option.bind.simps sum.case prod.case, simp)
  then show ?thesis by (simp add: vsnprintf_def vsn_run_def Let_def numeral_3_eq_3 wr_def)
qed

text \<open>
  An integer conversion prints its sign, prefix and digits, padded to exactly the width: the
  text is as long as the larger of the width and the unpadded text, and with no width it is the
  unpadded text.
\<close>

theorem int_conversion_width:
  "pf_print_int collect f width spec issigned value (after out e m)
     = Some (Inr (after (out @ int_text f width spec issigned value) e m)) \<and>
   length (int_text f width spec issigned value) = max (nat width) (length (int_text f 0 spec issigned value))"
  by (auto simp: print_int_text int_text_def Let_def case_prod_beta length_padded)

text \<open>
  \<open>vasprintf\<close> gives a fresh block that holds exactly the output and its terminator, or \<open>NULL\<close>
  and \<open>ENOMEM\<close> when the allocation of that block fails.
\<close>

theorem vasprintf_allocates:
  assumes "good_malloc malloc" "f \<noteq> NULL"
    and "printed_at f args e m = Some (int (length out), out, e, m)"
    and "malloc (length out + 1) m = (p, m1)"
  shows "if p = NULL then vasprintf malloc free m e True f args = Some (- 1, Some NULL, ENOMEM, m)
    else \<exists>m'. vasprintf malloc free m e True f args = Some (int (length out), Some p, e, m') \<and>
      bytes_at m' p (out @ [0]) \<and> (\<forall>a b. m a = Some b \<longrightarrow> m' a = Some b)"
  by (rule vasprintf_correct[OF assms])

theorem vasprintf_allocates_witness:
  "if (500 :: nat) = NULL then vasprintf (bump_malloc 500) (\<lambda>p m. m)
      (store Map.empty 100 (lit ''%d'' @ [0])) 0 True 100 [VWord 7] = Some (- 1, Some NULL, ENOMEM, store Map.empty 100 (lit ''%d'' @ [0]))
    else \<exists>m'. vasprintf (bump_malloc 500) (\<lambda>p m. m)
      (store Map.empty 100 (lit ''%d'' @ [0])) 0 True 100 [VWord 7]
      = Some (int (length (decimal (s32 7))), Some 500, 0, m') \<and> bytes_at m' 500 (decimal (s32 7) @ [0]) \<and>
      (\<forall>a b. store Map.empty 100 (lit ''%d'' @ [0]) a = Some b \<longrightarrow> m' a = Some b)"
  by (rule vasprintf_allocates)
    (simp_all add: bump_malloc_good printed_at_decimal[simplified] decimal_def s32_id digits_of.simps bump_malloc_def)

text \<open>
  \<open>kvlog\<close> ends and hands the kernel one message, the whole formatted output, however long it is
  compared with the format, when memory does not run out.
\<close>

theorem kvlog_logs_whole_message:
  assumes "keeps m0 malloc free" "str_at m0 f fmt" "f \<noteq> NULL" "fmt \<noteq> []" "int (length fmt) \<le> INT_MAX"
    and "printed_at f args e m0 = Some (int (length out), out, e, m0)"
    and "int (length out) \<le> INT_MAX" "0 \<notin> set out"
  shows "\<exists>m'. kvlog malloc free m0 e f args = Some (m', e, [out])"
  by (rule kvlog_correct[OF assms])

theorem kvlog_logs_whole_message_witness:
  "\<exists>m'. kvlog (\<lambda>n m. (500, store m 500 (replicate n 0))) (\<lambda>p m. m)
    (store Map.empty 100 (lit ''%d'' @ [0])) 0 100 [VWord 1234567] = Some (m', 0, [decimal (s32 1234567)])"
  by (rule kvlog_logs_whole_message[where fmt = "lit ''%d''"])
    (auto simp: keeps_def map_le_def store_apply mapped_iff printed_at_decimal[simplified] decimal_def
      s32_id digits_of.simps)

text \<open>
  \<open>kvlog\<close> of an empty message never returns when memory does not run out: its buffer size is
  zero and stays zero when doubled.
\<close>

theorem kvlog_empty_hangs:
  assumes "\<And>n m. fst (malloc n m) \<noteq> NULL" "str_at m f []" "f \<noteq> NULL"
  shows "kvlog malloc free m e f args = None"
proof (rule ccontr)
  assume "kvlog malloc free m e f args \<noteq> None"
  then obtain r where "kvlog_loop malloc free m e NULL 0 f args = Some r"
    using strlen_correct[OF assms(2,3)] by (auto simp: kvlog_def u32_def)
  from kvlog_loop_empty[OF this] assms(1) show False by blast
qed

theorem kvlog_empty_hangs_witness:
  "kvlog (\<lambda>n m. (500, m)) (\<lambda>p m. m) (store (\<lambda>_. Some 0) 100 [0]) 0 100 [] = None"
  by (rule kvlog_empty_hangs) simp_all

text \<open>
  The fractional part of a floating point number loses its leading zeros: 1.0625, which is
  \<open>17 * 2 ^ -4\<close>, is printed by \<open>%f\<close> as \<open>1.625000\<close>.
\<close>

theorem float_drops_zeros:
  "printed (lit ''%f'') [VFloat (Fl 17 (- 4))] e m = Some (8, lit ''1.625000'', e, m)"
proof -
  have frac: "fl_round (fl_frac (Fl 17 (- 4))) = Fl 1 (- 4)"
    by (simp add: fl_round_def fl_frac_def cmod_nonneg bitlen.simps)
  have scale: "fl_scale (Fl 1 (- 4)) = Some (Fl 10000 (- 4))"
    by (simp add: fl_scale.simps fl_round_def fl_frac_def fl_mul10_def cmod_nonneg bitlen.simps)
  have digits: "integer_to_string 1 10 (lit ''0123456789'') = lit ''1''"
    "integer_to_string 625 10 (lit ''0123456789'') = lit ''625''"
    by (simp_all add: integer_to_string_digits digits_of.simps)
  have "pf_float_out collect no_flags 0 6 False 1 625 (after [] e m) = Some (Inr (after (lit ''1.625000'') e m))"
    unfolding pf_float_out_def Let_def digits
    by (simp add: u64_id s32_id no_flags_def sign_of_def numeral_3_eq_3)
  then have out: "pf_print_float collect no_flags 0 6 (Fl 17 (- 4)) (after [] e m)
      = Some (Inr (after (lit ''1.625000'') e m))"
    by (simp add: pf_print_float_def frac scale fl_trunc_def cdiv_nonneg u64_id)
  have step: "pf_step (lit ''%f'') = Some (lit ''f'')" "lit ''%f'' = bc CHR ''%'' # lit ''f''"
    "cur (lit ''f'') \<noteq> bc CHR ''%''" by (simp_all add: cur_def)
  have "pf_parse (lit ''f'') = Some (plain_directive (bc CHR ''f''), lit ''f'')"
    by (simp add: pf_parse_def pf_set_flag_def pf_number_def is_dec_def cur_def cv_def
        pf_parse_length_def plain_directive_def)
  from vcb_directive[OF step this, of collect "[VFloat (Fl 17 (- 4))]" "after [] e m"] out
  show ?thesis
    by (simp add: printed_def start_after pf_directive_def plain_directive_def pf_star_def pf_switch_def
        int_spec_def float_spec_def Let_def vcb_nil_after) (simp add: after_def s32_id)
qed

end
