(* ===== verification/Env.thy ===== *)
theory Env
  imports Printf_Spec
begin

text \<open>
  The environment of a process: \<open>getenv\<close> and \<open>setenv\<close> of \<open>libc/src/stdlib\<close> and the variable
  \<open>environ\<close> of \<open>libc/src/unistd/environ.c\<close>.  \<open>environ\<close> is \<open>None\<close> when it is null, and otherwise
  the list of the pointers in front of the array's null pointer; the strings are in memory.
\<close>

section \<open>Operations\<close>

type_synonym environ = "addr list option"

text \<open>The addresses of the string literals the two functions use.\<close>

record env_lits =
  l_TERM :: addr
  l_vt100 :: addr
  l_empty :: addr

definition env_key_match :: "mem \<Rightarrow> addr \<Rightarrow> addr \<Rightarrow> nat \<Rightarrow> bool option" where
  "env_key_match m entry key keylen = do {
     c \<leftarrow> strncmp m entry key keylen;
     if c = 0 then do { x \<leftarrow> m (entry + keylen); Some (x = bc CHR ''='') } else Some False
   }"

text \<open>The search of both functions: the index of the first entry of the key.\<close>

fun env_find :: "mem \<Rightarrow> addr \<Rightarrow> nat \<Rightarrow> addr list \<Rightarrow> nat option option" where
  "env_find m key keylen [] = Some None"
| "env_find m key keylen (entry # es) = do {
     b \<leftarrow> env_key_match m entry key keylen;
     if b then Some (Some 0) else do { r \<leftarrow> env_find m key keylen es; Some (map_option Suc r) }
   }"

definition getenv_default :: "mem \<Rightarrow> env_lits \<Rightarrow> addr \<Rightarrow> addr option" where
  "getenv_default m L key = do {
     c \<leftarrow> strcmp m key (l_TERM L);
     Some (if c = 0 then l_vt100 L else NULL)
   }"

definition getenv :: "mem \<Rightarrow> env_lits \<Rightarrow> environ \<Rightarrow> addr \<Rightarrow> addr option" where
  "getenv m L env key =
     (if key = NULL then Some NULL
      else do {
        k \<leftarrow> m key;
        if k = 0 then Some NULL
        else (case env of
          None \<Rightarrow> getenv_default m L key
        | Some es \<Rightarrow> do {
            keylen \<leftarrow> strlen m key;
            r \<leftarrow> env_find m key keylen es;
            case r of
              Some i \<Rightarrow> Some (es ! i + keylen + 1)
            | None \<Rightarrow> getenv_default m L key
          })
      })"

definition env_count :: "environ \<Rightarrow> nat" where
  "env_count env = (case env of None \<Rightarrow> 0 | Some es \<Rightarrow> length es)"

text \<open>
  The pointer array is allocated by \<open>calloc\<close> and \<open>realloc\<close>: \<open>array_ok n\<close> says that an array of
  \<open>n\<close> bytes can be allocated.
\<close>

definition env_ensure :: "(nat \<Rightarrow> bool) \<Rightarrow> environ \<Rightarrow> int \<Rightarrow> int \<times> environ \<times> int" where
  "env_ensure array_ok env errno = (case env of
     Some es \<Rightarrow> (0, Some es, errno)
   | None \<Rightarrow> if array_ok 8 then (0, Some [], errno) else (- 1, None, ENOMEM))"

text \<open>A new entry \<open>key=val\<close>, or \<open>NULL\<close>; the \<open>total\<close>, \<open>malloc\<close> and \<open>snprintf\<close> of both branches.\<close>

definition env_entry ::
  "allocator \<Rightarrow> mem \<Rightarrow> int \<Rightarrow> addr \<Rightarrow> addr \<Rightarrow> nat \<Rightarrow> (addr \<times> int \<times> mem) option" where
  "env_entry malloc m errno key val keylen = do {
     vallen \<leftarrow> strlen m val;
     let total = keylen + 1 + vallen + 1;
     let (entry, m) = malloc total m;
     if entry = NULL then Some (NULL, ENOMEM, m)
     else do {
       (_, errno, m) \<leftarrow> vsnprintf_lit m errno entry total (lit ''%s=%s'') [VWord (int key), VWord (int val)];
       Some (entry, errno, m)
     }
   }"

text \<open>The result, \<open>environ\<close>, \<open>errno\<close> and the memory.\<close>

definition setenv ::
  "allocator \<Rightarrow> deallocator \<Rightarrow> (nat \<Rightarrow> bool) \<Rightarrow> mem \<Rightarrow> env_lits \<Rightarrow> environ \<Rightarrow> int \<Rightarrow>
   addr \<Rightarrow> addr \<Rightarrow> bool \<Rightarrow> (int \<times> environ \<times> int \<times> mem) option" where
  "setenv malloc free array_ok m L env errno key val overwrite = do {
     bad \<leftarrow> (if key = NULL then Some True
            else do {
              k \<leftarrow> m key;
              if k = 0 then Some True
              else do { p \<leftarrow> strchr m key (ic CHR ''=''); Some (p \<noteq> NULL) }
            });
     if bad then Some (- 1, env, EINVAL, m)
     else let val = (if val = NULL then l_empty L else val);
              (r, env, errno) = env_ensure array_ok env errno in
       if r < 0 then Some (- 1, env, errno, m)
       else do {
         keylen \<leftarrow> strlen m key;
         let es = (case env of None \<Rightarrow> [] | Some es \<Rightarrow> es);
         let count = env_count env;
         found \<leftarrow> env_find m key keylen es;
         case found of
           Some i \<Rightarrow>
             if \<not> overwrite then Some (0, env, errno, m)
             else do {
               (entry, errno, m) \<leftarrow> env_entry malloc m errno key val keylen;
               if entry = NULL then Some (- 1, env, errno, m)
               else let m = free (es ! i) m in Some (0, Some (es[i := entry]), errno, m)
             }
         | None \<Rightarrow>
             if \<not> array_ok (8 * (count + 2)) then Some (- 1, env, ENOMEM, m)
             else do {
               (entry, errno, m) \<leftarrow> env_entry malloc m errno key val keylen;
               if entry = NULL then Some (- 1, env, errno, m)
               else Some (0, Some (es @ [entry]), errno, m)
             }
       }
   }"

section \<open>The environment as a map\<close>

abbreviation (input) eq :: byte where "eq \<equiv> bc CHR ''=''"

text \<open>The strings of the entries, and the value an entry list gives a key.\<close>

definition env_at :: "mem \<Rightarrow> addr list \<Rightarrow> byte list list \<Rightarrow> bool" where
  "env_at m es ss \<longleftrightarrow> list_all2 (\<lambda>p s. p \<noteq> NULL \<and> str_at m p s) es ss"

definition entry_of :: "byte list \<Rightarrow> byte list \<Rightarrow> bool" where
  "entry_of k s \<longleftrightarrow> (\<exists>v. s = k @ eq # v)"

fun env_get :: "byte list \<Rightarrow> byte list list \<Rightarrow> byte list option" where
  "env_get k [] = None"
| "env_get k (s # ss) = (if entry_of k s then Some (drop (length k + 1) s) else env_get k ss)"

fun env_index :: "byte list \<Rightarrow> byte list list \<Rightarrow> nat option" where
  "env_index k [] = None"
| "env_index k (s # ss) = (if entry_of k s then Some 0 else map_option Suc (env_index k ss))"

lemma entry_of_iff: "entry_of k s \<longleftrightarrow> take (length k) s = k \<and> length k < length s \<and> s ! length k = eq"
proof
  assume "take (length k) s = k \<and> length k < length s \<and> s ! length k = eq"
  then have "s = k @ eq # drop (Suc (length k)) s" by (metis id_take_nth_drop)
  then show "entry_of k s" unfolding entry_of_def by blast
qed (auto simp: entry_of_def)

lemma env_get_index: "env_get k ss = map_option (\<lambda>i. drop (length k + 1) (ss ! i)) (env_index k ss)"
  by (induction ss) (auto simp: option.map_comp comp_def)

lemma env_index_Some: "env_index k ss = Some i \<Longrightarrow> i < length ss \<and> entry_of k (ss ! i)"
  by (induction ss arbitrary: i) (auto split: if_splits)

lemma lex_cmp_take_eq: "lex_cmp (take n s) (take n k) = 0 \<longleftrightarrow> take n s = take n k"
  by (rule lex_cmp_eq)

lemma env_key_match_correct:
  assumes "str_at m p s" "str_at m q k"
  shows "env_key_match m p q (length k) = Some (entry_of k s)"
proof (cases "take (length k) s = k")
  case False
  then have "lex_cmp (take (length k) s) k \<noteq> 0" by (simp add: lex_cmp_eq)
  with False strncmp_correct[OF assms, of "length k"] show ?thesis
    by (simp add: env_key_match_def entry_of_iff)
next
  case True
  then have l: "length k \<le> length s" by (metis length_take min.cobounded1 min_def nat_le_linear)
  have "m (p + length k) = Some (if length k < length s then s ! length k else 0)"
    using str_at_nth(1)[OF assms(1), of "length k"] str_at_nth(2)[OF assms(1)] l
    by (cases "length k = length s") auto
  with True l strncmp_correct[OF assms, of "length k"] show ?thesis
    by (auto simp: env_key_match_def entry_of_iff)
qed

lemma env_find_correct:
  "env_at m es ss \<Longrightarrow> str_at m q k \<Longrightarrow> env_find m q (length k) es = Some (env_index k ss)"
proof (induction es arbitrary: ss)
  case Nil
  then show ?case by (simp add: env_at_def)
next
  case (Cons e es)
  then obtain s ss' where ss: "ss = s # ss'" "str_at m e s" "env_at m es ss'"
    by (auto simp: env_at_def list_all2_Cons1)
  with Cons.IH[OF ss(3) Cons.prems(2)] env_key_match_correct[OF ss(2) Cons.prems(2)] show ?case
    by simp
qed

definition lits_at :: "mem \<Rightarrow> env_lits \<Rightarrow> bool" where
  "lits_at m L \<longleftrightarrow> str_at m (l_TERM L) (lit ''TERM'') \<and> l_vt100 L \<noteq> NULL \<and>
     str_at m (l_vt100 L) (lit ''vt100'') \<and> l_empty L \<noteq> NULL \<and> str_at m (l_empty L) []"

text \<open>What \<open>getenv\<close> finds: the value of the first entry, a default for \<open>TERM\<close>, or nothing.\<close>

definition env_value :: "environ \<Rightarrow> byte list list \<Rightarrow> byte list \<Rightarrow> byte list option" where
  "env_value env ss k = (case env_get k (if env = None then [] else ss) of
     Some v \<Rightarrow> Some v
   | None \<Rightarrow> if k = lit ''TERM'' then Some (lit ''vt100'') else None)"

lemma getenv_correct:
  assumes "\<And>es. env = Some es \<Longrightarrow> env_at m es ss" "lits_at m L" "str_at m key k" "key \<noteq> NULL" "k \<noteq> []"
  shows "\<exists>p. getenv m L env key = Some p \<and>
    (case env_value env ss k of None \<Rightarrow> p = NULL | Some v \<Rightarrow> p \<noteq> NULL \<and> str_at m p v)"
proof -
  obtain c where c: "m key = Some c" "c \<noteq> 0" using assms(3,5) by (cases k) auto
  have d: "getenv_default m L key = Some (if k = lit ''TERM'' then l_vt100 L else NULL)"
  proof -
    have "strcmp m key (l_TERM L) = Some (lex_cmp k (lit ''TERM''))"
      using assms(2) by (intro strcmp_correct[OF assms(3)]) (simp only: lits_at_def)
    then show ?thesis by (simp only: getenv_default_def Option.bind.bind_lunit lex_cmp_eq)
  qed
  show ?thesis
  proof (cases env)
    case None
    with c d assms(2,4) show ?thesis by (simp add: getenv_def env_value_def lits_at_def del: list.map)
  next
    case (Some es)
    note at = assms(1)[OF Some]
    have f: "env_find m key (length k) es = Some (env_index k ss)" by (rule env_find_correct[OF at assms(3)])
    have l: "strlen m key = Some (length k)" by (rule strlen_correct[OF assms(3,4)])
    show ?thesis
    proof (cases "env_index k ss")
      case None
      with Some c d f l assms(2,4) show ?thesis
        by (simp add: getenv_def env_value_def env_get_index lits_at_def del: list.map)
    next
      case i: (Some i)
      have si: "i < length ss" "entry_of k (ss ! i)" using env_index_Some[OF i] by auto
      then have "str_at m (es ! i) (ss ! i)" "es ! i \<noteq> NULL"
        using at by (auto simp: env_at_def list_all2_conv_all_nth)
      moreover have "length k + 1 \<le> length (ss ! i)" using si(2) by (auto simp: entry_of_iff)
      ultimately have "str_at m (es ! i + (length k + 1)) (drop (length k + 1) (ss ! i))"
        by (intro str_at_drop)
      with Some c f l i assms(4) show ?thesis
        by (simp add: getenv_def env_value_def env_get_index)
    qed
  qed
qed

section \<open>Setting a variable\<close>

lemma printed_entry:
  assumes "str_at m key k" "str_at m val v" "key \<noteq> NULL" "val \<noteq> NULL"
    and "int key \<le> ULONG_MAX" "int val \<le> ULONG_MAX" "int (length k) \<le> INT_MAX" "int (length v) \<le> INT_MAX"
  shows "printed (lit ''%s=%s'') [VWord (int key), VWord (int val)] e m
    = Some (s32 (int (length (k @ eq # v))), k @ eq # v, e, m)"
proof -
  have "vcbprintf collect (lit ''%s=%s'') [VWord (int key), VWord (int val)] (after [] e m)
      = vcbprintf collect (lit ''=%s'') [VWord (int val)] (after k e m)"
    using vcb_s[OF assms(1,3,5,7), of "lit ''=%s''" "[VWord (int val)]" "[]" e] by simp
  also have "\<dots> = vcbprintf collect (lit ''%s'') [VWord (int val)] (after (k @ [eq]) e m)"
    by (simp add: vcb_plain_after)
  also have "\<dots> = vcbprintf collect [] [] (after ((k @ [eq]) @ v) e m)"
    using vcb_s[OF assms(2,4,6,8), of "[]" "[]" "k @ [eq]" e] by simp
  finally show ?thesis by (simp add: printed_def start_after vcb_nil_after) (simp add: after_def)
qed

text \<open>Two strings that share no byte.\<close>

definition disj :: "addr \<Rightarrow> byte list \<Rightarrow> addr \<Rightarrow> byte list \<Rightarrow> bool" where
  "disj p s q t \<longleftrightarrow> p + length s < q \<or> q + length t < p"

lemma fresh_disj:
  assumes "str_at m q t" "\<And>a. p \<le> a \<Longrightarrow> a < p + Suc (length s) \<Longrightarrow> m a = None"
  shows "disj p s q t"
proof (rule ccontr)
  assume "\<not> disj p s q t"
  then have "p \<le> max p q" "max p q < p + Suc (length s)" "q \<le> max p q" "max p q < q + Suc (length t)"
    by (auto simp: disj_def)
  then show False using assms(2)[of "max p q"] mapped_get[OF str_at_mapped[OF assms(1)], of "max p q"] by auto
qed

lemma env_entry_correct:
  assumes "good_malloc malloc" "str_at m key k" "str_at m val v" "key \<noteq> NULL" "val \<noteq> NULL"
    and "int key \<le> ULONG_MAX" "int val \<le> ULONG_MAX" "int (length k) \<le> INT_MAX" "int (length v) \<le> INT_MAX"
    and "malloc (length (k @ eq # v) + 1) m = (p, m1)" "p \<noteq> NULL" "eq \<notin> set k"
  shows "\<exists>m'. env_entry malloc m e key val (length k) = Some (p, e, m') \<and>
    str_at m' p (k @ eq # v) \<and> (\<forall>a b. m a = Some b \<longrightarrow> m' a = Some b)"
proof -
  note g = good_mallocD[OF assms(1,10)]
  let ?out = "k @ eq # v"
  let ?own = "{p..<p + (length ?out + 1)} \<union> {}"
  have r: "m1 |` (- ?own) = m"
    using g(3,4)[OF assms(11)] by (intro ext) (auto simp: restrict_map_def not_le)
  obtain m' where m': "vsnprintf_lit m1 e p (length ?out + 1) (lit ''%s=%s'') [VWord (int key), VWord (int val)]
      = Some (s32 (int (length ?out)), e, m')" "m' |` (- ?own) = m" "bytes_at m' p (?out @ [0])"
    using vsnprintf_lit_correct[OF g(2)[OF assms(11)], of "lit ''%s=%s''" _ e "{}"]
      printed_entry[OF assms(2-9), of e] unfolding r by fastforce
  have "0 \<notin> set ?out" using str_at_nonzero[OF assms(2)] str_at_nonzero[OF assms(3)] by simp
  then have "str_at m' p ?out" using m'(3) by (simp add: str_at_iff)
  moreover have "m' a = Some b" if "m a = Some b" for a b
    using that m'(2) by (metis restrict_in restrict_out option.distinct(1))
  moreover have "env_entry malloc m e key val (length k) = Some (p, e, m')"
    using m'(1) assms(10,11) strlen_correct[OF assms(3,5)] by (simp add: env_entry_def)
  ultimately show ?thesis by blast
qed

text \<open>The invariant: every entry is a string, and no two entries share a byte.\<close>

definition env_inv :: "mem \<Rightarrow> addr list \<Rightarrow> byte list list \<Rightarrow> bool" where
  "env_inv m es ss \<longleftrightarrow> env_at m es ss \<and>
     (\<forall>i < length es. \<forall>j < length es. i \<noteq> j \<longrightarrow> disj (es ! i) (ss ! i) (es ! j) (ss ! j))"

text \<open>The documented behaviour of \<open>free\<close>: only the block that is freed changes.\<close>

definition good_free :: "deallocator \<Rightarrow> bool" where
  "good_free free \<longleftrightarrow> (\<forall>p m s a. str_at m p s \<longrightarrow> a < p \<or> p + length s < a \<longrightarrow> free p m a = m a)"

lemma env_inv_nth:
  "env_inv m es ss \<longleftrightarrow> length es = length ss \<and>
     (\<forall>i < length ss. es ! i \<noteq> NULL \<and> str_at m (es ! i) (ss ! i)) \<and>
     (\<forall>i < length ss. \<forall>j < length ss. i \<noteq> j \<longrightarrow> disj (es ! i) (ss ! i) (es ! j) (ss ! j))"
  by (auto simp: env_inv_def env_at_def list_all2_conv_all_nth)

lemma disj_sym: "disj p s q t \<Longrightarrow> disj q t p s"
  by (auto simp: disj_def)

lemma free_keeps:
  assumes "good_free free" "str_at m p s" "str_at m q t" "disj q t p s"
  shows "str_at (free p m) q t"
proof -
  have "free p m (q + n) = m (q + n)" if "n \<le> length t" for n
    using assms(1,2,4) that unfolding good_free_def disj_def by fastforce
  then show ?thesis using assms(3) by (subst str_at_frame) auto
qed

text \<open>A string that shares no byte with the entries.\<close>

definition apart :: "addr \<Rightarrow> byte list \<Rightarrow> addr list \<Rightarrow> byte list list \<Rightarrow> bool" where
  "apart q t es ss \<longleftrightarrow> list_all2 (\<lambda>p s. disj q t p s) es ss"

lemma env_inv_replace:
  assumes "env_inv m es ss" "i < length ss" "p \<noteq> NULL" "str_at m' p s"
    and "\<And>a b. m a = Some b \<Longrightarrow> m' a = Some b" "\<And>q t. str_at m q t \<Longrightarrow> disj p s q t" "good_free free"
  shows "env_inv (free (es ! i) m') (es[i := p]) (ss[i := s])"
proof -
  note inv = assms(1)[unfolded env_inv_nth]
  have at: "str_at m' (es ! j) (ss ! j)" "disj p s (es ! j) (ss ! j)" if "j < length ss" for j
    using inv that assms(6) str_at_sub[OF _ assms(5)] by auto
  note keep = free_keeps [OF assms(7) at(1) [OF assms(2)]]
  show ?thesis
    unfolding env_inv_nth
  proof (intro conjI allI impI)
    show "length (es[i := p]) = length (ss[i := s])" using inv by simp
    fix j assume j: "j < length (ss[i := s])"
    show "es[i := p] ! j \<noteq> NULL" using inv j assms(3) by (cases "j = i") auto
    show "str_at (free (es ! i) m') (es[i := p] ! j) (ss[i := s] ! j)"
    proof (cases "j = i")
      case True
      with keep[OF assms(4) at(2)[OF assms(2)]] j inv show ?thesis by simp
    next
      case False
      then have "disj (es ! j) (ss ! j) (es ! i) (ss ! i)" using inv j assms(2) by simp
      with keep[OF at(1)] j inv False show ?thesis by simp
    qed
    fix l assume l: "l < length (ss[i := s])" "j \<noteq> l"
    show "disj (es[i := p] ! j) (ss[i := s] ! j) (es[i := p] ! l) (ss[i := s] ! l)"
      using inv j l at(2)[of l] disj_sym[OF at(2)[of j]]
      by (cases "j = i"; cases "l = i") auto
  qed
qed

lemma env_inv_append:
  assumes "env_inv m es ss" "p \<noteq> NULL" "str_at m' p s"
    and "\<And>a b. m a = Some b \<Longrightarrow> m' a = Some b" "\<And>q t. str_at m q t \<Longrightarrow> disj p s q t"
  shows "env_inv m' (es @ [p]) (ss @ [s])"
proof -
  note inv = assms(1)[unfolded env_inv_nth]
  have at: "str_at m' (es ! j) (ss ! j)" "disj p s (es ! j) (ss ! j)" if "j < length ss" for j
    using inv that assms(5) str_at_sub[OF _ assms(4)] by auto
  have len: "length es = length ss" using inv by simp
  show ?thesis
    unfolding env_inv_nth
  proof (intro conjI allI impI)
    show "length (es @ [p]) = length (ss @ [s])" using len by simp
    fix j assume j: "j < length (ss @ [s])"
    show "(es @ [p]) ! j \<noteq> NULL" "str_at m' ((es @ [p]) ! j) ((ss @ [s]) ! j)"
      using inv at(1)[of j] assms(2,3) j by (cases "j < length ss"; simp add: nth_append len)+
    fix l assume l: "l < length (ss @ [s])" "j \<noteq> l"
    show "disj ((es @ [p]) ! j) ((ss @ [s]) ! j) ((es @ [p]) ! l) ((ss @ [s]) ! l)"
      using inv at(2)[of l] disj_sym[OF at(2)[of j]] j l
      by (cases "j < length ss"; cases "l < length ss"; simp add: nth_append len)
  qed
qed

lemma entry_of_shorter:
  assumes "entry_of k s" "entry_of k' s" "length k < length k'"
  shows "eq \<in> set k'"
proof -
  have "s ! length k = eq" "take (length k') s = k'" using assms(1,2) by (auto simp: entry_of_iff)
  then have "k' ! length k = eq" using assms(3) by (metis nth_take)
  with assms(3) show ?thesis by (metis nth_mem)
qed

lemma entry_of_other:
  assumes "eq \<notin> set k" "eq \<notin> set k'" "k \<noteq> k'" "entry_of k s"
  shows "\<not> entry_of k' s"
proof
  assume k': "entry_of k' s"
  consider "length k < length k'" | "length k' < length k" | "length k = length k'" by linarith
  then show False
  proof cases
    case 3
    then show False using assms(3,4) k' by (metis entry_of_iff)
  qed (use entry_of_shorter assms k' in blast)+
qed

lemma env_get_append:
  "env_get k' (ss @ [s]) = (case env_get k' ss of None \<Rightarrow> env_get k' [s] | Some v \<Rightarrow> Some v)"
  by (induction ss) auto

lemma env_get_replace:
  assumes "env_index k ss = Some i" "eq \<notin> set k" "eq \<notin> set k'"
  shows "env_get k' (ss[i := k @ eq # v]) = (if k' = k then Some v else env_get k' ss)"
  using assms(1)
proof (induction ss arbitrary: i)
  case Nil
  then show ?case by simp
next
  case (Cons s ss)
  have new: "entry_of k (k @ eq # v)" by (auto simp: entry_of_def)
  show ?case
  proof (cases "entry_of k s")
    case True
    then have "i = 0" using Cons.prems by simp
    with True new entry_of_other[OF assms(2,3) _ True] entry_of_other[OF assms(2,3) _ new] show ?thesis by auto
  next
    case False
    then obtain j where "env_index k ss = Some j" "i = Suc j" using Cons.prems by auto
    with Cons.IH[of j] False show ?thesis by auto
  qed
qed

lemma setenv_correct:
  assumes "good_malloc malloc" "good_free free"
    and "env_inv m es ss" "env = Some es \<or> (env = None \<and> es = [])"
    and "str_at m key k" "key \<noteq> NULL" "k \<noteq> []" "eq \<notin> set k" "str_at m val v" "val \<noteq> NULL"
    and "int key \<le> ULONG_MAX" "int val \<le> ULONG_MAX" "int (length k) \<le> INT_MAX" "int (length v) \<le> INT_MAX"
    and "\<forall>n. array_ok n" "fst (malloc (length (k @ eq # v) + 1) m) \<noteq> NULL"
  shows "\<exists>es' m' ss'. setenv malloc free array_ok m L env e key val overwrite = Some (0, Some es', e, m') \<and>
    env_inv m' es' ss' \<and>
    (if env_get k ss \<noteq> None \<and> \<not> overwrite then ss' = ss \<and> m' = m
     else \<forall>k'. eq \<notin> set k' \<longrightarrow> env_get k' ss' = (if k' = k then Some v else env_get k' ss)) \<and>
    (\<forall>q t. str_at m q t \<longrightarrow> apart q t es ss \<longrightarrow> str_at m' q t)"
proof -
  obtain c where c: "m key = Some c" "c \<noteq> 0" using assms(5,7) by (cases k) auto
  have "strchr m key (ic CHR ''='') = Some NULL"
  proof -
    have "cv z \<noteq> ic CHR ''=''" if "z \<in> set k" for z
    proof
      assume "cv z = ic CHR ''=''"
      then have "cv z = cv eq" by (simp add: cv_def)
      with that assms(8) show False by simp
    qed
    then have "ic CHR ''='' \<notin> cv ` set k" by (metis imageE)
    then show ?thesis unfolding strchr_correct[OF assms(5)] by simp
  qed
  then have guard: "(if key = NULL then Some True else do { k \<leftarrow> m key; if k = 0 then Some True
      else do { p \<leftarrow> strchr m key (ic CHR ''=''); Some (p \<noteq> NULL) } }) = Some False"
    using c assms(6) by simp
  have ens: "env_ensure array_ok env e = (0, Some es, e)"
    using assms(4,15) by (auto simp: env_ensure_def)
  have l: "strlen m key = Some (length k)" by (rule strlen_correct[OF assms(5,6)])
  have f: "env_find m key (length k) es = Some (env_index k ss)"
    using env_find_correct[OF _ assms(5)] assms(3) by (simp add: env_inv_def)
  obtain p m1 where p: "malloc (length (k @ eq # v) + 1) m = (p, m1)" "p \<noteq> NULL"
    using assms(16) by (cases "malloc (length (k @ eq # v) + 1) m") auto
  obtain m' where m': "env_entry malloc m e key val (length k) = Some (p, e, m')"
    "str_at m' p (k @ eq # v)" "\<And>a b. m a = Some b \<Longrightarrow> m' a = Some b"
    using env_entry_correct[OF assms(1,5,9,6,10-14) p assms(8)] by blast
  have dj: "disj p (k @ eq # v) q t" if "str_at m q t" for q t
    using good_mallocD(3)[OF assms(1) p(1,2)] by (intro fresh_disj[OF that]) simp
  note call = setenv_def guard Option.bind.bind_lunit if_False ens Let_def prod.case option.case l f
  show ?thesis
  proof (cases "env_index k ss")
    case None
    then have none: "env_get k ss = None" by (simp add: env_get_index)
    have "setenv malloc free array_ok m L env e key val overwrite = Some (0, Some (es @ [p]), e, m')"
      unfolding call using None m'(1) p(2) assms(10,15) by simp
    moreover have "env_inv m' (es @ [p]) (ss @ [k @ eq # v])"
      by (rule env_inv_append[OF assms(3) p(2) m'(2,3) dj])
    moreover have "env_get k' (ss @ [k @ eq # v]) = (if k' = k then Some v else env_get k' ss)"
      if "eq \<notin> set k'" for k'
      using none entry_of_other[OF assms(8) that, of "k @ eq # v"]
      by (auto simp: env_get_append entry_of_def split: option.splits)
    moreover have "str_at m' q t" if "str_at m q t" for q t by (rule str_at_sub [OF that m'(3)])
    ultimately show ?thesis using none by (intro exI [of _ "es @ [p]"] exI [of _ m'] exI [of _ "ss @ [k @ eq # v]"]) simp
  next
    case (Some i)
    then have some: "env_get k ss \<noteq> None" and i: "i < length ss"
      using env_index_Some[OF Some] by (auto simp: env_get_index)
    show ?thesis
    proof (cases overwrite)
      case False
      have "setenv malloc free array_ok m L env e key val overwrite = Some (0, Some es, e, m)"
        unfolding call using Some False by simp
      with some False assms(3) show ?thesis by auto
    next
      case True
      have "setenv malloc free array_ok m L env e key val overwrite
          = Some (0, Some (es[i := p]), e, free (es ! i) m')"
        unfolding call using Some True m'(1) p(2) assms(10) by simp
      moreover have "env_inv (free (es ! i) m') (es[i := p]) (ss[i := k @ eq # v])"
        by (rule env_inv_replace[OF assms(3) i p(2) m'(2,3) dj assms(2)])
      moreover have "str_at (free (es ! i) m') q t" if "str_at m q t" "apart q t es ss" for q t
        using assms(3) i that str_at_sub [OF _ m'(3)]
        by (intro free_keeps [OF assms(2)]) (auto simp: env_inv_nth apart_def list_all2_conv_all_nth)
      ultimately show ?thesis using env_get_replace[OF Some assms(8)] True
        by (intro exI[of _ "es[i := p]"] exI[of _ "free (es ! i) m'"] exI[of _ "ss[i := k @ eq # v]"]) simp
    qed
  qed
qed

section \<open>Properties\<close>

text \<open>The literals share no byte with the entries either.\<close>

definition lits_apart :: "env_lits \<Rightarrow> addr list \<Rightarrow> byte list list \<Rightarrow> bool" where
  "lits_apart L es ss \<longleftrightarrow> apart (l_TERM L) (lit ''TERM'') es ss \<and> apart (l_vt100 L) (lit ''vt100'') es ss \<and>
     apart (l_empty L) [] es ss"

text \<open>
  C35. After \<open>setenv(key, val, 1)\<close> succeeds \<open>getenv\<close> gives \<open>val\<close> for the key, what it gave before for
  every other key, the environment keeps its invariant, and every string apart from its entries stays; it succeeds
  whenever memory is available.
\<close>

theorem setenv_getenv:
  assumes "good_malloc malloc" "good_free free"
    and "env_inv m es ss" "env = Some es \<or> (env = None \<and> es = [])"
    and "str_at m key k" "key \<noteq> NULL" "k \<noteq> []" "eq \<notin> set k" "str_at m val v" "val \<noteq> NULL"
    and "int key \<le> ULONG_MAX" "int val \<le> ULONG_MAX" "int (length k) \<le> INT_MAX" "int (length v) \<le> INT_MAX"
    and "\<forall>n. array_ok n" "fst (malloc (length (k @ eq # v) + 1) m) \<noteq> NULL"
    and "lits_at m L" "lits_apart L es ss"
  shows "\<exists>es' m' ss'. setenv malloc free array_ok m L env e key val True = Some (0, Some es', e, m') \<and>
    env_inv m' es' ss' \<and> lits_at m' L \<and>
    (\<forall>q t. str_at m q t \<longrightarrow> apart q t es ss \<longrightarrow> str_at m' q t) \<and>
    (\<forall>q k'. str_at m' q k' \<longrightarrow> q \<noteq> NULL \<longrightarrow> k' \<noteq> [] \<longrightarrow> eq \<notin> set k' \<longrightarrow>
      (\<exists>p. getenv m' L (Some es') q = Some p \<and>
        (case if k' = k then Some v else env_value env ss k' of
           None \<Rightarrow> p = NULL | Some w \<Rightarrow> p \<noteq> NULL \<and> str_at m' p w)))"
proof -
  obtain es' m' ss' where r: "setenv malloc free array_ok m L env e key val True = Some (0, Some es', e, m')"
    "env_inv m' es' ss'"
    "\<forall>k'. eq \<notin> set k' \<longrightarrow> env_get k' ss' = (if k' = k then Some v else env_get k' ss)"
    "\<forall>q t. str_at m q t \<longrightarrow> apart q t es ss \<longrightarrow> str_at m' q t"
    using setenv_correct [where overwrite = True and L = L and e = e, OF assms(1-16)] by auto
  have "ss = []" if "env = None" using assms(3,4) that by (auto simp: env_inv_nth)
  then have val: "env_value (Some es') ss' k' = (if k' = k then Some v else env_value env ss k')"
    if "eq \<notin> set k'" for k' using r(3) that by (auto simp: env_value_def)
  have at: "env_at m' es' ss'" using r(2) by (simp add: env_inv_def)
  have lits: "lits_at m' L" using assms(17,18) r(4) unfolding lits_at_def lits_apart_def by blast
  have get: "\<exists>p. getenv m' L (Some es') q = Some p \<and>
      (case if k' = k then Some v else env_value env ss k' of
         None \<Rightarrow> p = NULL | Some w \<Rightarrow> p \<noteq> NULL \<and> str_at m' p w)"
    if "str_at m' q k'" "q \<noteq> NULL" "k' \<noteq> []" "eq \<notin> set k'" for q k'
    using getenv_correct[of "Some es'" m' ss' L q k'] at lits that(1-3) unfolding val[OF that(4)] by simp
  show ?thesis using r(1,2,4) lits get by blast
qed

theorem setenv_getenv_witness:
  "\<exists>es' m' p. setenv (bump_malloc 500) (\<lambda>p m. m) (\<lambda>n. True)
      (store (store (store (store (store (store Map.empty 100 (lit ''A=1'' @ [0])) 200 (lit ''A'' @ [0])) 300 (lit ''x'' @ [0]))
        600 (lit ''TERM'' @ [0])) 700 (lit ''vt100'' @ [0])) 800 [0])
      \<lparr>l_TERM = 600, l_vt100 = 700, l_empty = 800\<rparr> (Some [100]) 0 200 300 True = Some (0, Some es', 0, m') \<and>
    getenv m' \<lparr>l_TERM = 600, l_vt100 = 700, l_empty = 800\<rparr> (Some es') 200 = Some p \<and> p \<noteq> NULL \<and> str_at m' p (lit ''x'') \<and>
    (\<exists>t. getenv m' \<lparr>l_TERM = 600, l_vt100 = 700, l_empty = 800\<rparr> (Some es') 600 = Some t \<and> t \<noteq> NULL \<and> str_at m' t (lit ''vt100''))"
proof -
  let ?m = "store (store (store (store (store (store Map.empty 100 (lit ''A=1'' @ [0])) 200 (lit ''A'' @ [0])) 300 (lit ''x'' @ [0]))
    600 (lit ''TERM'' @ [0])) 700 (lit ''vt100'' @ [0])) 800 [0]"
  let ?L = "\<lparr>l_TERM = 600, l_vt100 = 700, l_empty = 800\<rparr>"
  have at: "str_at ?m 100 (lit ''A=1'')" "str_at ?m 200 (lit ''A'')" "str_at ?m 300 (lit ''x'')" "str_at ?m 600 (lit ''TERM'')"
    "str_at ?m 700 (lit ''vt100'')" "str_at ?m 800 []" by (simp_all add: store_apply)
  have ap: "apart 200 (lit ''A'') [100] [lit ''A=1'']" "apart 600 (lit ''TERM'') [100] [lit ''A=1'']"
    "apart 700 (lit ''vt100'') [100] [lit ''A=1'']" "apart 800 [] [100] [lit ''A=1'']" by (simp_all add: apart_def disj_def)
  have inv: "env_inv ?m [100] [lit ''A=1'']" using at(1) by (simp only: env_inv_nth) simp
  have lits: "lits_at ?m ?L" "lits_apart ?L [100] [lit ''A=1'']" unfolding lits_at_def lits_apart_def using at(4-6) ap(2-4) by simp_all
  have new: "fst (bump_malloc 500 (length (lit ''A'' @ eq # lit ''x'') + 1) ?m) \<noteq> NULL" by (simp add: bump_malloc_def)
  obtain es' m' ss' where r: "setenv (bump_malloc 500) (\<lambda>p m. m) (\<lambda>n. True) ?m ?L (Some [100]) 0 200 300 True = Some (0, Some es', 0, m')"
    "\<forall>q t. str_at ?m q t \<longrightarrow> apart q t [100] [lit ''A=1''] \<longrightarrow> str_at m' q t"
    "\<forall>q k'. str_at m' q k' \<longrightarrow> q \<noteq> NULL \<longrightarrow> k' \<noteq> [] \<longrightarrow> eq \<notin> set k' \<longrightarrow>
      (\<exists>p. getenv m' ?L (Some es') q = Some p \<and>
        (case if k' = lit ''A'' then Some (lit ''x'') else env_value (Some [100]) [lit ''A=1''] k' of
           None \<Rightarrow> p = NULL | Some w \<Rightarrow> p \<noteq> NULL \<and> str_at m' p w))"
    using setenv_getenv [OF bump_malloc_good _ inv _ at(2) _ _ _ at(3) _ _ _ _ _ _ new lits, of "\<lambda>p m. m" "Some [100]" "\<lambda>n. True" 0]
    by (auto simp: good_free_def simp del: str_at.simps store.simps)
  have g: "env_value (Some [100]) [lit ''A=1''] (lit ''TERM'') = Some (lit ''vt100'')" by (simp add: env_value_def entry_of_iff)
  have "str_at m' 200 (lit ''A'')" "str_at m' 600 (lit ''TERM'')" using r(2) at(2,4) ap(1,2) by blast+
  with r(3) [rule_format, of 200 "lit ''A''"] r(3) [rule_format, of 600 "lit ''TERM''"] g r(1) show ?thesis
    by (simp del: str_at.simps store.simps)
qed

text \<open>
  \<open>setenv\<close> rejects a null or empty key and a key with a \<open>=\<close>, with \<open>EINVAL\<close> and the environment
  and memory as they were.
\<close>

theorem setenv_rejects:
  assumes "key = NULL \<or> (str_at m key k \<and> (k = [] \<or> eq \<in> set k))"
  shows "setenv malloc free array_ok m L env e key val overwrite = Some (- 1, env, EINVAL, m)"
proof (cases "key = NULL")
  case True
  then show ?thesis by (simp add: setenv_def)
next
  case False
  then have k: "str_at m key k" "k = [] \<or> eq \<in> set k" using assms by auto
  then show ?thesis
  proof (cases "k = []")
    case True
    with k(1) False show ?thesis by (simp add: setenv_def)
  next
    case ne: False
    with k have "eq \<in> set k" by simp
    then have "ic CHR ''='' \<in> cv ` set k" by (force simp: cv_def)
    then have "\<exists>p. strchr m key (ic CHR ''='') = Some p \<and> p \<noteq> NULL"
      using strchr_correct[OF k(1), of "ic CHR ''=''"] False by simp
    moreover obtain c where "m key = Some c" "c \<noteq> 0" using k(1) ne by (cases k) auto
    ultimately show ?thesis using False by (auto simp: setenv_def)
  qed
qed

theorem setenv_rejects_witness:
  "setenv (bump_malloc 500) (\<lambda>p m. m) (\<lambda>n. True) (store (\<lambda>_. Some 0) 200 (lit ''a=b''))
    \<lparr>l_TERM = 1, l_vt100 = 1, l_empty = 1\<rparr> None 0 200 300 True
   = Some (- 1, None, EINVAL, store (\<lambda>_. Some 0) 200 (lit ''a=b''))"
  by (rule setenv_rejects[where k = "lit ''a=b''"]) simp

end
