(* ===== verification/Getopt.thy ===== *)
theory Getopt
  imports C_Token Printf
begin

text \<open>
  Option parsing of \<open>libc/src/unistd\<close>: \<open>getopt\<close>, \<open>getopt_long\<close> and \<open>getopt_long_only\<close>.  The
  variables \<open>optarg\<close>, \<open>optind\<close>, \<open>optopt\<close> and the static \<open>optpos\<close> are the state; \<open>argv\<close> is the
  list of its pointers, the closing null pointer included where there is one.
\<close>

section \<open>State\<close>

record opt_state =
  optarg :: addr
  optind :: int
  optopt :: int
  optpos :: int

definition opt_init :: opt_state where
  "opt_init = \<lparr>optarg = NULL, optind = 1, optopt = 0, optpos = 1\<rparr>"

text \<open>Reading \<open>argv\<close> and a string outside their bounds is undefined.\<close>

definition argv_at :: "addr list \<Rightarrow> int \<Rightarrow> addr option" where
  "argv_at argv i = (if 0 \<le> i \<and> i < int (length argv) then Some (argv ! nat i) else None)"

definition arg_at :: "mem \<Rightarrow> addr \<Rightarrow> int \<Rightarrow> byte option" where
  "arg_at m arg i = (if 0 \<le> i then m (arg + nat i) else None)"

section \<open>getopt\<close>

text \<open>\<open>++optpos; if(arg[optpos] == 0) { optpos = 1; ++optind; }\<close>\<close>

definition opt_advance :: "mem \<Rightarrow> addr \<Rightarrow> opt_state \<Rightarrow> opt_state option" where
  "opt_advance m arg st =
     (let st = st\<lparr>optpos := optpos st + 1\<rparr> in do {
        c \<leftarrow> arg_at m arg (optpos st);
        Some (if c = 0 then st\<lparr>optpos := 1, optind := optind st + 1\<rparr> else st)
      })"

text \<open>The test at the start of an argument: \<open>Some\<close> result when the parsing stops there.\<close>

definition opt_stop :: "mem \<Rightarrow> addr \<Rightarrow> opt_state \<Rightarrow> (int \<times> opt_state) option option" where
  "opt_stop m arg st =
     (if optpos st = 1 then do {
        a0 \<leftarrow> m arg;
        if a0 \<noteq> bc CHR ''-'' then Some (Some (- 1, st))
        else do {
          a1 \<leftarrow> m (arg + 1);
          if a1 = 0 then Some (Some (- 1, st))
          else do {
            c \<leftarrow> strcmp_lit m arg (lit ''--'');
            Some (if c = 0 then Some (- 1, st\<lparr>optind := optind st + 1\<rparr>) else None)
          }
        }
      } else Some None)"

text \<open>An option with an argument, \<open>spec[1] == ':'\<close>.\<close>

definition opt_with_arg ::
  "mem \<Rightarrow> int \<Rightarrow> addr list \<Rightarrow> addr \<Rightarrow> addr \<Rightarrow> byte \<Rightarrow> addr \<Rightarrow> opt_state \<Rightarrow> (int \<times> opt_state) option" where
  "opt_with_arg m argc argv optstring arg opt spec st = do {
     s2 \<leftarrow> m (spec + 2);
     next \<leftarrow> arg_at m arg (optpos st + 1);
     let inline = st\<lparr>optarg := arg + nat (optpos st + 1), optind := optind st + 1, optpos := 1\<rparr>;
     if s2 = bc CHR '':'' then
       (if next \<noteq> 0 then Some (cv opt, inline)
        else do { st \<leftarrow> opt_advance m arg (st\<lparr>optarg := NULL\<rparr>); Some (cv opt, st) })
     else if next \<noteq> 0 then Some (cv opt, inline)
     else if optind st + 1 < argc then do {
       a \<leftarrow> argv_at argv (optind st + 1);
       Some (cv opt, st\<lparr>optarg := a, optind := optind st + 2, optpos := 1\<rparr>)
     }
     else do {
       o0 \<leftarrow> m optstring;
       Some (if o0 = bc CHR '':'' then ic CHR '':'' else ic CHR ''?'',
             st\<lparr>optopt := cv opt, optpos := 1, optind := optind st + 1\<rparr>)
     }
   }"

definition getopt :: "mem \<Rightarrow> int \<Rightarrow> addr list \<Rightarrow> addr \<Rightarrow> opt_state \<Rightarrow> (int \<times> opt_state) option" where
  "getopt m argc argv optstring st =
     (if optind st \<ge> argc then Some (- 1, st)
      else do {
        arg \<leftarrow> argv_at argv (optind st);
        if arg = NULL then Some (- 1, st)
        else do {
          stop \<leftarrow> opt_stop m arg st;
          case stop of
            Some r \<Rightarrow> Some r
          | None \<Rightarrow> do {
              opt \<leftarrow> arg_at m arg (optpos st);
              spec \<leftarrow> strchr m optstring (cv opt);
              if spec = NULL then do {
                st \<leftarrow> opt_advance m arg (st\<lparr>optopt := cv opt\<rparr>);
                Some (ic CHR ''?'', st)
              }
              else do {
                s1 \<leftarrow> m (spec + 1);
                if s1 = bc CHR '':'' then opt_with_arg m argc argv optstring arg opt spec st
                else do {
                  st \<leftarrow> opt_advance m arg (st\<lparr>optarg := NULL\<rparr>);
                  Some (cv opt, st)
                }
              }
            }
        }
      })"

section \<open>getopt_long\<close>

text \<open>\<open>struct option\<close>; a null \<open>flag\<close> is \<open>NULL\<close>.\<close>

record long_option =
  lo_name :: addr
  has_arg :: int
  lo_flag :: addr
  lo_val :: int

abbreviation (input) no_argument :: int where "no_argument \<equiv> 0"
abbreviation (input) required_argument :: int where "required_argument \<equiv> 1"
abbreviation (input) optional_argument :: int where "optional_argument \<equiv> 2"

text \<open>The loop over \<open>longopts\<close> up to its null name: the index of the first match.\<close>

fun long_find :: "mem \<Rightarrow> addr \<Rightarrow> nat \<Rightarrow> long_option list \<Rightarrow> nat option option" where
  "long_find m name name_len [] = Some None"
| "long_find m name name_len (lo # los) =
     (if lo_name lo = NULL then Some None
      else do {
        n \<leftarrow> strlen m (lo_name lo);
        b \<leftarrow> (if n = name_len then do { c \<leftarrow> strncmp m (lo_name lo) name name_len; Some (c = 0) }
             else Some False);
        if b then Some (Some 0)
        else do { r \<leftarrow> long_find m name name_len los; Some (map_option Suc r) }
      })"

text \<open>
  The result of a call: the value, the state, what is stored through \<open>longindex\<close>, the memory.
\<close>

type_synonym long_result = "int \<times> opt_state \<times> nat option \<times> mem"

definition long_matched ::
  "mem \<Rightarrow> int \<Rightarrow> addr list \<Rightarrow> addr \<Rightarrow> long_option \<Rightarrow> nat \<Rightarrow> addr \<Rightarrow> opt_state \<Rightarrow> long_result option" where
  "long_matched m argc argv optstring opt match_index name_end st =
     (let next = optind st + 1; st = st\<lparr>optarg := NULL\<rparr> in do {
        (missing, next, st) \<leftarrow>
          (if has_arg opt = required_argument then
             (if name_end \<noteq> NULL then Some (False, next, st\<lparr>optarg := name_end + 1\<rparr>)
              else if next < argc then do {
                a \<leftarrow> argv_at argv next;
                Some (False, next + 1, st\<lparr>optarg := a\<rparr>)
              }
              else Some (True, next, st))
           else if has_arg opt = optional_argument then
             Some (False, next, if name_end \<noteq> NULL then st\<lparr>optarg := name_end + 1\<rparr> else st)
           else Some (False, next, st));
        if missing then do {
          colon \<leftarrow> (if optstring = NULL then Some False
                   else do { o0 \<leftarrow> m optstring; Some (o0 = bc CHR '':'') });
          Some (if colon then ic CHR '':'' else ic CHR ''?'',
                st\<lparr>optopt := lo_val opt, optind := next\<rparr>, Some match_index, m)
        }
        else let st = st\<lparr>optind := next\<rparr> in
          if lo_flag opt \<noteq> NULL then do {
            m \<leftarrow> wr_n m (lo_flag opt) (int_bytes (lo_val opt));
            Some (0, st, Some match_index, m)
          }
          else Some (lo_val opt, st, Some match_index, m)
      })"

definition getopt_long_internal ::
  "mem \<Rightarrow> int \<Rightarrow> addr list \<Rightarrow> addr \<Rightarrow> long_option list \<Rightarrow> bool \<Rightarrow> opt_state \<Rightarrow> long_result option" where
  "getopt_long_internal m argc argv optstring longopts long_only st =
     (let short = (do { (r, st) \<leftarrow> getopt m argc argv optstring st; Some (r, st, None, m) }) in
      if optind st \<ge> argc then Some (- 1, st, None, m)
      else do {
        arg \<leftarrow> argv_at argv (optind st);
        if arg = NULL then Some (- 1, st, None, m)
        else do {
          a0 \<leftarrow> m arg;
          if a0 \<noteq> bc CHR ''-'' then Some (- 1, st, None, m)
          else do {
            a1 \<leftarrow> m (arg + 1);
            if a1 = 0 then Some (- 1, st, None, m)
            else do {
              c \<leftarrow> strcmp_lit m arg (lit ''--'');
              if c = 0 then Some (- 1, st\<lparr>optind := optind st + 1\<rparr>, None, m)
              else do {
                single \<leftarrow> (if long_only \<and> a1 \<noteq> bc CHR ''-'' then do {
                    a2 \<leftarrow> m (arg + 2);
                    if a2 = 0 \<and> optstring \<noteq> NULL then do {
                      p \<leftarrow> strchr m optstring (cv a1);
                      Some (p \<noteq> NULL)
                    } else Some False
                  } else Some False);
                if single then short
                else if a1 = bc CHR ''-'' \<or> long_only then do {
                  let name = (if a1 = bc CHR ''-'' then arg + 2 else arg + 1);
                  n0 \<leftarrow> m name;
                  if n0 = 0 then short
                  else do {
                    name_end \<leftarrow> strchr m name (ic CHR ''='');
                    name_len \<leftarrow> (if name_end \<noteq> NULL then Some (name_end - name) else strlen m name);
                    found \<leftarrow> long_find m name name_len longopts;
                    case found of
                      Some i \<Rightarrow> long_matched m argc argv optstring (longopts ! i) i name_end st
                    | None \<Rightarrow>
                        if a1 = bc CHR ''-'' then
                          Some (ic CHR ''?'', st\<lparr>optopt := 0, optind := optind st + 1\<rparr>, None, m)
                        else short
                  }
                }
                else short
              }
            }
          }
        }
      })"

definition getopt_long ::
  "mem \<Rightarrow> int \<Rightarrow> addr list \<Rightarrow> addr \<Rightarrow> long_option list \<Rightarrow> opt_state \<Rightarrow> long_result option" where
  "getopt_long m argc argv optstring longopts st =
     getopt_long_internal m argc argv optstring longopts False st"

definition getopt_long_only ::
  "mem \<Rightarrow> int \<Rightarrow> addr list \<Rightarrow> addr \<Rightarrow> long_option list \<Rightarrow> opt_state \<Rightarrow> long_result option" where
  "getopt_long_only m argc argv optstring longopts st =
     getopt_long_internal m argc argv optstring longopts True st"

section \<open>Progress of getopt\<close>

text \<open>The argument strings, and the positions between calls.\<close>

definition args_at :: "mem \<Rightarrow> addr list \<Rightarrow> byte list list \<Rightarrow> bool" where
  "args_at m argv ss \<longleftrightarrow> length ss \<le> length argv \<and>
     (\<forall>i < length ss. argv ! i \<noteq> NULL \<and> str_at m (argv ! i) (ss ! i))"

definition opt_inv :: "byte list list \<Rightarrow> opt_state \<Rightarrow> bool" where
  "opt_inv ss st \<longleftrightarrow> 0 \<le> optind st \<and> 1 \<le> optpos st \<and>
     (optpos st = 1 \<or> (optind st < int (length ss) \<and> optpos st < int (length (ss ! nat (optind st)))))"

text \<open>The number of characters in front of the parser, which bounds the number of calls.\<close>

definition opt_left :: "byte list list \<Rightarrow> opt_state \<Rightarrow> int" where
  "opt_left ss st = (\<Sum>s \<leftarrow> drop (nat (optind st)) ss. int (length s) + 1) + 1 - optpos st"

lemma opt_left_next:
  "0 \<le> optind st \<Longrightarrow> optind st < int (length ss) \<Longrightarrow>
   opt_left ss (st\<lparr>optind := optind st + 1, optpos := 1\<rparr>)
     = opt_left ss st - int (length (ss ! nat (optind st))) - 2 + optpos st"
proof -
  assume i: "0 \<le> optind st" "optind st < int (length ss)"
  then have "drop (nat (optind st)) ss = ss ! nat (optind st) # drop (nat (optind st + 1)) ss"
    by (simp add: Cons_nth_drop_Suc nat_add_distrib)
  then show ?thesis by (simp add: opt_left_def)
qed

lemma opt_left_nonneg: "opt_inv ss st \<Longrightarrow> 0 \<le> opt_left ss st"
proof (cases "optpos st = 1")
  case True
  have "0 \<le> (\<Sum>s \<leftarrow> drop (nat (optind st)) ss. int (length s) + 1)"
    by (rule sum_list_nonneg) auto
  with True show ?thesis by (simp add: opt_left_def)
next
  case False
  assume inv: "opt_inv ss st"
  then have i: "0 \<le> optind st" "optind st < int (length ss)"
    "optpos st < int (length (ss ! nat (optind st)))" using False by (auto simp: opt_inv_def)
  have "0 \<le> opt_left ss (st\<lparr>optind := optind st + 1, optpos := 1\<rparr>)"
    unfolding opt_left_def by (auto intro!: sum_list_nonneg)
  with opt_left_next[OF i(1,2)] i(3) show ?thesis by simp
qed

lemma opt_left_update [simp]:
  "opt_left ss (st\<lparr>optarg := a\<rparr>) = opt_left ss st" "opt_left ss (st\<lparr>optopt := b\<rparr>) = opt_left ss st"
  by (simp_all add: opt_left_def)

lemma opt_left_skip: "opt_left ss (st\<lparr>optind := optind st + 2, optpos := 1\<rparr>)
    \<le> opt_left ss (st\<lparr>optind := optind st + 1, optpos := 1\<rparr>)" if "0 \<le> optind st"
proof -
  have "drop (nat (optind st + 2)) ss = drop 1 (drop (nat (optind st + 1)) ss)"
    using that by (simp add: nat_add_distrib)
  moreover have "(\<Sum>s \<leftarrow> drop 1 xs. int (length s) + 1) \<le> (\<Sum>s \<leftarrow> xs. int (length s) + 1)" for xs :: "byte list list"
    by (cases xs) auto
  ultimately show ?thesis unfolding opt_left_def
    by (simp del: drop_drop)
qed

lemma opt_advance_correct:
  assumes "str_at m arg s" "1 \<le> optpos st" "optpos st < int (length s)"
  shows "opt_advance m arg st = Some (if optpos st + 1 < int (length s) then st\<lparr>optpos := optpos st + 1\<rparr>
      else st\<lparr>optpos := 1, optind := optind st + 1\<rparr>)"
proof -
  have n: "nat (optpos st + 1) \<le> length s" "0 \<le> optpos st + 1" using assms(2,3) by auto
  show ?thesis
  proof (cases "optpos st + 1 < int (length s)")
    case True
    with n str_at_nth(1)[OF assms(1), of "nat (optpos st + 1)"] show ?thesis
      by (simp add: opt_advance_def arg_at_def)
  next
    case False
    then have "nat (optpos st + 1) = length s" using n by simp
    with n False str_at_nth(2)[OF assms(1)] show ?thesis
      by (simp add: opt_advance_def arg_at_def)
  qed
qed

lemma opt_stop_correct:
  assumes "str_at m arg s"
  shows "opt_stop m arg st = Some (if optpos st \<noteq> 1 then None
    else if s = [] \<or> hd s \<noteq> bc CHR ''-'' \<or> tl s = [] then Some (- 1, st)
    else if s = lit ''--'' then Some (- 1, st\<lparr>optind := optind st + 1\<rparr>) else None)"
proof (cases "optpos st = 1")
  case True
  have "strcmp_lit m arg (lit ''--'') = Some (lex_cmp s (lit ''--''))"
    by (rule strcmp_lit_correct[OF assms]) simp
  then have cmp: "strcmp_lit m arg (lit ''--'') = Some c \<Longrightarrow> (c = 0) = (s = lit ''--'')" for c
    using lex_cmp_eq by (metis option.inject)
  obtain c where c: "strcmp_lit m arg (lit ''--'') = Some c" "(c = 0) = (s = lit ''--'')"
    using cmp \<open>strcmp_lit m arg (lit ''--'') = Some (lex_cmp s (lit ''--''))\<close> by blast
  consider "s = []" | x where "s = [x]" | x y zs where "s = x # y # zs" by (cases s; cases "tl s") auto
  then show ?thesis
  proof cases
    case 3
    then have "m arg = Some x" "m (arg + 1) = Some y" "y \<noteq> 0" using assms by auto
    with True 3 c show ?thesis
      unfolding opt_stop_def c(1) by simp
  qed (use True assms in \<open>auto simp: opt_stop_def\<close>)
qed (simp add: opt_stop_def)

text \<open>The specification of an option in \<open>optstring\<close>: what follows its first occurrence.\<close>

definition opt_spec_at :: "byte list \<Rightarrow> byte \<Rightarrow> byte list" where
  "opt_spec_at os c = dropWhile (\<lambda>x. x \<noteq> c) os"

lemma opt_spec_at_Cons: "c \<in> set os \<Longrightarrow> \<exists>sp. opt_spec_at os c = c # sp"
  unfolding opt_spec_at_def by (induction os) auto

lemma strchr_spec:
  assumes "str_at m p os" "p \<noteq> NULL"
  shows "\<exists>q. strchr m p (cv c) = Some q \<and> (if c \<in> set os then q \<noteq> NULL \<and> str_at m q (opt_spec_at os c) else q = NULL)"
proof (cases "c \<in> set os")
  case False
  then show ?thesis using strchr_correct[OF assms(1), of "cv c"] by auto
next
  case True
  have "strchr m p (cv c) = Some (p + length (takeWhile (\<lambda>x. x \<noteq> c) os))"
    using strchr_correct[OF assms(1), of "cv c"] True by auto
  moreover have "str_at m (p + length (takeWhile (\<lambda>x. x \<noteq> c) os)) (opt_spec_at os c)"
    unfolding opt_spec_at_def using str_at_drop[OF assms(1), of "length (takeWhile (\<lambda>x. x \<noteq> c) os)"]
    by (simp add: length_takeWhile_le dropWhile_eq_drop)
  ultimately show ?thesis using True assms(2) by auto
qed

text \<open>An advance keeps the invariant and consumes a character.\<close>

lemma opt_advance_progress:
  assumes "str_at m arg s" "opt_inv ss st" "optind st < int (length ss)" "ss ! nat (optind st) = s"
    and "optpos st < int (length s)"
  shows "\<exists>st'. opt_advance m arg st = Some st' \<and> opt_inv ss st' \<and> opt_left ss st' < opt_left ss st"
proof -
  have p: "1 \<le> optpos st" "0 \<le> optind st" using assms(2) by (auto simp: opt_inv_def)
  show ?thesis
  proof (cases "optpos st + 1 < int (length s)")
    case True
    with p assms show ?thesis
      by (auto simp: opt_advance_correct[OF assms(1) p(1) assms(5)] opt_inv_def opt_left_def)
  next
    case False
    let ?st = "st\<lparr>optpos := 1, optind := optind st + 1\<rparr>"
    have eq: "?st = st\<lparr>optind := optind st + 1, optpos := 1\<rparr>" by simp
    have "opt_left ss ?st < opt_left ss st"
      unfolding eq using opt_left_next[OF p(2) assms(3)] assms(4,5) by simp
    moreover have "opt_inv ss ?st" using p by (simp add: opt_inv_def)
    ultimately show ?thesis using False by (auto simp: opt_advance_correct[OF assms(1) p(1) assms(5)])
  qed
qed

lemma opt_with_arg_progress:
  assumes "args_at m argv ss" "opt_inv ss st" "optind st < int (length ss)"
    and "optpos st < int (length (ss ! nat (optind st)))" "arg = argv ! nat (optind st)"
    and "str_at m spec (c # bc CHR '':'' # sp)" "str_at m optstring os"
  shows "\<exists>r st'. opt_with_arg m (int (length ss)) argv optstring arg c spec st = Some (r, st') \<and>
    opt_inv ss st' \<and> opt_left ss st' < opt_left ss st"
proof -
  let ?s = "ss ! nat (optind st)"
  have p: "1 \<le> optpos st" "0 \<le> optind st" "nat (optind st) < length ss"
    using assms(2,3) by (auto simp: opt_inv_def)
  have at: "str_at m arg ?s" using assms(1,5) p(3) by (auto simp: args_at_def)
  obtain s2 where s2: "m (spec + 2) = Some s2" using assms(6) by (cases sp) auto
  have n: "nat (optpos st + 1) \<le> length ?s" using assms(4) p(1) by simp
  then obtain x where x: "arg_at m arg (optpos st + 1) = Some x"
    using mapped_get[OF str_at_mapped[OF at], of "arg + nat (optpos st + 1)"] p(1) by (auto simp: arg_at_def)
  obtain o0 where o0: "m optstring = Some o0" using assms(7) by (cases os) auto
  let ?next = "st\<lparr>optind := optind st + 1, optpos := 1\<rparr>"
  have left: "opt_left ss ?next < opt_left ss st" using opt_left_next[OF p(2) assms(3)] assms(4) by simp
  have inv: "opt_inv ss ?next" using p by (simp add: opt_inv_def)
  have inline: "opt_inv ss (st\<lparr>optarg := a, optind := optind st + 1, optpos := 1\<rparr>) \<and>
      opt_left ss (st\<lparr>optarg := a, optind := optind st + 1, optpos := 1\<rparr>) < opt_left ss st" for a
    using left inv by (simp add: opt_inv_def opt_left_def)
  have adv: "\<exists>st'. opt_advance m arg (st\<lparr>optarg := NULL\<rparr>) = Some st' \<and> opt_inv ss st' \<and> opt_left ss st' < opt_left ss st"
    using opt_advance_progress[OF at, of ss "st\<lparr>optarg := NULL\<rparr>"] assms(2-4) by (simp add: opt_inv_def)
  have two: "opt_inv ss (st\<lparr>optarg := a, optind := optind st + 2, optpos := 1\<rparr>) \<and>
      opt_left ss (st\<lparr>optarg := a, optind := optind st + 2, optpos := 1\<rparr>) < opt_left ss st" for a
    using opt_left_skip[OF p(2), of ss] left p by (simp add: opt_inv_def opt_left_def)
  have one: "opt_inv ss (st\<lparr>optopt := b, optpos := 1, optind := optind st + 1\<rparr>) \<and>
      opt_left ss (st\<lparr>optopt := b, optpos := 1, optind := optind st + 1\<rparr>) < opt_left ss st" for b
    using left inv by (simp add: opt_inv_def opt_left_def)
  have av: "\<exists>a. argv_at argv (optind st + 1) = Some a" if "optind st + 1 < int (length ss)"
    using that p assms(1) by (auto simp: argv_at_def args_at_def)
  show ?thesis
    unfolding opt_with_arg_def s2 x Option.bind.bind_lunit Let_def
    using inline adv two one av o0 by (cases "s2 = bc CHR '':''"; cases "x = 0") auto
qed

lemma getopt_progress:
  assumes "args_at m argv ss" "opt_inv ss st" "str_at m optstring os" "optstring \<noteq> NULL"
  shows "\<exists>r st'. getopt m (int (length ss)) argv optstring st = Some (r, st') \<and> opt_inv ss st' \<and>
    (r = - 1 \<or> opt_left ss st' < opt_left ss st)"
proof (cases "optind st < int (length ss)")
  case False
  with assms(2) show ?thesis by (simp add: getopt_def)
next
  case True
  let ?s = "ss ! nat (optind st)" and ?arg = "argv ! nat (optind st)"
  have p: "1 \<le> optpos st" "0 \<le> optind st" "nat (optind st) < length ss"
    using assms(2) True by (auto simp: opt_inv_def)
  have at: "str_at m ?arg ?s" "?arg \<noteq> NULL" using assms(1) p(3) by (auto simp: args_at_def)
  have av: "argv_at argv (optind st) = Some ?arg" using p assms(1) by (auto simp: argv_at_def args_at_def)
  show ?thesis
  proof (cases "opt_stop m ?arg st = Some None")
    case False
    have "opt_inv ss (st\<lparr>optind := optind st + 1\<rparr>)" if "optpos st = 1" using that p by (simp add: opt_inv_def)
    with False True av at assms(2) show ?thesis
      by (auto simp: getopt_def opt_stop_correct[OF at(1)] split: if_splits)
  next
    case stop: True
    have pos: "optpos st < int (length ?s)"
    proof (cases "optpos st = 1")
      case True
      with stop show ?thesis
        by (cases ?s; cases "tl ?s") (auto simp: opt_stop_correct[OF at(1)] split: if_splits)
    qed (use assms(2) in \<open>auto simp: opt_inv_def\<close>)
    define c where "c = ?s ! nat (optpos st)"
    have c: "arg_at m ?arg (optpos st) = Some c"
      using str_at_nth(1)[OF at(1), of "nat (optpos st)"] pos p by (simp add: arg_at_def c_def)
    obtain q where q: "strchr m optstring (cv c) = Some q"
      "if c \<in> set os then q \<noteq> NULL \<and> str_at m q (opt_spec_at os c) else q = NULL"
      using strchr_spec[OF assms(3,4)] by blast
    have adv: "\<exists>st'. opt_advance m ?arg (st\<lparr>optopt := b\<rparr>) = Some st' \<and> opt_inv ss st' \<and> opt_left ss st' < opt_left ss st"
      "\<exists>st'. opt_advance m ?arg (st\<lparr>optarg := a\<rparr>) = Some st' \<and> opt_inv ss st' \<and> opt_left ss st' < opt_left ss st" for a b
      using opt_advance_progress[OF at(1), of ss "st\<lparr>optopt := b\<rparr>"]
        opt_advance_progress[OF at(1), of ss "st\<lparr>optarg := a\<rparr>"] assms(2) True pos by (simp_all add: opt_inv_def)
    note call = getopt_def av stop c q(1) Option.bind.bind_lunit
    show ?thesis
    proof (cases "c \<in> set os")
      case False
      then have "q = NULL" using q(2) by simp
      moreover obtain st' where "opt_advance m ?arg (st\<lparr>optopt := cv c\<rparr>) = Some st'" "opt_inv ss st'"
        "opt_left ss st' < opt_left ss st" using adv(1) by blast
      ultimately show ?thesis using True at(2) by (simp add: call)
    next
      case oc: True
      then have qs: "q \<noteq> NULL" "str_at m q (opt_spec_at os c)" using q(2) by auto
      obtain sp where sp: "opt_spec_at os c = c # sp"
        using opt_spec_at_Cons[OF oc] by blast
      obtain s1 where s1: "m (q + 1) = Some s1" using qs(2) sp by (cases sp) auto
      show ?thesis
      proof (cases "s1 = bc CHR '':''")
        case False
        moreover obtain st' where "opt_advance m ?arg (st\<lparr>optarg := NULL\<rparr>) = Some st'" "opt_inv ss st'"
          "opt_left ss st' < opt_left ss st" using adv(2) by blast
        ultimately show ?thesis using True at(2) qs(1) s1 by (simp add: call)
      next
        case colon: True
        then obtain sp' where "sp = bc CHR '':'' # sp'" using qs(2) sp s1 by (cases sp) auto
        then have "str_at m q (c # bc CHR '':'' # sp')" using qs(2) sp by simp
        then obtain r st' where
          "opt_with_arg m (int (length ss)) argv optstring ?arg c q st = Some (r, st')"
          "opt_inv ss st'" "opt_left ss st' < opt_left ss st"
          using opt_with_arg_progress[OF assms(1,2) True pos refl _ assms(3)] by blast
        then show ?thesis using True at(2) qs(1) s1 colon by (simp add: call)
      qed
    qed
  qed
qed

section \<open>What the calls return\<close>

text \<open>The client's loop, with a bound on the calls; an entry is the result and \<open>optarg\<close>.\<close>

fun getopt_all ::
  "nat \<Rightarrow> mem \<Rightarrow> int \<Rightarrow> addr list \<Rightarrow> addr \<Rightarrow> opt_state \<Rightarrow> ((int \<times> addr) list \<times> opt_state) option" where
  "getopt_all 0 m argc argv optstring st = None"
| "getopt_all (Suc n) m argc argv optstring st = do {
     (r, st) \<leftarrow> getopt m argc argv optstring st;
     if r = - 1 then Some ([], st)
     else do {
       (rs, st') \<leftarrow> getopt_all n m argc argv optstring st;
       Some ((r, optarg st) # rs, st')
     }
   }"

lemma getopt_all_ends:
  assumes "args_at m argv ss" "str_at m optstring os" "optstring \<noteq> NULL"
  shows "opt_inv ss st \<Longrightarrow> opt_left ss st < int n \<Longrightarrow>
    \<exists>rs st'. getopt_all n m (int (length ss)) argv optstring st = Some (rs, st') \<and>
      int (length rs) \<le> opt_left ss st \<and> opt_inv ss st'"
proof (induction n arbitrary: st)
  case 0
  then show ?case using opt_left_nonneg[of ss st] by simp
next
  case (Suc n)
  obtain r st1 where r: "getopt m (int (length ss)) argv optstring st = Some (r, st1)" "opt_inv ss st1"
    "r = - 1 \<or> opt_left ss st1 < opt_left ss st"
    using getopt_progress[OF assms(1) Suc.prems(1) assms(2,3)] by blast
  show ?case
  proof (cases "r = - 1")
    case True
    with r opt_left_nonneg[OF Suc.prems(1)] show ?thesis by simp
  next
    case False
    with r Suc.prems obtain rs st' where
      "getopt_all n m (int (length ss)) argv optstring st1 = Some (rs, st')"
      "int (length rs) \<le> opt_left ss st1" "opt_inv ss st'" using Suc.IH[of st1] by auto
    with r False show ?thesis by auto
  qed
qed

text \<open>Reaching the option character in an argument.\<close>

lemma getopt_reads:
  assumes "args_at m argv ss" "i < length ss" "optind st = int i" "str_at m optstring os" "optstring \<noteq> NULL"
    and "ss ! i = pre @ c # rest" "optpos st = int (length pre)" "pre \<noteq> []"
    and "length pre = 1 \<Longrightarrow> pre = lit ''-'' \<and> (c # rest) \<noteq> lit ''-''"
    and "c \<in> set os"
  shows "\<exists>q sp. opt_spec_at os c = c # sp \<and> str_at m q (c # sp) \<and>
    getopt m (int (length ss)) argv optstring st =
      (if sp \<noteq> [] \<and> hd sp = bc CHR '':'' then
         opt_with_arg m (int (length ss)) argv optstring (argv ! i) c q st
       else do { st \<leftarrow> opt_advance m (argv ! i) (st\<lparr>optarg := NULL\<rparr>); Some (cv c, st) })"
proof -
  let ?arg = "argv ! i"
  have at: "str_at m ?arg (ss ! i)" "?arg \<noteq> NULL" using assms(1,2) by (auto simp: args_at_def)
  have av: "argv_at argv (optind st) = Some ?arg"
    using assms(1-3) by (auto simp: argv_at_def args_at_def)
  have stop: "opt_stop m ?arg st = Some None"
  proof (cases "length pre = 1")
    case True
    with assms(9) have "ss ! i = bc CHR ''-'' # c # rest" "ss ! i \<noteq> lit ''--''" using assms(6) by auto
    then show ?thesis using opt_stop_correct[OF at(1), of st] by auto
  next
    case False
    then have "optpos st \<noteq> 1" using assms(7) by simp
    then show ?thesis using opt_stop_correct[OF at(1), of st] by simp
  qed
  have c: "arg_at m ?arg (optpos st) = Some c"
    using str_at_nth(1)[OF at(1), of "length pre"] assms(6,7) by (simp add: arg_at_def nth_append)
  obtain q where q: "strchr m optstring (cv c) = Some q" "q \<noteq> NULL" "str_at m q (opt_spec_at os c)"
    using strchr_spec[OF assms(4,5), of c] assms(10) by auto
  obtain sp where sp: "opt_spec_at os c = c # sp" using opt_spec_at_Cons[OF assms(10)] by blast
  have s1: "m (q + 1) = Some (if sp \<noteq> [] then hd sp else 0)" using q(3) sp by (cases sp) auto
  have "getopt m (int (length ss)) argv optstring st =
      (if sp \<noteq> [] \<and> hd sp = bc CHR '':'' then
         opt_with_arg m (int (length ss)) argv optstring ?arg c q st
       else do { st \<leftarrow> opt_advance m ?arg (st\<lparr>optarg := NULL\<rparr>); Some (cv c, st) })"
    using assms(2,3) at(2) av stop c q(1,2) s1 by (simp add: getopt_def)
  with q(3) sp show ?thesis by auto
qed

text \<open>An option without an argument: in \<open>optstring\<close>, not followed by a colon.\<close>

definition flag_opt :: "byte list \<Rightarrow> byte \<Rightarrow> bool" where
  "flag_opt os c \<longleftrightarrow> c \<in> set os \<and> (tl (opt_spec_at os c) = [] \<or> hd (tl (opt_spec_at os c)) \<noteq> bc CHR '':'')"

fun getopt_n :: "nat \<Rightarrow> mem \<Rightarrow> int \<Rightarrow> addr list \<Rightarrow> addr \<Rightarrow> opt_state \<Rightarrow> (int list \<times> opt_state) option" where
  "getopt_n 0 m argc argv optstring st = Some ([], st)"
| "getopt_n (Suc n) m argc argv optstring st = do {
     (r, st) \<leftarrow> getopt m argc argv optstring st;
     (rs, st) \<leftarrow> getopt_n n m argc argv optstring st;
     Some (r # rs, st)
   }"

lemma getopt_cluster_at:
  assumes "args_at m argv ss" "i < length ss" "str_at m optstring os" "optstring \<noteq> NULL"
  shows "ss ! i = pre @ cs \<Longrightarrow> cs \<noteq> [] \<Longrightarrow> pre \<noteq> [] \<Longrightarrow> \<forall>c \<in> set cs. flag_opt os c \<Longrightarrow>
    (length pre = 1 \<Longrightarrow> pre = lit ''-'' \<and> cs \<noteq> lit ''-'') \<Longrightarrow>
    optind st = int i \<Longrightarrow> optpos st = int (length pre) \<Longrightarrow>
    \<exists>st'. getopt_n (length cs) m (int (length ss)) argv optstring st = Some (map cv cs, st') \<and>
      optind st' = int i + 1 \<and> optpos st' = 1"
proof (induction cs arbitrary: pre st)
  case Nil
  then show ?case by simp
next
  case (Cons c cs)
  have at: "str_at m (argv ! i) (ss ! i)" using assms(1,2) by (auto simp: args_at_def)
  have "c \<in> set os" using Cons.prems(4) by (simp add: flag_opt_def)
  from getopt_reads[OF assms(1,2) Cons.prems(6) assms(3,4) Cons.prems(1,7,3,5) this]
  have g: "getopt m (int (length ss)) argv optstring st
      = do { st \<leftarrow> opt_advance m (argv ! i) (st\<lparr>optarg := NULL\<rparr>); Some (cv c, st) }"
    using Cons.prems(4) by (auto simp: flag_opt_def)
  have p: "1 \<le> optpos (st\<lparr>optarg := NULL\<rparr>)" "optpos (st\<lparr>optarg := NULL\<rparr>) < int (length (ss ! i))"
    using Cons.prems(1,3,7) by (cases pre; simp)+
  note adv = opt_advance_correct[OF at p]
  show ?case
  proof (cases "cs = []")
    case True
    with g adv Cons.prems(1,6,7) show ?thesis by simp
  next
    case False
    let ?st = "st\<lparr>optarg := NULL, optpos := optpos st + 1\<rparr>"
    have "\<exists>st'. getopt_n (length cs) m (int (length ss)) argv optstring ?st = Some (map cv cs, st') \<and>
        optind st' = int i + 1 \<and> optpos st' = 1"
      using Cons.prems False by (intro Cons.IH[of "pre @ [c]"]) auto
    then obtain st' where st': "getopt_n (length cs) m (int (length ss)) argv optstring ?st = Some (map cv cs, st')"
      "optind st' = int i + 1" "optpos st' = 1" by blast
    have "opt_advance m (argv ! i) (st\<lparr>optarg := NULL\<rparr>) = Some ?st"
      using adv Cons.prems(1,7) False by simp
    with g st' show ?thesis by simp
  qed
qed

lemma getopt_required_arg:
  assumes "args_at m argv ss" "i < length ss" "optind st = int i" "optpos st = 1"
    and "str_at m optstring os" "optstring \<noteq> NULL"
    and "ss ! i = bc CHR ''-'' # c # v" "c \<noteq> bc CHR ''-''" "c \<in> set os"
    and "opt_spec_at os c = c # bc CHR '':'' # sp" "sp = [] \<or> hd sp \<noteq> bc CHR '':''"
    and "v \<noteq> [] \<or> i + 1 < length ss"
  shows "\<exists>a. getopt m (int (length ss)) argv optstring st = Some (cv c,
      st\<lparr>optarg := a, optind := (if v \<noteq> [] then int i + 1 else int i + 2), optpos := 1\<rparr>) \<and>
    str_at m a (if v \<noteq> [] then v else ss ! (i + 1))"
proof -
  have at: "str_at m (argv ! i) (ss ! i)" using assms(1,2) by (auto simp: args_at_def)
  have 1: "ss ! i = lit ''-'' @ c # v" "optpos st = int (length (lit ''-''))" using assms(4,7) by auto
  have 2: "length (lit ''-'') = 1 \<Longrightarrow> lit ''-'' = lit ''-'' \<and> c # v \<noteq> lit ''-''" using assms(8) by simp
  obtain q where q: "str_at m q (c # bc CHR '':'' # sp)"
    "getopt m (int (length ss)) argv optstring st =
       opt_with_arg m (int (length ss)) argv optstring (argv ! i) c q st"
    using getopt_reads[OF assms(1-3,5,6) 1 _ 2 assms(9)] assms(10) by auto
  have s2: "m (q + 2) = Some (if sp \<noteq> [] then hd sp else 0)" using q(1) by (cases sp) (auto simp: numeral_2_eq_2)
  have v: "str_at m (argv ! i + 2) v" using at assms(7) by (simp add: numeral_2_eq_2)
  then have x: "arg_at m (argv ! i) (optpos st + 1) = Some (if v \<noteq> [] then hd v else 0)"
    using assms(4) by (cases v) (auto simp: arg_at_def)
  have nz: "v \<noteq> [] \<Longrightarrow> hd v \<noteq> 0" using str_at_nonzero[OF v] by (cases v) auto
  have nc: "(if sp \<noteq> [] then hd sp else 0) \<noteq> bc CHR '':''" using assms(11) by auto
  show ?thesis
  proof (cases "v \<noteq> []")
    case True
    have "opt_with_arg m (int (length ss)) argv optstring (argv ! i) c q st
        = Some (cv c, st\<lparr>optarg := argv ! i + 2, optind := int i + 1, optpos := 1\<rparr>)"
      using s2 x nz nc True assms(3,4) by (simp add: opt_with_arg_def)
    with q(2) v True show ?thesis by auto
  next
    case False
    then have n: "i + 1 < length ss" using assms(12) by simp
    have "argv_at argv (optind st + 1) = Some (argv ! (i + 1))" "str_at m (argv ! (i + 1)) (ss ! (i + 1))"
      using assms(1,3) n by (auto simp: argv_at_def args_at_def nat_add_distrib)
    then have "opt_with_arg m (int (length ss)) argv optstring (argv ! i) c q st
        = Some (cv c, st\<lparr>optarg := argv ! (i + 1), optind := int i + 2, optpos := 1\<rparr>)"
      using s2 x nc False n assms(3) by (simp add: opt_with_arg_def)
    with q(2) False \<open>str_at m (argv ! (i + 1)) _\<close> show ?thesis by auto
  qed
qed

section \<open>Long options\<close>

text \<open>The names of the long options, in front of the closing null name.\<close>

definition names_at :: "mem \<Rightarrow> long_option list \<Rightarrow> byte list list \<Rightarrow> bool" where
  "names_at m los ns \<longleftrightarrow> list_all2 (\<lambda>lo n. lo_name lo \<noteq> NULL \<and> str_at m (lo_name lo) n) los ns"

fun index_of :: "'a \<Rightarrow> 'a list \<Rightarrow> nat option" where
  "index_of x [] = None"
| "index_of x (y # ys) = (if x = y then Some 0 else map_option Suc (index_of x ys))"

lemma index_of_Some: "index_of x ys = Some i \<Longrightarrow> i < length ys \<and> ys ! i = x"
  by (induction ys arbitrary: i) (auto split: if_splits)

lemma long_find_correct:
  assumes "str_at m name (n @ rest)"
  shows "names_at m los ns \<Longrightarrow> long_find m name (length n) los = Some (index_of n ns)"
proof (induction los arbitrary: ns)
  case Nil
  then show ?case by (simp add: names_at_def)
next
  case (Cons lo los)
  then obtain x ns' where ns: "ns = x # ns'" "lo_name lo \<noteq> NULL" "str_at m (lo_name lo) x" "names_at m los ns'"
    by (auto simp: names_at_def list_all2_Cons1)
  have c: "strncmp m (lo_name lo) name (length n) = Some (lex_cmp (take (length n) x) n)"
    using strncmp_correct[OF ns(3) assms, of "length n"] by simp
  have l: "strlen m (lo_name lo) = Some (length x)" by (rule strlen_correct[OF ns(3,2)])
  note IH = Cons.IH[OF ns(4)]
  show ?case
  proof (cases "length x = length n")
    case True
    then have "(lex_cmp (take (length n) x) n = 0) = (n = x)" by (auto simp: lex_cmp_eq)
    with True c l IH ns(1,2) show ?thesis by (cases "n = x") simp_all
  next
    case False
    then have "n \<noteq> x" by auto
    with False l IH ns(1,2) show ?thesis by simp
  qed
qed

lemma getopt_long_value:
  assumes "args_at m argv ss" "i < length ss" "optind st = int i"
    and "ss ! i = lit ''--'' @ n @ bc CHR ''='' # v" "n \<noteq> []" "bc CHR ''='' \<notin> set n"
    and "names_at m los ns" "index_of n ns = Some j"
    and "has_arg (los ! j) = required_argument \<or> has_arg (los ! j) = optional_argument"
    and "lo_flag (los ! j) = NULL"
  shows "\<exists>a. getopt_long m (int (length ss)) argv optstring los st
      = Some (lo_val (los ! j), st\<lparr>optarg := a, optind := int i + 1\<rparr>, Some j, m) \<and> str_at m a v"
proof -
  let ?arg = "argv ! i" and ?eq = "bc CHR ''=''"
  have at: "str_at m ?arg (lit ''--'' @ n @ ?eq # v)" "?arg \<noteq> NULL"
    using assms(1,2,4) by (auto simp: args_at_def)
  have av: "argv_at argv (optind st) = Some ?arg"
    using assms(1-3) by (auto simp: argv_at_def args_at_def)
  have name: "str_at m (?arg + 2) (n @ ?eq # v)" using at(1) by (simp add: numeral_2_eq_2)
  obtain x where n0: "m (?arg + 2) = Some x" "x \<noteq> 0" using name assms(5) by (cases n) auto
  have nz: "0 \<notin> set n" using str_at_nonzero[OF name] by simp
  have "strchr m (?arg + 2) (cv ?eq) = Some (?arg + 2 + length n)"
  proof -
    have "cv x \<noteq> cv ?eq" if "x \<in> set n" for x using assms(6) that by auto
    then have tw: "takeWhile (\<lambda>x. cv x \<noteq> cv ?eq) (n @ ?eq # v) = n"
      by (subst takeWhile_append2) simp_all
    have "cv ?eq \<in> cv ` set (n @ ?eq # v)" by (rule imageI) simp
    then show ?thesis unfolding strchr_correct[OF name] tw by (simp only: if_True)
  qed
  then have end': "strchr m (?arg + 2) (ic CHR ''='') = Some (?arg + 2 + length n)" by (simp add: cv_def)
  have v: "str_at m (?arg + 2 + length n + 1) v"
    using name nz by (simp add: str_at_append)
  have "strcmp_lit m ?arg (lit ''--'') = Some (lex_cmp (lit ''--'' @ n @ ?eq # v) (lit ''--''))"
    by (rule strcmp_lit_correct[OF at(1)]) simp
  moreover have "lex_cmp (lit ''--'' @ n @ ?eq # v) (lit ''--'') \<noteq> 0" unfolding lex_cmp_eq by simp
  ultimately obtain c where cmp: "strcmp_lit m ?arg (lit ''--'') = Some c" "c \<noteq> 0" by blast
  have find: "long_find m (?arg + 2) (length n) los = Some (Some j)"
    using long_find_correct[OF name assms(7)] assms(8) by simp
  have a01: "m ?arg = Some (bc CHR ''-'')" "m (?arg + 1) = Some (bc CHR ''-'')" using at(1) by auto
  have "long_matched m (int (length ss)) argv optstring (los ! j) j (?arg + 2 + length n) st
      = Some (lo_val (los ! j), st\<lparr>optarg := ?arg + 2 + length n + 1, optind := int i + 1\<rparr>, Some j, m)"
    using assms(3,9,10) by (auto simp: long_matched_def)
  then have "getopt_long m (int (length ss)) argv optstring los st
      = Some (lo_val (los ! j), st\<lparr>optarg := ?arg + 2 + length n + 1, optind := int i + 1\<rparr>, Some j, m)"
    unfolding getopt_long_def getopt_long_internal_def Let_def av a01 Option.bind.bind_lunit cmp(1)
    using assms(2,3) at(2) cmp(2) n0 end' find by simp
  with v show ?thesis by blast
qed

section \<open>Properties\<close>

text \<open>
  C36. The loop \<open>while(getopt(...) != -1)\<close> ends for every argument vector and every option string:
  each call consumes a character, so there are at most as many results as characters.
\<close>

theorem getopt_loop_ends:
  assumes "args_at m argv ss" "str_at m optstring os" "optstring \<noteq> NULL" "opt_left ss opt_init < int n"
  shows "\<exists>rs st'. getopt_all n m (int (length ss)) argv optstring opt_init = Some (rs, st') \<and>
    int (length rs) \<le> opt_left ss opt_init"
  using getopt_all_ends[OF assms(1-3) _ assms(4)] by (force simp: opt_inv_def opt_init_def)

theorem getopt_loop_ends_witness:
  "\<exists>rs st'. getopt_all 20 (store (store (store (\<lambda>_. Some 0) 100 (lit ''p'')) 110 (lit ''-ab'')) 200 (lit ''ab''))
      (int (length [lit ''p'', lit ''-ab''])) [100, 110] 200 opt_init = Some (rs, st') \<and>
    int (length rs) \<le> opt_left [lit ''p'', lit ''-ab''] opt_init"
  by (rule getopt_loop_ends[where os = "lit ''ab''"])
    (simp_all add: args_at_def less_Suc_eq opt_left_def opt_init_def)

text \<open>
  An argument \<open>-abc\<close> of options without arguments gives one result per letter, in order, and
  leaves the parser at the start of the next argument.
\<close>

theorem getopt_cluster:
  assumes "args_at m argv ss" "i < length ss" "optind st = int i" "optpos st = 1"
    and "str_at m optstring os" "optstring \<noteq> NULL"
    and "ss ! i = bc CHR ''-'' # cs" "cs \<noteq> []" "cs \<noteq> lit ''-''" "\<forall>c \<in> set cs. flag_opt os c"
  shows "\<exists>st'. getopt_n (length cs) m (int (length ss)) argv optstring st = Some (map cv cs, st') \<and>
    optind st' = int i + 1 \<and> optpos st' = 1"
  using getopt_cluster_at[OF assms(1,2,5,6), of "lit ''-''" cs st] assms(3,4,7-10) by simp

theorem getopt_cluster_witness:
  "\<exists>st'. getopt_n (length (lit ''ab'')) (store (store (store (\<lambda>_. Some 0) 100 (lit ''p'')) 110 (lit ''-ab'')) 200 (lit ''ab''))
      (int (length [lit ''p'', lit ''-ab''])) [100, 110] 200 opt_init = Some (map cv (lit ''ab''), st') \<and>
    optind st' = int 1 + 1 \<and> optpos st' = 1"
  by (rule getopt_cluster[where os = "lit ''ab''"])
    (simp_all add: args_at_def less_Suc_eq opt_init_def flag_opt_def opt_spec_at_def)

text \<open>
  An option with a required argument takes it from the rest of its own argument, or from the
  next argument when nothing follows it: \<open>optarg\<close> is that string and the parser goes on behind it.
\<close>

theorem getopt_required:
  assumes "args_at m argv ss" "i < length ss" "optind st = int i" "optpos st = 1"
    and "str_at m optstring os" "optstring \<noteq> NULL"
    and "ss ! i = bc CHR ''-'' # c # v" "c \<noteq> bc CHR ''-''" "c \<in> set os"
    and "opt_spec_at os c = c # bc CHR '':'' # sp" "sp = [] \<or> hd sp \<noteq> bc CHR '':''"
    and "v \<noteq> [] \<or> i + 1 < length ss"
  shows "\<exists>a. getopt m (int (length ss)) argv optstring st = Some (cv c,
      st\<lparr>optarg := a, optind := (if v \<noteq> [] then int i + 1 else int i + 2), optpos := 1\<rparr>) \<and>
    str_at m a (if v \<noteq> [] then v else ss ! (i + 1))"
  by (rule getopt_required_arg[OF assms])

theorem getopt_required_witness:
  "\<exists>a. getopt (store (store (store (\<lambda>_. Some 0) 100 (lit ''p'')) 110 (lit ''-ofile'')) 200 (lit ''o:''))
      (int (length [lit ''p'', lit ''-ofile''])) [100, 110] 200 opt_init = Some (cv (bc CHR ''o''),
      opt_init\<lparr>optarg := a, optind := (if lit ''file'' \<noteq> [] then int 1 + 1 else int 1 + 2), optpos := 1\<rparr>) \<and>
    str_at (store (store (store (\<lambda>_. Some 0) 100 (lit ''p'')) 110 (lit ''-ofile'')) 200 (lit ''o:''))
      a (if lit ''file'' \<noteq> [] then lit ''file'' else [lit ''p'', lit ''-ofile''] ! (1 + 1))"
  by (rule getopt_required[where os = "lit ''o:''" and sp = "[]"])
    (simp_all add: args_at_def less_Suc_eq opt_init_def opt_spec_at_def)

text \<open>
  \<open>getopt_long\<close> on \<open>--name=value\<close> with a name among the long options gives the option's value and
  index, and \<open>optarg\<close> is the text behind the \<open>=\<close>.
\<close>

theorem getopt_long_equals:
  assumes "args_at m argv ss" "i < length ss" "optind st = int i"
    and "ss ! i = lit ''--'' @ n @ bc CHR ''='' # v" "n \<noteq> []" "bc CHR ''='' \<notin> set n"
    and "names_at m los ns" "index_of n ns = Some j"
    and "has_arg (los ! j) = required_argument \<or> has_arg (los ! j) = optional_argument"
    and "lo_flag (los ! j) = NULL"
  shows "\<exists>a. getopt_long m (int (length ss)) argv optstring los st
      = Some (lo_val (los ! j), st\<lparr>optarg := a, optind := int i + 1\<rparr>, Some j, m) \<and> str_at m a v"
  by (rule getopt_long_value[OF assms])

theorem getopt_long_equals_witness:
  "\<exists>a. getopt_long (store (store (store (\<lambda>_. Some 0) 100 (lit ''p'')) 110 (lit ''--out=x'')) 200 (lit ''out''))
      (int (length [lit ''p'', lit ''--out=x''])) [100, 110] 300
      [\<lparr>lo_name = 200, has_arg = required_argument, lo_flag = NULL, lo_val = 7\<rparr>] opt_init
      = Some (lo_val ([\<lparr>lo_name = 200, has_arg = required_argument, lo_flag = NULL, lo_val = 7\<rparr>] ! 0),
          opt_init\<lparr>optarg := a, optind := int 1 + 1\<rparr>, Some 0,
          store (store (store (\<lambda>_. Some 0) 100 (lit ''p'')) 110 (lit ''--out=x'')) 200 (lit ''out'')) \<and>
    str_at (store (store (store (\<lambda>_. Some 0) 100 (lit ''p'')) 110 (lit ''--out=x'')) 200 (lit ''out'')) a (lit ''x'')"
  by (rule getopt_long_equals[where n = "lit ''out''" and ns = "[lit ''out'']"])
    (simp_all add: args_at_def less_Suc_eq opt_init_def names_at_def)

end
