(* ===== verification/Kernel_IO.thy ===== *)
theory Kernel_IO
  imports C_String
begin

text \<open>
  File descriptors: \<open>read\<close>, \<open>write\<close>, \<open>close\<close>, \<open>lseek\<close>, \<open>tell\<close>, \<open>open\<close> and \<open>isatty\<close> of
  \<open>libc/src/unistd\<close> and \<open>libc/src/fcntl\<close>.  The system calls they wrap are implemented by the kernel,
  which is not part of the repository: they are the fields of a record of type \<open>'k platform\<close>, where
  \<open>'k\<close> is the state of the kernel.  The state of the process is the memory, \<open>errno\<close> and the kernel's
  state; the streams of \<open>stdio\<close> extend it.
\<close>

section \<open>System calls\<close>

text \<open>
  A call returns its status next to its result.  \<open>sys_read\<close> also returns the memory, with the data
  in the buffer.  Acquiring a mutex is \<open>None\<close> if the caller would wait for ever.
\<close>

record 'k platform =
  sys_read :: "int \<Rightarrow> addr \<Rightarrow> nat \<Rightarrow> mem \<Rightarrow> 'k \<Rightarrow> int \<times> int \<times> mem \<times> 'k"
  sys_write :: "int \<Rightarrow> addr \<Rightarrow> nat \<Rightarrow> mem \<Rightarrow> 'k \<Rightarrow> int \<times> int \<times> 'k"
  sys_seek :: "int \<Rightarrow> int \<Rightarrow> int \<Rightarrow> 'k \<Rightarrow> int \<times> int \<times> 'k"
  sys_tell :: "int \<Rightarrow> 'k \<Rightarrow> int \<times> 'k"
  sys_open :: "addr \<Rightarrow> int \<Rightarrow> mem \<Rightarrow> 'k \<Rightarrow> int \<times> int \<times> 'k"
  sys_close :: "int \<Rightarrow> 'k \<Rightarrow> int \<times> 'k"
  mutex_initialize :: "'k \<Rightarrow> nat \<times> 'k"
  mutex_acquire :: "nat \<Rightarrow> 'k \<Rightarrow> 'k option"
  mutex_try_acquire :: "nat \<Rightarrow> 'k \<Rightarrow> bool \<times> 'k"
  mutex_release :: "nat \<Rightarrow> 'k \<Rightarrow> 'k"
  mutex_destroy :: "nat \<Rightarrow> 'k \<Rightarrow> 'k"
  sys_log :: "byte list \<Rightarrow> 'k \<Rightarrow> 'k"
  sys_get_pid :: "'k \<Rightarrow> int"
  heap_malloc :: allocator
  heap_free :: "addr \<Rightarrow> mem \<Rightarrow> mem"
  frame :: addr

record 'k world =
  w_mem :: mem
  w_errno :: int
  w_k :: 'k

text \<open>The status codes of \<open>ghost/filesystem/types.h\<close>.\<close>

abbreviation (input) G_FS_READ_SUCCESSFUL :: int where "G_FS_READ_SUCCESSFUL \<equiv> 0"
abbreviation (input) G_FS_READ_INVALID_FD :: int where "G_FS_READ_INVALID_FD \<equiv> 1"
abbreviation (input) G_FS_READ_BUSY :: int where "G_FS_READ_BUSY \<equiv> 2"
abbreviation (input) G_FS_WRITE_SUCCESSFUL :: int where "G_FS_WRITE_SUCCESSFUL \<equiv> 0"
abbreviation (input) G_FS_WRITE_INVALID_FD :: int where "G_FS_WRITE_INVALID_FD \<equiv> 1"
abbreviation (input) G_FS_WRITE_BUSY :: int where "G_FS_WRITE_BUSY \<equiv> 3"
abbreviation (input) G_FS_CLOSE_SUCCESSFUL :: int where "G_FS_CLOSE_SUCCESSFUL \<equiv> 0"
abbreviation (input) G_FS_CLOSE_INVALID_FD :: int where "G_FS_CLOSE_INVALID_FD \<equiv> 1"
abbreviation (input) G_FS_SEEK_SUCCESSFUL :: int where "G_FS_SEEK_SUCCESSFUL \<equiv> 0"
abbreviation (input) G_FS_SEEK_INVALID_FD :: int where "G_FS_SEEK_INVALID_FD \<equiv> 1"
abbreviation (input) G_FS_OPEN_SUCCESSFUL :: int where "G_FS_OPEN_SUCCESSFUL \<equiv> 0"
abbreviation (input) G_FS_OPEN_NOT_FOUND :: int where "G_FS_OPEN_NOT_FOUND \<equiv> 1"

abbreviation (input) SEEK_CUR :: int where "SEEK_CUR \<equiv> 1"
abbreviation (input) SEEK_END :: int where "SEEK_END \<equiv> 2"
abbreviation (input) SEEK_SET :: int where "SEEK_SET \<equiv> 3"
abbreviation (input) EOF :: int where "EOF \<equiv> - 1"

section \<open>The functions\<close>

definition c_read :: "'k platform \<Rightarrow> int \<Rightarrow> addr \<Rightarrow> nat \<Rightarrow> ('k, 'z) world_scheme \<Rightarrow> int \<times> ('k, 'z) world_scheme" where
  "c_read K fd buf count w =
     (let (stat, len, m, k) = sys_read K fd buf count (w_mem w) (w_k w);
          w = w\<lparr>w_mem := m, w_k := k\<rparr> in
      if stat = G_FS_READ_SUCCESSFUL then (len, w)
      else if stat = G_FS_READ_INVALID_FD then (- 1, w\<lparr>w_errno := EBADF\<rparr>)
      else if stat = G_FS_READ_BUSY then (- 1, w\<lparr>w_errno := EIO\<rparr>)
      else (- 1, w\<lparr>w_errno := EIO\<rparr>))"

definition c_write :: "'k platform \<Rightarrow> int \<Rightarrow> addr \<Rightarrow> nat \<Rightarrow> ('k, 'z) world_scheme \<Rightarrow> int \<times> ('k, 'z) world_scheme" where
  "c_write K fd buf count w =
     (let (stat, len, k) = sys_write K fd buf count (w_mem w) (w_k w);
          w = w\<lparr>w_k := k\<rparr> in
      if stat = G_FS_WRITE_SUCCESSFUL then (len, w)
      else if stat = G_FS_WRITE_INVALID_FD then (- 1, w\<lparr>w_errno := EBADF\<rparr>)
      else if stat = G_FS_WRITE_BUSY then (- 1, w\<lparr>w_errno := EIO\<rparr>)
      else (- 1, w\<lparr>w_errno := EIO\<rparr>))"

definition c_close :: "'k platform \<Rightarrow> int \<Rightarrow> ('k, 'z) world_scheme \<Rightarrow> int \<times> ('k, 'z) world_scheme" where
  "c_close K filedes w =
     (let (status, k) = sys_close K filedes (w_k w); w = w\<lparr>w_k := k\<rparr> in
      if status = G_FS_CLOSE_SUCCESSFUL then (0, w)
      else if status = G_FS_CLOSE_INVALID_FD then (- 1, w\<lparr>w_errno := EBADF\<rparr>)
      else (- 1, w\<lparr>w_errno := EIO\<rparr>))"

text \<open>
  With another \<open>whence\<close> the mode is an uninitialised variable, whose use is undefined.
\<close>

definition seek_mode :: "int \<Rightarrow> int option" where
  "seek_mode whence =
     (if whence = SEEK_SET then Some 0
      else if whence = SEEK_CUR then Some 1
      else if whence = SEEK_END then Some 2
      else None)"

definition lseek ::
  "'k platform \<Rightarrow> int \<Rightarrow> int \<Rightarrow> int \<Rightarrow> ('k, 'z) world_scheme \<Rightarrow> (int \<times> ('k, 'z) world_scheme) option" where
  "lseek K fd offset whence w = do {
     mode \<leftarrow> seek_mode whence;
     let (status, result, k) = sys_seek K fd offset mode (w_k w);
     let w = w\<lparr>w_k := k\<rparr>;
     Some (if status = G_FS_SEEK_SUCCESSFUL then (result, w)
           else if status = G_FS_SEEK_INVALID_FD then (- 1, w\<lparr>w_errno := EBADF\<rparr>)
           else (- 1, w\<lparr>w_errno := EIO\<rparr>))
   }"

definition tell :: "'k platform \<Rightarrow> int \<Rightarrow> ('k, 'z) world_scheme \<Rightarrow> int \<times> ('k, 'z) world_scheme" where
  "tell K filedes w = (let (r, k) = sys_tell K filedes (w_k w) in (r, w\<lparr>w_k := k\<rparr>))"

text \<open>The mode argument is read and not used.\<close>

definition c_open :: "'k platform \<Rightarrow> addr \<Rightarrow> int \<Rightarrow> ('k, 'z) world_scheme \<Rightarrow> int \<times> ('k, 'z) world_scheme" where
  "c_open K pathname flags w =
     (let (status, fd, k) = sys_open K pathname flags (w_mem w) (w_k w); w = w\<lparr>w_k := k\<rparr> in
      if status = G_FS_OPEN_SUCCESSFUL then (fd, w)
      else if status = G_FS_OPEN_NOT_FOUND then (- 1, w\<lparr>w_errno := ENOENT\<rparr>)
      else (- 1, w\<lparr>w_errno := EIO\<rparr>))"

definition isatty :: "int \<Rightarrow> ('k, 'z) world_scheme \<Rightarrow> int \<times> ('k, 'z) world_scheme" where
  "isatty fd w =
     (if fd < 0 then (0, w\<lparr>w_errno := EBADF\<rparr>)
      else if fd = 0 \<or> fd = 1 \<or> fd = 2 then (1, w)
      else (0, w\<lparr>w_errno := ENOTTY\<rparr>))"

section \<open>Contracts of the system calls\<close>

text \<open>
  A device that takes data: \<open>out k\<close> is what it has taken so far.  Writing \<open>n > 0\<close> bytes succeeds
  and takes at least one of them; how many is up to the kernel.  \<open>I\<close> is what the call leaves alone
  (the mutexes held, other devices).
\<close>

definition takes_data :: "'k platform \<Rightarrow> int \<Rightarrow> ('k \<Rightarrow> byte list) \<Rightarrow> ('k \<Rightarrow> 'i) \<Rightarrow> bool" where
  "takes_data K fd out I \<longleftrightarrow> (\<forall>a xs m k. xs \<noteq> [] \<longrightarrow> int (length xs) \<le> INT_MAX \<longrightarrow> bytes_at m a xs \<longrightarrow>
     (\<exists>n k'. sys_write K fd a (length xs) m k = (G_FS_WRITE_SUCCESSFUL, int n, k') \<and>
        0 < n \<and> n \<le> length xs \<and> out k' = out k @ take n xs \<and> I k' = I k))"

text \<open>
  A device that gives data: \<open>inp k\<close> is what is still to come.  A read gives a part of it, at
  least one byte unless nothing is left, stored in the buffer and nowhere else.
\<close>

definition gives_data :: "'k platform \<Rightarrow> int \<Rightarrow> ('k \<Rightarrow> byte list) \<Rightarrow> ('k \<Rightarrow> 'i) \<Rightarrow> bool" where
  "gives_data K fd inp I \<longleftrightarrow> (\<forall>a n m k. 0 < n \<longrightarrow> int n \<le> INT_MAX \<longrightarrow> mapped m a n \<longrightarrow>
     (\<exists>xs k'. sys_read K fd a n m k = (G_FS_READ_SUCCESSFUL, int (length xs), store m a xs, k') \<and>
        length xs \<le> n \<and> (xs = [] \<longrightarrow> inp k = []) \<and> inp k = xs @ inp k' \<and> I k' = I k))"

text \<open>
  Mutexes: \<open>held k\<close> are those acquired.  Acquiring a free one succeeds; neither operation changes
  the observation \<open>D\<close> of the devices.
\<close>

definition good_mutexes :: "'k platform \<Rightarrow> ('k \<Rightarrow> nat set) \<Rightarrow> ('k \<Rightarrow> 'd) \<Rightarrow> bool" where
  "good_mutexes K held D \<longleftrightarrow>
     (\<forall>l k. l \<notin> held k \<longrightarrow> (\<exists>k'. mutex_acquire K l k = Some k' \<and> held k' = insert l (held k) \<and> D k' = D k)) \<and>
     (\<forall>l k. held (mutex_release K l k) = held k - {l} \<and> D (mutex_release K l k) = D k)"

lemma write_takes:
  assumes "takes_data K fd out I" "bytes_at (w_mem w) a xs" "xs \<noteq> []" "int (length xs) \<le> INT_MAX"
  shows "\<exists>n k. c_write K fd a (length xs) w = (int n, w\<lparr>w_k := k\<rparr>) \<and> 0 < n \<and> n \<le> length xs \<and>
    out k = out (w_k w) @ take n xs \<and> I k = I (w_k w)"
proof -
  obtain n k where "sys_write K fd a (length xs) (w_mem w) (w_k w) = (G_FS_WRITE_SUCCESSFUL, int n, k)"
    "0 < n" "n \<le> length xs" "out k = out (w_k w) @ take n xs" "I k = I (w_k w)"
    using assms unfolding takes_data_def by blast
  then show ?thesis by (auto simp: c_write_def)
qed

lemma read_gives:
  assumes "gives_data K fd inp I" "mapped (w_mem w) a n" "0 < n" "int n \<le> INT_MAX"
  shows "\<exists>xs k. c_read K fd a n w = (int (length xs), w\<lparr>w_mem := store (w_mem w) a xs, w_k := k\<rparr>) \<and>
    length xs \<le> n \<and> (xs = [] \<longrightarrow> inp (w_k w) = []) \<and> inp (w_k w) = xs @ inp k \<and> I k = I (w_k w)"
proof -
  obtain xs k where "sys_read K fd a n (w_mem w) (w_k w) =
      (G_FS_READ_SUCCESSFUL, int (length xs), store (w_mem w) a xs, k)"
    "length xs \<le> n" "xs = [] \<longrightarrow> inp (w_k w) = []" "inp (w_k w) = xs @ inp k" "I k = I (w_k w)"
    using assms unfolding gives_data_def by blast
  then show ?thesis by (auto simp: c_read_def)
qed

section \<open>A kernel for examples\<close>

text \<open>
  One device that takes at most three bytes at a time, one that gives at most five, and mutexes
  numbered from 1.
\<close>

record ram =
  ram_out :: "byte list"
  ram_in :: "byte list"
  ram_locks :: "nat set"
  ram_next :: nat

definition ram_bytes :: "mem \<Rightarrow> addr \<Rightarrow> nat \<Rightarrow> byte list" where
  "ram_bytes m a n = map (\<lambda>i. case m (a + i) of None \<Rightarrow> 0 | Some b \<Rightarrow> b) [0..<n]"

definition ram_platform :: "addr \<Rightarrow> allocator \<Rightarrow> ram platform" where
  "ram_platform fr malloc = \<lparr>
     sys_read = (\<lambda>fd a n m k. let xs = take (min n 5) (ram_in k) in
       (0, int (length xs), store m a xs, k\<lparr>ram_in := drop (min n 5) (ram_in k)\<rparr>)),
     sys_write = (\<lambda>fd a n m k. (0, int (min n 3), k\<lparr>ram_out := ram_out k @ ram_bytes m a (min n 3)\<rparr>)),
     sys_seek = (\<lambda>fd offset mode k. (0, offset, k)),
     sys_tell = (\<lambda>fd k. (0, k)),
     sys_open = (\<lambda>path fl m k. (0, 3, k)),
     sys_close = (\<lambda>fd k. (0, k)),
     mutex_initialize = (\<lambda>k. (ram_next k, k\<lparr>ram_next := ram_next k + 1\<rparr>)),
     mutex_acquire = (\<lambda>l k. if l \<in> ram_locks k then None else Some (k\<lparr>ram_locks := insert l (ram_locks k)\<rparr>)),
     mutex_try_acquire = (\<lambda>l k. (l \<notin> ram_locks k, k\<lparr>ram_locks := insert l (ram_locks k)\<rparr>)),
     mutex_release = (\<lambda>l k. k\<lparr>ram_locks := ram_locks k - {l}\<rparr>),
     mutex_destroy = (\<lambda>l k. k\<lparr>ram_locks := ram_locks k - {l}\<rparr>),
     sys_log = (\<lambda>msg k. k),
     sys_get_pid = (\<lambda>k. 7),
     heap_malloc = malloc,
     heap_free = (\<lambda>a m. m),
     frame = fr\<rparr>"

lemma ram_bytes_at: "bytes_at m a xs \<Longrightarrow> n \<le> length xs \<Longrightarrow> ram_bytes m a n = take n xs"
  unfolding ram_bytes_def by (rule nth_equalityI) (auto simp: bytes_at_iff)

lemma ram_takes: "takes_data (ram_platform fr malloc) fd ram_out ram_locks"
  unfolding takes_data_def
proof (intro allI impI)
  fix a xs m k assume "xs \<noteq> []" "bytes_at m a (xs :: byte list)"
  then show "\<exists>n k'. sys_write (ram_platform fr malloc) fd a (length xs) m k = (G_FS_WRITE_SUCCESSFUL, int n, k') \<and>
      0 < n \<and> n \<le> length xs \<and> ram_out k' = ram_out k @ take n xs \<and> ram_locks k' = ram_locks k"
    by (intro exI[of _ "min (length xs) 3"]) (auto simp: ram_platform_def ram_bytes_at)
qed

lemma ram_gives: "gives_data (ram_platform fr malloc) fd ram_in ram_locks"
  unfolding gives_data_def
proof (intro allI impI)
  fix a n :: nat and m :: mem and k :: ram assume "0 < n"
  then show "\<exists>xs k'. sys_read (ram_platform fr malloc) fd a n m k =
      (G_FS_READ_SUCCESSFUL, int (length xs), store m a xs, k') \<and> length xs \<le> n \<and>
      (xs = [] \<longrightarrow> ram_in k = []) \<and> ram_in k = xs @ ram_in k' \<and> ram_locks k' = ram_locks k"
    by (intro exI[of _ "take (min n 5) (ram_in k)"]) (simp add: ram_platform_def min_def)
qed

lemma ram_mutexes:
  "good_mutexes (ram_platform fr malloc) ram_locks ram_out" "good_mutexes (ram_platform fr malloc) ram_locks ram_in"
  by (auto simp: good_mutexes_def ram_platform_def)

end
