(* ===== verification/Stdio.thy ===== *)
theory Stdio
  imports Kernel_IO Mem_Ops
begin

text \<open>
  Streams of \<open>libc/src/stdio\<close>: the \<open>FILE\<close> structure of \<open>libc/inc/file.h\<close> and the unlocked operations
  on one stream, with their buffers, directions and error flags.  A \<open>FILE\<close> is an object of its own
  store, at the address of the structure; buffers and user data are in the byte memory.
\<close>

section \<open>State\<close>

text \<open>
  The function pointers of a stream are either null or the functions \<open>__stdio_impl_...\<close>: the
  fields \<open>impl_...\<close> say whether they are set.
\<close>

record FILE =
  file_descriptor :: int
  lock :: nat
  buffer :: addr
  buffer_size :: nat
  buffer_mode :: nat
  buffered_bytes_write :: nat
  buffered_bytes_read :: nat
  buffered_bytes_read_offset :: nat
  impl_read :: bool
  impl_write :: bool
  impl_seek :: bool
  impl_tell :: bool
  impl_close :: bool
  impl_reopen :: bool
  impl_fileno :: bool
  impl_eof :: bool
  impl_error :: bool
  impl_clearerr :: bool
  impl_seterr :: bool
  flags :: "32 word"
  prev_file :: addr
  next_file :: addr

record 'k stdio = "'k world" +
  files :: "addr \<rightharpoonup> FILE"
  open_file_list :: addr
  open_file_list_lock :: nat

text \<open>The flags of a stream, by the number of their bit.\<close>

abbreviation (input) MODE_READ :: nat where "MODE_READ \<equiv> 0"
abbreviation (input) MODE_WRITE :: nat where "MODE_WRITE \<equiv> 1"
abbreviation (input) MODE_BINARY :: nat where "MODE_BINARY \<equiv> 2"
abbreviation (input) MODE_TEXTUAL :: nat where "MODE_TEXTUAL \<equiv> 3"
abbreviation (input) MODE_TRUNCATE :: nat where "MODE_TRUNCATE \<equiv> 4"
abbreviation (input) MODE_APPEND :: nat where "MODE_APPEND \<equiv> 5"
abbreviation (input) MODE_CREATE :: nat where "MODE_CREATE \<equiv> 6"
abbreviation (input) FLAG_EOF :: nat where "FLAG_EOF \<equiv> 26"
abbreviation (input) FLAG_ERROR :: nat where "FLAG_ERROR \<equiv> 27"
abbreviation (input) BUFFER_SET :: nat where "BUFFER_SET \<equiv> 28"
abbreviation (input) DIRECTION_READ :: nat where "DIRECTION_READ \<equiv> 29"
abbreviation (input) DIRECTION_WRITE :: nat where "DIRECTION_WRITE \<equiv> 30"
abbreviation (input) OWNER_LIBRARY :: nat where "OWNER_LIBRARY \<equiv> 31"

abbreviation (input) IOFBF :: nat where "IOFBF \<equiv> 1"
abbreviation (input) IOLBF :: nat where "IOLBF \<equiv> 2"
abbreviation (input) IONBF :: nat where "IONBF \<equiv> 3"
abbreviation (input) BUFSIZ :: nat where "BUFSIZ \<equiv> 8192"
abbreviation (input) BUFSIZMIN :: nat where "BUFSIZMIN \<equiv> 128"
abbreviation (input) UNGET_SPACE :: nat where "UNGET_SPACE \<equiv> 4"

definition has :: "FILE \<Rightarrow> nat \<Rightarrow> bool" where
  "has f b = bit (flags f) b"

definition raise :: "nat \<Rightarrow> FILE \<Rightarrow> FILE" where
  "raise b f = f\<lparr>flags := set_bit b (flags f)\<rparr>"

definition lower :: "nat \<Rightarrow> FILE \<Rightarrow> FILE" where
  "lower b f = f\<lparr>flags := unset_bit b (flags f)\<rparr>"

definition change :: "addr \<Rightarrow> (FILE \<Rightarrow> FILE) \<Rightarrow> 'k stdio \<Rightarrow> 'k stdio" where
  "change p g w = w\<lparr>files := (files w)(p := map_option g (files w p))\<rparr>"

text \<open>\<open>errno = EBADF; stream->flags |= G_FILE_FLAG_ERROR;\<close>\<close>

definition bad_stream :: "addr \<Rightarrow> 'k stdio \<Rightarrow> 'k stdio" where
  "bad_stream p w = change p (raise FLAG_ERROR) (w\<lparr>w_errno := EBADF\<rparr>)"

text \<open>Arithmetic of \<open>size_t\<close>.\<close>

definition uadd :: "nat \<Rightarrow> int \<Rightarrow> nat" where "uadd a x = nat (u64 (int a + x))"
definition usub :: "nat \<Rightarrow> nat \<Rightarrow> nat" where "usub a b = nat (u64 (int a - int b))"

section \<open>Default implementations\<close>

definition stdio_impl_read :: "'k platform \<Rightarrow> addr \<Rightarrow> nat \<Rightarrow> addr \<Rightarrow> 'k stdio \<Rightarrow> (int \<times> 'k stdio) option" where
  "stdio_impl_read K buf len p w = do { f \<leftarrow> files w p; Some (c_read K (file_descriptor f) buf len w) }"

definition stdio_impl_write :: "'k platform \<Rightarrow> addr \<Rightarrow> nat \<Rightarrow> addr \<Rightarrow> 'k stdio \<Rightarrow> (int \<times> 'k stdio) option" where
  "stdio_impl_write K buf len p w = do { f \<leftarrow> files w p; Some (c_write K (file_descriptor f) buf len w) }"

text \<open>The result of \<open>impl_seek\<close> is an \<open>int\<close>.\<close>

definition stdio_impl_seek :: "'k platform \<Rightarrow> addr \<Rightarrow> int \<Rightarrow> int \<Rightarrow> 'k stdio \<Rightarrow> (int \<times> 'k stdio) option" where
  "stdio_impl_seek K p offset whence w = do {
     f \<leftarrow> files w p;
     (r, w) \<leftarrow> lseek K (file_descriptor f) offset whence w;
     Some (s32 r, w)
   }"

definition stdio_impl_tell :: "'k platform \<Rightarrow> addr \<Rightarrow> 'k stdio \<Rightarrow> (int \<times> 'k stdio) option" where
  "stdio_impl_tell K p w = do { f \<leftarrow> files w p; Some (tell K (file_descriptor f) w) }"

definition stdio_impl_close :: "'k platform \<Rightarrow> addr \<Rightarrow> 'k stdio \<Rightarrow> (int \<times> 'k stdio) option" where
  "stdio_impl_close K p w = do { f \<leftarrow> files w p; Some (c_close K (file_descriptor f) w) }"

definition stdio_impl_eof :: "FILE \<Rightarrow> int" where
  "stdio_impl_eof f = (if has f FLAG_EOF then 1 else 0)"

definition stdio_impl_error :: "FILE \<Rightarrow> int" where
  "stdio_impl_error f = (if has f FLAG_ERROR then 1 else 0)"

definition stdio_impl_clearerr :: "addr \<Rightarrow> 'k stdio \<Rightarrow> 'k stdio" where
  "stdio_impl_clearerr p w = change p (lower FLAG_ERROR) w"

definition stdio_impl_seterr :: "addr \<Rightarrow> 'k stdio \<Rightarrow> 'k stdio" where
  "stdio_impl_seterr p w = change p (raise FLAG_ERROR) w"

definition fileno :: "FILE \<Rightarrow> int" where
  "fileno f = file_descriptor f"

definition stdio_impl_fileno :: "FILE \<Rightarrow> int" where
  "stdio_impl_fileno f = fileno f"

section \<open>Buffers\<close>

text \<open>The mode is stored in a \<open>uint8_t\<close>.\<close>

definition setvbuf_unlocked ::
  "'k platform \<Rightarrow> addr \<Rightarrow> addr \<Rightarrow> nat \<Rightarrow> nat \<Rightarrow> 'k stdio \<Rightarrow> (int \<times> 'k stdio) option" where
  "setvbuf_unlocked K p buf mode n w = do {
     f \<leftarrow> files w p;
     let w = (if buffer_mode f \<noteq> IONBF \<and> buffer f \<noteq> NULL \<and> has f OWNER_LIBRARY
              then w\<lparr>w_mem := heap_free K (buffer f) (w_mem w)\<rparr> else w);
     let n = (if buf = NULL then if n = 0 then BUFSIZ else max n BUFSIZMIN else n);
     let (buf', m) = (if buf = NULL then heap_malloc K n (w_mem w) else (buf, w_mem w));
     let w = w\<lparr>w_mem := m\<rparr>;
     if buf' = NULL then Some (- 1, w)
     else Some (0, change p (\<lambda>f. raise BUFFER_SET
       ((if buf = NULL then raise else lower) OWNER_LIBRARY f
         \<lparr>buffer := buf', buffer_mode := mode mod 256, buffer_size := n, buffered_bytes_read := 0,
          buffered_bytes_read_offset := 0, buffered_bytes_write := 0\<rparr>)) w)
   }"

text \<open>The second attempt has the arguments of the first.\<close>

definition setdefbuf_unlocked :: "'k platform \<Rightarrow> addr \<Rightarrow> 'k stdio \<Rightarrow> (int \<times> 'k stdio) option" where
  "setdefbuf_unlocked K p w = do {
     (r, w) \<leftarrow> setvbuf_unlocked K p NULL IOFBF BUFSIZ w;
     if r = 0 then Some (0, w)
     else do {
       (r, w) \<leftarrow> setvbuf_unlocked K p NULL IOFBF BUFSIZ w;
       Some (if r = 0 then 0 else EOF, w)
     }
   }"

text \<open>\<open>if((stream->flags & G_FILE_FLAG_BUFFER_SET) == 0) __setdefbuf_unlocked(stream)\<close>\<close>

definition ensure_buffer :: "'k platform \<Rightarrow> addr \<Rightarrow> 'k stdio \<Rightarrow> (int \<times> 'k stdio) option" where
  "ensure_buffer K p w = do {
     f \<leftarrow> files w p;
     if \<not> has f BUFFER_SET then setdefbuf_unlocked K p w else Some (0, w)
   }"

section \<open>Flushing\<close>

text \<open>The loop of \<open>__fflush_write_unlocked\<close>: its result and the final \<open>done\<close>.\<close>

partial_function (option) flush_loop ::
  "'k platform \<Rightarrow> addr \<Rightarrow> nat \<Rightarrow> nat \<Rightarrow> 'k stdio \<Rightarrow> (int \<times> nat \<times> 'k stdio) option" where
  "flush_loop K p len done w =
     (if done < len then do {
        f \<leftarrow> files w p;
        (written, w) \<leftarrow> stdio_impl_write K (buffer f + done) (len - done) p w;
        if written = 0 then Some (EOF, done, change p (raise FLAG_EOF) w)
        else if written = - 1 then Some (EOF, done, change p (raise FLAG_ERROR) w)
        else flush_loop K p len (uadd done written) w
      } else Some (0, done, w))"

definition fflush_write_unlocked :: "'k platform \<Rightarrow> addr \<Rightarrow> 'k stdio \<Rightarrow> (int \<times> 'k stdio) option" where
  "fflush_write_unlocked K p w = do {
     f \<leftarrow> files w p;
     if \<not> has f DIRECTION_WRITE then Some (0, w)
     else if \<not> has f MODE_WRITE then Some (EOF, bad_stream p w)
     else if \<not> impl_write f then Some (EOF, bad_stream p w)
     else do {
       let len = buffered_bytes_write f;
       (res, done, w) \<leftarrow> flush_loop K p len 0 w;
       Some (res, change p (\<lambda>f. lower DIRECTION_WRITE f\<lparr>buffered_bytes_write := usub len done\<rparr>) w)
     }
   }"

text \<open>Seeking back by the bytes that were read ahead.\<close>

definition restore_position :: "'k platform \<Rightarrow> addr \<Rightarrow> int \<Rightarrow> 'k stdio \<Rightarrow> 'k stdio option" where
  "restore_position K p pos w = do {
     f \<leftarrow> files w p;
     let bytes = usub (buffered_bytes_read f) (buffered_bytes_read_offset f);
     let restored = (if pos < int bytes then 0 else pos - int bytes);
     (r, w) \<leftarrow> stdio_impl_seek K p restored SEEK_SET w;
     Some (if r < 0 then change p (raise FLAG_ERROR) w else w)
   }"

definition fflush_read_unlocked :: "'k platform \<Rightarrow> addr \<Rightarrow> 'k stdio \<Rightarrow> (int \<times> 'k stdio) option" where
  "fflush_read_unlocked K p w = do {
     f \<leftarrow> files w p;
     if \<not> has f DIRECTION_READ then Some (0, w)
     else if \<not> has f MODE_READ then Some (EOF, bad_stream p w)
     else do {
       let preserved_errno = w_errno w;
       (pos, w) \<leftarrow> (if impl_seek f then stdio_impl_seek K p 0 SEEK_CUR w else Some (- 1, w));
       let w = w\<lparr>w_errno := preserved_errno\<rparr>;
       w \<leftarrow> (if pos \<ge> 0 then restore_position K p pos w else Some w);
       Some (0, change p (\<lambda>f. lower DIRECTION_READ
         (f\<lparr>buffered_bytes_read := 0, buffered_bytes_read_offset := 0\<rparr>)) w)
     }
   }"

definition fflush_unlocked :: "'k platform \<Rightarrow> addr \<Rightarrow> 'k stdio \<Rightarrow> (int \<times> 'k stdio) option" where
  "fflush_unlocked K p w = do {
     f \<leftarrow> files w p;
     (r, w) \<leftarrow> (if has f DIRECTION_READ then fflush_read_unlocked K p w else Some (0, w));
     if r = EOF then Some (EOF, w)
     else do {
       f \<leftarrow> files w p;
       (r, w) \<leftarrow> (if has f DIRECTION_WRITE then fflush_write_unlocked K p w else Some (0, w));
       Some (if r = EOF then EOF else 0, w)
     }
   }"

text \<open>Flushing only after an access in the other direction, as the character functions do.\<close>

definition flush_if ::
  "nat \<Rightarrow> ('k platform \<Rightarrow> addr \<Rightarrow> 'k stdio \<Rightarrow> (int \<times> 'k stdio) option) \<Rightarrow>
   'k platform \<Rightarrow> addr \<Rightarrow> 'k stdio \<Rightarrow> (int \<times> 'k stdio) option" where
  "flush_if b flush K p w = do { f \<leftarrow> files w p; if has f b then flush K p w else Some (0, w) }"

section \<open>Writing\<close>

text \<open>The loop of the unbuffered \<open>__fwrite_unlocked\<close>; \<open>Inl\<close> is the early return of \<open>EOF\<close>.\<close>

partial_function (option) fwrite_loop ::
  "'k platform \<Rightarrow> addr \<Rightarrow> addr \<Rightarrow> nat \<Rightarrow> nat \<Rightarrow> 'k stdio \<Rightarrow> ((unit + nat) \<times> 'k stdio) option" where
  "fwrite_loop K p ptr len done w =
     (if done < len then do {
        (written, w) \<leftarrow> stdio_impl_write K (ptr + done) (len - done) p w;
        if written = 0 then Some (Inl (), change p (raise FLAG_EOF) w)
        else if written = - 1 then Some (Inl (), change p (raise FLAG_ERROR) w)
        else fwrite_loop K p ptr len (uadd done written) w
      } else Some (Inr done, w))"

text \<open>
  \<open>__fwrite_unlocked\<close> up to the byte-wise output of a buffered stream: the result with which it
  returns, or \<open>None\<close> in front of that output.  The results \<open>EOF\<close> are converted to \<open>size_t\<close>.
\<close>

definition fwrite_direct ::
  "'k platform \<Rightarrow> addr \<Rightarrow> nat \<Rightarrow> nat \<Rightarrow> addr \<Rightarrow> 'k stdio \<Rightarrow> (nat option \<times> 'k stdio) option" where
  "fwrite_direct K ptr n nmemb p w =
     (if n = 0 \<or> nmemb = 0 then Some (Some 0, w)
      else do {
        f \<leftarrow> files w p;
        if \<not> has f MODE_WRITE then Some (Some SIZE_MAX, bad_stream p w)
        else do {
          (r, w) \<leftarrow> ensure_buffer K p w;
          if r = EOF then Some (Some SIZE_MAX, w)
          else do {
            f \<leftarrow> files w p;
            if buffer_mode f = IONBF then
              (if \<not> impl_write f then Some (Some SIZE_MAX, bad_stream p w)
               else do {
                 let w = change p (\<lambda>f. lower FLAG_EOF (raise DIRECTION_WRITE f)) w;
                 (r, w) \<leftarrow> fwrite_loop K p ptr (size64 (n * nmemb)) 0 w;
                 Some (Some (case r of Inl _ \<Rightarrow> SIZE_MAX | Inr done \<Rightarrow> done div n), w)
               })
            else Some (None, w)
          }
        }
      })"

text \<open>
  \<open>fputc\<close> calls \<open>__fwrite_unlocked\<close> for an unbuffered stream only, where the latter does not come to
  its byte-wise output (\<open>None\<close>).  The byte is in a local variable of \<open>fputc\<close>.
\<close>

definition fputc_direct :: "'k platform \<Rightarrow> byte \<Rightarrow> addr \<Rightarrow> 'k stdio \<Rightarrow> (int \<times> 'k stdio) option" where
  "fputc_direct K c8 p w = do {
     (r, w') \<leftarrow> fwrite_direct K (frame K) 1 1 p (w\<lparr>w_mem := (w_mem w)(frame K \<mapsto> c8)\<rparr>);
     n \<leftarrow> r;
     Some (if n \<noteq> 1 then EOF else uv c8, w'\<lparr>w_mem := (w_mem w')(frame K := w_mem w (frame K))\<rparr>)
   }"

definition fputc_unlocked :: "'k platform \<Rightarrow> int \<Rightarrow> addr \<Rightarrow> 'k stdio \<Rightarrow> (int \<times> 'k stdio) option" where
  "fputc_unlocked K c p w = do {
     let c8 = to_byte c;
     (r, w) \<leftarrow> ensure_buffer K p w;
     if r = EOF then Some (EOF, w)
     else do {
       f \<leftarrow> files w p;
       if buffer_mode f = IONBF then fputc_direct K c8 p w
       else do {
         (r, w) \<leftarrow> flush_if DIRECTION_READ fflush_read_unlocked K p w;
         if r = EOF then Some (EOF, w)
         else do {
           f \<leftarrow> files w p;
           (r, w) \<leftarrow> (if buffered_bytes_write f = buffer_size f then fflush_write_unlocked K p w else Some (0, w));
           if r = EOF then Some (EOF, w)
           else do {
             f \<leftarrow> files w p;
             m \<leftarrow> wr (w_mem w) (buffer f + buffered_bytes_write f) c8;
             let w = change p (\<lambda>f. raise DIRECTION_WRITE (lower DIRECTION_READ f)
               \<lparr>buffered_bytes_write := uadd (buffered_bytes_write f) 1\<rparr>) (w\<lparr>w_mem := m\<rparr>);
             (r, w) \<leftarrow> (if buffer_mode f = IOLBF \<and> c8 = 10 then fflush_write_unlocked K p w else Some (0, w));
             Some (if r = EOF then EOF else uv c8, w)
           }
         }
       }
     }
   }"

text \<open>One item of \<open>size\<close> bytes; the result says whether all were put.\<close>

fun fwrite_bytes :: "'k platform \<Rightarrow> addr \<Rightarrow> nat \<Rightarrow> addr \<Rightarrow> 'k stdio \<Rightarrow> (bool \<times> 'k stdio) option" where
  "fwrite_bytes K a 0 p w = Some (True, w)"
| "fwrite_bytes K a (Suc n) p w = do {
     b \<leftarrow> w_mem w a;
     (r, w) \<leftarrow> fputc_unlocked K (uv b) p w;
     if r = EOF then Some (False, w) else fwrite_bytes K (a + 1) n p w
   }"

text \<open>The items from the \<open>e\<close>-th on, \<open>k\<close> of them: the result is the number of the last \<open>e\<close>.\<close>

fun fwrite_items :: "'k platform \<Rightarrow> addr \<Rightarrow> nat \<Rightarrow> nat \<Rightarrow> nat \<Rightarrow> addr \<Rightarrow> 'k stdio \<Rightarrow> (nat \<times> 'k stdio) option" where
  "fwrite_items K ptr n 0 e p w = Some (e, w)"
| "fwrite_items K ptr n (Suc k) e p w = do {
     (ok, w) \<leftarrow> fwrite_bytes K (ptr + e * n) n p w;
     if \<not> ok then Some (e, w) else fwrite_items K ptr n k (e + 1) p w
   }"

definition fwrite_unlocked ::
  "'k platform \<Rightarrow> addr \<Rightarrow> nat \<Rightarrow> nat \<Rightarrow> addr \<Rightarrow> 'k stdio \<Rightarrow> (nat \<times> 'k stdio) option" where
  "fwrite_unlocked K ptr n nmemb p w = do {
     (r, w) \<leftarrow> fwrite_direct K ptr n nmemb p w;
     case r of Some r \<Rightarrow> Some (r, w) | None \<Rightarrow> fwrite_items K ptr n nmemb 0 p w
   }"

section \<open>Reading\<close>

text \<open>
  The loop of the unbuffered \<open>__fread_unlocked\<close>, which ends with the number of bytes read also
  at the end of the file and after an error.
\<close>

partial_function (option) fread_loop ::
  "'k platform \<Rightarrow> addr \<Rightarrow> addr \<Rightarrow> nat \<Rightarrow> nat \<Rightarrow> 'k stdio \<Rightarrow> (nat \<times> 'k stdio) option" where
  "fread_loop K p ptr len done w =
     (if done < len then do {
        (r, w) \<leftarrow> stdio_impl_read K (ptr + done) (len - done) p w;
        if r = 0 then Some (done, change p (raise FLAG_EOF) w)
        else if r = - 1 then Some (done, change p (raise FLAG_ERROR) w)
        else fread_loop K p ptr len (uadd done r) w
      } else Some (done, w))"

definition fread_direct ::
  "'k platform \<Rightarrow> addr \<Rightarrow> nat \<Rightarrow> nat \<Rightarrow> addr \<Rightarrow> 'k stdio \<Rightarrow> (nat option \<times> 'k stdio) option" where
  "fread_direct K ptr n nmemb p w =
     (if n = 0 \<or> nmemb = 0 then Some (Some 0, w)
      else do {
        f \<leftarrow> files w p;
        if \<not> has f MODE_READ then Some (Some SIZE_MAX, bad_stream p w)
        else do {
          (r, w) \<leftarrow> ensure_buffer K p w;
          if r = EOF then Some (Some SIZE_MAX, w)
          else do {
            f \<leftarrow> files w p;
            if buffer_mode f = IONBF then
              (if \<not> impl_read f then Some (Some SIZE_MAX, bad_stream p w)
               else do {
                 let w = change p (\<lambda>f. lower FLAG_EOF (raise DIRECTION_READ f)) w;
                 (done, w) \<leftarrow> fread_loop K p ptr (size64 (n * nmemb)) 0 w;
                 Some (Some (done div n), w)
               })
            else Some (None, w)
          }
        }
      })"

text \<open>The unbuffered \<open>fgetc\<close>: one byte into its local variable.\<close>

definition fgetc_direct :: "'k platform \<Rightarrow> addr \<Rightarrow> 'k stdio \<Rightarrow> (int \<times> 'k stdio) option" where
  "fgetc_direct K p w = do {
     (r, w') \<leftarrow> fread_direct K (frame K) 1 1 p (w\<lparr>w_mem := (w_mem w)(frame K \<mapsto> 0)\<rparr>);
     n \<leftarrow> r;
     c8 \<leftarrow> w_mem w' (frame K);
     Some (if n \<noteq> 1 then EOF else uv c8, w'\<lparr>w_mem := (w_mem w')(frame K := w_mem w (frame K))\<rparr>)
   }"

text \<open>Filling an empty buffer; \<open>impl_read\<close> is not checked.\<close>

definition fill_buffer :: "'k platform \<Rightarrow> addr \<Rightarrow> 'k stdio \<Rightarrow> (int \<times> 'k stdio) option" where
  "fill_buffer K p w = do {
     f \<leftarrow> files w p;
     let unget_space = (if UNGET_SPACE \<ge> buffer_size f then 0 else UNGET_SPACE);
     if \<not> impl_read f then None
     else do {
       (r, w) \<leftarrow> stdio_impl_read K (buffer f + unget_space) (buffer_size f - unget_space) p w;
       if r = 0 then Some (EOF, change p (raise FLAG_EOF) w)
       else if r = - 1 then Some (EOF, change p (raise FLAG_ERROR) w)
       else Some (0, change p (\<lambda>f. f\<lparr>buffered_bytes_read := uadd unget_space r,
         buffered_bytes_read_offset := unget_space\<rparr>) w)
     }
   }"

definition fgetc_unlocked :: "'k platform \<Rightarrow> addr \<Rightarrow> 'k stdio \<Rightarrow> (int \<times> 'k stdio) option" where
  "fgetc_unlocked K p w = do {
     (r, w) \<leftarrow> ensure_buffer K p w;
     if r = EOF then Some (EOF, w)
     else do {
       f \<leftarrow> files w p;
       if buffer_mode f = IONBF then fgetc_direct K p w
       else do {
         (r, w) \<leftarrow> flush_if DIRECTION_WRITE fflush_write_unlocked K p w;
         if r = EOF then Some (EOF, w)
         else do {
           let w = change p (\<lambda>f. raise DIRECTION_READ (lower DIRECTION_WRITE f)) w;
           f \<leftarrow> files w p;
           (r, w) \<leftarrow> (if buffered_bytes_read_offset f \<ge> buffered_bytes_read f then fill_buffer K p w else Some (0, w));
           if r = EOF then Some (EOF, w)
           else do {
             f \<leftarrow> files w p;
             b \<leftarrow> w_mem w (buffer f + buffered_bytes_read_offset f);
             Some (uv b, change p (\<lambda>f. f\<lparr>buffered_bytes_read_offset := uadd (buffered_bytes_read_offset f) 1\<rparr>) w)
           }
         }
       }
     }
   }"

fun fread_bytes :: "'k platform \<Rightarrow> addr \<Rightarrow> nat \<Rightarrow> addr \<Rightarrow> 'k stdio \<Rightarrow> (bool \<times> 'k stdio) option" where
  "fread_bytes K a 0 p w = Some (True, w)"
| "fread_bytes K a (Suc n) p w = do {
     (c, w) \<leftarrow> fgetc_unlocked K p w;
     if c = EOF then Some (False, w)
     else do { m \<leftarrow> wr (w_mem w) a (to_byte c); fread_bytes K (a + 1) n p (w\<lparr>w_mem := m\<rparr>) }
   }"

fun fread_items :: "'k platform \<Rightarrow> addr \<Rightarrow> nat \<Rightarrow> nat \<Rightarrow> nat \<Rightarrow> addr \<Rightarrow> 'k stdio \<Rightarrow> (nat \<times> 'k stdio) option" where
  "fread_items K ptr n 0 e p w = Some (e, w)"
| "fread_items K ptr n (Suc k) e p w = do {
     (ok, w) \<leftarrow> fread_bytes K (ptr + e * n) n p w;
     if \<not> ok then Some (e, w) else fread_items K ptr n k (e + 1) p w
   }"

definition fread_unlocked ::
  "'k platform \<Rightarrow> addr \<Rightarrow> nat \<Rightarrow> nat \<Rightarrow> addr \<Rightarrow> 'k stdio \<Rightarrow> (nat \<times> 'k stdio) option" where
  "fread_unlocked K ptr n nmemb p w = do {
     (r, w) \<leftarrow> fread_direct K ptr n nmemb p w;
     case r of Some r \<Rightarrow> Some (r, w) | None \<Rightarrow> fread_items K ptr n nmemb 0 p w
   }"

section \<open>Pushing back\<close>

text \<open>Making room at the left end of the buffer: \<open>False\<close> when the buffer is full.\<close>

definition unget_room :: "addr \<Rightarrow> 'k stdio \<Rightarrow> (bool \<times> 'k stdio) option" where
  "unget_room p w = do {
     f \<leftarrow> files w p;
     if buffered_bytes_read_offset f = 0 then
       let bytes = usub (buffered_bytes_read f) (buffered_bytes_read_offset f);
           space = usub (buffer_size f) bytes in
       if space = 0 then Some (False, w)
       else do {
         (_, m) \<leftarrow> memmove (w_mem w) (buffer f + space) (buffer f) bytes;
         Some (True, change p (\<lambda>f. f\<lparr>buffered_bytes_read_offset := space, buffered_bytes_read := space + bytes\<rparr>)
           (w\<lparr>w_mem := m\<rparr>))
       }
     else Some (True, w)
   }"

definition fungetc_unlocked :: "'k platform \<Rightarrow> int \<Rightarrow> addr \<Rightarrow> 'k stdio \<Rightarrow> (int \<times> 'k stdio) option" where
  "fungetc_unlocked K c p w = do {
     (r, w) \<leftarrow> ensure_buffer K p w;
     if r = EOF then Some (EOF, w)
     else do {
       f \<leftarrow> files w p;
       if buffer_mode f = IONBF then Some (EOF, bad_stream p w)
       else do {
         (r, w) \<leftarrow> flush_if DIRECTION_WRITE fflush_write_unlocked K p w;
         if r = EOF then Some (EOF, w)
         else do {
           let w = change p (\<lambda>f. lower FLAG_EOF (raise DIRECTION_READ f)) w;
           if c = EOF then Some (EOF, w)
           else do {
             let c8 = to_byte c;
             (room, w) \<leftarrow> unget_room p w;
             if \<not> room then Some (EOF, w)
             else do {
               f \<leftarrow> files w p;
               let pos = buffered_bytes_read_offset f - 1;
               m \<leftarrow> wr (w_mem w) (buffer f + pos) c8;
               Some (uv c8, change p (\<lambda>f. f\<lparr>buffered_bytes_read_offset := pos\<rparr>) (w\<lparr>w_mem := m\<rparr>))
             }
           }
         }
       }
     }
   }"

section \<open>Position and error state\<close>

definition fseeko_unlocked :: "'k platform \<Rightarrow> addr \<Rightarrow> int \<Rightarrow> int \<Rightarrow> 'k stdio \<Rightarrow> (int \<times> 'k stdio) option" where
  "fseeko_unlocked K p offset whence w = do {
     f \<leftarrow> files w p;
     if impl_seek f then stdio_impl_seek K p offset whence w
     else Some (EOF, w\<lparr>w_errno := ENOTSUP\<rparr>)
   }"

definition ftello_unlocked :: "'k platform \<Rightarrow> addr \<Rightarrow> 'k stdio \<Rightarrow> (int \<times> 'k stdio) option" where
  "ftello_unlocked K p w = do {
     f \<leftarrow> files w p;
     if impl_tell f then stdio_impl_tell K p w else Some (EOF, w\<lparr>w_errno := ENOTSUP\<rparr>)
   }"

definition clearerr_unlocked :: "addr \<Rightarrow> 'k stdio \<Rightarrow> 'k stdio option" where
  "clearerr_unlocked p w = do {
     f \<leftarrow> files w p;
     Some (if impl_clearerr f then stdio_impl_clearerr p w else w\<lparr>w_errno := ENOTSUP\<rparr>)
   }"

end
