(* ===== verification/Stdio_Streams.thy ===== *)
theory Stdio_Streams
  imports Stdio Printf
begin

text \<open>
  The functions of \<open>stdio\<close> on top of the unlocked operations: locking, the list of open streams,
  opening and closing, formatted output to a stream, and the initialisation and finalisation of the
  standard streams.
\<close>

section \<open>Locks\<close>

definition lock_acquire :: "'k platform \<Rightarrow> nat \<Rightarrow> 'k stdio \<Rightarrow> 'k stdio option" where
  "lock_acquire K l w = do { k \<leftarrow> mutex_acquire K l (w_k w); Some (w\<lparr>w_k := k\<rparr>) }"

definition lock_release :: "'k platform \<Rightarrow> nat \<Rightarrow> 'k stdio \<Rightarrow> 'k stdio" where
  "lock_release K l w = w\<lparr>w_k := mutex_release K l (w_k w)\<rparr>"

definition lock_destroy :: "'k platform \<Rightarrow> nat \<Rightarrow> 'k stdio \<Rightarrow> 'k stdio" where
  "lock_destroy K l w = w\<lparr>w_k := mutex_destroy K l (w_k w)\<rparr>"

definition lock_initialize :: "'k platform \<Rightarrow> 'k stdio \<Rightarrow> nat \<times> 'k stdio" where
  "lock_initialize K w = (let (l, k) = mutex_initialize K (w_k w) in (l, w\<lparr>w_k := k\<rparr>))"

text \<open>
  \<open>g_mutex_acquire(stream->lock); res = ...; g_mutex_release(stream->lock)\<close>: the lock is read from
  the stream each time.
\<close>

definition locked ::
  "'k platform \<Rightarrow> addr \<Rightarrow> ('k stdio \<Rightarrow> ('r \<times> 'k stdio) option) \<Rightarrow> 'k stdio \<Rightarrow> ('r \<times> 'k stdio) option" where
  "locked K p operation w = do {
     f \<leftarrow> files w p;
     w \<leftarrow> lock_acquire K (lock f) w;
     (res, w) \<leftarrow> operation w;
     f \<leftarrow> files w p;
     Some (res, lock_release K (lock f) w)
   }"

section \<open>The list of open streams\<close>

definition open_file_list_initialize :: "'k platform \<Rightarrow> 'k stdio \<Rightarrow> 'k stdio" where
  "open_file_list_initialize K w =
     (let (l, w) = lock_initialize K w in w\<lparr>open_file_list_lock := l\<rparr>)"

text \<open>Writing through a pointer to no stream is undefined.\<close>

definition assign :: "addr \<Rightarrow> (FILE \<Rightarrow> FILE) \<Rightarrow> 'k stdio \<Rightarrow> 'k stdio option" where
  "assign p g w = (case files w p of None \<Rightarrow> None | Some _ \<Rightarrow> Some (change p g w))"

definition list_insert :: "addr \<Rightarrow> 'k stdio \<Rightarrow> 'k stdio option" where
  "list_insert file w = do {
     let first = open_file_list w;
     w \<leftarrow> (if first \<noteq> NULL then do {
             w \<leftarrow> assign first (\<lambda>f. f\<lparr>prev_file := file\<rparr>) w;
             assign file (\<lambda>f. f\<lparr>next_file := first\<rparr>) w
           } else Some w);
     Some (w\<lparr>open_file_list := file\<rparr>)
   }"

definition open_file_list_add :: "'k platform \<Rightarrow> addr \<Rightarrow> 'k stdio \<Rightarrow> 'k stdio option" where
  "open_file_list_add K file w = do {
     w \<leftarrow> lock_acquire K (open_file_list_lock w) w;
     w \<leftarrow> list_insert file w;
     Some (lock_release K (open_file_list_lock w) w)
   }"

definition list_unlink :: "addr \<Rightarrow> 'k stdio \<Rightarrow> 'k stdio option" where
  "list_unlink file w = do {
     f \<leftarrow> files w file;
     let w = (if file = open_file_list w then w\<lparr>open_file_list := next_file f\<rparr> else w);
     w \<leftarrow> (if prev_file f \<noteq> NULL then assign (prev_file f) (\<lambda>g. g\<lparr>next_file := next_file f\<rparr>) w else Some w);
     f \<leftarrow> files w file;
     if next_file f \<noteq> NULL then assign (next_file f) (\<lambda>g. g\<lparr>prev_file := prev_file f\<rparr>) w else Some w
   }"

definition open_file_list_remove :: "'k platform \<Rightarrow> addr \<Rightarrow> 'k stdio \<Rightarrow> 'k stdio option" where
  "open_file_list_remove K file w = do {
     w \<leftarrow> lock_acquire K (open_file_list_lock w) w;
     w \<leftarrow> list_unlink file w;
     Some (lock_release K (open_file_list_lock w) w)
   }"

section \<open>Modes\<close>

text \<open>The mode is given by the bytes in front of its terminator.\<close>

definition mode_start :: "byte list \<Rightarrow> int option" where
  "mode_start mode = (case mode of
     [] \<Rightarrow> None
   | c # _ \<Rightarrow>
       if c = bc CHR ''r'' then Some (set_bit MODE_READ 0)
       else if c = bc CHR ''w'' then Some (set_bit MODE_WRITE (set_bit MODE_CREATE (set_bit MODE_TRUNCATE 0)))
       else if c = bc CHR ''a'' then Some (set_bit MODE_WRITE (set_bit MODE_CREATE (set_bit MODE_APPEND 0)))
       else None)"

fun mode_loop :: "byte list \<Rightarrow> int \<Rightarrow> int option" where
  "mode_loop [] fl = Some fl"
| "mode_loop (c # s) fl =
     (if c = bc CHR ''+'' then mode_loop s (set_bit MODE_READ (set_bit MODE_WRITE fl))
      else if c = bc CHR ''t'' then mode_loop s (set_bit MODE_TEXTUAL (unset_bit MODE_BINARY fl))
      else if c = bc CHR ''b'' then mode_loop s (set_bit MODE_BINARY (unset_bit MODE_TEXTUAL fl))
      else None)"

definition parse_mode_flags :: "byte list \<Rightarrow> 'k stdio \<Rightarrow> int \<times> 'k stdio" where
  "parse_mode_flags mode w = (case mode_start mode of
     None \<Rightarrow> (EOF, w\<lparr>w_errno := EINVAL\<rparr>)
   | Some fl \<Rightarrow> (case mode_loop (tl mode) fl of
       None \<Rightarrow> (EOF, w\<lparr>w_errno := EINVAL\<rparr>)
     | Some fl \<Rightarrow> (fl, w)))"

section \<open>Opening and closing\<close>

text \<open>A structure of zero bytes.\<close>

definition zero_FILE :: FILE where
  "zero_FILE = \<lparr>file_descriptor = 0, lock = 0, buffer = NULL, buffer_size = 0, buffer_mode = 0,
     buffered_bytes_write = 0, buffered_bytes_read = 0, buffered_bytes_read_offset = 0,
     impl_read = False, impl_write = False, impl_seek = False, impl_tell = False,
     impl_close = False, impl_reopen = False, impl_fileno = False, impl_eof = False,
     impl_error = False, impl_clearerr = False, impl_seterr = False, flags = 0,
     prev_file = NULL, next_file = NULL\<rparr>"

text \<open>\<open>impl_clearerr\<close> and \<open>impl_seterr\<close> are not set.\<close>

definition fdopen_static :: "'k platform \<Rightarrow> int \<Rightarrow> byte list \<Rightarrow> addr \<Rightarrow> 'k stdio \<Rightarrow> (int \<times> 'k stdio) option" where
  "fdopen_static K fd mode file w =
     (let (fl, w) = parse_mode_flags mode w in
      if fl = EOF then Some (EOF, w)
      else let (l, w) = lock_initialize K w in do {
        w \<leftarrow> assign file (\<lambda>f. f\<lparr>lock := l, file_descriptor := fd, flags := word_of_int fl, buffer_mode := IONBF,
          impl_close := True, impl_read := True, impl_write := True, impl_seek := True, impl_tell := True,
          impl_fileno := True, impl_reopen := True, impl_error := True, impl_eof := True\<rparr>) w;
        w \<leftarrow> open_file_list_add K file w;
        Some (0, w)
      })"

text \<open>The result says whether \<open>file\<close> or \<open>NULL\<close> is returned.\<close>

definition fopen_static ::
  "'k platform \<Rightarrow> addr \<Rightarrow> byte list \<Rightarrow> addr \<Rightarrow> 'k stdio \<Rightarrow> (addr \<times> 'k stdio) option" where
  "fopen_static K filename mode file w =
     (let (fl, w) = parse_mode_flags mode w in
      if fl = EOF then Some (NULL, w)
      else let (fd, w) = c_open K filename fl w in
        if fd = - 1 then Some (NULL, w)
        else do {
          (r, w) \<leftarrow> fdopen_static K fd mode file w;
          Some (if r = 0 then (file, w) else (NULL, snd (c_close K fd w)))
        })"

definition fclose_static_unlocked :: "'k platform \<Rightarrow> addr \<Rightarrow> 'k stdio \<Rightarrow> (int \<times> 'k stdio) option" where
  "fclose_static_unlocked K p w = do {
     (_, w) \<leftarrow> fflush_unlocked K p w;
     f \<leftarrow> files w p;
     if \<not> impl_close f then None
     else do {
       (r, w) \<leftarrow> stdio_impl_close K p w;
       if r \<noteq> 0 then Some (EOF, w)
       else do {
         f \<leftarrow> files w p;
         let w = (if has f BUFFER_SET \<and> buffer f \<noteq> NULL \<and> has f OWNER_LIBRARY
                  then w\<lparr>w_mem := heap_free K (buffer f) (w_mem w)\<rparr> else w);
         let w = w\<lparr>files := (files w)(p \<mapsto> zero_FILE)\<rparr>;
         w \<leftarrow> open_file_list_remove K p w;
         Some (0, w)
       }
     }
   }"

definition fclose_static :: "'k platform \<Rightarrow> addr \<Rightarrow> 'k stdio \<Rightarrow> (int \<times> 'k stdio) option" where
  "fclose_static K p w = do {
     f \<leftarrow> files w p;
     let l = lock f;
     w \<leftarrow> lock_acquire K l w;
     (res, w) \<leftarrow> fclose_static_unlocked K p w;
     Some (res, lock_destroy K l w)
   }"

text \<open>A \<open>FILE\<close> on the heap; \<open>168\<close> is \<open>sizeof(FILE)\<close>.\<close>

definition alloc_FILE :: "'k platform \<Rightarrow> 'k stdio \<Rightarrow> addr \<times> 'k stdio" where
  "alloc_FILE K w = (let (p, m) = heap_malloc K 168 (w_mem w); w = w\<lparr>w_mem := m\<rparr> in
     if p = NULL then (NULL, w\<lparr>w_errno := ENOMEM\<rparr>) else (p, w\<lparr>files := (files w)(p \<mapsto> zero_FILE)\<rparr>))"

definition free_FILE :: "'k platform \<Rightarrow> addr \<Rightarrow> 'k stdio \<Rightarrow> 'k stdio" where
  "free_FILE K p w = w\<lparr>w_mem := heap_free K p (w_mem w), files := (files w)(p := None)\<rparr>"

definition fopen :: "'k platform \<Rightarrow> addr \<Rightarrow> byte list \<Rightarrow> 'k stdio \<Rightarrow> (addr \<times> 'k stdio) option" where
  "fopen K filename mode w =
     (let (file, w) = alloc_FILE K w in
      if file = NULL then Some (NULL, w)
      else do {
        (res, w) \<leftarrow> fopen_static K filename mode file w;
        Some (if res = NULL then (NULL, free_FILE K file w) else (res, w))
      })"

text \<open>After a failure the structure is not freed.\<close>

definition fdopen :: "'k platform \<Rightarrow> int \<Rightarrow> byte list \<Rightarrow> 'k stdio \<Rightarrow> (addr \<times> 'k stdio) option" where
  "fdopen K fd mode w =
     (let (file, w) = alloc_FILE K w in
      if file = NULL then Some (NULL, w)
      else do {
        (r, w) \<leftarrow> fdopen_static K fd mode file w;
        Some (if r = EOF then NULL else file, w)
      })"

definition fclose :: "'k platform \<Rightarrow> addr \<Rightarrow> 'k stdio \<Rightarrow> (int \<times> 'k stdio) option" where
  "fclose K p w =
     (if p = NULL then Some (EOF, w)
      else do {
        (res, w) \<leftarrow> fclose_static K p w;
        Some (if res \<noteq> 0 then (EOF, w) else (0, free_FILE K p w))
      })"

definition stdio_impl_reopen ::
  "'k platform \<Rightarrow> addr \<Rightarrow> byte list \<Rightarrow> addr \<Rightarrow> 'k stdio \<Rightarrow> (addr \<times> 'k stdio) option" where
  "stdio_impl_reopen K filename mode p w =
     (if filename = NULL then
        (let (newmode, w) = parse_mode_flags mode w in
         if newmode = EOF then Some (NULL, w)
         else do {
           w \<leftarrow> assign p (\<lambda>f. f\<lparr>flags := or (and (flags f) (not 0xFFFF)) (word_of_int newmode)\<rparr>) w;
           Some (p, w)
         })
      else do {
        (r, w) \<leftarrow> fclose_static_unlocked K p w;
        if r \<noteq> 0 then Some (NULL, w) else fopen_static K filename mode p w
      })"

definition freopen ::
  "'k platform \<Rightarrow> addr \<Rightarrow> byte list \<Rightarrow> addr \<Rightarrow> 'k stdio \<Rightarrow> (addr \<times> 'k stdio) option" where
  "freopen K filename mode p w = locked K p (\<lambda>w. do {
     f \<leftarrow> files w p;
     if impl_reopen f then stdio_impl_reopen K filename mode p w
     else Some (NULL, w\<lparr>w_errno := ENOTSUP\<rparr>)
   }) w"

section \<open>Characters and blocks\<close>

definition fputc :: "'k platform \<Rightarrow> int \<Rightarrow> addr \<Rightarrow> 'k stdio \<Rightarrow> (int \<times> 'k stdio) option" where
  "fputc K c p w = locked K p (fputc_unlocked K c p) w"

definition c_putc :: "'k platform \<Rightarrow> int \<Rightarrow> addr \<Rightarrow> 'k stdio \<Rightarrow> (int \<times> 'k stdio) option" where
  "c_putc K c p w = locked K p (fputc_unlocked K c p) w"

definition fgetc :: "'k platform \<Rightarrow> addr \<Rightarrow> 'k stdio \<Rightarrow> (int \<times> 'k stdio) option" where
  "fgetc K p w = locked K p (fgetc_unlocked K p) w"

definition c_getc :: "'k platform \<Rightarrow> addr \<Rightarrow> 'k stdio \<Rightarrow> (int \<times> 'k stdio) option" where
  "c_getc K p w = locked K p (fgetc_unlocked K p) w"

definition ungetc :: "'k platform \<Rightarrow> int \<Rightarrow> addr \<Rightarrow> 'k stdio \<Rightarrow> (int \<times> 'k stdio) option" where
  "ungetc K c p w = locked K p (fungetc_unlocked K c p) w"

definition fungetc :: "'k platform \<Rightarrow> int \<Rightarrow> addr \<Rightarrow> 'k stdio \<Rightarrow> (int \<times> 'k stdio) option" where
  "fungetc K c p w = locked K p (fungetc_unlocked K c p) w"

definition fwrite :: "'k platform \<Rightarrow> addr \<Rightarrow> nat \<Rightarrow> nat \<Rightarrow> addr \<Rightarrow> 'k stdio \<Rightarrow> (nat \<times> 'k stdio) option" where
  "fwrite K ptr n nmemb p w = locked K p (fwrite_unlocked K ptr n nmemb p) w"

definition fread :: "'k platform \<Rightarrow> addr \<Rightarrow> nat \<Rightarrow> nat \<Rightarrow> addr \<Rightarrow> 'k stdio \<Rightarrow> (nat \<times> 'k stdio) option" where
  "fread K ptr n nmemb p w =
     (if p = NULL then Some (SIZE_MAX, w) else locked K p (fread_unlocked K ptr n nmemb p) w)"

text \<open>The number of items written (one) is compared with the length.\<close>

definition fputs :: "'k platform \<Rightarrow> addr \<Rightarrow> addr \<Rightarrow> 'k stdio \<Rightarrow> (int \<times> 'k stdio) option" where
  "fputs K s p w = do {
     len \<leftarrow> strlen (w_mem w) s;
     (written, w) \<leftarrow> fwrite K s len 1 p w;
     Some (if written = len then s32 (int written) else EOF, w)
   }"

section \<open>Flushing all streams\<close>

definition fflush_one :: "'k platform \<Rightarrow> addr \<Rightarrow> 'k stdio \<Rightarrow> (int \<times> 'k stdio) option" where
  "fflush_one K p w = locked K p (fflush_unlocked K p) w"

text \<open>\<open>ret |= fflush(ns)\<close> down the list.\<close>

partial_function (option) fflush_list :: "'k platform \<Rightarrow> addr \<Rightarrow> int \<Rightarrow> 'k stdio \<Rightarrow> (int \<times> 'k stdio) option" where
  "fflush_list K ns ret w =
     (if ns = NULL then Some (ret, w)
      else do {
        (r, w) \<leftarrow> fflush_one K ns w;
        f \<leftarrow> files w ns;
        fflush_list K (next_file f) (or ret r) w
      })"

definition fflush :: "'k platform \<Rightarrow> addr \<Rightarrow> 'k stdio \<Rightarrow> (int \<times> 'k stdio) option" where
  "fflush K p w = (if p = NULL then fflush_list K (open_file_list w) 0 w else fflush_one K p w)"

end
