(* ===== verification/Stdio_API.thy ===== *)
theory Stdio_API
  imports Stdio_Streams
begin

text \<open>
  The rest of the stream functions of \<open>libc/src/stdio\<close>: error state, positions, formatted output,
  lines, temporary files, whole files, and the standard streams with their initialisation and
  finalisation.
\<close>

section \<open>Error state and positions\<close>

definition feof :: "'k platform \<Rightarrow> addr \<Rightarrow> 'k stdio \<Rightarrow> (int \<times> 'k stdio) option" where
  "feof K p w = locked K p (\<lambda>w. do {
     f \<leftarrow> files w p;
     Some (if impl_eof f then (stdio_impl_eof f, w) else (EOF, w\<lparr>w_errno := ENOTSUP\<rparr>))
   }) w"

definition ferror :: "'k platform \<Rightarrow> addr \<Rightarrow> 'k stdio \<Rightarrow> (int \<times> 'k stdio) option" where
  "ferror K p w =
     (if p = NULL then Some (EOF, w)
      else locked K p (\<lambda>w. do {
        f \<leftarrow> files w p;
        Some (if impl_error f then (stdio_impl_error f, w) else (EOF, w\<lparr>w_errno := ENOTSUP\<rparr>))
      }) w)"

definition clearerr :: "'k platform \<Rightarrow> addr \<Rightarrow> 'k stdio \<Rightarrow> (unit \<times> 'k stdio) option" where
  "clearerr K p w = locked K p (\<lambda>w. do { w \<leftarrow> clearerr_unlocked p w; Some ((), w) }) w"

definition fseterr :: "'k platform \<Rightarrow> addr \<Rightarrow> 'k stdio \<Rightarrow> (unit \<times> 'k stdio) option" where
  "fseterr K p w = locked K p (\<lambda>w. do {
     f \<leftarrow> files w p;
     Some ((), if impl_seterr f then stdio_impl_seterr p w else w\<lparr>w_errno := ENOTSUP\<rparr>)
   }) w"

definition fseeko :: "'k platform \<Rightarrow> addr \<Rightarrow> int \<Rightarrow> int \<Rightarrow> 'k stdio \<Rightarrow> (int \<times> 'k stdio) option" where
  "fseeko K p offset whence w = locked K p (fseeko_unlocked K p offset whence) w"

definition fseek :: "'k platform \<Rightarrow> addr \<Rightarrow> int \<Rightarrow> int \<Rightarrow> 'k stdio \<Rightarrow> (int \<times> 'k stdio) option" where
  "fseek K p offset whence w = fseeko K p offset whence w"

text \<open>The position passes through a variable of type \<open>int\<close>.\<close>

definition ftello :: "'k platform \<Rightarrow> addr \<Rightarrow> 'k stdio \<Rightarrow> (int \<times> 'k stdio) option" where
  "ftello K p w = do { (r, w) \<leftarrow> locked K p (ftello_unlocked K p) w; Some (s32 r, w) }"

definition ftell :: "'k platform \<Rightarrow> addr \<Rightarrow> 'k stdio \<Rightarrow> (int \<times> 'k stdio) option" where
  "ftell K p w = ftello K p w"

text \<open>The result and the position stored.\<close>

definition fgetpos :: "'k platform \<Rightarrow> addr \<Rightarrow> 'k stdio \<Rightarrow> (int \<times> int \<times> 'k stdio) option" where
  "fgetpos K p w = do { (pos, w) \<leftarrow> ftello K p w; Some (if pos < 0 then - 1 else 0, pos, w) }"

definition fsetpos :: "'k platform \<Rightarrow> addr \<Rightarrow> int \<Rightarrow> 'k stdio \<Rightarrow> (int \<times> 'k stdio) option" where
  "fsetpos K p pos w = do { (r, w) \<leftarrow> fseeko K p pos SEEK_SET w; Some (if r < 0 then - 1 else 0, w) }"

definition rewind :: "'k platform \<Rightarrow> addr \<Rightarrow> 'k stdio \<Rightarrow> (unit \<times> 'k stdio) option" where
  "rewind K p w = locked K p (\<lambda>w. do {
     (_, w) \<leftarrow> fseeko_unlocked K p 0 SEEK_SET w;
     w \<leftarrow> clearerr_unlocked p w;
     Some ((), w)
   }) w"

definition setvbuf :: "'k platform \<Rightarrow> addr \<Rightarrow> addr \<Rightarrow> nat \<Rightarrow> nat \<Rightarrow> 'k stdio \<Rightarrow> (int \<times> 'k stdio) option" where
  "setvbuf K p buf mode n w = locked K p (setvbuf_unlocked K p buf mode n) w"

definition setbuf :: "'k platform \<Rightarrow> addr \<Rightarrow> addr \<Rightarrow> 'k stdio \<Rightarrow> 'k stdio option" where
  "setbuf K p buf w = do {
     (_, w) \<leftarrow> setvbuf K p buf (if buf = NULL then IONBF else IOFBF) BUFSIZ w;
     Some w
   }"

section \<open>Formatted output\<close>

text \<open>
  The string a piece of output is in belongs to \<open>vcbprintf\<close> or to the format: it is laid out at an
  address of its own for the call, behind the frame address of the model.  The result is converted to
  \<open>ssize_t\<close>, which changes only values a string length cannot have.
\<close>

definition vfprintf_callback :: "'k platform \<Rightarrow> addr \<Rightarrow> 'k stdio callback" where
  "vfprintf_callback K p w string m = do {
     (r, w') \<leftarrow> fwrite_unlocked K (frame K + 1) 1 (length string) p (w\<lparr>w_mem := store m (frame K + 1) string\<rparr>);
     Some (if r = length string then int r else s64 (int r), w', (\<lambda>a. if frame K + 1 \<le> a \<and> a < frame K + 1 + length string then m a else w_mem w' a))
   }"

text \<open>
  \<open>vcbprintf\<close> and the callback set the same \<open>errno\<close>; \<open>vcbprintf\<close> returns right after it has set
  it, which is seen from a value no error number has.
\<close>

definition vfprintf_unlocked ::
  "'k platform \<Rightarrow> addr \<Rightarrow> byte list \<Rightarrow> va_list \<Rightarrow> 'k stdio \<Rightarrow> (int \<times> 'k stdio) option" where
  "vfprintf_unlocked K p format arg w = do {
     f \<leftarrow> files w p;
     if \<not> has f MODE_WRITE then Some (EOF, bad_stream p w)
     else do {
       (r, st) \<leftarrow> vcbprintf (vfprintf_callback K p) format arg
         \<lparr>written = 0, perrno = - 1, param = w, pmem = w_mem w\<rparr>;
       let w = (param st)\<lparr>w_mem := pmem st\<rparr>;
       Some (r, if perrno st = - 1 then w else w\<lparr>w_errno := perrno st\<rparr>)
     }
   }"

definition vfprintf ::
  "'k platform \<Rightarrow> addr \<Rightarrow> byte list \<Rightarrow> va_list \<Rightarrow> 'k stdio \<Rightarrow> (int \<times> 'k stdio) option" where
  "vfprintf K p format arglist w = locked K p (vfprintf_unlocked K p format arglist) w"

definition fprintf ::
  "'k platform \<Rightarrow> addr \<Rightarrow> byte list \<Rightarrow> va_list \<Rightarrow> 'k stdio \<Rightarrow> (int \<times> 'k stdio) option" where
  "fprintf K p format va w = vfprintf K p format va w"

section \<open>The standard streams\<close>

text \<open>The addresses of the three structures and of their buffers.\<close>

record std_streams =
  stdin :: addr
  stdout :: addr
  stderr :: addr
  stdin_buf :: addr
  stdout_buf :: addr
  stderr_buf :: addr

definition vprintf ::
  "'k platform \<Rightarrow> std_streams \<Rightarrow> byte list \<Rightarrow> va_list \<Rightarrow> 'k stdio \<Rightarrow> (int \<times> 'k stdio) option" where
  "vprintf K S format arg w = vfprintf K (stdout S) format arg w"

definition c_printf ::
  "'k platform \<Rightarrow> std_streams \<Rightarrow> byte list \<Rightarrow> va_list \<Rightarrow> 'k stdio \<Rightarrow> (int \<times> 'k stdio) option" where
  "c_printf K S format va w = vprintf K S format va w"

definition println ::
  "'k platform \<Rightarrow> std_streams \<Rightarrow> byte list \<Rightarrow> va_list \<Rightarrow> 'k stdio \<Rightarrow> (int \<times> 'k stdio) option" where
  "println K S format va w = do {
     (res, w) \<leftarrow> vprintf K S format va w;
     (r, w) \<leftarrow> c_printf K S [10] [] w;
     Some (if r \<noteq> 1 then EOF else res, w)
   }"

definition puts :: "'k platform \<Rightarrow> std_streams \<Rightarrow> addr \<Rightarrow> 'k stdio \<Rightarrow> (int \<times> 'k stdio) option" where
  "puts K S str w = do {
     (ret, w) \<leftarrow> c_printf K S (lit ''%s'' @ [10]) [VWord (int str)] w;
     Some (if ret < 0 then EOF else 1, w)
   }"

definition putchar :: "'k platform \<Rightarrow> std_streams \<Rightarrow> int \<Rightarrow> 'k stdio \<Rightarrow> (int \<times> 'k stdio) option" where
  "putchar K S c w = c_putc K c (stdout S) w"

definition getchar :: "'k platform \<Rightarrow> std_streams \<Rightarrow> 'k stdio \<Rightarrow> (int \<times> 'k stdio) option" where
  "getchar K S w = c_getc K (stdin S) w"

definition memset_FILE :: "addr \<Rightarrow> 'k stdio \<Rightarrow> 'k stdio" where
  "memset_FILE p w = w\<lparr>files := (files w)(p \<mapsto> zero_FILE)\<rparr>"

definition init_stream ::
  "'k platform \<Rightarrow> addr \<Rightarrow> int \<Rightarrow> byte list \<Rightarrow> addr \<Rightarrow> nat \<Rightarrow> 'k stdio \<Rightarrow> 'k stdio option" where
  "init_stream K p fd mode buf bmode w = do {
     (_, w) \<leftarrow> fdopen_static K fd mode p (memset_FILE p w);
     (_, w) \<leftarrow> setvbuf K p buf bmode 1024 w;
     Some w
   }"

definition init_stdio :: "'k platform \<Rightarrow> std_streams \<Rightarrow> 'k stdio \<Rightarrow> 'k stdio option" where
  "init_stdio K S w = do {
     let w = open_file_list_initialize K w;
     w \<leftarrow> init_stream K (stdin S) 0 (lit ''r'') (stdin_buf S) IOLBF w;
     w \<leftarrow> init_stream K (stdout S) 1 (lit ''w'') (stdout_buf S) IOLBF w;
     init_stream K (stderr S) 2 (lit ''w'') (stderr_buf S) IONBF w
   }"

text \<open>The lock that is released is read from the structure that closing has cleared.\<close>

partial_function (option) fini_loop :: "'k platform \<Rightarrow> addr \<Rightarrow> 'k stdio \<Rightarrow> 'k stdio option" where
  "fini_loop K p w =
     (if p = NULL then Some w
      else do {
        f \<leftarrow> files w p;
        w \<leftarrow> (if file_descriptor f > 2 then
                let (b, k) = mutex_try_acquire K (lock f) (w_k w); w = w\<lparr>w_k := k\<rparr> in
                if b then do {
                  (_, w) \<leftarrow> fclose_static_unlocked K p w;
                  f \<leftarrow> files w p;
                  Some (lock_release K (lock f) w)
                } else Some w
              else Some w);
        fini_loop K (next_file f) w
      })"

definition fini_stdio :: "'k platform \<Rightarrow> 'k stdio \<Rightarrow> 'k stdio option" where
  "fini_stdio K w = fini_loop K (open_file_list w) w"

section \<open>Lines, whole files and temporary files\<close>

text \<open>\<open>while(n && (c = fgetc(stream)) != EOF) { *p++ = c; --n; }\<close>; the result is \<open>p\<close>.\<close>

partial_function (option) fgets_loop ::
  "'k platform \<Rightarrow> addr \<Rightarrow> int \<Rightarrow> addr \<Rightarrow> 'k stdio \<Rightarrow> (addr \<times> 'k stdio) option" where
  "fgets_loop K p n stream w =
     (if n = 0 then Some (p, w)
      else do {
        (c, w) \<leftarrow> fgetc K stream w;
        if c = EOF then Some (p, w)
        else do { m \<leftarrow> wr (w_mem w) p (to_byte c); fgets_loop K (p + 1) (s32 (n - 1)) stream (w\<lparr>w_mem := m\<rparr>) }
      })"

text \<open>The last parameter is the address of the format of the log message.\<close>

definition fgets :: "'k platform \<Rightarrow> addr \<Rightarrow> addr \<Rightarrow> int \<Rightarrow> addr \<Rightarrow> 'k stdio \<Rightarrow> (addr \<times> 'k stdio) option" where
  "fgets K message s n stream w = do {
     (p, w) \<leftarrow> fgets_loop K s (s32 (n - 1)) stream w;
     m \<leftarrow> wr (w_mem w) p 0;
     (m, e, logged) \<leftarrow> klog (heap_malloc K) (heap_free K) m (w_errno w) message [VWord (int s)];
     Some (s, w\<lparr>w_mem := m, w_errno := e, w_k := fold (sys_log K) logged (w_k w)\<rparr>)
   }"

partial_function (option) ftostr_loop ::
  "'k platform \<Rightarrow> addr \<Rightarrow> addr \<Rightarrow> int \<Rightarrow> int \<Rightarrow> 'k stdio \<Rightarrow> (int \<times> 'k stdio) option" where
  "ftostr_loop K file buf len done w = do {
     (r, w) \<leftarrow> fread K (buf + nat done) 1 (nat (u64 (len - done))) file w;
     if s64 (int r) > 0 then ftostr_loop K file buf len (s64 (done + s64 (int r))) w else Some (done, w)
   }"

definition ftostr :: "'k platform \<Rightarrow> addr \<Rightarrow> 'k stdio \<Rightarrow> (addr \<times> 'k stdio) option" where
  "ftostr K filename w = do {
     (file, w) \<leftarrow> fopen K filename (lit ''r'') w;
     if file = NULL then Some (NULL, w)
     else do {
       (_, w) \<leftarrow> fseek K file 0 SEEK_END w;
       (len, w) \<leftarrow> ftell K file w;
       if len < 0 then do { (_, w) \<leftarrow> fclose K file w; Some (NULL, w) }
       else do {
         (_, w) \<leftarrow> fseek K file 0 SEEK_SET w;
         let (buf, m) = heap_malloc K (nat len + 1) (w_mem w);
         let w = w\<lparr>w_mem := m\<rparr>;
         if buf = NULL then do { (_, w) \<leftarrow> fclose K file w; Some (NULL, w) }
         else do {
           (done, w) \<leftarrow> ftostr_loop K file buf len 0 w;
           (_, w) \<leftarrow> fclose K file w;
           if done \<noteq> len then Some (NULL, w\<lparr>w_mem := heap_free K buf (w_mem w)\<rparr>)
           else do { m \<leftarrow> wr (w_mem w) (buf + nat len) 0; Some (buf, w\<lparr>w_mem := m\<rparr>) }
         }
       }
     }
   }"

text \<open>The static variables of \<open>tmpnam.c\<close>.\<close>

record tmp_state =
  tmpnam_lock :: nat
  tmpnam_static :: addr
  tmpnam_next :: int

definition tmpnam_buffer ::
  "'k platform \<Rightarrow> addr \<Rightarrow> tmp_state \<Rightarrow> 'k stdio \<Rightarrow> addr \<times> tmp_state \<times> 'k stdio" where
  "tmpnam_buffer K buf t w =
     (if buf \<noteq> NULL then (buf, t, w)
      else if tmpnam_static t \<noteq> NULL then (tmpnam_static t, t, w)
      else let (b, m) = heap_malloc K 4096 (w_mem w) in (b, t\<lparr>tmpnam_static := b\<rparr>, w\<lparr>w_mem := m\<rparr>))"

definition tmpnam ::
  "'k platform \<Rightarrow> addr \<Rightarrow> tmp_state \<Rightarrow> 'k stdio \<Rightarrow> (addr \<times> tmp_state \<times> 'k stdio) option" where
  "tmpnam K buf t w =
     (let (l, w) = (if tmpnam_lock t = 0 then lock_initialize K w else (tmpnam_lock t, w));
          t = t\<lparr>tmpnam_lock := l\<rparr> in do {
        w \<leftarrow> lock_acquire K l w;
        let (buf, t, w) = tmpnam_buffer K buf t w;
        if buf = NULL then Some (NULL, t, lock_release K l (w\<lparr>w_errno := ENOMEM\<rparr>))
        else do {
          let t = t\<lparr>tmpnam_next := u64 (tmpnam_next t + 1)\<rparr>;
          (_, e, m) \<leftarrow> vsnprintf_lit (w_mem w) (w_errno w) buf 4096 (lit ''/system/temp/%lu-%lu'')
            [VWord (tmpnam_next t), VWord (sys_get_pid K (w_k w))];
          Some (buf, t, lock_release K l (w\<lparr>w_mem := m, w_errno := e\<rparr>))
        }
      })"

definition tmpfile :: "'k platform \<Rightarrow> tmp_state \<Rightarrow> 'k stdio \<Rightarrow> (addr \<times> tmp_state \<times> 'k stdio) option" where
  "tmpfile K t w =
     (let (name_buf, m) = heap_malloc K 4096 (w_mem w); w = w\<lparr>w_mem := m\<rparr> in
      if name_buf = NULL then Some (NULL, t, w\<lparr>w_errno := ENOMEM\<rparr>)
      else do {
        (name, t, w) \<leftarrow> tmpnam K name_buf t w;
        if name = NULL then Some (NULL, t, w\<lparr>w_mem := heap_free K name_buf (w_mem w)\<rparr>)
        else do {
          (file, w) \<leftarrow> fopen K name (lit ''w+'') w;
          Some (file, t, w\<lparr>w_mem := heap_free K name_buf (w_mem w)\<rparr>)
        }
      })"

end
