(* ===== verification/Stdio_Write.thy ===== *)
theory Stdio_Write
  imports Stdio_API Printf_Spec
begin

text \<open>
  Output streams.  A buffered stream stands for the data its device has taken followed by the bytes
  pending in its buffer; every output function appends to that, and flushing moves all of it to the
  device.
\<close>

section \<open>Flags and structures\<close>

named_theorems stream_simps "fields and flags of a stream after an update"

lemma has_raise [stream_simps]: "has (raise b f) c \<longleftrightarrow> (c = b \<and> b < 32) \<or> has f c"
  by (auto simp: has_def raise_def bit_set_bit_iff)

lemma has_lower [stream_simps]: "has (lower b f) c \<longleftrightarrow> c \<noteq> b \<and> has f c"
  by (auto simp: has_def lower_def bit_unset_bit_iff)

lemma fields_raise [stream_simps]:
  "file_descriptor (raise b f) = file_descriptor f" "lock (raise b f) = lock f" "buffer (raise b f) = buffer f"
  "buffer_size (raise b f) = buffer_size f" "buffer_mode (raise b f) = buffer_mode f"
  "buffered_bytes_write (raise b f) = buffered_bytes_write f"
  "buffered_bytes_read (raise b f) = buffered_bytes_read f"
  "buffered_bytes_read_offset (raise b f) = buffered_bytes_read_offset f"
  "impl_read (raise b f) = impl_read f" "impl_write (raise b f) = impl_write f"
  "impl_seek (raise b f) = impl_seek f" "impl_close (raise b f) = impl_close f"
  "prev_file (raise b f) = prev_file f" "next_file (raise b f) = next_file f"
  by (simp_all add: raise_def)

lemma fields_lower [stream_simps]:
  "file_descriptor (lower b f) = file_descriptor f" "lock (lower b f) = lock f" "buffer (lower b f) = buffer f"
  "buffer_size (lower b f) = buffer_size f" "buffer_mode (lower b f) = buffer_mode f"
  "buffered_bytes_write (lower b f) = buffered_bytes_write f"
  "buffered_bytes_read (lower b f) = buffered_bytes_read f"
  "buffered_bytes_read_offset (lower b f) = buffered_bytes_read_offset f"
  "impl_read (lower b f) = impl_read f" "impl_write (lower b f) = impl_write f"
  "impl_seek (lower b f) = impl_seek f" "impl_close (lower b f) = impl_close f"
  "prev_file (lower b f) = prev_file f" "next_file (lower b f) = next_file f"
  by (simp_all add: lower_def)

lemma has_update [stream_simps]:
  "has (f\<lparr>buffered_bytes_write := n\<rparr>) c = has f c"
  "has (f\<lparr>buffered_bytes_read := n\<rparr>) c = has f c"
  "has (f\<lparr>buffered_bytes_read_offset := n\<rparr>) c = has f c"
  by (simp_all add: has_def)

lemma change_eqs [stream_simps]:
  "files (change p g w) p = map_option g (files w p)"
  "w_mem (change p g w) = w_mem w" "w_errno (change p g w) = w_errno w" "w_k (change p g w) = w_k w"
  "open_file_list (change p g w) = open_file_list w"
  "open_file_list_lock (change p g w) = open_file_list_lock w"
  "q \<noteq> p \<Longrightarrow> files (change p g w) q = files w q"
  by (simp_all add: change_def)

lemma uadd_nat [simp]: "int (a + n) \<le> ULONG_MAX \<Longrightarrow> uadd a (int n) = a + n"
  unfolding uadd_def by (subst u64_id) auto

lemma uadd_one [simp]: "int a < ULONG_MAX \<Longrightarrow> uadd a 1 = Suc a"
  using uadd_nat[of a 1] by simp

lemma usub_nat [simp]: "b \<le> a \<Longrightarrow> int a \<le> ULONG_MAX \<Longrightarrow> usub a b = a - b"
  unfolding usub_def by (subst u64_id) auto

lemma uv_EOF [simp]: "uv b \<noteq> - 1" "- 1 \<noteq> uv b"
  using uv_range[of b] by auto

section \<open>Flushing\<close>

lemma flush_loop_correct:
  assumes "takes_data K (file_descriptor f) out I" "files w p = Some f" "bytes_at (w_mem w) (buffer f) xs"
    and "int (length xs) \<le> INT_MAX" "dn \<le> length xs"
  shows "\<exists>k. flush_loop K p (length xs) dn w = Some (0, length xs, w\<lparr>w_k := k\<rparr>) \<and>
    out k = out (w_k w) @ drop dn xs \<and> I k = I (w_k w)"
  using assms(2,3,5)
proof (induction "length xs - dn" arbitrary: dn w rule: less_induct)
  case less
  show ?case
  proof (cases "dn < length xs")
    case False
    with less.prems have "dn = length xs" by simp
    then show ?thesis by (subst flush_loop.simps) (auto intro: exI[of _ "w_k w"])
  next
    case True
    have b: "bytes_at (w_mem w) (buffer f + dn) (drop dn xs)"
      using less.prems(2) by (metis bytes_at_append append_take_drop_id length_take min.absorb2 less.prems(3))
    obtain n k where n: "c_write K (file_descriptor f) (buffer f + dn) (length xs - dn) w
        = (int n, w\<lparr>w_k := k\<rparr>)" "0 < n" "n \<le> length xs - dn" "out k = out (w_k w) @ take n (drop dn xs)" "I k = I (w_k w)"
      using write_takes[OF assms(1) b] True assms(4) by auto
    have le: "int (dn + n) \<le> ULONG_MAX" using n(3) assms(4) True by linarith
    have "\<exists>k'. flush_loop K p (length xs) (dn + n) (w\<lparr>w_k := k\<rparr>) = Some (0, length xs, w\<lparr>w_k := k\<rparr>\<lparr>w_k := k'\<rparr>) \<and>
        out k' = out k @ drop (dn + n) xs \<and> I k' = I k"
      using less.hyps[of "dn + n" "w\<lparr>w_k := k\<rparr>"] less.prems n True by auto
    then obtain k' where k': "flush_loop K p (length xs) (dn + n) (w\<lparr>w_k := k\<rparr>) = Some (0, length xs, w\<lparr>w_k := k'\<rparr>)"
      "out k' = out k @ drop (dn + n) xs" "I k' = I k" by auto
    have "flush_loop K p (length xs) dn w = flush_loop K p (length xs) (dn + n) (w\<lparr>w_k := k\<rparr>)"
      using True n(1,2) less.prems(1) uadd_nat[OF le]
      by (subst flush_loop.simps) (simp add: stdio_impl_write_def)
    with k' n(4,5) show ?thesis
      by (auto simp: add.commute[of "dn"] drop_drop[symmetric] simp del: drop_drop)
  qed
qed

text \<open>
  The state of a buffered output stream, with its descriptor and buffer: \<open>xs\<close> is the data taken by
  the device followed by the data pending in the buffer.
\<close>

definition out_file :: "addr \<Rightarrow> int \<Rightarrow> addr \<Rightarrow> nat \<Rightarrow> 'k stdio \<Rightarrow> FILE \<Rightarrow> byte list \<Rightarrow> bool" where
  "out_file p fd B N w f pend \<longleftrightarrow> files w p = Some f \<and> file_descriptor f = fd \<and> buffer f = B \<and>
     buffer_size f = N \<and> 0 < N \<and> int N \<le> INT_MAX \<and> mapped (w_mem w) B N \<and> buffer_mode f \<noteq> IONBF \<and>
     has f MODE_WRITE \<and> has f BUFFER_SET \<and> \<not> has f DIRECTION_READ \<and> impl_write f \<and>
     buffered_bytes_write f = length pend \<and> length pend \<le> N \<and> bytes_at (w_mem w) B pend \<and>
     (pend \<noteq> [] \<longrightarrow> has f DIRECTION_WRITE)"

definition out_stream :: "('k \<Rightarrow> byte list) \<Rightarrow> addr \<Rightarrow> int \<Rightarrow> addr \<Rightarrow> nat \<Rightarrow> 'k stdio \<Rightarrow> byte list \<Rightarrow> bool" where
  "out_stream out p fd B N w xs \<longleftrightarrow> (\<exists>f pend. out_file p fd B N w f pend \<and> xs = out (w_k w) @ pend)"

text \<open>What an output operation leaves alone.\<close>

definition only_stream :: "('k \<Rightarrow> 'i) \<Rightarrow> addr \<Rightarrow> addr \<Rightarrow> nat \<Rightarrow> 'k stdio \<Rightarrow> 'k stdio \<Rightarrow> bool" where
  "only_stream I p B N w w' \<longleftrightarrow> I (w_k w') = I (w_k w) \<and> w_errno w' = w_errno w \<and> open_file_list w' = open_file_list w \<and>
     open_file_list_lock w' = open_file_list_lock w \<and>
     (\<forall>q. q \<noteq> p \<longrightarrow> files w' q = files w q) \<and> map_option lock (files w' p) = map_option lock (files w p) \<and>
     (\<forall>a. a < B \<or> B + N \<le> a \<longrightarrow> w_mem w' a = w_mem w a)"

lemma only_stream_refl [simp]: "only_stream I p B N w w"
  by (simp add: only_stream_def)

lemma only_stream_trans: "only_stream I p B N w w1 \<Longrightarrow> only_stream I p B N w1 w2 \<Longrightarrow> only_stream I p B N w w2"
  by (auto simp: only_stream_def)

lemma fflush_write_out:
  assumes "takes_data K fd out I" "out_file p fd B N w f pend"
  shows "\<exists>k f'. fflush_write_unlocked K p w = Some (0, w\<lparr>files := (files w)(p \<mapsto> f'), w_k := k\<rparr>) \<and>
    out_file p fd B N (w\<lparr>files := (files w)(p \<mapsto> f'), w_k := k\<rparr>) f' [] \<and> out k = out (w_k w) @ pend \<and>
    I k = I (w_k w) \<and> lock f' = lock f \<and> buffer_mode f' = buffer_mode f"
proof (cases "has f DIRECTION_WRITE")
  case False
  with assms(2) have p: "pend = []" by (auto simp: out_file_def)
  have "(files w)(p \<mapsto> f) = files w" using assms(2) by (auto simp: out_file_def)
  with False assms(2) p show ?thesis
    by (intro exI[of _ "w_k w"] exI[of _ f]) (auto simp: fflush_write_unlocked_def out_file_def)
next
  case True
  note o = assms(2)[unfolded out_file_def]
  obtain k where k: "flush_loop K p (length pend) 0 w = Some (0, length pend, w\<lparr>w_k := k\<rparr>)"
    "out k = out (w_k w) @ pend" "I k = I (w_k w)"
    using flush_loop_correct[of K f out I w p pend 0] assms(1) o by auto
  let ?f = "(lower DIRECTION_WRITE f)\<lparr>buffered_bytes_write := 0\<rparr>"
  have "fflush_write_unlocked K p w = Some (0, w\<lparr>files := (files w)(p \<mapsto> ?f), w_k := k\<rparr>)"
    using True o k by (simp add: fflush_write_unlocked_def change_def)
  with k o show ?thesis
    by (intro exI[of _ k] exI[of _ ?f]) (simp add: out_file_def stream_simps)
qed

lemma fflush_write_stream:
  assumes "takes_data K fd out I" "out_stream out p fd B N w xs"
  shows "\<exists>w'. fflush_write_unlocked K p w = Some (0, w') \<and> out_stream out p fd B N w' xs \<and>
    out (w_k w') = xs \<and> only_stream I p B N w w'"
proof -
  obtain f pend where o: "out_file p fd B N w f pend" "xs = out (w_k w) @ pend"
    using assms(2) unfolding out_stream_def by blast
  obtain k f' where k: "fflush_write_unlocked K p w = Some (0, w\<lparr>files := (files w)(p \<mapsto> f'), w_k := k\<rparr>)"
    "out_file p fd B N (w\<lparr>files := (files w)(p \<mapsto> f'), w_k := k\<rparr>) f' []" "out k = out (w_k w) @ pend"
    "I k = I (w_k w)" "lock f' = lock f"
    using fflush_write_out[OF assms(1) o(1)] by blast
  then have "out_stream out p fd B N (w\<lparr>files := (files w)(p \<mapsto> f'), w_k := k\<rparr>) xs"
    unfolding out_stream_def o(2) by (intro exI[of _ f'] exI[of _ "[]"]) simp
  with k o show ?thesis by (intro exI) (auto simp: only_stream_def out_file_def)
qed

section \<open>One byte\<close>

text \<open>Storing a byte where the buffer has room.\<close>

lemma put_room:
  fixes b :: byte
  assumes "out_file p fd B N w f pend" "length pend < N"
  defines "w' \<equiv> change p (\<lambda>f. raise DIRECTION_WRITE (lower DIRECTION_READ f)
      \<lparr>buffered_bytes_write := uadd (buffered_bytes_write f) 1\<rparr>) (w\<lparr>w_mem := (w_mem w)(B + length pend \<mapsto> b)\<rparr>)"
  shows "wr (w_mem w) (B + length pend) b = Some ((w_mem w)(B + length pend \<mapsto> b))"
    and "\<exists>f'. out_file p fd B N w' f' (pend @ [b]) \<and> buffer_mode f' = buffer_mode f"
    and "only_stream I p B N w w'"
proof -
  note o = assms(1)[unfolded out_file_def]
  have "int (length pend) < ULONG_MAX" using o by linarith
  then have u: "uadd (length pend) 1 = Suc (length pend)" by simp
  obtain c where "w_mem w (B + length pend) = Some c"
    using mapped_get[of "w_mem w" B N "B + length pend"] o assms(2) by auto
  then show "wr (w_mem w) (B + length pend) b = Some ((w_mem w)(B + length pend \<mapsto> b))" by simp
  show "\<exists>f'. out_file p fd B N w' f' (pend @ [b]) \<and> buffer_mode f' = buffer_mode f"
    using o assms(2) u
    by (auto simp: w'_def out_file_def stream_simps mem_simps)
  show "only_stream I p B N w w'"
    using o assms(2) by (auto simp: w'_def only_stream_def stream_simps)
qed

lemma fputc_stream:
  assumes dev: "takes_data K fd out I" and st: "out_stream out p fd B N w xs"
  shows "\<exists>w'. fputc_unlocked K (uv b) p w = Some (uv b, w') \<and> out_stream out p fd B N w' (xs @ [b]) \<and>
    only_stream I p B N w w'"
proof -
  obtain f pend where o: "out_file p fd B N w f pend" "xs = out (w_k w) @ pend"
    using st unfolding out_stream_def by blast
  note f = o(1)[unfolded out_file_def]
  have "\<exists>w1. (if buffered_bytes_write f = buffer_size f then fflush_write_unlocked K p w else Some (0, w))
      = Some (0, w1) \<and> (\<exists>f1 pend1. out_file p fd B N w1 f1 pend1 \<and> xs = out (w_k w1) @ pend1 \<and> length pend1 < N) \<and>
      only_stream I p B N w w1"
  proof (cases "length pend = N")
    case False
    with o f show ?thesis by (intro exI[of _ w]) auto
  next
    case True
    obtain k f' where k: "fflush_write_unlocked K p w = Some (0, w\<lparr>files := (files w)(p \<mapsto> f'), w_k := k\<rparr>)"
      "out_file p fd B N (w\<lparr>files := (files w)(p \<mapsto> f'), w_k := k\<rparr>) f' []" "out k = out (w_k w) @ pend"
      "I k = I (w_k w)" "lock f' = lock f"
      using fflush_write_out[OF dev o(1)] by blast
    show ?thesis
      using k f o True
      by (intro exI[of _ "w\<lparr>files := (files w)(p \<mapsto> f'), w_k := k\<rparr>"] conjI exI[of _ f'] exI[of _ "[]"])
        (auto simp: only_stream_def)
  qed
  then obtain w1 f1 pend1 where w1: "(if buffered_bytes_write f = buffer_size f then fflush_write_unlocked K p w
      else Some (0, w)) = Some (0, w1)" "out_file p fd B N w1 f1 pend1" "xs = out (w_k w1) @ pend1"
      "length pend1 < N" "only_stream I p B N w w1" by blast
  define w2 where "w2 = change p (\<lambda>f. raise DIRECTION_WRITE (lower DIRECTION_READ f)
      \<lparr>buffered_bytes_write := uadd (buffered_bytes_write f) 1\<rparr>) (w1\<lparr>w_mem := (w_mem w1)(B + length pend1 \<mapsto> b)\<rparr>)"
  obtain f2 where f2: "out_file p fd B N w2 f2 (pend1 @ [b])" "buffer_mode f2 = buffer_mode f1"
    using put_room(2)[OF w1(2,4), where b = b] unfolding w2_def by blast
  have s2: "out_stream out p fd B N w2 (xs @ [b])" "only_stream I p B N w w2"
    using f2(1) w1(3) only_stream_trans[OF w1(5) put_room(3)[OF w1(2,4), where b = b]]
    unfolding out_stream_def w2_def by (auto simp: stream_simps intro!: exI)
  have e: "fputc_unlocked K (uv b) p w = do {
      (r, w) \<leftarrow> (if buffer_mode f2 = IOLBF \<and> b = 10 then fflush_write_unlocked K p w2 else Some (0, w2));
      Some (if r = EOF then EOF else uv b, w) }"
    using f w1(1) w1(2)[unfolded out_file_def] f2(2) put_room(1)[OF w1(2,4), where b = b]
    unfolding w2_def
    by (simp add: fputc_unlocked_def ensure_buffer_def flush_if_def Let_def stream_simps split del: if_split)
  show ?thesis
  proof (cases "buffer_mode f2 = IOLBF \<and> b = 10")
    case False
    with e s2 show ?thesis by auto
  next
    case True
    obtain w3 where "fflush_write_unlocked K p w2 = Some (0, w3)" "out_stream out p fd B N w3 (xs @ [b])"
      "only_stream I p B N w2 w3" using fflush_write_stream[OF dev s2(1)] by blast
    with True e s2 only_stream_trans show ?thesis by auto
  qed
qed

section \<open>Blocks\<close>

lemma only_stream_bytes:
  "only_stream I p B N w w' \<Longrightarrow> a + length xs \<le> B \<or> B + N \<le> a \<Longrightarrow>
   bytes_at (w_mem w') a xs = bytes_at (w_mem w) a xs"
  by (rule bytes_at_frame) (auto simp: only_stream_def)

lemma fwrite_bytes_stream:
  assumes "takes_data K fd out I"
  shows "out_stream out p fd B N w xs \<Longrightarrow> bytes_at (w_mem w) a ys \<Longrightarrow> a + length ys \<le> B \<or> B + N \<le> a \<Longrightarrow>
    \<exists>w'. fwrite_bytes K a (length ys) p w = Some (True, w') \<and> out_stream out p fd B N w' (xs @ ys) \<and>
      only_stream I p B N w w'"
proof (induction ys arbitrary: a w xs)
  case Nil
  then show ?case by simp
next
  case (Cons y ys)
  obtain w1 where w1: "fputc_unlocked K (uv y) p w = Some (uv y, w1)" "out_stream out p fd B N w1 (xs @ [y])"
    "only_stream I p B N w w1" using fputc_stream[OF assms Cons.prems(1)] by blast
  have "bytes_at (w_mem w1) (Suc a) ys"
    using only_stream_bytes[OF w1(3), of "Suc a" ys] Cons.prems(2,3) by auto
  with Cons.IH[OF w1(2), of "Suc a"] Cons.prems(3) obtain w2 where
    "fwrite_bytes K (Suc a) (length ys) p w1 = Some (True, w2)" "out_stream out p fd B N w2 (xs @ y # ys)"
    "only_stream I p B N w1 w2" by auto
  with w1 Cons.prems(2) only_stream_trans[OF w1(3)] show ?case by auto
qed

lemma fwrite_items_stream:
  assumes "takes_data K fd out I"
  shows "out_stream out p fd B N w xs \<Longrightarrow> bytes_at (w_mem w) (ptr + e * n) ys \<Longrightarrow> length ys = k * n \<Longrightarrow>
    ptr + e * n + length ys \<le> B \<or> B + N \<le> ptr \<Longrightarrow>
    \<exists>w'. fwrite_items K ptr n k e p w = Some (e + k, w') \<and> out_stream out p fd B N w' (xs @ ys) \<and>
      only_stream I p B N w w'"
proof (induction k arbitrary: e w xs ys)
  case 0
  then show ?case by simp
next
  case (Suc k)
  define y1 y2 where "y1 = take n ys" and "y2 = drop n ys"
  have y: "ys = y1 @ y2" "length y1 = n" "length y2 = k * n" using Suc.prems(3) by (auto simp: y1_def y2_def)
  have b: "bytes_at (w_mem w) (ptr + e * n) y1" "bytes_at (w_mem w) (ptr + Suc e * n) y2"
    using Suc.prems(2) y by (auto simp: algebra_simps)
  have d: "ptr + e * n + length y1 \<le> B \<or> B + N \<le> ptr + e * n"
    "ptr + Suc e * n + length y2 \<le> B \<or> B + N \<le> ptr + Suc e * n" "ptr + Suc e * n + length y2 \<le> B \<or> B + N \<le> ptr"
    using Suc.prems(4) y by auto
  obtain w1 where w1: "fwrite_bytes K (ptr + e * n) n p w = Some (True, w1)"
    "out_stream out p fd B N w1 (xs @ y1)" "only_stream I p B N w w1"
    using fwrite_bytes_stream[OF assms Suc.prems(1) b(1) d(1)] y(2) by auto
  have "bytes_at (w_mem w1) (ptr + Suc e * n) y2"
    using only_stream_bytes[OF w1(3) d(2)] b(2) by simp
  from Suc.IH[OF w1(2) this y(3) d(3)] obtain w2 where
    "fwrite_items K ptr n k (Suc e) p w1 = Some (Suc e + k, w2)" "out_stream out p fd B N w2 ((xs @ y1) @ y2)"
    "only_stream I p B N w1 w2" by auto
  with w1 y only_stream_trans[OF w1(3)] show ?case by auto
qed

lemma fwrite_stream:
  assumes "takes_data K fd out I" "out_stream out p fd B N w xs" "bytes_at (w_mem w) ptr ys"
    and "length ys = nmemb * n" "n = 0 \<Longrightarrow> nmemb = 0" "ptr + length ys \<le> B \<or> B + N \<le> ptr"
  shows "\<exists>w'. fwrite_unlocked K ptr n nmemb p w = Some (nmemb, w') \<and> out_stream out p fd B N w' (xs @ ys) \<and>
    only_stream I p B N w w'"
proof (cases "nmemb = 0")
  case True
  with assms show ?thesis by (simp add: fwrite_unlocked_def fwrite_direct_def)
next
  case False
  have "fwrite_direct K ptr n nmemb p w = Some (None, w)"
    using assms(2,5) False by (auto simp: out_stream_def out_file_def fwrite_direct_def ensure_buffer_def)
  with fwrite_items_stream[OF assms(1,2), of ptr 0 n ys nmemb] assms(3,4,6) show ?thesis
    by (simp add: fwrite_unlocked_def)
qed

section \<open>Locking\<close>

text \<open>A state of the kernel with other mutexes held.\<close>

lemma out_stream_kernel:
  "out k = out (w_k w) \<Longrightarrow> out_stream out p fd B N (w\<lparr>w_k := k\<rparr>) xs = out_stream out p fd B N w xs"
  by (simp add: out_stream_def out_file_def)

lemma out_stream_file: "out_stream out p fd B N w xs \<Longrightarrow> \<exists>f. files w p = Some f"
  by (auto simp: out_stream_def out_file_def)

text \<open>
  An operation under the stream's lock: it runs in a state that differs in the mutexes held, and
  afterwards those held are the ones held before.
\<close>

lemma locked_run:
  assumes "good_mutexes K held D" "files w p = Some f" "lock f \<notin> held (w_k w)"
  shows "\<exists>k. D k = D (w_k w) \<and> held k = insert (lock f) (held (w_k w)) \<and>
    (\<forall>r w1. operation (w\<lparr>w_k := k\<rparr>) = Some (r, w1) \<longrightarrow> map_option lock (files w1 p) = Some (lock f) \<longrightarrow>
      held (w_k w1) = held k \<longrightarrow>
      (\<exists>k1. locked K p operation w = Some (r, w1\<lparr>w_k := k1\<rparr>) \<and> held k1 = held (w_k w) \<and> D k1 = D (w_k w1)))"
proof -
  obtain k where k: "mutex_acquire K (lock f) (w_k w) = Some k" "held k = insert (lock f) (held (w_k w))"
    "D k = D (w_k w)" using assms(1,3) unfolding good_mutexes_def by blast
  have "\<exists>k1. locked K p operation w = Some (r, w1\<lparr>w_k := k1\<rparr>) \<and> held k1 = held (w_k w) \<and> D k1 = D (w_k w1)"
    if w1: "operation (w\<lparr>w_k := k\<rparr>) = Some (r, w1)" "map_option lock (files w1 p) = Some (lock f)"
      "held (w_k w1) = held k" for r w1
  proof -
    let ?k = "mutex_release K (lock f) (w_k w1)"
    have "locked K p operation w = Some (r, w1\<lparr>w_k := ?k\<rparr>)"
      using assms(2) k(1) w1(1,2) by (auto simp: locked_def lock_acquire_def lock_release_def)
    moreover have "held ?k = held (w_k w)" "D ?k = D (w_k w1)"
      using assms(1,3) w1(3) k(2) unfolding good_mutexes_def by auto
    ultimately show ?thesis by blast
  qed
  with k show ?thesis by blast
qed

lemma locked_out:
  assumes "good_mutexes K held out" "out_stream out p fd B N w xs" "\<forall>f. files w p = Some f \<longrightarrow> lock f \<notin> held (w_k w)"
    and op: "\<And>w. out_stream out p fd B N w xs \<Longrightarrow> w_mem w = m \<Longrightarrow>
      \<exists>w'. operation w = Some (r, w') \<and> out_stream out p fd B N w' ys \<and> only_stream held p B N w w' \<and> Q (out (w_k w'))"
    and "w_mem w = m"
  shows "\<exists>w'. locked K p operation w = Some (r, w') \<and> out_stream out p fd B N w' ys \<and>
    only_stream held p B N w w' \<and> Q (out (w_k w'))"
proof -
  obtain f where f: "files w p = Some f" "lock f \<notin> held (w_k w)" using out_stream_file[OF assms(2)] assms(3) by blast
  obtain k where k: "out k = out (w_k w)" "held k = insert (lock f) (held (w_k w))"
    "\<forall>r w1. operation (w\<lparr>w_k := k\<rparr>) = Some (r, w1) \<longrightarrow> map_option lock (files w1 p) = Some (lock f) \<longrightarrow>
      held (w_k w1) = held k \<longrightarrow>
      (\<exists>k1. locked K p operation w = Some (r, w1\<lparr>w_k := k1\<rparr>) \<and> held k1 = held (w_k w) \<and> out k1 = out (w_k w1))"
    using locked_run[OF assms(1) f, of operation] by blast
  obtain w1 where w1: "operation (w\<lparr>w_k := k\<rparr>) = Some (r, w1)" "out_stream out p fd B N w1 ys"
    "only_stream held p B N (w\<lparr>w_k := k\<rparr>) w1" "Q (out (w_k w1))"
    using op[of "w\<lparr>w_k := k\<rparr>"] out_stream_kernel[OF k(1)] assms(2,5) by auto
  obtain k1 where k1: "locked K p operation w = Some (r, w1\<lparr>w_k := k1\<rparr>)" "held k1 = held (w_k w)"
    "out k1 = out (w_k w1)" using k(3)[rule_format, OF w1(1)] w1(3) f by (auto simp: only_stream_def)
  moreover have "only_stream held p B N w (w1\<lparr>w_k := k1\<rparr>)"
    using w1(3) k1(2) by (simp add: only_stream_def)
  ultimately show ?thesis using w1(2,4) by (auto simp: out_stream_kernel)
qed

section \<open>Formatted output\<close>

text \<open>The callback of \<open>vfprintf\<close> as a sink: the stream stands for \<open>base\<close> and the output so far.\<close>

definition vfp_R ::
  "'k platform \<Rightarrow> addr \<Rightarrow> int \<Rightarrow> addr \<Rightarrow> nat \<Rightarrow> ('k \<Rightarrow> byte list) \<Rightarrow> ('k \<Rightarrow> 'i) \<Rightarrow> byte list \<Rightarrow> 'k stdio \<Rightarrow>
   'k stdio \<Rightarrow> mem \<Rightarrow> byte list \<Rightarrow> bool" where
  "vfp_R K p fd B N out I base w0 w m xs \<longleftrightarrow> takes_data K fd out I \<and> B + N \<le> frame K \<and>
     out_stream out p fd B N (w\<lparr>w_mem := m\<rparr>) (base @ xs) \<and>
     only_stream I p B N w0 (w\<lparr>w_mem := w_mem w0\<rparr>)"

lemma out_stream_mem:
  "\<forall>a. B \<le> a \<and> a < B + N \<longrightarrow> m' a = w_mem w a \<Longrightarrow> out_stream out p fd B N w xs \<Longrightarrow>
   out_stream out p fd B N (w\<lparr>w_mem := m'\<rparr>) xs"
proof -
  assume eq: "\<forall>a. B \<le> a \<and> a < B + N \<longrightarrow> m' a = w_mem w a" and st: "out_stream out p fd B N w xs"
  then obtain f pend where o: "out_file p fd B N w f pend" "xs = out (w_k w) @ pend"
    unfolding out_stream_def by blast
  have "bytes_at m' B pend = bytes_at (w_mem w) B pend"
    using eq o(1) by (intro bytes_at_frame) (auto simp: out_file_def)
  moreover have "mapped m' B N = mapped (w_mem w) B N" using eq by (auto simp: mapped_iff)
  ultimately have "out_file p fd B N (w\<lparr>w_mem := m'\<rparr>) f pend" using o(1) by (simp add: out_file_def)
  with o(2) show ?thesis unfolding out_stream_def by auto
qed

lemma vfp_accepts:
  assumes "vfp_R K p fd B N out I base w0 w m xs"
  shows "\<exists>w' m'. vfprintf_callback K p w bs m = Some (int (length bs), w', m') \<and>
    vfp_R K p fd B N out I base w0 w' m' (xs @ bs) \<and> m' |` (- {B..<B + N}) = m |` (- {B..<B + N})"
proof -
  let ?F = "frame K + 1"
  let ?w = "w\<lparr>w_mem := store m ?F bs\<rparr>"
  note R = assms[unfolded vfp_R_def]
  have "out_stream out p fd B N ?w (base @ xs)"
    using out_stream_mem[of B N "store m ?F bs" "w\<lparr>w_mem := m\<rparr>" out p fd "base @ xs"] R
    by (auto simp: store_apply)
  from fwrite_stream[OF _ this, of K I ?F bs "length bs" 1] R obtain w' where
    w': "fwrite_unlocked K ?F 1 (length bs) p ?w = Some (length bs, w')"
    "out_stream out p fd B N w' (base @ xs @ bs)" "only_stream I p B N ?w w'" by auto
  define m' where "m' = (\<lambda>a. if ?F \<le> a \<and> a < ?F + length bs then m a else w_mem w' a)"
  have "vfprintf_callback K p w bs m = Some (int (length bs), w', m')"
    using w'(1) by (simp add: vfprintf_callback_def m'_def)
  moreover have "out_stream out p fd B N (w'\<lparr>w_mem := m'\<rparr>) (base @ xs @ bs)"
    using R by (intro out_stream_mem[OF _ w'(2)]) (auto simp: m'_def)
  moreover have "only_stream I p B N w0 (w'\<lparr>w_mem := w_mem w0\<rparr>)"
    using R w'(3) by (auto simp: only_stream_def)
  moreover have "m' a = m a" if "a < B \<or> B + N \<le> a" for a
    using w'(3) that by (auto simp: m'_def only_stream_def store_apply)
  then have "m' |` (- {B..<B + N}) = m |` (- {B..<B + N})"
    by (intro ext) (auto simp: restrict_map_def not_le not_less)
  ultimately show ?thesis using R unfolding vfp_R_def by auto
qed

interpretation vfp: sink "vfprintf_callback K p" "vfp_R K p fd B N out I base w0" "{B..<B + N}"
  for K p fd B N out I base w0
proof
  show "\<exists>w' m'. vfprintf_callback K p w bs m = Some (int (length bs), w', m') \<and>
      vfp_R K p fd B N out I base w0 w' m' (xs @ bs) \<and> m' |` (- {B..<B + N}) = m |` (- {B..<B + N})"
    if "vfp_R K p fd B N out I base w0 w m xs" for w m xs bs
    by (rule vfp_accepts[OF that])
  show "vfp_R K p fd B N out I base w0 w m' xs"
    if "vfp_R K p fd B N out I base w0 w m xs" "\<And>a. a \<in> {B..<B + N} \<Longrightarrow> m' a = m a" for w m xs m'
    using that out_stream_mem[of B N m' "w\<lparr>w_mem := m\<rparr>" out p fd "base @ xs"] unfolding vfp_R_def by auto
qed

text \<open>
  Printing to a stream appends what the format prints, where nothing printed reads the buffer of the
  stream.
\<close>

lemma vfprintf_stream:
  assumes "takes_data K fd out I" "out_stream out p fd B N w xs" "B + N \<le> frame K"
    and "printed fmt args (- 1) (w_mem w |` (- {B..<B + N})) = Some (r, tx, - 1, m0)"
  shows "\<exists>w'. vfprintf_unlocked K p fmt args w = Some (r, w') \<and> out_stream out p fd B N w' (xs @ tx) \<and>
    w_errno w' = w_errno w \<and> I (w_k w') = I (w_k w) \<and> map_option lock (files w' p) = map_option lock (files w p) \<and>
    (\<forall>q. q \<noteq> p \<longrightarrow> files w' q = files w q) \<and> w_mem w' |` (- {B..<B + N}) = m0"
proof -
  obtain st0 where st0: "vcbprintf collect fmt args
      \<lparr>written = 0, perrno = - 1, param = [], pmem = w_mem w |` (- {B..<B + N})\<rparr> = Some (r, st0)"
    "tx = param st0" "perrno st0 = - 1" "m0 = pmem st0" using assms(4) by (auto simp: printed_def)
  have "vfp_R K p fd B N out I xs w w (w_mem w) []" using assms(1-3) by (simp add: vfp_R_def)
  from vfp.vcbprintf_to_list[OF this st0(1)] obtain st where
    st: "vcbprintf (vfprintf_callback K p) fmt args \<lparr>written = 0, perrno = - 1, param = w, pmem = w_mem w\<rparr>
      = Some (r, st)" "perrno st = - 1" "vfp_R K p fd B N out I xs w (param st) (pmem st) tx"
    "pmem st |` (- {B..<B + N}) = m0" using st0(2-4) by auto
  obtain f where "files w p = Some f" "has f MODE_WRITE" using assms(2) by (auto simp: out_stream_def out_file_def)
  with st(1,2) have "vfprintf_unlocked K p fmt args w = Some (r, (param st)\<lparr>w_mem := pmem st\<rparr>)"
    by (simp add: vfprintf_unlocked_def)
  with st(3,4) show ?thesis by (auto simp: vfp_R_def only_stream_def)
qed

section \<open>A failed flush\<close>

text \<open>
  When the device takes the first \<open>n\<close> of the pending bytes and then fails, the buffer keeps the
  first bytes as the pending ones, not the last.
\<close>

lemma fflush_write_failure:
  assumes "out_file p fd B N w f pend" "has f DIRECTION_WRITE"
    and "c_write K fd B (length pend) w = (int n, w\<lparr>w_k := k1\<rparr>)" "0 < n" "n < length pend"
    and "c_write K fd (B + n) (length pend - n) (w\<lparr>w_k := k1\<rparr>) = (- 1, w2)"
    and "files w2 = files w" "w_mem w2 = w_mem w"
  shows "\<exists>w' f'. fflush_write_unlocked K p w = Some (EOF, w') \<and> files w' p = Some f' \<and>
    buffered_bytes_write f' = length pend - n \<and> has f' FLAG_ERROR \<and> \<not> has f' DIRECTION_WRITE \<and>
    bytes_at (w_mem w') B (take (length pend - n) pend)"
proof -
  note o = assms(1)[unfolded out_file_def]
  have le: "int (0 + n) \<le> ULONG_MAX" "int (length pend) \<le> ULONG_MAX" using o assms(5) by linarith+
  have "flush_loop K p (length pend) 0 w = flush_loop K p (length pend) n (w\<lparr>w_k := k1\<rparr>)"
    using assms(3-5) o uadd_nat[OF le(1)] by (subst flush_loop.simps) (auto simp: stdio_impl_write_def)
  also have "\<dots> = Some (EOF, n, change p (raise FLAG_ERROR) w2)"
    using assms(5,6) o by (subst flush_loop.simps) (simp add: stdio_impl_write_def)
  finally have "fflush_write_unlocked K p w = Some (EOF, change p (\<lambda>f. lower DIRECTION_WRITE f
      \<lparr>buffered_bytes_write := length pend - n\<rparr>) (change p (raise FLAG_ERROR) w2))"
    using o assms(2,5) le(2) by (simp add: fflush_write_unlocked_def)
  moreover have "bytes_at (w_mem w2) B (take (length pend - n) pend)"
    using o assms(8) by (metis append_take_drop_id bytes_at_append)
  ultimately show ?thesis using o assms(7) by (simp add: stream_simps)
qed

lemma fflush_stream:
  assumes "takes_data K fd out I" "out_stream out p fd B N w xs"
  shows "\<exists>w'. fflush_unlocked K p w = Some (0, w') \<and> out_stream out p fd B N w' xs \<and>
    only_stream I p B N w w' \<and> out (w_k w') = xs"
proof -
  obtain f pend where f: "out_file p fd B N w f pend" "xs = out (w_k w) @ pend"
    using assms(2) unfolding out_stream_def by blast
  obtain w2 where w2: "fflush_write_unlocked K p w = Some (0, w2)" "out_stream out p fd B N w2 xs"
    "out (w_k w2) = xs" "only_stream I p B N w w2" using fflush_write_stream[OF assms] by blast
  show ?thesis
  proof (cases "has f DIRECTION_WRITE")
    case True
    with f w2 show ?thesis by (auto simp: fflush_unlocked_def out_file_def)
  next
    case False
    with f have "pend = []" by (simp add: out_file_def)
    with False f assms(2) show ?thesis by (auto simp: fflush_unlocked_def out_file_def)
  qed
qed

lemma fflush_one_stream:
  assumes "takes_data K fd out held" "good_mutexes K held out" "out_stream out p fd B N w xs"
    and "\<forall>f. files w p = Some f \<longrightarrow> lock f \<notin> held (w_k w)"
  shows "\<exists>w'. fflush_one K p w = Some (0, w') \<and> out_stream out p fd B N w' xs \<and> only_stream held p B N w w' \<and>
    out (w_k w') = xs"
  unfolding fflush_one_def
  by (rule locked_out[OF assms(2,3,4), where m = "w_mem w" and Q = "\<lambda>ys. ys = xs"])
    (use fflush_stream[OF assms(1)] in auto)

lemma fwrite_locked:
  assumes "takes_data K fd out held" "good_mutexes K held out" "out_stream out p fd B N w xs"
    and "\<forall>f. files w p = Some f \<longrightarrow> lock f \<notin> held (w_k w)"
    and "bytes_at (w_mem w) ptr ys" "length ys = nmemb * n" "n = 0 \<Longrightarrow> nmemb = 0"
    and "ptr + length ys \<le> B \<or> B + N \<le> ptr"
  shows "\<exists>w'. fwrite K ptr n nmemb p w = Some (nmemb, w') \<and> out_stream out p fd B N w' (xs @ ys) \<and>
    only_stream held p B N w w'"
proof -
  have "\<exists>w'. fwrite K ptr n nmemb p w = Some (nmemb, w') \<and> out_stream out p fd B N w' (xs @ ys) \<and>
      only_stream held p B N w w' \<and> True"
    unfolding fwrite_def
  proof (rule locked_out[OF assms(2,3,4), where m = "w_mem w" and Q = "\<lambda>_. True"])
    fix w1 :: "'a stdio" assume "out_stream out p fd B N w1 xs" "w_mem w1 = w_mem w"
    with fwrite_stream[OF assms(1) this(1) _ assms(6,7,8)] assms(5)
    show "\<exists>w'. fwrite_unlocked K ptr n nmemb p w1 = Some (nmemb, w') \<and> out_stream out p fd B N w' (xs @ ys) \<and>
        only_stream held p B N w1 w' \<and> True" by simp
  qed simp
  then show ?thesis by blast
qed

lemma only_stream_lock:
  assumes "only_stream held p B N w w'" "\<forall>f. files w p = Some f \<longrightarrow> lock f \<notin> held (w_k w)"
  shows "\<forall>f. files w' p = Some f \<longrightarrow> lock f \<notin> held (w_k w')"
proof (cases "files w p")
  case None
  then have "files w' p = None" using assms(1) by (auto simp: only_stream_def)
  then show ?thesis by simp
next
  case (Some g)
  then obtain g' where "files w' p = Some g'" "lock g' = lock g" using assms(1) by (auto simp: only_stream_def)
  moreover have "held (w_k w') = held (w_k w)" using assms(1) by (simp add: only_stream_def)
  ultimately show ?thesis using assms(2) Some by simp
qed

lemma fputs_stream:
  assumes "takes_data K fd out held" "good_mutexes K held out" "out_stream out p fd B N w xs"
    and "\<forall>f. files w p = Some f \<longrightarrow> lock f \<notin> held (w_k w)"
    and "str_at (w_mem w) s t" "s \<noteq> NULL" "s + length t \<le> B \<or> B + N \<le> s" "t \<noteq> []"
  shows "\<exists>w'. fputs K s p w = Some (if length t = 1 then 1 else EOF, w') \<and> out_stream out p fd B N w' (xs @ t) \<and>
    only_stream held p B N w w'"
proof -
  have "bytes_at (w_mem w) s t" using str_at_bytes[OF assms(5)] by simp
  from fwrite_locked[OF assms(1-4) this, of 1 "length t"] assms(7,8) obtain w' where
    "fwrite K s (length t) 1 p w = Some (1, w')" "out_stream out p fd B N w' (xs @ t)"
    "only_stream held p B N w w'" by auto
  moreover have "strlen (w_mem w) s = Some (length t)" by (rule strlen_correct[OF assms(5,6)])
  ultimately show ?thesis by (auto simp: fputs_def s32_id)
qed

text \<open>A stream for examples: its buffer of four bytes at 100, some data at 10.\<close>

definition demo_FILE :: FILE where
  "demo_FILE = zero_FILE\<lparr>file_descriptor := 1, lock := 1, buffer := 100, buffer_size := 4,
     buffer_mode := IOFBF, impl_read := True, impl_write := True, impl_seek := True, impl_close := True,
     flags := set_bit BUFFER_SET (set_bit MODE_WRITE (set_bit MODE_READ 0))\<rparr>"

definition demo_world :: "byte list \<Rightarrow> ram stdio" where
  "demo_world xs = \<lparr>w_mem = store (store Map.empty 100 [0, 0, 0, 0]) 10 (lit ''hello, world'' @ [0]),
     w_errno = 0, w_k = \<lparr>ram_out = [], ram_in = xs, ram_locks = {}, ram_next = 1\<rparr>,
     files = [50 \<mapsto> demo_FILE], open_file_list = 50, open_file_list_lock = 9\<rparr>"

abbreviation (input) demo_platform :: "ram platform" where
  "demo_platform \<equiv> ram_platform 1000 (bump_malloc 2000)"

lemma demo_FILE_fields:
  "has demo_FILE b \<longleftrightarrow> b = BUFFER_SET \<or> b = MODE_WRITE \<or> b = MODE_READ" "buffer demo_FILE = 100"
  "lock demo_FILE = 1" "file_descriptor demo_FILE = 1" "buffer_size demo_FILE = 4" "buffer_mode demo_FILE = 1"
  "buffered_bytes_write demo_FILE = 0" "buffered_bytes_read demo_FILE = 0"
  "buffered_bytes_read_offset demo_FILE = 0"
  "impl_read demo_FILE" "impl_write demo_FILE" "impl_seek demo_FILE" "impl_close demo_FILE"
  by (auto simp: demo_FILE_def zero_FILE_def has_def bit_set_bit_iff bit_1_iff)

lemma demo_out: "out_stream ram_out 50 1 100 4 (demo_world xs) []"
proof -
  have "mapped (w_mem (demo_world xs)) 100 4"
    by (simp add: demo_world_def mapped_iff store_apply)
  then show ?thesis
    unfolding out_stream_def
    by (intro exI[of _ demo_FILE] exI[of _ "[]"]) (simp add: out_file_def demo_FILE_fields demo_world_def)
qed

lemma demo_lock: "\<forall>f. files (demo_world xs) 50 = Some f \<longrightarrow> lock f \<notin> ram_locks (w_k (demo_world xs))"
  by (simp add: demo_world_def)

lemma demo_str: "str_at (w_mem (demo_world xs)) 10 (lit ''hello, world'')"
  unfolding demo_world_def by (simp add: store_apply)

section \<open>Properties\<close>

text \<open>
  C1. \<open>fwrite\<close> on a buffered stream accepts every item, and flushing then hands the device
  exactly the data written before followed by the new bytes, in order, however many bytes the
  device takes at a time.  The calls return and every mutex acquired is released.
\<close>

theorem fwrite_fflush_delivers:
  assumes "takes_data K fd out held" "good_mutexes K held out" "out_stream out p fd B N w xs" "p \<noteq> NULL"
    and "\<forall>f. files w p = Some f \<longrightarrow> lock f \<notin> held (w_k w)"
    and "bytes_at (w_mem w) ptr ys" "length ys = nmemb * n" "0 < n"
    and "ptr + length ys \<le> B \<or> B + N \<le> ptr"
  shows "\<exists>w1 w2. fwrite K ptr n nmemb p w = Some (nmemb, w1) \<and> out_stream out p fd B N w1 (xs @ ys) \<and>
    fflush K p w1 = Some (0, w2) \<and> out (w_k w2) = xs @ ys \<and> out_stream out p fd B N w2 (xs @ ys) \<and>
    held (w_k w2) = held (w_k w)"
proof -
  obtain w1 where w1: "fwrite K ptr n nmemb p w = Some (nmemb, w1)" "out_stream out p fd B N w1 (xs @ ys)"
    "only_stream held p B N w w1"
    using fwrite_locked[OF assms(1-3,5,6,7) _ assms(9)] assms(8) by auto
  have "\<forall>f. files w1 p = Some f \<longrightarrow> lock f \<notin> held (w_k w1)"
    by (rule only_stream_lock[OF w1(3) assms(5)])
  from fflush_one_stream[OF assms(1,2) w1(2) this] w1 assms(4) show ?thesis
    by (auto simp: fflush_def only_stream_def)
qed

theorem fwrite_fflush_delivers_witness:
  "\<exists>w1 w2. fwrite demo_platform 10 2 3 50 (demo_world []) = Some (3, w1) \<and>
    out_stream ram_out 50 1 100 4 w1 ([] @ lit ''hello,'') \<and>
    fflush demo_platform 50 w1 = Some (0, w2) \<and> ram_out (w_k w2) = [] @ lit ''hello,'' \<and>
    out_stream ram_out 50 1 100 4 w2 ([] @ lit ''hello,'') \<and> ram_locks (w_k w2) = ram_locks (w_k (demo_world []))"
  by (rule fwrite_fflush_delivers[OF ram_takes ram_mutexes(1) demo_out _ demo_lock])
    (simp_all add: demo_world_def store_apply)

text \<open>
  C17. \<open>fprintf\<close> appends exactly the text the format prints to the data of the stream and returns
  its length, for every format that prints without error and reads nothing in the stream's
  buffer; the mutexes held are unchanged.
\<close>

theorem fprintf_appends:
  assumes "takes_data K fd out held" "good_mutexes K held out" "out_stream out p fd B N w xs" "B + N \<le> frame K"
    and "\<forall>f. files w p = Some f \<longrightarrow> lock f \<notin> held (w_k w)"
    and "printed fmt args (- 1) (w_mem w |` (- {B..<B + N})) = Some (r, tx, - 1, m0)"
  shows "\<exists>w'. fprintf K p fmt args w = Some (r, w') \<and> out_stream out p fd B N w' (xs @ tx) \<and>
    held (w_k w') = held (w_k w) \<and> w_errno w' = w_errno w \<and> w_mem w' |` (- {B..<B + N}) = m0"
proof -
  obtain f where f: "files w p = Some f" "lock f \<notin> held (w_k w)" using out_stream_file[OF assms(3)] assms(5) by blast
  obtain k where k: "out k = out (w_k w)" "held k = insert (lock f) (held (w_k w))"
    "\<forall>r w1. vfprintf_unlocked K p fmt args (w\<lparr>w_k := k\<rparr>) = Some (r, w1) \<longrightarrow>
      map_option lock (files w1 p) = Some (lock f) \<longrightarrow> held (w_k w1) = held k \<longrightarrow>
      (\<exists>k1. fprintf K p fmt args w = Some (r, w1\<lparr>w_k := k1\<rparr>) \<and> held k1 = held (w_k w) \<and> out k1 = out (w_k w1))"
    using locked_run[OF assms(2) f, of "vfprintf_unlocked K p fmt args"] unfolding fprintf_def vfprintf_def by blast
  have st: "out_stream out p fd B N (w\<lparr>w_k := k\<rparr>) xs" using out_stream_kernel[OF k(1)] assms(3) by blast
  obtain w1 where w1: "vfprintf_unlocked K p fmt args (w\<lparr>w_k := k\<rparr>) = Some (r, w1)"
    "out_stream out p fd B N w1 (xs @ tx)" "w_errno w1 = w_errno w" "held (w_k w1) = held k"
    "map_option lock (files w1 p) = Some (lock f)" "w_mem w1 |` (- {B..<B + N}) = m0"
    using vfprintf_stream[OF assms(1) st assms(4), of fmt args r tx m0] assms(6) f by auto
  with k(3)[rule_format, OF w1(1,5,4)] show ?thesis by (auto simp: out_stream_kernel)
qed

theorem fprintf_appends_witness:
  "\<exists>w'. fprintf demo_platform 50 (lit ''%d'') [VWord 42] (demo_world []) = Some (2, w') \<and>
    out_stream ram_out 50 1 100 4 w' ([] @ lit ''42'') \<and> ram_locks (w_k w') = ram_locks (w_k (demo_world [])) \<and>
    w_errno w' = w_errno (demo_world []) \<and>
    w_mem w' |` (- {100..<100 + 4}) = w_mem (demo_world []) |` (- {100..<100 + 4})"
proof (rule fprintf_appends[OF ram_takes ram_mutexes(1) demo_out _ demo_lock])
  have "decimal (s32 42) = lit ''42''" by code_simp
  then show "printed (lit ''%d'') [VWord 42] (- 1) (w_mem (demo_world []) |` (- {100..<100 + 4})) =
      Some (2, lit ''42'', - 1, w_mem (demo_world []) |` (- {100..<100 + 4}))"
    using printed_decimal[of 42 "- 1" "w_mem (demo_world []) |` (- {100..<100 + 4})"] by (simp add: s32_id)
qed (simp add: ram_platform_def)

text \<open>
  \<open>fputs\<close> writes the whole string but reports failure for every string of two or more
  characters, because it compares the one item written with the length.
\<close>

theorem fputs_reports_failure:
  assumes "takes_data K fd out held" "good_mutexes K held out" "out_stream out p fd B N w xs"
    and "\<forall>f. files w p = Some f \<longrightarrow> lock f \<notin> held (w_k w)"
    and "str_at (w_mem w) s t" "s \<noteq> NULL" "s + length t \<le> B \<or> B + N \<le> s" "2 \<le> length t"
  shows "\<exists>w'. fputs K s p w = Some (EOF, w') \<and> out_stream out p fd B N w' (xs @ t)"
  using fputs_stream[OF assms(1-7)] assms(8) by fastforce

theorem fputs_reports_failure_witness:
  "\<exists>w'. fputs demo_platform 10 50 (demo_world []) = Some (EOF, w') \<and>
    out_stream ram_out 50 1 100 4 w' ([] @ lit ''hello, world'')"
  by (rule fputs_reports_failure[OF ram_takes ram_mutexes(1) demo_out demo_lock demo_str]) simp_all

text \<open>
  When the device takes \<open>n\<close> of the pending bytes and then fails, the flush reports \<open>EOF\<close> but the
  buffer keeps the first \<open>length pend - n\<close> bytes as pending: bytes already taken are kept for the
  next flush and the last \<open>n\<close> are lost.
\<close>

theorem flush_failure_keeps_first_bytes:
  assumes "out_file p fd B N w f pend" "has f DIRECTION_WRITE"
    and "c_write K fd B (length pend) w = (int n, w\<lparr>w_k := k1\<rparr>)" "0 < n" "n < length pend"
    and "c_write K fd (B + n) (length pend - n) (w\<lparr>w_k := k1\<rparr>) = (- 1, w2)"
    and "files w2 = files w" "w_mem w2 = w_mem w"
  shows "\<exists>w' f'. fflush_write_unlocked K p w = Some (EOF, w') \<and> files w' p = Some f' \<and>
    buffered_bytes_write f' = length pend - n \<and> has f' FLAG_ERROR \<and> \<not> has f' DIRECTION_WRITE \<and>
    bytes_at (w_mem w') B (take (length pend - n) pend)"
  by (rule fflush_write_failure[OF assms])

theorem flush_failure_keeps_first_bytes_witness:
  "let K = demo_platform\<lparr>sys_write := (\<lambda>fd a n m k. if ram_out k = [] then (0, 3, k\<lparr>ram_out := [1, 2, 3]\<rparr>) else (3, 0, k))\<rparr>;
       w = (demo_world [])\<lparr>w_mem := store Map.empty 100 [1, 2, 3, 4],
         files := [50 \<mapsto> raise DIRECTION_WRITE demo_FILE\<lparr>buffered_bytes_write := 4\<rparr>]\<rparr> in
   \<exists>w' f'. fflush_write_unlocked K 50 w = Some (EOF, w') \<and> files w' 50 = Some f' \<and>
     buffered_bytes_write f' = length [1, 2, 3, 4 :: byte] - 3 \<and> has f' FLAG_ERROR \<and> \<not> has f' DIRECTION_WRITE \<and>
     bytes_at (w_mem w') 100 (take (length [1, 2, 3, 4 :: byte] - 3) [1, 2, 3, 4])"
  unfolding Let_def
  by (rule flush_failure_keeps_first_bytes[where fd = 1 and N = 4 and
        ?k1.0 = "\<lparr>ram_out = [1, 2, 3], ram_in = [], ram_locks = {}, ram_next = 1\<rparr>" and
        f = "raise DIRECTION_WRITE demo_FILE\<lparr>buffered_bytes_write := 4\<rparr>" and
        ?w2.0 = "(demo_world [])\<lparr>w_mem := store Map.empty 100 [1, 2, 3, 4], w_errno := EIO,
          w_k := \<lparr>ram_out = [1, 2, 3], ram_in = [], ram_locks = {}, ram_next = 1\<rparr>,
          files := [50 \<mapsto> raise DIRECTION_WRITE demo_FILE\<lparr>buffered_bytes_write := 4\<rparr>]\<rparr>"])
    (simp_all add: out_file_def demo_FILE_fields stream_simps demo_world_def c_write_def ram_platform_def
      mapped_iff store_apply)

end
