(* ===== verification/Stdio_Read.thy ===== *)
theory Stdio_Read
  imports Stdio_Write
begin

text \<open>
  Input streams.  A buffered stream stands for the bytes left in its buffer followed by what its
  device still has to give; reading takes from the front of that, pushing back puts to its front.
\<close>

section \<open>State\<close>

definition in_file :: "addr \<Rightarrow> int \<Rightarrow> addr \<Rightarrow> nat \<Rightarrow> 'k stdio \<Rightarrow> FILE \<Rightarrow> byte list \<Rightarrow> bool" where
  "in_file p fd B N w f rest \<longleftrightarrow> files w p = Some f \<and> file_descriptor f = fd \<and> buffer f = B \<and>
     buffer_size f = N \<and> 0 < N \<and> int N \<le> INT_MAX \<and> mapped (w_mem w) B N \<and> buffer_mode f \<noteq> IONBF \<and>
     has f MODE_READ \<and> has f BUFFER_SET \<and> \<not> has f DIRECTION_WRITE \<and> impl_read f \<and>
     buffered_bytes_read f = buffered_bytes_read_offset f + length rest \<and> buffered_bytes_read f \<le> N \<and>
     bytes_at (w_mem w) (B + buffered_bytes_read_offset f) rest"

definition in_stream :: "('k \<Rightarrow> byte list) \<Rightarrow> addr \<Rightarrow> int \<Rightarrow> addr \<Rightarrow> nat \<Rightarrow> 'k stdio \<Rightarrow> byte list \<Rightarrow> bool" where
  "in_stream inp p fd B N w xs \<longleftrightarrow> (\<exists>f rest. in_file p fd B N w f rest \<and> xs = rest @ inp (w_k w))"

lemma in_file_fits: "in_file p fd B N w f rest \<Longrightarrow> buffered_bytes_read_offset f + length rest \<le> N"
  by (simp add: in_file_def)

section \<open>One byte\<close>

lemma fill_buffer_stream:
  assumes "gives_data K fd inp I" "in_file p fd B N w f []"
  shows "inp (w_k w) \<noteq> [] \<Longrightarrow> \<exists>w' f' rest. fill_buffer K p w = Some (0, w') \<and> in_file p fd B N w' f' rest \<and>
      rest \<noteq> [] \<and> inp (w_k w) = rest @ inp (w_k w') \<and> only_stream I p B N w w'"
    and "inp (w_k w) = [] \<Longrightarrow> \<exists>w' f'. fill_buffer K p w = Some (EOF, w') \<and> in_file p fd B N w' f' [] \<and>
      inp (w_k w') = [] \<and> has f' FLAG_EOF \<and> only_stream I p B N w w'"
proof -
  note f = assms(2)[unfolded in_file_def]
  define u where "u = (if UNGET_SPACE \<ge> N then 0 else UNGET_SPACE)"
  have u: "u < N" using f by (auto simp: u_def)
  have "mapped (w_mem w) (B + u) (N - u)" using f u mapped_add[of "w_mem w" B u "N - u"] by simp
  moreover have "0 < N - u" "int (N - u) \<le> INT_MAX" using u f by auto
  ultimately obtain xs k where r: "c_read K fd (B + u) (N - u) w
      = (int (length xs), w\<lparr>w_mem := store (w_mem w) (B + u) xs, w_k := k\<rparr>)"
    "length xs \<le> N - u" "xs = [] \<longrightarrow> inp (w_k w) = []" "inp (w_k w) = xs @ inp k" "I k = I (w_k w)"
    using read_gives[OF assms(1)] by blast
  let ?w = "w\<lparr>w_mem := store (w_mem w) (B + u) xs, w_k := k\<rparr>"
  have io: "stdio_impl_read K (B + u) (N - u) p w = Some (int (length xs), ?w)"
    using f r(1) by (simp add: stdio_impl_read_def)
  have le: "int (u + length xs) \<le> ULONG_MAX" using u r(2) f by linarith
  have m: "a < B \<or> B + N \<le> a \<Longrightarrow> store (w_mem w) (B + u) xs a = w_mem w a" for a
    using r(2) u by (auto simp: store_apply)
  {
    assume ne: "inp (w_k w) \<noteq> []"
    let ?g = "\<lambda>f. f\<lparr>buffered_bytes_read := uadd u (int (length xs)), buffered_bytes_read_offset := u\<rparr>"
    have "xs \<noteq> []" using r(3) ne by blast
    then have "fill_buffer K p w = Some (0, change p ?g ?w)"
      using f io by (simp add: fill_buffer_def u_def[symmetric] Let_def)
    moreover have "in_file p fd B N (change p ?g ?w) (?g f) xs"
      using f r(2) u le by (simp add: in_file_def stream_simps mapped_store)
    moreover have "only_stream I p B N w (change p ?g ?w)"
      using r(5) m f by (simp add: only_stream_def stream_simps)
    ultimately show "\<exists>w' f' rest. fill_buffer K p w = Some (0, w') \<and> in_file p fd B N w' f' rest \<and>
      rest \<noteq> [] \<and> inp (w_k w) = rest @ inp (w_k w') \<and> only_stream I p B N w w'"
      using r(4) \<open>xs \<noteq> []\<close> by (intro exI[of _ "change p ?g ?w"] exI[of _ "?g f"] exI[of _ xs]) (simp add: stream_simps)
  next
    assume e: "inp (w_k w) = []"
    then have xs: "xs = []" "inp k = []" using r(4) by auto
    let ?w' = "change p (raise FLAG_EOF) ?w"
    have "fill_buffer K p w = Some (EOF, ?w')"
      using f io xs by (simp add: fill_buffer_def u_def[symmetric] Let_def)
    moreover have "in_file p fd B N ?w' (raise FLAG_EOF f) []"
      using f xs by (simp add: in_file_def stream_simps)
    moreover have "only_stream I p B N w ?w'" using r(5) m f by (simp add: only_stream_def stream_simps)
    ultimately show "\<exists>w' f'. fill_buffer K p w = Some (EOF, w') \<and> in_file p fd B N w' f' [] \<and>
      inp (w_k w') = [] \<and> has f' FLAG_EOF \<and> only_stream I p B N w w'"
      using xs by (intro exI[of _ ?w'] exI[of _ "raise FLAG_EOF f"]) (simp add: stream_simps)
  }
qed

lemma in_file_direction:
  assumes "in_file p fd B N w f rest"
  shows "in_file p fd B N (change p (\<lambda>f. raise DIRECTION_READ (lower DIRECTION_WRITE f)) w)
      (raise DIRECTION_READ (lower DIRECTION_WRITE f)) rest"
    and "only_stream I p B N w (change p (\<lambda>f. raise DIRECTION_READ (lower DIRECTION_WRITE f)) w)"
  using assms by (simp_all add: in_file_def only_stream_def stream_simps)

text \<open>The last step of \<open>fgetc\<close>: taking a byte out of the buffer.\<close>

lemma take_byte:
  assumes "in_file p fd B N w f (b # rest)"
  defines "g \<equiv> \<lambda>f. f\<lparr>buffered_bytes_read_offset := uadd (buffered_bytes_read_offset f) 1\<rparr>"
  shows "w_mem w (B + buffered_bytes_read_offset f) = Some b"
    and "in_file p fd B N (change p g w) (g f) rest"
    and "only_stream I p B N w (change p g w)"
proof -
  note f = assms(1)[unfolded in_file_def]
  have "int (buffered_bytes_read_offset f) < ULONG_MAX" using f by auto
  with f show "w_mem w (B + buffered_bytes_read_offset f) = Some b"
    "in_file p fd B N (change p g w) (g f) rest" "only_stream I p B N w (change p g w)"
    by (simp_all add: g_def in_file_def only_stream_def stream_simps)
qed

lemma fgetc_stream:
  assumes dev: "gives_data K fd inp I" and st: "in_stream inp p fd B N w xs"
  shows "xs = b # ys \<Longrightarrow> \<exists>w' f'. fgetc_unlocked K p w = Some (uv b, w') \<and> in_stream inp p fd B N w' ys \<and>
      only_stream I p B N w w' \<and> files w' p = Some f' \<and> 0 < buffered_bytes_read_offset f' \<and>
      \<not> has f' DIRECTION_WRITE"
    and "xs = [] \<Longrightarrow> \<exists>w' f'. fgetc_unlocked K p w = Some (EOF, w') \<and> in_stream inp p fd B N w' [] \<and>
      only_stream I p B N w w' \<and> files w' p = Some f' \<and> has f' FLAG_EOF"
proof -
  obtain f rest where o: "in_file p fd B N w f rest" "xs = rest @ inp (w_k w)"
    using st unfolding in_stream_def by blast
  define w1 where "w1 = change p (\<lambda>f. raise DIRECTION_READ (lower DIRECTION_WRITE f)) w"
  obtain f1 where f1: "in_file p fd B N w1 f1 rest" "only_stream I p B N w w1" "w_k w1 = w_k w"
    using in_file_direction[OF o(1)] unfolding w1_def by (auto simp: stream_simps)
  have e: "fgetc_unlocked K p w = do {
      (r, w) \<leftarrow> (if rest = [] then fill_buffer K p w1 else Some (0, w1));
      if r = EOF then Some (EOF, w)
      else do {
        f \<leftarrow> files w p;
        b \<leftarrow> w_mem w (buffer f + buffered_bytes_read_offset f);
        Some (uv b, change p (\<lambda>f. f\<lparr>buffered_bytes_read_offset := uadd (buffered_bytes_read_offset f) 1\<rparr>) w)
      } }"
    using o(1) f1(1)[unfolded in_file_def] unfolding w1_def
    by (simp add: fgetc_unlocked_def ensure_buffer_def flush_if_def in_file_def Let_def stream_simps
        split del: if_split)
  have got: "\<exists>w' f'. fgetc_unlocked K p w = Some (uv c, w') \<and> in_stream inp p fd B N w' (cs @ inp (w_k w2)) \<and>
      only_stream I p B N w w' \<and> files w' p = Some f' \<and> 0 < buffered_bytes_read_offset f' \<and>
      \<not> has f' DIRECTION_WRITE"
    if 2: "(if rest = [] then fill_buffer K p w1 else Some (0, w1)) = Some (0, w2)"
      "in_file p fd B N w2 f2 (c # cs)" "only_stream I p B N w w2" for w2 f2 c cs
  proof -
    note t = take_byte[OF 2(2)]
    let ?g = "\<lambda>f. f\<lparr>buffered_bytes_read_offset := uadd (buffered_bytes_read_offset f) 1\<rparr>"
    have "fgetc_unlocked K p w = Some (uv c, change p ?g w2)"
      using 2(2)[unfolded in_file_def] t(1) unfolding e 2(1) by simp
    moreover have "int (buffered_bytes_read_offset f2) < ULONG_MAX" using 2(2) by (auto simp: in_file_def)
    ultimately show ?thesis
      using t(2) t(3)[of I] only_stream_trans[OF 2(3)] unfolding in_stream_def
      by (intro exI[of _ "change p ?g w2"] exI[of _ "?g f2"]) (auto simp: stream_simps in_file_def)
  qed
  show "\<exists>w' f'. fgetc_unlocked K p w = Some (uv b, w') \<and> in_stream inp p fd B N w' ys \<and>
      only_stream I p B N w w' \<and> files w' p = Some f' \<and> 0 < buffered_bytes_read_offset f' \<and>
      \<not> has f' DIRECTION_WRITE" if "xs = b # ys"
  proof (cases rest)
    case (Cons c cs)
    then show ?thesis using got[of w1 f1 b cs] f1 o(2) that by auto
  next
    case Nil
    with o(2) that f1(3) have i: "inp (w_k w1) = b # ys" by simp
    obtain w2 f2 rest2 where 2: "fill_buffer K p w1 = Some (0, w2)" "in_file p fd B N w2 f2 rest2"
      "rest2 \<noteq> []" "inp (w_k w1) = rest2 @ inp (w_k w2)" "only_stream I p B N w1 w2"
      using fill_buffer_stream(1)[OF dev, of p B N w1 f1] f1(1) Nil i by auto
    then obtain cs where "rest2 = b # cs" "ys = cs @ inp (w_k w2)" using i by (cases rest2) auto
    with got[of w2 f2 b cs] 2 Nil only_stream_trans[OF f1(2) 2(5)] show ?thesis by auto
  qed
  show "\<exists>w' f'. fgetc_unlocked K p w = Some (EOF, w') \<and> in_stream inp p fd B N w' [] \<and>
      only_stream I p B N w w' \<and> files w' p = Some f' \<and> has f' FLAG_EOF" if "xs = []"
  proof -
    have i: "rest = []" "inp (w_k w1) = []" using o(2) that f1(3) by auto
    obtain w2 f2 where 2: "fill_buffer K p w1 = Some (EOF, w2)" "in_file p fd B N w2 f2 []"
      "inp (w_k w2) = []" "has f2 FLAG_EOF" "only_stream I p B N w1 w2"
      using fill_buffer_stream(2)[OF dev, of p B N w1 f1] f1(1) i by auto
    with e i only_stream_trans[OF f1(2) 2(5)] show ?thesis
      by (auto simp: in_stream_def in_file_def)
  qed
qed

section \<open>Pushing back\<close>

lemma unget_room_stream:
  assumes "in_file p fd B N w f rest" "length rest < N"
  shows "\<exists>w' f'. unget_room p w = Some (True, w') \<and> in_file p fd B N w' f' rest \<and>
    0 < buffered_bytes_read_offset f' \<and> (\<forall>c. has f' c = has f c) \<and>
    w_k w' = w_k w \<and> only_stream I p B N w w'"
proof (cases "buffered_bytes_read_offset f = 0")
  case False
  with assms show ?thesis by (intro exI[of _ w] exI[of _ f]) (simp add: unget_room_def in_file_def)
next
  case True
  note f = assms(1)[unfolded in_file_def]
  let ?sp = "N - length rest"
  have le: "int N \<le> ULONG_MAX" using f by linarith
  have mp: "mapped (w_mem w) (B + ?sp) (length rest)"
    using f assms(2) mapped_add[of "w_mem w" B ?sp "length rest"] by simp
  let ?g = "\<lambda>f. f\<lparr>buffered_bytes_read_offset := ?sp, buffered_bytes_read := ?sp + length rest\<rparr>"
  let ?w = "w\<lparr>w_mem := store (w_mem w) (B + ?sp) rest\<rparr>"
  have "unget_room p w = Some (True, change p ?g ?w)"
    using f True assms(2) le memmove_correct[of "w_mem w" B rest "B + ?sp"] mp
    by (simp add: unget_room_def Let_def)
  moreover have "in_file p fd B N (change p ?g ?w) (?g f) rest"
    using f True assms(2) by (simp add: in_file_def stream_simps mapped_store)
  moreover have "only_stream I p B N w (change p ?g ?w)"
    using f assms(2) by (auto simp: only_stream_def stream_simps store_apply)
  ultimately show ?thesis using assms(2)
    by (intro exI[of _ "change p ?g ?w"] exI[of _ "?g f"]) (simp add: stream_simps)
qed

lemma ungetc_file:
  assumes "in_file p fd B N w f rest" "length rest < N"
  shows "\<exists>w' f'. fungetc_unlocked K (uv b) p w = Some (uv b, w') \<and> in_file p fd B N w' f' (b # rest) \<and>
    \<not> has f' FLAG_EOF \<and> w_k w' = w_k w \<and> only_stream I p B N w w'"
proof -
  define w1 where "w1 = change p (\<lambda>f. lower FLAG_EOF (raise DIRECTION_READ f)) w"
  have f1: "in_file p fd B N w1 (lower FLAG_EOF (raise DIRECTION_READ f)) rest" "only_stream I p B N w w1"
    "w_k w1 = w_k w"
    using assms(1) by (simp_all add: w1_def in_file_def only_stream_def stream_simps)
  obtain w2 f2 where 2: "unget_room p w1 = Some (True, w2)" "in_file p fd B N w2 f2 rest"
    "0 < buffered_bytes_read_offset f2" "\<not> has f2 FLAG_EOF" "w_k w2 = w_k w1" "only_stream I p B N w1 w2"
    using unget_room_stream[OF f1(1) assms(2), of I] by (auto simp: stream_simps)
  note f2 = 2(2)[unfolded in_file_def]
  define pos where "pos = buffered_bytes_read_offset f2 - 1"
  have pos: "buffered_bytes_read_offset f2 = Suc pos" using 2(3) by (simp add: pos_def)
  obtain c where c: "w_mem w2 (B + pos) = Some c"
    using mapped_get[of "w_mem w2" B N "B + pos"] f2 pos by auto
  let ?w = "change p (\<lambda>f. f\<lparr>buffered_bytes_read_offset := pos\<rparr>) (w2\<lparr>w_mem := (w_mem w2)(B + pos \<mapsto> b)\<rparr>)"
  have ne: "uv b \<noteq> EOF" by simp
  have "fungetc_unlocked K (uv b) p w = Some (uv b, ?w)"
    using assms(1)[unfolded in_file_def] 2(1) f2 c ne
    by (simp add: fungetc_unlocked_def ensure_buffer_def flush_if_def Let_def pos_def flip: w1_def)
  moreover have "in_file p fd B N ?w (f2\<lparr>buffered_bytes_read_offset := pos\<rparr>) (b # rest)"
    using f2 pos by (simp add: in_file_def stream_simps mem_simps)
  moreover have "only_stream I p B N w ?w"
  proof (rule only_stream_trans[OF f1(2) only_stream_trans[OF 2(6)]])
    show "only_stream I p B N w2 ?w" using f2 pos by (auto simp: only_stream_def stream_simps)
  qed
  moreover have "\<not> has (f2\<lparr>buffered_bytes_read_offset := pos\<rparr>) FLAG_EOF" using 2(4) by (simp add: stream_simps)
  ultimately show ?thesis using f1(3) 2(5)
    by (intro exI[of _ ?w] exI[of _ "f2\<lparr>buffered_bytes_read_offset := pos\<rparr>"]) (simp add: stream_simps)
qed

section \<open>Blocks\<close>

text \<open>
  \<open>n\<close> bytes go to \<open>a\<close>, or as many as the stream has; the target is outside the stream's buffer.
\<close>

definition only_read :: "('k \<Rightarrow> 'i) \<Rightarrow> addr \<Rightarrow> addr \<Rightarrow> nat \<Rightarrow> addr \<Rightarrow> byte list \<Rightarrow> 'k stdio \<Rightarrow> 'k stdio \<Rightarrow> bool" where
  "only_read I p B N a ys w w' \<longleftrightarrow> only_stream I p B N (w\<lparr>w_mem := store (w_mem w) a ys\<rparr>) w'"

lemma only_read_Nil [simp]: "only_read I p B N a [] w w' = only_stream I p B N w w'"
  by (simp add: only_read_def)

lemma only_read_append:
  assumes "only_read I p B N a ys w w1" "only_read I p B N (a + length ys) zs w1 w2"
  shows "only_read I p B N a (ys @ zs) w w2"
  using assms by (auto simp: only_read_def only_stream_def store_append store_apply)

lemma in_stream_mem:
  assumes "\<forall>a. B \<le> a \<and> a < B + N \<longrightarrow> m' a = w_mem w a" "in_stream inp p fd B N w xs"
  shows "in_stream inp p fd B N (w\<lparr>w_mem := m'\<rparr>) xs"
proof -
  obtain f rest where o: "in_file p fd B N w f rest" "xs = rest @ inp (w_k w)"
    using assms(2) unfolding in_stream_def by blast
  have "bytes_at m' (B + buffered_bytes_read_offset f) rest = bytes_at (w_mem w) (B + buffered_bytes_read_offset f) rest"
    using assms(1) in_file_fits[OF o(1)] by (intro bytes_at_frame) auto
  moreover have "mapped m' B N = mapped (w_mem w) B N" using assms(1) by (auto simp: mapped_iff)
  ultimately have "in_file p fd B N (w\<lparr>w_mem := m'\<rparr>) f rest" using o(1) by (simp add: in_file_def)
  with o(2) show ?thesis unfolding in_stream_def by auto
qed

lemma fread_bytes_stream:
  assumes "gives_data K fd inp I"
  shows "in_stream inp p fd B N w xs \<Longrightarrow> mapped (w_mem w) a n \<Longrightarrow> a + n \<le> B \<or> B + N \<le> a \<Longrightarrow>
    \<exists>w'. fread_bytes K a n p w = Some (n \<le> length xs, w') \<and> in_stream inp p fd B N w' (drop n xs) \<and>
      only_read I p B N a (take n xs) w w'"
proof (induction n arbitrary: a w xs)
  case 0
  then show ?case by simp
next
  case (Suc n)
  show ?case
  proof (cases xs)
    case Nil
    with fgetc_stream(2)[OF assms Suc.prems(1)] show ?thesis by auto
  next
    case (Cons b ys)
    obtain w1 where w1: "fgetc_unlocked K p w = Some (uv b, w1)" "in_stream inp p fd B N w1 ys"
      "only_stream I p B N w w1" using fgetc_stream(1)[OF assms Suc.prems(1) Cons] by blast
    have same: "w_mem w1 c = w_mem w c" if "a \<le> c" "c < a + Suc n" for c
      using w1(3) that Suc.prems(3) by (auto simp: only_stream_def)
    obtain x where x: "w_mem w a = Some x" using Suc.prems(2) by auto
    let ?w = "w1\<lparr>w_mem := (w_mem w1)(a \<mapsto> b)\<rparr>"
    have "mapped (w_mem ?w) (Suc a) n" using Suc.prems(2) same by (auto simp: mapped_iff simp flip: add_Suc_right)
    moreover have "in_stream inp p fd B N ?w ys" using Suc.prems(3) by (intro in_stream_mem w1(2)) auto
    ultimately obtain w2 where w2: "fread_bytes K (Suc a) n p ?w = Some (n \<le> length ys, w2)"
      "in_stream inp p fd B N w2 (drop n ys)" "only_read I p B N (Suc a) (take n ys) ?w w2"
      using Suc.IH[of ?w ys "Suc a"] Suc.prems(3) by auto
    have "only_read I p B N a [b] w ?w"
      using w1(3) Suc.prems(3) by (auto simp: only_read_def only_stream_def)
    from only_read_append[OF this, of "take n ys" w2] w2(3) have "only_read I p B N a (take (Suc n) xs) w w2"
      by (simp add: Cons)
    with w1(1) w2(1,2) x same[of a] Cons show ?thesis by simp
  qed
qed

lemma fread_items_stream:
  assumes "gives_data K fd inp I" "0 < n"
  shows "in_stream inp p fd B N w xs \<Longrightarrow> mapped (w_mem w) (ptr + e * n) (k * n) \<Longrightarrow>
    ptr + e * n + k * n \<le> B \<or> B + N \<le> ptr \<Longrightarrow>
    \<exists>w'. fread_items K ptr n k e p w = Some (e + min k (length xs div n), w') \<and>
      in_stream inp p fd B N w' (drop (k * n) xs) \<and> only_read I p B N (ptr + e * n) (take (k * n) xs) w w'"
proof (induction k arbitrary: e w xs)
  case 0
  then show ?case by simp
next
  case (Suc k)
  have m: "mapped (w_mem w) (ptr + e * n) n" "mapped (w_mem w) (ptr + e * n + n) (k * n)"
    using Suc.prems(2) mapped_add[of "w_mem w" "ptr + e * n" n "k * n"] by (simp_all add: add.commute)
  obtain w1 where w1: "fread_bytes K (ptr + e * n) n p w = Some (n \<le> length xs, w1)"
    "in_stream inp p fd B N w1 (drop n xs)" "only_read I p B N (ptr + e * n) (take n xs) w w1"
    using fread_bytes_stream[OF assms(1) Suc.prems(1) m(1)] Suc.prems(3) by auto
  show ?case
  proof (cases "n \<le> length xs")
    case False
    then have "length xs div n = 0" "take (Suc k * n) xs = take n xs" "drop (Suc k * n) xs = drop n xs" by auto
    with w1 False show ?thesis by simp
  next
    case True
    have "w_mem w1 c \<noteq> None" if "w_mem w c \<noteq> None" "c < B \<or> B + N \<le> c" for c
      using w1(3) that by (auto simp: only_read_def only_stream_def store_apply)
    moreover have "ptr + e * n + n + i < B \<or> B + N \<le> ptr + e * n + n + i" if "i < k * n" for i
      using Suc.prems(3) that by auto
    ultimately have "mapped (w_mem w1) (ptr + Suc e * n) (k * n)"
      using m(2) by (auto simp: mapped_iff add.commute add.left_commute)
    then obtain w2 where w2: "fread_items K ptr n k (Suc e) p w1 = Some (Suc e + min k (length (drop n xs) div n), w2)"
      "in_stream inp p fd B N w2 (drop (k * n) (drop n xs))"
      "only_read I p B N (ptr + Suc e * n) (take (k * n) (drop n xs)) w1 w2"
      using Suc.IH[OF w1(2), of "Suc e"] Suc.prems(3) by (auto simp: algebra_simps)
    have "length xs div n = Suc (length (drop n xs) div n)" using True assms(2) by (simp add: le_div_geq)
    moreover have "only_read I p B N (ptr + e * n) (take (Suc k * n) xs) w w2"
      using only_read_append[OF w1(3), of "take (k * n) (drop n xs)" w2] w2(3) True
      by (simp add: take_add add.commute add.left_commute)
    ultimately show ?thesis using w1(1) w2(1,2) True by (simp add: drop_drop add.commute)
  qed
qed

lemma fread_stream:
  assumes "gives_data K fd inp I" "in_stream inp p fd B N w xs" "mapped (w_mem w) ptr (nmemb * n)" "0 < n"
    and "ptr + nmemb * n \<le> B \<or> B + N \<le> ptr"
  shows "\<exists>w'. fread_unlocked K ptr n nmemb p w = Some (min nmemb (length xs div n), w') \<and>
    in_stream inp p fd B N w' (drop (nmemb * n) xs) \<and> only_read I p B N ptr (take (nmemb * n) xs) w w'"
proof (cases "nmemb = 0")
  case True
  with assms show ?thesis by (simp add: fread_unlocked_def fread_direct_def)
next
  case False
  have "fread_direct K ptr n nmemb p w = Some (None, w)"
    using assms(2,4) False by (auto simp: in_stream_def in_file_def fread_direct_def ensure_buffer_def)
  with fread_items_stream[OF assms(1,4,2), of ptr 0 nmemb] assms(3,5) show ?thesis
    by (simp add: fread_unlocked_def)
qed

section \<open>Under the stream's lock\<close>

lemma in_file_kernel: "in_file p fd B N (w\<lparr>w_k := k\<rparr>) f rest = in_file p fd B N w f rest"
  by (simp add: in_file_def)

lemma in_stream_kernel:
  "inp k = inp (w_k w) \<Longrightarrow> in_stream inp p fd B N (w\<lparr>w_k := k\<rparr>) xs = in_stream inp p fd B N w xs"
  by (simp add: in_stream_def in_file_kernel)

lemma in_stream_file: "in_stream inp p fd B N w xs \<Longrightarrow> \<exists>f. files w p = Some f"
  by (auto simp: in_stream_def in_file_def)

lemma fgetc_locked:
  assumes "gives_data K fd inp held" "good_mutexes K held inp" "in_stream inp p fd B N w (b # ys)"
    and "\<forall>f. files w p = Some f \<longrightarrow> lock f \<notin> held (w_k w)"
  shows "\<exists>w'. fgetc K p w = Some (uv b, w') \<and> in_stream inp p fd B N w' ys \<and> only_stream held p B N w w'"
proof -
  obtain f where f: "files w p = Some f" "lock f \<notin> held (w_k w)" using in_stream_file[OF assms(3)] assms(4) by blast
  obtain k where k: "inp k = inp (w_k w)" "held k = insert (lock f) (held (w_k w))"
    "\<forall>r w1. fgetc_unlocked K p (w\<lparr>w_k := k\<rparr>) = Some (r, w1) \<longrightarrow>
      map_option lock (files w1 p) = Some (lock f) \<longrightarrow> held (w_k w1) = held k \<longrightarrow>
      (\<exists>k1. fgetc K p w = Some (r, w1\<lparr>w_k := k1\<rparr>) \<and> held k1 = held (w_k w) \<and> inp k1 = inp (w_k w1))"
    using locked_run[OF assms(2) f, of "fgetc_unlocked K p"] unfolding fgetc_def by blast
  have st: "in_stream inp p fd B N (w\<lparr>w_k := k\<rparr>) (b # ys)" using in_stream_kernel[OF k(1)] assms(3) by blast
  obtain w1 where w1: "fgetc_unlocked K p (w\<lparr>w_k := k\<rparr>) = Some (uv b, w1)" "in_stream inp p fd B N w1 ys"
    "only_stream held p B N (w\<lparr>w_k := k\<rparr>) w1" using fgetc_stream(1)[OF assms(1) st] by blast
  then obtain k1 where "fgetc K p w = Some (uv b, w1\<lparr>w_k := k1\<rparr>)" "held k1 = held (w_k w)" "inp k1 = inp (w_k w1)"
    using k(3)[rule_format, OF w1(1)] f by (auto simp: only_stream_def)
  with w1(2,3) show ?thesis by (auto simp: in_stream_kernel only_stream_def)
qed

lemma ungetc_locked:
  assumes "good_mutexes K held inp" "in_file p fd B N w f rest" "length rest < N" "lock f \<notin> held (w_k w)"
  shows "\<exists>w' f'. ungetc K (uv b) p w = Some (uv b, w') \<and> in_file p fd B N w' f' (b # rest) \<and>
    inp (w_k w') = inp (w_k w) \<and> only_stream held p B N w w'"
proof -
  have f: "files w p = Some f" using assms(2) by (simp add: in_file_def)
  obtain k where k: "inp k = inp (w_k w)" "held k = insert (lock f) (held (w_k w))"
    "\<forall>r w1. fungetc_unlocked K (uv b) p (w\<lparr>w_k := k\<rparr>) = Some (r, w1) \<longrightarrow>
      map_option lock (files w1 p) = Some (lock f) \<longrightarrow> held (w_k w1) = held k \<longrightarrow>
      (\<exists>k1. ungetc K (uv b) p w = Some (r, w1\<lparr>w_k := k1\<rparr>) \<and> held k1 = held (w_k w) \<and> inp k1 = inp (w_k w1))"
    using locked_run[OF assms(1) f assms(4), of "fungetc_unlocked K (uv b) p"] unfolding ungetc_def by blast
  obtain w1 f1 where w1: "fungetc_unlocked K (uv b) p (w\<lparr>w_k := k\<rparr>) = Some (uv b, w1)"
    "in_file p fd B N w1 f1 (b # rest)" "w_k w1 = k" "only_stream held p B N (w\<lparr>w_k := k\<rparr>) w1"
    using ungetc_file[of p fd B N "w\<lparr>w_k := k\<rparr>" f rest K b held] assms(2,3) by (auto simp: in_file_kernel)
  then obtain k1 where "ungetc K (uv b) p w = Some (uv b, w1\<lparr>w_k := k1\<rparr>)" "held k1 = held (w_k w)"
    "inp k1 = inp k" using k(3)[rule_format, OF w1(1)] f by (auto simp: only_stream_def)
  with w1(2,4) k(1) show ?thesis by (auto simp: in_file_kernel only_stream_def)
qed

lemma demo_in: "in_file 50 1 100 4 (demo_world xs) demo_FILE []"
  by (simp add: in_file_def demo_FILE_fields demo_world_def mapped_iff store_apply)

lemma demo_in_stream: "in_stream ram_in 50 1 100 4 (demo_world xs) xs"
  unfolding in_stream_def by (intro exI[of _ demo_FILE] exI[of _ "[]"] conjI demo_in) (simp add: demo_world_def)

section \<open>Properties\<close>

text \<open>
  C5. \<open>fread\<close> on a buffered stream stores the next bytes of the stream, in order, and returns the
  number of whole items, less than asked for only at the end of the data; the rest of the data
  stays in the stream, and the call returns with the mutexes held as before.
\<close>

theorem fread_reads_prefix:
  assumes "gives_data K fd inp held" "good_mutexes K held inp" "in_stream inp p fd B N w xs" "p \<noteq> NULL"
    and "\<forall>f. files w p = Some f \<longrightarrow> lock f \<notin> held (w_k w)"
    and "mapped (w_mem w) ptr (nmemb * n)" "0 < n" "ptr + nmemb * n \<le> B \<or> B + N \<le> ptr"
  shows "\<exists>w'. fread K ptr n nmemb p w = Some (min nmemb (length xs div n), w') \<and>
    bytes_at (w_mem w') ptr (take (nmemb * n) xs) \<and> in_stream inp p fd B N w' (drop (nmemb * n) xs) \<and>
    held (w_k w') = held (w_k w)"
proof -
  let ?r = "min nmemb (length xs div n)"
  obtain f where f: "files w p = Some f" "lock f \<notin> held (w_k w)" using in_stream_file[OF assms(3)] assms(5) by blast
  obtain k where k: "inp k = inp (w_k w)" "held k = insert (lock f) (held (w_k w))"
    "\<forall>r w1. fread_unlocked K ptr n nmemb p (w\<lparr>w_k := k\<rparr>) = Some (r, w1) \<longrightarrow>
      map_option lock (files w1 p) = Some (lock f) \<longrightarrow> held (w_k w1) = held k \<longrightarrow>
      (\<exists>k1. fread K ptr n nmemb p w = Some (r, w1\<lparr>w_k := k1\<rparr>) \<and> held k1 = held (w_k w) \<and> inp k1 = inp (w_k w1))"
    using locked_run[OF assms(2) f, of "fread_unlocked K ptr n nmemb p"] assms(4) unfolding fread_def by auto
  have st: "in_stream inp p fd B N (w\<lparr>w_k := k\<rparr>) xs" using in_stream_kernel[OF k(1)] assms(3) by blast
  obtain w1 where w1: "fread_unlocked K ptr n nmemb p (w\<lparr>w_k := k\<rparr>) = Some (?r, w1)"
    "in_stream inp p fd B N w1 (drop (nmemb * n) xs)" "only_read held p B N ptr (take (nmemb * n) xs) (w\<lparr>w_k := k\<rparr>) w1"
    using fread_stream[OF assms(1) st _ assms(7,8)] assms(6) by auto
  have "bytes_at (w_mem w1) ptr (take (nmemb * n) xs)"
    using w1(3) assms(8) by (auto simp: bytes_at_iff only_read_def only_stream_def store_apply)
  moreover obtain k1 where "fread K ptr n nmemb p w = Some (?r, w1\<lparr>w_k := k1\<rparr>)" "held k1 = held (w_k w)"
    "inp k1 = inp (w_k w1)" using k(3)[rule_format, OF w1(1)] w1(3) f by (auto simp: only_read_def only_stream_def)
  ultimately show ?thesis using w1(2) by (auto simp: in_stream_kernel)
qed

theorem fread_reads_prefix_witness:
  "\<exists>w'. fread demo_platform 10 2 4 50 (demo_world [1, 2, 3, 4, 5, 6, 7]) = Some (min 4 (length [1, 2, 3, 4, 5, 6, 7 :: byte] div 2), w') \<and>
    bytes_at (w_mem w') 10 (take (4 * 2) [1, 2, 3, 4, 5, 6, 7]) \<and>
    in_stream ram_in 50 1 100 4 w' (drop (4 * 2) [1, 2, 3, 4, 5, 6, 7]) \<and>
    ram_locks (w_k w') = ram_locks (w_k (demo_world [1, 2, 3, 4, 5, 6, 7]))"
  by (rule fread_reads_prefix[OF ram_gives ram_mutexes(2) demo_in_stream _ demo_lock])
    (simp_all add: demo_world_def store_apply mapped_iff)

text \<open>
  C24. A byte pushed back with \<open>ungetc\<close> is the next one \<open>fgetc\<close> returns, after which the stream
  stands for the same data as before; the device is not read.  It works whenever the buffer is not
  full, also at its left end, where the buffered bytes are moved.
\<close>

theorem ungetc_fgetc:
  assumes "gives_data K fd inp held" "good_mutexes K held inp" "in_file p fd B N w f rest" "length rest < N"
    and "lock f \<notin> held (w_k w)"
  shows "\<exists>w1 w2. ungetc K (uv b) p w = Some (uv b, w1) \<and> fgetc K p w1 = Some (uv b, w2) \<and>
    in_stream inp p fd B N w2 (rest @ inp (w_k w)) \<and> held (w_k w2) = held (w_k w)"
proof -
  obtain w1 f1 where w1: "ungetc K (uv b) p w = Some (uv b, w1)" "in_file p fd B N w1 f1 (b # rest)"
    "inp (w_k w1) = inp (w_k w)" "only_stream held p B N w w1"
    using ungetc_locked[OF assms(2-5)] by blast
  then have st: "in_stream inp p fd B N w1 (b # (rest @ inp (w_k w)))"
    unfolding in_stream_def by (intro exI[of _ f1] exI[of _ "b # rest"]) simp
  have "\<forall>f. files w1 p = Some f \<longrightarrow> lock f \<notin> held (w_k w1)"
    using assms(3,5) by (intro only_stream_lock[OF w1(4)]) (simp add: in_file_def)
  from fgetc_locked[OF assms(1,2) st this] w1(1,4) show ?thesis by (auto simp: only_stream_def)
qed

theorem ungetc_fgetc_witness:
  "\<exists>w1 w2. ungetc demo_platform (uv 65) 50 (demo_world [66]) = Some (uv 65, w1) \<and>
    fgetc demo_platform 50 w1 = Some (uv 65, w2) \<and>
    in_stream ram_in 50 1 100 4 w2 ([] @ ram_in (w_k (demo_world [66]))) \<and>
    ram_locks (w_k w2) = ram_locks (w_k (demo_world [66]))"
  by (rule ungetc_fgetc[OF ram_gives ram_mutexes(2) demo_in]) (simp_all add: demo_world_def demo_FILE_fields)

text \<open>
  \<open>fseek\<close> leaves the buffer of an input stream alone: while it holds a byte, \<open>fgetc\<close> after
  \<open>fseek\<close> to any position returns that byte, whatever the file has at the position.
\<close>

theorem fseek_keeps_buffered_byte:
  assumes "good_mutexes K held inp" "in_file p fd B N w f (b # rest)" "impl_seek f" "lock f \<notin> held (w_k w)"
    and "seek_mode whence = Some mode" "\<forall>k. held (snd (snd (sys_seek K fd offset mode k))) = held k"
    and "gives_data K fd inp held"
  shows "\<exists>r w1 w2. fseek K p offset whence w = Some (r, w1) \<and> fgetc K p w1 = Some (uv b, w2)"
proof -
  have f: "files w p = Some f" "file_descriptor f = fd" using assms(2) by (simp_all add: in_file_def)
  obtain k where k: "held k = insert (lock f) (held (w_k w))"
    "\<forall>r w1. fseeko_unlocked K p offset whence (w\<lparr>w_k := k\<rparr>) = Some (r, w1) \<longrightarrow>
      map_option lock (files w1 p) = Some (lock f) \<longrightarrow> held (w_k w1) = held k \<longrightarrow>
      (\<exists>k1. fseek K p offset whence w = Some (r, w1\<lparr>w_k := k1\<rparr>) \<and> held k1 = held (w_k w) \<and> inp k1 = inp (w_k w1))"
    using locked_run[OF assms(1) f(1) assms(4), of "fseeko_unlocked K p offset whence"]
    unfolding fseek_def fseeko_def by blast
  obtain st res k2 where seek: "sys_seek K fd offset mode k = (st, res, k2)" by (cases "sys_seek K fd offset mode k")
  then have "held k2 = held k" using assms(6)[rule_format, of k] by simp
  then have "\<exists>r w2. fseeko_unlocked K p offset whence (w\<lparr>w_k := k\<rparr>) = Some (r, w2) \<and> files w2 = files w \<and>
      w_mem w2 = w_mem w \<and> held (w_k w2) = held k"
    using f assms(3,5) seek by (auto simp: fseeko_unlocked_def stdio_impl_seek_def lseek_def Let_def)
  then obtain r w2 where r: "fseeko_unlocked K p offset whence (w\<lparr>w_k := k\<rparr>) = Some (r, w2)" "files w2 = files w"
    "w_mem w2 = w_mem w" "held (w_k w2) = held k" by blast
  then obtain k3 where k3: "fseek K p offset whence w = Some (r, w2\<lparr>w_k := k3\<rparr>)" "held k3 = held (w_k w)"
    using k(2)[rule_format, OF r(1)] f by auto
  have "in_stream inp p fd B N (w2\<lparr>w_k := k3\<rparr>) (b # (rest @ inp k3))"
    using assms(2) r(2,3) unfolding in_stream_def by (intro exI[of _ f] exI[of _ "b # rest"]) (simp add: in_file_def)
  from fgetc_locked[OF assms(7,1) this] k3 f r(2) assms(4) show ?thesis by auto
qed

theorem fseek_keeps_buffered_byte_witness:
  "let w = (demo_world [7])\<lparr>w_mem := store Map.empty 100 [1, 2, 3, 4],
      files := [50 \<mapsto> demo_FILE\<lparr>buffered_bytes_read := 4\<rparr>]\<rparr> in
   \<exists>r w1 w2. fseek demo_platform 50 0 SEEK_END w = Some (r, w1) \<and> fgetc demo_platform 50 w1 = Some (uv 1, w2)"
  unfolding Let_def
  by (rule fseek_keeps_buffered_byte[OF ram_mutexes(2) _ _ _ _ _ ram_gives, where fd = 1 and B = 100 and N = 4 and
        f = "demo_FILE\<lparr>buffered_bytes_read := 4\<rparr>" and rest = "[2, 3, 4]" and mode = 2])
    (simp_all add: in_file_def demo_FILE_fields stream_simps demo_world_def mapped_iff store_apply seek_mode_def
      ram_platform_def)

end
