(* ===== verification/Stdio_Files.thy ===== *)
theory Stdio_Files
  imports Stdio_Read
begin

text \<open>
  The list of open streams, the parsing of modes, and what opening, closing and the initialisation
  of the standard streams do to them.
\<close>

section \<open>The doubly linked list\<close>

text \<open>
  A segment of the list from \<open>p\<close>, entered from \<open>q\<close>: its streams \<open>xs\<close>, the last of them (or \<open>q\<close>)
  \<open>r\<close>, and what follows, \<open>z\<close>.
\<close>

fun seg :: "(addr \<rightharpoonup> FILE) \<Rightarrow> addr \<Rightarrow> addr \<Rightarrow> addr list \<Rightarrow> addr \<Rightarrow> addr \<Rightarrow> bool" where
  "seg fs q p [] r z \<longleftrightarrow> p = z \<and> q = r"
| "seg fs q p (x # xs) r z \<longleftrightarrow> p = x \<and> x \<noteq> NULL \<and>
     (\<exists>f. fs x = Some f \<and> prev_file f = q \<and> seg fs x (next_file f) xs r z)"

definition open_list :: "'k stdio \<Rightarrow> addr list \<Rightarrow> bool" where
  "open_list w xs \<longleftrightarrow> (\<exists>r. seg (files w) NULL (open_file_list w) xs r NULL) \<and> distinct xs"

text \<open>A structure without its links.\<close>

definition clean :: "FILE \<Rightarrow> FILE" where
  "clean f = f\<lparr>prev_file := NULL, next_file := NULL\<rparr>"

definition same_files :: "'k stdio \<Rightarrow> 'k stdio \<Rightarrow> bool" where
  "same_files w w' \<longleftrightarrow> (\<forall>q. map_option clean (files w' q) = map_option clean (files w q)) \<and> w_mem w' = w_mem w \<and>
     w_errno w' = w_errno w \<and> w_k w' = w_k w \<and> open_file_list_lock w' = open_file_list_lock w"

lemma clean_links [simp]: "clean (f\<lparr>prev_file := a\<rparr>) = clean f" "clean (f\<lparr>next_file := a\<rparr>) = clean f"
  by (simp_all add: clean_def)

lemma same_files_refl [simp]: "same_files w w"
  by (simp add: same_files_def)

lemma same_files_trans: "same_files w w1 \<Longrightarrow> same_files w1 w2 \<Longrightarrow> same_files w w2"
  by (simp add: same_files_def)

lemma assign_Some: "files w p = Some f \<Longrightarrow> assign p g w = Some (w\<lparr>files := (files w)(p \<mapsto> g f)\<rparr>)"
  by (simp add: assign_def change_def)

lemma seg_frame: "(\<And>x. x \<in> set xs \<Longrightarrow> fs' x = fs x) \<Longrightarrow> seg fs' q p xs r z = seg fs q p xs r z"
  by (induction xs arbitrary: q p) auto

lemma seg_upd [simp]: "x \<notin> set xs \<Longrightarrow> seg (fs(x := y)) q p xs r z = seg fs q p xs r z"
  by (rule seg_frame) auto

lemma seg_append: "seg fs q p (xs @ ys) r z \<longleftrightarrow> (\<exists>a b. seg fs q p xs a b \<and> seg fs a b ys r z)"
  by (induction xs arbitrary: q p) auto

lemma seg_last: "seg fs q p xs a b \<Longrightarrow> xs \<noteq> [] \<Longrightarrow> a = last xs \<and> a \<noteq> NULL \<and> (\<exists>l. fs a = Some l \<and> next_file l = b)"
proof (induction xs arbitrary: q p)
  case (Cons x xs)
  then show ?case by (cases xs) auto
qed simp

lemma seg_set_next:
  "seg fs q p xs a b \<Longrightarrow> xs \<noteq> [] \<Longrightarrow> distinct xs \<Longrightarrow> fs a = Some l \<Longrightarrow>
   seg (fs(a \<mapsto> l\<lparr>next_file := n\<rparr>)) q p xs a n"
proof (induction xs arbitrary: q p)
  case (Cons x xs)
  show ?case
  proof (cases xs)
    case Nil
    with Cons.prems show ?thesis by auto
  next
    case (Cons y ys)
    then have "a = last xs" "x \<noteq> a" using Cons.prems Cons.prems(1,3) seg_last[of fs q p "x # xs" a b] by auto
    with Cons Cons.prems Cons.IH show ?thesis by auto
  qed
qed simp

lemma seg_set_prev:
  "seg fs q p (y # ys) r z \<Longrightarrow> y \<notin> set ys \<Longrightarrow> fs y = Some f \<Longrightarrow>
   seg (fs(y \<mapsto> f\<lparr>prev_file := q'\<rparr>)) q' p (y # ys) r z"
  by auto

lemma list_insert_correct:
  assumes "open_list w xs" "p \<notin> set xs" "p \<noteq> NULL" "files w p = Some f" "prev_file f = NULL" "next_file f = NULL"
  shows "\<exists>w'. list_insert p w = Some w' \<and> open_list w' (p # xs) \<and> same_files w w'"
proof (cases xs)
  case Nil
  with assms show ?thesis
    by (auto simp: list_insert_def open_list_def same_files_def)
next
  case (Cons x ys)
  then obtain g r where g: "open_file_list w = x" "files w x = Some g" "x \<noteq> NULL" "x \<noteq> p"
    "seg (files w) x (next_file g) ys r NULL" "x \<notin> set ys" "distinct ys" "p \<notin> set ys"
    using assms(1,2) by (auto simp: open_list_def)
  let ?w = "w\<lparr>files := (files w)(x \<mapsto> g\<lparr>prev_file := p\<rparr>, p \<mapsto> f\<lparr>next_file := x\<rparr>), open_file_list := p\<rparr>"
  have "list_insert p w = Some ?w"
    using g assms(4) by (simp add: list_insert_def assign_Some)
  moreover have "open_list ?w (p # xs)" using g assms Cons by (auto simp: open_list_def)
  moreover have "same_files w ?w" using g assms(4) by (auto simp: same_files_def)
  ultimately show ?thesis by blast
qed

lemma list_unlink_correct:
  assumes "open_list w (xs @ p # ys)"
  shows "\<exists>w'. list_unlink p w = Some w' \<and> open_list w' (xs @ ys) \<and> same_files w w'"
proof -
  obtain a r f where f: "seg (files w) NULL (open_file_list w) xs a p" "files w p = Some f" "p \<noteq> NULL"
    "prev_file f = a" "seg (files w) p (next_file f) ys r NULL"
    using assms by (auto simp: open_list_def seg_append)
  have d: "distinct xs" "distinct ys" "p \<notin> set xs" "p \<notin> set ys" "set xs \<inter> set ys = {}"
    using assms by (auto simp: open_list_def)
  define n where "n = next_file f"
  define w1 where "w1 = (if p = open_file_list w then w\<lparr>open_file_list := n\<rparr> else w)"
  have w1: "files w1 = files w" "same_files w w1" by (auto simp: w1_def same_files_def)
  have "\<exists>w2. (if a \<noteq> NULL then assign a (\<lambda>g. g\<lparr>next_file := n\<rparr>) w1 else Some w1) = Some w2 \<and>
      seg (files w2) NULL (open_file_list w2) xs a n \<and> files w2 p = Some f \<and>
      seg (files w2) p n ys r NULL \<and> same_files w w2"
  proof (cases "xs = []")
    case True
    with f w1 show ?thesis by (intro exI[of _ w1]) (auto simp: w1_def n_def)
  next
    case False
    obtain l where l: "a = last xs" "a \<noteq> NULL" "files w a = Some l" "next_file l = p"
      using seg_last[OF f(1) False] by auto
    have "a \<in> set xs" using l(1) False by simp
    then have a: "a \<noteq> p" "a \<notin> set ys" using d by auto
    have "open_file_list w \<noteq> p" using f(1) False d(3) by (cases xs) auto
    then have w1': "w1 = w" by (simp add: w1_def)
    let ?w = "w\<lparr>files := (files w)(a \<mapsto> l\<lparr>next_file := n\<rparr>)\<rparr>"
    have "assign a (\<lambda>g. g\<lparr>next_file := n\<rparr>) w1 = Some ?w" using l(3) w1' by (simp add: assign_Some)
    moreover have "seg (files ?w) NULL (open_file_list ?w) xs a n"
      using seg_set_next[OF f(1) False d(1) l(3)] by simp
    moreover have "same_files w ?w" using l(3) by (simp add: same_files_def)
    ultimately show ?thesis using f l(2) a unfolding n_def by auto
  qed
  then obtain w2 where w2: "(if a \<noteq> NULL then assign a (\<lambda>g. g\<lparr>next_file := n\<rparr>) w1 else Some w1) = Some w2"
    "seg (files w2) NULL (open_file_list w2) xs a n" "files w2 p = Some f" "seg (files w2) p n ys r NULL"
    "same_files w w2" by blast
  have e: "list_unlink p w = (if n \<noteq> NULL then assign n (\<lambda>g. g\<lparr>prev_file := a\<rparr>) w2 else Some w2)"
  proof -
    have "list_unlink p w = (if a \<noteq> NULL then assign a (\<lambda>g. g\<lparr>next_file := n\<rparr>) w1 else Some w1) \<bind> (\<lambda>w. files w p \<bind>
        (\<lambda>f. if next_file f \<noteq> NULL then assign (next_file f) (\<lambda>g. g\<lparr>prev_file := prev_file f\<rparr>) w else Some w))"
      unfolding list_unlink_def w1_def n_def f(2) Option.bind.bind_lunit Let_def f(4) ..
    then show ?thesis unfolding w2(1) by (simp add: w2(3) f(4) n_def)
  qed
  show ?thesis
  proof (cases ys)
    case Nil
    with w2 have "n = NULL" by simp
    with e w2 d Nil show ?thesis by (auto simp: open_list_def)
  next
    case (Cons y zs)
    with w2(4) obtain g where g: "n = y" "y \<noteq> NULL" "files w2 y = Some g" by auto
    let ?w = "w2\<lparr>files := (files w2)(y \<mapsto> g\<lparr>prev_file := a\<rparr>)\<rparr>"
    have "y \<notin> set xs" "y \<notin> set zs" using d Cons by auto
    then have "seg (files ?w) NULL (open_file_list ?w) (xs @ ys) r NULL"
      using w2(2,4) g Cons unfolding seg_append by auto
    moreover have "list_unlink p w = Some ?w" using e g by (simp add: assign_Some)
    moreover have "same_files w ?w"
      using g(3) by (intro same_files_trans[OF w2(5)]) (simp add: same_files_def)
    ultimately show ?thesis using d by (auto simp: open_list_def)
  qed
qed

subsection \<open>The list as a registry\<close>

text \<open>
  What opening and closing rely on: a registry of members in order, to which a fresh structure is
  added in front and from which any member is removed.
\<close>

locale registry =
  fixes add :: "addr \<Rightarrow> 's \<Rightarrow> 's option" and remove :: "addr \<Rightarrow> 's \<Rightarrow> 's option"
    and members :: "'s \<Rightarrow> addr list \<Rightarrow> bool" and fresh :: "'s \<Rightarrow> addr \<Rightarrow> bool" and same :: "'s \<Rightarrow> 's \<Rightarrow> bool"
  assumes adds: "members s xs \<Longrightarrow> fresh s p \<Longrightarrow> p \<notin> set xs \<Longrightarrow>
      \<exists>s'. add p s = Some s' \<and> members s' (p # xs) \<and> same s s'"
    and removes: "members s (xs @ p # ys) \<Longrightarrow> \<exists>s'. remove p s = Some s' \<and> members s' (xs @ ys) \<and> same s s'"
    and same_trans: "same s s1 \<Longrightarrow> same s1 s2 \<Longrightarrow> same s s2"
begin

lemma add_remove:
  assumes "members s xs" "fresh s p" "p \<notin> set xs"
  shows "\<exists>s1 s2. add p s = Some s1 \<and> remove p s1 = Some s2 \<and> members s2 xs \<and> same s s2"
proof -
  obtain s1 where s1: "add p s = Some s1" "members s1 (p # xs)" "same s s1" using adds[OF assms] by blast
  then obtain s2 where "remove p s1 = Some s2" "members s2 xs" "same s1 s2"
    using removes[of s1 "[]" p xs] by auto
  with s1 same_trans show ?thesis by blast
qed

end

definition unlinked :: "'k stdio \<Rightarrow> addr \<Rightarrow> bool" where
  "unlinked w p \<longleftrightarrow> p \<noteq> NULL \<and> (\<exists>f. files w p = Some f \<and> prev_file f = NULL \<and> next_file f = NULL)"

interpretation streams: registry list_insert list_unlink open_list unlinked same_files
proof
  show "\<exists>s'. list_insert p s = Some s' \<and> open_list s' (p # xs) \<and> same_files s s'"
    if "open_list s xs" "unlinked s p" "p \<notin> set xs" for s :: "'a stdio" and xs p
    using list_insert_correct[OF that(1,3)] that(2) unfolding unlinked_def by blast
  show "\<exists>s'. list_unlink p s = Some s' \<and> open_list s' (xs @ ys) \<and> same_files s s'"
    if "open_list s (xs @ p # ys)" for s :: "'a stdio" and xs p ys
    by (rule list_unlink_correct[OF that])
qed (auto intro: same_files_trans)

section \<open>Locks of the list\<close>

text \<open>No mutex held by this thread: the state in which the functions that open streams are called.\<close>

lemma acquire_free:
  "good_mutexes K held D \<Longrightarrow> l \<notin> held k \<Longrightarrow>
   \<exists>k'. mutex_acquire K l k = Some k' \<and> held k' = insert l (held k) \<and> D k' = D k"
  by (simp add: good_mutexes_def)

lemma release_held:
  "good_mutexes K held D \<Longrightarrow> held (mutex_release K l k) = held k - {l} \<and> D (mutex_release K l k) = D k"
  by (simp add: good_mutexes_def)

lemma open_file_list_add_correct:
  assumes "good_mutexes K held D" "held (w_k w) = {}" "open_list w xs" "unlinked w p" "p \<notin> set xs"
  shows "\<exists>w'. open_file_list_add K p w = Some w' \<and> open_list w' (p # xs) \<and>
    (\<forall>q. map_option clean (files w' q) = map_option clean (files w q)) \<and> w_mem w' = w_mem w \<and>
    w_errno w' = w_errno w \<and> open_file_list_lock w' = open_file_list_lock w \<and>
    held (w_k w') = {} \<and> D (w_k w') = D (w_k w)"
proof -
  obtain k where k: "mutex_acquire K (open_file_list_lock w) (w_k w) = Some k"
    "held k = {open_file_list_lock w}" "D k = D (w_k w)" using acquire_free[OF assms(1), of "open_file_list_lock w" "w_k w"] assms(2) by auto
  have "open_list (w\<lparr>w_k := k\<rparr>) xs" "unlinked (w\<lparr>w_k := k\<rparr>) p"
    using assms(3,4) by (simp_all add: open_list_def unlinked_def)
  from streams.adds[OF this assms(5)] obtain w1 where
    w1: "list_insert p (w\<lparr>w_k := k\<rparr>) = Some w1" "open_list w1 (p # xs)" "same_files (w\<lparr>w_k := k\<rparr>) w1" by blast
  let ?w = "lock_release K (open_file_list_lock w1) w1"
  have "open_file_list_add K p w = Some ?w"
    using k(1) w1(1) by (simp add: open_file_list_add_def lock_acquire_def)
  moreover have "open_list ?w (p # xs)" using w1(2) by (simp add: open_list_def lock_release_def)
  moreover have "held (w_k ?w) = {}" "D (w_k ?w) = D (w_k w)"
    using release_held[OF assms(1), of "open_file_list_lock w1" "w_k w1"] w1(3) k(2,3)
    by (simp_all add: lock_release_def same_files_def)
  ultimately show ?thesis using w1(3) by (simp add: same_files_def lock_release_def)
qed

lemma open_file_list_remove_correct:
  assumes "good_mutexes K held D" "held (w_k w) = {}" "open_list w (xs @ p # ys)"
  shows "\<exists>w'. open_file_list_remove K p w = Some w' \<and> open_list w' (xs @ ys) \<and>
    (\<forall>q. map_option clean (files w' q) = map_option clean (files w q)) \<and> held (w_k w') = {}"
proof -
  obtain k where k: "mutex_acquire K (open_file_list_lock w) (w_k w) = Some k"
    "held k = {open_file_list_lock w}" "D k = D (w_k w)" using acquire_free[OF assms(1), of "open_file_list_lock w" "w_k w"] assms(2) by auto
  have "open_list (w\<lparr>w_k := k\<rparr>) (xs @ p # ys)" using assms(3) by (simp add: open_list_def)
  from streams.removes[OF this] obtain w1 where
    w1: "list_unlink p (w\<lparr>w_k := k\<rparr>) = Some w1" "open_list w1 (xs @ ys)" "same_files (w\<lparr>w_k := k\<rparr>) w1" by blast
  let ?w = "lock_release K (open_file_list_lock w1) w1"
  have "open_file_list_remove K p w = Some ?w"
    using k(1) w1(1) by (simp add: open_file_list_remove_def lock_acquire_def)
  moreover have "open_list ?w (xs @ ys)" using w1(2) by (simp add: open_list_def lock_release_def)
  moreover have "held (w_k ?w) = {}"
    using release_held[OF assms(1), of "open_file_list_lock w1" "w_k w1"] w1(3) k(2)
    by (simp add: lock_release_def same_files_def)
  ultimately show ?thesis using w1(3) by (simp add: same_files_def lock_release_def)
qed

section \<open>Modes\<close>

abbreviation (input) mode_chars :: "byte set" where
  "mode_chars \<equiv> {bc CHR ''+'', bc CHR ''t'', bc CHR ''b''}"

lemma mode_loop_None: "mode_loop s fl = None \<longleftrightarrow> \<not> set s \<subseteq> mode_chars"
  by (induction s arbitrary: fl) auto

lemma mode_loop_nonneg: "mode_loop s fl = Some fl' \<Longrightarrow> 0 \<le> fl \<Longrightarrow> 0 \<le> fl'"
  by (induction s arbitrary: fl) (auto split: if_splits)

lemma mode_loop_flags:
  "mode_loop s fl = Some fl' \<Longrightarrow>
   (bit fl' i \<longleftrightarrow> (if i = MODE_READ \<or> i = MODE_WRITE then bit fl i \<or> bc CHR ''+'' \<in> set s
     else if i = MODE_BINARY \<or> i = MODE_TEXTUAL then bit fl' i else bit fl i))"
proof (induction s arbitrary: fl)
  case (Cons c s)
  have "\<exists>g. mode_loop s g = Some fl' \<and> (bit g i \<longleftrightarrow> (if i = MODE_READ \<or> i = MODE_WRITE then bit fl i \<or> c = bc CHR ''+''
      else if i = MODE_BINARY \<or> i = MODE_TEXTUAL then bit g i else bit fl i))"
    using Cons.prems by (auto simp: bit_set_bit_iff bit_unset_bit_iff split: if_splits)
  then obtain g where "mode_loop s g = Some fl'" "bit g i \<longleftrightarrow> (if i = MODE_READ \<or> i = MODE_WRITE
      then bit fl i \<or> c = bc CHR ''+'' else if i = MODE_BINARY \<or> i = MODE_TEXTUAL then bit g i else bit fl i)" by blast
  with Cons.IH[of g] show ?case by (auto split: if_splits)
qed simp

lemma mode_loop_type:
  "mode_loop s fl = Some fl' \<Longrightarrow> \<not> (bit fl MODE_BINARY \<and> bit fl MODE_TEXTUAL) \<Longrightarrow>
   \<not> (bit fl' MODE_BINARY \<and> bit fl' MODE_TEXTUAL)"
  by (induction s arbitrary: fl) (auto simp: bit_set_bit_iff bit_unset_bit_iff split: if_splits)

section \<open>Opening\<close>

text \<open>The fields that flushing leaves alone: the links and the function that closes.\<close>

definition links :: "FILE \<Rightarrow> addr \<times> addr \<times> bool" where
  "links f = (prev_file f, next_file f, impl_close f)"

lemma seg_links:
  "\<forall>x \<in> set xs. map_option links (fs' x) = map_option links (fs x) \<Longrightarrow> seg fs' q p xs r z = seg fs q p xs r z"
proof (induction xs arbitrary: q p)
  case (Cons x xs)
  then have "map_option links (fs' x) = map_option links (fs x)" by simp
  with Cons show ?case by (cases "fs x"; cases "fs' x") (auto simp: links_def)
qed simp

text \<open>A new mutex is free, and creating it changes nothing else.\<close>

definition new_mutexes :: "'k platform \<Rightarrow> ('k \<Rightarrow> nat set) \<Rightarrow> ('k \<Rightarrow> 'd) \<Rightarrow> bool" where
  "new_mutexes K held D \<longleftrightarrow> (\<forall>k. held (snd (mutex_initialize K k)) = held k \<and> D (snd (mutex_initialize K k)) = D k)"

text \<open>What opening assigns to a structure.\<close>

definition opened :: "int \<Rightarrow> int \<Rightarrow> nat \<Rightarrow> FILE \<Rightarrow> FILE" where
  "opened fd fl l f = f\<lparr>lock := l, file_descriptor := fd, flags := word_of_int fl, buffer_mode := IONBF,
     impl_close := True, impl_read := True, impl_write := True, impl_seek := True, impl_tell := True,
     impl_fileno := True, impl_reopen := True, impl_error := True, impl_eof := True\<rparr>"

lemma has_opened: "has (opened fd fl l f) b \<longleftrightarrow> b < 32 \<and> bit fl b"
  by (simp add: opened_def has_def bit_word_of_int_iff)

lemma fdopen_static_correct:
  assumes "good_mutexes K held D" "new_mutexes K held D" "held (w_k w) = {}" "parse_mode_flags mode w = (fl, w)"
    and "fl \<noteq> - 1" "open_list w xs" "files w p = Some f" "unlinked w p" "p \<notin> set xs"
  shows "\<exists>w' l. fdopen_static K fd mode p w = Some (0, w') \<and> open_list w' (p # xs) \<and>
    map_option clean (files w' p) = Some (clean (opened fd fl l f)) \<and>
    (\<forall>q. q \<noteq> p \<longrightarrow> map_option clean (files w' q) = map_option clean (files w q)) \<and>
    w_mem w' = w_mem w \<and> w_errno w' = w_errno w \<and> open_file_list_lock w' = open_file_list_lock w \<and>
    held (w_k w') = {} \<and> D (w_k w') = D (w_k w)"
proof -
  obtain l k where k: "mutex_initialize K (w_k w) = (l, k)" by (cases "mutex_initialize K (w_k w)")
  have hk: "held k = {}" "D k = D (w_k w)"
    using assms(2,3) k unfolding new_mutexes_def by (metis snd_conv)+
  let ?w = "w\<lparr>w_k := k, files := (files w)(p \<mapsto> opened fd fl l f)\<rparr>"
  have "open_list ?w xs" "unlinked ?w p"
    using assms(6-9) by (simp_all add: open_list_def unlinked_def opened_def)
  from open_file_list_add_correct[OF assms(1) _ this assms(9)] hk obtain w' where
    w': "open_file_list_add K p ?w = Some w'" "open_list w' (p # xs)"
    "\<forall>q. map_option clean (files w' q) = map_option clean (files ?w q)" "w_mem w' = w_mem w"
    "w_errno w' = w_errno w" "open_file_list_lock w' = open_file_list_lock w" "held (w_k w') = {}"
    "D (w_k w') = D (w_k w)" by auto
  have "fdopen_static K fd mode p w = Some (0, w')"
    using assms(4,5,7) k w'(1) by (simp add: fdopen_static_def lock_initialize_def assign_Some opened_def)
  with w' show ?thesis by (intro exI[of _ w'] exI[of _ l]) simp
qed

text \<open>Setting a buffer under the stream's lock.\<close>

lemma setvbuf_correct:
  assumes "good_mutexes K held D" "held (w_k w) = {}" "files w p = Some f" "buffer_mode f = IONBF" "buf \<noteq> NULL"
    and "bmode < 256" "open_list w xs"
  shows "\<exists>w' f'. setvbuf K p buf bmode n w = Some (0, w') \<and> files w' p = Some f' \<and> open_list w' xs \<and>
    buffer f' = buf \<and> buffer_size f' = n \<and> buffer_mode f' = bmode \<and> buffered_bytes_write f' = 0 \<and>
    buffered_bytes_read f' = 0 \<and> buffered_bytes_read_offset f' = 0 \<and>
    (\<forall>b. has f' b \<longleftrightarrow> b = BUFFER_SET \<or> (b \<noteq> OWNER_LIBRARY \<and> has f b)) \<and>
    file_descriptor f' = file_descriptor f \<and> impl_read f' = impl_read f \<and> impl_write f' = impl_write f \<and>
    lock f' = lock f \<and> (\<forall>q. q \<noteq> p \<longrightarrow> files w' q = files w q) \<and> w_mem w' = w_mem w \<and> w_errno w' = w_errno w \<and>
    open_file_list_lock w' = open_file_list_lock w \<and> held (w_k w') = {} \<and> D (w_k w') = D (w_k w)"
proof -
  define g where "g = (\<lambda>f. raise BUFFER_SET (lower OWNER_LIBRARY f
         \<lparr>buffer := buf, buffer_mode := bmode mod 256, buffer_size := n, buffered_bytes_read := 0,
          buffered_bytes_read_offset := 0, buffered_bytes_write := 0\<rparr>))"
  have u: "setvbuf_unlocked K p buf bmode n (w\<lparr>w_k := k\<rparr>) = Some (0, change p g (w\<lparr>w_k := k\<rparr>))" for k
    using assms(3-5) by (simp add: setvbuf_unlocked_def g_def)
  have "lock f \<notin> held (w_k w)" using assms(2) by simp
  from locked_run[OF assms(1,3) this, of "setvbuf_unlocked K p buf bmode n"] obtain k k1 where
    k: "locked K p (setvbuf_unlocked K p buf bmode n) w = Some (0, (change p g (w\<lparr>w_k := k\<rparr>))\<lparr>w_k := k1\<rparr>)"
    "held k1 = {}" "D k1 = D (w_k w)"
    using u assms(2,3) by (auto simp: stream_simps g_def)
  let ?w = "(change p g (w\<lparr>w_k := k\<rparr>))\<lparr>w_k := k1\<rparr>"
  have "has (g f) b \<longleftrightarrow> b = BUFFER_SET \<or> (b \<noteq> OWNER_LIBRARY \<and> has f b)" for b
    by (auto simp: g_def has_def raise_def lower_def bit_set_bit_iff bit_unset_bit_iff)
  moreover have "links (g f) = links f" by (simp add: g_def links_def raise_def lower_def)
  then have "open_list ?w xs"
    using assms(3,7) seg_links[of xs "files ?w" "files w"] by (auto simp: open_list_def change_def)
  ultimately show ?thesis
    using k assms(3,6) unfolding setvbuf_def
    by (intro exI[of _ ?w] exI[of _ "g f"]) (simp add: stream_simps, simp add: g_def raise_def lower_def)
qed

section \<open>The standard streams\<close>

text \<open>A stream as it is after its initialisation.\<close>

definition fresh_stream :: "addr \<Rightarrow> int \<Rightarrow> int \<Rightarrow> addr \<Rightarrow> nat \<Rightarrow> 'k stdio \<Rightarrow> bool" where
  "fresh_stream p fd fl buf bmode w \<longleftrightarrow> (\<exists>f. files w p = Some f \<and> file_descriptor f = fd \<and> buffer f = buf \<and>
     buffer_size f = 1024 \<and> buffer_mode f = bmode \<and> buffered_bytes_write f = 0 \<and> buffered_bytes_read f = 0 \<and>
     buffered_bytes_read_offset f = 0 \<and> (\<forall>b. has f b \<longleftrightarrow> b = BUFFER_SET \<or> (b < 31 \<and> bit fl b)) \<and>
     impl_read f \<and> impl_write f)"

lemma fresh_stream_clean:
  assumes "map_option clean (files w' p) = map_option clean (files w p)" "fresh_stream p fd fl buf bmode w"
  shows "fresh_stream p fd fl buf bmode w'"
proof -
  obtain f where f: "files w p = Some f" using assms(2) by (auto simp: fresh_stream_def)
  then obtain f' where f': "files w' p = Some f'" "clean f' = clean f" using assms(1) by auto
  then have "f' = f\<lparr>prev_file := prev_file f', next_file := next_file f'\<rparr>" by (cases f; cases f') (simp add: clean_def)
  then obtain a b where "f' = f\<lparr>prev_file := a, next_file := b\<rparr>" by blast
  with assms(2) f f'(1) show ?thesis by (simp add: fresh_stream_def has_def)
qed

lemma init_stream_correct:
  assumes "good_mutexes K held D" "new_mutexes K held D" "held (w_k w) = {}" "\<And>w :: 'k stdio. parse_mode_flags mode w = (fl, w)"
    and "fl \<noteq> - 1" "open_list w xs" "p \<noteq> NULL" "p \<notin> set xs" "buf \<noteq> NULL" "bmode < 256"
  shows "\<exists>w'. init_stream K p fd mode buf bmode (w :: 'k stdio) = Some w' \<and> open_list w' (p # xs) \<and>
    fresh_stream p fd fl buf bmode w' \<and>
    (\<forall>q. q \<noteq> p \<longrightarrow> map_option clean (files w' q) = map_option clean (files w q)) \<and>
    w_mem w' = w_mem w \<and> held (w_k w') = {} \<and> D (w_k w') = D (w_k w)"
proof -
  let ?w = "memset_FILE p w"
  have "open_list ?w xs" "unlinked ?w p" "held (w_k ?w) = {}" "files ?w p = Some zero_FILE"
    using assms(3,6-8) by (simp_all add: memset_FILE_def open_list_def unlinked_def zero_FILE_def)
  from fdopen_static_correct[where fd = fd, OF assms(1,2) this(3) assms(4,5) this(1,4,2) assms(8)]
  obtain w1 l where w1: "fdopen_static K fd mode p ?w = Some (0, w1)" "open_list w1 (p # xs)"
    "map_option clean (files w1 p) = Some (clean (opened fd fl l zero_FILE))"
    "\<forall>q. q \<noteq> p \<longrightarrow> map_option clean (files w1 q) = map_option clean (files ?w q)" "w_mem w1 = w_mem ?w"
    "held (w_k w1) = {}" "D (w_k w1) = D (w_k ?w)" by blast
  then obtain f1 where f1: "files w1 p = Some f1" "clean f1 = clean (opened fd fl l zero_FILE)" by auto
  then have "f1 = (opened fd fl l zero_FILE)\<lparr>prev_file := prev_file f1, next_file := next_file f1\<rparr>"
    by (cases f1) (simp add: clean_def opened_def zero_FILE_def)
  then obtain a b where f1': "f1 = (opened fd fl l zero_FILE)\<lparr>prev_file := a, next_file := b\<rparr>" by blast
  then have bm: "buffer_mode f1 = IONBF" by (simp add: opened_def)
  obtain w2 f2 where w2: "setvbuf K p buf bmode 1024 w1 = Some (0, w2)" "files w2 p = Some f2" "open_list w2 (p # xs)"
    "buffer f2 = buf" "buffer_size f2 = 1024" "buffer_mode f2 = bmode" "buffered_bytes_write f2 = 0"
    "buffered_bytes_read f2 = 0" "buffered_bytes_read_offset f2 = 0"
    "\<forall>b. has f2 b \<longleftrightarrow> b = BUFFER_SET \<or> (b \<noteq> OWNER_LIBRARY \<and> has f1 b)"
    "file_descriptor f2 = file_descriptor f1" "impl_read f2 = impl_read f1" "impl_write f2 = impl_write f1"
    "\<forall>q. q \<noteq> p \<longrightarrow> files w2 q = files w1 q" "w_mem w2 = w_mem w1" "held (w_k w2) = {}" "D (w_k w2) = D (w_k w1)"
    using setvbuf_correct[OF assms(1) w1(6) f1(1) bm assms(9,10) w1(2), of 1024] by blast
  have h: "has f1 b \<longleftrightarrow> b < 32 \<and> bit fl b" for b
    using has_opened[of fd fl l zero_FILE b] unfolding f1' by (simp add: has_def)
  have "fresh_stream p fd fl buf bmode w2"
    using w2 h f1' unfolding fresh_stream_def by (intro exI[of _ f2]) (auto simp: opened_def)
  moreover have "init_stream K p fd mode buf bmode w = Some w2"
    using w1(1) w2(1) by (simp add: init_stream_def)
  moreover have "\<forall>q. q \<noteq> p \<longrightarrow> map_option clean (files w2 q) = map_option clean (files w q)"
    "w_mem w2 = w_mem w" "D (w_k w2) = D (w_k w)" using w1(4,5,7) w2 by (simp_all add: memset_FILE_def)
  ultimately show ?thesis using w2(3,16) by blast
qed

lemma parse_r: "parse_mode_flags (lit ''r'') w = (1, w)"
  by (simp add: parse_mode_flags_def mode_start_def)

lemma parse_w: "parse_mode_flags (lit ''w'') w = (82, w)"
  by (simp add: parse_mode_flags_def mode_start_def) (simp add: set_bit_eq_or)

lemma init_stdio_correct:
  assumes "good_mutexes K held D" "new_mutexes K held D" "held (w_k w) = {}" "open_file_list w = NULL"
    and "distinct [stdin S, stdout S, stderr S]" "NULL \<notin> set [stdin S, stdout S, stderr S, stdin_buf S, stdout_buf S, stderr_buf S]"
  shows "\<exists>w'. init_stdio K S w = Some w' \<and> open_list w' [stderr S, stdout S, stdin S] \<and>
    fresh_stream (stdin S) 0 1 (stdin_buf S) IOLBF w' \<and> fresh_stream (stdout S) 1 82 (stdout_buf S) IOLBF w' \<and>
    fresh_stream (stderr S) 2 82 (stderr_buf S) IONBF w' \<and> w_mem w' = w_mem w \<and> held (w_k w') = {} \<and>
    D (w_k w') = D (w_k w)"
proof -
  let ?w = "open_file_list_initialize K w"
  have w0: "open_list ?w []" "held (w_k ?w) = {}" "D (w_k ?w) = D (w_k w)" "w_mem ?w = w_mem w"
    using assms(2-4) by (auto simp: open_file_list_initialize_def lock_initialize_def open_list_def new_mutexes_def
        split: prod.splits) (metis snd_conv empty_iff, metis snd_conv)
  obtain w1 where w1: "init_stream K (stdin S) 0 (lit ''r'') (stdin_buf S) IOLBF ?w = Some w1" "open_list w1 [stdin S]"
    "fresh_stream (stdin S) 0 1 (stdin_buf S) IOLBF w1" "w_mem w1 = w_mem w" "held (w_k w1) = {}" "D (w_k w1) = D (w_k w)"
    using init_stream_correct[OF assms(1,2) w0(2) parse_r _ w0(1), of "stdin S" "stdin_buf S" IOLBF 0] assms(5,6) w0 by auto
  obtain w2 where w2: "init_stream K (stdout S) 1 (lit ''w'') (stdout_buf S) IOLBF w1 = Some w2"
    "open_list w2 [stdout S, stdin S]" "fresh_stream (stdout S) 1 82 (stdout_buf S) IOLBF w2"
    "\<forall>q. q \<noteq> stdout S \<longrightarrow> map_option clean (files w2 q) = map_option clean (files w1 q)"
    "w_mem w2 = w_mem w" "held (w_k w2) = {}" "D (w_k w2) = D (w_k w)"
    using init_stream_correct[OF assms(1,2) w1(5) parse_w _ w1(2), of "stdout S" "stdout_buf S" IOLBF 1] assms(5,6) w1 by auto
  obtain w3 where w3: "init_stream K (stderr S) 2 (lit ''w'') (stderr_buf S) IONBF w2 = Some w3"
    "open_list w3 [stderr S, stdout S, stdin S]" "fresh_stream (stderr S) 2 82 (stderr_buf S) IONBF w3"
    "\<forall>q. q \<noteq> stderr S \<longrightarrow> map_option clean (files w3 q) = map_option clean (files w2 q)"
    "w_mem w3 = w_mem w" "held (w_k w3) = {}" "D (w_k w3) = D (w_k w)"
    using init_stream_correct[OF assms(1,2) w2(6) parse_w _ w2(2), of "stderr S" "stderr_buf S" IONBF 2] assms(5,6) w2 by auto
  have "fresh_stream (stdin S) 0 1 (stdin_buf S) IOLBF w3" "fresh_stream (stdout S) 1 82 (stdout_buf S) IOLBF w3"
    using w1(3) w2(3,4) w3(4) assms(5) by (auto intro!: fresh_stream_clean[of w3 _ w2] intro: fresh_stream_clean[of w2 _ w1])
  moreover have "init_stdio K S w = Some w3" using w1(1) w2(1) w3(1) by (simp add: init_stdio_def Let_def)
  ultimately show ?thesis using w3 by blast
qed

section \<open>Closing\<close>

definition keeps_rest :: "addr \<Rightarrow> 'k stdio \<Rightarrow> 'k stdio \<Rightarrow> bool" where
  "keeps_rest p w w' \<longleftrightarrow> open_file_list w' = open_file_list w \<and> open_file_list_lock w' = open_file_list_lock w \<and>
     (\<forall>q. q \<noteq> p \<longrightarrow> files w' q = files w q) \<and> map_option links (files w' p) = map_option links (files w p)"

lemma keeps_rest_refl [simp]: "keeps_rest p w w"
  by (simp add: keeps_rest_def)

lemma keeps_rest_trans: "keeps_rest p w w1 \<Longrightarrow> keeps_rest p w1 w2 \<Longrightarrow> keeps_rest p w w2"
  by (auto simp: keeps_rest_def)

lemma keeps_rest_change:
  "(\<And>f. links (g f) = links f) \<Longrightarrow> keeps_rest p w w1 \<Longrightarrow> keeps_rest p w (change p g w1)"
  by (auto simp: keeps_rest_def stream_simps option.map_comp comp_def)

lemma links_simps [simp]:
  "links (raise b f) = links f" "links (lower b f) = links f"
  "links (f\<lparr>buffered_bytes_write := n\<rparr>) = links f"
  "links (f\<lparr>buffered_bytes_read := n\<rparr>) = links f" "links (f\<lparr>buffered_bytes_read_offset := n\<rparr>) = links f"
  by (simp_all add: links_def raise_def lower_def)

lemma keeps_rest_syscalls [simp]:
  "keeps_rest p w (w1\<lparr>w_k := k\<rparr>) = keeps_rest p w w1" "keeps_rest p w (w1\<lparr>w_errno := e\<rparr>) = keeps_rest p w w1"
  "keeps_rest p w (w1\<lparr>w_mem := m\<rparr>) = keeps_rest p w w1"
  by (simp_all add: keeps_rest_def)

lemma write_keeps: "stdio_impl_write K a n q w = Some (r, w') \<Longrightarrow> keeps_rest p w w'"
  by (auto simp: stdio_impl_write_def c_write_def Let_def split: bind_splits prod.splits if_splits)

lemma seek_keeps: "stdio_impl_seek K q off wh w = Some (r, w') \<Longrightarrow> keeps_rest p w w'"
  by (auto simp: stdio_impl_seek_def lseek_def Let_def split: bind_splits prod.splits if_splits)

lemma close_keeps: "stdio_impl_close K q w = Some (r, w') \<Longrightarrow> keeps_rest p w w'"
  by (auto simp: stdio_impl_close_def c_close_def Let_def split: bind_splits prod.splits if_splits)

lemma flush_loop_keeps:
  assumes "flush_loop K p len dn w = Some x"
  shows "keeps_rest p w (snd (snd x))"
  using assms
proof (induction rule: flush_loop.raw_induct[rotated, consumes 1, case_names step])
  case (step rec K p len dn w x)
  show ?case
  proof (cases "dn < len")
    case False
    with step(2) show ?thesis by auto
  next
    case True
    with step(2) obtain f wr w1 where "files w p = Some f"
      "stdio_impl_write K (buffer f + dn) (len - dn) p w = Some (wr, w1)"
      and e: "(if wr = 0 then Some (EOF, dn, change p (raise FLAG_EOF) w1)
        else if wr = - 1 then Some (EOF, dn, change p (raise FLAG_ERROR) w1)
        else rec K p len (uadd dn wr) w1) = Some x" by (auto split: bind_splits)
    from write_keeps[OF this(2)] have k: "keeps_rest p w w1" .
    show ?thesis
    proof (cases "wr = 0 \<or> wr = - 1")
      case True
      with e k show ?thesis by (auto intro!: keeps_rest_change split: if_splits)
    next
      case False
      with e have "rec K p len (uadd dn wr) w1 = Some x" by simp
      from step(1)[OF this] k show ?thesis by (rule keeps_rest_trans[rotated])
    qed
  qed
qed

lemma bad_stream_keeps [simp]: "keeps_rest p w (bad_stream p w)"
  unfolding bad_stream_def by (rule keeps_rest_change) simp_all

lemma fflush_write_keeps: "fflush_write_unlocked K p w = Some (r, w') \<Longrightarrow> keeps_rest p w w'"
  by (auto simp: fflush_write_unlocked_def Let_def dest!: flush_loop_keeps intro!: keeps_rest_change
      split: bind_splits if_splits prod.splits)

lemma restore_position_keeps: "restore_position K p pos w = Some w' \<Longrightarrow> keeps_rest p w w'"
  by (auto simp: restore_position_def Let_def dest!: seek_keeps intro!: keeps_rest_change
      split: bind_splits if_splits prod.splits)

lemma fflush_read_keeps:
  assumes "fflush_read_unlocked K p w = Some (r, w')"
  shows "keeps_rest p w w'"
proof -
  obtain f where f: "files w p = Some f" using assms by (auto simp: fflush_read_unlocked_def split: bind_splits)
  show ?thesis
  proof (cases "\<not> has f DIRECTION_READ \<or> \<not> has f MODE_READ")
    case True
    with assms f show ?thesis by (auto simp: fflush_read_unlocked_def split: if_splits)
  next
    case False
    with assms f obtain pos w1 w2 where
      1: "(if impl_seek f then stdio_impl_seek K p 0 SEEK_CUR w else Some (- 1, w)) = Some (pos, w1)"
      and 2: "(if pos \<ge> 0 then restore_position K p pos (w1\<lparr>w_errno := w_errno w\<rparr>)
          else Some (w1\<lparr>w_errno := w_errno w\<rparr>)) = Some w2"
      and 3: "w' = change p (\<lambda>f. lower DIRECTION_READ (f\<lparr>buffered_bytes_read := 0, buffered_bytes_read_offset := 0\<rparr>)) w2"
      by (auto simp: fflush_read_unlocked_def Let_def split: bind_splits prod.splits)
    have k1: "keeps_rest p w w1" using 1 seek_keeps by (auto split: if_splits)
    have "keeps_rest p (w1\<lparr>w_errno := w_errno w\<rparr>) w2"
      using 2 by (auto split: if_splits dest: restore_position_keeps)
    with k1 have "keeps_rest p w w2" using keeps_rest_trans[of p w "w1\<lparr>w_errno := w_errno w\<rparr>" w2] by simp
    then show ?thesis unfolding 3 by (rule keeps_rest_change[rotated]) simp
  qed
qed

lemma fflush_keeps: "fflush_unlocked K p w = Some (r, w') \<Longrightarrow> keeps_rest p w w'"
  unfolding fflush_unlocked_def
  by (auto split: bind_splits if_splits dest!: fflush_read_keeps fflush_write_keeps intro: keeps_rest_trans)

text \<open>Closing clears the structure before it is taken out of the list.\<close>

lemma unlink_cleared:
  assumes "open_file_list_remove K p w = Some w'" "files w p = Some zero_FILE"
  shows "files w' = files w" "open_file_list w' = (if open_file_list w = p then NULL else open_file_list w)"
  using assms by (auto simp: open_file_list_remove_def list_unlink_def zero_FILE_def lock_acquire_def
      lock_release_def Let_def split: bind_splits if_splits)

lemma fclose_static_list:
  assumes "fclose_static_unlocked K p w = Some (0, w')"
  shows "(\<forall>q. q \<noteq> p \<longrightarrow> files w' q = files w q) \<and>
    open_file_list w' = (if open_file_list w = p then NULL else open_file_list w)"
proof -
  obtain r w3 where 3: "fflush_unlocked K p w = Some (r, w3)"
    using assms by (auto simp: fclose_static_unlocked_def split: bind_splits)
  then obtain f r4 w4 where f: "files w3 p = Some f" "impl_close f" and 4: "stdio_impl_close K p w3 = Some (r4, w4)"
    using assms by (auto simp: fclose_static_unlocked_def split: bind_splits if_splits)
  with 3 assms have "r4 = 0" by (auto simp: fclose_static_unlocked_def split: if_splits)
  define w5 where "w5 = (\<lambda>f. (let w = (if has f BUFFER_SET \<and> buffer f \<noteq> NULL \<and> has f OWNER_LIBRARY
      then w4\<lparr>w_mem := heap_free K (buffer f) (w_mem w4)\<rparr> else w4) in w\<lparr>files := (files w)(p \<mapsto> zero_FILE)\<rparr>))"
  have "\<exists>g. open_file_list_remove K p (w5 g) = Some w'"
    using assms 3 f 4 \<open>r4 = 0\<close>
    by (auto simp: fclose_static_unlocked_def w5_def Let_def split: bind_splits split del: if_split)
  then obtain g where 5: "open_file_list_remove K p (w5 g) = Some w'" by blast
  have "files (w5 g) p = Some zero_FILE" "q \<noteq> p \<Longrightarrow> files (w5 g) q = files w4 q"
    "open_file_list (w5 g) = open_file_list w4" for q by (auto simp: w5_def Let_def)
  with unlink_cleared[OF 5] fflush_keeps[OF 3] close_keeps[OF 4, of p] show ?thesis
    by (auto simp: keeps_rest_def)
qed

lemma fclose_list:
  assumes "fclose K p w = Some (0, w')"
  shows "files w' p = None" "\<forall>q. q \<noteq> p \<longrightarrow> files w' q = files w q"
    and "open_file_list w' = (if open_file_list w = p then NULL else open_file_list w)"
proof -
  obtain w2 where w2: "fclose_static K p w = Some (0, w2)" "w' = free_FILE K p w2"
    using assms by (auto simp: fclose_def split: bind_splits if_splits)
  obtain l wa wb where wa: "lock_acquire K l w = Some wa" "fclose_static_unlocked K p wa = Some (0, wb)"
    "files w2 = files wb" "open_file_list w2 = open_file_list wb"
    using w2(1) by (fastforce simp: fclose_static_def Let_def lock_destroy_def split: bind_splits)
  have "files wa = files w" "open_file_list wa = open_file_list w"
    using wa(1) by (auto simp: lock_acquire_def split: bind_splits)
  with fclose_static_list[OF wa(2)] wa(3,4) show "files w' p = None" "\<forall>q. q \<noteq> p \<longrightarrow> files w' q = files w q"
    "open_file_list w' = (if open_file_list w = p then NULL else open_file_list w)"
    by (simp_all add: w2(2) free_FILE_def)
qed

lemma fflush_one_keeps:
  assumes "fflush_one K p w = Some (r, w')"
  shows "keeps_rest p w w'"
proof -
  obtain l wa wb l' where "lock_acquire K l w = Some wa" "fflush_unlocked K p wa = Some (r, wb)"
    "w' = lock_release K l' wb"
    using assms by (fastforce simp: fflush_one_def locked_def split: bind_splits)
  moreover from this(1) have "keeps_rest p w wa" by (auto simp: lock_acquire_def split: bind_splits)
  ultimately show ?thesis using fflush_keeps[of K p wa r wb] keeps_rest_trans[of p w wa wb]
    by (simp add: lock_release_def)
qed

text \<open>Following the list into a structure that is gone.\<close>

lemma fflush_list_dangling:
  "seg (files w) q s xs a p \<Longrightarrow> p \<noteq> NULL \<Longrightarrow> files w p = None \<Longrightarrow> distinct xs \<Longrightarrow> fflush_list K s ret w = None"
proof (induction xs arbitrary: q s w ret)
  case Nil
  then have "fflush_one K s w = None" by (simp add: fflush_one_def locked_def)
  with Nil show ?case by (subst fflush_list.simps) simp
next
  case (Cons x xs)
  then obtain f where f: "s = x" "x \<noteq> NULL" "files w x = Some f" "seg (files w) x (next_file f) xs a p" by auto
  show ?case
  proof (cases "fflush_one K x w")
    case None
    with f show ?thesis by (subst fflush_list.simps) simp
  next
    case (Some y)
    then obtain r w1 where y: "y = (r, w1)" by (cases y)
    from fflush_one_keeps[OF Some[unfolded y]] have k: "keeps_rest x w w1" .
    then obtain f1 where f1: "files w1 x = Some f1" "next_file f1 = next_file f"
      using f(3) by (auto simp: keeps_rest_def links_def)
    have "seg (files w1) x (next_file f1) xs a p"
      using f(4) k Cons.prems(4) f1(2) by (subst seg_frame[of xs _ "files w"]) (auto simp: keeps_rest_def)
    moreover have "files w1 p = None" using k Cons.prems(3) f(3) by (cases "p = x") (auto simp: keeps_rest_def)
    ultimately have "fflush_list K (next_file f1) (or ret r) w1 = None"
      using Cons.IH Cons.prems(2,4) by simp
    with Some y f f1(1) show ?thesis by (subst fflush_list.simps) simp
  qed
qed

text \<open>Two streams for examples: \<open>60\<close> in front of \<open>50\<close>.\<close>

definition demo_two :: "ram stdio" where
  "demo_two = (demo_world [])\<lparr>files := [60 \<mapsto> demo_FILE\<lparr>lock := 2, next_file := 50\<rparr>, 50 \<mapsto> demo_FILE\<lparr>prev_file := 60\<rparr>],
     open_file_list := 60\<rparr>"

lemma demo_two_list: "open_list demo_two [60, 50]"
  by (auto simp: open_list_def demo_two_def demo_FILE_def zero_FILE_def)

lemma demo_close:
  "p = 50 \<or> p = 60 \<Longrightarrow> \<exists>w'. fclose demo_platform p demo_two = Some (0, w')"
  by (auto simp: fclose_def fclose_static_def fclose_static_unlocked_def demo_two_def demo_world_def
      lock_acquire_def ram_platform_def fflush_unlocked_def demo_FILE_fields has_def stdio_impl_close_def
      c_close_def open_file_list_remove_def list_unlink_def zero_FILE_def demo_FILE_def bit_set_bit_iff bit_1_iff
      Let_def)

section \<open>Properties\<close>

text \<open>
  C6. Initialising the standard streams returns, without allocating, with all three in the list of
  open streams (the last opened first); \<open>stdin\<close> is an input stream that stands for what
  descriptor 0 gives, \<open>stdout\<close> an output stream with nothing pending, both line buffered, \<open>stderr\<close>
  is unbuffered, and no mutex is left held.
\<close>

theorem init_stdio_streams:
  assumes "good_mutexes K held D" "new_mutexes K held D" "held (w_k w) = {}" "open_file_list w = NULL"
    and "distinct [stdin S, stdout S, stderr S]"
    and "NULL \<notin> set [stdin S, stdout S, stderr S, stdin_buf S, stdout_buf S, stderr_buf S]"
    and "mapped (w_mem w) (stdin_buf S) 1024" "mapped (w_mem w) (stdout_buf S) 1024"
  shows "\<exists>w'. init_stdio K S w = Some w' \<and> open_list w' [stderr S, stdout S, stdin S] \<and>
    in_stream inp (stdin S) 0 (stdin_buf S) 1024 w' (inp (w_k w')) \<and>
    out_stream out (stdout S) 1 (stdout_buf S) 1024 w' (out (w_k w')) \<and>
    fresh_stream (stderr S) 2 82 (stderr_buf S) IONBF w' \<and> held (w_k w') = {} \<and> w_mem w' = w_mem w"
proof -
  obtain w' where w': "init_stdio K S w = Some w'" "open_list w' [stderr S, stdout S, stdin S]"
    "fresh_stream (stdin S) 0 1 (stdin_buf S) IOLBF w'" "fresh_stream (stdout S) 1 82 (stdout_buf S) IOLBF w'"
    "fresh_stream (stderr S) 2 82 (stderr_buf S) IONBF w'" "w_mem w' = w_mem w" "held (w_k w') = {}"
    using init_stdio_correct[OF assms(1-6)] by blast
  have "in_stream inp (stdin S) 0 (stdin_buf S) 1024 w' (inp (w_k w'))"
    using w'(3,6) assms(7) unfolding fresh_stream_def in_stream_def
    by (auto simp: in_file_def bit_1_iff intro!: exI[of _ "[]"])
  moreover have "out_stream out (stdout S) 1 (stdout_buf S) 1024 w' (out (w_k w'))"
    using w'(4,6) assms(8) unfolding fresh_stream_def out_stream_def
    by (auto simp: out_file_def bit_numeral_rec intro!: exI[of _ "[]"])
  ultimately show ?thesis using w' by blast
qed

theorem init_stdio_streams_witness:
  "let K = demo_platform;
       S = \<lparr>stdin = 50, stdout = 60, stderr = 70, stdin_buf = 2000, stdout_buf = 4000, stderr_buf = 6000\<rparr>;
       w = (demo_world [7])\<lparr>w_mem := (\<lambda>a. Some 0), open_file_list := NULL\<rparr> in
   \<exists>w'. init_stdio K S w = Some w' \<and> open_list w' [stderr S, stdout S, stdin S] \<and>
    in_stream ram_in (stdin S) 0 (stdin_buf S) 1024 w' (ram_in (w_k w')) \<and>
    out_stream ram_out (stdout S) 1 (stdout_buf S) 1024 w' (ram_out (w_k w')) \<and>
    fresh_stream (stderr S) 2 82 (stderr_buf S) IONBF w' \<and> ram_locks (w_k w') = {} \<and> w_mem w' = w_mem w"
  unfolding Let_def
  by (rule init_stdio_streams[OF ram_mutexes(1)])
    (auto simp: new_mutexes_def ram_platform_def demo_world_def mapped_iff)

text \<open>
  C13. The list of open streams stays a well-formed doubly linked list: adding a new stream puts it
  in front, removing any member takes out just that one, whatever its position; both return and
  leave no mutex held.
\<close>

theorem open_list_invariant:
  assumes "good_mutexes K held D" "held (w_k w) = {}" "open_list w xs" "unlinked w p" "p \<notin> set xs"
  shows "\<exists>w1. open_file_list_add K p w = Some w1 \<and> open_list w1 (p # xs) \<and> held (w_k w1) = {} \<and>
    (\<forall>ys q zs. p # xs = ys @ q # zs \<longrightarrow>
      (\<exists>w2. open_file_list_remove K q w1 = Some w2 \<and> open_list w2 (ys @ zs) \<and> held (w_k w2) = {}))"
proof -
  obtain w1 where w1: "open_file_list_add K p w = Some w1" "open_list w1 (p # xs)" "held (w_k w1) = {}"
    using open_file_list_add_correct[OF assms] by blast
  with open_file_list_remove_correct[OF assms(1) w1(3)] show ?thesis by metis
qed

theorem open_list_invariant_witness:
  "let w = demo_two\<lparr>files := (files demo_two)(80 \<mapsto> zero_FILE)\<rparr> in
   \<exists>w1. open_file_list_add demo_platform 80 w = Some w1 \<and> open_list w1 [80, 60, 50] \<and> ram_locks (w_k w1) = {} \<and>
    (\<forall>ys q zs. [80, 60, 50] = ys @ q # zs \<longrightarrow>
      (\<exists>w2. open_file_list_remove demo_platform q w1 = Some w2 \<and> open_list w2 (ys @ zs) \<and> ram_locks (w_k w2) = {}))"
  unfolding Let_def
  by (rule open_list_invariant[OF ram_mutexes(1)])
    (use demo_two_list in \<open>auto simp: open_list_def unlinked_def zero_FILE_def demo_two_def demo_world_def\<close>)

text \<open>
  C16. \<open>fclose\<close> clears the structure before taking it out of the list.  Closing the first stream
  therefore empties the list: the other open streams are no longer flushed by \<open>fflush(NULL)\<close>.
  Closing any other one leaves its predecessor pointing to the freed structure, and \<open>fflush(NULL)\<close>
  follows that pointer.
\<close>

theorem fclose_breaks_list:
  assumes "fclose K p w = Some (0, w')" "open_list w (xs @ p # ys)"
  shows "if xs = [] then open_list w' [] \<and> fflush K NULL w' = Some (0, w') else fflush K NULL w' = None"
proof -
  obtain a where s: "seg (files w) NULL (open_file_list w) xs a p" "p \<noteq> NULL"
    using assms(2) by (auto simp: open_list_def seg_append)
  note c = fclose_list[OF assms(1)]
  show ?thesis
  proof (cases "xs = []")
    case True
    with s(1) c(3) have "open_file_list w' = NULL" by simp
    then show ?thesis using True by (simp add: open_list_def fflush_def fflush_list.simps)
  next
    case False
    have d: "distinct xs" "p \<notin> set xs" using assms(2) by (auto simp: open_list_def)
    have "open_file_list w \<noteq> p" using False s(1) d(2) by (cases xs) auto
    with c(3) have o: "open_file_list w' = open_file_list w" by simp
    have "seg (files w') NULL (open_file_list w') xs a p"
      using s(1) c(2) d(2) unfolding o by (subst seg_frame[of xs _ "files w"]) auto
    from fflush_list_dangling[OF this s(2) c(1) d(1)] False show ?thesis by (simp add: fflush_def)
  qed
qed

theorem fclose_breaks_list_witness:
  "(\<exists>w'. fclose demo_platform 60 demo_two = Some (0, w') \<and> open_list w' [] \<and> fflush demo_platform NULL w' = Some (0, w')) \<and>
   (\<exists>w'. fclose demo_platform 50 demo_two = Some (0, w') \<and> fflush demo_platform NULL w' = None)"
proof -
  obtain w1 w2 where w: "fclose demo_platform 60 demo_two = Some (0, w1)" "fclose demo_platform 50 demo_two = Some (0, w2)"
    using demo_close by blast
  have l: "open_list demo_two ([] @ 60 # [50])" "open_list demo_two ([60] @ 50 # [])" using demo_two_list by simp_all
  from fclose_breaks_list[OF w(1) l(1)] fclose_breaks_list[OF w(2) l(2)] w show ?thesis by auto
qed

text \<open>
  A mode is accepted exactly when it starts with \<open>r\<close>, \<open>w\<close> or \<open>a\<close> and continues with \<open>+\<close>, \<open>t\<close> and
  \<open>b\<close> only; the flags are readable for \<open>r\<close> and \<open>+\<close>, writable for all but \<open>r\<close> without \<open>+\<close>, create for
  \<open>w\<close> and \<open>a\<close>, truncate for \<open>w\<close>, append for \<open>a\<close>, and never both binary and textual.  Every other mode
  gives \<open>EOF\<close> and \<open>EINVAL\<close>.
\<close>

theorem parse_mode_flags_correct:
  "if mode \<noteq> [] \<and> hd mode \<in> {bc CHR ''r'', bc CHR ''w'', bc CHR ''a''} \<and> set (tl mode) \<subseteq> mode_chars
   then \<exists>fl. parse_mode_flags mode w = (fl, w) \<and> 0 \<le> fl \<and>
     (bit fl MODE_READ \<longleftrightarrow> hd mode = bc CHR ''r'' \<or> bc CHR ''+'' \<in> set (tl mode)) \<and>
     (bit fl MODE_WRITE \<longleftrightarrow> hd mode \<noteq> bc CHR ''r'' \<or> bc CHR ''+'' \<in> set (tl mode)) \<and>
     (bit fl MODE_CREATE \<longleftrightarrow> hd mode \<noteq> bc CHR ''r'') \<and>
     (bit fl MODE_TRUNCATE \<longleftrightarrow> hd mode = bc CHR ''w'') \<and>
     (bit fl MODE_APPEND \<longleftrightarrow> hd mode = bc CHR ''a'') \<and>
     \<not> (bit fl MODE_BINARY \<and> bit fl MODE_TEXTUAL)
   else parse_mode_flags mode w = (EOF, w\<lparr>w_errno := EINVAL\<rparr>)"
proof (cases mode)
  case Nil
  then show ?thesis by (simp add: parse_mode_flags_def mode_start_def)
next
  case (Cons c s)
  show ?thesis
  proof (cases "mode_start mode")
    case None
    with Cons show ?thesis by (auto simp: parse_mode_flags_def mode_start_def split: if_splits)
  next
    case (Some fl0)
    have b: "0 \<le> fl0" "bit fl0 MODE_READ \<longleftrightarrow> c = bc CHR ''r''" "bit fl0 MODE_WRITE \<longleftrightarrow> c \<noteq> bc CHR ''r''"
      "bit fl0 MODE_CREATE \<longleftrightarrow> c \<noteq> bc CHR ''r''" "bit fl0 MODE_TRUNCATE \<longleftrightarrow> c = bc CHR ''w''"
      "bit fl0 MODE_APPEND \<longleftrightarrow> c = bc CHR ''a''" "\<not> (bit fl0 MODE_BINARY \<and> bit fl0 MODE_TEXTUAL)"
      "c \<in> {bc CHR ''r'', bc CHR ''w'', bc CHR ''a''}"
      using Some Cons by (auto simp: mode_start_def bit_set_bit_iff split: if_splits)
    show ?thesis
    proof (cases "mode_loop s fl0")
      case None
      then have "\<not> set s \<subseteq> mode_chars" using mode_loop_None by blast
      with None Some Cons show ?thesis by (simp add: parse_mode_flags_def)
    next
      case fl: (Some fl)
      then have "set s \<subseteq> mode_chars" using mode_loop_None[of s fl0] by simp
      moreover have "parse_mode_flags mode w = (fl, w)" using fl Some Cons by (simp add: parse_mode_flags_def)
      moreover have "bit fl MODE_READ \<longleftrightarrow> c = bc CHR ''r'' \<or> bc CHR ''+'' \<in> set s"
        "bit fl MODE_WRITE \<longleftrightarrow> c \<noteq> bc CHR ''r'' \<or> bc CHR ''+'' \<in> set s"
        "bit fl MODE_CREATE \<longleftrightarrow> c \<noteq> bc CHR ''r''" "bit fl MODE_TRUNCATE \<longleftrightarrow> c = bc CHR ''w''"
        "bit fl MODE_APPEND \<longleftrightarrow> c = bc CHR ''a''"
        using mode_loop_flags[OF fl, of MODE_READ] mode_loop_flags[OF fl, of MODE_WRITE]
          mode_loop_flags[OF fl, of MODE_CREATE] mode_loop_flags[OF fl, of MODE_TRUNCATE]
          mode_loop_flags[OF fl, of MODE_APPEND] b(2-6) by simp_all
      ultimately show ?thesis
        using Cons b(1,7,8) mode_loop_type[OF fl] mode_loop_nonneg[OF fl] by simp
    qed
  qed
qed

theorem parse_mode_flags_correct_witness:
  "\<exists>fl. parse_mode_flags (lit ''r+b'') (demo_world []) = (fl, demo_world []) \<and> bit fl MODE_READ \<and>
    bit fl MODE_WRITE \<and> \<not> bit fl MODE_CREATE \<and> \<not> bit fl MODE_TRUNCATE"
  using parse_mode_flags_correct[of "lit ''r+b''" "demo_world []"] by auto

end
