(* ===== verification/Stdio_Exit.thy ===== *)
theory Stdio_Exit
  imports Stdio_Files
begin

text \<open>
  What the finalisation of the streams at the end of the process does to data that is still pending:
  the composition of \<open>__init_stdio\<close>, the output functions and \<open>__fini_stdio\<close>.
\<close>

section \<open>Line buffered output\<close>

text \<open>The bytes up to and including the last newline.\<close>

fun complete_lines :: "byte list \<Rightarrow> byte list" where
  "complete_lines [] = []"
| "complete_lines (c # cs) = (if 10 \<in> set (c # cs) then c # complete_lines cs else [])"

lemma complete_lines_empty: "complete_lines xs = [] \<longleftrightarrow> 10 \<notin> set xs"
  by (cases xs) auto

lemma complete_lines_none: "10 \<notin> set xs \<Longrightarrow> complete_lines xs = []"
  by (simp add: complete_lines_empty)

lemma complete_lines_newline: "complete_lines (xs @ 10 # ys) = xs @ 10 # complete_lines ys"
  by (induction xs) (auto simp: complete_lines_none)

lemma complete_lines_snoc: "complete_lines (xs @ [c]) = (if c = 10 then xs @ [c] else complete_lines xs)"
  by (induction xs) auto

lemma complete_lines_last: "complete_lines xs = [] \<or> (\<exists>a. complete_lines xs = a @ [10])"
proof (cases "10 \<in> set xs")
  case True
  then obtain a b where "xs = a @ 10 # b" "10 \<notin> set b" using split_list_last by metis
  then show ?thesis by (auto simp: complete_lines_newline complete_lines_none)
qed (simp add: complete_lines_none)

lemma complete_lines_append:
  assumes "xs = complete_lines xs @ zs"
  shows "complete_lines (xs @ ys) = complete_lines xs @ complete_lines (zs @ ys)"
  using complete_lines_last [of xs]
proof
  assume "complete_lines xs = []"
  with assms show ?thesis by simp
next
  assume "\<exists>a. complete_lines xs = a @ [10]"
  then obtain a where a: "complete_lines xs = a @ [10]" ..
  have "complete_lines (xs @ ys) = complete_lines (a @ 10 # zs @ ys)" using assms a by simp
  then show ?thesis unfolding complete_lines_newline a by simp
qed

text \<open>
  Putting a byte into a line buffered stream: the device sees nothing of it until the newline, which
  sends all that is pending.
\<close>

definition line_file :: "addr \<Rightarrow> int \<Rightarrow> addr \<Rightarrow> nat \<Rightarrow> 'k stdio \<Rightarrow> byte list \<Rightarrow> bool" where
  "line_file p fd B N w pend \<longleftrightarrow> 10 \<notin> set pend \<and>
     (\<exists>f. out_file p fd B N w f pend \<and> buffer_mode f = IOLBF)"

definition quiet :: "('k \<Rightarrow> 'i) \<Rightarrow> addr \<Rightarrow> addr \<Rightarrow> nat \<Rightarrow> 'k stdio \<Rightarrow> 'k stdio \<Rightarrow> bool" where
  "quiet I p B N w w' \<longleftrightarrow> only_stream I p B N w w' \<and> keeps_rest p w w'"

lemma quiet_refl [simp]: "quiet I p B N w w"
  by (simp add: quiet_def)

lemma quiet_trans: "quiet I p B N w w1 \<Longrightarrow> quiet I p B N w1 w2 \<Longrightarrow> quiet I p B N w w2"
  by (auto simp: quiet_def intro: only_stream_trans keeps_rest_trans)

lemma fputc_line:
  assumes dev: "takes_data K fd out I" and st: "line_file p fd B N w pend" "length pend < N"
  shows "\<exists>w' pend'. fputc_unlocked K (uv b) p w = Some (uv b, w') \<and> line_file p fd B N w' pend' \<and> quiet I p B N w w' \<and>
    (if b = 10 then out (w_k w') = out (w_k w) @ pend @ [b] \<and> pend' = []
     else out (w_k w') = out (w_k w) \<and> pend' = pend @ [b])"
proof -
  obtain f where o: "out_file p fd B N w f pend" "buffer_mode f = IOLBF" using st(1) by (auto simp: line_file_def)
  note f = o(1)[unfolded out_file_def]
  define g where "g = (\<lambda>f. raise DIRECTION_WRITE (lower DIRECTION_READ f)
      \<lparr>buffered_bytes_write := uadd (buffered_bytes_write f) 1\<rparr>)"
  define w2 where "w2 = change p g (w\<lparr>w_mem := (w_mem w)(B + length pend \<mapsto> b)\<rparr>)"
  note w2 = put_room[OF o(1) st(2), where b = b, folded g_def, folded w2_def]
  obtain f2 where f2: "out_file p fd B N w2 f2 (pend @ [b])" "buffer_mode f2 = IOLBF" using w2(2) o(2) by auto
  have "links (g f) = links f" for f by (simp add: g_def)
  then have "keeps_rest p w w2" unfolding w2_def by (intro keeps_rest_change) simp_all
  then have q2: "quiet I p B N w w2" using w2(3) by (simp add: quiet_def)
  have k2: "w_k w2 = w_k w" by (simp add: w2_def stream_simps)
  have e: "fputc_unlocked K (uv b) p w = do {
      (r, w) \<leftarrow> (if b = 10 then fflush_write_unlocked K p w2 else Some (0, w2));
      Some (if r = EOF then EOF else uv b, w) }"
    using f o(2) st(2) f2(1)[unfolded out_file_def] f2(2) w2(1)
    unfolding w2_def g_def
    by (simp add: fputc_unlocked_def ensure_buffer_def flush_if_def Let_def stream_simps split del: if_split)
  show ?thesis
  proof (cases "b = 10")
    case False
    with e q2 f2 k2 st(1) show ?thesis by (intro exI[of _ w2] exI[of _ "pend @ [b]"]) (auto simp: line_file_def)
  next
    case True
    obtain k f3 where 3: "fflush_write_unlocked K p w2 = Some (0, w2\<lparr>files := (files w2)(p \<mapsto> f3), w_k := k\<rparr>)"
      "out_file p fd B N (w2\<lparr>files := (files w2)(p \<mapsto> f3), w_k := k\<rparr>) f3 []" "out k = out (w_k w2) @ pend @ [b]"
      "I k = I (w_k w2)" "lock f3 = lock f2" "buffer_mode f3 = buffer_mode f2"
      using fflush_write_out[OF dev f2(1)] by blast
    let ?w = "w2\<lparr>files := (files w2)(p \<mapsto> f3), w_k := k\<rparr>"
    have "quiet I p B N w2 ?w"
      using 3(4,5) fflush_write_keeps[OF 3(1)] f2(1) by (auto simp: quiet_def only_stream_def out_file_def)
    with True e 3 q2 f2(2) k2 quiet_trans show ?thesis
      by (intro exI[of _ ?w] exI[of _ "[]"]) (auto simp: line_file_def)
  qed
qed

text \<open>Writing \<open>ys\<close>: the complete lines are sent, the rest is pending.\<close>

definition sends :: "('k \<Rightarrow> byte list) \<Rightarrow> 'k stdio \<Rightarrow> 'k stdio \<Rightarrow> byte list \<Rightarrow> byte list \<Rightarrow> bool" where
  "sends out w w' xs pend \<longleftrightarrow> out (w_k w') = out (w_k w) @ complete_lines xs \<and> xs = complete_lines xs @ pend"

lemma sends_none: "10 \<notin> set pend \<Longrightarrow> sends out w w pend pend"
  by (simp add: sends_def complete_lines_none)

lemma sends_trans: "sends out w w1 xs zs \<Longrightarrow> sends out w1 w2 (zs @ ys) pend \<Longrightarrow> sends out w w2 (xs @ ys) pend"
  using complete_lines_append [of xs zs ys] by (auto simp: sends_def)

lemma fputc_sends:
  assumes "takes_data K fd out I" "line_file p fd B N w pend" "length pend < N"
  shows "\<exists>w' pend'. fputc_unlocked K (uv b) p w = Some (uv b, w') \<and> line_file p fd B N w' pend' \<and> quiet I p B N w w' \<and>
    sends out w w' (pend @ [b]) pend'"
proof -
  obtain w' pend' where w': "fputc_unlocked K (uv b) p w = Some (uv b, w')" "line_file p fd B N w' pend'" "quiet I p B N w w'"
    "if b = 10 then out (w_k w') = out (w_k w) @ pend @ [b] \<and> pend' = []
     else out (w_k w') = out (w_k w) \<and> pend' = pend @ [b]" using fputc_line [OF assms] by blast
  moreover have "10 \<notin> set pend" using assms(2) by (simp add: line_file_def)
  ultimately have "sends out w w' (pend @ [b]) pend'"
    by (auto simp: sends_def complete_lines_snoc complete_lines_none split: if_splits)
  with w' show ?thesis by blast
qed

lemma sends_length: "sends out w w' xs pend \<Longrightarrow> length pend \<le> length xs"
  unfolding sends_def by (metis le_add2 length_append)

lemma fwrite_bytes_line:
  assumes "takes_data K fd out I"
  shows "line_file p fd B N w pend \<Longrightarrow> length pend + length ys \<le> N \<Longrightarrow> bytes_at (w_mem w) a ys \<Longrightarrow>
    a + length ys \<le> B \<or> B + N \<le> a \<Longrightarrow>
    \<exists>w' pend'. fwrite_bytes K a (length ys) p w = Some (True, w') \<and> line_file p fd B N w' pend' \<and>
      quiet I p B N w w' \<and> sends out w w' (pend @ ys) pend'"
proof (induction ys arbitrary: a w pend)
  case Nil
  then show ?case using sends_none by (auto simp: line_file_def)
next
  case (Cons y ys)
  obtain w1 pend1 where w1: "fputc_unlocked K (uv y) p w = Some (uv y, w1)" "line_file p fd B N w1 pend1"
    "quiet I p B N w w1" "sends out w w1 (pend @ [y]) pend1"
    using fputc_sends [OF assms Cons.prems(1)] Cons.prems(2) by fastforce
  have "length pend1 + length ys \<le> N" using sends_length [OF w1(4)] Cons.prems(2) by simp
  moreover have "bytes_at (w_mem w1) (Suc a) ys"
    using only_stream_bytes [of I p B N w w1 "Suc a" ys] w1(3) Cons.prems(3,4) by (auto simp: quiet_def)
  ultimately obtain w2 pend2 where "fwrite_bytes K (Suc a) (length ys) p w1 = Some (True, w2)" "line_file p fd B N w2 pend2"
    "quiet I p B N w1 w2" "sends out w1 w2 (pend1 @ ys) pend2"
    using Cons.IH [OF w1(2)] Cons.prems(4) by (metis add_Suc add_Suc_right length_Cons le_SucI)
  with w1(1) Cons.prems(3) quiet_trans [OF w1(3)] sends_trans [OF w1(4)] show ?case
    by (intro exI [of _ w2] exI [of _ pend2]) auto
qed

lemma fwrite_items_line:
  assumes "takes_data K fd out I"
  shows "line_file p fd B N w pend \<Longrightarrow> length pend + length ys \<le> N \<Longrightarrow> bytes_at (w_mem w) (ptr + e * n) ys \<Longrightarrow>
    length ys = k * n \<Longrightarrow> ptr + e * n + length ys \<le> B \<or> B + N \<le> ptr \<Longrightarrow>
    \<exists>w' pend'. fwrite_items K ptr n k e p w = Some (e + k, w') \<and> line_file p fd B N w' pend' \<and>
      quiet I p B N w w' \<and> sends out w w' (pend @ ys) pend'"
proof (induction k arbitrary: e w pend ys)
  case 0
  then show ?case using sends_none by (auto simp: line_file_def)
next
  case (Suc k)
  define y1 y2 where "y1 = take n ys" and "y2 = drop n ys"
  have y: "ys = y1 @ y2" "length y1 = n" "length y2 = k * n" using Suc.prems(4) by (auto simp: y1_def y2_def)
  have b: "bytes_at (w_mem w) (ptr + e * n) y1" "bytes_at (w_mem w) (ptr + Suc e * n) y2"
    using Suc.prems(3) y by (auto simp: algebra_simps)
  have d: "ptr + e * n + length y1 \<le> B \<or> B + N \<le> ptr + e * n"
    "ptr + Suc e * n + length y2 \<le> B \<or> B + N \<le> ptr + Suc e * n" "ptr + Suc e * n + length y2 \<le> B \<or> B + N \<le> ptr"
    using Suc.prems(5) y by auto
  have ly: "length pend + length y1 \<le> N" using Suc.prems(2) y by simp
  obtain w1 pend1 where w1: "fwrite_bytes K (ptr + e * n) n p w = Some (True, w1)" "line_file p fd B N w1 pend1"
    "quiet I p B N w w1" "sends out w w1 (pend @ y1) pend1"
    using fwrite_bytes_line [OF assms Suc.prems(1) ly b(1) d(1)] y(2) by auto
  have "bytes_at (w_mem w1) (ptr + Suc e * n) y2"
    using only_stream_bytes [OF _ d(2), of I p w w1] w1(3) b(2) by (simp add: quiet_def)
  moreover have "length pend1 + length y2 \<le> N" using sends_length [OF w1(4)] Suc.prems(2) y by simp
  ultimately obtain w2 pend2 where "fwrite_items K ptr n k (Suc e) p w1 = Some (Suc e + k, w2)"
    "line_file p fd B N w2 pend2" "quiet I p B N w1 w2" "sends out w1 w2 (pend1 @ y2) pend2"
    using Suc.IH [OF w1(2) _ _ y(3) d(3)] by blast
  with w1(1) y(1) quiet_trans [OF w1(3)] sends_trans [OF w1(4)] show ?case
    by (intro exI [of _ w2] exI [of _ pend2]) auto
qed

lemma line_file_kernel [simp]: "line_file p fd B N (w\<lparr>w_k := k\<rparr>) pend = line_file p fd B N w pend"
  by (simp add: line_file_def out_file_def)

lemma fwrite_line:
  assumes "takes_data K fd out held" "good_mutexes K held out" "line_file p fd B N w pend"
    and "\<forall>f. files w p = Some f \<longrightarrow> lock f \<notin> held (w_k w)" "bytes_at (w_mem w) ptr ys" "length ys = nmemb * n" "0 < n"
    and "length pend + length ys \<le> N" "ptr + length ys \<le> B \<or> B + N \<le> ptr"
  shows "\<exists>w' pend'. fwrite K ptr n nmemb p w = Some (nmemb, w') \<and> line_file p fd B N w' pend' \<and> keeps_rest p w w' \<and>
    held (w_k w') = held (w_k w) \<and> sends out w w' (pend @ ys) pend'"
proof -
  obtain f where f: "files w p = Some f" "lock f \<notin> held (w_k w)" using assms(3,4) by (auto simp: line_file_def out_file_def)
  from locked_run [OF assms(2) f, of "fwrite_unlocked K ptr n nmemb p"] obtain k where
    k: "out k = out (w_k w)" "held k = insert (lock f) (held (w_k w))" and
    run: "\<And>r w1. fwrite_unlocked K ptr n nmemb p (w\<lparr>w_k := k\<rparr>) = Some (r, w1) \<Longrightarrow>
      map_option lock (files w1 p) = Some (lock f) \<Longrightarrow> held (w_k w1) = held k \<Longrightarrow>
      \<exists>k1. fwrite K ptr n nmemb p w = Some (r, w1\<lparr>w_k := k1\<rparr>) \<and> held k1 = held (w_k w) \<and> out k1 = out (w_k w1)"
    unfolding fwrite_def by blast
  let ?w = "w\<lparr>w_k := k\<rparr>"
  have "\<exists>w1 pend'. fwrite_unlocked K ptr n nmemb p ?w = Some (nmemb, w1) \<and> line_file p fd B N w1 pend' \<and>
      quiet held p B N ?w w1 \<and> sends out ?w w1 (pend @ ys) pend'"
  proof (cases "nmemb = 0")
    case True
    with assms(3,6) show ?thesis using sends_none [of pend out ?w]
      by (intro exI [of _ ?w] exI [of _ pend]) (auto simp: fwrite_unlocked_def fwrite_direct_def line_file_def out_file_def)
  next
    case False
    have "fwrite_direct K ptr n nmemb p ?w = Some (None, ?w)"
      using assms(3,7) False by (auto simp: line_file_def out_file_def fwrite_direct_def ensure_buffer_def)
    then show ?thesis
      using fwrite_items_line [OF assms(1), of p B N ?w pend ys ptr 0 n nmemb] assms(3,5,6,8,9)
      by (simp add: fwrite_unlocked_def)
  qed
  then obtain w1 pend' where w1: "fwrite_unlocked K ptr n nmemb p ?w = Some (nmemb, w1)" "line_file p fd B N w1 pend'"
    "quiet held p B N ?w w1" "sends out ?w w1 (pend @ ys) pend'" by blast
  then obtain k1 where "fwrite K ptr n nmemb p w = Some (nmemb, w1\<lparr>w_k := k1\<rparr>)" "held k1 = held (w_k w)" "out k1 = out (w_k w1)"
    using run [OF w1(1)] f(1) by (auto simp: quiet_def only_stream_def)
  with w1(2-4) k(1) show ?thesis
    by (intro exI [of _ "w1\<lparr>w_k := k1\<rparr>"] exI [of _ pend']) (auto simp: quiet_def sends_def keeps_rest_def)
qed

section \<open>Finalisation\<close>

text \<open>\<open>__fini_stdio\<close> skips every stream with a standard descriptor.\<close>

lemma fini_loop_standard:
  "seg (files w) q p xs r NULL \<Longrightarrow> \<forall>x\<in>set xs. \<forall>f. files w x = Some f \<longrightarrow> file_descriptor f \<le> 2 \<Longrightarrow> fini_loop K p w = Some w"
  by (induction xs arbitrary: q p) (subst fini_loop.simps; fastforce)+

subsection \<open>Closing one file\<close>

text \<open>
  Several devices: \<open>dev p\<close> is what the device of the stream \<open>p\<close> has taken.  A mutex that is free can
  be acquired, descriptors are closed without an error, and freeing a block leaves the others alone.
\<close>

definition orderly ::
  "'k platform \<Rightarrow> ('k \<Rightarrow> nat set) \<Rightarrow> (addr \<Rightarrow> 'k \<Rightarrow> byte list) \<Rightarrow> (addr \<Rightarrow> int) \<Rightarrow> addr set \<Rightarrow> bool" where
  "orderly K held dev fd X \<longleftrightarrow> good_mutexes K held (\<lambda>k p. dev p k) \<and>
     (\<forall>l k. l \<notin> held k \<longrightarrow> (\<exists>k'. mutex_try_acquire K l k = (True, k') \<and> held k' = insert l (held k) \<and> (\<forall>p. dev p k' = dev p k))) \<and>
     (\<forall>p\<in>X. takes_data K (fd p) (dev p) (\<lambda>k. (held k, \<lambda>q. if q = p then [] else dev q k))) \<and>
     (\<forall>p\<in>X. \<forall>k. \<exists>k'. sys_close K (fd p) k = (G_FS_CLOSE_SUCCESSFUL, k') \<and> held k' = held k \<and> (\<forall>q. dev q k' = dev q k))"

text \<open>The stream \<open>p\<close> stands for \<open>xs\<close> and can be closed.\<close>

definition closable ::
  "(addr \<Rightarrow> 'k \<Rightarrow> byte list) \<Rightarrow> 'k stdio \<Rightarrow> addr \<Rightarrow> int \<Rightarrow> addr \<Rightarrow> nat \<Rightarrow> nat \<Rightarrow> byte list \<Rightarrow> bool" where
  "closable dev w p fd B N l xs \<longleftrightarrow> out_stream (dev p) p fd B N w xs \<and>
     (\<forall>f. files w p = Some f \<longrightarrow> lock f = l \<and> impl_close f)"

lemma out_stream_frame:
  assumes "out_stream out p fd B N w xs" "files w' p = files w p" "out (w_k w') = out (w_k w)"
    and "\<forall>a. B \<le> a \<and> a < B + N \<longrightarrow> w_mem w' a = w_mem w a"
  shows "out_stream out p fd B N w' xs"
proof -
  obtain f pend where f: "out_file p fd B N w f pend" "xs = out (w_k w) @ pend" using assms(1) by (auto simp: out_stream_def)
  have "bytes_at (w_mem w') B pend = bytes_at (w_mem w) B pend"
    using f(1) assms(4) by (intro bytes_at_frame) (auto simp: out_file_def)
  moreover have "mapped (w_mem w') B N" using f(1) assms(4) by (simp add: out_file_def mapped_iff)
  ultimately have "out_file p fd B N w' f pend" using f(1) assms(2) by (simp add: out_file_def)
  with f(2) assms(3) show ?thesis by (auto simp: out_stream_def)
qed

lemma closable_frame:
  assumes "closable dev w p fd B N l xs" "files w' p = files w p" "dev p (w_k w') = dev p (w_k w)"
    and "\<forall>a. B \<le> a \<and> a < B + N \<longrightarrow> w_mem w' a = w_mem w a"
  shows "closable dev w' p fd B N l xs"
  using assms out_stream_frame [OF _ assms(2-4)] by (simp add: closable_def)

text \<open>Closing takes a cleared structure out of the list: nothing but the head of the list can change.\<close>

lemma remove_cleared:
  assumes "good_mutexes K held D" "open_file_list_lock w \<notin> held (w_k w)" "files w p = Some zero_FILE"
  shows "\<exists>w'. open_file_list_remove K p w = Some w' \<and> files w' = files w \<and> w_mem w' = w_mem w \<and>
    open_file_list_lock w' = open_file_list_lock w \<and> held (w_k w') = held (w_k w) \<and> D (w_k w') = D (w_k w)"
proof -
  obtain k where "mutex_acquire K (open_file_list_lock w) (w_k w) = Some k"
    "held k = insert (open_file_list_lock w) (held (w_k w))" "D k = D (w_k w)" using acquire_free [OF assms(1,2)] by blast
  then show ?thesis using assms(2,3) release_held [OF assms(1), of "open_file_list_lock w" k]
    by (auto simp: open_file_list_remove_def lock_acquire_def lock_release_def list_unlink_def zero_FILE_def Let_def)
qed

lemma fclose_static_correct:
  assumes "orderly K held dev fd X" "p \<in> X" "closable dev w p (fd p) B N l xs" "open_file_list_lock w \<notin> held (w_k w)"
  shows "\<exists>w'. fclose_static_unlocked K p w = Some (0, w') \<and> files w' = (files w)(p \<mapsto> zero_FILE) \<and>
    dev p (w_k w') = xs \<and> (\<forall>q. q \<noteq> p \<longrightarrow> dev q (w_k w') = dev q (w_k w)) \<and> held (w_k w') = held (w_k w) \<and>
    open_file_list_lock w' = open_file_list_lock w \<and>
    (\<forall>a. (a < B \<or> B + N \<le> a) \<longrightarrow> (\<forall>m. heap_free K B m a = m a) \<longrightarrow> w_mem w' a = w_mem w a)"
proof -
  let ?I = "\<lambda>k. (held k, \<lambda>q. if q = p then [] else dev q k)"
  have K: "good_mutexes K held (\<lambda>k p. dev p k)" "takes_data K (fd p) (dev p) ?I" using assms(1,2) by (auto simp: orderly_def)
  have c: "out_stream (dev p) p (fd p) B N w xs" "\<And>f. files w p = Some f \<Longrightarrow> impl_close f"
    using assms(3) by (auto simp: closable_def)
  obtain w1 where w1: "fflush_unlocked K p w = Some (0, w1)" "out_stream (dev p) p (fd p) B N w1 xs"
    "only_stream ?I p B N w w1" "dev p (w_k w1) = xs" using fflush_stream [OF K(2) c(1)] by blast
  obtain f1 where f1: "files w1 p = Some f1" "file_descriptor f1 = fd p" "buffer f1 = B"
    using w1(2) by (auto simp: out_stream_def out_file_def)
  obtain f where "files w p = Some f" using out_stream_file [OF c(1)] by blast
  then have "impl_close f1"
    using c(2) fflush_keeps [OF w1(1)] f1(1) by (auto simp: keeps_rest_def links_def)
  obtain k2 where k2: "sys_close K (fd p) (w_k w1) = (G_FS_CLOSE_SUCCESSFUL, k2)" "held k2 = held (w_k w1)"
    "\<forall>q. dev q k2 = dev q (w_k w1)" using assms(1,2) unfolding orderly_def by blast
  define w3 where "w3 = (let w = w1\<lparr>w_k := k2\<rparr>;
    w = (if has f1 BUFFER_SET \<and> buffer f1 \<noteq> NULL \<and> has f1 OWNER_LIBRARY
         then w\<lparr>w_mem := heap_free K (buffer f1) (w_mem w)\<rparr> else w) in w\<lparr>files := (files w)(p \<mapsto> zero_FILE)\<rparr>)"
  have w3: "files w3 = (files w1)(p \<mapsto> zero_FILE)" "w_k w3 = k2" "open_file_list_lock w3 = open_file_list_lock w1"
    "\<forall>a. (\<forall>m. heap_free K B m a = m a) \<longrightarrow> w_mem w3 a = w_mem w1 a" by (simp_all add: w3_def Let_def f1(3))
  have e: "fclose_static_unlocked K p w = do { w \<leftarrow> open_file_list_remove K p w3; Some (0, w) }"
    using w1(1) f1 \<open>impl_close f1\<close> k2(1)
    by (simp add: fclose_static_unlocked_def stdio_impl_close_def c_close_def w3_def Let_def)
  have I: "held (w_k w1) = held (w_k w)" "\<forall>q. q \<noteq> p \<longrightarrow> dev q (w_k w1) = dev q (w_k w)"
    using w1(3) by (auto simp: only_stream_def fun_eq_iff) (metis)
  obtain w4 where w4: "open_file_list_remove K p w3 = Some w4" "files w4 = files w3" "w_mem w4 = w_mem w3"
    "open_file_list_lock w4 = open_file_list_lock w3" "held (w_k w4) = held (w_k w3)" "(\<lambda>q. dev q (w_k w4)) = (\<lambda>q. dev q (w_k w3))"
    using remove_cleared [OF K(1), of w3 p] assms(4) w1(3) w3 k2(2) I(1) by (auto simp: only_stream_def)
  have d: "dev q (w_k w4) = dev q (w_k w1)" for q using w4(6) w3(2) k2(3) by (metis)
  have "files w3 = (files w)(p \<mapsto> zero_FILE)" using w3(1) w1(3) by (auto simp: only_stream_def fun_eq_iff)
  moreover have "w_mem w4 a = w_mem w a" if "a < B \<or> B + N \<le> a" "\<forall>m. heap_free K B m a = m a" for a
    using that w3(4) w4(3) w1(3) by (auto simp: only_stream_def)
  ultimately show ?thesis using e w4 d w1(3,4) I w3(2,3) k2(2)
    by (intro exI [of _ w4]) (simp add: only_stream_def)
qed

subsection \<open>Closing all files\<close>

text \<open>
  The streams in the list \<open>xs\<close>: those in \<open>X\<close> have a descriptor of their own, the others a standard
  one.  Buffers do not overlap, and no two streams share a lock.
\<close>

definition apart :: "'k platform \<Rightarrow> (addr \<Rightarrow> addr) \<Rightarrow> (addr \<Rightarrow> nat) \<Rightarrow> addr set \<Rightarrow> bool" where
  "apart K B N X \<longleftrightarrow> (\<forall>p\<in>X. \<forall>q\<in>X. p \<noteq> q \<longrightarrow>
     (B p + N p \<le> B q \<or> B q + N q \<le> B p) \<and> (\<forall>a m. B q \<le> a \<and> a < B q + N q \<longrightarrow> heap_free K (B p) m a = m a))"

lemma fini_loop_files:
  assumes "orderly K held dev fd X" "apart K B N X" "inj_on l X"
  shows "seg (files w) q0 s xs r NULL \<Longrightarrow> distinct xs \<Longrightarrow> open_file_list_lock w \<notin> held (w_k w) \<union> l ` (set xs \<inter> X) \<Longrightarrow>
    (\<forall>p\<in>set xs \<inter> X. closable dev w p (fd p) (B p) (N p) (l p) (xd p) \<and> 2 < fd p \<and> l p \<notin> held (w_k w)) \<Longrightarrow>
    (\<forall>p\<in>set xs - X. \<forall>f. files w p = Some f \<longrightarrow> file_descriptor f \<le> 2) \<Longrightarrow>
    \<exists>w'. fini_loop K s w = Some w' \<and> (\<forall>p\<in>set xs \<inter> X. dev p (w_k w') = xd p) \<and>
      (\<forall>p. p \<notin> set xs \<inter> X \<longrightarrow> dev p (w_k w') = dev p (w_k w))"
proof (induction xs arbitrary: q0 s w)
  case Nil
  then show ?case by (auto simp: fini_loop.simps)
next
  case (Cons p xs)
  obtain f where f: "s = p" "p \<noteq> NULL" "files w p = Some f" "seg (files w) p (next_file f) xs r NULL"
    using Cons.prems(1) by auto
  show ?case
  proof (cases "p \<in> X")
    case False
    then have "file_descriptor f \<le> 2" using Cons.prems(5) f(3) by auto
    then have e: "fini_loop K s w = fini_loop K (next_file f) w" using f by (subst fini_loop.simps) simp
    have i: "set (p # xs) \<inter> X = set xs \<inter> X" using False by auto
    show ?thesis unfolding e i
      by (rule Cons.IH [OF f(4)]) (use Cons.prems(2-5) i in auto)
  next
    case True
    have c: "closable dev w p (fd p) (B p) (N p) (l p) (xd p)" "2 < fd p" "l p \<notin> held (w_k w)"
      using Cons.prems(4) True by auto
    have ff: "file_descriptor f = fd p" "lock f = l p" using c(1) f(3) by (auto simp: closable_def out_stream_def out_file_def)
    have acq: "\<exists>k'. mutex_try_acquire K (l p) k = (True, k') \<and> held k' = insert (l p) (held k) \<and> (\<forall>p. dev p k' = dev p k)"
      if "l p \<notin> held k" for k using assms(1) that by (simp add: orderly_def)
    obtain k where k: "mutex_try_acquire K (l p) (w_k w) = (True, k)" "held k = insert (l p) (held (w_k w))"
      "\<forall>q. dev q k = dev q (w_k w)" using acq [OF c(3)] by blast
    let ?w = "w\<lparr>w_k := k\<rparr>"
    have "closable dev ?w p (fd p) (B p) (N p) (l p) (xd p)" using c(1) k(3) by (intro closable_frame [OF c(1)]) auto
    moreover have "open_file_list_lock ?w \<notin> held (w_k ?w)" using Cons.prems(3) True k(2) by auto
    ultimately obtain w1 where w1: "fclose_static_unlocked K p ?w = Some (0, w1)" "files w1 = (files w)(p \<mapsto> zero_FILE)"
      "dev p (w_k w1) = xd p" "\<forall>q. q \<noteq> p \<longrightarrow> dev q (w_k w1) = dev q (w_k w)" "held (w_k w1) = insert (l p) (held (w_k w))"
      "open_file_list_lock w1 = open_file_list_lock w" and
      m1: "\<forall>a. (a < B p \<or> B p + N p \<le> a) \<longrightarrow> (\<forall>m. heap_free K (B p) m a = m a) \<longrightarrow> w_mem w1 a = w_mem w a"
      using fclose_static_correct [OF assms(1) True, of ?w "B p" "N p" "l p" "xd p"] k(2,3) by auto
    define w2 where "w2 = lock_release K (lock zero_FILE) w1"
    have w2: "files w2 = files w1" "w_mem w2 = w_mem w1" "open_file_list_lock w2 = open_file_list_lock w"
      "held (w_k w2) = insert (l p) (held (w_k w)) - {lock zero_FILE}" "\<And>q. dev q (w_k w2) = dev q (w_k w1)"
      using release_held [of K held "\<lambda>k p. dev p k" "lock zero_FILE" "w_k w1"] assms(1) w1(5,6)
      by (auto simp: w2_def lock_release_def orderly_def fun_eq_iff)
    have e: "fini_loop K s w = fini_loop K (next_file f) w2"
      using f(1-3) ff c(2) k(1) w1(1,2) by (subst fini_loop.simps) (simp add: w2_def)
    have other: "closable dev w2 q (fd q) (B q) (N q) (l q) (xd q) \<and> 2 < fd q \<and> l q \<notin> held (w_k w2)"
      if q: "q \<in> set xs \<inter> X" for q
    proof -
      have "q \<noteq> p" using q Cons.prems(2) by auto
      moreover from this have "l q \<noteq> l p" using assms(3) True q by (auto simp: inj_on_def)
      moreover have "\<forall>a. B q \<le> a \<and> a < B q + N q \<longrightarrow> w_mem w2 a = w_mem w a"
        using assms(2) True q \<open>q \<noteq> p\<close> m1 w2(2) unfolding apart_def by fastforce
      moreover have "closable dev w q (fd q) (B q) (N q) (l q) (xd q)" "2 < fd q" "l q \<notin> held (w_k w)"
        using Cons.prems(4) q by auto
      ultimately show ?thesis using closable_frame [of dev w q "fd q" "B q" "N q" "l q" "xd q" w2] w1(2,4) w2 by auto
    qed
    have "seg (files w2) p (next_file f) xs r NULL" using f(4) Cons.prems(2) w2(1) w1(2) by simp
    moreover have "open_file_list_lock w2 \<notin> held (w_k w2) \<union> l ` (set xs \<inter> X)"
      using Cons.prems(3) True w2(3,4) by auto
    moreover have "\<forall>q\<in>set xs - X. \<forall>f. files w2 q = Some f \<longrightarrow> file_descriptor f \<le> 2"
      using Cons.prems(2,5) w2(1) w1(2) True by auto
    ultimately obtain w' where w': "fini_loop K (next_file f) w2 = Some w'" "\<forall>q\<in>set xs \<inter> X. dev q (w_k w') = xd q"
      "\<forall>q. q \<notin> set xs \<inter> X \<longrightarrow> dev q (w_k w') = dev q (w_k w2)"
      using Cons.IH [of w2 p "next_file f"] other Cons.prems(2) by auto
    have "dev p (w_k w') = xd p" using w'(3) w1(3) w2(5) Cons.prems(2) by auto
    then show ?thesis using w' e w1(4) w2(5) True by (intro exI [of _ w']) auto
  qed
qed

lemma open_list_keeps:
  assumes "keeps_rest p w w'" "open_list w xs"
  shows "open_list w' xs"
proof -
  have "map_option links (files w' x) = map_option links (files w x)" for x
    using assms(1) by (cases "x = p") (simp_all add: keeps_rest_def)
  then have "seg (files w') q s xs r z = seg (files w) q s xs r z" for q s r z by (intro seg_links) simp
  then show ?thesis using assms by (simp add: open_list_def keeps_rest_def)
qed

section \<open>Properties\<close>

text \<open>
  C15. What a program wrote to \<open>stdout\<close> is lost at its end unless a newline follows: after the streams
  were initialised and text that fits into the buffer was written with \<open>fwrite\<close>, finalising the
  streams returns and the device has received exactly the complete lines; the rest, up to the whole
  text, stays in the buffer, because \<open>__fini_stdio\<close> skips the standard streams.
\<close>

theorem stdout_rest_lost:
  assumes "good_mutexes K held out" "new_mutexes K held out" "held (w_k w) = {}" "open_file_list w = NULL"
    and "takes_data K 1 out held" "distinct [stdin S, stdout S, stderr S]"
    and "NULL \<notin> set [stdin S, stdout S, stderr S, stdin_buf S, stdout_buf S, stderr_buf S]"
    and "mapped (w_mem w) (stdout_buf S) 1024" "bytes_at (w_mem w) ptr ys" "length ys = nmemb * n" "0 < n"
    and "length ys \<le> 1024" "ptr + length ys \<le> stdout_buf S \<or> stdout_buf S + 1024 \<le> ptr"
  shows "\<exists>w1 w2. init_stdio K S w = Some w1 \<and> fwrite K ptr n nmemb (stdout S) w1 = Some (nmemb, w2) \<and>
    fini_stdio K w2 = Some w2 \<and> out (w_k w2) = out (w_k w) @ complete_lines ys"
proof -
  obtain w1 where w1: "init_stdio K S w = Some w1" "open_list w1 [stderr S, stdout S, stdin S]"
    "fresh_stream (stdin S) 0 1 (stdin_buf S) IOLBF w1" "fresh_stream (stdout S) 1 82 (stdout_buf S) IOLBF w1"
    "fresh_stream (stderr S) 2 82 (stderr_buf S) IONBF w1" "w_mem w1 = w_mem w" "held (w_k w1) = {}" "out (w_k w1) = out (w_k w)"
    using init_stdio_correct [OF assms(1-4,6,7)] by blast
  have "line_file (stdout S) 1 (stdout_buf S) 1024 w1 []"
    using w1(4,6) assms(8) by (auto simp: line_file_def fresh_stream_def out_file_def bit_numeral_rec)
  from fwrite_line [OF assms(5,1) this, of ptr ys nmemb n] assms(9-13) w1(6,7) obtain w2 pend where
    w2: "fwrite K ptr n nmemb (stdout S) w1 = Some (nmemb, w2)" "line_file (stdout S) 1 (stdout_buf S) 1024 w2 pend"
    "keeps_rest (stdout S) w1 w2" "sends out w1 w2 ys pend" by auto
  have "files w2 x = files w1 x" if "x \<noteq> stdout S" for x using w2(3) that by (simp add: keeps_rest_def)
  then have "file_descriptor f \<le> 2" if "files w2 x = Some f" "x \<in> {stderr S, stdout S, stdin S}" for x f
    using that assms(6) w1(3,5) w2(2) by (auto simp: fresh_stream_def line_file_def out_file_def)
  moreover obtain r where "seg (files w2) NULL (open_file_list w2) [stderr S, stdout S, stdin S] r NULL"
    using open_list_keeps [OF w2(3) w1(2)] unfolding open_list_def by blast
  ultimately have "fini_stdio K w2 = Some w2" unfolding fini_stdio_def using fini_loop_standard by fastforce
  then show ?thesis using w1(1,8) w2(1,4) by (auto simp: sends_def)
qed

theorem stdout_rest_lost_witness:
  "let K = demo_platform;
       S = \<lparr>stdin = 50, stdout = 60, stderr = 70, stdin_buf = 2000, stdout_buf = 4000, stderr_buf = 6000\<rparr>;
       w = (demo_world [])\<lparr>w_mem := store (\<lambda>a. Some 0) 10 (lit ''hi'' @ [10] @ lit ''you''), open_file_list := NULL\<rparr> in
   \<exists>w1 w2. init_stdio K S w = Some w1 \<and> fwrite K 10 2 3 (stdout S) w1 = Some (3, w2) \<and>
    fini_stdio K w2 = Some w2 \<and> ram_out (w_k w2) = ram_out (w_k w) @ complete_lines (lit ''hi'' @ [10] @ lit ''you'')"
  unfolding Let_def
  by (rule stdout_rest_lost [OF ram_mutexes(1) _ _ _ ram_takes])
    (auto simp: new_mutexes_def ram_platform_def demo_world_def mapped_iff store_apply)

text \<open>
  C14. Every file the program left open is flushed at its end: for any list of open streams, if those
  with a descriptor above 2 are output streams that can be closed (each with its own device, buffer
  and lock) and the mutexes are free, finalising the streams returns, each of their devices has all the
  data of its stream, and no other device has received anything.
\<close>

theorem fini_flushes_files:
  assumes "orderly K held dev fd X" "apart K B N X" "inj_on l X" "open_list w xs" "X \<subseteq> set xs"
    and "held (w_k w) = {}" "open_file_list_lock w \<notin> l ` X"
    and "\<forall>p\<in>X. closable dev w p (fd p) (B p) (N p) (l p) (xd p) \<and> 2 < fd p"
    and "\<forall>p\<in>set xs - X. \<forall>f. files w p = Some f \<longrightarrow> file_descriptor f \<le> 2"
  shows "\<exists>w'. fini_stdio K w = Some w' \<and> (\<forall>p\<in>X. dev p (w_k w') = xd p) \<and>
    (\<forall>p. p \<notin> X \<longrightarrow> dev p (w_k w') = dev p (w_k w))"
proof -
  obtain r where "seg (files w) NULL (open_file_list w) xs r NULL" "distinct xs" using assms(4) by (auto simp: open_list_def)
  moreover have "set xs \<inter> X = X" using assms(5) by auto
  ultimately show ?thesis using fini_loop_files [OF assms(1-3), of w NULL "open_file_list w" xs r xd] assms(6-9)
    by (simp add: fini_stdio_def)
qed

text \<open>A file with the bytes 1 and 2 pending, behind \<open>stdout\<close> in the list.\<close>

definition demo_exit :: "ram stdio" where
  "demo_exit = (demo_world [])\<lparr>w_mem := store Map.empty 100 [1, 2, 0, 0],
     files := [60 \<mapsto> demo_FILE\<lparr>lock := 2, next_file := 50, buffer := 200\<rparr>,
       50 \<mapsto> raise DIRECTION_WRITE demo_FILE\<lparr>prev_file := 60, file_descriptor := 3, buffered_bytes_write := 2\<rparr>],
     open_file_list := 60\<rparr>"

definition demo_dev :: "addr \<Rightarrow> ram \<Rightarrow> byte list" where
  "demo_dev p k = (if p = 50 then ram_out k else [])"

lemma has_links: "has (f\<lparr>prev_file := a\<rparr>) b = has f b" "has (f\<lparr>file_descriptor := i\<rparr>) b = has f b"
  by (simp_all add: has_def)

lemma demo_orderly: "orderly demo_platform ram_locks demo_dev (\<lambda>_. 3) {50}"
proof -
  have "good_mutexes demo_platform ram_locks (\<lambda>k p. demo_dev p k)"
    by (auto simp: good_mutexes_def ram_platform_def demo_dev_def)
  moreover have "takes_data demo_platform 3 (demo_dev 50) (\<lambda>k. (ram_locks k, \<lambda>q. if q = 50 then [] else demo_dev q k))"
    using ram_takes [of 1000 "bump_malloc 2000" 3] by (simp add: takes_data_def demo_dev_def cong: if_cong)
  ultimately show ?thesis by (auto simp: orderly_def ram_platform_def demo_dev_def)
qed

theorem fini_flushes_files_witness:
  "\<exists>w'. fini_stdio demo_platform demo_exit = Some w' \<and> (\<forall>p\<in>{50}. demo_dev p (w_k w') = [1, 2]) \<and>
    (\<forall>p. p \<notin> {50} \<longrightarrow> demo_dev p (w_k w') = demo_dev p (w_k demo_exit))"
proof (rule fini_flushes_files [OF demo_orderly, where B = "\<lambda>_. 100" and N = "\<lambda>_. 4" and l = "\<lambda>_. 1" and xs = "[60, 50]"])
  have "out_file 50 3 100 4 demo_exit (raise DIRECTION_WRITE demo_FILE\<lparr>prev_file := 60, file_descriptor := 3, buffered_bytes_write := 2\<rparr>) [1, 2]"
    by (simp add: out_file_def demo_exit_def demo_FILE_fields stream_simps mapped_iff store_apply has_links)
  then show "\<forall>p\<in>{50}. closable demo_dev demo_exit p 3 100 4 1 [1, 2] \<and> (2::int) < 3"
    by (auto simp: closable_def out_stream_def demo_dev_def demo_exit_def demo_world_def stream_simps demo_FILE_fields)
qed (auto simp: apart_def demo_exit_def demo_world_def open_list_def stream_simps, simp_all add: demo_FILE_def zero_FILE_def)

end
