(* ===== verification/Startup.thy ===== *)
theory Startup
  imports C_Prelude
begin

text \<open>
  The life of a process: the entry routine and the initialisation and finalisation of the library
  (\<open>libc/src/main.c\<close>), the exit handlers (\<open>libc/src/itanium_cxx_abi_support.c\<close>,
  \<open>stdlib/atexit.c\<close>) and the ways to end (\<open>stdlib/exit.c\<close>, \<open>stdlib/abort.c\<close>, \<open>unistd/_exit.c\<close>).

  The functions of the program are the elements of a type \<open>'f\<close>.  What one of them does is a
  sequence of actions: calls of the library's functions and effects that do not concern it.  A
  program gives, for each function, the set of the sequences a call of it can perform, so that the
  life of the process is a step relation on the call stack.
\<close>

section \<open>Exit handlers\<close>

text \<open>
  A registered function is \<open>g_atexit_thunk\<close> or one of the program; its argument is the address of
  an entry of the array of wrappers or some pointer.
\<close>

datatype 'f code = Thunk | User 'f

datatype argument = Wrapper nat | Pointer addr

record 'f atexit_entry =
  e_func :: "'f code"
  e_arg :: argument
  e_dso :: addr
  e_called :: bool

text \<open>
  The two static arrays are the lists of their entries in use, so that \<open>g_atexit_count\<close> and
  \<open>g_atexit_wrapper_count\<close> are their lengths.
\<close>

record 'f handlers =
  g_atexit_entries :: "'f atexit_entry list"
  g_atexit_wrappers :: "'f list"

abbreviation (input) G_ATEXIT_MAX :: nat where "G_ATEXIT_MAX \<equiv> 64"

definition cxa_atexit ::
  "'f code option \<Rightarrow> argument \<Rightarrow> addr \<Rightarrow> ('f, 'z) handlers_scheme \<Rightarrow> int \<times> ('f, 'z) handlers_scheme" where
  "cxa_atexit func arg dso_handle h = (case func of
     None \<Rightarrow> (- 1, h)
   | Some f \<Rightarrow>
     if length (g_atexit_entries h) \<ge> G_ATEXIT_MAX then (- 1, h)
     else (0, h\<lparr>g_atexit_entries := g_atexit_entries h @
       [\<lparr>e_func = f, e_arg = arg, e_dso = dso_handle, e_called = False\<rparr>]\<rparr>))"

text \<open>The wrapper is written before the call; if that fails the entry is not in use.\<close>

definition atexit :: "'f option \<Rightarrow> ('f, 'z) handlers_scheme \<Rightarrow> int \<times> ('f, 'z) handlers_scheme" where
  "atexit func h = (case func of
     None \<Rightarrow> (- 1, h)
   | Some f \<Rightarrow>
     if length (g_atexit_wrappers h) \<ge> G_ATEXIT_MAX then (- 1, h)
     else
       let (r, h') = cxa_atexit (Some Thunk) (Wrapper (length (g_atexit_wrappers h))) 0 h in
       if r \<noteq> 0 then (- 1, h')
       else (0, h'\<lparr>g_atexit_wrappers := g_atexit_wrappers h' @ [f]\<rparr>))"

section \<open>Programs\<close>

text \<open>
  The arrays of functions the linker or the loader provides.  \<open>None\<close> is an array whose symbols are
  not defined, and for an object one whose pointer is null.
\<close>

record 'f object_info =
  o_preinitArray :: "'f list option"
  o_init :: "'f option"
  o_initArray :: "'f list option"
  o_fini :: "'f option"
  o_finiArray :: "'f list option"

record 'f image =
  preinit_array :: "'f list option"
  init_fn :: 'f
  init_array :: "'f list"
  fini_array :: "'f list option"
  fini_fn :: 'f
  objectInfos :: "'f object_info list"

definition nullable :: "'f list option \<Rightarrow> 'f list" where
  "nullable a = (case a of None \<Rightarrow> [] | Some fs \<Rightarrow> fs)"

definition init_calls :: "'f image \<Rightarrow> 'f list" where
  "init_calls I = (case preinit_array I of
     Some fs \<Rightarrow> fs @ [init_fn I] @ init_array I
   | None \<Rightarrow> concat (map (\<lambda>objectInfo. nullable (o_preinitArray objectInfo) @
       (case o_init objectInfo of None \<Rightarrow> [] | Some f \<Rightarrow> [f]) @ nullable (o_initArray objectInfo)) (objectInfos I)))"

definition fini_calls :: "'f image \<Rightarrow> 'f list" where
  "fini_calls I = (case fini_array I of
     Some fs \<Rightarrow> fs @ [fini_fn I]
   | None \<Rightarrow> concat (map (\<lambda>objectInfo.
       (case o_fini objectInfo of None \<Rightarrow> [] | Some f \<Rightarrow> [f]) @ nullable (o_finiArray objectInfo)) (objectInfos I)))"

datatype 'f act =
    Effect nat
  | Atexit "'f option"
  | Cxa_Atexit "'f code option" argument addr
  | Cxa_Finalize addr
  | Exit int
  | Exit_Now int
  | Abort

text \<open>
  \<open>p_main\<close> holds the sequences \<open>main\<close> can perform with the values it returns; \<open>p_args_ok\<close> says
  whether \<open>parseargs\<close> succeeds.
\<close>

record 'f program =
  p_image :: "'f image"
  p_body :: "'f \<Rightarrow> 'f act list set"
  p_main :: "('f act list \<times> int) set"
  p_args_ok :: bool

section \<open>Steps\<close>

text \<open>
  The call stack: code of the program, the loop of \<open>__cxa_finalize\<close> at an index, calls of the
  functions of an array, and the rest of \<open>__g_main\<close>, \<open>__g_init_libc\<close>, \<open>__g_fini_libc\<close> and
  \<open>exit\<close>.
\<close>

datatype 'f frame =
    Code "'f act list"
  | Finalize addr nat
  | Calls "'f list"
  | Set_Locale
  | Init_Stdio
  | Main
  | Fini_Stdio
  | G_Exit int

datatype 'f event =
    Did nat
  | Ran nat
  | Called 'f
  | Locale_Set
  | Stdio_Ready
  | Stdio_Finished
  | Logged string
  | Ended int

record 'f process = "'f handlers" +
  stack :: "'f frame list"
  trace :: "'f event list"

definition log_events :: "'f event list \<Rightarrow> 'f process \<Rightarrow> 'f process" where
  "log_events es p = p\<lparr>trace := trace p @ es\<rparr>"

definition mark_called :: "nat \<Rightarrow> 'f process \<Rightarrow> 'f process" where
  "mark_called i p = p\<lparr>g_atexit_entries := (g_atexit_entries p)[i := (g_atexit_entries p ! i)\<lparr>e_called := True\<rparr>]\<rparr>"

text \<open>The calls of \<open>__g_fini_libc\<close> and of \<open>exit\<close>.\<close>

definition fini_libc :: "'f image \<Rightarrow> 'f process \<Rightarrow> 'f frame list" where
  "fini_libc I p = [Finalize 0 (length (g_atexit_entries p)), Calls (fini_calls I), Fini_Stdio]"

definition exit_frames :: "'f image \<Rightarrow> int \<Rightarrow> 'f process \<Rightarrow> 'f frame list" where
  "exit_frames I code p = fini_libc I p @ [G_Exit code]"

definition init_libc :: "'f image \<Rightarrow> 'f frame list" where
  "init_libc I = [Calls (init_calls I), Set_Locale, Init_Stdio]"

text \<open>\<open>__g_main\<close>: the state in which a process starts.\<close>

definition g_main :: "'f program \<Rightarrow> 'f process" where
  "g_main P = \<lparr>g_atexit_entries = [], g_atexit_wrappers = [], stack = init_libc (p_image P) @ [Main], trace = []\<rparr>"

text \<open>The function a handler runs: \<open>g_atexit_thunk\<close> calls the function of its wrapper.\<close>

definition handler_target :: "'f process \<Rightarrow> 'f atexit_entry \<Rightarrow> 'f option" where
  "handler_target p e = (case e_func e of
     User f \<Rightarrow> Some f
   | Thunk \<Rightarrow> (case e_arg e of
       Wrapper i \<Rightarrow> if i < length (g_atexit_wrappers p) then Some (g_atexit_wrappers p ! i) else None
     | Pointer a \<Rightarrow> None))"

definition abort_process :: "'f process \<Rightarrow> 'f process" where [simp]:
  "abort_process p = log_events [Logged ''program aborted'', Ended (- 1)] (p\<lparr>stack := []\<rparr>)"

definition exit_immediately :: "int \<Rightarrow> 'f process \<Rightarrow> 'f process" where [simp]:
  "exit_immediately status p = log_events [Ended status] (p\<lparr>stack := []\<rparr>)"

inductive step :: "'f program \<Rightarrow> 'f process \<Rightarrow> 'f process \<Rightarrow> bool" for P where
  return: "stack p = Code [] # st \<Longrightarrow> step P p (p\<lparr>stack := st\<rparr>)"
| effect: "stack p = Code (Effect e # as) # st \<Longrightarrow> step P p (log_events [Did e] (p\<lparr>stack := Code as # st\<rparr>))"
| atexit: "stack p = Code (Atexit f # as) # st \<Longrightarrow> step P p (snd (atexit f (p\<lparr>stack := Code as # st\<rparr>)))"
| cxa_atexit: "stack p = Code (Cxa_Atexit f arg dso # as) # st \<Longrightarrow>
    step P p (snd (cxa_atexit f arg dso (p\<lparr>stack := Code as # st\<rparr>)))"
| cxa_finalize: "stack p = Code (Cxa_Finalize dso # as) # st \<Longrightarrow>
    step P p (p\<lparr>stack := Finalize dso (length (g_atexit_entries p)) # Code as # st\<rparr>)"
| exit: "stack p = Code (Exit code # as) # st \<Longrightarrow>
    step P p (p\<lparr>stack := exit_frames (p_image P) code p @ Code as # st\<rparr>)"
| exit_now: "stack p = Code (Exit_Now code # as) # st \<Longrightarrow> step P p (exit_immediately code p)"
| abort: "stack p = Code (Abort # as) # st \<Longrightarrow> step P p (abort_process p)"
| finalize_end: "stack p = Finalize dso 0 # st \<Longrightarrow> step P p (p\<lparr>stack := st\<rparr>)"
| finalize_skip: "stack p = Finalize dso (Suc i) # st \<Longrightarrow>
    e_called (g_atexit_entries p ! i) \<or> dso \<noteq> 0 \<and> e_dso (g_atexit_entries p ! i) \<noteq> dso \<Longrightarrow>
    step P p (p\<lparr>stack := Finalize dso i # st\<rparr>)"
| finalize_run: "stack p = Finalize dso (Suc i) # st \<Longrightarrow>
    \<not> (e_called (g_atexit_entries p ! i) \<or> dso \<noteq> 0 \<and> e_dso (g_atexit_entries p ! i) \<noteq> dso) \<Longrightarrow>
    handler_target p (g_atexit_entries p ! i) = Some f \<Longrightarrow> as \<in> p_body P f \<Longrightarrow>
    step P p (log_events [Ran i, Called f] (mark_called i (p\<lparr>stack := Code as # Finalize dso i # st\<rparr>)))"
| finalize_null: "stack p = Finalize dso (Suc i) # st \<Longrightarrow>
    \<not> (e_called (g_atexit_entries p ! i) \<or> dso \<noteq> 0 \<and> e_dso (g_atexit_entries p ! i) \<noteq> dso) \<Longrightarrow>
    handler_target p (g_atexit_entries p ! i) = None \<Longrightarrow>
    step P p (log_events [Ran i] (mark_called i (p\<lparr>stack := Finalize dso i # st\<rparr>)))"
| calls_end: "stack p = Calls [] # st \<Longrightarrow> step P p (p\<lparr>stack := st\<rparr>)"
| call: "stack p = Calls (f # fs) # st \<Longrightarrow> as \<in> p_body P f \<Longrightarrow>
    step P p (log_events [Called f] (p\<lparr>stack := Code as # Calls fs # st\<rparr>))"
| set_locale: "stack p = Set_Locale # st \<Longrightarrow> step P p (log_events [Locale_Set] (p\<lparr>stack := st\<rparr>))"
| init_stdio: "stack p = Init_Stdio # st \<Longrightarrow> step P p (log_events [Stdio_Ready] (p\<lparr>stack := st\<rparr>))"
| main: "stack p = Main # st \<Longrightarrow> p_args_ok P \<Longrightarrow> (as, ret) \<in> p_main P \<Longrightarrow>
    step P p (p\<lparr>stack := Code (as @ [Exit ret]) # st\<rparr>)"
| main_args: "stack p = Main # st \<Longrightarrow> \<not> p_args_ok P \<Longrightarrow>
    step P p (log_events [Logged ''failed to parse command line arguments''] (p\<lparr>stack := Code [Exit (- 1)] # st\<rparr>))"
| fini_stdio: "stack p = Fini_Stdio # st \<Longrightarrow> step P p (log_events [Stdio_Finished] (p\<lparr>stack := st\<rparr>))"
| g_exit: "stack p = G_Exit code # st \<Longrightarrow> step P p (log_events [Ended code] (p\<lparr>stack := []\<rparr>))"

abbreviation steps :: "'f program \<Rightarrow> 'f process \<Rightarrow> 'f process \<Rightarrow> bool" where
  "steps P \<equiv> (step P)\<^sup>*\<^sup>*"

inductive_cases stepE: "step P p q"

text \<open>A process has ended when nothing is left on its stack.\<close>

definition ended :: "'f process \<Rightarrow> bool" where
  "ended p \<longleftrightarrow> stack p = []"

lemma ended_stuck: "ended p \<Longrightarrow> \<not> step P p q"
  by (auto simp: ended_def elim: stepE)

section \<open>The state in a step\<close>

lemma log_events_sel [simp]:
  "stack (log_events es p) = stack p" "g_atexit_entries (log_events es p) = g_atexit_entries p"
  "g_atexit_wrappers (log_events es p) = g_atexit_wrappers p" "trace (log_events es p) = trace p @ es"
  by (simp_all add: log_events_def)

lemma mark_called_sel [simp]:
  "stack (mark_called i p) = stack p" "trace (mark_called i p) = trace p"
  "g_atexit_wrappers (mark_called i p) = g_atexit_wrappers p"
  "length (g_atexit_entries (mark_called i p)) = length (g_atexit_entries p)"
  by (simp_all add: mark_called_def)

lemma mark_called_nth:
  "j < length (g_atexit_entries p) \<Longrightarrow> e_called (g_atexit_entries (mark_called i p) ! j) = (j = i \<or> e_called (g_atexit_entries p ! j))"
  by (cases "i = j") (auto simp: mark_called_def)

text \<open>Registering adds at most one entry at the end and leaves the rest of the process alone.\<close>

lemma cxa_atexit_cases:
  "snd (cxa_atexit f arg dso p) = p \<or> (\<exists>e. \<not> e_called e \<and>
     length (g_atexit_entries p) < G_ATEXIT_MAX \<and>
     snd (cxa_atexit f arg dso p) = p\<lparr>g_atexit_entries := g_atexit_entries p @ [e]\<rparr>)"
  by (cases f) (auto simp: cxa_atexit_def intro!: exI [of _ "\<lparr>e_func = _, e_arg = arg, e_dso = dso, e_called = False\<rparr>"])

lemma atexit_cases:
  "snd (atexit f p) = p \<or> (\<exists>e fs. \<not> e_called e \<and>
     length (g_atexit_entries p) < G_ATEXIT_MAX \<and>
     snd (atexit f p) = p\<lparr>g_atexit_entries := g_atexit_entries p @ [e], g_atexit_wrappers := fs\<rparr>)"
  by (cases f) (auto simp: atexit_def cxa_atexit_def Let_def
    intro!: exI [of _ "\<lparr>e_func = Thunk, e_arg = _, e_dso = 0, e_called = False\<rparr>"])

lemma atexit_stack [simp]: "stack (snd (atexit f p)) = stack p" "trace (snd (atexit f p)) = trace p"
  using atexit_cases [of f p] by auto

lemma cxa_atexit_stack [simp]: "stack (snd (cxa_atexit f a d p)) = stack p" "trace (snd (cxa_atexit f a d p)) = trace p"
  using cxa_atexit_cases [of f a d p] by auto

text \<open>The entries after a step, but for the flag of the one that runs.\<close>

definition is_called :: "'f process \<Rightarrow> nat \<Rightarrow> bool" where
  "is_called p i \<longleftrightarrow> i < length (g_atexit_entries p) \<and> e_called (g_atexit_entries p ! i)"

lemma is_called_cong [simp]: "is_called (p\<lparr>stack := st\<rparr>) = is_called p" "is_called (log_events es p) = is_called p"
  by (auto simp: is_called_def fun_eq_iff)

lemma is_called_mark [simp]:
  "i < length (g_atexit_entries p) \<Longrightarrow> is_called (mark_called i p) j \<longleftrightarrow> j = i \<or> is_called p j"
  by (auto simp: is_called_def mark_called_nth)

lemma is_called_mark_stack [simp]: "is_called (mark_called i (p\<lparr>stack := st\<rparr>)) = is_called (mark_called i p)"
  by (simp add: is_called_def mark_called_def fun_eq_iff)

lemma is_called_atexit [simp]: "is_called (snd (atexit f p)) = is_called p"
  using atexit_cases [of f p] by (auto simp: is_called_def fun_eq_iff nth_append less_Suc_eq split: if_splits)

lemma is_called_cxa_atexit [simp]: "is_called (snd (cxa_atexit f a d p)) = is_called p"
  using cxa_atexit_cases [of f a d p] by (auto simp: is_called_def fun_eq_iff nth_append less_Suc_eq split: if_splits)

lemma length_atexit [simp]:
  "length (g_atexit_entries p) \<le> length (g_atexit_entries (snd (atexit f (p\<lparr>stack := st\<rparr>))))"
  using atexit_cases [of f "p\<lparr>stack := st\<rparr>"] by auto

lemma length_cxa_atexit [simp]:
  "length (g_atexit_entries p) \<le> length (g_atexit_entries (snd (cxa_atexit f a d (p\<lparr>stack := st\<rparr>))))"
  using cxa_atexit_cases [of f a d "p\<lparr>stack := st\<rparr>"] by auto

text \<open>No step removes a handler.\<close>

lemma step_handlers: "step P p q \<Longrightarrow> length (g_atexit_entries p) \<le> length (g_atexit_entries q)"
  by (erule step.cases) simp_all

section \<open>Each handler runs at most once\<close>

fun runs :: "'f event list \<Rightarrow> nat list" where
  "runs [] = []"
| "runs (Ran i # es) = i # runs es"
| "runs (e # es) = runs es"

lemma runs_append [simp]: "runs (es @ fs) = runs es @ runs fs"
  by (induction es rule: runs.induct) auto

lemma set_runs: "i \<in> set (runs es) \<longleftrightarrow> Ran i \<in> set es"
  by (induction es rule: runs.induct) auto

text \<open>
  The loops of \<open>__cxa_finalize\<close> on the stack stay inside the array, the handlers marked are those
  that have run, and none has run twice.
\<close>

definition bounded :: "'f process \<Rightarrow> bool" where
  "bounded p \<longleftrightarrow> (\<forall>dso i. Finalize dso i \<in> set (stack p) \<longrightarrow> i \<le> length (g_atexit_entries p))"

definition once :: "'f process \<Rightarrow> bool" where
  "once p \<longleftrightarrow> bounded p \<and> distinct (runs (trace p)) \<and> (\<forall>i. i \<in> set (runs (trace p)) \<longleftrightarrow> is_called p i)"

lemma bounded_step:
  assumes "step P p q" "bounded p"
  shows "bounded q"
proof -
  have le: "length (g_atexit_entries p) \<le> length (g_atexit_entries q)" using assms(1) by (rule step_handlers)
  have "i \<le> length (g_atexit_entries p)" if "Finalize dso i \<in> set (stack q)" for dso i
    using assms that unfolding bounded_def
    by cases (force simp: exit_frames_def fini_libc_def)+
  then show ?thesis using le unfolding bounded_def by fastforce
qed

lemma once_step: "step P p q \<Longrightarrow> once p \<Longrightarrow> once q"
proof -
  assume s: "step P p q" and p: "once p"
  have b: "bounded q" using bounded_step [OF s] p by (simp add: once_def)
  have "distinct (runs (trace q)) \<and> (\<forall>i. i \<in> set (runs (trace q)) \<longleftrightarrow> is_called q i)"
    using s
  proof cases
    case (finalize_run dso i st f as)
    then have "i < length (g_atexit_entries p)" using p by (force simp: once_def bounded_def)
    then show ?thesis using p finalize_run by (auto simp: once_def is_called_def [of p i])
  next
    case (finalize_null dso i st)
    then have "i < length (g_atexit_entries p)" using p by (force simp: once_def bounded_def)
    then show ?thesis using p finalize_null by (auto simp: once_def is_called_def [of p i])
  qed (use p in \<open>auto simp: once_def\<close>)
  then show ?thesis using b by (simp add: once_def)
qed

lemma once_g_main: "once (g_main P)"
  by (simp add: once_def bounded_def g_main_def init_libc_def is_called_def)

lemma once_steps: "steps P p q \<Longrightarrow> once p \<Longrightarrow> once q"
  by (induction rule: rtranclp_induct) (auto intro: once_step)

section \<open>Exit reaches every handler\<close>

text \<open>
  The streams are finalised after \<open>__cxa_finalize\<close> returned: for every \<open>Fini_Stdio\<close> on the stack,
  the first \<open>n\<close> handlers have run or a loop over all objects above it is still to reach those that
  have not.  \<open>b\<close> says that no handler is missing from where the stack has been read.
\<close>

fun awaits :: "(nat \<Rightarrow> bool) \<Rightarrow> nat \<Rightarrow> bool \<Rightarrow> 'f frame list \<Rightarrow> bool" where
  "awaits C n b [] = True"
| "awaits C n b (Finalize dso k # st) = awaits C n (b \<or> dso = 0 \<and> (\<forall>i. k \<le> i \<and> i < n \<longrightarrow> C i)) st"
| "awaits C n b (Fini_Stdio # st) = (b \<and> awaits C n b st)"
| "awaits C n b (Code as # st) = awaits C n b st"
| "awaits C n b (Calls fs # st) = awaits C n b st"
| "awaits C n b (Set_Locale # st) = awaits C n b st"
| "awaits C n b (Init_Stdio # st) = awaits C n b st"
| "awaits C n b (Main # st) = awaits C n b st"
| "awaits C n b (G_Exit code # st) = awaits C n b st"

lemma awaits_mono:
  "awaits C n b st \<Longrightarrow> (b \<Longrightarrow> b') \<Longrightarrow> (\<And>i. C i \<Longrightarrow> C' i) \<Longrightarrow> awaits C' n b' st"
  by (induction C n b st arbitrary: b' rule: awaits.induct) (fastforce simp del: all_simps)+

lemma awaits_True: "awaits C n True st"
proof (induction st)
  case (Cons f st)
  then show ?case by (cases f) simp_all
qed simp

definition reached :: "nat \<Rightarrow> 'f process \<Rightarrow> bool" where
  "reached n p \<longleftrightarrow> (\<forall>i<n. is_called p i)"

definition exiting :: "nat \<Rightarrow> 'f process \<Rightarrow> bool" where
  "exiting n p \<longleftrightarrow> bounded p \<and> n \<le> length (g_atexit_entries p) \<and> awaits (is_called p) n (reached n p) (stack p) \<and>
     (Stdio_Finished \<in> set (trace p) \<longrightarrow> reached n p)"

lemma reached_cong [simp]:
  "reached n (p\<lparr>stack := st\<rparr>) = reached n p" "reached n (log_events es p) = reached n p"
  "reached n (snd (atexit f p)) = reached n p" "reached n (snd (cxa_atexit g a d p)) = reached n p"
  by (simp_all add: reached_def)

lemma exiting_run:
  assumes "exiting n p" "stack p = Finalize dso (Suc i) # st"
    and "is_called q = is_called (mark_called i p)"
  shows "awaits (is_called q) n (reached n q) (Finalize dso i # st)" "reached n p \<Longrightarrow> reached n q"
proof -
  have i: "i < length (g_atexit_entries p)" using assms(1,2) by (force simp: exiting_def bounded_def)
  have c: "is_called q j \<longleftrightarrow> j = i \<or> is_called p j" for j using i assms(3) by simp
  have "awaits (is_called p) n (reached n p \<or> dso = 0 \<and> (\<forall>j. Suc i \<le> j \<and> j < n \<longrightarrow> is_called p j)) st"
    using assms(1,2) by (simp add: exiting_def)
  then show "awaits (is_called q) n (reached n q) (Finalize dso i # st)"
    by (simp, elim awaits_mono) (auto simp: c reached_def Suc_le_eq dest: le_neq_implies_less)
  show "reached n p \<Longrightarrow> reached n q" by (simp add: reached_def c)
qed

lemma exiting_step:
  assumes s: "step P p q" and p: "exiting n p"
  shows "exiting n q"
proof -
  have b: "bounded q" using bounded_step [OF s] p by (simp add: exiting_def)
  have l: "n \<le> length (g_atexit_entries q)" using step_handlers [OF s] p by (simp add: exiting_def)
  have "awaits (is_called q) n (reached n q) (stack q) \<and> (Stdio_Finished \<in> set (trace q) \<longrightarrow> reached n q)"
    using s
  proof cases
    case (exit code as st)
    have "\<forall>i. length (g_atexit_entries p) \<le> i \<and> i < n \<longrightarrow> is_called p i" using p by (auto simp: exiting_def)
    then have "awaits (is_called p) n (reached n p) (Finalize 0 (length (g_atexit_entries p)) # Calls (fini_calls (p_image P)) # Fini_Stdio # G_Exit code # Code as # st)"
      using p exit by (simp add: exiting_def awaits_True)
    then show ?thesis using p exit by (simp add: exiting_def exit_frames_def fini_libc_def awaits_True)
  next
    case (cxa_finalize dso as st)
    have "awaits (is_called p) n (reached n p) st" using p cxa_finalize by (simp add: exiting_def)
    then show ?thesis using p cxa_finalize by (auto simp: exiting_def elim: awaits_mono)
  next
    case (finalize_end dso st)
    then have "awaits (is_called p) n (reached n p \<or> dso = 0 \<and> reached n p) st"
      using p by (simp add: exiting_def reached_def)
    then show ?thesis using p finalize_end by (auto simp: exiting_def elim: awaits_mono)
  next
    case (finalize_skip dso i st)
    then have a: "awaits (is_called p) n (reached n p \<or> dso = 0 \<and> (\<forall>j. Suc i \<le> j \<and> j < n \<longrightarrow> is_called p j)) st"
      using p by (simp add: exiting_def)
    have "i < length (g_atexit_entries p)" using p finalize_skip by (force simp: exiting_def bounded_def)
    then have "dso = 0 \<Longrightarrow> is_called p i" using finalize_skip by (auto simp: is_called_def)
    then have "awaits (is_called p) n (reached n p) (Finalize dso i # st)"
      using a by (simp, elim awaits_mono) (auto simp: Suc_le_eq dest: le_neq_implies_less)
    then show ?thesis using p finalize_skip by (simp add: exiting_def)
  next
    case (finalize_run dso i st f as)
    then have "is_called q = is_called (mark_called i p)" by simp
    from exiting_run [OF p finalize_run(2) this] show ?thesis using p finalize_run by (auto simp: exiting_def reached_def)
  next
    case (finalize_null dso i st)
    then have "is_called q = is_called (mark_called i p)" by simp
    from exiting_run [OF p finalize_null(2) this] show ?thesis using p finalize_null by (auto simp: exiting_def reached_def)
  qed (use p in \<open>auto simp: exiting_def\<close>)
  then show ?thesis using b l by (simp add: exiting_def)
qed

lemma exiting_steps: "steps P p q \<Longrightarrow> exiting n p \<Longrightarrow> exiting n q"
  by (induction rule: rtranclp_induct) (auto intro: exiting_step)

lemma exit_exiting:
  assumes "bounded p" "stack p = Code (Exit code # as) # st" "Stdio_Finished \<notin> set (trace p)"
  shows "step P p q \<Longrightarrow> exiting (length (g_atexit_entries p)) q"
proof -
  assume s: "step P p q"
  then have q: "q = p\<lparr>stack := exit_frames (p_image P) code p @ Code as # st\<rparr>"
    using assms(2) by cases simp_all
  have "bounded q" using bounded_step [OF s assms(1)] .
  have "\<forall>i. length (g_atexit_entries p) \<le> i \<and> i < length (g_atexit_entries p) \<longrightarrow> is_called p i" by auto
  with \<open>bounded q\<close> show ?thesis
    using assms(3) by (simp add: q exiting_def exit_frames_def fini_libc_def awaits_True)
qed

lemma exit_reaches:
  assumes "bounded p" "stack p = Code (Exit code # as) # st" "Stdio_Finished \<notin> set (trace p)"
    and "steps P p q" "Stdio_Finished \<in> set (trace q)" "i < length (g_atexit_entries p)"
  shows "is_called q i"
  using assms(4)
proof (cases rule: converse_rtranclpE)
  case base
  then show ?thesis using assms by simp
next
  case (step r)
  then have "exiting (length (g_atexit_entries p)) q"
    using exiting_steps exit_exiting [OF assms(1-3)] by blast
  then show ?thesis using assms(5,6) by (simp add: exiting_def reached_def)
qed

section \<open>Handlers registered while the process exits\<close>

text \<open>Functions that do not end the process and do not finalise objects themselves.\<close>

fun plain_act :: "'f act \<Rightarrow> bool" where
  "plain_act (Exit code) = False"
| "plain_act (Cxa_Finalize dso) = False"
| "plain_act a = True"

definition plain :: "'f program \<Rightarrow> bool" where
  "plain P \<longleftrightarrow> (\<forall>f. \<forall>as\<in>p_body P f. list_all plain_act as)"

fun late_frame :: "nat \<Rightarrow> 'f frame \<Rightarrow> bool" where
  "late_frame n (Code as) = list_all plain_act as"
| "late_frame n (Finalize dso k) = (k \<le> n)"
| "late_frame n Main = False"
| "late_frame n f = True"

definition late :: "nat \<Rightarrow> 'f process \<Rightarrow> bool" where
  "late n p \<longleftrightarrow> list_all (late_frame n) (stack p) \<and> (\<forall>i. Ran i \<in> set (trace p) \<longrightarrow> i < n)"

lemma late_step: "step P p q \<Longrightarrow> plain P \<Longrightarrow> late n p \<Longrightarrow> late n q"
  by (erule step.cases) (auto simp: late_def plain_def)

lemma late_steps: "steps P p q \<Longrightarrow> plain P \<Longrightarrow> late n p \<Longrightarrow> late n q"
  by (induction rule: rtranclp_induct) (auto intro: late_step)

section \<open>A whole life\<close>

text \<open>
  Programs whose functions have one fixed effect each and whose \<open>main\<close> registers handlers and
  returns: the steps are determined, and the run can be given.
\<close>

definition call_events :: "('f \<Rightarrow> nat list) \<Rightarrow> 'f \<Rightarrow> 'f event list" where
  "call_events eff f = Called f # map Did (eff f)"

definition simple_program :: "('f \<Rightarrow> nat list) \<Rightarrow> 'f list \<Rightarrow> nat list \<Rightarrow> int \<Rightarrow> 'f image \<Rightarrow> 'f program" where
  "simple_program eff hs es ret I = \<lparr>p_image = I, p_body = (\<lambda>f. {map Effect (eff f)}),
     p_main = {(map (\<lambda>f. Atexit (Some f)) hs @ map Effect es, ret)}, p_args_ok = True\<rparr>"

lemma simple_program_sel [simp]:
  "p_image (simple_program eff hs es ret I) = I" "p_body (simple_program eff hs es ret I) f = {map Effect (eff f)}"
  "p_main (simple_program eff hs es ret I) = {(map (\<lambda>f. Atexit (Some f)) hs @ map Effect es, ret)}"
  "p_args_ok (simple_program eff hs es ret I)"
  by (simp_all add: simple_program_def)

lemma simple_step_unique:
  assumes "step (simple_program eff hs es ret I) p q" "step (simple_program eff hs es ret I) p q'"
  shows "q = q'"
  using assms by (elim stepE) auto

lemma log_events_nil [simp]: "log_events [] p = p" and log_events_twice [simp]: "log_events es (log_events fs p) = log_events (fs @ es) p"
  by (simp_all add: log_events_def)

lemma log_events_upd [simp]: "(log_events es p)\<lparr>stack := st\<rparr> = log_events es (p\<lparr>stack := st\<rparr>)"
  "(log_events es p)\<lparr>g_atexit_entries := xs\<rparr> = log_events es (p\<lparr>g_atexit_entries := xs\<rparr>)"
  by (simp_all add: log_events_def)

lemma run_effects:
  "stack p = Code (map Effect es @ as) # st \<Longrightarrow> steps P p (log_events (map Did es) (p\<lparr>stack := Code as # st\<rparr>))"
proof (induction es arbitrary: p)
  case Nil
  then have "p\<lparr>stack := Code as # st\<rparr> = p" by simp
  then show ?case by simp
next
  case (Cons e es)
  let ?q = "log_events [Did e] (p\<lparr>stack := Code (map Effect es @ as) # st\<rparr>)"
  have "step P p ?q" using Cons.prems by (intro step.effect) simp
  also have "steps P ?q (log_events (map Did es) (?q\<lparr>stack := Code as # st\<rparr>))" by (rule Cons.IH) simp
  finally show ?case by simp
qed

lemma run_body:
  assumes "stack p = Code (map Effect es) # st"
  shows "steps P p (log_events (map Did es) (p\<lparr>stack := st\<rparr>))"
proof -
  have "steps P p (log_events (map Did es) (p\<lparr>stack := Code [] # st\<rparr>))" using assms by (intro run_effects) simp
  also have "step P \<dots> (log_events (map Did es) (p\<lparr>stack := st\<rparr>))"
    using step.return [of "log_events (map Did es) (p\<lparr>stack := Code [] # st\<rparr>)" st P] by simp
  finally show ?thesis .
qed

lemma run_calls:
  assumes "stack p = Calls fs # st" "\<forall>f. p_body P f = {map Effect (eff f)}"
  shows "steps P p (log_events (concat (map (call_events eff) fs)) (p\<lparr>stack := st\<rparr>))"
  using assms(1)
proof (induction fs arbitrary: p)
  case Nil
  then show ?case by (auto intro: step.calls_end)
next
  case (Cons f fs)
  let ?q = "log_events [Called f] (p\<lparr>stack := Code (map Effect (eff f)) # Calls fs # st\<rparr>)"
  have "step P p ?q" using Cons.prems assms(2) by (intro step.call) simp_all
  also have "steps P ?q (log_events (map Did (eff f)) (?q\<lparr>stack := Calls fs # st\<rparr>))" by (rule run_body) simp
  also have "steps P \<dots> (log_events (concat (map (call_events eff) fs)) ((log_events (map Did (eff f)) (?q\<lparr>stack := Calls fs # st\<rparr>))\<lparr>stack := st\<rparr>))"
    by (rule Cons.IH) simp
  finally show ?case by (simp add: call_events_def [of eff f])
qed

definition thunk_entry :: "nat \<Rightarrow> 'f atexit_entry" where
  "thunk_entry i = \<lparr>e_func = Thunk, e_arg = Wrapper i, e_dso = 0, e_called = False\<rparr>"

text \<open>A state in which every handler was registered by \<open>atexit\<close>.\<close>

definition registered :: "'f list \<Rightarrow> 'f process \<Rightarrow> bool" where
  "registered hs p \<longleftrightarrow> g_atexit_wrappers p = hs \<and> g_atexit_entries p = map thunk_entry [0..<length hs]"

lemma atexit_registered:
  assumes "registered hs p" "length hs < G_ATEXIT_MAX"
  shows "registered (hs @ [h]) (snd (atexit (Some h) p))"
  using assms by (simp add: registered_def atexit_def cxa_atexit_def thunk_entry_def)

lemma atexit_upd: "snd (atexit f (p\<lparr>stack := st\<rparr>)) = (snd (atexit f p))\<lparr>stack := st\<rparr>"
  by (cases f) (simp_all add: atexit_def cxa_atexit_def)

lemma run_atexits:
  assumes "stack p = Code (map (\<lambda>f. Atexit (Some f)) gs @ as) # st"
    "registered hs p" "length hs + length gs \<le> G_ATEXIT_MAX"
  shows "\<exists>q. steps P p q \<and> stack q = Code as # st \<and> trace q = trace p \<and> registered (hs @ gs) q"
  using assms
proof (induction gs arbitrary: p hs)
  case (Cons g gs)
  let ?q = "snd (atexit (Some g) (p\<lparr>stack := Code (map (\<lambda>f. Atexit (Some f)) gs @ as) # st\<rparr>))"
  have "step P p ?q" using Cons.prems(1) by (intro step.atexit) simp
  moreover have "registered (hs @ [g]) ?q"
    using Cons.prems(2,3) by (intro atexit_registered) (simp_all add: registered_def)
  then have "\<exists>q. steps P ?q q \<and> stack q = Code as # st \<and> trace q = trace ?q \<and> registered ((hs @ [g]) @ gs) q"
    using Cons.prems(3) by (intro Cons.IH) simp_all
  ultimately show ?case by (auto intro: converse_rtranclp_into_rtranclp)
qed auto

lemma run_finalize:
  assumes "stack p = Finalize 0 j # st" "j \<le> length hs" "g_atexit_wrappers p = hs"
    "length (g_atexit_entries p) = length hs" "\<forall>i<j. g_atexit_entries p ! i = thunk_entry i"
    and P: "\<forall>f. p_body P f = {map Effect (eff f)}"
  shows "\<exists>q. steps P p q \<and> stack q = st \<and>
    trace q = trace p @ concat (map (\<lambda>i. Ran i # call_events eff (hs ! i)) (rev [0..<j]))"
  using assms(1-5)
proof (induction j arbitrary: p)
  case 0
  then have "step P p (p\<lparr>stack := st\<rparr>)" by (auto intro: step.finalize_end)
  then show ?case by (intro exI [of _ "p\<lparr>stack := st\<rparr>"]) auto
next
  case (Suc j)
  have e: "g_atexit_entries p ! j = thunk_entry j" using Suc.prems by simp
  let ?as = "map Effect (eff (hs ! j))"
  let ?q = "log_events [Ran j, Called (hs ! j)] (mark_called j (p\<lparr>stack := Code ?as # Finalize 0 j # st\<rparr>))"
  let ?r = "log_events (map Did (eff (hs ! j))) (?q\<lparr>stack := Finalize 0 j # st\<rparr>)"
  have "handler_target p (g_atexit_entries p ! j) = Some (hs ! j)"
    using Suc.prems e by (simp add: handler_target_def thunk_entry_def)
  then have "step P p ?q" using Suc.prems e P by (intro step.finalize_run) (simp_all add: thunk_entry_def)
  also have "steps P ?q ?r" by (rule run_body) simp
  finally have r: "steps P p ?r" .
  have "\<exists>q. steps P ?r q \<and> stack q = st \<and>
    trace q = trace ?r @ concat (map (\<lambda>i. Ran i # call_events eff (hs ! i)) (rev [0..<j]))"
    using Suc.prems by (intro Suc.IH) (simp_all add: mark_called_def)
  then obtain q where q: "steps P ?r q" "stack q = st"
    "trace q = trace ?r @ concat (map (\<lambda>i. Ran i # call_events eff (hs ! i)) (rev [0..<j]))"
    by blast
  have "steps P p q" using r q(1) by (rule rtranclp_trans)
  then show ?case using q(2,3) by (intro exI [of _ q]) (simp add: call_events_def [of eff "hs ! j"])
qed

lemma run_exit:
  assumes "stack p = Code (Exit ret # as) # st" "registered hs p" "\<forall>f. p_body P f = {map Effect (eff f)}"
  shows "\<exists>q. steps P p q \<and> ended q \<and>
    trace q = trace p @ concat (map (\<lambda>i. Ran i # call_events eff (hs ! i)) (rev [0..<length hs])) @
      concat (map (call_events eff) (fini_calls (p_image P))) @ [Stdio_Finished, Ended ret]"
proof -
  let ?st = "Calls (fini_calls (p_image P)) # Fini_Stdio # G_Exit ret # Code as # st"
  let ?q0 = "p\<lparr>stack := Finalize 0 (length hs) # ?st\<rparr>"
  have "step P p ?q0"
    using step.exit [OF assms(1), of P] assms(2) by (simp add: exit_frames_def fini_libc_def registered_def)
  moreover have "\<exists>q. steps P ?q0 q \<and> stack q = ?st \<and>
    trace q = trace ?q0 @ concat (map (\<lambda>i. Ran i # call_events eff (hs ! i)) (rev [0..<length hs]))"
    using assms(2,3) by (intro run_finalize) (simp_all add: registered_def)
  ultimately obtain q where q: "steps P p q" "stack q = ?st"
    "trace q = trace p @ concat (map (\<lambda>i. Ran i # call_events eff (hs ! i)) (rev [0..<length hs]))"
    by (auto intro: converse_rtranclp_into_rtranclp)
  let ?fs = "concat (map (call_events eff) (fini_calls (p_image P)))"
  let ?r = "log_events ?fs (q\<lparr>stack := Fini_Stdio # G_Exit ret # Code as # st\<rparr>)"
  let ?s = "log_events [Stdio_Finished] (?r\<lparr>stack := G_Exit ret # Code as # st\<rparr>)"
  have "steps P q ?r" using q(2) assms(3) by (rule run_calls)
  also have "step P ?r ?s" by (intro step.fini_stdio) simp
  also have "step P ?s (log_events [Ended ret] (?s\<lparr>stack := []\<rparr>))" by (rule step.g_exit) simp
  finally have "steps P p (log_events [Ended ret] (?s\<lparr>stack := []\<rparr>))" using q(1) by simp
  then show ?thesis
    by (intro exI [of _ "log_events [Ended ret] (?s\<lparr>stack := []\<rparr>)"]) (simp add: q(3) ended_def)
qed

lemma run_init:
  assumes "\<forall>f. p_body P f = {map Effect (eff f)}"
  shows "steps P (g_main P) (log_events (concat (map (call_events eff) (init_calls (p_image P))) @ [Locale_Set, Stdio_Ready])
    ((g_main P)\<lparr>stack := [Main]\<rparr>))"
proof -
  let ?is = "concat (map (call_events eff) (init_calls (p_image P)))"
  let ?q = "log_events ?is ((g_main P)\<lparr>stack := [Set_Locale, Init_Stdio, Main]\<rparr>)"
  let ?r = "log_events [Locale_Set] (?q\<lparr>stack := [Init_Stdio, Main]\<rparr>)"
  have "steps P (g_main P) ?q" using assms by (intro run_calls) (simp_all add: g_main_def init_libc_def)
  also have "step P ?q ?r" by (intro step.set_locale) simp
  also have "step P ?r (log_events [Stdio_Ready] (?r\<lparr>stack := [Main]\<rparr>))" by (intro step.init_stdio) simp
  finally show ?thesis by simp
qed

definition life_trace :: "('f \<Rightarrow> nat list) \<Rightarrow> 'f list \<Rightarrow> nat list \<Rightarrow> int \<Rightarrow> 'f image \<Rightarrow> 'f event list" where
  "life_trace eff hs es ret I =
     concat (map (call_events eff) (init_calls I)) @ [Locale_Set, Stdio_Ready] @ map Did es @
     concat (map (\<lambda>i. Ran i # call_events eff (hs ! i)) (rev [0..<length hs])) @
     concat (map (call_events eff) (fini_calls I)) @ [Stdio_Finished, Ended ret]"

text \<open>The state in which \<open>main\<close> has registered its handlers and calls \<open>exit\<close>.\<close>

lemma simple_run_main:
  assumes "length hs \<le> G_ATEXIT_MAX"
  shows "\<exists>p. steps (simple_program eff hs es ret I) (g_main (simple_program eff hs es ret I)) p \<and>
    stack p = [Code [Exit ret]] \<and> registered hs p \<and>
    trace p = concat (map (call_events eff) (init_calls I)) @ [Locale_Set, Stdio_Ready] @ map Did es"
proof -
  let ?P = "simple_program eff hs es ret I"
  let ?t = "concat (map (call_events eff) (init_calls I)) @ [Locale_Set, Stdio_Ready]"
  let ?m = "log_events ?t ((g_main ?P)\<lparr>stack := [Main]\<rparr>)"
  let ?c = "map (\<lambda>f. Atexit (Some f)) hs @ map Effect es @ [Exit ret]"
  have "steps ?P (g_main ?P) ?m" using run_init [of ?P eff] by simp
  also have "step ?P ?m (?m\<lparr>stack := [Code ?c]\<rparr>)"
    using step.main [of ?m "[]" ?P "map (\<lambda>f. Atexit (Some f)) hs @ map Effect es" ret] by simp
  finally have 1: "steps ?P (g_main ?P) (?m\<lparr>stack := [Code ?c]\<rparr>)" .
  have "registered [] (?m\<lparr>stack := [Code ?c]\<rparr>)" by (simp add: registered_def g_main_def)
  then obtain q where q: "steps ?P (?m\<lparr>stack := [Code ?c]\<rparr>) q" "stack q = [Code (map Effect es @ [Exit ret])]"
    "trace q = ?t" "registered hs q"
    using run_atexits [of "?m\<lparr>stack := [Code ?c]\<rparr>" hs "map Effect es @ [Exit ret]" "[]" "[]" ?P] assms
    by (auto simp: g_main_def)
  let ?r = "log_events (map Did es) (q\<lparr>stack := [Code [Exit ret]]\<rparr>)"
  have "steps ?P q ?r" using q(2) by (rule run_effects)
  then have "steps ?P (g_main ?P) ?r" using 1 q(1) by simp
  then show ?thesis using q(3,4) by (intro exI [of _ ?r]) (simp add: registered_def)
qed

lemma simple_run:
  assumes "length hs \<le> G_ATEXIT_MAX"
  shows "\<exists>q. steps (simple_program eff hs es ret I) (g_main (simple_program eff hs es ret I)) q \<and> ended q \<and>
    trace q = life_trace eff hs es ret I"
proof -
  let ?P = "simple_program eff hs es ret I"
  obtain p where p: "steps ?P (g_main ?P) p" "stack p = [Code [Exit ret]]" "registered hs p"
    "trace p = concat (map (call_events eff) (init_calls I)) @ [Locale_Set, Stdio_Ready] @ map Did es"
    using simple_run_main [OF assms] by blast
  then obtain q where q: "steps ?P p q" "ended q"
    "trace q = trace p @ concat (map (\<lambda>i. Ran i # call_events eff (hs ! i)) (rev [0..<length hs])) @
      concat (map (call_events eff) (fini_calls I)) @ [Stdio_Finished, Ended ret]"
    using run_exit [of p ret "[]" "[]" hs ?P eff] by auto
  have "steps ?P (g_main ?P) q" using p(1) q(1) by (rule rtranclp_trans)
  then show ?thesis using q(2,3) p(4) by (intro exI [of _ q]) (simp add: life_trace_def)
qed

text \<open>A deterministic step relation has one end.\<close>

lemma simple_end_unique:
  assumes "steps (simple_program eff hs es ret I) p q" "steps (simple_program eff hs es ret I) p q'" "ended q" "ended q'"
  shows "q = q'"
  using assms
proof (induction rule: converse_rtranclp_induct)
  case base
  then show ?case by (metis converse_rtranclpE ended_stuck)
next
  case (step p r)
  from step.prems(1) show ?case
  proof (cases rule: converse_rtranclpE)
    case base
    then show ?thesis using step ended_stuck by metis
  next
    case (step r')
    then show ?thesis using step.IH \<open>step _ p r\<close> simple_step_unique assms(3,4) by metis
  qed
qed

section \<open>A handler that registers a handler\<close>

text \<open>Steps of explicit states, by the frame on top of the stack.\<close>

inductive_simps step_explicit [simp]:
  "step P \<lparr>g_atexit_entries = es, g_atexit_wrappers = ws, stack = Code as # st, trace = t\<rparr> q"
  "step P \<lparr>g_atexit_entries = es, g_atexit_wrappers = ws, stack = Finalize dso i # st, trace = t\<rparr> q"
  "step P \<lparr>g_atexit_entries = es, g_atexit_wrappers = ws, stack = Calls fs # st, trace = t\<rparr> q"
  "step P \<lparr>g_atexit_entries = es, g_atexit_wrappers = ws, stack = Set_Locale # st, trace = t\<rparr> q"
  "step P \<lparr>g_atexit_entries = es, g_atexit_wrappers = ws, stack = Init_Stdio # st, trace = t\<rparr> q"
  "step P \<lparr>g_atexit_entries = es, g_atexit_wrappers = ws, stack = Main # st, trace = t\<rparr> q"
  "step P \<lparr>g_atexit_entries = es, g_atexit_wrappers = ws, stack = Fini_Stdio # st, trace = t\<rparr> q"
  "step P \<lparr>g_atexit_entries = es, g_atexit_wrappers = ws, stack = G_Exit c # st, trace = t\<rparr> q"

definition late_program :: "nat program" where
  "late_program = \<lparr>p_image = \<lparr>preinit_array = None, init_fn = 8, init_array = [], fini_array = None, fini_fn = 9, objectInfos = []\<rparr>,
     p_body = (\<lambda>f. {if f = 0 then [Atexit (Some 1)] else []}), p_main = {([Atexit (Some 0)], 0)}, p_args_ok = True\<rparr>"

definition proc_state :: "nat atexit_entry list \<Rightarrow> nat list \<Rightarrow> nat frame list \<Rightarrow> nat event list \<Rightarrow> nat process" where
  "proc_state es ws st t = \<lparr>g_atexit_entries = es, g_atexit_wrappers = ws, stack = st, trace = t\<rparr>"

lemma late_program_main: "steps late_program (g_main late_program)
  (proc_state [thunk_entry 0] [0] [Code [Exit 0]] [Locale_Set, Stdio_Ready])"
proof -
  let ?P = late_program
  have "steps ?P (g_main ?P) (proc_state [] [] [Calls [], Set_Locale, Init_Stdio, Main] [])"
    by (simp add: g_main_def init_libc_def init_calls_def late_program_def proc_state_def)
  also have "step ?P \<dots> (proc_state [] [] [Set_Locale, Init_Stdio, Main] [])" by (simp add: proc_state_def)
  also have "step ?P \<dots> (proc_state [] [] [Init_Stdio, Main] [Locale_Set])" by (simp add: proc_state_def log_events_def)
  also have "step ?P \<dots> (proc_state [] [] [Main] [Locale_Set, Stdio_Ready])" by (simp add: proc_state_def log_events_def)
  also have "step ?P \<dots> (proc_state [] [] [Code [Atexit (Some 0), Exit 0]] [Locale_Set, Stdio_Ready])"
    by (simp add: proc_state_def late_program_def)
  also have "step ?P \<dots> (proc_state [thunk_entry 0] [0] [Code [Exit 0]] [Locale_Set, Stdio_Ready])"
    by (simp add: proc_state_def atexit_def cxa_atexit_def thunk_entry_def)
  finally show ?thesis by simp
qed

lemma late_program_exit: "steps late_program (proc_state [thunk_entry 0] [0] [Code [Exit 0]] t)
  (proc_state [(thunk_entry 0)\<lparr>e_called := True\<rparr>, thunk_entry 1] [0, 1] [] (t @ [Ran 0, Called 0, Stdio_Finished, Ended 0]))"
proof -
  let ?P = late_program and ?F = "[Calls [], Fini_Stdio, G_Exit 0, Code []]" and ?e = "(thunk_entry 0)\<lparr>e_called := True\<rparr>"
  have "steps ?P (proc_state [thunk_entry 0] [0] [Code [Exit 0]] t) (proc_state [thunk_entry 0] [0] (Finalize 0 1 # ?F) t)"
    by (intro r_into_rtranclp) (simp add: proc_state_def exit_frames_def fini_libc_def fini_calls_def late_program_def)
  also have "step ?P \<dots> (proc_state [?e] [0] (Code [Atexit (Some 1)] # Finalize 0 0 # ?F) (t @ [Ran 0, Called 0]))"
    by (simp add: proc_state_def late_program_def log_events_def mark_called_def handler_target_def thunk_entry_def)
  also have "step ?P \<dots> (proc_state [?e, thunk_entry 1] [0, 1] (Code [] # Finalize 0 0 # ?F) (t @ [Ran 0, Called 0]))"
    by (simp add: proc_state_def atexit_def cxa_atexit_def thunk_entry_def)
  also have "step ?P \<dots> (proc_state [?e, thunk_entry 1] [0, 1] (Finalize 0 0 # ?F) (t @ [Ran 0, Called 0]))"
    by (simp add: proc_state_def)
  also have "step ?P \<dots> (proc_state [?e, thunk_entry 1] [0, 1] ?F (t @ [Ran 0, Called 0]))" by (simp add: proc_state_def)
  also have "step ?P \<dots> (proc_state [?e, thunk_entry 1] [0, 1] [Fini_Stdio, G_Exit 0, Code []] (t @ [Ran 0, Called 0]))"
    by (simp add: proc_state_def)
  also have "step ?P \<dots> (proc_state [?e, thunk_entry 1] [0, 1] [G_Exit 0, Code []] (t @ [Ran 0, Called 0, Stdio_Finished]))"
    by (simp add: proc_state_def log_events_def)
  also have "step ?P \<dots> (proc_state [?e, thunk_entry 1] [0, 1] [] (t @ [Ran 0, Called 0, Stdio_Finished, Ended 0]))"
    by (simp add: proc_state_def log_events_def)
  finally show ?thesis by simp
qed

section \<open>Properties\<close>

text \<open>
  C7. In every run of every program, whatever its functions do (register handlers, call \<open>exit\<close>
  again, finalise objects): once \<open>exit\<close> was called, and if the streams are finalised before the
  process ends, every handler registered when it was called has run exactly once, and no handler
  at all has run twice.
\<close>

theorem exit_runs_every_handler:
  assumes "steps P (g_main P) p" "stack p = Code (Exit code # as) # st" "Stdio_Finished \<notin> set (trace p)"
    and "steps P p q" "Stdio_Finished \<in> set (trace q)"
  shows "(\<forall>i<length (g_atexit_entries p). count_list (trace q) (Ran i) = 1) \<and>
    (\<forall>i. count_list (trace q) (Ran i) \<le> 1)"
proof -
  have p: "once p" using assms(1) once_g_main by (rule once_steps)
  then have q: "once q" using assms(4) once_steps by blast
  have "count_list es (Ran i) = count_list (runs es) i" for es :: "'a event list" and i
    by (induction es rule: runs.induct) auto
  moreover have "count_list xs x = (if x \<in> set xs then 1 else 0)" if "distinct xs" for xs :: "nat list" and x
    using that by (induction xs) auto
  moreover have "is_called q i" if "i < length (g_atexit_entries p)" for i
    using exit_reaches [OF _ assms(2-5) that] p by (simp add: once_def)
  ultimately show ?thesis using q by (simp add: once_def)
qed

theorem exit_runs_every_handler_witness:
  "\<exists>p q. steps (simple_program (\<lambda>f. [f]) [5, 6] [] 3 (p_image late_program)) (g_main (simple_program (\<lambda>f. [f]) [5, 6] [] 3 (p_image late_program))) p \<and>
    stack p = [Code [Exit 3]] \<and>
    steps (simple_program (\<lambda>f. [f]) [5, 6] [] 3 (p_image late_program)) p q \<and>
    (\<forall>i<2. count_list (trace q) (Ran i) = 1)"
proof -
  let ?P = "simple_program (\<lambda>f. [f]) [5, 6] [] 3 (p_image late_program) :: nat program"
  obtain p where p: "steps ?P (g_main ?P) p" "stack p = [Code [Exit 3]]" "registered [5, 6] p" "trace p = [Locale_Set, Stdio_Ready]"
    using simple_run_main [of "[5, 6]" "\<lambda>f. [f]" "[]" 3 "p_image late_program"]
    by (auto simp: init_calls_def late_program_def)
  obtain q where q: "steps ?P p q" "Stdio_Finished \<in> set (trace q)"
    using run_exit [of p 3 "[]" "[]" "[5, 6]" ?P "\<lambda>f. [f]"] p by auto
  have "length (g_atexit_entries p) = 2" using p(3) by (simp add: registered_def)
  then show ?thesis
    using exit_runs_every_handler [OF p(1,2) _ q] p(1,2,4) q by (intro exI [of _ p] exI [of _ q]) simp
qed

text \<open>
  C25. The life of a program that registers handlers in \<open>main\<close> and returns: it ends, in one way
  only, and in this order it runs the initialisation functions, sets the locale, opens the standard
  streams, runs \<open>main\<close>, runs the handlers in the reverse order of their registration, runs the
  finalisation functions, finalises the streams and leaves with the value of \<open>main\<close>.
\<close>

theorem process_life:
  assumes "length hs \<le> G_ATEXIT_MAX"
  shows "(\<exists>q. steps (simple_program eff hs es ret I) (g_main (simple_program eff hs es ret I)) q \<and> ended q) \<and>
    (\<forall>q. steps (simple_program eff hs es ret I) (g_main (simple_program eff hs es ret I)) q \<and> ended q \<longrightarrow>
      trace q = life_trace eff hs es ret I)"
  using simple_run [OF assms] simple_end_unique by metis

theorem process_life_witness:
  "\<exists>q. steps (simple_program (\<lambda>f. [f]) [5, 6] [] 3 (p_image late_program)) (g_main (simple_program (\<lambda>f. [f]) [5, 6] [] 3 (p_image late_program))) q \<and>
     ended q \<and> trace q = [Locale_Set, Stdio_Ready, Ran 1, Called 6, Did 6, Ran 0, Called 5, Did 5, Stdio_Finished, Ended 3]"
  using process_life [of "[5, 6]" "\<lambda>f. [f]" "[]" 3 "p_image late_program"]
  by (auto simp: life_trace_def init_calls_def fini_calls_def late_program_def call_events_def)

text \<open>
  A handler registered while the handlers run is lost: when \<open>main\<close> returns and no function
  calls \<open>exit\<close> or \<open>__cxa_finalize\<close> itself, no handler beyond those registered at that moment ever
  runs, although \<open>atexit\<close> reports success.
\<close>

theorem late_handler_lost:
  assumes "steps P (g_main P) p" "stack p = [Code [Exit ret]]" "plain P" "steps P p q"
    and "length (g_atexit_entries p) \<le> i"
  shows "Ran i \<notin> set (trace q)"
proof -
  have once: "once p" using assms(1) once_g_main by (rule once_steps)
  have r: "\<forall>i. Ran i \<in> set (trace p) \<longrightarrow> i < length (g_atexit_entries p)"
    using once by (simp add: once_def is_called_def flip: set_runs)
  from assms(4) show ?thesis
  proof (cases rule: converse_rtranclpE)
    case base
    then show ?thesis using r assms(5) by fastforce
  next
    case (step s)
    then have "s = p\<lparr>stack := exit_frames (p_image P) ret p @ [Code []]\<rparr>"
      using assms(2) by cases simp_all
    then have "late (length (g_atexit_entries p)) s"
      using r by (simp add: late_def exit_frames_def fini_libc_def)
    then show ?thesis using late_steps [OF step(2) assms(3)] assms(5) by (fastforce simp: late_def)
  qed
qed

theorem late_handler_lost_witness:
  "\<exists>p q. steps late_program (g_main late_program) p \<and> steps late_program p q \<and> ended q \<and>
    length (g_atexit_entries q) = 2 \<and> Ran 1 \<notin> set (trace q)"
proof -
  let ?p = "proc_state [thunk_entry 0] [0] [Code [Exit 0]] [Locale_Set, Stdio_Ready]"
  let ?q = "proc_state [(thunk_entry 0)\<lparr>e_called := True\<rparr>, thunk_entry 1] [0, 1] [] ([Locale_Set, Stdio_Ready] @ [Ran 0, Called 0, Stdio_Finished, Ended 0])"
  have p: "steps late_program (g_main late_program) ?p" by (rule late_program_main)
  have q: "steps late_program ?p ?q" by (rule late_program_exit)
  have "plain late_program" by (simp add: plain_def late_program_def)
  then have "Ran 1 \<notin> set (trace ?q)"
    by (intro late_handler_lost [OF p _ _ q, where ret = 0]) (simp_all add: proc_state_def)
  then show ?thesis using p q by (intro exI [of _ ?p] exI [of _ ?q]) (simp add: proc_state_def ended_def)
qed

end
