(* ===== verification/Args.thy ===== *)
theory Args
  imports Libgen Env
begin

text \<open>
  The arguments of \<open>main\<close>: \<open>parseargs\<close> and \<open>get_executable_name\<close> of
  \<open>libc/src/stdlib/parseargs.c\<close>.  The command line arrives as one string whose arguments are
  separated by the unit separator; it is split and unquoted in place.
\<close>

section \<open>Operations\<close>

abbreviation (input) G_PATH_MAX :: nat where "G_PATH_MAX \<equiv> 4096"
abbreviation (input) G_CLIARGS_BUFFER_LENGTH :: nat where "G_CLIARGS_BUFFER_LENGTH \<equiv> 1024"
abbreviation G_CLIARGS_SEPARATOR :: byte where "G_CLIARGS_SEPARATOR \<equiv> 31"

text \<open>
  The two system calls write a string to a buffer: \<open>cli_args\<close> is \<open>g_cli_args_release\<close> and
  \<open>exec_path\<close> is \<open>g_get_executable_path\<close>; \<open>None\<close> is a fault.
\<close>

type_synonym fill = "addr \<Rightarrow> mem \<Rightarrow> mem option"

definition get_executable_name ::
  "allocator \<Rightarrow> deallocator \<Rightarrow> fill \<Rightarrow> addr \<Rightarrow> mem \<Rightarrow> (addr \<times> mem) option" where
  "get_executable_name malloc free exec_path statbuf m = do {
     let (absoluteExecPath, m) = malloc G_PATH_MAX m;
     m \<leftarrow> exec_path absoluteExecPath m;
     (execBaseName, m) \<leftarrow> basename m statbuf absoluteExecPath;
     len \<leftarrow> strlen m execBaseName;
     (execName, m) \<leftarrow>
       (if len < G_PATH_MAX then do {
          let (execName, m) = malloc (len + 1) m;
          (_, m) \<leftarrow> strcpy m execName execBaseName;
          Some (execName, m)
        } else Some (NULL, m));
     Some (execName, free absoluteExecPath m)
   }"

text \<open>Counting: one pass of the inner loop reads up to and including the separator.\<close>

partial_function (option) skip_unit :: "mem \<Rightarrow> addr \<Rightarrow> addr option" where
  "skip_unit m pos = do {
     c \<leftarrow> m pos;
     if c = 0 then Some pos
     else if c = G_CLIARGS_SEPARATOR then Some (pos + 1)
     else skip_unit m (pos + 1)
   }"

partial_function (option) count_args :: "mem \<Rightarrow> addr \<Rightarrow> nat \<Rightarrow> nat option" where
  "count_args m pos argc = do {
     c \<leftarrow> m pos;
     if c \<noteq> 0 then do { pos \<leftarrow> skip_unit m pos; count_args m pos (argc + 1) }
     else Some argc
   }"

partial_function (option) find_unit_end :: "mem \<Rightarrow> addr \<Rightarrow> addr option" where
  "find_unit_end m pos = do {
     c \<leftarrow> m pos;
     if c = 0 then Some pos
     else if c = G_CLIARGS_SEPARATOR then Some pos
     else find_unit_end m (pos + 1)
   }"

text \<open>
  Splitting.  \<open>argv\<close> are the entries of the array written so far and \<open>slots\<close> is its size: a write
  behind it is a fault.
\<close>

definition put_arg :: "nat \<Rightarrow> addr list \<Rightarrow> addr \<Rightarrow> addr list option" where
  "put_arg slots argv p = (if length argv < slots then Some (argv @ [p]) else None)"

partial_function (option) split_args :: "nat \<Rightarrow> mem \<Rightarrow> addr \<Rightarrow> addr list \<Rightarrow> (addr list \<times> mem) option" where
  "split_args slots m pos argv = do {
     c \<leftarrow> m pos;
     if c \<noteq> 0 then do {
       argv \<leftarrow> put_arg slots argv pos;
       pos \<leftarrow> find_unit_end m pos;
       c \<leftarrow> m pos;
       if c = 0 then Some (argv, m)
       else do { m \<leftarrow> wr m pos 0; split_args slots m (pos + 1) argv }
     }
     else Some (argv, m)
   }"

function shift_left :: "mem \<Rightarrow> addr \<Rightarrow> nat \<Rightarrow> nat \<Rightarrow> mem option" where
  "shift_left m arg x arglen =
     (if x < arglen then do {
        c \<leftarrow> m (arg + (x + 1));
        m \<leftarrow> wr m (arg + x) c;
        shift_left m arg (x + 1) arglen
      } else Some m)"
  by pat_completeness auto
termination
  by (relation "measure (\<lambda>(m, a, x, n). n - x)") auto

text \<open>The cleaning loop; after a removal the same position is read again.\<close>

function clean_arg :: "mem \<Rightarrow> addr \<Rightarrow> nat \<Rightarrow> nat \<Rightarrow> bool \<Rightarrow> mem option" where
  "clean_arg m arg p arglen esc =
     (if p < arglen then do {
        c \<leftarrow> m (arg + p);
        if \<not> esc \<and> c = bc CHR 0x5C then do {
          m \<leftarrow> shift_left m arg p arglen;
          clean_arg m arg p (arglen - 1) True
        } else if \<not> esc \<and> c = bc CHR 0x22 then do {
          m \<leftarrow> shift_left m arg p arglen;
          clean_arg m arg p (arglen - 1) False
        } else clean_arg m arg (p + 1) arglen False
      } else Some m)"
  by pat_completeness auto
termination
  by (relation "measure (\<lambda>(m, a, p, n, e). n - p)") auto

declare shift_left.simps [simp del] clean_arg.simps [simp del]

fun clean_args :: "mem \<Rightarrow> addr list \<Rightarrow> mem option" where
  "clean_args m [] = Some m"
| "clean_args m (arg # args) = do {
     arglen \<leftarrow> strlen m arg;
     m \<leftarrow> clean_arg m arg 0 arglen False;
     clean_args m args
   }"

text \<open>
  The result is the status and, if it is 0, \<open>argc\<close> and the entries of \<open>argv\<close> in front of its null
  pointer.  \<open>array_ok n\<close> says that an array of \<open>n\<close> bytes can be allocated.
\<close>

definition parseargs ::
  "allocator \<Rightarrow> deallocator \<Rightarrow> (nat \<Rightarrow> bool) \<Rightarrow> fill \<Rightarrow> fill \<Rightarrow> addr \<Rightarrow> mem \<Rightarrow>
    (int \<times> (nat \<times> addr list) option \<times> mem) option" where
  "parseargs malloc free array_ok cli_args exec_path statbuf m =
     (let (unparsedCommandLine, m) = malloc G_CLIARGS_BUFFER_LENGTH m in
      if unparsedCommandLine = NULL then Some (- 1, None, m)
      else do {
        m \<leftarrow> cli_args unparsedCommandLine m;
        argc \<leftarrow> count_args m unparsedCommandLine 1;
        if \<not> array_ok (8 * (argc + 1)) then Some (- 1, None, m)
        else do {
          (name, m) \<leftarrow> get_executable_name malloc free exec_path statbuf m;
          (argv, m) \<leftarrow> split_args (argc + 1) m unparsedCommandLine [name];
          _ \<leftarrow> put_arg (argc + 1) argv NULL;
          m \<leftarrow> (if argc \<le> length argv then clean_args m (take (argc - 1) (drop 1 argv)) else None);
          Some (0, Some (argc, argv), m)
        }
      })"

section \<open>Reference\<close>

text \<open>
  The parts of a string between the separators; an empty rest is no part.  The units of a command
  line are its parts for \<open>G_CLIARGS_SEPARATOR\<close>.
\<close>

function split_on :: "byte \<Rightarrow> byte list \<Rightarrow> byte list list" where
  "split_on sep [] = []"
| "split_on sep (c # cs) =
     (case dropWhile (\<lambda>c. c \<noteq> sep) (c # cs) of
        [] \<Rightarrow> [c # cs]
      | _ # rest \<Rightarrow> takeWhile (\<lambda>c. c \<noteq> sep) (c # cs) # split_on sep rest)"
  by pat_completeness auto
termination
proof (relation "measure (\<lambda>(sep, cs). length cs)", goal_cases)
  case (2 sep c cs a rest)
  then have "length (a # rest) \<le> length (c # cs)" by (metis length_dropWhile_le)
  then show ?case by simp
qed simp

abbreviation split_units :: "byte list \<Rightarrow> byte list list" where
  "split_units \<equiv> split_on G_CLIARGS_SEPARATOR"

text \<open>Unquoting: a backslash protects the next character, other quotation marks are dropped.\<close>

fun unquote :: "bool \<Rightarrow> byte list \<Rightarrow> byte list" where
  "unquote esc [] = []"
| "unquote True (c # cs) = c # unquote False cs"
| "unquote False (c # cs) =
     (if c = bc CHR 0x5C then unquote True cs
      else if c = bc CHR 0x22 then unquote False cs
      else c # unquote False cs)"

lemma unquote_length: "length (unquote esc xs) \<le> length xs"
  by (induction esc xs rule: unquote.induct) auto

lemma unquote_nonzero: "0 \<notin> set xs \<Longrightarrow> 0 \<notin> set (unquote esc xs)"
  by (induction esc xs rule: unquote.induct) auto

lemma split_on_rest: "sep \<notin> set u \<Longrightarrow> split_on sep (u @ sep # rest) = u # split_on sep rest"
proof -
  assume "sep \<notin> set u"
  then have "dropWhile (\<lambda>c. c \<noteq> sep) (u @ sep # rest) = sep # rest" "takeWhile (\<lambda>c. c \<noteq> sep) (u @ sep # rest) = u"
    by (auto simp: dropWhile_append takeWhile_append)
  then show ?thesis by (cases u) simp_all
qed

lemma split_on_last: "sep \<notin> set u \<Longrightarrow> u \<noteq> [] \<Longrightarrow> split_on sep u = [u]"
proof -
  assume "sep \<notin> set u" "u \<noteq> []"
  then have "dropWhile (\<lambda>c. c \<noteq> sep) u = []" by (auto simp: dropWhile_eq_Nil_conv)
  then show ?thesis using \<open>u \<noteq> []\<close> by (cases u) simp_all
qed

text \<open>A string is empty, one part, or a part, a separator and a rest.\<close>

lemma part_cases [case_names empty part rest]:
  assumes "xs = [] \<Longrightarrow> P" "xs \<noteq> [] \<Longrightarrow> sep \<notin> set xs \<Longrightarrow> P" "\<And>u ys. xs = u @ sep # ys \<Longrightarrow> sep \<notin> set u \<Longrightarrow> P"
  shows P
  using assms split_list_first by metis

lemma part_induct [case_names empty part rest]:
  assumes "P []" "\<And>u. u \<noteq> [] \<Longrightarrow> sep \<notin> set u \<Longrightarrow> P u" "\<And>u ys. sep \<notin> set u \<Longrightarrow> P ys \<Longrightarrow> P (u @ sep # ys)"
  shows "P xs"
proof (induction xs rule: length_induct)
  case (1 xs)
  then show ?case by (cases xs rule: part_cases [of _ _ sep]) (auto intro: assms)
qed

section \<open>The loops\<close>

lemma skip_unit_correct:
  assumes "str_at m pos (u @ rest)" "G_CLIARGS_SEPARATOR \<notin> set u" "rest = [] \<or> hd rest = G_CLIARGS_SEPARATOR"
  shows "skip_unit m pos = Some (pos + length u + (if rest = [] then 0 else 1))"
  using assms
proof (induction u arbitrary: pos)
  case Nil
  then show ?case by (cases rest) (auto simp: skip_unit.simps [of m pos])
next
  case (Cons c u)
  then show ?case by (auto simp: skip_unit.simps [of m pos])
qed

lemma find_unit_end_correct:
  assumes "str_at m pos (u @ rest)" "G_CLIARGS_SEPARATOR \<notin> set u" "rest = [] \<or> hd rest = G_CLIARGS_SEPARATOR"
  shows "find_unit_end m pos = Some (pos + length u)"
  using assms
proof (induction u arbitrary: pos)
  case Nil
  then show ?case by (cases rest) (auto simp: find_unit_end.simps [of m pos])
next
  case (Cons c u)
  then show ?case by (auto simp: find_unit_end.simps [of m pos])
qed

lemma str_at_head: "str_at m p xs \<Longrightarrow> xs \<noteq> [] \<Longrightarrow> \<exists>c. m p = Some c \<and> c \<noteq> 0"
  by (cases xs) auto

lemma str_at_rest:
  "str_at m p (u @ c # ys) \<Longrightarrow> str_at m (p + length u + 1) ys"
  using str_at_drop [of m p "u @ c # ys" "length u + 1"] by simp

lemma count_args_correct:
  "str_at m pos xs \<Longrightarrow> count_args m pos n = Some (n + length (split_units xs))"
proof (induction xs arbitrary: pos n rule: part_induct [where sep = G_CLIARGS_SEPARATOR])
  case empty
  then show ?case by (simp add: count_args.simps)
next
  case (part u)
  have "m (pos + length u) = Some 0" using part by (simp add: str_at_nth)
  then have "count_args m (pos + length u) (n + 1) = Some (n + 1)" by (simp add: count_args.simps)
  with skip_unit_correct [of m pos u "[]"] str_at_head [of m pos u] part show ?case
    by (auto simp: count_args.simps [of m pos] split_on_last)
next
  case (rest u ys)
  have "skip_unit m pos = Some (pos + length u + 1)"
    using skip_unit_correct [OF rest.prems rest.hyps] by simp
  with rest.IH [OF str_at_rest [OF rest.prems]] str_at_head [OF rest.prems] show ?case
    by (auto simp: count_args.simps [of m pos] split_on_rest [OF rest.hyps])
qed

text \<open>Strings one behind the other, each with its terminator, from \<open>lo\<close> to below \<open>hi\<close>.\<close>

fun row :: "mem \<Rightarrow> addr \<Rightarrow> addr \<Rightarrow> addr list \<Rightarrow> byte list list \<Rightarrow> bool" where
  "row m lo hi [] [] = (lo \<le> hi)"
| "row m lo hi (p # ps) (s # ss) = (lo \<le> p \<and> str_at m p s \<and> row m (p + length s + 1) hi ps ss)"
| "row m lo hi _ _ = False"

lemma row_le: "row m lo hi ps ss \<Longrightarrow> lo \<le> hi"
  by (induction m lo hi ps ss rule: row.induct) auto

lemma row_mono: "row m lo hi ps ss \<Longrightarrow> lo' \<le> lo \<Longrightarrow> row m lo' hi ps ss"
  by (induction m lo hi ps ss rule: row.induct) auto

lemma row_frame: "row m lo hi ps ss \<Longrightarrow> (\<And>a. lo \<le> a \<Longrightarrow> a < hi \<Longrightarrow> m' a = m a) \<Longrightarrow> row m' lo hi ps ss"
proof (induction m lo hi ps ss rule: row.induct)
  case (2 m lo hi p ps s ss)
  have "p + length s < hi" using 2(2) row_le by fastforce
  then have "str_at m' p s" using 2(2,3) by (subst str_at_frame [of s m' p m]) auto
  then show ?case using 2 by auto
qed auto

lemma row_length: "row m lo hi ps ss \<Longrightarrow> length ps = length ss"
  by (induction m lo hi ps ss rule: row.induct) auto

lemma row_nth: "row m lo hi ps ss \<Longrightarrow> i < length ps \<Longrightarrow> str_at m (ps ! i) (ss ! i)"
  by (induction m lo hi ps ss arbitrary: i rule: row.induct) (auto simp: nth_Cons split: nat.splits)

lemma split_args_correct:
  assumes "str_at m pos xs" "length argv + length (split_units xs) \<le> slots"
  shows "\<exists>ps m'. split_args slots m pos argv = Some (argv @ ps, m') \<and>
    row m' pos (pos + length xs + 1) ps (split_units xs) \<and>
    (\<forall>a. a < pos \<or> pos + length xs < a \<longrightarrow> m' a = m a)"
  using assms
proof (induction xs arbitrary: m pos argv rule: part_induct [where sep = G_CLIARGS_SEPARATOR])
  case empty
  then show ?case by (intro exI [of _ "[]"] exI [of _ m]) (simp add: split_args.simps)
next
  case (part u)
  have "m (pos + length u) = Some 0" using part by (simp add: str_at_nth)
  with find_unit_end_correct [of m pos u "[]"] str_at_head [of m pos u] part show ?case
    by (intro exI [of _ "[pos]"] exI [of _ m])
      (auto simp: split_args.simps [of _ m pos] split_on_last put_arg_def)
next
  case (rest u ys)
  let ?e = "pos + length u" and ?m = "m(pos + length u \<mapsto> 0)"
  have e: "m ?e = Some G_CLIARGS_SEPARATOR" using str_at_nth(1) [OF rest.prems(1), of "length u"] by (simp add: nth_append)
  have u: "bytes_at m pos u" "0 \<notin> set u" using rest.prems(1) by (auto simp: str_at_iff)
  then have at: "str_at ?m pos u" by (simp add: str_at_iff bytes_at_upd)
  have "str_at ?m (?e + 1) ys" using str_at_rest [OF rest.prems(1)] by (simp add: str_at_upd)
  moreover have "length (argv @ [pos]) + length (split_units ys) \<le> slots"
    using rest.prems(2) by (simp add: split_on_rest [OF rest.hyps])
  ultimately obtain ps m' where ps: "split_args slots ?m (?e + 1) (argv @ [pos]) = Some ((argv @ [pos]) @ ps, m')"
    "row m' (?e + 1) (?e + 1 + length ys + 1) ps (split_units ys)"
    "\<forall>a. a < ?e + 1 \<or> ?e + 1 + length ys < a \<longrightarrow> m' a = ?m a"
    using rest.IH [of ?m "?e + 1" "argv @ [pos]"] by blast
  have "str_at m' pos u" using at ps(3) by (subst str_at_frame [of u m' pos ?m]) auto
  moreover have "split_args slots m pos argv = Some (argv @ pos # ps, m')"
    using find_unit_end_correct [OF rest.prems(1) rest.hyps] str_at_head [OF rest.prems(1)] e ps(1) rest.prems(2)
    by (auto simp: split_args.simps [of _ m pos] put_arg_def split_on_rest [OF rest.hyps])
  ultimately show ?case using ps(2,3)
    by (intro exI [of _ "pos # ps"] exI [of _ m']) (auto simp: split_on_rest [OF rest.hyps] add.assoc)
qed

lemma shift_left_correct:
  assumes "bytes_at m (arg + x) (c # ys)" "arglen = x + length ys"
  shows "shift_left m arg x arglen = Some (store m (arg + x) ys)"
  using assms
proof (induction ys arbitrary: m x c)
  case (Cons y ys)
  have "bytes_at (m(arg + x \<mapsto> y)) (arg + (x + 1)) (y # ys)" using Cons.prems by (simp add: bytes_at_upd)
  then have "shift_left (m(arg + x \<mapsto> y)) arg (x + 1) arglen = Some (store (m(arg + x \<mapsto> y)) (arg + (x + 1)) ys)"
    using Cons.prems(2) by (intro Cons.IH) simp_all
  with Cons.prems show ?case by (subst shift_left.simps) simp
qed (simp add: shift_left.simps)

text \<open>Removing one character of a string.\<close>

lemma shift_left_str:
  assumes "str_at m arg (pre @ c # xs)"
  shows "\<exists>m'. shift_left m arg (length pre) (length pre + Suc (length xs)) = Some m' \<and>
    str_at m' arg (pre @ xs) \<and> (\<forall>a. a < arg \<or> arg + length pre + length xs < a \<longrightarrow> m' a = m a)"
proof -
  let ?m = "store m (arg + length pre) (xs @ [0])"
  have b: "bytes_at m arg pre" "bytes_at m (arg + length pre) (c # xs @ [0])" "0 \<notin> set (pre @ xs)"
    using assms by (auto simp: str_at_iff)
  have "shift_left m arg (length pre) (length pre + Suc (length xs)) = Some ?m"
    using shift_left_correct [OF b(2)] by simp
  moreover have "str_at ?m arg (pre @ xs)"
    using b bytes_at_store_same [of m "arg + length pre" "xs @ [0]"]
    by (simp add: str_at_iff bytes_at_store del: bytes_at_store_same)
  ultimately show ?thesis by (intro exI [of _ ?m]) (simp add: store_other)
qed

lemma clean_arg_correct:
  assumes "str_at m arg (pre @ xs)"
  shows "\<exists>m'. clean_arg m arg (length pre) (length pre + length xs) esc = Some m' \<and>
    str_at m' arg (pre @ unquote esc xs) \<and> (\<forall>a. a < arg \<or> arg + length pre + length xs < a \<longrightarrow> m' a = m a)"
  using assms
proof (induction esc xs arbitrary: m pre rule: unquote.induct)
  case (2 c cs)
  then have c: "m (arg + length pre) = Some c" using str_at_nth(1) [OF 2(2), of "length pre"] by (simp add: nth_append)
  from 2(1) [of m "pre @ [c]"] 2(2) show ?case
    by (subst clean_arg.simps) (simp add: c)
next
  case (3 c cs)
  then have c: "m (arg + length pre) = Some c" using str_at_nth(1) [OF 3(4), of "length pre"] by (simp add: nth_append)
  obtain m1 where m1: "shift_left m arg (length pre) (length pre + Suc (length cs)) = Some m1"
    "str_at m1 arg (pre @ cs)" "\<forall>a. a < arg \<or> arg + length pre + length cs < a \<longrightarrow> m1 a = m a"
    using shift_left_str [OF 3(4)] by blast
  consider "c = bc CHR 0x5C" | "c = bc CHR 0x22" | "c \<noteq> bc CHR 0x5C" "c \<noteq> bc CHR 0x22" by blast
  then show ?case
  proof cases
    case 1
    with 3(1) [OF _ m1(2)] m1 c show ?thesis
      by (subst clean_arg.simps) auto
  next
    case 2
    with 3(2) [OF _ _ m1(2)] m1 c show ?thesis
      by (subst clean_arg.simps) auto
  next
    case 3
    with "3.IH"(3) [of m "pre @ [c]"] \<open>str_at m arg (pre @ c # cs)\<close> c show ?thesis
      by (subst clean_arg.simps) simp
  qed
qed (simp add: clean_arg.simps)

lemma clean_args_correct:
  assumes "row m lo hi ps ss" "0 < lo"
  shows "\<exists>m'. clean_args m ps = Some m' \<and> (\<forall>i<length ps. str_at m' (ps ! i) (unquote False (ss ! i))) \<and>
    (\<forall>a. a < lo \<or> hi \<le> a \<longrightarrow> m' a = m a)"
  using assms
proof (induction ps arbitrary: m lo ss)
  case (Cons p ps)
  then obtain s ss' where ss: "ss = s # ss'" by (cases ss) auto
  with Cons.prems(1) have p: "lo \<le> p" "str_at m p s" "row m (p + length s + 1) hi ps ss'" by simp_all
  obtain m1 where m1: "clean_arg m p 0 (length s) False = Some m1" "str_at m1 p (unquote False s)"
    "\<And>a. a < p \<or> p + length s < a \<Longrightarrow> m1 a = m a"
    using clean_arg_correct [of m p "[]" s False] p(2) by auto
  have "row m1 (p + length s + 1) hi ps ss'" by (rule row_frame [OF p(3)], rule m1(3)) simp
  then obtain m2 where m2: "clean_args m1 ps = Some m2"
    "\<forall>i<length ps. str_at m2 (ps ! i) (unquote False (ss' ! i))"
    "\<And>a. a < p + length s + 1 \<or> hi \<le> a \<Longrightarrow> m2 a = m1 a"
    using Cons.IH [of m1 "p + length s + 1" ss'] by auto
  have "str_at m2 p (unquote False s) = str_at m1 p (unquote False s)"
    using unquote_length [of False s] by (intro str_at_frame m2(3)) simp
  moreover have "p + length s + 1 \<le> hi" using p(3) by (rule row_le)
  then have "m2 a = m a" if "a < lo \<or> hi \<le> a" for a
    using that p(1) m1(3) [of a] m2(3) [of a] by fastforce
  moreover have "clean_args m (p # ps) = Some m2"
    using strlen_correct [OF p(2)] p(1) Cons.prems(2) m1(1) m2(1) by simp
  ultimately show ?case using m1(2) m2(2) by (intro exI [of _ m2]) (auto simp: ss nth_Cons split: nat.split)
qed (use row_length in fastforce)

lemma strcpy_fresh:
  assumes "good_malloc malloc" "str_at m s xs" "s \<noteq> NULL" "malloc (length xs + 1) m = (p, m1)" "p \<noteq> NULL"
  shows "\<exists>r. strcpy m1 p s = Some (r, store m1 p (xs @ [0]))"
  using strdup_correct [OF assms(1-4)] strlen_correct [OF assms(2,3)] assms(4,5)
  by (auto simp: strdup_def bind_eq_Some_conv)

lemma get_executable_name_correct:
  assumes "good_malloc malloc" "malloc G_PATH_MAX m = (p, m1)" "p \<noteq> NULL"
    and "exec_path p m1 = Some (store m1 p (path @ [0]))" "path = d @ slash # w"
    and "w \<noteq> []" "slash \<notin> set w" "0 \<notin> set path" "length path < G_PATH_MAX"
    and "malloc (length w + 1) (store m1 p (path @ [0])) = (q, m2)" "q \<noteq> NULL"
    and "\<forall>m a. a < p \<or> p + G_PATH_MAX \<le> a \<longrightarrow> free p m a = m a"
  shows "\<exists>m'. get_executable_name malloc free exec_path b m = Some (q, m') \<and> str_at m' q w \<and> m \<subseteq>\<^sub>m m'"
proof -
  let ?m = "store m1 p (path @ [0])"
  have at: "str_at ?m p (path @ replicate 0 slash)" using assms(8) by (simp add: str_at_store_same)
  have l: "path \<noteq> []" "last path \<noteq> slash" using assms(5-7) last_in_set by fastforce+
  have base: "basename ?m b p = Some (p + length d + 1, ?m)"
    using basename_cases [OF at assms(3) l] last_pos_slash [OF assms(7), of d] assms(5) by simp
  have w: "str_at ?m (p + length d + 1) w" using str_at_rest [of ?m p d slash w] at assms(5) by simp
  then have len: "strlen ?m (p + length d + 1) = Some (length w)" by (intro strlen_correct) auto
  obtain r where r: "strcpy m2 q (p + length d + 1) = Some (r, store m2 q (w @ [0]))"
    using strcpy_fresh [OF assms(1) w _ assms(10,11)] by auto
  note g1 = good_mallocD [OF assms(1,2)] and g2 = good_mallocD [OF assms(1,10)]
  let ?m' = "free p (store m2 q (w @ [0]))"
  have q: "q + length w < p \<or> p + G_PATH_MAX \<le> q"
  proof (rule ccontr)
    assume "\<not> ?thesis"
    then have "q \<le> max p q" "max p q < q + (length w + 1)" "p \<le> max p q" "max p q < p + G_PATH_MAX" by auto
    then have "?m (max p q) = None" using g2(3) [OF assms(11)] by blast
    moreover have "\<exists>x. ?m (max p q) = Some x"
      using mapped_get [OF mapped_store [OF g1(2) [OF assms(3)]]] \<open>p \<le> max p q\<close> \<open>max p q < p + G_PATH_MAX\<close> by blast
    ultimately show False by simp
  qed
  have "str_at (store m2 q (w @ [0])) q w" using assms(5,8) by (intro str_at_store_same) auto
  moreover have "?m' (q + i) = store m2 q (w @ [0]) (q + i)" if "i \<le> length w" for i
    using q that assms(12) by auto
  ultimately have "str_at ?m' q w" by (subst str_at_frame [of w ?m' q "store m2 q (w @ [0])"]) auto
  moreover have "m \<subseteq>\<^sub>m ?m'"
    unfolding map_le_def
  proof
    fix a assume "a \<in> dom m"
    then obtain x where a: "m a = Some x" by blast
    then have out: "a < p \<or> p + G_PATH_MAX \<le> a" using g1(3) [OF assms(3), of a] by force
    then have "?m a = Some x" using g1(4) [OF assms(3)] a assms(9) by (auto simp: store_other)
    then have "a < q \<or> q + (length w + 1) \<le> a" "m2 a = Some x"
      using g2(3) [OF assms(11), of a] g2(5) [OF assms(11), of a] by force+
    moreover have "?m' a = store m2 q (w @ [0]) a" using out assms(12) by blast
    ultimately show "m a = ?m' a" using a by (simp add: store_other)
  qed
  ultimately show ?thesis using assms(2,4,10) base len r assms(5,9) by (auto simp: get_executable_name_def)
qed

text \<open>An allocator for examples: a fixed place for each of the three sizes.\<close>

definition three_malloc :: allocator where
  "three_malloc n = bump_malloc (if n = G_CLIARGS_BUFFER_LENGTH then 1000 else if n = G_PATH_MAX then 5000 else 20000) n"

lemma three_malloc_good: "good_malloc three_malloc"
  unfolding good_malloc_def three_malloc_def
proof (intro allI)
  fix n m
  show "case bump_malloc (if n = G_CLIARGS_BUFFER_LENGTH then 1000 else if n = G_PATH_MAX then 5000 else 20000) n m of
    (p, m') \<Rightarrow> p = NULL \<and> m' = m \<or> p \<noteq> NULL \<and> mapped m' p n \<and> (\<forall>a. p \<le> a \<and> a < p + n \<longrightarrow> m a = None) \<and>
      (\<forall>a. a < p \<or> p + n \<le> a \<longrightarrow> m' a = m a)"
    by (rule bump_malloc_good [unfolded good_malloc_def, rule_format])
qed

lemma bump_malloc_free:
  "0 < base \<Longrightarrow> (\<And>a. base \<le> a \<Longrightarrow> a < base + n \<Longrightarrow> m a = None) \<Longrightarrow>
   bump_malloc base n m = (base, store m base (replicate n 0))"
  by (auto simp: bump_malloc_def)

lemma three_malloc_run:
  assumes "length line < 1024"
  defines "m0 \<equiv> store Map.empty 1000 (replicate 1024 0)"
  defines "m1 \<equiv> store (store m0 1000 (line @ [0])) 5000 (replicate 4096 0)"
  shows "three_malloc 1024 Map.empty = (1000, m0)"
    "three_malloc 4096 (store m0 1000 (line @ [0])) = (5000, m1)"
    "three_malloc 2 (store m1 5000 (lit ''/bin'' @ slash # lit ''x'' @ [0])) =
      (20000, store (store m1 5000 (lit ''/bin'' @ slash # lit ''x'' @ [0])) 20000 [0, 0])"
  unfolding m0_def m1_def three_malloc_def using assms(1)
  by (simp_all del: store.simps add: bump_malloc_free store_other numeral_2_eq_2)

lemma parseargs_correct:
  assumes malloc: "good_malloc malloc" "malloc G_CLIARGS_BUFFER_LENGTH m = (l, m0)" "l \<noteq> NULL"
    and line: "cli_args l m0 = Some (store m0 l (line @ [0]))" "0 \<notin> set line" "length line < G_CLIARGS_BUFFER_LENGTH"
    and path: "malloc G_PATH_MAX (store m0 l (line @ [0])) = (p, m1)" "p \<noteq> NULL"
      "exec_path p m1 = Some (store m1 p (d @ slash # w @ [0]))"
      "w \<noteq> []" "slash \<notin> set w" "0 \<notin> set (d @ w)" "length (d @ slash # w) < G_PATH_MAX"
    and name: "malloc (length w + 1) (store m1 p (d @ slash # w @ [0])) = (q, m2)" "q \<noteq> NULL"
    and free: "\<forall>m a. a < p \<or> p + G_PATH_MAX \<le> a \<longrightarrow> free p m a = m a"
    and array: "\<forall>n. array_ok n"
  shows "\<exists>args m'. parseargs malloc free array_ok cli_args exec_path b m = Some (0, Some (length args + 1, q # args), m') \<and>
    length args = length (split_units line) \<and> str_at m' q w \<and>
    (\<forall>i<length args. str_at m' (args ! i) (unquote False (split_units line ! i)))"
proof -
  let ?m = "store m0 l (line @ [0])" and ?n = "length (split_units line)"
  have at: "str_at ?m l line" using line(2) by (rule str_at_store_same)
  have pathz: "0 \<notin> set (d @ slash # w)" using path(6) by simp
  obtain mn where mn: "get_executable_name malloc free exec_path b ?m = Some (q, mn)" "str_at mn q w" "?m \<subseteq>\<^sub>m mn"
    using get_executable_name_correct [where path = "d @ slash # w" and d = d and w = w and b = b and q = q and
        exec_path = exec_path and ?m2.0 = m2 and free = free and malloc = malloc and p = p, OF malloc(1) path(1,2) _ _ path(4,5) pathz path(7) _ name(2) free]
      path(3) name(1) by auto
  have sub: "?m a = Some x \<Longrightarrow> mn a = Some x" for a x using mn(3) by (force simp: map_le_def)
  have ln: "str_at mn l line" using str_at_sub [OF at sub] .
  obtain args ms where s: "split_args (1 + ?n + 1) mn l [q] = Some (q # args, ms)"
    "row ms l (l + length line + 1) args (split_units line)"
    "\<forall>a. a < l \<or> l + length line < a \<longrightarrow> ms a = mn a"
    using split_args_correct [OF ln, of "[q]" "1 + ?n + 1"] by auto
  obtain m' where c: "clean_args ms args = Some m'"
    "\<forall>i<length args. str_at m' (args ! i) (unquote False (split_units line ! i))"
    "\<forall>a. a < l \<or> l + length line + 1 \<le> a \<longrightarrow> m' a = ms a"
    using clean_args_correct [OF s(2)] malloc(3) by auto
  have len: "length args = ?n" using s(2) by (rule row_length)
  have q: "q + i < l \<or> l + length line < q + i" if "i \<le> length w" for i
  proof -
    note g1 = good_mallocD [OF malloc(1) path(1)] and g2 = good_mallocD [OF malloc(1) name(1)]
    have "store m1 p (d @ slash # w @ [0]) (q + i) = None" using g2(3) [OF name(2), of "q + i"] that by simp
    then have "m1 (q + i) = None" by (auto simp: store_apply split: if_splits)
    then have "?m (q + i) = None" using g1(5) [OF path(2), of "q + i"] by (cases "?m (q + i)") auto
    then show ?thesis by (auto simp: store_apply split: if_splits)
  qed
  have "str_at m' q w = str_at mn q w"
    using q by (intro str_at_frame) (simp add: c(3) s(3) Suc_le_eq)
  then have "str_at m' q w" using mn(2) by simp
  then show ?thesis
    using malloc(2,3) line(1) count_args_correct [OF at, of 1] array mn(1) s(1) c(1,2) len
    by (intro exI [of _ args] exI [of _ m']) (simp add: parseargs_def put_arg_def)
qed

section \<open>Properties\<close>

text \<open>
  C26. When the allocations succeed, \<open>parseargs\<close> returns 0 with \<open>argv[0]\<close> the last component of the
  path of the executable and, in order, one argument for each part of the command line between unit
  separators (byte 31; quotation marks do not protect one), with backslashes and quotation marks
  resolved, each a terminated string; \<open>argc\<close> is their number plus one and the array is never written
  out of its bounds.
\<close>

theorem parseargs_units:
  assumes malloc: "good_malloc malloc" "malloc G_CLIARGS_BUFFER_LENGTH m = (l, m0)" "l \<noteq> NULL"
    and line: "cli_args l m0 = Some (store m0 l (line @ [0]))" "0 \<notin> set line" "length line < G_CLIARGS_BUFFER_LENGTH"
    and path: "malloc G_PATH_MAX (store m0 l (line @ [0])) = (p, m1)" "p \<noteq> NULL"
      "exec_path p m1 = Some (store m1 p (d @ slash # w @ [0]))"
      "w \<noteq> []" "slash \<notin> set w" "0 \<notin> set (d @ w)" "length (d @ slash # w) < G_PATH_MAX"
    and name: "malloc (length w + 1) (store m1 p (d @ slash # w @ [0])) = (q, m2)" "q \<noteq> NULL"
    and free: "\<forall>m a. a < p \<or> p + G_PATH_MAX \<le> a \<longrightarrow> free p m a = m a"
    and array: "\<forall>n. array_ok n"
  shows "\<exists>args m'. parseargs malloc free array_ok cli_args exec_path b m = Some (0, Some (length args + 1, q # args), m') \<and>
    length args = length (split_units line) \<and> str_at m' q w \<and>
    (\<forall>i<length args. str_at m' (args ! i) (unquote False (split_units line ! i)))"
  using assms by (rule parseargs_correct)

theorem parseargs_units_witness:
  "\<exists>args m'. parseargs three_malloc (\<lambda>p m. m) (\<lambda>n. True)
      (\<lambda>l m. Some (store m l (lit ''a'' @ [31] @ lit [CHR 0x22, CHR ''b'', CHR 0x22] @ [0])))
      (\<lambda>p m. Some (store m p (lit ''/bin'' @ slash # lit ''x'' @ [0]))) 50 Map.empty =
      Some (0, Some (length args + 1, 20000 # args), m') \<and>
    length args = 2 \<and> str_at m' 20000 (lit ''x'') \<and> str_at m' (args ! 1) (lit ''b'')"
proof -
  let ?line = "lit ''a'' @ [31] @ lit [CHR 0x22, CHR ''b'', CHR 0x22]"
  let ?path = "lit ''/bin'' @ slash # lit ''x'' @ [0]"
  let ?m0 = "store Map.empty 1000 (replicate 1024 0)"
  let ?m1 = "store (store ?m0 1000 (?line @ [0])) 5000 (replicate 4096 0)"
  have a: "three_malloc 1024 Map.empty = (1000, ?m0)"
    by (simp add: three_malloc_def bump_malloc_free)
  have b: "three_malloc 4096 (store ?m0 1000 (?line @ [0])) = (5000, ?m1)"
    unfolding three_malloc_def by (simp del: store.simps add: bump_malloc_free store_other)
  have c: "three_malloc (length (lit ''x'') + 1) (store ?m1 5000 ?path) = (20000, store (store ?m1 5000 ?path) 20000 [0, 0])"
    unfolding three_malloc_def by (simp del: store.simps add: bump_malloc_free store_other)
  have u: "split_units ?line = [lit ''a'', lit [CHR 0x22, CHR ''b'', CHR 0x22]]" by simp
  have "\<exists>args m'. parseargs three_malloc (\<lambda>p m. m) (\<lambda>n. True) (\<lambda>l m. Some (store m l (?line @ [0])))
      (\<lambda>p m. Some (store m p ?path)) 50 Map.empty = Some (0, Some (length args + 1, 20000 # args), m') \<and>
    length args = length (split_units ?line) \<and> str_at m' 20000 (lit ''x'') \<and>
    (\<forall>i<length args. str_at m' (args ! i) (unquote False (split_units ?line ! i)))"
    by (rule parseargs_units [OF three_malloc_good a _ _ _ _ b _ _ _ _ _ _ c]) simp_all
  then show ?thesis unfolding u by (fastforce simp del: str_at.simps)
qed

end
