(* ===== verification/Process.thy ===== *)
theory Process
  imports Args Kernel_IO
begin

text \<open>
  Processes: \<open>execve\<close>, \<open>execv\<close>, \<open>execvp\<close>, \<open>execlp\<close>, \<open>fork\<close> and the identities of
  \<open>libc/src/unistd\<close>, \<open>waitpid\<close> and \<open>wait\<close> of \<open>libc/src/sys/wait\<close>.
\<close>

section \<open>System calls\<close>

text \<open>
  The calls of \<open>ghost/tasks.h\<close>.  A successful \<open>sys_execve\<close> does not return to the program; in the
  model it returns the status \<open>G_SPAWN_STATUS_SUCCESSFUL\<close> and the state of the kernel with the new
  program.
\<close>

record 'k task_calls =
  sys_execve :: "addr \<Rightarrow> addr list \<Rightarrow> environ \<Rightarrow> mem \<Rightarrow> 'k \<Rightarrow> int \<times> 'k"
  sys_fork :: "'k \<Rightarrow> int \<times> 'k"
  sys_join :: "int \<Rightarrow> 'k \<Rightarrow> 'k"
  sys_get_tid :: "'k \<Rightarrow> int"
  sys_current_pid :: "'k \<Rightarrow> int"
  sys_get_parent_pid :: "int \<Rightarrow> 'k \<Rightarrow> int"
  sys_kill :: "int \<Rightarrow> 'k \<Rightarrow> int \<times> 'k"
  sys_sleep :: "int \<Rightarrow> 'k \<Rightarrow> 'k"
  sys_millis :: "'k \<Rightarrow> int"
  sys_nanos :: "'k \<Rightarrow> int"

abbreviation (input) G_SPAWN_STATUS_SUCCESSFUL :: int where "G_SPAWN_STATUS_SUCCESSFUL \<equiv> 0"
abbreviation (input) G_SPAWN_STATUS_MEMORY_ERROR :: int where "G_SPAWN_STATUS_MEMORY_ERROR \<equiv> 2"
abbreviation (input) G_SPAWN_STATUS_FORMAT_ERROR :: int where "G_SPAWN_STATUS_FORMAT_ERROR \<equiv> 3"
abbreviation (input) G_SPAWN_STATUS_TASKING_ERROR :: int where "G_SPAWN_STATUS_TASKING_ERROR \<equiv> 4"
abbreviation (input) G_SPAWN_STATUS_DEPENDENCY_ERROR :: int where "G_SPAWN_STATUS_DEPENDENCY_ERROR \<equiv> 5"
abbreviation (input) G_PID_NONE :: int where "G_PID_NONE \<equiv> - 1"

section \<open>Executing programs\<close>

definition execve_status_to_errno :: "int \<Rightarrow> int" where
  "execve_status_to_errno status =
     (if status = G_SPAWN_STATUS_MEMORY_ERROR then ENOMEM
      else if status = G_SPAWN_STATUS_FORMAT_ERROR then ENOEXEC
      else if status = G_SPAWN_STATUS_DEPENDENCY_ERROR then ENOENT
      else if status = G_SPAWN_STATUS_TASKING_ERROR then EPERM
      else EIO)"

definition execve ::
  "'k task_calls \<Rightarrow> addr \<Rightarrow> addr list \<Rightarrow> environ \<Rightarrow> ('k, 'z) world_scheme \<Rightarrow> int \<times> ('k, 'z) world_scheme" where
  "execve T path argv envp w =
     (let (status, k) = sys_execve T path argv envp (w_mem w) (w_k w); w = w\<lparr>w_k := k\<rparr> in
      if status = G_SPAWN_STATUS_SUCCESSFUL then (0, w)
      else (- 1, w\<lparr>w_errno := execve_status_to_errno status\<rparr>))"

definition execv ::
  "'k task_calls \<Rightarrow> environ \<Rightarrow> addr \<Rightarrow> addr list \<Rightarrow> ('k, 'z) world_scheme \<Rightarrow> int \<times> ('k, 'z) world_scheme" where
  "execv T env path argv w = execve T path argv env w"

definition execv_try ::
  "'k task_calls \<Rightarrow> environ \<Rightarrow> addr \<Rightarrow> addr list \<Rightarrow> ('k, 'z) world_scheme \<Rightarrow> int \<times> ('k, 'z) world_scheme" where
  "execv_try T env path argv w =
     (let (ret, w) = execv T env path argv w in
      if ret = - 1 \<and> (w_errno w = ENOENT \<or> w_errno w = ENOTDIR) then (- 1, w) else (ret, w))"

text \<open>The string literals of \<open>execvp\<close>.\<close>

record exec_lits = env_lits +
  l_PATH :: addr
  l_default_path :: addr
  l_dot :: addr

text \<open>The name \<open>dir/file\<close> built for one directory.\<close>

definition join_path :: "mem \<Rightarrow> addr \<Rightarrow> addr \<Rightarrow> nat \<Rightarrow> addr \<Rightarrow> nat \<Rightarrow> mem option" where
  "join_path m full dir dir_len file file_len = do {
     (_, m) \<leftarrow> memcpy m full dir dir_len;
     m \<leftarrow> wr m (full + dir_len) (bc CHR ''/'');
     (_, m) \<leftarrow> memcpy m (full + dir_len + 1) file file_len;
     wr m (full + dir_len + 1 + file_len) 0
   }"

partial_function (option) execvp_loop ::
  "'k task_calls \<Rightarrow> allocator \<Rightarrow> deallocator \<Rightarrow> exec_lits \<Rightarrow> environ \<Rightarrow> addr \<Rightarrow> addr list \<Rightarrow> addr \<Rightarrow>
    ('k, 'z) world_scheme \<Rightarrow> (int \<times> ('k, 'z) world_scheme) option" where
  "execvp_loop T malloc free L env file argv segment w = do {
     c \<leftarrow> w_mem w segment;
     if c = 0 then Some (- 1, w\<lparr>w_errno := ENOENT\<rparr>)
     else do {
       colon \<leftarrow> strchr (w_mem w) segment (ic CHR '':'');
       seg_len \<leftarrow> (if colon \<noteq> NULL then Some (colon - segment) else strlen (w_mem w) segment);
       let (dir, dir_len) = (if seg_len = 0 then (l_dot L, 1) else (segment, seg_len));
       file_len \<leftarrow> strlen (w_mem w) file;
       let (full, m) = malloc (dir_len + 1 + file_len + 1) (w_mem w);
       if full = NULL then Some (- 1, w\<lparr>w_mem := m, w_errno := ENOMEM\<rparr>)
       else do {
         m \<leftarrow> join_path m full dir dir_len file file_len;
         let (ret, w) = execv_try T env full argv (w\<lparr>w_mem := m\<rparr>);
         let w = w\<lparr>w_mem := free full (w_mem w)\<rparr>;
         if ret \<noteq> - 1 \<or> w_errno w \<noteq> ENOENT then Some (ret, w)
         else if colon = NULL then Some (- 1, w\<lparr>w_errno := ENOENT\<rparr>)
         else execvp_loop T malloc free L env file argv (colon + 1) w
       }
     }
   }"

definition execvp ::
  "'k task_calls \<Rightarrow> allocator \<Rightarrow> deallocator \<Rightarrow> exec_lits \<Rightarrow> environ \<Rightarrow> addr \<Rightarrow> addr list \<Rightarrow>
    ('k, 'z) world_scheme \<Rightarrow> (int \<times> ('k, 'z) world_scheme) option" where
  "execvp T malloc free L env file argv w = do {
     empty \<leftarrow> (if file = NULL then Some True else do { c \<leftarrow> w_mem w file; Some (c = 0) });
     if empty then Some (- 1, w\<lparr>w_errno := ENOENT\<rparr>)
     else do {
       s \<leftarrow> strchr (w_mem w) file (ic CHR ''/'');
       if s \<noteq> NULL then Some (execv T env file argv w)
       else do {
         path \<leftarrow> getenv (w_mem w) (env_lits.truncate L) env (l_PATH L);
         unset \<leftarrow> (if path = NULL then Some True else do { c \<leftarrow> w_mem w path; Some (c = 0) });
         execvp_loop T malloc free L env file argv (if unset then l_default_path L else path) w
       }
     }
   }"

text \<open>
  The arguments are the list of pointers in front of the null pointer that ends them; the array is
  allocated like that of the environment.
\<close>

definition execlp ::
  "'k task_calls \<Rightarrow> allocator \<Rightarrow> deallocator \<Rightarrow> (nat \<Rightarrow> bool) \<Rightarrow> exec_lits \<Rightarrow> environ \<Rightarrow> addr \<Rightarrow> addr list \<Rightarrow>
    ('k, 'z) world_scheme \<Rightarrow> (int \<times> ('k, 'z) world_scheme) option" where
  "execlp T malloc free array_ok L env file args w =
     (if file = NULL then Some (- 1, w\<lparr>w_errno := ENOENT\<rparr>)
      else let argc = length args in
        if \<not> array_ok (8 * (argc + 1)) then Some (- 1, w\<lparr>w_errno := ENOMEM\<rparr>)
        else execvp T malloc free L env file args w)"

section \<open>Creating and waiting\<close>

definition fork :: "'k task_calls \<Rightarrow> ('k, 'z) world_scheme \<Rightarrow> int \<times> ('k, 'z) world_scheme" where
  "fork T w = (let (pid, k) = sys_fork T (w_k w); w = w\<lparr>w_k := k\<rparr> in
     if pid = G_PID_NONE then (- 1, w\<lparr>w_errno := ENOSYS\<rparr>) else (pid, w))"

text \<open>\<open>status\<close> is the address of an \<open>int\<close>; the value written is 0, so its four bytes are zero.\<close>

definition waitpid ::
  "'k task_calls \<Rightarrow> int \<Rightarrow> addr \<Rightarrow> int \<Rightarrow> ('k, 'z) world_scheme \<Rightarrow> (int \<times> ('k, 'z) world_scheme) option" where
  "waitpid T pid status options w =
     (if bit options 0 then Some (0, w)
      else if pid \<le> 0 then Some (- 1, w\<lparr>w_errno := ENOSYS\<rparr>)
      else let w = w\<lparr>w_k := sys_join T pid (w_k w)\<rparr> in
        if status \<noteq> NULL then do { m \<leftarrow> wr_n (w_mem w) status [0, 0, 0, 0]; Some (pid, w\<lparr>w_mem := m\<rparr>) }
        else Some (pid, w))"

definition wait :: "addr \<Rightarrow> ('k, 'z) world_scheme \<Rightarrow> int \<times> ('k, 'z) world_scheme" where
  "wait status w = (- 1, w\<lparr>w_errno := ENOSYS\<rparr>)"

definition getpid :: "'k task_calls \<Rightarrow> ('k, 'z) world_scheme \<Rightarrow> int" where
  "getpid T w = sys_get_tid T (w_k w)"

definition getppid :: "'k task_calls \<Rightarrow> ('k, 'z) world_scheme \<Rightarrow> int" where
  "getppid T w = sys_get_parent_pid T (sys_current_pid T (w_k w)) (w_k w)"

section \<open>The search of \<open>execvp\<close>\<close>

text \<open>
  The kernel's answer to an attempt depends on the name of the program; \<open>tries\<close> is the list of the
  names it was asked for.
\<close>

definition answers :: "'k task_calls \<Rightarrow> (byte list \<Rightarrow> int) \<Rightarrow> ('k \<Rightarrow> byte list list) \<Rightarrow> bool" where
  "answers T status tries \<longleftrightarrow> (\<forall>p s argv env m k. p \<noteq> NULL \<longrightarrow> str_at m p s \<longrightarrow>
     (\<exists>k'. sys_execve T p argv env m k = (status s, k') \<and> tries k' = tries k @ [s]))"

definition candidate :: "byte list \<Rightarrow> byte list \<Rightarrow> byte list" where
  "candidate name d = (if d = [] then lit ''.'' else d) @ slash # name"

text \<open>What a search through the candidates returns and asks the kernel for.\<close>

definition searched ::
  "(byte list \<Rightarrow> int) \<Rightarrow> ('k \<Rightarrow> byte list list) \<Rightarrow> byte list list \<Rightarrow> 'k \<Rightarrow> int \<Rightarrow> ('k, 'z) world_scheme \<Rightarrow> bool" where
  "searched status tries cs k r w \<longleftrightarrow>
     (case dropWhile (\<lambda>c. status c = G_SPAWN_STATUS_DEPENDENCY_ERROR) cs of
        [] \<Rightarrow> r = - 1 \<and> w_errno w = ENOENT \<and> tries (w_k w) = tries k @ cs
      | c # _ \<Rightarrow> tries (w_k w) = tries k @ takeWhile (\<lambda>c. status c = G_SPAWN_STATUS_DEPENDENCY_ERROR) cs @ [c] \<and>
          (if status c = G_SPAWN_STATUS_SUCCESSFUL then r = 0
           else r = - 1 \<and> w_errno w = execve_status_to_errno (status c)))"

lemma errno_ENOENT [simp]: "execve_status_to_errno status = ENOENT \<longleftrightarrow> status = G_SPAWN_STATUS_DEPENDENCY_ERROR"
  by (simp add: execve_status_to_errno_def)

lemma bytes_at_sub: "bytes_at m0 a xs \<Longrightarrow> m0 \<subseteq>\<^sub>m m \<Longrightarrow> bytes_at m a xs"
  by (auto simp: bytes_at_iff map_le_def dom_def)

lemma str_at_le: "str_at m0 a xs \<Longrightarrow> m0 \<subseteq>\<^sub>m m \<Longrightarrow> str_at m a xs"
  unfolding str_at_iff using bytes_at_sub by blast

text \<open>A block the memory \<open>m0\<close> does not use is disjoint from every string of it.\<close>

lemma bytes_apart:
  assumes "bytes_at m0 a xs" "\<forall>b. p \<le> b \<and> b < p + n \<longrightarrow> m0 b = None" "xs \<noteq> []" "0 < n"
  shows "a + length xs \<le> p \<or> p + n \<le> a"
proof (rule ccontr)
  assume "\<not> ?thesis"
  then have "p \<le> max a p" "max a p < p + n" "max a p - a < length xs"
    using assms(3,4) by (auto simp: max_def simp flip: length_greater_0_conv)
  then have "m0 (max a p) = None" "m0 (a + (max a p - a)) = Some (xs ! (max a p - a))"
    using assms(2) bytes_at_get [OF assms(1)] by blast+
  then show False by simp
qed

lemma store_keeps: "m0 \<subseteq>\<^sub>m m \<Longrightarrow> \<forall>b. p \<le> b \<and> b < p + length xs \<longrightarrow> m0 b = None \<Longrightarrow> m0 \<subseteq>\<^sub>m store m p xs"
  by (auto simp: map_le_def store_apply dom_def)

lemma join_path_correct:
  assumes m: "m0 \<subseteq>\<^sub>m m" and block: "mapped m full n" "\<forall>a. full \<le> a \<and> a < full + n \<longrightarrow> m0 a = None"
    and n: "n = length ds + 1 + length name + 1"
    and at: "bytes_at m0 dir ds" "ds \<noteq> []" "0 \<notin> set ds" "str_at m0 file name"
  shows "\<exists>m'. join_path m full dir (length ds) file (length name) = Some m' \<and>
    str_at m' full (ds @ slash # name) \<and> m0 \<subseteq>\<^sub>m m'"
proof -
  let ?p = "full + length ds" and ?q = "full + length ds + 1"
  have name: "bytes_at m0 file (name @ [0])" "0 \<notin> set name" using at(4) by (auto simp: str_at_iff)
  have apart: "dir + length ds \<le> full \<or> full + n \<le> dir" "file + length (name @ [0]) \<le> full \<or> full + n \<le> file"
    using bytes_apart [OF at(1) block(2) at(2)] bytes_apart [OF name(1) block(2)] n by auto
  let ?m1 = "store m full ds"
  have 1: "memcpy m full dir (length ds) = Some (full, ?m1)"
    using apart(1) bytes_at_sub [OF at(1) m] mapped_le [OF block(1)] n by (intro memcpy_correct) (auto simp: fwd_ok_def)
  let ?m2 = "?m1(?p \<mapsto> bc CHR ''/'')"
  have mp: "mapped ?m1 full n" "mapped ?m2 full n" using block(1) by (simp_all add: mapped_store mapped_upd)
  have 2: "wr ?m1 ?p (bc CHR ''/'') = Some ?m2" using mapped_get [OF mp(1), of ?p] n by auto
  let ?m3 = "store ?m2 ?q name"
  have "bytes_at m file name" using bytes_at_sub [OF name(1) m] by simp
  then have "bytes_at ?m1 file name" using apart(2) n by (subst bytes_at_store) auto
  then have "bytes_at ?m2 file name" using apart(2) n by (subst bytes_at_upd) auto
  moreover have "mapped ?m2 (full + (length ds + 1)) (length name + 1)"
    using mp(2) unfolding n by (simp only: add.assoc mapped_add [of ?m2 full "length ds + 1" "length name + 1", unfolded add.assoc])
  then have "mapped ?m2 ?q (length name)" unfolding add.assoc by (rule mapped_le) simp
  ultimately have 3: "memcpy ?m2 ?q file (length name) = Some (?q, ?m3)"
    using apart(2) n by (intro memcpy_correct) (auto simp: fwd_ok_def)
  have "mapped ?m3 full n" using mp(2) by (rule mapped_store)
  then have 4: "wr ?m3 (?q + length name) 0 = Some (?m3(?q + length name \<mapsto> 0))"
    using mapped_get [of ?m3 full n "?q + length name"] n by auto
  have eq: "?m3(?q + length name \<mapsto> 0) = store m full (ds @ slash # name @ [0])"
    by (simp add: store_append store_snoc)
  have "str_at (store m full (ds @ slash # name @ [0])) full (ds @ slash # name)"
    using str_at_store_same [of "ds @ slash # name" m full] at(3) name(2) by simp
  moreover have "m0 \<subseteq>\<^sub>m store m full (ds @ slash # name @ [0])"
    using block(2) n by (intro store_keeps [OF m]) simp
  ultimately show ?thesis using 1 2 3 4 eq by (simp add: join_path_def)
qed

lemma execv_try_answers:
  assumes "answers T status tries" "p \<noteq> NULL" "str_at (w_mem w) p s"
  shows "\<exists>k. tries k = tries (w_k w) @ [s] \<and> execv_try T env p argv w =
    (if status s = G_SPAWN_STATUS_SUCCESSFUL then (0, w\<lparr>w_k := k\<rparr>)
     else (- 1, w\<lparr>w_k := k, w_errno := execve_status_to_errno (status s)\<rparr>))"
proof -
  obtain k where "sys_execve T p argv env (w_mem w) (w_k w) = (status s, k)" "tries k = tries (w_k w) @ [s]"
    using assms unfolding answers_def by blast
  then show ?thesis by (intro exI [of _ k]) (simp add: execv_try_def execv_def execve_def)
qed

text \<open>One directory: the attempt is made, the memory \<open>m0\<close> is kept.\<close>

lemma execvp_attempt:
  assumes K: "keeps m0 malloc free" "m0 \<subseteq>\<^sub>m w_mem w" and A: "answers T status tries"
    and at: "bytes_at m0 dir ds" "ds \<noteq> []" "0 \<notin> set ds" "str_at m0 file name"
    and full: "malloc (length ds + 1 + length name + 1) (w_mem w) = (full, m)"
  shows "full \<noteq> NULL \<and> (\<exists>m1 k. join_path m full dir (length ds) file (length name) = Some m1 \<and>
    m0 \<subseteq>\<^sub>m free full m1 \<and> tries k = tries (w_k w) @ [ds @ slash # name] \<and>
    execv_try T env full argv (w\<lparr>w_mem := m1\<rparr>) =
      (if status (ds @ slash # name) = G_SPAWN_STATUS_SUCCESSFUL then (0, w\<lparr>w_mem := m1, w_k := k\<rparr>)
       else (- 1, w\<lparr>w_mem := m1, w_k := k, w_errno := execve_status_to_errno (status (ds @ slash # name))\<rparr>)))"
proof -
  from keepsD(1) [OF K full] have m: "full \<noteq> NULL" "mapped m full (length ds + 1 + length name + 1)" "m0 \<subseteq>\<^sub>m m"
    "\<forall>a. full \<le> a \<and> a < full + (length ds + 1 + length name + 1) \<longrightarrow> m0 a = None"
    by blast+
  obtain m1 where m1: "join_path m full dir (length ds) file (length name) = Some m1"
    "str_at m1 full (ds @ slash # name)" "m0 \<subseteq>\<^sub>m m1"
    using join_path_correct [OF m(3,2,4) refl at] by blast
  have "m0 \<subseteq>\<^sub>m free full m1" using keepsD(2) [OF K(1) m1(3)] .
  moreover have "\<exists>k. tries k = tries (w_k w) @ [ds @ slash # name] \<and> execv_try T env full argv (w\<lparr>w_mem := m1\<rparr>) =
      (if status (ds @ slash # name) = G_SPAWN_STATUS_SUCCESSFUL then (0, w\<lparr>w_mem := m1, w_k := k\<rparr>)
       else (- 1, w\<lparr>w_mem := m1, w_k := k, w_errno := execve_status_to_errno (status (ds @ slash # name))\<rparr>))"
    using execv_try_answers [OF A m(1), of "w\<lparr>w_mem := m1\<rparr>" "ds @ slash # name" env argv] m1(2) by simp
  ultimately show ?thesis using m(1) m1(1) by blast
qed

abbreviation (input) colon_b :: byte where "colon_b \<equiv> bc CHR '':''"

lemma strchr_colon:
  assumes "str_at m s (u @ rest)" "colon_b \<notin> set u" "rest = [] \<or> hd rest = colon_b"
  shows "strchr m s (ic CHR '':'') = Some (if rest = [] then NULL else s + length u)"
proof -
  have c: "cv x = ic CHR '':'' \<longleftrightarrow> x = colon_b" for x
    using cv_inj [of x colon_b] by (simp add: cv_def)
  have "\<forall>x\<in>set u. cv x \<noteq> ic CHR '':''" using assms(2) c by metis
  then have "takeWhile (\<lambda>x. cv x \<noteq> ic CHR '':'') (u @ rest) = u @ takeWhile (\<lambda>x. cv x \<noteq> ic CHR '':'') rest"
    "ic CHR '':'' \<in> cv ` set (u @ rest) \<longleftrightarrow> ic CHR '':'' \<in> cv ` set rest"
    by (auto simp: takeWhile_append2)
  then show ?thesis using strchr_correct [OF assms(1), of "ic CHR '':''"] assms(3) c [of "hd rest"]
    by (cases rest) (simp_all only: if_True if_False, auto)
qed

lemma searched_skip:
  assumes "status c = G_SPAWN_STATUS_DEPENDENCY_ERROR" "tries k' = tries k @ [c]" "searched status tries cs k' r w"
  shows "searched status tries (c # cs) k r w"
  using assms by (cases "dropWhile (\<lambda>c. status c = G_SPAWN_STATUS_DEPENDENCY_ERROR) cs")
    (simp_all add: searched_def del: dropWhile_eq_Nil_conv)

lemma execvp_loop_correct:
  assumes K: "keeps m0 malloc free" "m0 \<subseteq>\<^sub>m w_mem w" and A: "answers T status tries"
    and at: "str_at m0 file name" "file \<noteq> NULL" "str_at m0 (l_dot L) (lit ''.'')"
    and seg: "str_at m0 segment xs" "segment \<noteq> NULL"
  shows "\<exists>r w'. execvp_loop T malloc free L env file argv segment w = Some (r, w') \<and>
    searched status tries (map (candidate name) (split_on colon_b xs)) (w_k w) r w'"
  using K(2) seg
proof (induction xs arbitrary: segment w rule: part_induct [where sep = colon_b])
  case empty
  then have "w_mem w segment = Some 0" by (auto simp: map_le_def dom_def)
  then show ?case by (simp add: execvp_loop.simps searched_def)
next
  case (part u)
  note sg = str_at_le [OF part.prems(2,1)]
  have u: "bytes_at m0 segment u" "0 \<notin> set u" using part.prems(2) by (auto simp: str_at_iff)
  obtain c where c: "w_mem w segment = Some c" "c \<noteq> 0" using str_at_head [OF sg] part.hyps by blast
  obtain full m where full: "malloc (length u + 1 + length name + 1) (w_mem w) = (full, m)" by fastforce
  have st: "strchr (w_mem w) segment (ic CHR '':'') = Some NULL"
    using strchr_colon [of "w_mem w" segment u "[]"] sg part.hyps by simp
  have l: "strlen (w_mem w) segment = Some (length u)" "strlen (w_mem w) file = Some (length name)"
    using strlen_correct [OF sg part.prems(3)] strlen_correct [OF str_at_le [OF at(1) part.prems(1)] at(2)] .
  from execvp_attempt [OF K(1) part.prems(1) A u(1) part.hyps(1) u(2) at(1) full, of env argv]
  show ?case using c st l full part.hyps
    by (subst execvp_loop.simps)
      (auto simp: searched_def candidate_def split_on_last split: if_splits)
next
  case (rest u ys)
  note sg = str_at_le [OF rest.prems(2,1)]
  let ?d = "if u = [] then lit ''.'' else u" and ?dir = "if u = [] then l_dot L else segment"
  have d: "bytes_at m0 ?dir ?d" "?d \<noteq> []" "0 \<notin> set ?d"
    using rest.prems(2) at(3) by (auto simp: str_at_iff)
  obtain c where c: "w_mem w segment = Some c" "c \<noteq> 0" using str_at_head [OF sg] by blast
  obtain full m where full: "malloc (length ?d + 1 + length name + 1) (w_mem w) = (full, m)" by fastforce
  have st: "strchr (w_mem w) segment (ic CHR '':'') = Some (segment + length u)"
    using strchr_colon [OF sg rest.hyps] by simp
  have l: "strlen (w_mem w) file = Some (length name)"
    by (rule strlen_correct [OF str_at_le [OF at(1) rest.prems(1)] at(2)])
  from execvp_attempt [OF K(1) rest.prems(1) A d at(1) full, of env argv]
  obtain m1 k where a: "full \<noteq> NULL" "join_path m full ?dir (length ?d) file (length name) = Some m1" "m0 \<subseteq>\<^sub>m free full m1"
    "tries k = tries (w_k w) @ [?d @ slash # name]" "execv_try T env full argv (w\<lparr>w_mem := m1\<rparr>) =
      (if status (?d @ slash # name) = G_SPAWN_STATUS_SUCCESSFUL then (0, w\<lparr>w_mem := m1, w_k := k\<rparr>)
       else (- 1, w\<lparr>w_mem := m1, w_k := k, w_errno := execve_status_to_errno (status (?d @ slash # name))\<rparr>))"
    by blast
  have go: "execvp_loop T malloc free L env file argv segment w =
    (case execv_try T env full argv (w\<lparr>w_mem := m1\<rparr>) of (ret, w) \<Rightarrow> let w = w\<lparr>w_mem := free full (w_mem w)\<rparr> in
      if ret \<noteq> - 1 \<or> w_errno w \<noteq> ENOENT then Some (ret, w)
      else execvp_loop T malloc free L env file argv (segment + length u + 1) w)"
    using c st l full a(1,2) rest.prems(3)
    by (subst execvp_loop.simps) (cases "u = []"; auto simp: Let_def split: prod.splits)
  have sp: "map (candidate name) (split_on colon_b (u @ colon_b # ys)) = (?d @ slash # name) # map (candidate name) (split_on colon_b ys)"
    by (simp only: split_on_rest [OF rest.hyps] list.map candidate_def)
  show ?case
  proof (cases "status (?d @ slash # name) = G_SPAWN_STATUS_DEPENDENCY_ERROR")
    case True
    let ?w = "w\<lparr>w_k := k, w_errno := ENOENT, w_mem := free full m1\<rparr>"
    have "\<exists>r w'. execvp_loop T malloc free L env file argv (segment + length u + 1) ?w = Some (r, w') \<and>
      searched status tries (map (candidate name) (split_on colon_b ys)) (w_k ?w) r w'"
      using a(3) str_at_rest [OF rest.prems(2)] by (intro rest.IH) simp_all
    then show ?thesis unfolding go a(5) sp using True a(4) searched_skip [where status = status and tries = tries and k = "w_k w" and k' = k and c = "?d @ slash # name", OF True a(4)]
      by (auto simp: execve_status_to_errno_def)
  next
    case False
    then show ?thesis unfolding go a(5) sp using a(4) by (simp add: searched_def)
  qed
qed

text \<open>A kernel for examples: it knows one program and keeps the list of the names asked for.\<close>

definition demo_tasks :: "byte list list task_calls" where
  "demo_tasks = \<lparr>sys_execve = (\<lambda>p argv env m k. case strlen m p of None \<Rightarrow> (1, k)
       | Some n \<Rightarrow> let s = ram_bytes m p n in (if s = lit ''/usr/bin/ls'' then 0 else 5, k @ [s])),
     sys_fork = Pair 7, sys_join = (\<lambda>t k. k), sys_get_tid = (\<lambda>k. 1), sys_current_pid = (\<lambda>k. 1),
     sys_get_parent_pid = (\<lambda>p k. 0), sys_kill = (\<lambda>p k. (0, k)), sys_sleep = (\<lambda>n k. k),
     sys_millis = (\<lambda>k. 0), sys_nanos = (\<lambda>k. 0)\<rparr>"

lemma demo_tasks_answers: "answers demo_tasks (\<lambda>s. if s = lit ''/usr/bin/ls'' then 0 else 5) (\<lambda>k. k)"
  unfolding answers_def
proof (intro allI impI)
  fix p s argv env m k
  assume "p \<noteq> NULL" "str_at m p s"
  then have "strlen m p = Some (length s)" "ram_bytes m p (length s) = s"
    by (auto simp: strlen_correct str_at_iff simp: ram_bytes_at)
  then show "\<exists>k'. sys_execve demo_tasks p argv env m k = (if s = lit ''/usr/bin/ls'' then 0 else 5, k') \<and> k' = k @ [s]"
    by (simp only: demo_tasks_def task_calls.select_convs option.case Let_def) blast
qed

definition demo_exec_mem :: mem where
  "demo_exec_mem = store (store (store (store (store (store (store Map.empty 100 (lit ''ls'' @ [0]))
     200 (lit ''PATH'' @ [0])) 300 (lit ''/bin:/usr/bin'' @ [0])) 400 (lit ''.'' @ [0]))
     500 (lit ''TERM'' @ [0])) 600 (lit ''vt100'' @ [0])) 700 [0]"

definition demo_exec_lits :: exec_lits where
  "demo_exec_lits = \<lparr>l_TERM = 500, l_vt100 = 600, l_empty = 700, l_PATH = 200, l_default_path = 300, l_dot = 400\<rparr>"

lemma demo_exec_mem_keeps: "keeps demo_exec_mem (\<lambda>n m. (1000, store m 1000 (replicate n 0))) (\<lambda>p m. m)"
proof -
  have "demo_exec_mem a = None" if "1000 \<le> a" for a using that by (simp add: demo_exec_mem_def store_other)
  then show ?thesis by (auto simp: keeps_def map_le_def store_apply mapped_iff)
qed

text \<open>The search through the directories of \<open>PATH\<close>.\<close>

lemma execvp_correct:
  assumes K: "keeps (w_mem w) malloc free" and A: "answers T status tries"
    and nm: "str_at (w_mem w) file name" "file \<noteq> NULL" "name \<noteq> []" "slash \<notin> set name"
    and env: "\<And>es. env = Some es \<Longrightarrow> env_at (w_mem w) es ss" "lits_at (w_mem w) (env_lits.truncate L)"
    and lits: "str_at (w_mem w) (l_PATH L) (lit ''PATH'')" "l_PATH L \<noteq> NULL"
      "str_at (w_mem w) (l_default_path L) (lit ''/bin:/usr/bin'')" "l_default_path L \<noteq> NULL"
      "str_at (w_mem w) (l_dot L) (lit ''.'')"
  shows "\<exists>r w'. execvp T malloc free L env file argv w = Some (r, w') \<and>
    searched status tries (map (candidate name) (split_on colon_b
      (case env_value env ss (lit ''PATH'') of None \<Rightarrow> lit ''/bin:/usr/bin''
       | Some v \<Rightarrow> if v = [] then lit ''/bin:/usr/bin'' else v))) (w_k w) r w'"
proof -
  let ?v = "case env_value env ss (lit ''PATH'') of None \<Rightarrow> lit ''/bin:/usr/bin''
    | Some v \<Rightarrow> if v = [] then lit ''/bin:/usr/bin'' else v"
  obtain c where c: "w_mem w file = Some c" "c \<noteq> 0" using str_at_head [OF nm(1,3)] by blast
  have "cv x = ic CHR ''/'' \<longleftrightarrow> x = slash" for x using cv_inj [of x slash] by (simp add: cv_def)
  then have "ic CHR ''/'' \<notin> cv ` set name" using nm(4) by (metis imageE)
  then have s: "strchr (w_mem w) file (ic CHR ''/'') = Some NULL"
    using strchr_correct [OF nm(1), of "ic CHR ''/''"] by (simp only: if_False)
  obtain p where p: "getenv (w_mem w) (env_lits.truncate L) env (l_PATH L) = Some p"
    "case env_value env ss (lit ''PATH'') of None \<Rightarrow> p = NULL | Some v \<Rightarrow> p \<noteq> NULL \<and> str_at (w_mem w) p v"
    using getenv_correct [OF env lits(1,2)] by blast
  have "\<exists>seg. str_at (w_mem w) seg ?v \<and> seg \<noteq> NULL \<and>
    execvp T malloc free L env file argv w = execvp_loop T malloc free L env file argv seg w"
  proof (cases "env_value env ss (lit ''PATH'')")
    case None
    then show ?thesis using p c s nm(2) lits(3,4)
      by (intro exI [of _ "l_default_path L"]) (simp add: execvp_def del: str_at.simps)
  next
    case (Some v)
    then have v: "p \<noteq> NULL" "str_at (w_mem w) p v" using p(2) by auto
    show ?thesis
    proof (cases "v = []")
      case True
      then show ?thesis using Some v p(1) c s nm(2) lits(3,4)
        by (intro exI [of _ "l_default_path L"]) (simp add: execvp_def)
    next
      case False
      then show ?thesis using str_at_head [OF v(2)] Some v p(1) c s nm(2)
        by (intro exI [of _ p]) (auto simp: execvp_def)
    qed
  qed
  then obtain seg where seg: "str_at (w_mem w) seg ?v" "seg \<noteq> NULL"
    "execvp T malloc free L env file argv w = execvp_loop T malloc free L env file argv seg w"
    by blast
  show ?thesis unfolding seg(3) by (rule execvp_loop_correct [OF K map_le_refl A nm(1,2) lits(5) seg(1,2)])
qed

text \<open>
  The kernel reports a file that does not exist as \<open>G_SPAWN_STATUS_IO_ERROR\<close>, which \<open>gsh\<close> prints as "command not
  found".  On this answer the search ends: what the later directories hold is not looked at.
\<close>

abbreviation (input) G_SPAWN_STATUS_IO_ERROR :: int where "G_SPAWN_STATUS_IO_ERROR \<equiv> 1"

lemma missing_ends_search:
  "searched status tries (c # cs) k r w \<Longrightarrow> status c = G_SPAWN_STATUS_IO_ERROR \<Longrightarrow>
    r = - 1 \<and> w_errno w = EIO \<and> tries (w_k w) = tries k @ [c]"
  by (simp add: searched_def execve_status_to_errno_def)

section \<open>Properties\<close>

text \<open>
  C37. \<open>execvp\<close> of a name without a slash asks the kernel for \<open>dir/name\<close>, for the directories of
  \<open>PATH\<close> (or of \<open>/bin:/usr/bin\<close> when it is not set) in their order, an empty directory standing for
  the current one, and stops at the first answer that is not \<open>G_SPAWN_STATUS_DEPENDENCY_ERROR\<close>: it
  returns 0 when the program was started and otherwise -1 with the error number of that answer,
  or with \<open>ENOENT\<close> when no directory is left.  The answer \<open>G_SPAWN_STATUS_IO_ERROR\<close>, a missing file, ends the
  search too, with \<open>EIO\<close>.
\<close>

theorem execvp_searches_path:
  assumes K: "keeps (w_mem w) malloc free" and A: "answers T status tries"
    and nm: "str_at (w_mem w) file name" "file \<noteq> NULL" "name \<noteq> []" "slash \<notin> set name"
    and env: "\<And>es. env = Some es \<Longrightarrow> env_at (w_mem w) es ss" "lits_at (w_mem w) (env_lits.truncate L)"
    and lits: "str_at (w_mem w) (l_PATH L) (lit ''PATH'')" "l_PATH L \<noteq> NULL"
      "str_at (w_mem w) (l_default_path L) (lit ''/bin:/usr/bin'')" "l_default_path L \<noteq> NULL"
      "str_at (w_mem w) (l_dot L) (lit ''.'')"
  shows "\<exists>r w'. execvp T malloc free L env file argv w = Some (r, w') \<and>
    searched status tries (map (candidate name) (split_on colon_b
      (case env_value env ss (lit ''PATH'') of None \<Rightarrow> lit ''/bin:/usr/bin''
       | Some v \<Rightarrow> if v = [] then lit ''/bin:/usr/bin'' else v))) (w_k w) r w'"
  by (rule execvp_correct) (fact assms)+

theorem execvp_searches_path_witness:
  "\<exists>r w'. execvp demo_tasks (\<lambda>n m. (1000, store m 1000 (replicate n 0))) (\<lambda>p m. m) demo_exec_lits None 100 []
      \<lparr>w_mem = demo_exec_mem, w_errno = 0, w_k = []\<rparr> = Some (r, w') \<and>
    r = 0 \<and> w_k w' = [lit ''/bin/ls'', lit ''/usr/bin/ls'']"
proof -
  let ?s = "\<lambda>s. if s = lit ''/usr/bin/ls'' then 0 else 5 :: int"
  let ?w = "\<lparr>w_mem = demo_exec_mem, w_errno = 0, w_k = []\<rparr> :: byte list list world"
  have "\<exists>r w'. execvp demo_tasks (\<lambda>n m. (1000, store m 1000 (replicate n 0))) (\<lambda>p m. m) demo_exec_lits None 100 [] ?w = Some (r, w') \<and>
    searched ?s (\<lambda>k. k) (map (candidate (lit ''ls'')) (split_on colon_b
      (case env_value None [] (lit ''PATH'') of None \<Rightarrow> lit ''/bin:/usr/bin''
       | Some v \<Rightarrow> if v = [] then lit ''/bin:/usr/bin'' else v))) (w_k ?w) r w'"
    by (rule execvp_searches_path [OF _ demo_tasks_answers], simp add: demo_exec_mem_keeps)
      (simp_all add: lits_at_def demo_exec_lits_def demo_exec_mem_def env_lits.truncate_def
        del: replicate.simps)
  moreover have "env_value None [] (lit ''PATH'') = None" by (simp add: env_value_def)
  moreover have "map (candidate (lit ''ls'')) (split_on colon_b (lit ''/bin:/usr/bin'')) = [lit ''/bin/ls'', lit ''/usr/bin/ls'']"
    by (simp add: candidate_def)
  ultimately show ?thesis by (auto simp: searched_def)
qed

end
