(* ===== verification/Files.thy ===== *)
theory Files
  imports Kernel_IO
begin

text \<open>
  Files and directories by name and by descriptor: \<open>dup\<close>, \<open>dup2\<close>, \<open>pipe\<close>, \<open>fcntl\<close>, \<open>access\<close>,
  \<open>chdir\<close>, \<open>getcwd\<close>, \<open>rmdir\<close> and \<open>sbrk\<close> of \<open>libc/src/unistd\<close>, \<open>remove\<close>, \<open>unlink\<close> and
  \<open>rename\<close> of \<open>libc/src/stdio\<close>, \<open>mkdir\<close> and the \<open>stat\<close> functions of \<open>libc/src/sys/stat\<close>, and
  the directory streams of \<open>libc/src/dirent\<close>.
\<close>

section \<open>System calls\<close>

record g_fs_stat_data =
  f_device :: int
  f_virtual_id :: int
  f_type :: int
  f_size :: int
  f_time_last_access :: int
  f_time_last_modification :: int
  f_time_creation :: int

text \<open>
  The calls of \<open>ghost/filesystem.h\<close>; each returns its status first.  The flag of \<open>sys_fs_stat_l\<close>
  says whether links are followed.
\<close>

record 'k fs_calls =
  sys_fs_stat :: "addr \<Rightarrow> mem \<Rightarrow> 'k \<Rightarrow> int \<times> g_fs_stat_data"
  sys_fs_stat_l :: "addr \<Rightarrow> bool \<Rightarrow> mem \<Rightarrow> 'k \<Rightarrow> int \<times> g_fs_stat_data"
  sys_fs_fstat :: "int \<Rightarrow> 'k \<Rightarrow> int \<times> g_fs_stat_data"
  sys_clone_fd :: "int \<Rightarrow> int \<Rightarrow> int \<Rightarrow> 'k \<Rightarrow> int \<times> 'k"
  sys_clone_fd_ts :: "int \<Rightarrow> int \<Rightarrow> int \<Rightarrow> int \<Rightarrow> 'k \<Rightarrow> int \<times> 'k"
  sys_pipe :: "'k \<Rightarrow> int \<times> int \<times> int \<times> 'k"
  sys_set_working_directory :: "addr \<Rightarrow> mem \<Rightarrow> 'k \<Rightarrow> int \<times> 'k"
  sys_get_working_directory :: "addr \<Rightarrow> nat \<Rightarrow> mem \<Rightarrow> 'k \<Rightarrow> int \<times> mem"
  sys_fs_rmdir :: "addr \<Rightarrow> mem \<Rightarrow> 'k \<Rightarrow> int \<times> 'k"
  sys_fs_unlink :: "addr \<Rightarrow> mem \<Rightarrow> 'k \<Rightarrow> int \<times> 'k"
  sys_fs_mkdir :: "addr \<Rightarrow> mem \<Rightarrow> 'k \<Rightarrow> int \<times> 'k"
  sys_fs_rename :: "addr \<Rightarrow> addr \<Rightarrow> mem \<Rightarrow> 'k \<Rightarrow> int \<times> 'k"
  sys_open_directory :: "addr \<Rightarrow> mem \<Rightarrow> 'k \<Rightarrow> int \<times> int \<times> 'k"
  sys_read_directory :: "int \<Rightarrow> 'k \<Rightarrow> int \<times> (int \<times> byte list) \<times> 'k"
  sys_close_directory :: "int \<Rightarrow> 'k \<Rightarrow> 'k"
  sys_sbrk :: "int \<Rightarrow> 'k \<Rightarrow> bool \<times> addr \<times> 'k"

abbreviation (input) G_FD_NONE :: int where "G_FD_NONE \<equiv> - 1"
abbreviation (input) G_FS_STAT_SUCCESS :: int where "G_FS_STAT_SUCCESS \<equiv> 0"
abbreviation (input) G_FS_STAT_NOT_FOUND :: int where "G_FS_STAT_NOT_FOUND \<equiv> 1"
abbreviation (input) G_FS_UNLINK_SUCCESSFUL :: int where "G_FS_UNLINK_SUCCESSFUL \<equiv> 0"
abbreviation (input) G_FS_UNLINK_NOT_FOUND :: int where "G_FS_UNLINK_NOT_FOUND \<equiv> 1"
abbreviation (input) G_FS_UNLINK_IS_DIRECTORY :: int where "G_FS_UNLINK_IS_DIRECTORY \<equiv> 2"
abbreviation (input) G_FS_UNLINK_BUSY :: int where "G_FS_UNLINK_BUSY \<equiv> 4"
abbreviation (input) G_FS_RMDIR_SUCCESSFUL :: int where "G_FS_RMDIR_SUCCESSFUL \<equiv> 0"
abbreviation (input) G_FS_RMDIR_NOT_FOUND :: int where "G_FS_RMDIR_NOT_FOUND \<equiv> 1"
abbreviation (input) G_FS_RMDIR_NOT_EMPTY :: int where "G_FS_RMDIR_NOT_EMPTY \<equiv> 2"
abbreviation (input) G_FS_RMDIR_NOT_A_DIRECTORY :: int where "G_FS_RMDIR_NOT_A_DIRECTORY \<equiv> 3"
abbreviation (input) G_FS_READ_DIRECTORY_SUCCESSFUL :: int where "G_FS_READ_DIRECTORY_SUCCESSFUL \<equiv> 0"
abbreviation (input) G_FS_READ_DIRECTORY_EOD :: int where "G_FS_READ_DIRECTORY_EOD \<equiv> 1"
abbreviation (input) G_FS_READ_DIRECTORY_ERROR :: int where "G_FS_READ_DIRECTORY_ERROR \<equiv> 2"
abbreviation (input) F_DUPFD :: int where "F_DUPFD \<equiv> 0"
abbreviation (input) F_GETFD :: int where "F_GETFD \<equiv> 1"
abbreviation (input) F_SETFD :: int where "F_SETFD \<equiv> 2"
abbreviation (input) F_GETFL :: int where "F_GETFL \<equiv> 3"
abbreviation (input) F_SETFL :: int where "F_SETFL \<equiv> 4"

section \<open>Descriptors\<close>

definition dup :: "'k platform \<Rightarrow> 'k fs_calls \<Rightarrow> int \<Rightarrow> ('k, 'z) world_scheme \<Rightarrow> int \<times> ('k, 'z) world_scheme" where
  "dup K X oldfd w =
     (let pid = sys_get_pid K (w_k w); (newfd, k) = sys_clone_fd X oldfd pid pid (w_k w); w = w\<lparr>w_k := k\<rparr> in
      (if newfd = G_FD_NONE then - 1 else newfd, w))"

definition dup2 :: "'k platform \<Rightarrow> 'k fs_calls \<Rightarrow> int \<Rightarrow> int \<Rightarrow> ('k, 'z) world_scheme \<Rightarrow> int \<times> ('k, 'z) world_scheme" where
  "dup2 K X oldfd newfd w =
     (if newfd < 0 then (- 1, w)
      else if oldfd = newfd then (newfd, w)
      else
        let pid = sys_get_pid K (w_k w); (res, k) = sys_clone_fd_ts X oldfd pid newfd pid (w_k w); w = w\<lparr>w_k := k\<rparr> in
        (if res = G_FD_NONE then - 1 else res, w))"

text \<open>The array \<open>fds\<close> of two descriptors is the second result, \<open>None\<close> when it is not written.\<close>

definition pipe :: "'k fs_calls \<Rightarrow> bool \<Rightarrow> ('k, 'z) world_scheme \<Rightarrow> int \<times> (int \<times> int) option \<times> ('k, 'z) world_scheme" where
  "pipe X fds_given w =
     (if \<not> fds_given then (- 1, None, w)
      else let (st, wr_end, rd_end, k) = sys_pipe X (w_k w); w = w\<lparr>w_k := k\<rparr> in
        if st \<noteq> 0 then (- 1, None, w) else (0, Some (rd_end, wr_end), w))"

definition fcntl_check_fd :: "'k fs_calls \<Rightarrow> int \<Rightarrow> ('k, 'z) world_scheme \<Rightarrow> int \<times> ('k, 'z) world_scheme" where
  "fcntl_check_fd X fildes w =
     (if fst (sys_fs_fstat X fildes (w_k w)) \<noteq> G_FS_STAT_SUCCESS then (- 1, w\<lparr>w_errno := EBADF\<rparr>) else (0, w))"

text \<open>\<open>arg\<close> is the third argument, read for \<open>F_DUPFD\<close>, \<open>F_SETFD\<close> and \<open>F_SETFL\<close>.\<close>

definition fcntl ::
  "'k platform \<Rightarrow> 'k fs_calls \<Rightarrow> int \<Rightarrow> int \<Rightarrow> int \<Rightarrow> ('k, 'z) world_scheme \<Rightarrow> int \<times> ('k, 'z) world_scheme" where
  "fcntl K X fildes cmd arg w =
     (if cmd = F_DUPFD then
        let minfd = arg in
        if minfd < 0 then (- 1, w\<lparr>w_errno := EINVAL\<rparr>)
        else
          let pid = sys_get_pid K (w_k w); (newfd, k) = sys_clone_fd_ts X fildes pid minfd pid (w_k w); w = w\<lparr>w_k := k\<rparr> in
          if newfd = G_FD_NONE then (- 1, w\<lparr>w_errno := EBADF\<rparr>) else (newfd, w)
      else if cmd = F_GETFD \<or> cmd = F_SETFD \<or> cmd = F_GETFL \<or> cmd = F_SETFL then
        let (r, w) = fcntl_check_fd X fildes w in if r < 0 then (- 1, w) else (0, w)
      else (- 1, w\<lparr>w_errno := ENOSYS\<rparr>))"

definition sbrk :: "'k fs_calls \<Rightarrow> int \<Rightarrow> ('k, 'z) world_scheme \<Rightarrow> addr option \<times> ('k, 'z) world_scheme" where
  "sbrk X increment w =
     (let (ok, res, k) = sys_sbrk X increment (w_k w); w = w\<lparr>w_k := k\<rparr> in
      if ok then (Some res, w) else (None, w\<lparr>w_errno := ENOMEM\<rparr>))"

section \<open>Names\<close>

text \<open>\<open>mode\<close> is not used.\<close>

definition access :: "'k fs_calls \<Rightarrow> addr \<Rightarrow> int \<Rightarrow> ('k, 'z) world_scheme \<Rightarrow> int \<times> ('k, 'z) world_scheme" where
  "access X pathname mode w =
     (if pathname = NULL then (- 1, w\<lparr>w_errno := EINVAL\<rparr>)
      else let status = fst (sys_fs_stat X pathname (w_mem w) (w_k w)) in
        if status = G_FS_STAT_SUCCESS then (0, w)
        else if status = G_FS_STAT_NOT_FOUND then (- 1, w\<lparr>w_errno := ENOENT\<rparr>)
        else (- 1, w\<lparr>w_errno := EIO\<rparr>))"

definition chdir :: "'k fs_calls \<Rightarrow> addr \<Rightarrow> ('k, 'z) world_scheme \<Rightarrow> int \<times> ('k, 'z) world_scheme" where
  "chdir X path w =
     (let (status, k) = sys_set_working_directory X path (w_mem w) (w_k w); w = w\<lparr>w_k := k\<rparr> in
      if status = 0 then (0, w)
      else if status = 1 then (- 1, w\<lparr>w_errno := ENOTDIR\<rparr>)
      else if status = 2 then (- 1, w\<lparr>w_errno := ENOENT\<rparr>)
      else (- 1, w\<lparr>w_errno := EIO\<rparr>))"

definition getcwd :: "'k fs_calls \<Rightarrow> addr \<Rightarrow> nat \<Rightarrow> ('k, 'z) world_scheme \<Rightarrow> addr \<times> ('k, 'z) world_scheme" where
  "getcwd X buf sz w =
     (let (st, m) = sys_get_working_directory X buf sz (w_mem w) (w_k w); w = w\<lparr>w_mem := m\<rparr> in
      if st = 0 then (buf, w)
      else if st = 1 then (NULL, w\<lparr>w_errno := ERANGE\<rparr>)
      else (NULL, w))"

text \<open>The error numbers of the status of \<open>g_fs_rmdir\<close>, used by \<open>rmdir\<close> and \<open>remove\<close>.\<close>

definition rmdir_errno :: "int \<Rightarrow> int" where
  "rmdir_errno status =
     (if status = G_FS_RMDIR_NOT_FOUND then ENOENT
      else if status = G_FS_RMDIR_NOT_EMPTY then ENOTEMPTY
      else if status = G_FS_RMDIR_NOT_A_DIRECTORY then ENOTDIR
      else EIO)"

definition rmdir :: "'k fs_calls \<Rightarrow> addr \<Rightarrow> ('k, 'z) world_scheme \<Rightarrow> int \<times> ('k, 'z) world_scheme" where
  "rmdir X path w =
     (let (status, k) = sys_fs_rmdir X path (w_mem w) (w_k w); w = w\<lparr>w_k := k\<rparr> in
      if status = G_FS_RMDIR_SUCCESSFUL then (0, w) else (- 1, w\<lparr>w_errno := rmdir_errno status\<rparr>))"

definition remove :: "'k fs_calls \<Rightarrow> addr \<Rightarrow> ('k, 'z) world_scheme \<Rightarrow> int \<times> ('k, 'z) world_scheme" where
  "remove X filename w =
     (let (status, k) = sys_fs_unlink X filename (w_mem w) (w_k w); w = w\<lparr>w_k := k\<rparr> in
      if status = G_FS_UNLINK_SUCCESSFUL then (0, w)
      else if status = G_FS_UNLINK_IS_DIRECTORY then
        let (rstatus, k) = sys_fs_rmdir X filename (w_mem w) (w_k w); w = w\<lparr>w_k := k\<rparr> in
        if rstatus = G_FS_RMDIR_SUCCESSFUL then (0, w) else (- 1, w\<lparr>w_errno := rmdir_errno rstatus\<rparr>)
      else if status = G_FS_UNLINK_NOT_FOUND then (- 1, w\<lparr>w_errno := ENOENT\<rparr>)
      else if status = G_FS_UNLINK_BUSY then (- 1, w\<lparr>w_errno := EBUSY\<rparr>)
      else (- 1, w\<lparr>w_errno := EIO\<rparr>))"

definition unlink :: "'k fs_calls \<Rightarrow> addr \<Rightarrow> ('k, 'z) world_scheme \<Rightarrow> int \<times> ('k, 'z) world_scheme" where
  "unlink X filename w =
     (let (status, k) = sys_fs_unlink X filename (w_mem w) (w_k w); w = w\<lparr>w_k := k\<rparr> in
      if status = G_FS_UNLINK_SUCCESSFUL then (0, w)
      else if status = G_FS_UNLINK_NOT_FOUND then (- 1, w\<lparr>w_errno := ENOENT\<rparr>)
      else if status = G_FS_UNLINK_IS_DIRECTORY then (- 1, w\<lparr>w_errno := EISDIR\<rparr>)
      else if status = G_FS_UNLINK_BUSY then (- 1, w\<lparr>w_errno := EBUSY\<rparr>)
      else (- 1, w\<lparr>w_errno := EIO\<rparr>))"

definition rename :: "'k fs_calls \<Rightarrow> addr \<Rightarrow> addr \<Rightarrow> ('k, 'z) world_scheme \<Rightarrow> int \<times> ('k, 'z) world_scheme" where
  "rename X old_name new_name w =
     (let (status, k) = sys_fs_rename X old_name new_name (w_mem w) (w_k w); w = w\<lparr>w_k := k\<rparr> in
      if status = 0 then (0, w)
      else if status = 1 then (- 1, w\<lparr>w_errno := ENOENT\<rparr>)
      else if status = 2 then (- 1, w\<lparr>w_errno := EEXIST\<rparr>)
      else if status = 3 then (- 1, w\<lparr>w_errno := EXDEV\<rparr>)
      else if status = 4 then (- 1, w\<lparr>w_errno := EINVAL\<rparr>)
      else (- 1, w\<lparr>w_errno := EIO\<rparr>))"

definition mkdir :: "'k fs_calls \<Rightarrow> addr \<Rightarrow> int \<Rightarrow> ('k, 'z) world_scheme \<Rightarrow> int \<times> ('k, 'z) world_scheme" where
  "mkdir X path mode w =
     (let (status, k) = sys_fs_mkdir X path (w_mem w) (w_k w); w = w\<lparr>w_k := k\<rparr> in
      if status = 0 then (0, w)
      else if status = 1 then (- 1, w\<lparr>w_errno := EEXIST\<rparr>)
      else if status = 2 then (- 1, w\<lparr>w_errno := ENOENT\<rparr>)
      else if status = 3 then (- 1, w\<lparr>w_errno := ENOTDIR\<rparr>)
      else (- 1, w\<lparr>w_errno := EIO\<rparr>))"

section \<open>File information\<close>

record stat_buf =
  st_dev :: int
  st_ino :: int
  st_mode :: int
  st_nlink :: int
  st_uid :: int
  st_gid :: int
  st_size :: int
  st_atime :: int
  st_mtime :: int
  st_ctime :: int
  st_blksize :: int
  st_blocks :: int

text \<open>The bits of \<open>sys/stat.h\<close>, as they are defined there: \<open>S_IROTH\<close> is 03.\<close>

abbreviation (input) S_IWOTH :: int where "S_IWOTH \<equiv> 2"
abbreviation (input) S_IROTH :: int where "S_IROTH \<equiv> 3"
abbreviation (input) S_IRWXO :: int where "S_IRWXO \<equiv> 7"
abbreviation (input) S_IWGRP :: int where "S_IWGRP \<equiv> 16"
abbreviation (input) S_IRGRP :: int where "S_IRGRP \<equiv> 32"
abbreviation (input) S_IRWXG :: int where "S_IRWXG \<equiv> 56"
abbreviation (input) S_IWUSR :: int where "S_IWUSR \<equiv> 128"
abbreviation (input) S_IRUSR :: int where "S_IRUSR \<equiv> 256"
abbreviation (input) S_IRWXU :: int where "S_IRWXU \<equiv> 448"
abbreviation (input) S_IFIFO :: int where "S_IFIFO \<equiv> 4096"
abbreviation (input) S_IFDIR :: int where "S_IFDIR \<equiv> 16384"
abbreviation (input) S_IFREG :: int where "S_IFREG \<equiv> 32768"

unbundle bit_operations_syntax

definition stat_mode :: "int \<Rightarrow> int" where
  "stat_mode type =
     (if type = 4 then S_IFREG OR (S_IRUSR OR S_IWUSR OR S_IRGRP OR S_IWGRP OR S_IROTH OR S_IWOTH)
      else if type = 3 \<or> type = 2 \<or> type = 1 then S_IFDIR OR (S_IRWXU OR S_IRWXG OR S_IRWXO)
      else if type = 5 then S_IFIFO OR (S_IRUSR OR S_IWUSR OR S_IRGRP OR S_IWGRP OR S_IROTH OR S_IWOTH)
      else 0)"

definition stat_from_g_fs_stat :: "g_fs_stat_data \<Rightarrow> stat_buf" where
  "stat_from_g_fs_stat from = \<lparr>
     st_dev = f_device from,
     st_ino = f_virtual_id from,
     st_mode = stat_mode (f_type from),
     st_nlink = 1,
     st_uid = 0,
     st_gid = 0,
     st_size = s64 (f_size from),
     st_atime = f_time_last_access from,
     st_mtime = f_time_last_modification from,
     st_ctime = f_time_creation from,
     st_blksize = 4096,
     st_blocks = (if f_size from > 0 then s32 (u64 (f_size from + 511) div 512) else 0)\<rparr>"

definition stat_result :: "int \<times> g_fs_stat_data \<Rightarrow> int \<times> stat_buf option" where
  "stat_result r = (let (status, data) = r in
     if status \<noteq> G_FS_STAT_SUCCESS then (- 1, None) else (0, Some (stat_from_g_fs_stat data)))"

definition stat :: "'k fs_calls \<Rightarrow> addr \<Rightarrow> ('k, 'z) world_scheme \<Rightarrow> int \<times> stat_buf option" where
  "stat X pathname w = stat_result (sys_fs_stat X pathname (w_mem w) (w_k w))"

definition lstat :: "'k fs_calls \<Rightarrow> addr \<Rightarrow> ('k, 'z) world_scheme \<Rightarrow> int \<times> stat_buf option" where
  "lstat X pathname w = stat_result (sys_fs_stat_l X pathname False (w_mem w) (w_k w))"

definition fstat :: "'k fs_calls \<Rightarrow> int \<Rightarrow> ('k, 'z) world_scheme \<Rightarrow> int \<times> stat_buf option" where
  "fstat X fd w = stat_result (sys_fs_fstat X fd (w_k w))"

section \<open>Directory streams\<close>

record dirent =
  d_fileno :: int
  d_reclen :: int
  d_namlen :: nat
  d_dev :: int
  d_type :: int
  d_name :: "byte list"

text \<open>
  A stream is an object of its own; \<open>dirs\<close> are those allocated, with the entry buffer each owns.
  The pointers \<open>malloc\<close> returns are not tested: a null pointer is a fault.
\<close>

record DIR =
  entbuf :: addr
  ent :: dirent
  iter :: int
  dir_lock :: nat

record 'k dir_world = "'k world" +
  dirs :: "addr \<rightharpoonup> DIR"

definition blank_dirent :: dirent where
  "blank_dirent = \<lparr>d_fileno = 0, d_reclen = 0, d_namlen = 0, d_dev = 0, d_type = 0, d_name = []\<rparr>"

definition opendir :: "'k platform \<Rightarrow> 'k fs_calls \<Rightarrow> addr \<Rightarrow> 'k dir_world \<Rightarrow> (addr \<times> 'k dir_world) option" where
  "opendir K X path w =
     (let (status, it, k) = sys_open_directory X path (w_mem w) (w_k w); w = w\<lparr>w_k := k\<rparr> in
      if status = 0 then
        let (dir, m) = heap_malloc K 24 (w_mem w);
            (buf, m) = heap_malloc K 544 m;
            (l, k) = mutex_initialize K (w_k w) in
        if dir = NULL then None
        else Some (dir, w\<lparr>w_mem := m, w_k := k,
          dirs := (dirs w)(dir \<mapsto> \<lparr>entbuf = buf, ent = blank_dirent, iter = it, dir_lock = l\<rparr>)\<rparr>)
      else if status = 1 then Some (NULL, w\<lparr>w_errno := ENOENT\<rparr>)
      else if status = 2 then Some (NULL, w\<lparr>w_errno := EIO\<rparr>)
      else Some (NULL, w))"

text \<open>
  The name is copied to an array of \<open>G_FILENAME_MAX\<close> bytes: a longer one is written behind it.  The
  result is the entry read, if any.
\<close>

definition readdir :: "'k fs_calls \<Rightarrow> addr \<Rightarrow> 'k dir_world \<Rightarrow> (dirent option \<times> 'k dir_world) option" where
  "readdir X dir w = do {
     d \<leftarrow> dirs w dir;
     let (status, (node, name), k) = sys_read_directory X (iter d) (w_k w);
     let w = w\<lparr>w_k := k\<rparr>;
     if status = G_FS_READ_DIRECTORY_SUCCESSFUL then
       if entbuf d = NULL \<or> length name \<ge> 512 then None
       else
         let e = \<lparr>d_fileno = node, d_reclen = ULONG_MAX, d_namlen = length name, d_dev = - 1, d_type = 255, d_name = name\<rparr> in
         Some (Some e, w\<lparr>dirs := (dirs w)(dir \<mapsto> d\<lparr>ent := e\<rparr>)\<rparr>)
     else if status = G_FS_READ_DIRECTORY_EOD then Some (None, w)
     else if status = G_FS_READ_DIRECTORY_ERROR then Some (None, w\<lparr>w_errno := EIO\<rparr>)
     else Some (None, w)
   }"

text \<open>
  The results are the returned error number, what \<open>*entry\<close> is set to and whether \<open>*result\<close> is set
  (to null): it is not set when an entry was read.
\<close>

definition readdir_r ::
  "'k platform \<Rightarrow> 'k fs_calls \<Rightarrow> addr \<Rightarrow> 'k dir_world \<Rightarrow> (int \<times> dirent option \<times> addr option \<times> 'k dir_world) option" where
  "readdir_r K X dirp w = do {
     d \<leftarrow> dirs w dirp;
     k \<leftarrow> mutex_acquire K (dir_lock d) (w_k w);
     (entryFound, w) \<leftarrow> readdir X dirp (w\<lparr>w_k := k, w_errno := 0\<rparr>);
     d \<leftarrow> dirs w dirp;
     let (entry, result) = (case entryFound of Some e \<Rightarrow> (Some (ent d), None) | None \<Rightarrow> (None, Some NULL));
     Some (w_errno w, entry, result, w\<lparr>w_k := mutex_release K (dir_lock d) (w_k w)\<rparr>)
   }"

definition closedir :: "'k platform \<Rightarrow> 'k fs_calls \<Rightarrow> addr \<Rightarrow> 'k dir_world \<Rightarrow> (int \<times> 'k dir_world) option" where
  "closedir K X dir w = do {
     d \<leftarrow> dirs w dir;
     let w = w\<lparr>w_k := sys_close_directory X (iter d) (w_k w)\<rparr>;
     let m = heap_free K dir (heap_free K (entbuf d) (w_mem w));
     Some (0, w\<lparr>w_mem := m, dirs := (dirs w)(dir := None)\<rparr>)
   }"

section \<open>The tree of files\<close>

text \<open>
  What the calls promise: \<open>fs k\<close> maps the names that exist to whether they are directories.  A file
  may be in use and a device may fail; then nothing changes.
\<close>

definition has_children :: "(byte list \<rightharpoonup> bool) \<Rightarrow> byte list \<Rightarrow> bool" where
  "has_children t p \<longleftrightarrow> (\<exists>q. t (p @ bc CHR ''/'' # q) \<noteq> None)"

definition unlinks :: "'k fs_calls \<Rightarrow> ('k \<Rightarrow> byte list \<rightharpoonup> bool) \<Rightarrow> bool" where
  "unlinks X fs \<longleftrightarrow> (\<forall>a p m k. str_at m a p \<longrightarrow> (case sys_fs_unlink X a m k of (status, k') \<Rightarrow>
     case fs k p of
       None \<Rightarrow> status = G_FS_UNLINK_NOT_FOUND \<and> fs k' = fs k
     | Some True \<Rightarrow> status = G_FS_UNLINK_IS_DIRECTORY \<and> fs k' = fs k
     | Some False \<Rightarrow> status = G_FS_UNLINK_SUCCESSFUL \<and> fs k' = (fs k)(p := None) \<or>
         status \<in> {3, G_FS_UNLINK_BUSY} \<and> fs k' = fs k))"

definition rmdirs :: "'k fs_calls \<Rightarrow> ('k \<Rightarrow> byte list \<rightharpoonup> bool) \<Rightarrow> bool" where
  "rmdirs X fs \<longleftrightarrow> (\<forall>a p m k. str_at m a p \<longrightarrow> (case sys_fs_rmdir X a m k of (status, k') \<Rightarrow>
     case fs k p of
       None \<Rightarrow> status = G_FS_RMDIR_NOT_FOUND \<and> fs k' = fs k
     | Some False \<Rightarrow> status = G_FS_RMDIR_NOT_A_DIRECTORY \<and> fs k' = fs k
     | Some True \<Rightarrow>
         if has_children (fs k) p then status = G_FS_RMDIR_NOT_EMPTY \<and> fs k' = fs k
         else status = G_FS_RMDIR_SUCCESSFUL \<and> fs k' = (fs k)(p := None) \<or> status = 4 \<and> fs k' = fs k))"

text \<open>A kernel for examples: its state is the tree, which never fails.\<close>

definition demo_path :: "mem \<Rightarrow> addr \<Rightarrow> byte list" where
  "demo_path m a = (case strlen_loop m a 0 of None \<Rightarrow> [] | Some n \<Rightarrow> ram_bytes m a n)"

lemma demo_path_str: "str_at m a p \<Longrightarrow> demo_path m a = p"
  using strlen_loop_correct [of m a 0 p]
  by (auto simp: demo_path_def ram_bytes_def str_at_iff bytes_at_iff nth_append intro!: nth_equalityI)

definition no_stat :: g_fs_stat_data where
  "no_stat = \<lparr>f_device = 0, f_virtual_id = 0, f_type = 0, f_size = 0, f_time_last_access = 0,
     f_time_last_modification = 0, f_time_creation = 0\<rparr>"

definition demo_fs :: "(byte list \<rightharpoonup> bool) fs_calls" where
  "demo_fs = \<lparr>sys_fs_stat = (\<lambda>a m t. (2, no_stat)), sys_fs_stat_l = (\<lambda>a b m t. (2, no_stat)),
     sys_fs_fstat = (\<lambda>d t. (3, no_stat)), sys_clone_fd = (\<lambda>d p q t. (- 1, t)), sys_clone_fd_ts = (\<lambda>d p e q t. (- 1, t)),
     sys_pipe = (\<lambda>t. (1, 0, 0, t)), sys_set_working_directory = (\<lambda>a m t. (3, t)),
     sys_get_working_directory = (\<lambda>a n m t. (2, m)),
     sys_fs_rmdir = (\<lambda>a m t. case t (demo_path m a) of None \<Rightarrow> (1, t) | Some False \<Rightarrow> (3, t)
       | Some True \<Rightarrow> if has_children t (demo_path m a) then (2, t) else (0, t(demo_path m a := None))),
     sys_fs_unlink = (\<lambda>a m t. case t (demo_path m a) of None \<Rightarrow> (1, t) | Some True \<Rightarrow> (2, t)
       | Some False \<Rightarrow> (0, t(demo_path m a := None))),
     sys_fs_mkdir = (\<lambda>a m t. (4, t)), sys_fs_rename = (\<lambda>a b m t. (5, t)), sys_open_directory = (\<lambda>a m t. (2, 0, t)),
     sys_read_directory = (\<lambda>i t. (1, (0, []), t)), sys_close_directory = (\<lambda>i t. t), sys_sbrk = (\<lambda>n t. (False, 0, t))\<rparr>"

lemma demo_fs_unlinks: "unlinks demo_fs (\<lambda>t. t)"
  by (auto simp: unlinks_def demo_fs_def demo_path_str split: option.splits bool.splits)

lemma demo_fs_rmdirs: "rmdirs demo_fs (\<lambda>t. t)"
  by (auto simp: rmdirs_def demo_fs_def demo_path_str split: option.splits bool.splits)

lemma unlinksD:
  assumes "unlinks X fs" "str_at m a p"
  obtains status k' where "sys_fs_unlink X a m k = (status, k')"
    "case fs k p of
       None \<Rightarrow> status = G_FS_UNLINK_NOT_FOUND \<and> fs k' = fs k
     | Some True \<Rightarrow> status = G_FS_UNLINK_IS_DIRECTORY \<and> fs k' = fs k
     | Some False \<Rightarrow> status = G_FS_UNLINK_SUCCESSFUL \<and> fs k' = (fs k)(p := None) \<or>
         status \<in> {3, G_FS_UNLINK_BUSY} \<and> fs k' = fs k"
  using assms unfolding unlinks_def by (metis (no_types, lifting) case_prodE)

lemma rmdirsD:
  assumes "rmdirs X fs" "str_at m a p"
  obtains status k' where "sys_fs_rmdir X a m k = (status, k')"
    "case fs k p of
       None \<Rightarrow> status = G_FS_RMDIR_NOT_FOUND \<and> fs k' = fs k
     | Some False \<Rightarrow> status = G_FS_RMDIR_NOT_A_DIRECTORY \<and> fs k' = fs k
     | Some True \<Rightarrow>
         if has_children (fs k) p then status = G_FS_RMDIR_NOT_EMPTY \<and> fs k' = fs k
         else status = G_FS_RMDIR_SUCCESSFUL \<and> fs k' = (fs k)(p := None) \<or> status = 4 \<and> fs k' = fs k"
  using assms unfolding rmdirs_def by (metis (no_types, lifting) case_prodE)

section \<open>Deviations\<close>

text \<open>
  With \<open>S_IROTH\<close> defined as 03 a file is reported as executable, and not readable, for others
  (0100663 instead of 0100666).
\<close>

lemma file_mode: "st_mode (stat_from_g_fs_stat d) = 33203" if "f_type d = 4" for d
  using that by (simp add: stat_from_g_fs_stat_def stat_mode_def)

text \<open>\<open>readdir_r\<close> leaves \<open>*result\<close> alone exactly when it has read an entry.\<close>

lemma readdir_r_result: "readdir_r K X dirp w = Some (r, e, res, w') \<Longrightarrow> res = None \<longleftrightarrow> e \<noteq> None"
  by (auto simp: readdir_r_def bind_eq_Some_conv split: option.splits)

section \<open>Properties\<close>

text \<open>
  C38. \<open>remove\<close> deletes a file or an empty directory, whole and nothing else, and otherwise returns
  -1, changes nothing and says why: \<open>ENOENT\<close> for a name that does not exist, \<open>ENOTEMPTY\<close> for a
  directory with entries, \<open>EBUSY\<close> or \<open>EIO\<close> when the device refuses.
\<close>

theorem remove_all_or_nothing:
  assumes "unlinks X fs" "rmdirs X fs" "str_at (w_mem w) a p"
  shows "\<exists>r w'. remove X a w = (r, w') \<and>
    (r = 0 \<and> fs (w_k w) p \<noteq> None \<and> (fs (w_k w) p = Some True \<longrightarrow> \<not> has_children (fs (w_k w)) p) \<and>
       fs (w_k w') = (fs (w_k w))(p := None) \<and> w_errno w' = w_errno w \<or>
     r = - 1 \<and> fs (w_k w') = fs (w_k w) \<and>
       (if fs (w_k w) p = None then w_errno w' = ENOENT
        else if fs (w_k w) p = Some True \<and> has_children (fs (w_k w)) p then w_errno w' = ENOTEMPTY
        else w_errno w' \<in> {EBUSY, EIO}))"
proof -
  obtain s k' where u: "sys_fs_unlink X a (w_mem w) (w_k w) = (s, k')"
    "case fs (w_k w) p of None \<Rightarrow> s = 1 \<and> fs k' = fs (w_k w)
     | Some True \<Rightarrow> s = 2 \<and> fs k' = fs (w_k w)
     | Some False \<Rightarrow> s = 0 \<and> fs k' = (fs (w_k w))(p := None) \<or> s \<in> {3, 4} \<and> fs k' = fs (w_k w)"
    using unlinksD [OF assms(1,3)] by metis
  obtain r k'' where d: "sys_fs_rmdir X a (w_mem w) k' = (r, k'')"
    "case fs k' p of None \<Rightarrow> r = 1 \<and> fs k'' = fs k'
     | Some False \<Rightarrow> r = 3 \<and> fs k'' = fs k'
     | Some True \<Rightarrow> if has_children (fs k') p then r = 2 \<and> fs k'' = fs k'
         else r = 0 \<and> fs k'' = (fs k')(p := None) \<or> r = 4 \<and> fs k'' = fs k'"
    using rmdirsD [OF assms(2,3)] by metis
  consider "fs (w_k w) p = None" | "fs (w_k w) p = Some False" | "fs (w_k w) p = Some True" by (metis (full_types) option.exhaust)
  then show ?thesis
  proof cases
    case 3
    then show ?thesis using u d by (auto simp: remove_def rmdir_errno_def split: if_splits)
  qed (use u in \<open>auto simp: remove_def\<close>)
qed

theorem remove_all_or_nothing_witness:
  "\<exists>r w'. remove demo_fs 100 \<lparr>w_mem = store Map.empty 100 (lit ''/d'' @ [0]), w_errno = 0,
      w_k = [lit ''/d'' \<mapsto> True, lit ''/d/f'' \<mapsto> False]\<rparr> = (r, w') \<and>
    (r = 0 \<or> w_errno w' = ENOTEMPTY) \<and> w_k w' (lit ''/d/f'') = Some False"
proof -
  let ?w = "\<lparr>w_mem = store Map.empty 100 (lit ''/d'' @ [0]), w_errno = 0, w_k = [lit ''/d'' \<mapsto> True, lit ''/d/f'' \<mapsto> False]\<rparr> :: (byte list \<rightharpoonup> bool) world"
  have c: "has_children (w_k ?w) (lit ''/d'')" by (auto simp: has_children_def intro: exI [of _ "lit ''f''"])
  have "str_at (w_mem ?w) 100 (lit ''/d'')" by simp
  from remove_all_or_nothing [OF demo_fs_unlinks demo_fs_rmdirs this]
  show ?thesis using c by (auto simp: has_children_def)
qed

end
