(* ===== verification/Signals.thy ===== *)
theory Signals
  imports Process
begin

text \<open>
  Signals: the table of handlers and \<open>raise\<close>, \<open>signal\<close>, \<open>sigaction\<close>, \<open>kill\<close>, \<open>sigprocmask\<close>,
  \<open>strsignal\<close> and the sets of signals of \<open>libc/src/signal\<close>.
\<close>

abbreviation (input) SIG_COUNT :: int where "SIG_COUNT \<equiv> 32"
abbreviation (input) ESRCH :: int where "ESRCH \<equiv> 76"
abbreviation (input) SIGHUP :: int where "SIGHUP \<equiv> 1"
abbreviation (input) SIGINT :: int where "SIGINT \<equiv> 2"
abbreviation (input) SIGTERM :: int where "SIGTERM \<equiv> 15"

section \<open>Handlers\<close>

text \<open>
  A handler is \<open>SIG_DFL\<close> (the null pointer), \<open>SIG_IGN\<close> or a function \<open>'h\<close> of the program.
  \<open>signal\<close> returns \<open>SIG_ERR\<close> or the previous handler.
\<close>

datatype 'h handler = SIG_DFL | SIG_IGN | SIG_ERR | Handler 'h

record 'h signals =
  s_errno :: int
  signal_handlers :: "'h handler list"

definition initial_signals :: "'h signals" where
  "initial_signals = \<lparr>s_errno = 0, signal_handlers = replicate 32 SIG_DFL\<rparr>"

definition signal :: "int \<Rightarrow> 'h handler \<Rightarrow> 'h signals \<Rightarrow> 'h handler \<times> 'h signals" where
  "signal sig handler s =
     (if sig < 0 \<or> sig \<ge> SIG_COUNT then (SIG_ERR, s\<lparr>s_errno := EINVAL\<rparr>)
      else (signal_handlers s ! nat sig, s\<lparr>signal_handlers := (signal_handlers s)[nat sig := handler]\<rparr>))"

record 'h sigaction_t =
  sa_handler :: "'h handler"
  sa_mask :: "32 word"
  sa_flags :: int

text \<open>\<open>act\<close> is \<open>None\<close> when the pointer is null; the old action is returned if it is asked for.\<close>

definition sigaction ::
  "int \<Rightarrow> 'h sigaction_t option \<Rightarrow> bool \<Rightarrow> 'h signals \<Rightarrow> int \<times> 'h sigaction_t option \<times> 'h signals" where
  "sigaction sig act want_old s =
     (if sig \<le> 0 \<or> sig \<ge> SIG_COUNT then (- 1, None, s\<lparr>s_errno := EINVAL\<rparr>)
      else
        let oldact = (if want_old then Some \<lparr>sa_handler = signal_handlers s ! nat sig, sa_mask = 0, sa_flags = 0\<rparr> else None);
            s = (case act of None \<Rightarrow> s | Some a \<Rightarrow> s\<lparr>signal_handlers := (signal_handlers s)[nat sig := sa_handler a]\<rparr>) in
        (0, oldact, s))"

text \<open>What \<open>raise\<close> leads to: it returns, calls a function of the program and returns, ends the
  process or, with \<open>SIG_ERR\<close> installed, jumps to the address -1.\<close>

datatype 'h raised = Returns int | Calls_Handler 'h int | Exits int | Aborts | Faults

definition raise_signal :: "int \<Rightarrow> 'h signals \<Rightarrow> 'h raised \<times> 'h signals" where
  "raise_signal sig s =
     (if sig < 0 \<or> sig \<ge> SIG_COUNT then (Returns (- 1), s\<lparr>s_errno := EINVAL\<rparr>)
      else (case signal_handlers s ! nat sig of
        SIG_IGN \<Rightarrow> (Returns 0, s)
      | SIG_DFL \<Rightarrow>
          if sig = SIGHUP \<or> sig = SIGTERM then (Exits 0, s)
          else if sig = SIGINT then (Exits 0, s)
          else (Aborts, s)
      | Handler h \<Rightarrow> (Calls_Handler h sig, s)
      | SIG_ERR \<Rightarrow> (Faults, s)))"

definition kill ::
  "'k task_calls \<Rightarrow> int \<Rightarrow> int \<Rightarrow> 'k \<Rightarrow> 'h signals \<Rightarrow> 'h raised \<times> 'k \<times> 'h signals" where
  "kill T pid sig k s =
     (if sig < 0 \<or> sig \<ge> SIG_COUNT then (Returns (- 1), k, s\<lparr>s_errno := EINVAL\<rparr>)
      else if pid = sys_current_pid T k then (let (r, s) = raise_signal sig s in (r, k, s))
      else if sig \<noteq> SIGTERM then (Returns (- 1), k, s\<lparr>s_errno := ENOSYS\<rparr>)
      else
        let (st, k) = sys_kill T pid k in
        if st \<noteq> 0 then (Returns (- 1), k, s\<lparr>s_errno := ESRCH\<rparr>) else (Returns 0, k, s))"

definition strsignal :: "int \<Rightarrow> string" where
  "strsignal sig =
     (if sig = 1 then ''Hangup'' else if sig = 2 then ''Interrupt'' else if sig = 3 then ''Quit''
      else if sig = 4 then ''Illegal instruction'' else if sig = 5 then ''Trace/breakpoint trap''
      else if sig = 6 then ''Aborted'' else if sig = 7 then ''Bus error''
      else if sig = 8 then ''Floating point exception'' else if sig = 9 then ''Killed''
      else if sig = 10 then ''User signal 1'' else if sig = 11 then ''Segmentation fault''
      else if sig = 12 then ''User signal 2'' else if sig = 13 then ''Broken pipe''
      else if sig = 14 then ''Alarm clock'' else if sig = 15 then ''Terminated''
      else if sig = 17 then ''Child exited'' else if sig = 18 then ''Continued''
      else if sig = 19 then ''Stopped (signal)'' else if sig = 20 then ''Stopped''
      else if sig = 21 then ''Stopped (tty input)'' else if sig = 22 then ''Stopped (tty output)''
      else if sig = 31 then ''Bad system call'' else ''Unknown signal'')"

section \<open>Sets of signals\<close>

text \<open>A set is an \<open>unsigned int\<close>; \<open>None\<close> is a null pointer.  The results are status, set and \<open>errno\<close>.\<close>

definition g_sig_valid :: "int \<Rightarrow> bool" where
  "g_sig_valid sig \<longleftrightarrow> sig > 0 \<and> sig < SIG_COUNT"

unbundle bit_operations_syntax

definition sigemptyset :: "32 word option \<Rightarrow> int \<Rightarrow> int \<times> 32 word option \<times> int" where
  "sigemptyset st errno = (case st of None \<Rightarrow> (- 1, None, EINVAL) | Some s \<Rightarrow> (0, Some 0, errno))"

definition sigaddset :: "32 word option \<Rightarrow> int \<Rightarrow> int \<Rightarrow> int \<times> 32 word option \<times> int" where
  "sigaddset st sig errno = (case st of
     None \<Rightarrow> (- 1, None, EINVAL)
   | Some s \<Rightarrow> if \<not> g_sig_valid sig then (- 1, Some s, EINVAL)
       else (0, Some (s OR push_bit (nat sig) 1), errno))"

definition sigdelset :: "32 word option \<Rightarrow> int \<Rightarrow> int \<Rightarrow> int \<times> 32 word option \<times> int" where
  "sigdelset st sig errno = (case st of
     None \<Rightarrow> (- 1, None, EINVAL)
   | Some s \<Rightarrow> if \<not> g_sig_valid sig then (- 1, Some s, EINVAL)
       else (0, Some (s AND NOT (push_bit (nat sig) 1)), errno))"

definition sigismember :: "32 word option \<Rightarrow> int \<Rightarrow> int \<Rightarrow> int \<times> int" where
  "sigismember st sig errno = (case st of
     None \<Rightarrow> (- 1, EINVAL)
   | Some s \<Rightarrow> if \<not> g_sig_valid sig then (- 1, EINVAL)
       else (if s AND push_bit (nat sig) 1 \<noteq> 0 then 1 else 0, errno))"

text \<open>The mask is not kept: the old mask is always empty.\<close>

definition sigprocmask :: "int \<Rightarrow> bool \<Rightarrow> int \<Rightarrow> int \<times> 32 word option \<times> int" where
  "sigprocmask how want_old errno =
     (if how \<noteq> 0 \<and> how \<noteq> 1 \<and> how \<noteq> 2 then (- 1, None, EINVAL)
      else (0, if want_old then Some 0 else None, errno))"

text \<open>The abstract set a word stands for.\<close>

definition sigs :: "32 word \<Rightarrow> int set" where
  "sigs s = {sig. g_sig_valid sig \<and> bit s (nat sig)}"

lemma and_bit_zero: "s AND push_bit n 1 = 0 \<longleftrightarrow> \<not> bit s n" if "n < LENGTH('a)" for s :: "'a::len word"
  using that by (auto simp: bit_eq_iff [of "s AND push_bit n 1" 0] bit_simps simp del: push_bit_of_1)

lemma sigs_zero: "sigs 0 = {}"
  by (simp add: sigs_def)

lemma sigs_add: "g_sig_valid sig \<Longrightarrow> sigs (s OR push_bit (nat sig) 1) = insert sig (sigs s)"
  by (auto simp: sigs_def g_sig_valid_def bit_simps)

lemma sigs_del: "g_sig_valid sig \<Longrightarrow> sigs (s AND NOT (push_bit (nat sig) 1)) = sigs s - {sig}"
  by (auto simp: sigs_def g_sig_valid_def bit_simps)

lemma sigs_member: "g_sig_valid sig \<Longrightarrow> s AND push_bit (nat sig) 1 \<noteq> 0 \<longleftrightarrow> sig \<in> sigs s"
  by (subst and_bit_zero) (auto simp: sigs_def g_sig_valid_def)

text \<open>The contract of a set of signals, and that the words implement it.\<close>

locale signal_set =
  fixes valid :: "int \<Rightarrow> bool" and empty :: 's and add del :: "'s \<Rightarrow> int \<Rightarrow> 's" and member :: "'s \<Rightarrow> int \<Rightarrow> bool"
    and abs :: "'s \<Rightarrow> int set"
  assumes abs_empty: "abs empty = {}"
    and abs_add: "valid sig \<Longrightarrow> abs (add s sig) = insert sig (abs s)"
    and abs_del: "valid sig \<Longrightarrow> abs (del s sig) = abs s - {sig}"
    and abs_member: "valid sig \<Longrightarrow> member s sig \<longleftrightarrow> sig \<in> abs s"
begin

fun apply_op :: "'s \<Rightarrow> bool \<times> int \<Rightarrow> 's" where
  "apply_op s (a, sig) = (if a then add s sig else del s sig)"

lemma member_after_ops:
  "list_all (\<lambda>(a, sig). valid sig) ops \<Longrightarrow> valid sig \<Longrightarrow>
   member (foldl apply_op s ops) sig \<longleftrightarrow>
     (case find (\<lambda>(a, sig'). sig' = sig) (rev ops) of None \<Rightarrow> member s sig | Some (a, _) \<Rightarrow> a)"
proof (induction ops rule: rev_induct)
  case (snoc p ops)
  then show ?case by (cases p) (auto simp: abs_member abs_add abs_del)
qed simp

end

interpretation sigword: signal_set g_sig_valid "0 :: 32 word" "\<lambda>s sig. s OR push_bit (nat sig) 1"
  "\<lambda>s sig. s AND NOT (push_bit (nat sig) 1)" "\<lambda>s sig. s AND push_bit (nat sig) 1 \<noteq> 0" sigs
  by unfold_locales (simp_all add: sigs_zero sigs_add sigs_del sigs_member del: push_bit_of_1)

text \<open>A call of \<open>sigaddset\<close> or \<open>sigdelset\<close> on a set.\<close>

definition sigset_call :: "32 word \<Rightarrow> bool \<times> int \<Rightarrow> 32 word" where
  "sigset_call s op = (case op of (a, sig) \<Rightarrow>
     (case (if a then sigaddset (Some s) sig 0 else sigdelset (Some s) sig 0) of
        (r, Some s', e) \<Rightarrow> s' | (r, None, e) \<Rightarrow> s))"

lemma sigset_calls: "list_all (\<lambda>(a, sig). g_sig_valid sig) ops \<Longrightarrow> foldl sigset_call s ops = foldl sigword.apply_op s ops"
  by (induction ops arbitrary: s) (auto simp: sigset_call_def sigaddset_def sigdelset_def simp del: push_bit_of_1)

section \<open>Properties\<close>

text \<open>
  The sets of signals: after any sequence of \<open>sigaddset\<close> and \<open>sigdelset\<close> calls on the empty set,
  \<open>sigismember\<close> returns 1 exactly for the signals whose last call added them, and an invalid signal
  is refused by all of them with \<open>EINVAL\<close> and changes nothing.
\<close>

theorem sigset_last_call:
  assumes "list_all (\<lambda>(a, sig). g_sig_valid sig) ops"
  shows "(g_sig_valid sig \<longrightarrow> sigismember (Some (foldl sigset_call 0 ops)) sig e =
      (case find (\<lambda>(a, sig'). sig' = sig) (rev ops) of Some (True, _) \<Rightarrow> (1, e) | _ \<Rightarrow> (0, e))) \<and>
    (\<not> g_sig_valid sig \<longrightarrow> sigaddset (Some s) sig e = (- 1, Some s, EINVAL) \<and>
      sigdelset (Some s) sig e = (- 1, Some s, EINVAL) \<and> sigismember (Some s) sig e = (- 1, EINVAL))"
proof (intro conjI impI)
  assume v: "g_sig_valid sig"
  have "foldl sigword.apply_op 0 ops AND push_bit (nat sig) 1 \<noteq> 0 \<longleftrightarrow>
    (case find (\<lambda>(a, sig'). sig' = sig) (rev ops) of None \<Rightarrow> (0 :: 32 word) AND push_bit (nat sig) 1 \<noteq> 0 | Some (a, _) \<Rightarrow> a)"
    by (rule sigword.member_after_ops [OF assms v])
  then show "sigismember (Some (foldl sigset_call 0 ops)) sig e =
      (case find (\<lambda>(a, sig'). sig' = sig) (rev ops) of Some (True, _) \<Rightarrow> (1, e) | _ \<Rightarrow> (0, e))"
    using v unfolding sigset_calls [OF assms] sigismember_def
    by (auto split: option.splits bool.splits simp del: push_bit_of_1)
qed (simp_all add: sigaddset_def sigdelset_def sigismember_def)

theorem sigset_last_call_witness:
  "sigismember (Some (foldl sigset_call 0 [(True, SIGTERM), (False, SIGINT), (True, SIGHUP), (False, SIGTERM)])) SIGHUP 0 = (1, 0) \<and>
   sigismember (Some (foldl sigset_call 0 [(True, SIGTERM), (False, SIGINT), (True, SIGHUP), (False, SIGTERM)])) SIGTERM 0 = (0, 0)"
  using sigset_last_call [of "[(True, SIGTERM), (False, SIGINT), (True, SIGHUP), (False, SIGTERM)]" SIGHUP 0]
    sigset_last_call [of "[(True, SIGTERM), (False, SIGINT), (True, SIGHUP), (False, SIGTERM)]" SIGTERM 0]
  by (simp add: g_sig_valid_def)

end
