(* ===== verification/Times.thy ===== *)
theory Times
  imports Process
begin

text \<open>
  Clocks and waiting: \<open>sleep\<close> and \<open>usleep\<close> of \<open>libc/src/unistd\<close>, \<open>time\<close>, \<open>clock_gettime\<close> and
  \<open>nanosleep\<close> of \<open>libc/src/time\<close>, \<open>gettimeofday\<close>, \<open>poll\<close> and \<open>select\<close>.  The kernel counts in
  milliseconds and nanoseconds; all unsigned arithmetic wraps at its width.
\<close>

section \<open>Waiting\<close>

definition wait_ms :: "'k task_calls \<Rightarrow> int \<Rightarrow> ('k, 'z) world_scheme \<Rightarrow> ('k, 'z) world_scheme" where
  "wait_ms T millis w = w\<lparr>w_k := sys_sleep T millis (w_k w)\<rparr>"

text \<open>\<open>sleep\<close> has no return statement: the value it is declared to return is not defined.\<close>

definition sleep :: "'k task_calls \<Rightarrow> int \<Rightarrow> ('k, 'z) world_scheme \<Rightarrow> ('k, 'z) world_scheme" where
  "sleep T seconds w = wait_ms T (u32 (seconds * 1000)) w"

definition usleep :: "'k task_calls \<Rightarrow> int \<Rightarrow> ('k, 'z) world_scheme \<Rightarrow> int \<times> ('k, 'z) world_scheme" where
  "usleep T usec w = (let millis = u32 (usec + 999) div 1000 in (0, wait_ms T millis w))"

record timespec =
  ts_sec :: int
  ts_nsec :: int

text \<open>
  \<open>req\<close> is \<open>None\<close> when the pointer is null; what remains is written if it is asked for.  An
  overflow of the signed addition is undefined.
\<close>

definition nanosleep ::
  "'k task_calls \<Rightarrow> timespec option \<Rightarrow> bool \<Rightarrow> ('k, 'z) world_scheme \<Rightarrow> (int \<times> timespec option \<times> ('k, 'z) world_scheme) option" where
  "nanosleep T req want_rem w = (case req of
     None \<Rightarrow> Some (- 1, None, w\<lparr>w_errno := EINVAL\<rparr>)
   | Some r \<Rightarrow>
     if ts_nsec r + 999999 > LONG_MAX then None
     else
       let rem = (if want_rem then Some \<lparr>ts_sec = 0, ts_nsec = 0\<rparr> else None);
           millis = u64 (ts_sec r * 1000);
           millis = u64 (millis + cdiv (ts_nsec r + 999999) 1000000) in
       Some (0, rem, wait_ms T millis w))"

section \<open>Clocks\<close>

abbreviation (input) CLOCK_REALTIME :: int where "CLOCK_REALTIME \<equiv> 0"
abbreviation (input) CLOCK_MONOTONIC :: int where "CLOCK_MONOTONIC \<equiv> 1"

definition clock_gettime ::
  "'k task_calls \<Rightarrow> int \<Rightarrow> bool \<Rightarrow> ('k, 'z) world_scheme \<Rightarrow> int \<times> timespec option \<times> ('k, 'z) world_scheme" where
  "clock_gettime T clk_id tp_given w =
     (if \<not> tp_given then (- 1, None, w\<lparr>w_errno := EINVAL\<rparr>)
      else if clk_id = CLOCK_REALTIME \<or> clk_id = CLOCK_MONOTONIC then
        let nanos = sys_nanos T (w_k w) in
        (0, Some \<lparr>ts_sec = nanos div 1000000000, ts_nsec = nanos mod 1000000000\<rparr>, w)
      else (- 1, None, w\<lparr>w_errno := EINVAL\<rparr>))"

record timeval =
  tv_sec :: int
  tv_usec :: int

definition gettimeofday ::
  "'k task_calls \<Rightarrow> bool \<Rightarrow> ('k, 'z) world_scheme \<Rightarrow> int \<times> timeval option \<times> ('k, 'z) world_scheme" where
  "gettimeofday T tp_given w =
     (if \<not> tp_given then (- 1, None, w\<lparr>w_errno := EINVAL\<rparr>)
      else let millis = sys_millis T (w_k w) in
        (0, Some \<lparr>tv_sec = millis div 1000, tv_usec = (millis mod 1000) * 1000\<rparr>, w))"

text \<open>The result and what is stored in \<open>*out\<close>: milliseconds, not seconds.\<close>

definition time :: "'k task_calls \<Rightarrow> bool \<Rightarrow> ('k, 'z) world_scheme \<Rightarrow> int \<times> int option" where
  "time T out_given w =
     (let millis = sys_millis T (w_k w) in (millis, if out_given then Some millis else None))"

section \<open>Waiting for descriptors\<close>

record pollfd =
  p_fd :: int
  p_events :: int
  p_revents :: int

text \<open>
  No descriptor is ever looked at: the events are cleared and a time passes.  \<open>fds\<close> is \<open>None\<close> for
  a null pointer, which the loop does not touch when \<open>nfds\<close> is 0; the array has at least \<open>nfds\<close>
  entries, otherwise the loop leaves it.
\<close>

definition clear_revents :: "nat \<Rightarrow> pollfd list \<Rightarrow> pollfd list option" where
  "clear_revents nfds fds =
     (if nfds \<le> length fds then Some (map (\<lambda>f. f\<lparr>p_revents := 0\<rparr>) (take nfds fds) @ drop nfds fds) else None)"

definition poll ::
  "'k task_calls \<Rightarrow> pollfd list option \<Rightarrow> nat \<Rightarrow> int \<Rightarrow> ('k, 'z) world_scheme \<Rightarrow>
    (int \<times> pollfd list option \<times> ('k, 'z) world_scheme) option" where
  "poll T fds nfds timeout w =
     (if fds = None \<and> nfds > 0 then Some (- 1, fds, w\<lparr>w_errno := EINVAL\<rparr>)
      else do {
        fds \<leftarrow> (case fds of None \<Rightarrow> Some None | Some fs \<Rightarrow> map_option Some (clear_revents nfds fs));
        if timeout = 0 then Some (0, fds, w)
        else if timeout > 0 then
          if timeout + 999 > INT_MAX then None
          else let millis = (timeout + 999) div 1000 in
            Some (0, fds, if millis > 0 then wait_ms T millis w else w)
        else Some (0, fds, wait_ms T 1 w)
      })"

text \<open>The sets are arrays of sixteen 64-bit words; the results are the cleared sets that were given.\<close>

definition fdset_clear :: "64 word list option \<Rightarrow> 64 word list option" where
  "fdset_clear st = map_option (\<lambda>s. replicate 16 0) st"

definition select ::
  "'k task_calls \<Rightarrow> int \<Rightarrow> 64 word list option \<Rightarrow> 64 word list option \<Rightarrow> 64 word list option \<Rightarrow> timeval option \<Rightarrow>
    ('k, 'z) world_scheme \<Rightarrow>
    int \<times> (64 word list option \<times> 64 word list option \<times> 64 word list option) \<times> ('k, 'z) world_scheme" where
  "select T nfds readfds writefds exceptfds timeout w =
     (if nfds < 0 then (- 1, (readfds, writefds, exceptfds), w\<lparr>w_errno := EINVAL\<rparr>)
      else
        let w = (case timeout of
              Some t \<Rightarrow>
                let millis = u64 (tv_sec t * 1000);
                    millis = u64 (millis + u64 (tv_usec t + 999) div 1000) in
                if millis > 0 then wait_ms T millis w else w
            | None \<Rightarrow> wait_ms T 1 w) in
        (0, (fdset_clear readfds, fdset_clear writefds, fdset_clear exceptfds), w))"

section \<open>Properties\<close>

text \<open>\<open>poll\<close> takes the milliseconds it is given for microseconds: it waits a thousandth of the time.\<close>

lemma poll_waits_short:
  assumes "0 < timeout" "timeout + 999 \<le> INT_MAX"
  shows "poll T None 0 timeout w = Some (0, None, wait_ms T ((timeout + 999) div 1000) w)"
  using assms pos_imp_zdiv_pos_iff [of 1000 "timeout + 999"] by (simp add: poll_def Let_def)

text \<open>\<open>sleep\<close> of 4294968 seconds, about 50 days, waits less than a second.\<close>

lemma sleep_wraps: "sleep T 4294968 w = wait_ms T 704 w"
  by (simp add: sleep_def u32_def take_bit_eq_mod)

lemma ceil_div: "0 < (b :: int) \<Longrightarrow> (a + (b - 1)) div b * b \<ge> a \<and> (a + (b - 1)) div b * b < a + b"
proof -
  assume b: "0 < b"
  have "(a + (b - 1)) div b * b + (a + (b - 1)) mod b = a + (b - 1)" by (rule div_mult_mod_eq)
  moreover have "0 \<le> (a + (b - 1)) mod b" "(a + (b - 1)) mod b < b" using b by simp_all
  ultimately show ?thesis by linarith
qed

text \<open>
  C39. What the kernel is asked to wait for.  For valid requests \<open>usleep\<close>, \<open>nanosleep\<close> and \<open>select\<close>
  wait the least number of milliseconds that is not shorter; \<open>usleep\<close> of one of the largest 999 values wraps
  and waits 0 milliseconds.  \<open>sleep\<close> waits exactly the seconds up to 4294967; for more the product wraps and
  it waits less than 4294968 seconds, always less than it was asked for.
\<close>

theorem waits_round_up:
  assumes "0 \<le> usec" "usec \<le> 4294967295" "0 \<le> sec" "sec \<le> 2 ^ 53" "0 \<le> nsec" "nsec < 1000000000" "0 \<le> us" "us < 1000000"
    and "0 \<le> seconds" "seconds \<le> 4294967295"
  shows "(\<exists>ms. sleep T seconds w = wait_ms T ms w \<and> 0 \<le> ms \<and>
      (if seconds \<le> 4294967 then ms = seconds * 1000 else ms \<le> 4294967295 \<and> ms < seconds * 1000 \<and> (seconds * 1000 - ms) mod 2 ^ 32 = 0)) \<and>
    (\<exists>ms. usleep T usec w = (0, wait_ms T ms w) \<and>
      (if usec \<le> 4294966296 then usec \<le> ms * 1000 \<and> ms * 1000 < usec + 1000 else ms = 0)) \<and>
    (\<exists>ms. nanosleep T (Some \<lparr>ts_sec = sec, ts_nsec = nsec\<rparr>) False w = Some (0, None, wait_ms T ms w) \<and>
      sec * 1000000000 + nsec \<le> ms * 1000000 \<and> ms * 1000000 < sec * 1000000000 + nsec + 1000000) \<and>
    (\<exists>ms. snd (snd (select T 0 None None None (Some \<lparr>tv_sec = sec, tv_usec = us\<rparr>) w)) = (if ms > 0 then wait_ms T ms w else w) \<and>
      sec * 1000000 + us \<le> ms * 1000 \<and> ms * 1000 < sec * 1000000 + us + 1000)"
proof (intro conjI)
  show "\<exists>ms. sleep T seconds w = wait_ms T ms w \<and> 0 \<le> ms \<and>
      (if seconds \<le> 4294967 then ms = seconds * 1000 else ms \<le> 4294967295 \<and> ms < seconds * 1000 \<and> (seconds * 1000 - ms) mod 2 ^ 32 = 0)"
  proof (cases "seconds \<le> 4294967")
    case True
    then show ?thesis using assms(9) by (simp add: sleep_def u32_id)
  next
    case False
    let ?x = "seconds * 1000"
    have "u32 ?x = ?x mod 4294967296" by (simp add: u32_def take_bit_eq_mod)
    moreover have "0 \<le> ?x mod 4294967296" "?x mod 4294967296 < 4294967296" by simp_all
    moreover have "(?x - ?x mod 4294967296) mod 4294967296 = 0" by (simp add: mod_diff_right_eq)
    ultimately have "0 \<le> u32 ?x \<and> u32 ?x \<le> 4294967295 \<and> u32 ?x < ?x \<and> (?x - u32 ?x) mod 2 ^ 32 = 0"
      using False by (intro conjI; linarith?) simp_all
    then show ?thesis using False by (intro exI [of _ "u32 ?x"]) (simp add: sleep_def)
  qed
next
  show "\<exists>ms. usleep T usec w = (0, wait_ms T ms w) \<and>
      (if usec \<le> 4294966296 then usec \<le> ms * 1000 \<and> ms * 1000 < usec + 1000 else ms = 0)"
  proof (cases "usec \<le> 4294966296")
    case True
    then have "u32 (usec + 999) = usec + 999" using assms(1) by (simp add: u32_id)
    then show ?thesis using ceil_div [of 1000 usec] True
      by (intro exI [of _ "(usec + 999) div 1000"]) (simp add: usleep_def)
  next
    case False
    then have "u32 (usec + 999) = usec + 999 - 4294967296"
      using assms(2) mod_add_self2 [of "usec + 999 - 4294967296" 4294967296]
      by (simp add: u32_def take_bit_eq_mod add.commute)
    then show ?thesis using assms(2) False by (simp add: usleep_def)
  qed
next
  have s: "u64 (sec * 1000) = sec * 1000" using assms(3,4) by (simp add: u64_id)
  let ?q = "(nsec + 999999) div 1000000"
  have q: "0 \<le> ?q" "?q \<le> 1000" using assms(5,6) by auto
  have "u64 (sec * 1000 + ?q) = sec * 1000 + ?q" using q assms(3,4) by (intro u64_id) auto
  then show "\<exists>ms. nanosleep T (Some \<lparr>ts_sec = sec, ts_nsec = nsec\<rparr>) False w = Some (0, None, wait_ms T ms w) \<and>
      sec * 1000000000 + nsec \<le> ms * 1000000 \<and> ms * 1000000 < sec * 1000000000 + nsec + 1000000"
    using ceil_div [of 1000000 nsec] s assms(5,6)
    by (intro exI [of _ "sec * 1000 + ?q"]) (simp add: nanosleep_def cdiv_nonneg)
  let ?p = "(us + 999) div 1000"
  have p: "0 \<le> ?p" "?p \<le> 1000" "u64 (us + 999) = us + 999" using assms(7,8) by (auto simp: u64_id)
  have "u64 (sec * 1000 + ?p) = sec * 1000 + ?p" using p assms(3,4) by (intro u64_id) auto
  then show "\<exists>ms. snd (snd (select T 0 None None None (Some \<lparr>tv_sec = sec, tv_usec = us\<rparr>) w)) = (if ms > 0 then wait_ms T ms w else w) \<and>
      sec * 1000000 + us \<le> ms * 1000 \<and> ms * 1000 < sec * 1000000 + us + 1000"
    using ceil_div [of 1000 us] s p(3)
    by (intro exI [of _ "sec * 1000 + ?p"]) (simp add: select_def Let_def)
qed

theorem waits_round_up_witness:
  "sleep demo_tasks 3 \<lparr>w_mem = Map.empty, w_errno = 0, w_k = []\<rparr> = wait_ms demo_tasks 3000 \<lparr>w_mem = Map.empty, w_errno = 0, w_k = []\<rparr> \<and>
   (\<exists>ms. nanosleep demo_tasks (Some \<lparr>ts_sec = 2, ts_nsec = 1500001\<rparr>) False
      \<lparr>w_mem = Map.empty, w_errno = 0, w_k = []\<rparr> = Some (0, None, wait_ms demo_tasks ms \<lparr>w_mem = Map.empty, w_errno = 0, w_k = []\<rparr>) \<and>
    2001500001 \<le> ms * 1000000 \<and> ms * 1000000 < 2002500001)"
  using waits_round_up [of 0 2 1500001 0 3 demo_tasks "\<lparr>w_mem = Map.empty, w_errno = 0, w_k = []\<rparr>"] by simp

end
