(* ===== verification/Terminal.thy ===== *)
theory Terminal
  imports Kernel_IO
begin

text \<open>
  Terminals: \<open>libc/src/termios/termios.c\<close> and \<open>ioctl\<close> of \<open>libc/src/sys/ioctl\<close>.  The attributes of a
  terminal are not kept anywhere: \<open>tcgetattr\<close> returns the same defaults always.
\<close>

unbundle bit_operations_syntax

section \<open>Attributes\<close>

record termios =
  c_iflag :: "32 word"
  c_oflag :: "32 word"
  c_cflag :: "32 word"
  c_lflag :: "32 word"
  c_cc :: "byte list"
  c_ispeed :: "32 word"
  c_ospeed :: "32 word"

abbreviation (input) NCCS :: nat where "NCCS \<equiv> 32"
abbreviation (input) VINTR :: nat where "VINTR \<equiv> 0"
abbreviation (input) VERASE :: nat where "VERASE \<equiv> 2"
abbreviation (input) VEOF :: nat where "VEOF \<equiv> 4"
abbreviation (input) VTIME :: nat where "VTIME \<equiv> 5"
abbreviation (input) VMIN :: nat where "VMIN \<equiv> 6"

abbreviation (input) IGNBRK :: "32 word" where "IGNBRK \<equiv> 0x1"
abbreviation (input) BRKINT :: "32 word" where "BRKINT \<equiv> 0x2"
abbreviation (input) PARMRK :: "32 word" where "PARMRK \<equiv> 0x8"
abbreviation (input) ISTRIP :: "32 word" where "ISTRIP \<equiv> 0x20"
abbreviation (input) INLCR :: "32 word" where "INLCR \<equiv> 0x40"
abbreviation (input) IGNCR :: "32 word" where "IGNCR \<equiv> 0x80"
abbreviation (input) ICRNL :: "32 word" where "ICRNL \<equiv> 0x100"
abbreviation (input) IXON :: "32 word" where "IXON \<equiv> 0x400"
abbreviation (input) OPOST :: "32 word" where "OPOST \<equiv> 0x1"
abbreviation (input) ONLCR :: "32 word" where "ONLCR \<equiv> 0x2"
abbreviation (input) CSIZE :: "32 word" where "CSIZE \<equiv> 0x30"
abbreviation (input) CS8 :: "32 word" where "CS8 \<equiv> 0x30"
abbreviation (input) CREAD :: "32 word" where "CREAD \<equiv> 0x80"
abbreviation (input) PARENB :: "32 word" where "PARENB \<equiv> 0x100"
abbreviation (input) ISIG :: "32 word" where "ISIG \<equiv> 0x1"
abbreviation (input) ICANON :: "32 word" where "ICANON \<equiv> 0x2"
abbreviation (input) ECHO :: "32 word" where "ECHO \<equiv> 0x8"
abbreviation (input) ECHOE :: "32 word" where "ECHOE \<equiv> 0x10"
abbreviation (input) ECHONL :: "32 word" where "ECHONL \<equiv> 0x40"
abbreviation (input) IEXTEN :: "32 word" where "IEXTEN \<equiv> 0x8000"

definition termios_is_tty :: "int \<Rightarrow> bool" where
  "termios_is_tty fd \<longleftrightarrow> fd = 0 \<or> fd = 1 \<or> fd = 2"

definition termios_set_defaults :: termios where
  "termios_set_defaults = \<lparr>
     c_iflag = ICRNL OR IXON,
     c_oflag = OPOST OR ONLCR,
     c_cflag = CREAD OR CS8,
     c_lflag = ISIG OR ICANON OR ECHO OR ECHOE,
     c_cc = (replicate NCCS 0)[VINTR := 3, VEOF := 4, VERASE := 127, VMIN := 1, VTIME := 0],
     c_ispeed = 9600,
     c_ospeed = 9600\<rparr>"

text \<open>Pointers to attributes are options; the results are the status, the attributes written and \<open>errno\<close>.\<close>

definition tcgetattr :: "int \<Rightarrow> termios option \<Rightarrow> int \<Rightarrow> int \<times> termios option \<times> int" where
  "tcgetattr fd termios_p errno = (case termios_p of
     None \<Rightarrow> (- 1, None, EINVAL)
   | Some t \<Rightarrow> if \<not> termios_is_tty fd then (- 1, Some t, ENOTTY) else (0, Some termios_set_defaults, errno))"

abbreviation (input) TCSANOW :: int where "TCSANOW \<equiv> 0"
abbreviation (input) TCSADRAIN :: int where "TCSADRAIN \<equiv> 1"
abbreviation (input) TCSAFLUSH :: int where "TCSAFLUSH \<equiv> 2"

definition tcsetattr :: "int \<Rightarrow> int \<Rightarrow> termios option \<Rightarrow> int \<Rightarrow> int \<times> int" where
  "tcsetattr fd optional_actions termios_p errno =
     (if termios_p = None then (- 1, EINVAL)
      else if optional_actions \<noteq> TCSANOW \<and> optional_actions \<noteq> TCSADRAIN \<and> optional_actions \<noteq> TCSAFLUSH then (- 1, EINVAL)
      else if \<not> termios_is_tty fd then (- 1, ENOTTY)
      else (0, errno))"

definition raw_attributes :: "termios \<Rightarrow> termios" where
  "raw_attributes t = t\<lparr>
     c_iflag := c_iflag t AND NOT (IGNBRK OR BRKINT OR PARMRK OR ISTRIP OR INLCR OR IGNCR OR ICRNL OR IXON),
     c_oflag := c_oflag t AND NOT OPOST,
     c_lflag := c_lflag t AND NOT (ECHO OR ECHONL OR ICANON OR ISIG OR IEXTEN),
     c_cflag := (c_cflag t AND NOT (CSIZE OR PARENB)) OR CS8,
     c_cc := (c_cc t)[VMIN := 1, VTIME := 0]\<rparr>"

definition cfmakeraw :: "termios option \<Rightarrow> termios option" where
  "cfmakeraw termios_p = (case termios_p of None \<Rightarrow> None | Some t \<Rightarrow> Some (raw_attributes t))"

section \<open>Control\<close>

definition tty_result :: "int \<Rightarrow> int \<Rightarrow> int \<times> int" where
  "tty_result fd errno = (if \<not> termios_is_tty fd then (- 1, ENOTTY) else (0, errno))"

definition tcflush :: "int \<Rightarrow> int \<Rightarrow> int \<Rightarrow> int \<times> int" where
  "tcflush fd queue_selector errno =
     (if queue_selector \<noteq> 0 \<and> queue_selector \<noteq> 1 \<and> queue_selector \<noteq> 2 then (- 1, EINVAL) else tty_result fd errno)"

definition tcflow :: "int \<Rightarrow> int \<Rightarrow> int \<Rightarrow> int \<times> int" where
  "tcflow fd action errno =
     (if action \<noteq> 0 \<and> action \<noteq> 1 \<and> action \<noteq> 2 \<and> action \<noteq> 3 then (- 1, EINVAL) else tty_result fd errno)"

definition tcdrain :: "int \<Rightarrow> int \<Rightarrow> int \<times> int" where
  "tcdrain fd errno = tty_result fd errno"

definition tcsendbreak :: "int \<Rightarrow> int \<Rightarrow> int \<Rightarrow> int \<times> int" where
  "tcsendbreak fd duration errno = tty_result fd errno"

section \<open>Speed\<close>

definition cfgetispeed :: "termios option \<Rightarrow> 32 word" where
  "cfgetispeed termios_p = (case termios_p of None \<Rightarrow> 0 | Some t \<Rightarrow> c_ispeed t)"

definition cfgetospeed :: "termios option \<Rightarrow> 32 word" where
  "cfgetospeed termios_p = (case termios_p of None \<Rightarrow> 0 | Some t \<Rightarrow> c_ospeed t)"

definition cfsetispeed :: "termios option \<Rightarrow> 32 word \<Rightarrow> int \<Rightarrow> int \<times> termios option \<times> int" where
  "cfsetispeed termios_p speed errno = (case termios_p of
     None \<Rightarrow> (- 1, None, EINVAL) | Some t \<Rightarrow> (0, Some (t\<lparr>c_ispeed := speed\<rparr>), errno))"

definition cfsetospeed :: "termios option \<Rightarrow> 32 word \<Rightarrow> int \<Rightarrow> int \<times> termios option \<times> int" where
  "cfsetospeed termios_p speed errno = (case termios_p of
     None \<Rightarrow> (- 1, None, EINVAL) | Some t \<Rightarrow> (0, Some (t\<lparr>c_ospeed := speed\<rparr>), errno))"

section \<open>The window\<close>

record winsize =
  ws_row :: "16 word"
  ws_col :: "16 word"
  ws_xpixel :: "16 word"
  ws_ypixel :: "16 word"

definition ioctl_default_winsize :: winsize where
  "ioctl_default_winsize = \<lparr>ws_row = 25, ws_col = 80, ws_xpixel = 0, ws_ypixel = 0\<rparr>"

text \<open>The descriptor is not looked at.\<close>

definition ioctl :: "int \<Rightarrow> int \<Rightarrow> winsize option \<Rightarrow> int \<Rightarrow> int \<times> winsize option \<times> int" where
  "ioctl fd request ws errno =
     (if request = 0x5413 then
        (case ws of None \<Rightarrow> (- 1, None, EFAULT) | Some s \<Rightarrow> (0, Some ioctl_default_winsize, errno))
      else if request = 0x5414 then (0, ws, errno)
      else (- 1, ws, ENOTTY))"

section \<open>Raw mode\<close>

text \<open>
  \<open>cfmakeraw\<close> is idempotent and switches off echo, lines and signals.
\<close>

lemma raw_attributes_idem: "raw_attributes (raw_attributes t) = raw_attributes t"
proof -
  have "(a AND NOT m) AND NOT m = a AND NOT m" for a m :: "32 word" by (simp add: and.assoc)
  moreover have m: "(((a AND NOT m) OR b) AND NOT m) OR b = (a AND NOT m) OR b" for a b m :: "32 word"
    by (rule bit_word_eqI) (auto simp: bit_simps)
  have "(c AND - 305 OR 48) AND - 305 OR 48 = c AND - 305 OR 48" for c :: "32 word"
    using m [of c 304 48] by simp
  moreover have "(xs[i := a, j := b])[i := a, j := b] = xs[i := a, j := b]" if "i \<noteq> j" for xs :: "byte list" and i j a b
    using that by (metis list_update_overwrite list_update_swap)
  ultimately show ?thesis unfolding raw_attributes_def by (cases t) simp
qed

lemma raw_attributes_raw: "c_lflag (raw_attributes t) AND (ECHO OR ICANON OR ISIG) = 0"
  unfolding raw_attributes_def
  by (simp del: or_numerals) (rule bit_word_eqI, auto simp: bit_simps simp del: or_numerals)

text \<open>
  The usual sequence to leave line mode has no effect: \<open>tcsetattr\<close> accepts raw attributes and reports
  success, and \<open>tcgetattr\<close> still returns the defaults, with echo, lines and signals on.
\<close>

lemma raw_mode_lost:
  assumes "termios_is_tty fd"
  shows "fst (tcsetattr fd TCSANOW (cfmakeraw (Some t)) e) = 0 \<and>
    tcgetattr fd (Some u) e = (0, Some termios_set_defaults, e) \<and>
    c_lflag termios_set_defaults AND ECHO \<noteq> 0"
  using assms by (simp add: cfmakeraw_def tcsetattr_def tcgetattr_def termios_set_defaults_def)

end
