(* ===== verification/System_Info.thy ===== *)
theory System_Info
  imports Times C_Token Stdlib_Num
begin

text \<open>
  What a program can ask about the system and its user: \<open>sysinfo\<close> and \<open>uname\<close> of \<open>libc/src/sys\<close>,
  \<open>sysconf\<close>, \<open>getlogin\<close> and the identities of \<open>libc/src/unistd\<close>, \<open>libc/src/pwd/pwd.c\<close> and
  \<open>setlocale\<close> of \<open>libc/src/locale\<close>.
\<close>

section \<open>Memory\<close>

record sysinfo_t =
  uptime :: int
  totalram :: int
  freeram :: int
  sharedram :: int
  bufferram :: int
  totalswap :: int
  freeswap :: int
  procs :: int
  totalhigh :: int
  freehigh :: int
  mem_unit :: int

partial_function (option) skip_blanks :: "mem \<Rightarrow> addr \<Rightarrow> addr option" where
  "skip_blanks m a = do {
     c \<leftarrow> m a;
     if c = bc CHR '' '' \<or> c = bc CHR 0x09 then skip_blanks m (a + 1) else Some a
   }"

text \<open>An overflow of the \<open>long\<close> is undefined.\<close>

partial_function (option) read_digits :: "mem \<Rightarrow> addr \<Rightarrow> int \<Rightarrow> int option" where
  "read_digits m a v = do {
     c \<leftarrow> m a;
     if cv c \<ge> ic CHR ''0'' \<and> cv c \<le> ic CHR ''9'' then
       let v' = v * 10 + (cv c - ic CHR ''0'') in
       if v' > LONG_MAX then None else read_digits m (a + 1) v'
     else Some v
   }"

definition parse_kb_value :: "mem \<Rightarrow> addr \<Rightarrow> addr \<Rightarrow> int option" where
  "parse_kb_value m buf key = do {
     p \<leftarrow> strstr m buf key;
     if p = NULL then Some (- 1)
     else do {
       n \<leftarrow> strlen m key;
       p \<leftarrow> skip_blanks m (p + n);
       read_digits m p 0
     }
   }"

record sysinfo_lits =
  l_meminfo :: addr
  l_MemTotal :: addr
  l_MemFree :: addr
  l_Buffers :: addr

definition kb_field :: "int \<Rightarrow> int \<Rightarrow> int" where
  "kb_field kb old = (if kb > 0 then u64 (kb * 1024) else old)"

text \<open>
  The buffer of 512 bytes is on the stack, at \<open>frame K\<close>.  \<open>info_given\<close> is false for a null pointer.
\<close>

definition sysinfo ::
  "'k platform \<Rightarrow> 'k task_calls \<Rightarrow> sysinfo_lits \<Rightarrow> bool \<Rightarrow> ('k, 'z) world_scheme \<Rightarrow>
    (int \<times> sysinfo_t option \<times> ('k, 'z) world_scheme) option" where
  "sysinfo K T L info_given w =
     (if \<not> info_given then Some (- 1, None, w\<lparr>w_errno := EINVAL\<rparr>)
      else
        let info = \<lparr>uptime = s64 (sys_millis T (w_k w) div 1000), totalram = 0, freeram = 0, sharedram = 0, bufferram = 0,
              totalswap = 0, freeswap = 0, procs = 0, totalhigh = 0, freehigh = 0, mem_unit = 1\<rparr>;
            (fd, w) = c_open K (l_meminfo L) 1 w in
        if fd \<ge> 0 then
          let buf = frame K;
              (rd, w) = c_read K fd buf 511 w;
              (_, w) = c_close K fd w in
          if rd > 0 then do {
            m \<leftarrow> wr (w_mem w) (buf + nat rd) 0;
            total_kb \<leftarrow> parse_kb_value m buf (l_MemTotal L);
            free_kb \<leftarrow> parse_kb_value m buf (l_MemFree L);
            buffers_kb \<leftarrow> parse_kb_value m buf (l_Buffers L);
            Some (0, Some (info\<lparr>totalram := kb_field total_kb (totalram info), freeram := kb_field free_kb (freeram info),
              bufferram := kb_field buffers_kb (bufferram info)\<rparr>), w\<lparr>w_mem := m\<rparr>)
          }
          else Some (0, Some info, w)
        else Some (0, Some info, w))"

section \<open>Names\<close>

text \<open>Copying a string to a buffer of a fixed size, cutting it: \<open>uname_copy\<close>.\<close>

definition uname_copy :: "mem \<Rightarrow> addr \<Rightarrow> addr \<Rightarrow> mem option" where
  "uname_copy m dest src = do {
     len \<leftarrow> strlen m src;
     let len = (if len \<ge> 65 then 64 else len);
     (_, m) \<leftarrow> memcpy m dest src len;
     wr m (dest + len) 0
   }"

record uname_lits =
  l_sysname :: addr
  l_nodename :: addr
  l_release :: addr
  l_version :: addr
  l_machine :: addr

text \<open>The structure is five arrays of 65 bytes, one behind the other.\<close>

definition uname :: "uname_lits \<Rightarrow> addr \<Rightarrow> ('k, 'z) world_scheme \<Rightarrow> (int \<times> ('k, 'z) world_scheme) option" where
  "uname L buf w =
     (if buf = NULL then Some (- 1, w\<lparr>w_errno := EFAULT\<rparr>)
      else do {
        m \<leftarrow> uname_copy (w_mem w) buf (l_sysname L);
        m \<leftarrow> uname_copy m (buf + 65) (l_nodename L);
        m \<leftarrow> uname_copy m (buf + 130) (l_release L);
        m \<leftarrow> uname_copy m (buf + 195) (l_version L);
        m \<leftarrow> uname_copy m (buf + 260) (l_machine L);
        Some (0, w\<lparr>w_mem := m\<rparr>)
      })"

definition sysconf :: "int \<Rightarrow> int \<Rightarrow> int \<times> int" where
  "sysconf name errno =
     (if name = 1 then (4096, errno)
      else if name = 2 then (100, errno)
      else if name = 3 \<or> name = 4 then (1, errno)
      else (- 1, EINVAL))"

definition getuid :: int where "getuid = 0"
definition getgid :: int where "getgid = 0"
definition geteuid :: int where "geteuid = getuid"
definition getegid :: int where "getegid = getgid"

section \<open>Users\<close>

text \<open>A value of the environment, or a default when it is missing or empty.\<close>

definition env_or :: "mem \<Rightarrow> env_lits \<Rightarrow> environ \<Rightarrow> addr \<Rightarrow> addr \<Rightarrow> addr option" where
  "env_or m L env key d = do {
     p \<leftarrow> getenv m L env key;
     if p = NULL then Some d else do { c \<leftarrow> m p; Some (if c = 0 then d else p) }
   }"

definition g_copy_string :: "mem \<Rightarrow> addr \<Rightarrow> nat \<Rightarrow> addr \<Rightarrow> mem option" where
  "g_copy_string m dst dst_size src =
     (if dst_size = 0 then Some m
      else if src = NULL then wr m dst 0
      else do {
        len \<leftarrow> strlen m src;
        let len = (if len \<ge> dst_size then dst_size - 1 else len);
        (_, m) \<leftarrow> memcpy m dst src len;
        wr m (dst + len) 0
      })"

record passwd =
  pw_name :: addr
  pw_passwd :: addr
  pw_uid :: int
  pw_gid :: int
  pw_gecos :: addr
  pw_dir :: addr
  pw_shell :: addr

text \<open>The static buffers and the literals of \<open>pwd.c\<close> and \<open>getlogin.c\<close>.\<close>

record user_statics = env_lits +
  g_name_buf :: addr
  g_dir_buf :: addr
  g_shell_buf :: addr
  g_gecos_buf :: addr
  g_login_buf :: addr
  l_HOME :: addr
  l_SHELL :: addr
  l_USER :: addr
  l_LOGNAME :: addr
  l_slash :: addr
  l_bin_sh :: addr
  l_root :: addr
  l_star :: addr

definition g_fill_passwd ::
  "user_statics \<Rightarrow> environ \<Rightarrow> addr \<Rightarrow> int \<Rightarrow> int \<Rightarrow> mem \<Rightarrow> (passwd \<times> mem) option" where
  "g_fill_passwd S env name uid gid m = do {
     home \<leftarrow> env_or m (env_lits.truncate S) env (l_HOME S) (l_slash S);
     shell \<leftarrow> env_or m (env_lits.truncate S) env (l_SHELL S) (l_bin_sh S);
     gecos \<leftarrow> env_or m (env_lits.truncate S) env (l_USER S) name;
     m \<leftarrow> g_copy_string m (g_name_buf S) 64 name;
     m \<leftarrow> g_copy_string m (g_dir_buf S) 128 home;
     m \<leftarrow> g_copy_string m (g_shell_buf S) 64 shell;
     m \<leftarrow> g_copy_string m (g_gecos_buf S) 64 gecos;
     Some (\<lparr>pw_name = g_name_buf S, pw_passwd = l_star S, pw_uid = uid, pw_gid = gid,
       pw_gecos = g_gecos_buf S, pw_dir = g_dir_buf S, pw_shell = g_shell_buf S\<rparr>, m)
   }"

definition getpwuid :: "user_statics \<Rightarrow> environ \<Rightarrow> int \<Rightarrow> mem \<Rightarrow> (passwd option \<times> mem) option" where
  "getpwuid S env uid m =
     (let self = getuid in
      if uid \<noteq> self \<and> uid \<noteq> 0 then Some (None, m)
      else do {
        name \<leftarrow> env_or m (env_lits.truncate S) env (l_USER S) (l_root S);
        (p, m) \<leftarrow> g_fill_passwd S env name uid getgid m;
        Some (Some p, m)
      })"

definition getpwnam :: "user_statics \<Rightarrow> environ \<Rightarrow> addr \<Rightarrow> mem \<Rightarrow> (passwd option \<times> mem) option" where
  "getpwnam S env name m = do {
     empty \<leftarrow> (if name = NULL then Some True else do { c \<leftarrow> m name; Some (c = 0) });
     if empty then Some (None, m)
     else do {
       user \<leftarrow> env_or m (env_lits.truncate S) env (l_USER S) (l_root S);
       a \<leftarrow> strcmp m name user;
       unknown \<leftarrow> (if a \<noteq> 0 then do { b \<leftarrow> strcmp m name (l_root S); Some (b \<noteq> 0) } else Some False);
       if unknown then Some (None, m)
       else do {
         (p, m) \<leftarrow> g_fill_passwd S env name getuid getgid m;
         Some (Some p, m)
       }
     }
   }"

definition getlogin :: "user_statics \<Rightarrow> environ \<Rightarrow> mem \<Rightarrow> (addr \<times> mem) option" where
  "getlogin S env m = do {
     name \<leftarrow> env_or m (env_lits.truncate S) env (l_LOGNAME S) NULL;
     name \<leftarrow> (if name = NULL then env_or m (env_lits.truncate S) env (l_USER S) (l_root S) else Some name);
     len \<leftarrow> strlen m name;
     let len = (if len \<ge> 64 then 63 else len);
     (_, m) \<leftarrow> memcpy m (g_login_buf S) name len;
     m \<leftarrow> wr m (g_login_buf S + len) 0;
     Some (g_login_buf S, m)
   }"

section \<open>Locale\<close>

text \<open>The static array \<open>locale\<close> of 32 bytes and the flag; the name is copied without a check.\<close>

definition setlocale :: "addr \<Rightarrow> int \<Rightarrow> addr \<Rightarrow> bool \<times> mem \<Rightarrow> (addr \<times> bool \<times> mem) option" where
  "setlocale locale_buf category newLocale s = (case s of (initialized, m) \<Rightarrow> do {
     m \<leftarrow> (if \<not> initialized then wr m locale_buf 0 else Some m);
     if newLocale = NULL then Some (locale_buf, True, m)
     else do { (_, m) \<leftarrow> strcpy m locale_buf newLocale; Some (locale_buf, True, m) }
   })"

section \<open>What \<open>sysinfo\<close> finds\<close>

abbreviation digit :: "byte \<Rightarrow> bool" where
  "digit c \<equiv> ic CHR ''0'' \<le> cv c \<and> cv c \<le> ic CHR ''9''"

definition kb_value :: "int \<Rightarrow> byte list \<Rightarrow> int" where
  "kb_value v ds = foldl (\<lambda>v c. v * 10 + (cv c - ic CHR ''0'')) v ds"

lemma kb_value_ge: "list_all digit ds \<Longrightarrow> 0 \<le> v \<Longrightarrow> v \<le> kb_value v ds"
proof (induction ds arbitrary: v)
  case (Cons d ds)
  then have "v \<le> v * 10 + (cv d - ic CHR ''0'')" by simp
  also have "\<dots> \<le> kb_value \<dots> ds" using Cons.prems by (intro Cons.IH) simp_all
  finally show ?case by (simp add: kb_value_def)
qed (simp add: kb_value_def)

lemma read_digits_correct:
  assumes "bytes_at m a (ds @ [c])" "list_all digit ds" "\<not> digit c" "0 \<le> v" "kb_value v ds \<le> LONG_MAX"
  shows "read_digits m a v = Some (kb_value v ds)"
  using assms
proof (induction ds arbitrary: a v)
  case Nil
  then show ?case by (auto simp: read_digits.simps kb_value_def)
next
  case (Cons d ds)
  let ?v = "v * 10 + (cv d - ic CHR ''0'')"
  have "?v \<le> kb_value ?v ds" using Cons.prems by (intro kb_value_ge) simp_all
  moreover have e: "kb_value ?v ds = kb_value v (d # ds)" by (simp add: kb_value_def)
  ultimately have le: "?v \<le> LONG_MAX" using Cons.prems(5) by linarith
  have "read_digits m (Suc a) ?v = Some (kb_value ?v ds)"
    using Cons.prems e by (intro Cons.IH) simp_all
  with Cons.prems le e show ?case by (subst read_digits.simps) (simp add: Let_def)
qed

lemma skip_blanks_correct:
  assumes "bytes_at m a (bs @ [c])" "set bs \<subseteq> {bc CHR '' '', bc CHR 0x09}" "c \<notin> {bc CHR '' '', bc CHR 0x09}"
  shows "skip_blanks m a = Some (a + length bs)"
  using assms
proof (induction bs arbitrary: a)
  case Nil
  then show ?case by (auto simp: skip_blanks.simps)
next
  case (Cons b bs)
  then show ?case by (subst skip_blanks.simps) auto
qed

lemma c_close_mem: "w_mem (snd (c_close K fd w)) = w_mem w"
  by (auto simp: c_close_def Let_def split: prod.split)

text \<open>
  Since \<open>strstr\<close> returns the start of the buffer for every key, the number is read at the offset of
  the key's length, whatever the key is.
\<close>

lemma parse_kb_value_offset:
  assumes "str_at m key s" "key \<noteq> NULL" "s \<noteq> []" "buf \<noteq> NULL"
    and "bytes_at m (buf + length s) (bs @ ds @ [c])" "set bs \<subseteq> {bc CHR '' '', bc CHR 0x09}"
    and "list_all digit ds" "\<not> digit c" "ds = [] \<longrightarrow> c \<notin> {bc CHR '' '', bc CHR 0x09}" "kb_value 0 ds \<le> LONG_MAX"
  shows "parse_kb_value m buf key = Some (kb_value 0 ds)"
proof -
  have "skip_blanks m (buf + length s) = Some (buf + length s + length bs)"
  proof (cases ds)
    case Nil
    then show ?thesis using assms(5,6,9) by (intro skip_blanks_correct [of _ _ _ c]) auto
  next
    case (Cons d ds')
    then have "d \<notin> {bc CHR '' '', bc CHR 0x09}" using assms(7) by (auto simp: cv_def)
    then show ?thesis using Cons assms(5,6) by (intro skip_blanks_correct [of _ _ _ d]) auto
  qed
  moreover have "read_digits m (buf + length s + length bs) 0 = Some (kb_value 0 ds)"
    using assms(5,7,8,10) by (intro read_digits_correct [of _ _ _ c]) simp_all
  ultimately show ?thesis
    using strstr_nonempty_needle [OF assms(1,3), of buf] strlen_correct [OF assms(1,2)] assms(4)
    by (simp add: parse_kb_value_def)
qed

text \<open>A system for examples, whose \<open>/proc/meminfo\<close> has three lines.\<close>

abbreviation (input) demo_meminfo :: string where
  "demo_meminfo \<equiv> ''MemTotal: 640'' @ [CHR 0x0A] @ ''MemFree: 512'' @ [CHR 0x0A] @ ''Buffers: 8'' @ [CHR 0x0A]"

definition demo_system :: "ram platform" where
  "demo_system = (ram_platform 1000 (\<lambda>n m. (NULL, m)))
     \<lparr>sys_read := (\<lambda>fd a n m k. (0, int (length (lit demo_meminfo)), store m a (lit demo_meminfo), k))\<rparr>"

definition demo_system_world :: "ram world" where
  "demo_system_world = \<lparr>w_mem = store (store (store (store (\<lambda>a. if 1000 \<le> a \<and> a < 1512 then Some 0 else None)
       100 (lit ''/proc/meminfo'' @ [0])) 200 (lit ''MemTotal:'' @ [0])) 300 (lit ''MemFree:'' @ [0])) 400 (lit ''Buffers:'' @ [0]),
     w_errno = 0, w_k = \<lparr>ram_out = [], ram_in = [], ram_locks = {}, ram_next = 1\<rparr>\<rparr>"

definition demo_sysinfo_lits :: sysinfo_lits where
  "demo_sysinfo_lits = \<lparr>l_meminfo = 100, l_MemTotal = 200, l_MemFree = 300, l_Buffers = 400\<rparr>"

definition demo_clock :: "ram task_calls" where
  "demo_clock = \<lparr>sys_execve = (\<lambda>p argv env m k. (1, k)), sys_fork = Pair 7, sys_join = (\<lambda>t k. k), sys_get_tid = (\<lambda>k. 1),
     sys_current_pid = (\<lambda>k. 1), sys_get_parent_pid = (\<lambda>p k. 0), sys_kill = (\<lambda>p k. (0, k)), sys_sleep = (\<lambda>n k. k),
     sys_millis = (\<lambda>k. 5000), sys_nanos = (\<lambda>k. 0)\<rparr>"

section \<open>Properties\<close>

text \<open>
  \<open>sysinfo\<close> reports free and buffer memory as 0 for every content of \<open>/proc/meminfo\<close> that starts
  with the total: \<open>strstr\<close> returns the start of the text for each key, so that only the number behind
  \<open>MemTotal:\<close> is ever read, while the other two lookups meet the colon of \<open>MemTotal:\<close>.
\<close>

theorem sysinfo_only_total:
  assumes calls: "sys_open K (l_meminfo L) 1 (w_mem w) (w_k w) = (0, fd, k1)" "0 \<le> fd"
      "sys_read K fd (frame K) 511 (w_mem w) k1 = (0, int (length content), store (w_mem w) (frame K) content, k2)"
    and tx: "content = lit ''MemTotal:'' @ bs @ ds @ c # rest" "length content \<le> 511"
      "set bs \<subseteq> {bc CHR '' '', bc CHR 0x09}" "ds \<noteq> []" "list_all digit ds" "\<not> digit c" "kb_value 0 ds * 1024 \<le> LONG_MAX"
    and buf: "mapped (w_mem w) (frame K) 512" "frame K \<noteq> NULL"
    and lits: "str_at (w_mem w) (l_MemTotal L) (lit ''MemTotal:'')" "str_at (w_mem w) (l_MemFree L) (lit ''MemFree:'')"
      "str_at (w_mem w) (l_Buffers L) (lit ''Buffers:'')"
      "\<forall>a\<in>{l_MemTotal L, l_MemFree L, l_Buffers L}. a \<noteq> NULL \<and> (a + 9 < frame K \<or> frame K + 512 \<le> a)"
  shows "\<exists>info w'. sysinfo K T L True w = Some (0, Some info, w') \<and>
    totalram info = kb_value 0 ds * 1024 \<and> freeram info = 0 \<and> bufferram info = 0"
proof -
  let ?b = "frame K"
  let ?m = "(store (w_mem w) ?b content)(?b + length content \<mapsto> 0)"
  have at: "str_at ?m a s" if "str_at (w_mem w) a s" "length s \<le> 9" "a + 9 < ?b \<or> ?b + 512 \<le> a" for a s
    using that tx(2) by (subst str_at_frame [of s ?m a "w_mem w"]) (auto simp: store_other)
  have bytes: "bytes_at ?m ?b content" by (simp add: bytes_at_upd)
  have v: "0 \<le> kb_value 0 ds" using kb_value_ge [OF tx(5), of 0] by simp
  have "parse_kb_value ?m ?b (l_MemTotal L) = Some (kb_value 0 ds)"
    using at [OF lits(1)] lits(4) bytes tx v buf(2)
    by (intro parse_kb_value_offset [of _ _ "lit ''MemTotal:''" _ bs ds c]) (auto simp del: str_at.simps)
  moreover have "parse_kb_value ?m ?b (l_MemFree L) = Some (kb_value 0 [])"
    using at [OF lits(2)] lits(4) bytes tx(1) buf(2)
    by (intro parse_kb_value_offset [of _ _ "lit ''MemFree:''" _ "[]" "[]" "bc CHR '':''"])
      (auto simp: cv_def kb_value_def simp del: str_at.simps)
  moreover have "parse_kb_value ?m ?b (l_Buffers L) = Some (kb_value 0 [])"
    using at [OF lits(3)] lits(4) bytes tx(1) buf(2)
    by (intro parse_kb_value_offset [of _ _ "lit ''Buffers:''" _ "[]" "[]" "bc CHR '':''"])
      (auto simp: cv_def kb_value_def simp del: str_at.simps)
  moreover have "wr (store (w_mem w) ?b content) (?b + length content) 0 = Some ?m"
    using mapped_get [OF mapped_store [OF buf(1)], of "?b + length content" ?b content] tx(2) by auto
  moreover have "kb_field (kb_value 0 ds) 0 = kb_value 0 ds * 1024" "kb_field (kb_value 0 []) 0 = 0"
    using v tx(7) by (auto simp: kb_field_def u64_id kb_value_def)
  moreover have "c_open K (l_meminfo L) 1 w = (fd, w\<lparr>w_k := k1\<rparr>)" using calls(1) by (simp add: c_open_def)
  moreover have "c_read K fd ?b 511 (w\<lparr>w_k := k1\<rparr>) = (int (length content), w\<lparr>w_mem := store (w_mem w) ?b content, w_k := k2\<rparr>)"
    using calls(3) by (simp add: c_read_def)
  moreover obtain rc w2 where "c_close K fd (w\<lparr>w_mem := store (w_mem w) ?b content, w_k := k2\<rparr>) = (rc, w2)"
    "w_mem w2 = store (w_mem w) ?b content"
    using c_close_mem [of K fd "w\<lparr>w_mem := store (w_mem w) ?b content, w_k := k2\<rparr>"]
    by (cases "c_close K fd (w\<lparr>w_mem := store (w_mem w) ?b content, w_k := k2\<rparr>)") (simp del: store.simps)
  moreover have "0 < int (length content)" using tx(1) by simp
  ultimately show ?thesis using calls(2) unfolding sysinfo_def
    by (simp add: Let_def del: store.simps of_nat_0_less_iff length_greater_0_conv)
qed

theorem sysinfo_only_total_witness:
  "\<exists>info w'. sysinfo demo_system demo_clock demo_sysinfo_lits True demo_system_world = Some (0, Some info, w') \<and>
    totalram info = 655360 \<and> freeram info = 0 \<and> bufferram info = 0"
proof -
  let ?rest = "lit (''MemFree: 512'' @ [CHR 0x0A] @ ''Buffers: 8'' @ [CHR 0x0A])"
  have "\<exists>info w'. sysinfo demo_system demo_clock demo_sysinfo_lits True demo_system_world = Some (0, Some info, w') \<and>
    totalram info = kb_value 0 (lit ''640'') * 1024 \<and> freeram info = 0 \<and> bufferram info = 0"
  proof (rule sysinfo_only_total [where fd = 3 and content = "lit demo_meminfo" and bs = "[bc CHR '' '']" and c = 10 and rest = ?rest])
    show "sys_open demo_system (l_meminfo demo_sysinfo_lits) 1 (w_mem demo_system_world) (w_k demo_system_world) = (0, 3, w_k demo_system_world)"
      by (simp add: demo_system_def ram_platform_def)
    show "sys_read demo_system 3 (frame demo_system) 511 (w_mem demo_system_world) (w_k demo_system_world) =
      (0, int (length (lit demo_meminfo)), store (w_mem demo_system_world) (frame demo_system) (lit demo_meminfo), w_k demo_system_world)"
      by (simp add: demo_system_def ram_platform_def)
    show "mapped (w_mem demo_system_world) (frame demo_system) 512"
      by (simp add: demo_system_def ram_platform_def demo_system_world_def mapped_iff)
  qed (simp_all add: demo_system_def ram_platform_def demo_system_world_def demo_sysinfo_lits_def kb_value_def cv_def)
  then show ?thesis by (simp add: kb_value_def cv_def)
qed

end
