(* ===== verification/Shell_Parser.thy ===== *)
theory Shell_Parser
  imports Args
begin

text \<open>
  The command line parser of the shell (\<open>applications/gsh/src/parser.cpp\<close>): a line is a list of
  program calls joined by \<open>|\<close>, a call is a program name followed by arguments, and in an argument a
  backslash protects the next character and quotation marks protect spaces and \<open>|\<close>.
\<close>

section \<open>Operations\<close>

record program_call_t =
  c_program :: "byte list"
  c_arguments :: "byte list list"

text \<open>
  The parser reads ahead one character.  \<open>current\<close> is a \<open>char\<close>: -1 stands for the end of the input,
  and so does a byte 0xFF.
\<close>

record parser_t =
  current :: int
  position :: nat
  input :: "byte list"

definition parser_step :: "parser_t \<Rightarrow> parser_t" where
  "parser_step p =
     (if position p < length (input p)
      then p\<lparr>current := cv (input p ! position p), position := position p + 1\<rparr>
      else p\<lparr>current := - 1\<rparr>)"

definition new_parser :: "byte list \<Rightarrow> parser_t" where
  "new_parser xs = parser_step \<lparr>current = - 1, position = 0, input = xs\<rparr>"

text \<open>Every loop stops: this many characters are left.\<close>

definition left :: "parser_t \<Rightarrow> nat" where
  "left p = (if current p = - 1 then 0 else Suc (length (input p) - position p))"

lemma left_step: "current p \<noteq> - 1 \<Longrightarrow> left (parser_step p) < left p"
  by (auto simp: left_def parser_step_def)

lemma space_not_end: "isspace c \<Longrightarrow> c \<noteq> - 1"
  by (auto simp: isspace_def)

lemma left_space: "isspace (current p) \<Longrightarrow> left (parser_step p) < left p"
  by (rule left_step [OF space_not_end])

function skip_whitespace :: "parser_t \<Rightarrow> parser_t" where
  "skip_whitespace p = (if isspace (current p) then skip_whitespace (parser_step p) else p)"
  by pat_completeness auto
termination
  by (relation "measure left") (auto intro: left_space)

function read_program :: "parser_t \<Rightarrow> byte list \<Rightarrow> byte list \<times> parser_t" where
  "read_program p program =
     (if current p \<noteq> - 1 \<and> current p \<noteq> ic CHR ''|'' \<and> \<not> isspace (current p)
      then read_program (parser_step p) (program @ [to_byte (current p)])
      else (program, p))"
  by pat_completeness auto
termination
  by (relation "measure (\<lambda>(p, _). left p)") (auto intro: left_step)

text \<open>The loop of \<open>argument\<close>; \<open>0x5C\<close> is the backslash and \<open>0x22\<close> the quotation mark.\<close>

function read_argument :: "parser_t \<Rightarrow> bool \<Rightarrow> bool \<Rightarrow> byte list \<Rightarrow> byte list \<times> parser_t" where
  "read_argument p instr escaped arg =
     (let c = current p in
      if c = - 1 then (arg, p)
      else if \<not> escaped \<and> c = ic CHR 0x5C then read_argument (parser_step p) instr True arg
      else if instr then
        (if c = ic CHR 0x22 \<and> \<not> escaped then read_argument (parser_step p) False False arg
         else read_argument (parser_step p) True False (arg @ [to_byte c]))
      else if \<not> escaped \<and> (c = ic CHR ''|'' \<or> c = ic CHR '' '') then (arg, p)
      else if c = ic CHR 0x22 \<and> \<not> escaped then read_argument (parser_step p) True False arg
      else read_argument (parser_step p) False False (arg @ [to_byte c]))"
  by pat_completeness auto
termination
  by (relation "measure (\<lambda>(p, _). left p)") (auto intro: left_step)

declare skip_whitespace.simps [simp del] read_program.simps [simp del] read_argument.simps [simp del]

definition call_argument :: "parser_t \<Rightarrow> byte list option \<times> parser_t" where
  "call_argument p =
     (let p = skip_whitespace p in
      if current p = - 1 then (None, p)
      else if current p = ic CHR ''|'' then (None, p)
      else let (arg, p) = read_argument p False False [] in (Some arg, p))"

lemma skip_left: "left (skip_whitespace p) \<le> left p \<and> \<not> isspace (current (skip_whitespace p))"
proof (induction p rule: skip_whitespace.induct)
  case (1 p)
  show ?case
  proof (cases "isspace (current p)")
    case True
    have "skip_whitespace p = skip_whitespace (parser_step p)" using True by (subst skip_whitespace.simps) simp
    then show ?thesis using 1 [OF True] left_space [OF True] by simp
  next
    case False
    then show ?thesis by (simp add: skip_whitespace.simps)
  qed
qed

lemma left_read_argument: "left (snd (read_argument p instr escaped arg)) \<le> left p"
proof (induction "left p" arbitrary: p instr escaped arg rule: less_induct)
  case less
  have "left (snd (read_argument (parser_step p) i e a)) \<le> left p" if "current p \<noteq> - 1" for i e a
    using less [OF left_step [OF that]] left_step [OF that] by (meson le_trans less_imp_le)
  then show ?case by (subst read_argument.simps) (simp add: Let_def)
qed

text \<open>An argument consumes a character.\<close>

lemma left_argument:
  assumes "call_argument p = (Some a, q)"
  shows "left q < left p"
proof -
  let ?p = "skip_whitespace p"
  have c: "current ?p \<noteq> - 1" "current ?p \<noteq> ic CHR ''|''"
    using assms by (auto simp: call_argument_def Let_def split: if_splits)
  then have q: "q = snd (read_argument ?p False False [])"
    using assms by (simp add: call_argument_def Let_def split: prod.splits)
  have s: "current ?p \<noteq> ic CHR '' ''" using skip_left [of p] by (auto simp: isspace_def)
  have "left (snd (read_argument (parser_step ?p) i e a)) < left ?p" for i e a
    using left_read_argument [of "parser_step ?p" i e a] left_step [OF c(1)] by (rule le_less_trans)
  then have "left (snd (read_argument ?p False False [])) < left ?p"
    using c s by (subst read_argument.simps) (simp only: Let_def if_False if_True simp_thms split: if_split)
  then show ?thesis using q skip_left [of p] by simp
qed

function arguments :: "parser_t \<Rightarrow> byte list list \<Rightarrow> byte list list \<times> parser_t" where
  "arguments p args =
     (case call_argument p of
        (None, p) \<Rightarrow> (args, p)
      | (Some arg, p) \<Rightarrow> arguments p (args @ [arg]))"
  by pat_completeness auto
termination
  by (relation "measure (\<lambda>(p, _). left p)") (auto dest: left_argument [OF sym])

definition program_call :: "parser_t \<Rightarrow> program_call_t option \<times> parser_t" where
  "program_call p =
     (let (program, p) = read_program p [] in
      if program = [] then (None, p)
      else let (args, p) = arguments p [] in
        (Some \<lparr>c_program = program, c_arguments = args\<rparr>, p))"

declare arguments.simps [simp del]

lemma left_read_program: "left (snd (read_program p program)) \<le> left p \<and>
    (fst (read_program p program) \<noteq> program \<longrightarrow> left (snd (read_program p program)) < left p)"
proof (induction p program rule: read_program.induct)
  case (1 p program)
  show ?case
  proof (cases "current p \<noteq> - 1 \<and> current p \<noteq> ic CHR ''|'' \<and> \<not> isspace (current p)")
    case True
    have e: "read_program p program = read_program (parser_step p) (program @ [to_byte (current p)])"
      using True by (subst read_program.simps) simp
    have "left (parser_step p) < left p" using True by (intro left_step) simp
    then show ?thesis unfolding e using 1 [OF True, THEN conjunct1] by simp
  next
    case False
    then have "read_program p program = (program, p)" by (subst read_program.simps) (simp only: if_False)
    then show ?thesis by simp
  qed
qed

lemma left_arguments: "left (snd (arguments p args)) \<le> left p"
proof (induction p args rule: arguments.induct)
  case (1 p args)
  obtain r q where r: "call_argument p = (r, q)" by fastforce
  show ?case
  proof (cases r)
    case None
    have "left q \<le> left p"
      using r None skip_left [of p] by (auto simp: call_argument_def Let_def split: if_splits prod.splits)
    then show ?thesis using r None by (simp add: arguments.simps)
  next
    case (Some a)
    then show ?thesis using 1 [OF r [symmetric] Some] left_argument [of p a q] r
      by (subst arguments.simps) simp
  qed
qed

lemma left_program_call:
  assumes "program_call p = (Some c, q)"
  shows "left q < left p"
proof -
  obtain program p1 where 1: "read_program p [] = (program, p1)" by fastforce
  then have "program \<noteq> []" "q = snd (arguments p1 [])"
    using assms by (auto simp: program_call_def split: if_splits prod.splits)
  then show ?thesis using left_read_program [of p "[]"] left_arguments [of p1 "[]"] 1 by simp
qed

text \<open>Errors: a character behind a call, or no call at a position.\<close>

datatype parse_error = Unexpected int | Expected_Call nat

function pipe_expression :: "parser_t \<Rightarrow> program_call_t list \<Rightarrow> parse_error + program_call_t list" where
  "pipe_expression p calls =
     (case program_call (skip_whitespace p) of
        (None, p) \<Rightarrow> Inl (Expected_Call (position p))
      | (Some pc, p) \<Rightarrow>
          let calls = calls @ [pc]; p = skip_whitespace p in
          if current p = ic CHR ''|'' then pipe_expression (parser_step p) calls
          else if current p = - 1 then Inr calls
          else Inl (Unexpected (current p)))"
  by pat_completeness auto
termination
proof (relation "measure (\<lambda>(p, _). left p)", goal_cases)
  case (2 p calls r q pc calls' q')
  have "left q < left p" using left_program_call [of "skip_whitespace p" pc q] skip_left [of p] 2 by simp
  moreover have "left (parser_step q') < left q'" using 2 by (intro left_step) simp
  moreover have "left q' \<le> left q" using skip_left [of q] 2 by simp
  ultimately show ?case by simp
qed simp

declare pipe_expression.simps [simp del]

definition parse_line :: "byte list \<Rightarrow> parse_error + program_call_t list" where
  "parse_line line = pipe_expression (new_parser line) []"

section \<open>The parser on the rest of the line\<close>

text \<open>
  \<open>reads p xs\<close>: the parser has \<open>xs\<close> still to read, the first character in \<open>current\<close>.  No byte of the
  line is 0xFF.
\<close>

definition reads :: "parser_t \<Rightarrow> byte list \<Rightarrow> bool" where
  "reads p xs \<longleftrightarrow> 255 \<notin> set xs \<and> (case xs of
     [] \<Rightarrow> current p = - 1 \<and> length (input p) \<le> position p
   | x # r \<Rightarrow> current p = cv x \<and> drop (position p) (input p) = r)"

lemma cv_end [simp]: "cv x = - 1 \<longleftrightarrow> x = 255"
  using cv_inj [of x 255] by (simp add: cv_def)

lemma reads_nil: "reads p [] \<Longrightarrow> current p = - 1"
  by (simp add: reads_def)

lemma reads_cons: "reads p (x # r) \<Longrightarrow> current p = cv x \<and> x \<noteq> 255"
  by (auto simp: reads_def)

lemma reads_step:
  assumes "reads p (x # r)"
  shows "reads (parser_step p) r"
proof (cases r)
  case Nil
  with assms show ?thesis by (simp add: reads_def parser_step_def)
next
  case (Cons y s)
  then have d: "drop (position p) (input p) = y # s" using assms by (simp add: reads_def)
  then have "position p < length (input p)" by (metis drop_all leI list.distinct(1))
  moreover from this have "input p ! position p = y" "drop (Suc (position p)) (input p) = s"
    using d by (simp_all add: Cons_nth_drop_Suc [symmetric])
  ultimately show ?thesis using assms Cons by (simp add: reads_def parser_step_def)
qed

lemma reads_new: "255 \<notin> set xs \<Longrightarrow> reads (new_parser xs) xs"
  by (cases xs) (auto simp: new_parser_def parser_step_def reads_def)

abbreviation space :: "byte \<Rightarrow> bool" where "space x \<equiv> isspace (cv x)"

lemma skip_reads: "reads p xs \<Longrightarrow> reads (skip_whitespace p) (dropWhile space xs)"
proof (induction xs arbitrary: p)
  case Nil
  then have "\<not> isspace (current p)" using reads_nil [OF Nil] by (simp add: isspace_def)
  then show ?case using Nil by (simp add: skip_whitespace.simps)
next
  case (Cons x xs)
  note c = reads_cons [OF Cons.prems]
  show ?case
  proof (cases "space x")
    case True
    then have "skip_whitespace p = skip_whitespace (parser_step p)" using c by (subst skip_whitespace.simps) simp
    then show ?thesis using True Cons.IH [OF reads_step [OF Cons.prems]] by simp
  next
    case False
    then show ?thesis using c Cons.prems by (simp add: skip_whitespace.simps)
  qed
qed

text \<open>Plain characters of a program name.\<close>

abbreviation plain_char :: "byte \<Rightarrow> bool" where
  "plain_char x \<equiv> x \<noteq> bc CHR ''|'' \<and> \<not> space x"

lemma cv_bar [simp]: "cv x = ic CHR ''|'' \<longleftrightarrow> x = bc CHR ''|''" "cv x = ic CHR '' '' \<longleftrightarrow> x = bc CHR '' ''"
  "cv x = ic CHR 0x5C \<longleftrightarrow> x = bc CHR 0x5C" "cv x = ic CHR 0x22 \<longleftrightarrow> x = bc CHR 0x22"
  using cv_inj [of x "bc CHR ''|''"] cv_inj [of x "bc CHR '' ''"] cv_inj [of x "bc CHR 0x5C"] cv_inj [of x "bc CHR 0x22"]
  by (simp_all add: cv_def)

lemma cv_special [simp]: "cv 124 = 124" "cv 32 = 32" "cv 92 = 92" "cv 34 = 34"
  "cv x = 124 \<longleftrightarrow> x = 124" "cv x = 32 \<longleftrightarrow> x = 32" "cv x = 92 \<longleftrightarrow> x = 92" "cv x = 34 \<longleftrightarrow> x = 34"
  using cv_bar [of x] by (simp_all add: cv_def)

lemma read_program_reads:
  "reads p (w @ r) \<Longrightarrow> \<forall>x\<in>set w. plain_char x \<Longrightarrow> r = [] \<or> \<not> plain_char (hd r) \<Longrightarrow>
   \<exists>q. read_program p program = (program @ w, q) \<and> reads q r"
proof (induction w arbitrary: p program)
  case Nil
  have "\<not> (current p \<noteq> - 1 \<and> current p \<noteq> ic CHR ''|'' \<and> \<not> isspace (current p))"
    using Nil reads_nil [of p] reads_cons [of p] by (cases r) auto
  then have "read_program p program = (program, p)" by (subst read_program.simps) (simp only: if_False)
  then show ?case using Nil by simp
next
  case (Cons x w)
  have c: "current p = cv x" "x \<noteq> 255" using reads_cons [of p x "w @ r"] Cons.prems(1) by auto
  have "read_program p program = read_program (parser_step p) (program @ [x])"
    using c Cons.prems(2) by (subst read_program.simps) simp
  moreover have "reads (parser_step p) (w @ r)" using reads_step [of p x "w @ r"] Cons.prems(1) by simp
  ultimately show ?case using Cons.IH [of "parser_step p" "program @ [x]"] Cons.prems(2,3) by auto
qed

text \<open>An argument in quotation marks, and what reading it gives.\<close>

definition escape :: "byte \<Rightarrow> byte list" where
  "escape x = (if x = bc CHR 0x5C \<or> x = bc CHR 0x22 then [bc CHR 0x5C, x] else [x])"

definition quoted :: "byte list \<Rightarrow> byte list" where
  "quoted a = [bc CHR 0x22] @ concat (map escape a) @ [bc CHR 0x22]"

lemma read_argument_step:
  assumes "reads p (x # r)"
  shows "read_argument p instr escaped arg =
    (if \<not> escaped \<and> x = 92 then read_argument (parser_step p) instr True arg
     else if instr then
       (if x = 34 \<and> \<not> escaped then read_argument (parser_step p) False False arg
        else read_argument (parser_step p) True False (arg @ [x]))
     else if \<not> escaped \<and> (x = 124 \<or> x = 32) then (arg, p)
     else if x = 34 \<and> \<not> escaped then read_argument (parser_step p) True False arg
     else read_argument (parser_step p) False False (arg @ [x]))"
  using reads_cons [OF assms] by (subst read_argument.simps) (simp add: Let_def cong: if_cong)

lemma escape_cases: "escape x = (if x = 92 \<or> x = 34 then [92, x] else [x])"
  by (simp add: escape_def)

lemma read_escaped:
  "reads p (concat (map escape a) @ r) \<Longrightarrow>
   \<exists>q. reads q r \<and> read_argument p True False arg = read_argument q True False (arg @ a)"
proof (induction a arbitrary: p arg)
  case (Cons x a)
  show ?case
  proof (cases "x = 92 \<or> x = 34")
    case True
    then have 1: "reads p (92 # x # concat (map escape a) @ r)" using Cons.prems by (simp add: escape_cases [of x])
    note 2 = reads_step [OF 1]
    have "read_argument p True False arg = read_argument (parser_step (parser_step p)) True False (arg @ [x])"
      by (simp add: read_argument_step [OF 1] read_argument_step [OF 2])
    then show ?thesis using Cons.IH [OF reads_step [OF 2], of "arg @ [x]"] by simp
  next
    case False
    then have 1: "reads p (x # concat (map escape a) @ r)" using Cons.prems by (simp add: escape_cases [of x])
    have "read_argument p True False arg = read_argument (parser_step p) True False (arg @ [x])"
      using False by (simp add: read_argument_step [OF 1])
    then show ?thesis using Cons.IH [OF reads_step [OF 1], of "arg @ [x]"] by simp
  qed
qed auto

abbreviation ends_argument :: "byte list \<Rightarrow> bool" where
  "ends_argument r \<equiv> r = [] \<or> hd r = bc CHR '' '' \<or> hd r = bc CHR ''|''"

lemma read_quoted:
  assumes "reads p (quoted a @ r)" "ends_argument r"
  shows "\<exists>q. read_argument p False False [] = (a, q) \<and> reads q r"
proof -
  have 1: "reads p (34 # concat (map escape a) @ 34 # r)" using assms(1) by (simp add: quoted_def)
  obtain q where q: "reads q (34 # r)"
    "read_argument (parser_step p) True False [] = read_argument q True False a"
    using read_escaped [OF reads_step [OF 1], of "[]"] by auto
  note r = reads_step [OF q(1)]
  have "read_argument (parser_step q) False False a = (a, parser_step q)"
  proof (cases r)
    case Nil
    then show ?thesis using reads_nil [of "parser_step q"] r by (subst read_argument.simps) (simp add: Let_def)
  next
    case (Cons y s)
    then have "y = 32 \<or> y = 124" using assms(2) by auto
    then show ?thesis using read_argument_step [of "parser_step q" y s False False a] r Cons by auto
  qed
  then show ?thesis using r by (simp add: read_argument_step [OF 1] q(2) read_argument_step [OF q(1)])
qed

lemma dropWhile_quoted: "dropWhile space (32 # quoted a @ r) = quoted a @ r"
  by (simp add: quoted_def isspace_def)

lemma argument_quoted:
  assumes "reads p (32 # quoted a @ r)" "ends_argument r"
  shows "\<exists>q. call_argument p = (Some a, q) \<and> reads q r"
proof -
  have 1: "reads (skip_whitespace p) (quoted a @ r)" using skip_reads [OF assms(1)] unfolding dropWhile_quoted .
  have "current (skip_whitespace p) = cv 34" using reads_cons [of _ 34] 1 by (simp add: quoted_def)
  then show ?thesis using read_quoted [OF 1 assms(2)] by (auto simp: call_argument_def Let_def)
qed

lemma argument_end:
  assumes "reads p r" "r = [] \<or> (\<exists>ws s. r = ws @ 124 # s \<and> (\<forall>x\<in>set ws. space x))"
  shows "\<exists>q. call_argument p = (None, q) \<and> reads q (dropWhile space r)"
proof -
  note 1 = skip_reads [OF assms(1)]
  have "dropWhile space r = [] \<or> (\<exists>s. dropWhile space r = 124 # s)"
    using assms(2) by (auto simp: isspace_def)
  then have "current (skip_whitespace p) = - 1 \<or> current (skip_whitespace p) = ic CHR ''|''"
  proof (elim disjE exE)
    assume "dropWhile space r = []"
    then have "reads (skip_whitespace p) []" using 1 by (simp only:)
    then show ?thesis by (simp add: reads_nil)
  next
    fix s assume "dropWhile space r = 124 # s"
    then show ?thesis using 1 reads_cons [of "skip_whitespace p" 124 s] by simp
  qed
  then show ?thesis using 1 by (auto simp: call_argument_def Let_def)
qed

section \<open>Rendering\<close>

text \<open>A command line for a list of calls: names as they are, arguments in quotation marks.\<close>

definition render_call :: "program_call_t \<Rightarrow> byte list" where
  "render_call c = c_program c @ concat (map (\<lambda>a. bc CHR '' '' # quoted a) (c_arguments c))"

fun render :: "program_call_t list \<Rightarrow> byte list" where
  "render [] = []"
| "render [c] = render_call c"
| "render (c # d # cs) = render_call c @ lit '' | '' @ render (d # cs)"

definition valid_call :: "program_call_t \<Rightarrow> bool" where
  "valid_call c \<longleftrightarrow> c_program c \<noteq> [] \<and> (\<forall>x\<in>set (c_program c). plain_char x)"

abbreviation ends_call :: "byte list \<Rightarrow> bool" where
  "ends_call r \<equiv> r = [] \<or> (\<exists>s. r = 32 # 124 # s)"

lemma isspace_32 [simp]: "isspace 32" "\<not> isspace 124"
  by (simp_all add: isspace_def)

lemma arguments_reads:
  "reads p (concat (map (\<lambda>a. 32 # quoted a) as) @ r) \<Longrightarrow> ends_call r \<Longrightarrow>
   \<exists>q. arguments p acc = (acc @ as, q) \<and> reads q (dropWhile space r)"
proof (induction as arbitrary: p acc)
  case Nil
  then have "r = [] \<or> (\<exists>ws s. r = ws @ 124 # s \<and> (\<forall>x\<in>set ws. space x))"
    by (metis append_Cons append_Nil cv_special(2) isspace_32(1) list.set(1,2) singletonD)
  then obtain q where "call_argument p = (None, q)" "reads q (dropWhile space r)"
    using argument_end [of p r] Nil by auto
  then show ?case by (subst arguments.simps) simp
next
  case (Cons a as)
  let ?r = "concat (map (\<lambda>a. 32 # quoted a) as) @ r"
  have "ends_argument ?r" using Cons.prems(2) by (cases as) auto
  then obtain q where q: "call_argument p = (Some a, q)" "reads q ?r"
    using argument_quoted [of p a ?r] Cons.prems(1) by auto
  then show ?case using Cons.IH [OF q(2) Cons.prems(2), of "acc @ [a]"] by (subst arguments.simps) simp
qed

lemma program_call_reads:
  assumes "reads p (render_call c @ r)" "valid_call c" "ends_call r"
  shows "\<exists>q. program_call p = (Some c, q) \<and> reads q (dropWhile space r)"
proof -
  let ?a = "concat (map (\<lambda>a. 32 # quoted a) (c_arguments c)) @ r"
  have "?a = [] \<or> hd ?a = 32" using assms(3) by (cases "c_arguments c") auto
  then have "?a = [] \<or> \<not> plain_char (hd ?a)" by (auto simp: isspace_def)
  then obtain q1 where 1: "read_program p [] = (c_program c, q1)" "reads q1 ?a"
    using read_program_reads [of p "c_program c" ?a "[]"] assms(1,2) by (auto simp: render_call_def valid_call_def)
  obtain q where "arguments q1 [] = (c_arguments c, q)" "reads q (dropWhile space r)"
    using arguments_reads [OF 1(2) assms(3), of "[]"] by auto
  then show ?thesis using 1(1) assms(2) by (cases c) (simp add: program_call_def valid_call_def)
qed

lemma render_Cons: "render (c # cs) = render_call c @ (if cs = [] then [] else lit '' | '' @ render cs)"
  by (cases cs) auto

lemma pipe_expression_reads:
  "reads p (pre @ render cs) \<Longrightarrow> \<forall>x\<in>set pre. space x \<Longrightarrow> cs \<noteq> [] \<Longrightarrow> \<forall>c\<in>set cs. valid_call c \<Longrightarrow>
   pipe_expression p acc = Inr (acc @ cs)"
proof (induction cs arbitrary: p pre acc)
  case (Cons c cs)
  let ?r = "if cs = [] then [] else lit '' | '' @ render cs"
  have "c_program c \<noteq> []" "\<not> space (hd (c_program c))" using Cons.prems(4) by (auto simp: valid_call_def)
  then have "render_call c @ ?r \<noteq> []" "\<not> space (hd (render_call c @ ?r))"
    by (auto simp: render_call_def hd_append)
  then have "dropWhile space (pre @ render_call c @ ?r) = render_call c @ ?r"
    using Cons.prems(2) by (simp add: dropWhile_append2 dropWhile_eq_self_iff del: append_is_Nil_conv)
  then have 1: "reads (skip_whitespace p) (render_call c @ ?r)"
    using skip_reads [OF Cons.prems(1)] by (simp add: render_Cons)
  have "ends_call ?r" by simp
  then obtain q where q: "program_call (skip_whitespace p) = (Some c, q)" "reads q (dropWhile space ?r)"
    using program_call_reads [OF 1] Cons.prems(4) by auto
  have s: "skip_whitespace q = q"
  proof -
    have "\<not> isspace (current q)"
      using q(2) reads_nil [of q] reads_cons [of q 124] by (auto simp: isspace_def split: if_splits)
    then show ?thesis by (simp add: skip_whitespace.simps)
  qed
  show ?case
  proof (cases "cs = []")
    case True
    then have "current q = - 1" using q(2) reads_nil [of q] by simp
    then show ?thesis using q(1) s True by (subst pipe_expression.simps) simp
  next
    case False
    then have "reads q (124 # 32 # render cs)" using q(2) by (simp add: isspace_def)
    then have "current q = 124" "reads (parser_step q) ([32] @ render cs)"
      using reads_cons [of q 124] reads_step [of q 124] by auto
    then show ?thesis using q(1) s False Cons.IH [of "parser_step q" "[32]" "acc @ [c]"] Cons.prems(4)
      by (subst pipe_expression.simps) (simp add: isspace_def)
  qed
qed simp

lemma parse_rendered:
  assumes "cs \<noteq> []" "\<forall>c\<in>set cs. valid_call c" "255 \<notin> set (render cs)"
  shows "parse_line (render cs) = Inr cs"
  using pipe_expression_reads [of "new_parser (render cs)" "[]" cs "[]"] reads_new [OF assms(3)] assms(1,2)
  by (simp add: parse_line_def)

section \<open>Properties\<close>

text \<open>
  C18. The shell reads back every command line: calls with any arguments (spaces, bars, quotation marks,
  backslashes, newlines, nothing at all), written with the arguments in quotation marks and with a bar
  between the calls, are parsed to exactly these calls.
\<close>

theorem shell_reads_rendered:
  assumes "cs \<noteq> []" "\<forall>c\<in>set cs. valid_call c" "255 \<notin> set (render cs)"
  shows "parse_line (render cs) = Inr cs"
  using assms by (rule parse_rendered)

theorem shell_reads_rendered_witness:
  "parse_line (render [\<lparr>c_program = lit ''ls'', c_arguments = [lit ''a b'', [bc CHR 0x22, bc CHR ''|'']]\<rparr>, \<lparr>c_program = lit ''cat'', c_arguments = [[]]\<rparr>]) =
    Inr [\<lparr>c_program = lit ''ls'', c_arguments = [lit ''a b'', [bc CHR 0x22, bc CHR ''|'']]\<rparr>, \<lparr>c_program = lit ''cat'', c_arguments = [[]]\<rparr>]"
  by (rule shell_reads_rendered) (simp_all add: valid_call_def isspace_def cv_def render_call_def quoted_def escape_def)

end
