(* ===== verification/Terminal_Document.thy ===== *)
theory Terminal_Document
  imports C_Prelude
begin

text \<open>
  The text of a terminal window: the lines of \<open>applications/terminal/src/screen/gui/terminal_line.cpp\<close>
  and the document of \<open>terminal_document.cpp\<close>, which addresses its lines from the last one upwards and
  breaks them into rows of the width of the window.
\<close>

section \<open>Lines\<close>

text \<open>
  A line is the first \<open>length\<close> bytes of its buffer.  \<open>None\<close> is an access outside the buffer: in
  \<open>remove\<close> a count of -1 that \<open>memcpy\<close> takes for \<open>SIZE_MAX\<close>.
\<close>

definition line_insert :: "int \<Rightarrow> byte \<Rightarrow> byte list \<Rightarrow> byte list option" where
  "line_insert position c l =
     (let l = (if position \<ge> int (length l) then l @ replicate (nat position + 1 - length l) 0 else l) in
      if position < 0 then None else Some (l[nat position := c]))"

definition line_remove :: "int \<Rightarrow> byte list \<Rightarrow> byte list option" where
  "line_remove position l =
     (if length l > 0 then
        if position < 0 \<or> position \<ge> int (length l) then None
        else Some (take (nat position) l @ drop (nat position + 1) l)
      else Some l)"

section \<open>The document\<close>

text \<open>
  The lines from the last one on, as the links \<open>previous\<close> lead.  Following them \<open>offsetY\<close> times
  leads behind the first line when the offset is too large or negative.
\<close>

type_synonym document = "byte list list"

definition new_document :: document where
  "new_document = [[]]"

fun line_index :: "int \<Rightarrow> document \<Rightarrow> nat option" where
  "line_index offsetY [] = None"
| "line_index offsetY (l # ls) = (if offsetY = 0 then Some 0 else map_option Suc (line_index (offsetY - 1) ls))"

definition getLine :: "int \<Rightarrow> document \<Rightarrow> byte list option" where
  "getLine offset d = map_option ((!) d) (line_index offset d)"

text \<open>A newline puts an empty line below the addressed one.\<close>

definition document_insert :: "int \<Rightarrow> int \<Rightarrow> byte \<Rightarrow> document \<Rightarrow> document option" where
  "document_insert x offsetY c d = (case line_index offsetY d of
     None \<Rightarrow> Some d
   | Some i \<Rightarrow>
     if c = 10 then Some (take i d @ [] # drop i d)
     else do { l \<leftarrow> line_insert x c (d ! i); Some (d[i := l]) })"

definition document_remove :: "int \<Rightarrow> int \<Rightarrow> document \<Rightarrow> document option" where
  "document_remove x offsetY d = (case line_index offsetY d of
     None \<Rightarrow> Some d
   | Some i \<Rightarrow> do { l \<leftarrow> line_remove x (d ! i); Some (d[i := l]) })"

definition document_clear :: "document \<Rightarrow> document" where
  "document_clear d = new_document"

text \<open>
  The loop of \<open>acquireRow\<close> for a positive number of columns: the rest of the lines and \<open>rem\<close>, the
  characters of the first of them that are not passed.
\<close>

lemma mod_smaller: "0 < c \<Longrightarrow> c < r \<Longrightarrow> (r \<le> r mod c) = False" for r c :: nat
  by (metis less_trans mod_less_divisor not_le)

function row_loop :: "nat \<Rightarrow> int \<Rightarrow> document \<Rightarrow> nat \<Rightarrow> document \<times> nat" where
  "row_loop columns offsetY [] rem = ([], rem)"
| "row_loop columns offsetY (line # ls) rem =
     (if offsetY = 0 \<or> columns = 0 then (line # ls, rem)
      else
        let rem = (if rem = 0 then length line else rem) in
        if rem > columns then
          if rem mod columns = 0 then row_loop columns (offsetY - 1) (line # ls) (rem - columns)
          else row_loop columns (offsetY - 1) (line # ls) (rem - rem mod columns)
        else (case ls of [] \<Rightarrow> ([], rem) | l # _ \<Rightarrow> row_loop columns (offsetY - 1) ls (length l)))"
  by pat_completeness auto
termination
  by (relation "measures [\<lambda>(c, off, d, r). length d, \<lambda>(c, off, d, r). if r = 0 then Suc (length (hd d)) else r]")
    (auto simp: mod_smaller split: if_splits)

declare row_loop.simps [simp del]

text \<open>The start and the length of a row; \<open>None\<close> is the null row.  Zero columns are a division by zero.\<close>

definition acquireRow :: "int \<Rightarrow> nat \<Rightarrow> document \<Rightarrow> byte list option" where
  "acquireRow offsetY columns d = (case row_loop columns offsetY d (length (hd d)) of
     ([], rem) \<Rightarrow> None
   | (line # ls, rem) \<Rightarrow>
       let (start, len) =
         (if rem > 0 then
            if rem mod columns = 0 then (rem - columns, columns)
            else (rem - rem mod columns, rem mod columns)
          else (0, 0)) in
       Some (take len (drop start line)))"

definition getRowCount :: "nat \<Rightarrow> document \<Rightarrow> nat" where
  "getRowCount columns d =
     (if columns = 0 then 0
      else fold (\<lambda>line rows. rows + (length line div columns +
        (if length line \<noteq> 0 \<and> length line mod columns = 0 then 0 else 1))) d 0)"

section \<open>Rows\<close>

text \<open>A line broken into rows, and the rows of the document from the bottom.\<close>

function chunks :: "nat \<Rightarrow> 'a list \<Rightarrow> 'a list list" where
  "chunks n xs = (if xs = [] \<or> n = 0 then [] else take n xs # chunks n (drop n xs))"
  by pat_completeness auto
termination
  by (relation "measure (\<lambda>(n, xs). length xs)") auto

declare chunks.simps [simp del]

definition line_rows :: "nat \<Rightarrow> byte list \<Rightarrow> byte list list" where
  "line_rows n l = (if l = [] then [[]] else chunks n l)"

definition document_rows :: "nat \<Rightarrow> document \<Rightarrow> byte list list" where
  "document_rows n d = concat (map (\<lambda>l. rev (line_rows n l)) d)"

lemma chunks_nil [simp]: "chunks n [] = []"
  by (simp add: chunks.simps)

lemma chunks_append: "0 < n \<Longrightarrow> n dvd length xs \<Longrightarrow> chunks n (xs @ ys) = chunks n xs @ chunks n ys"
proof (induction n xs rule: chunks.induct)
  case (1 n xs)
  show ?case
  proof (cases "xs = []")
    case False
    then have "n \<le> length xs" using 1(3) by (simp add: dvd_imp_le)
    then have "n dvd length (drop n xs)" using 1(3) by simp
    with False 1 \<open>n \<le> length xs\<close> show ?thesis
      by (subst (1 2) chunks.simps) simp
  qed simp
qed

lemma chunks_short: "0 < length xs \<Longrightarrow> length xs \<le> n \<Longrightarrow> chunks n xs = [xs]"
  using chunks.simps [of n xs] by (cases n) auto

lemma chunks_concat: "0 < n \<Longrightarrow> concat (chunks n xs) = xs"
  by (induction n xs rule: chunks.induct) (subst chunks.simps, auto)

lemma chunks_length: "0 < n \<Longrightarrow> length (chunks n xs) = length xs div n + (if length xs mod n = 0 then 0 else 1)"
proof (induction n xs rule: chunks.induct)
  case (1 n xs)
  consider "xs = []" | "xs \<noteq> []" "length xs < n" | "n \<le> length xs" "xs \<noteq> []" by linarith
  then show ?case
  proof cases
    case 3
    then have "length xs div n = Suc ((length xs - n) div n)" "(length xs - n) mod n = length xs mod n"
      using 1(2) by (simp_all add: le_div_geq le_mod_geq)
    then show ?thesis using 3 1 by (subst chunks.simps) simp
  qed (use 1(2) in \<open>simp_all add: chunks_short\<close>)
qed

text \<open>The last chunk of a prefix.\<close>

definition last_size :: "nat \<Rightarrow> nat \<Rightarrow> nat" where
  "last_size n r = (if r mod n = 0 then n else r mod n)"

lemma rev_chunks:
  assumes "0 < n" "0 < r" "r \<le> length l"
  shows "last_size n r \<le> r" "n dvd r - last_size n r"
    "rev (chunks n (take r l)) = take (last_size n r) (drop (r - last_size n r) l) # rev (chunks n (take (r - last_size n r) l))"
proof -
  let ?s = "last_size n r"
  show le: "?s \<le> r" using assms(1,2) by (auto simp: last_size_def dvd_imp_le)
  show d: "n dvd r - ?s" unfolding last_size_def
    using assms(1) by (auto simp: minus_mod_eq_mult_div)
  have s: "0 < ?s" "?s \<le> n" using assms(1) by (auto simp: last_size_def less_imp_le)
  have "take r l = take (r - ?s) l @ take ?s (drop (r - ?s) l)"
    using le take_add [of "r - ?s" ?s l] by simp
  moreover have "length (take (r - ?s) l) = r - ?s" using assms(3) by simp
  moreover have "length (take ?s (drop (r - ?s) l)) = ?s" using assms(3) le by simp
  ultimately have "chunks n (take r l) = chunks n (take (r - ?s) l) @ [take ?s (drop (r - ?s) l)]"
    using d s chunks_append [OF assms(1), of "take (r - ?s) l" "take ?s (drop (r - ?s) l)"]
      chunks_short [of "take ?s (drop (r - ?s) l)" n] by simp
  then show "rev (chunks n (take r l)) = take ?s (drop (r - ?s) l) # rev (chunks n (take (r - ?s) l))" by simp
qed

text \<open>
  The loop of \<open>acquireRow\<close> passes one row at a time: the rows above a position in a line are those
  of the rest of the line and of the lines before it.
\<close>

definition rows_from :: "nat \<Rightarrow> byte list \<Rightarrow> nat \<Rightarrow> document \<Rightarrow> byte list list" where
  "rows_from n l rem ls = rev (line_rows n (take rem l)) @ document_rows n ls"

definition row_at :: "nat \<Rightarrow> document \<times> nat \<Rightarrow> byte list option" where
  "row_at n x = (case x of
     ([], rem) \<Rightarrow> None
   | (line # ls, rem) \<Rightarrow>
       let (start, len) =
         (if rem > 0 then if rem mod n = 0 then (rem - n, n) else (rem - rem mod n, rem mod n) else (0, 0)) in
       Some (take len (drop start line)))"

lemma rows_from_step:
  assumes "0 < n" "0 < r" "r \<le> length l"
  shows "rows_from n l r ls = take (last_size n r) (drop (r - last_size n r) l) #
    (if r - last_size n r = 0 then document_rows n ls else rows_from n l (r - last_size n r) ls)"
  using rev_chunks (3) [OF assms] assms by (auto simp: rows_from_def line_rows_def)

lemma row_at_rows:
  assumes "0 < n" "r \<le> length l" "r = 0 \<Longrightarrow> l = []"
  shows "row_at n (l # ls, r) = Some (hd (rows_from n l r ls))"
proof (cases "r = 0")
  case True
  with assms(3) show ?thesis by (simp add: row_at_def rows_from_def line_rows_def)
next
  case False
  then show ?thesis using rows_from_step [OF assms(1) _ assms(2)] by (simp add: row_at_def last_size_def)
qed

lemma row_loop_rows:
  assumes "0 < n"
  shows "r \<le> length l \<Longrightarrow> (r = 0 \<Longrightarrow> l = []) \<Longrightarrow>
    row_at n (row_loop n (int k) (l # ls) r) =
      (if k < length (rows_from n l r ls) then Some (rows_from n l r ls ! k) else None)"
proof (induction k arbitrary: l ls r)
  case 0
  have "rows_from n l r ls \<noteq> []"
    using rows_from_step [OF assms, of r l ls] 0 by (cases "r = 0") (auto simp: rows_from_def line_rows_def)
  then show ?case using row_at_rows [OF assms 0] by (simp add: row_loop.simps hd_conv_nth)
next
  case (Suc k)
  let ?s = "last_size n r"
  have next_line: "row_at n (case ls of [] \<Rightarrow> ([], r) | l # _ \<Rightarrow> row_loop n (int k) ls (length l)) =
    (if k < length (document_rows n ls) then Some (document_rows n ls ! k) else None)"
  proof (cases ls)
    case Nil
    then show ?thesis by (simp add: row_at_def document_rows_def)
  next
    case (Cons l' ls')
    then show ?thesis using Suc.IH [of "length l'" l' ls'] by (simp add: rows_from_def document_rows_def)
  qed
  show ?case
  proof (cases "r = 0")
    case True
    then have "row_loop n (int (Suc k)) (l # ls) r = (case ls of [] \<Rightarrow> ([], r) | l # _ \<Rightarrow> row_loop n (int k) ls (length l))"
      using Suc.prems(2) assms by (subst row_loop.simps) (auto split: list.split)
    moreover have "rows_from n l r ls = [] # document_rows n ls"
      using True Suc.prems(2) by (simp add: rows_from_def line_rows_def)
    ultimately show ?thesis using next_line by simp
  next
    case False
    note f = rows_from_step [OF assms _ Suc.prems(1)]
    have s: "0 < ?s" "?s \<le> r" using assms rev_chunks(1) [OF assms _ Suc.prems(1)] False by (auto simp: last_size_def)
    show ?thesis
    proof (cases "n < r")
      case True
      then have "?s < r" using mod_smaller [OF assms True] True by (auto simp: last_size_def not_le)
      moreover have "row_loop n (int (Suc k)) (l # ls) r = row_loop n (int k) (l # ls) (r - ?s)"
        using False assms True by (subst row_loop.simps) (simp add: last_size_def)
      ultimately show ?thesis using Suc.IH [of "r - ?s" l ls] Suc.prems(1) f False s by simp
    next
      case short: False
      then have "?s = r" using False by (cases "r = n") (auto simp: last_size_def)
      moreover have "row_loop n (int (Suc k)) (l # ls) r = (case ls of [] \<Rightarrow> ([], r) | l # _ \<Rightarrow> row_loop n (int k) ls (length l))"
        using False assms short by (subst row_loop.simps) (auto split: list.split)
      ultimately show ?thesis using next_line f False by simp
    qed
  qed
qed

lemma row_loop_negative: "offsetY < 0 \<Longrightarrow> 0 < n \<Longrightarrow> row_at n (row_loop n offsetY d r) = None"
proof (induction n offsetY d r rule: row_loop.induct)
  case (1 columns offsetY rem)
  then show ?case by (simp add: row_loop.simps row_at_def)
next
  case (2 columns offsetY line ls rem)
  have "row_at columns (case ls of [] \<Rightarrow> ([], r) | l # _ \<Rightarrow> row_loop columns (offsetY - 1) ls (length l)) = None"
    if "\<not> columns < (if rem = 0 then length line else rem)" for r
    using that 2 by (cases ls) (auto simp: row_at_def Let_def)
  then show ?case using 2 by (subst row_loop.simps) (auto simp: Let_def)
qed

lemma getRowCount_rows: "0 < n \<Longrightarrow> getRowCount n d = length (document_rows n d)"
proof -
  assume n: "0 < n"
  have "length l div n + (if length l \<noteq> 0 \<and> length l mod n = 0 then 0 else 1) = length (line_rows n l)" for l :: "byte list"
    using chunks_length [OF n, of l] by (simp add: line_rows_def)
  then have "fold (\<lambda>line rows. rows + (length line div n + (if length line \<noteq> 0 \<and> length line mod n = 0 then 0 else 1))) d k =
    k + length (document_rows n d)" for k
    by (induction d arbitrary: k) (simp_all add: document_rows_def del: if_split)
  then show ?thesis using n by (simp add: getRowCount_def)
qed

lemma acquireRow_rows:
  assumes "0 < n" "d \<noteq> []"
  shows "acquireRow offsetY n d = (if 0 \<le> offsetY \<and> nat offsetY < length (document_rows n d)
      then Some (document_rows n d ! nat offsetY) else None)"
proof -
  obtain l ls where d: "d = l # ls" using assms(2) by (cases d) auto
  have a: "acquireRow offsetY n d = row_at n (row_loop n offsetY d (length l))" by (simp add: acquireRow_def row_at_def d)
  have "rows_from n l (length l) ls = document_rows n d" by (simp add: rows_from_def document_rows_def d)
  then show ?thesis
    using row_loop_rows [OF assms(1), of "length l" l "nat offsetY" ls] row_loop_negative [OF _ assms(1), of offsetY d "length l"] a d
    by (cases "0 \<le> offsetY") (simp_all add: d)
qed

section \<open>Properties\<close>

text \<open>
  C23. The rows of a terminal window: broken into rows of \<open>n\<close> columns, the document has as many rows as
  \<open>getRowCount\<close> says, and \<open>acquireRow\<close> gives for each offset the row that many rows above the last one,
  and the null row for every other offset; the rows of a line, joined, are the line.
\<close>

theorem rows_of_document:
  assumes "0 < n" "d \<noteq> []"
  shows "getRowCount n d = length (document_rows n d) \<and>
    acquireRow offsetY n d = (if 0 \<le> offsetY \<and> nat offsetY < length (document_rows n d)
      then Some (document_rows n d ! nat offsetY) else None) \<and>
    (\<forall>l. concat (line_rows n l) = l \<and> (\<forall>row\<in>set (line_rows n l). length row \<le> n))"
proof -
  note acquireRow_rows [OF assms, of offsetY]
  moreover have "length row \<le> n" if "row \<in> set (chunks n xs)" for row and xs :: "byte list"
    using that by (induction n xs rule: chunks.induct) (subst (asm) (2) chunks.simps, auto split: if_splits)
  ultimately show ?thesis using assms(1) chunks_concat [OF assms(1)] getRowCount_rows [OF assms(1)]
    by (auto simp: line_rows_def split: if_splits)
qed

theorem rows_of_document_witness:
  "getRowCount 2 [[5], [1, 2, 3], []] = 4 \<and> acquireRow 1 2 [[5], [1, 2, 3], []] = Some [3 :: byte] \<and>
    acquireRow 4 2 [[5], [1, 2, 3], []] = None"
  using rows_of_document [of 2 "[[5], [1, 2, 3], []] :: document" 1] rows_of_document [of 2 "[[5], [1, 2, 3], []] :: document" 4]
  by (simp add: document_rows_def line_rows_def chunks.simps)

end
