(* ===== verification/Screens.thy ===== *)
theory Screens
  imports Terminal_Document
begin

text \<open>
  The screens of the terminal (\<open>applications/terminal/src/screen\<close>): the abstract class \<open>screen_t\<close>, the
  window of \<open>gui/gui_screen.cpp\<close> without its painting, and the text mode of \<open>headless_screen.cpp\<close>.
\<close>

section \<open>The class of screens\<close>

text \<open>The members of the class itself; a colour is a \<open>uint8_t\<close>.\<close>

record screen_base =
  colorForeground :: int
  colorBackground :: int

definition setColorForeground :: "int \<Rightarrow> 'z screen_base_scheme \<Rightarrow> 'z screen_base_scheme" where
  "setColorForeground c s = s\<lparr>colorForeground := c mod 256\<rparr>"

definition setColorBackground :: "int \<Rightarrow> 'z screen_base_scheme \<Rightarrow> 'z screen_base_scheme" where
  "setColorBackground c s = s\<lparr>colorBackground := c mod 256\<rparr>"

abbreviation (input) SC_BLACK :: int where "SC_BLACK \<equiv> 0"
abbreviation (input) SC_WHITE :: int where "SC_WHITE \<equiv> 0xF"

text \<open>The virtual functions, over the state \<open>'s\<close> of a screen; \<open>None\<close> is a fault.\<close>

record 's screen_t =
  v_clean :: "'s \<Rightarrow> 's option"
  v_backspace :: "'s \<Rightarrow> 's option"
  v_remove :: "'s \<Rightarrow> 's option"
  v_write :: "byte \<Rightarrow> 's \<Rightarrow> 's option"
  v_flush :: "'s \<Rightarrow> 's"
  v_setCursor :: "int \<Rightarrow> int \<Rightarrow> 's \<Rightarrow> 's"
  v_getCursorX :: "'s \<Rightarrow> int"
  v_getCursorY :: "'s \<Rightarrow> int"
  v_setCursorVisible :: "bool \<Rightarrow> 's \<Rightarrow> 's"
  v_setScrollAreaScreen :: "'s \<Rightarrow> 's"
  v_setScrollArea :: "int \<Rightarrow> int \<Rightarrow> 's \<Rightarrow> 's"
  v_scroll :: "int \<Rightarrow> 's \<Rightarrow> 's"
  v_getColumns :: "'s \<Rightarrow> int"
  v_getRows :: "'s \<Rightarrow> int"
  v_setColorForeground :: "int \<Rightarrow> 's \<Rightarrow> 's"
  v_setColorBackground :: "int \<Rightarrow> 's \<Rightarrow> 's"
  v_getColorForeground :: "'s \<Rightarrow> int"

section \<open>The window\<close>

text \<open>
  \<open>wakeups\<close> counts how often the painting thread is woken by releasing \<open>upToDate\<close>; the bounds of the
  canvas are not negative.
\<close>

record gui_screen = screen_base +
  lines :: document
  documentRows :: int
  cursor_x :: int
  cursor_y :: int
  cursor_blink :: bool
  scrollY :: int
  bounds_width :: nat
  bounds_height :: nat
  fullRepaint :: bool
  wakeups :: nat

definition gui_getColumns :: "gui_screen \<Rightarrow> int" where
  "gui_getColumns s = cdiv (int (bounds_width s) - 2 * 3) 8"

definition gui_getRows :: "gui_screen \<Rightarrow> int" where
  "gui_getRows s = cdiv (int (bounds_height s) - 2 * 3) 18"

definition repaint :: "gui_screen \<Rightarrow> gui_screen" where
  "repaint s = s\<lparr>wakeups := wakeups s + 1\<rparr>"

definition blinkCursor :: "gui_screen \<Rightarrow> gui_screen" where
  "blinkCursor s = repaint (s\<lparr>cursor_blink := \<not> cursor_blink s\<rparr>)"

definition normalizeScroll :: "gui_screen \<Rightarrow> gui_screen" where
  "normalizeScroll s =
     (let viewRows = gui_getRows s;
          s = (if scrollY s > documentRows s then s\<lparr>scrollY := documentRows s\<rparr> else s) in
      if viewRows < documentRows s then
        (if scrollY s > documentRows s - viewRows then s\<lparr>scrollY := documentRows s - viewRows\<rparr>
         else if scrollY s < - viewRows + 1 then s\<lparr>scrollY := - viewRows + 1\<rparr>
         else s)
      else s\<lparr>scrollY := 0\<rparr>)"

definition recalculateView :: "gui_screen \<Rightarrow> gui_screen" where
  "recalculateView s =
     normalizeScroll (s\<lparr>documentRows := int (getRowCount (nat (gui_getColumns s)) (lines s))\<rparr>)"

definition gui_clean :: "gui_screen \<Rightarrow> gui_screen option" where
  "gui_clean s = Some (repaint (recalculateView (s\<lparr>lines := document_clear (lines s), fullRepaint := True\<rparr>)))"

definition gui_setCursor :: "int \<Rightarrow> int \<Rightarrow> gui_screen \<Rightarrow> gui_screen" where
  "gui_setCursor x y s = s\<lparr>cursor_x := x, cursor_y := y, cursor_blink := True\<rparr>"

definition gui_remove :: "gui_screen \<Rightarrow> gui_screen option" where
  "gui_remove s = do {
     d \<leftarrow> document_remove (cursor_x s) (cursor_y s) (lines s);
     Some (recalculateView (s\<lparr>lines := d\<rparr>))
   }"

definition gui_backspace :: "gui_screen \<Rightarrow> gui_screen option" where
  "gui_backspace s = gui_remove (gui_setCursor (cursor_x s - 1) (cursor_y s) s)"

definition charIsUtf8 :: "byte \<Rightarrow> bool" where
  "charIsUtf8 c \<longleftrightarrow> cv c = 9 \<or> cv c = 10 \<or> cv c = 13 \<or> (0x20 \<le> cv c \<and> cv c \<le> 0x7E)"

definition gui_write :: "byte \<Rightarrow> gui_screen \<Rightarrow> gui_screen option" where
  "gui_write c s =
     (if \<not> charIsUtf8 c then Some s
      else do {
        d \<leftarrow> document_insert (cursor_x s) (cursor_y s) c (lines s);
        let s = recalculateView (s\<lparr>lines := d\<rparr>);
        Some (if c = 10 then gui_setCursor 0 (cursor_y s) s else gui_setCursor (cursor_x s + 1) (cursor_y s) s)
      })"

definition gui_setScrollAreaScreen :: "gui_screen \<Rightarrow> gui_screen" where
  "gui_setScrollAreaScreen s = repaint (normalizeScroll (s\<lparr>scrollY := 0, fullRepaint := True\<rparr>))"

definition gui_setScrollArea :: "int \<Rightarrow> int \<Rightarrow> gui_screen \<Rightarrow> gui_screen" where
  "gui_setScrollArea start stop s = repaint (normalizeScroll (s\<lparr>scrollY := stop, fullRepaint := True\<rparr>))"

definition gui_scroll :: "int \<Rightarrow> gui_screen \<Rightarrow> gui_screen" where
  "gui_scroll v s = repaint (normalizeScroll (s\<lparr>scrollY := scrollY s + v, fullRepaint := True\<rparr>))"

definition setCanvasBounds :: "nat \<Rightarrow> nat \<Rightarrow> gui_screen \<Rightarrow> gui_screen" where
  "setCanvasBounds w h s = (recalculateView (s\<lparr>bounds_width := w, bounds_height := h\<rparr>))\<lparr>fullRepaint := True\<rparr>"

text \<open>What \<open>paint\<close> puts into its view buffer: a row of the document for each row of the window.\<close>

definition renderStartRow :: "gui_screen \<Rightarrow> int" where
  "renderStartRow s = (if documentRows s < gui_getRows s then documentRows s else gui_getRows s + scrollY s)"

definition view_char :: "gui_screen \<Rightarrow> nat \<Rightarrow> nat \<Rightarrow> byte" where
  "view_char s x y = (case acquireRow (renderStartRow s - int y - 1) (nat (gui_getColumns s)) (lines s) of
     None \<Rightarrow> 0 | Some row \<Rightarrow> if x < length row then row ! x else 0)"

definition gui_screen_t :: "gui_screen screen_t" where
  "gui_screen_t = \<lparr>v_clean = gui_clean, v_backspace = gui_backspace, v_remove = gui_remove, v_write = gui_write,
     v_flush = repaint, v_setCursor = gui_setCursor, v_getCursorX = cursor_x, v_getCursorY = cursor_y,
     v_setCursorVisible = (\<lambda>visible s. s), v_setScrollAreaScreen = gui_setScrollAreaScreen,
     v_setScrollArea = gui_setScrollArea, v_scroll = gui_scroll, v_getColumns = gui_getColumns, v_getRows = gui_getRows,
     v_setColorForeground = setColorForeground, v_setColorBackground = setColorBackground,
     v_getColorForeground = colorForeground\<rparr>"

section \<open>Text mode\<close>

text \<open>
  \<open>video\<close> is the video memory, two bytes for a cell; an access behind it is a fault.  \<open>offset\<close> is a
  \<open>uint32_t\<close>.  \<open>hardware_cursor\<close> is the position last written to the ports of the video controller.
\<close>

abbreviation (input) SCREEN_WIDTH :: nat where "SCREEN_WIDTH \<equiv> 80"
abbreviation (input) SCREEN_HEIGHT :: nat where "SCREEN_HEIGHT \<equiv> 25"

record headless_screen = screen_base +
  video :: "byte list"
  offset :: "32 word"
  hardware_cursor :: nat

definition put_cell :: "nat \<Rightarrow> byte \<Rightarrow> headless_screen \<Rightarrow> headless_screen option" where
  "put_cell i c s = (if i < length (video s) then Some (s\<lparr>video := (video s)[i := c]\<rparr>) else None)"

definition sc_color :: "int \<Rightarrow> int \<Rightarrow> byte" where
  "sc_color ba fo = or (word_of_int fo) (push_bit 4 (word_of_int ba))"

definition headless_getCursorX :: "headless_screen \<Rightarrow> int" where
  "headless_getCursorX s = int ((unat (offset s) mod (SCREEN_WIDTH * 2)) div 2)"

definition headless_getCursorY :: "headless_screen \<Rightarrow> int" where
  "headless_getCursorY s = int (unat (offset s) div (SCREEN_WIDTH * 2))"

definition updateCursor :: "headless_screen \<Rightarrow> headless_screen" where
  "updateCursor s = s\<lparr>hardware_cursor :=
     nat ((headless_getCursorY s * int SCREEN_WIDTH + headless_getCursorX s) mod 2 ^ 16)\<rparr>"

fun blank_cells :: "nat \<Rightarrow> nat \<Rightarrow> byte list \<Rightarrow> byte list" where
  "blank_cells start 0 xs = xs"
| "blank_cells start (Suc n) xs = blank_cells (start + 2) n (xs[start := 32, Suc start := sc_color SC_BLACK SC_WHITE])"

definition headless_clean :: "headless_screen \<Rightarrow> headless_screen option" where
  "headless_clean s =
     (if SCREEN_HEIGHT * SCREEN_WIDTH * 2 \<le> length (video s)
      then Some (s\<lparr>video := blank_cells 0 (SCREEN_HEIGHT * SCREEN_WIDTH) (video s), offset := 0\<rparr>) else None)"

text \<open>The test for a negative offset is never true: the offset has no sign.\<close>

definition headless_setCursor :: "int \<Rightarrow> int \<Rightarrow> headless_screen \<Rightarrow> headless_screen" where
  "headless_setCursor x y s =
     (let off = word_of_int (y * int SCREEN_WIDTH * 2 + x * 2) :: 32 word in
      updateCursor (s\<lparr>offset := if off > of_nat (SCREEN_WIDTH * 2 * SCREEN_HEIGHT)
        then of_nat (SCREEN_WIDTH * 2 * SCREEN_HEIGHT) else off\<rparr>))"

text \<open>Scrolling by one line; the forward copy of \<open>memcpy\<close> moves the lines up.\<close>

definition normalize :: "headless_screen \<Rightarrow> headless_screen option" where
  "normalize s =
     (if unat (offset s) \<ge> SCREEN_WIDTH * SCREEN_HEIGHT * 2 then
        (if SCREEN_HEIGHT * SCREEN_WIDTH * 2 \<le> length (video s) then
           let lineBytes = SCREEN_WIDTH * 2; screenSize = SCREEN_HEIGHT * lineBytes;
               moved = take (screenSize - lineBytes) (drop lineBytes (video s)) @ drop (screenSize - lineBytes) (video s) in
           Some (s\<lparr>offset := offset s - of_nat (SCREEN_WIDTH * 2), video := blank_cells (screenSize - lineBytes) SCREEN_WIDTH moved\<rparr>)
         else None)
      else Some s)"

definition headless_write :: "byte \<Rightarrow> headless_screen \<Rightarrow> headless_screen option" where
  "headless_write c s = do {
     s \<leftarrow> (if c = 10 then
             let off = offset s + of_nat (SCREEN_WIDTH * 2) in
             Some (s\<lparr>offset := off - off mod of_nat (SCREEN_WIDTH * 2)\<rparr>)
           else do {
             s \<leftarrow> put_cell (unat (offset s)) c s;
             let s = s\<lparr>offset := offset s + 1\<rparr>;
             s \<leftarrow> put_cell (unat (offset s)) (sc_color (colorBackground s) (colorForeground s)) s;
             Some (s\<lparr>offset := offset s + 1\<rparr>)
           });
     s \<leftarrow> normalize s;
     Some (updateCursor s)
   }"

definition headless_remove :: "headless_screen \<Rightarrow> headless_screen option" where
  "headless_remove s = do {
     s \<leftarrow> put_cell (unat (offset s)) 32 s;
     let s = s\<lparr>offset := offset s + 1\<rparr>;
     let s = s\<lparr>offset := offset s + 1\<rparr>;
     Some (updateCursor (s\<lparr>offset := offset s - 2\<rparr>))
   }"

definition headless_backspace :: "headless_screen \<Rightarrow> headless_screen option" where
  "headless_backspace s = headless_remove (s\<lparr>offset := offset s - 2\<rparr>)"

definition headless_screen_t :: "headless_screen screen_t" where
  "headless_screen_t = \<lparr>v_clean = headless_clean, v_backspace = headless_backspace, v_remove = headless_remove,
     v_write = headless_write, v_flush = (\<lambda>s. s), v_setCursor = headless_setCursor, v_getCursorX = headless_getCursorX,
     v_getCursorY = headless_getCursorY, v_setCursorVisible = (\<lambda>visible s. s), v_setScrollAreaScreen = (\<lambda>s. s),
     v_setScrollArea = (\<lambda>start stop s. s), v_scroll = (\<lambda>v s. s), v_getColumns = (\<lambda>s. int SCREEN_WIDTH),
     v_getRows = (\<lambda>s. int SCREEN_HEIGHT),
     v_setColorForeground = setColorForeground, v_setColorBackground = setColorBackground,
     v_getColorForeground = colorForeground\<rparr>"

section \<open>What a client relies on\<close>

text \<open>
  The contract of a screen that programs which draw one row rely on, the shell's line editor for one:
  \<open>shows s y t\<close> says that row \<open>y\<close> shows the text \<open>t\<close> and nothing behind it, \<open>fits x y\<close> that the cursor can
  stand there, \<open>ok\<close> is the invariant of the screen.
\<close>

definition printable :: "byte \<Rightarrow> bool" where
  "printable c \<longleftrightarrow> 32 \<le> cv c \<and> cv c \<le> 126"

definition cursor_at :: "'s screen_t \<Rightarrow> 's \<Rightarrow> int \<Rightarrow> int \<Rightarrow> bool" where
  "cursor_at V s x y \<longleftrightarrow> v_getCursorX V s = x \<and> v_getCursorY V s = y"

locale screen_row =
  fixes V :: "'s screen_t"
    and ok :: "'s \<Rightarrow> bool"
    and shows_row :: "'s \<Rightarrow> int \<Rightarrow> byte list \<Rightarrow> bool"
    and fits :: "int \<Rightarrow> int \<Rightarrow> bool"
  assumes fits_origin: "fits 0 0"
    and fits_range: "fits x y \<Longrightarrow> 0 \<le> x \<and> x \<le> INT_MAX \<and> 0 \<le> y \<and> y \<le> INT_MAX"
    and fits_less: "fits x y \<Longrightarrow> 0 \<le> x' \<Longrightarrow> x' \<le> x \<Longrightarrow> fits x' y"
    and clean: "ok s \<Longrightarrow> \<exists>s'. v_clean V s = Some s' \<and> ok s' \<and> shows_row s' 0 []"
    and set_cursor: "ok s \<Longrightarrow> fits x y \<Longrightarrow> ok (v_setCursor V x y s) \<and> cursor_at V (v_setCursor V x y s) x y \<and>
      shows_row (v_setCursor V x y s) = shows_row s"
    and writes: "ok s \<Longrightarrow> shows_row s y t \<Longrightarrow> cursor_at V s (int n) y \<Longrightarrow> n \<le> length t \<Longrightarrow> printable c \<Longrightarrow>
      fits (int (length t) + 1) y \<Longrightarrow> \<exists>s'. v_write V c s = Some s' \<and> ok s' \<and>
        shows_row s' y (take n t @ c # drop (Suc n) t) \<and> cursor_at V s' (int n + 1) y"
    and remove: "ok s \<Longrightarrow> shows_row s y (t @ [c]) \<Longrightarrow> cursor_at V s (int (length t)) y \<Longrightarrow> fits (int (length t)) y \<Longrightarrow>
      \<exists>s'. v_remove V s = Some s' \<and> ok s' \<and> shows_row s' y t \<and> cursor_at V s' (int (length t)) y"
    and backspace: "ok s \<Longrightarrow> shows_row s y (t @ [c]) \<Longrightarrow> cursor_at V s (int (length t) + 1) y \<Longrightarrow> fits (int (length t) + 1) y \<Longrightarrow>
      \<exists>s'. v_backspace V s = Some s' \<and> ok s' \<and> shows_row s' y t \<and> cursor_at V s' (int (length t)) y"
    and newline: "ok s \<Longrightarrow> \<exists>s'. v_write V 10 s = Some s' \<and> ok s'"
    and flush: "ok s \<Longrightarrow> ok (v_flush V s) \<and> cursor_at V (v_flush V s) = cursor_at V s \<and> shows_row (v_flush V s) = shows_row s"
    and foreground: "ok s \<Longrightarrow> ok (v_setColorForeground V k s) \<and>
      cursor_at V (v_setColorForeground V k s) = cursor_at V s \<and> shows_row (v_setColorForeground V k s) = shows_row s"
    and background: "ok s \<Longrightarrow> ok (v_setColorBackground V k s) \<and>
      cursor_at V (v_setColorBackground V k s) = cursor_at V s \<and> shows_row (v_setColorBackground V k s) = shows_row s"
begin

text \<open>Writing a text at the end of the row, or over the rest of it.\<close>

fun write_all :: "byte list \<Rightarrow> 's \<Rightarrow> 's option" where
  "write_all [] s = Some s"
| "write_all (c # cs) s = do { s \<leftarrow> v_write V c s; write_all cs s }"

lemma write_over:
  "ok s \<Longrightarrow> shows_row s y t \<Longrightarrow> cursor_at V s (int x) y \<Longrightarrow> x \<le> length t \<Longrightarrow> list_all printable cs \<Longrightarrow>
    fits (int (max (length t) (x + length cs)) + 1) y \<Longrightarrow> \<exists>s'. write_all cs s = Some s' \<and> ok s' \<and>
      shows_row s' y (take x t @ cs @ drop (x + length cs) t) \<and> cursor_at V s' (int (x + length cs)) y"
proof (induction cs arbitrary: s t x)
  case (Cons c cs)
  have "fits (int (length t) + 1) y" using fits_less [OF Cons.prems(6)] by simp
  from writes [OF Cons.prems(1-4) _ this, of c] Cons.prems(5) obtain s1 where s1: "v_write V c s = Some s1" "ok s1"
    "shows_row s1 y (take x t @ c # drop (Suc x) t)" "cursor_at V s1 (int (Suc x)) y" by (auto simp: add.commute)
  let ?t = "take x t @ c # drop (Suc x) t"
  have l: "length ?t = max (length t) (Suc x)" using Cons.prems(4) by (auto simp: max_def)
  then have "max (length ?t) (Suc x + length cs) = max (length t) (x + length (c # cs))" by simp
  then have "fits (int (max (length ?t) (Suc x + length cs)) + 1) y" using Cons.prems(6) by (simp only:)
  from Cons.IH [OF s1(2-4) _ _ this] Cons.prems(4,5) l obtain s' where "write_all cs s1 = Some s'" "ok s'"
    "shows_row s' y (take (Suc x) ?t @ cs @ drop (Suc x + length cs) ?t)" "cursor_at V s' (int (Suc x + length cs)) y" by auto
  moreover have "take (Suc x) ?t = take x t @ [c]" "drop (Suc x + length cs) ?t = drop (Suc (x + length cs)) t"
    using Cons.prems(4) by (simp_all add: min_def add.commute)
  ultimately show ?case using s1(1) by simp
qed simp

end

section \<open>The window keeps the contract\<close>

lemma line_index_eq: "line_index y d = (if 0 \<le> y \<and> nat y < length d then Some (nat y) else None)"
proof (induction d arbitrary: y)
  case (Cons l d)
  show ?case unfolding line_index.simps Cons.IH by (cases "y \<le> 0") (auto simp: nat_diff_distrib)
qed simp

definition gui_shows :: "gui_screen \<Rightarrow> int \<Rightarrow> byte list \<Rightarrow> bool" where
  "gui_shows s y t \<longleftrightarrow> getLine y (lines s) = Some t"

definition gui_fits :: "int \<Rightarrow> int \<Rightarrow> bool" where
  "gui_fits x y \<longleftrightarrow> 0 \<le> x \<and> x \<le> INT_MAX \<and> 0 \<le> y \<and> y \<le> INT_MAX"

lemma view_only [simp]:
  "lines (normalizeScroll s) = lines s" "cursor_x (normalizeScroll s) = cursor_x s" "cursor_y (normalizeScroll s) = cursor_y s"
  "lines (recalculateView s) = lines s" "cursor_x (recalculateView s) = cursor_x s" "cursor_y (recalculateView s) = cursor_y s"
  by (simp_all add: normalizeScroll_def recalculateView_def Let_def)

lemmas gui_defs = gui_screen_t_def gui_clean_def gui_backspace_def gui_remove_def gui_write_def repaint_def gui_setCursor_def
  setColorForeground_def setColorBackground_def cursor_at_def gui_shows_def

lemma getLine_eq: "getLine y d = Some t \<longleftrightarrow> 0 \<le> y \<and> nat y < length d \<and> d ! nat y = t"
  by (auto simp: getLine_def line_index_eq)

interpretation gui: screen_row gui_screen_t "\<lambda>s. True" gui_shows gui_fits
proof (unfold_locales, goal_cases)
  case (6 s y t x c)
  have c: "charIsUtf8 c" "c \<noteq> 10" using 6(5) by (auto simp: printable_def charIsUtf8_def cv_def)
  have l: "line_insert (int x) c t = Some (take x t @ c # drop (Suc x) t)"
  proof (cases "x = length t")
    case True
    then show ?thesis by (simp add: line_insert_def Let_def)
  next
    case False
    with 6(4) show ?thesis by (simp add: line_insert_def Let_def upd_conv_take_nth_drop)
  qed
  from 6 c l show ?case by (auto simp: gui_defs getLine_eq document_insert_def line_index_eq Let_def)
next
  case (7 s y t c)
  then show ?case
    by (auto simp: gui_defs getLine_eq document_remove_def line_index_eq line_remove_def)
next
  case (8 s y t c)
  then show ?case
    by (auto simp: gui_defs getLine_eq document_remove_def line_index_eq line_remove_def)
next
  case (9 s)
  then show ?case by (auto simp: gui_defs charIsUtf8_def cv_def document_insert_def split: option.split)
qed (auto simp: gui_defs gui_fits_def document_clear_def new_document_def getLine_def fun_eq_iff)

section \<open>Text mode keeps the contract\<close>

definition headless_ok :: "headless_screen \<Rightarrow> bool" where
  "headless_ok s \<longleftrightarrow> 4000 \<le> length (video s) \<and> even (unat (offset s))"

definition headless_shows :: "headless_screen \<Rightarrow> int \<Rightarrow> byte list \<Rightarrow> bool" where
  "headless_shows s y t \<longleftrightarrow> 0 \<le> y \<and> y < 25 \<and> length t \<le> 80 \<and>
     (\<forall>j<80. video s ! (160 * nat y + 2 * j) = (if j < length t then t ! j else 32))"

definition headless_fits :: "int \<Rightarrow> int \<Rightarrow> bool" where
  "headless_fits x y \<longleftrightarrow> 0 \<le> x \<and> x < 80 \<and> 0 \<le> y \<and> y < 25"

lemmas headless_defs = headless_screen_t_def cursor_at_def headless_getCursorX_def headless_getCursorY_def
  updateCursor_def headless_ok_def headless_fits_def

lemma offset_at:
  assumes "even off" "int ((off mod 160) div 2) = x" "int (off div 160) = y"
  shows "off = 160 * nat y + 2 * nat x"
proof -
  have "even (off mod 160)" using assms(1) by (simp add: dvd_mod)
  then have "2 * ((off mod 160) div 2) = off mod 160" by (rule dvd_mult_div_cancel)
  moreover have "nat x = (off mod 160) div 2" "nat y = off div 160" using assms(2,3) by linarith+
  ultimately show ?thesis by (metis mult_div_mod_eq)
qed

lemma offset_parts: "x < 80 \<Longrightarrow> (160 * y + 2 * x) mod 160 div 2 = x \<and> (160 * y + 2 * x) div 160 = y" for x y :: nat
  by simp

lemma unat_add2: "unat off + 2 < 2 ^ 32 \<Longrightarrow> unat (off + 2) = unat off + 2" for off :: "32 word"
  by (simp add: unat_word_ariths)

lemma put_cell_Some: "i < length (video s) \<Longrightarrow> put_cell i c s = Some (s\<lparr>video := (video s)[i := c]\<rparr>)"
  by (simp add: put_cell_def)

lemma headless_write_at:
  assumes "headless_ok s" "unat (offset s) = 160 * y + 2 * x" "y < 25" "x < 79" "c \<noteq> 10"
  shows "headless_write c s = Some (updateCursor (s\<lparr>video := (video s)
    [160 * y + 2 * x := c, 160 * y + 2 * x + 1 := sc_color (colorBackground s) (colorForeground s)], offset := offset s + 2\<rparr>))"
proof -
  have u: "unat (offset s + 1) = 160 * y + 2 * x + 1" using assms(2-4) by (simp add: unat_word_ariths)
  have u2: "unat (offset s + 2) = 160 * y + 2 * x + 2" using unat_add2 [of "offset s"] assms(2-4) by simp
  have "offset s + 1 + 1 = offset s + 2" by simp
  then show ?thesis using assms u u2
    by (simp add: headless_write_def put_cell_Some headless_ok_def normalize_def Let_def add.commute [of 2])
qed

lemma blank_cells_length [simp]: "length (blank_cells start n xs) = length xs"
  by (induction n arbitrary: start xs) simp_all

lemma blank_cells_before: "i < start \<Longrightarrow> blank_cells start n xs ! i = xs ! i"
  by (induction n arbitrary: start xs) simp_all

lemma blank_cells_nth:
  "start + 2 * n \<le> length xs \<Longrightarrow>
    blank_cells start n xs ! (start + 2 * k) = (if k < n then 32 else xs ! (start + 2 * k))"
proof (induction n arbitrary: start xs k)
  case (Suc n)
  show ?case
  proof (cases k)
    case 0
    then show ?thesis using Suc.prems by (simp add: blank_cells_before)
  next
    case (Suc k')
    then show ?thesis
      using Suc.IH [of "start + 2" "xs[start := 32, Suc start := sc_color SC_BLACK SC_WHITE]" k'] Suc.prems by simp
  qed
qed simp

lemma headless_remove_at:
  assumes "headless_ok s" "unat (offset s) = 160 * nat y + 2 * length t" "headless_shows s y (t @ [c])" "length t < 80" "0 \<le> y"
  shows "\<exists>s'. headless_remove s = Some s' \<and> headless_ok s' \<and> headless_shows s' y t \<and> cursor_at headless_screen_t s' (int (length t)) y"
proof -
  have b: "nat y < 25" using assms(3) by (auto simp: headless_shows_def)
  have len: "4000 \<le> length (video s)" using assms(1) by (simp add: headless_ok_def)
  have cell: "(video s)[160 * nat y + 2 * length t := 32] ! (160 * nat y + 2 * j) =
    (if j = length t then 32 else video s ! (160 * nat y + 2 * j))" if "j < 80" for j
    using that b len by (auto simp: nth_list_update)
  have "headless_shows (s\<lparr>video := (video s)[160 * nat y + 2 * length t := 32]\<rparr>) y t"
    using assms(3) cell b by (auto simp: headless_shows_def nth_append)
  then show ?thesis using assms(1,2,4,5) len b
    by (simp add: headless_defs headless_shows_def headless_remove_def put_cell_Some Let_def)
qed

lemma headless_newline:
  assumes "headless_ok s"
  shows "\<exists>s'. headless_write 10 s = Some s' \<and> headless_ok s'"
proof -
  define off where "off = offset s + 160 - (offset s + 160) mod 160"
  have even_mod: "even (unat (a mod 160))" if "even (unat a)" for a :: "32 word"
    using that by (simp add: unat_mod dvd_mod)
  have even_uint: "even (unat a) \<longleftrightarrow> even (uint a)" for a :: "32 word"
    by (simp only: unat_eq_nat_uint even_nat_iff [OF uint_ge_0])
  have even_minus: "even (unat (a - b))" if "even (unat a)" "even (unat b)" for a b :: "32 word"
    using that unfolding even_uint uint_word_ariths by (simp add: dvd_mod)
  have "even (unat (offset s + 160))" using assms by (simp add: headless_ok_def unat_word_ariths dvd_mod)
  then have "even (unat off)" unfolding off_def by (intro even_minus even_mod)
  moreover have "even (unat (off - 160))" using calculation by (intro even_minus) simp_all
  ultimately show ?thesis using assms
    by (auto simp: headless_write_def normalize_def headless_ok_def updateCursor_def Let_def off_def)
qed

interpretation headless: screen_row headless_screen_t headless_ok headless_shows headless_fits
proof (unfold_locales, goal_cases)
  case 1
  then show ?case by (simp add: headless_defs)
next
  case (2 x y)
  then show ?case by (simp add: headless_defs)
next
  case (3 x y x')
  then show ?case by (simp add: headless_defs)
next
  case (4 s)
  then show ?case by (simp add: headless_defs headless_clean_def headless_shows_def blank_cells_nth [of 0, simplified])
next
  case (5 s x y)
  define k where "k = 160 * nat y + 2 * nat x"
  have k: "k < 4000" "y * int SCREEN_WIDTH * 2 + x * 2 = int k" using 5(2) by (auto simp: headless_fits_def k_def)
  then have u: "unat (of_nat k :: 32 word) = k" by (simp add: unat_of_nat)
  then have "\<not> (4000 :: 32 word) < of_nat k" using k(1) by (simp add: word_less_nat_alt)
  then have "headless_setCursor x y s = updateCursor (s\<lparr>offset := of_nat k\<rparr>)"
    unfolding headless_setCursor_def k(2) by (simp add: Let_def)
  moreover have "2 * nat x mod 160 = 2 * nat x" "nat x div 80 = 0" using 5(2) by (auto simp: headless_fits_def)
  ultimately show ?case using u k_def 5 by (simp add: headless_defs headless_shows_def fun_eq_iff)
next
  case (6 s y t n c)
  have o: "unat (offset s) = 160 * nat y + 2 * n"
    using offset_at [of "unat (offset s)" "int n" y] 6(1,3) by (simp add: headless_defs)
  have b: "nat y < 25" "n < 79" "c \<noteq> 10" "0 \<le> y" "length t < 79"
    using 6(4-6) by (auto simp: headless_fits_def printable_def cv_def)
  have u2: "unat (offset s + 2) = 160 * nat y + 2 * n + 2" using unat_add2 [of "offset s"] o b by simp
  have len: "4000 \<le> length (video s)" using 6(1) by (simp add: headless_ok_def)
  have cell: "(video s)[160 * nat y + 2 * n := c, 160 * nat y + 2 * n + 1 := a] ! (160 * nat y + 2 * j) =
    (if j = n then c else video s ! (160 * nat y + 2 * j))" if "j < 80" for a j
    using that b len by (auto simp: nth_list_update)
  have "headless_shows (updateCursor (s\<lparr>video := (video s)
    [160 * nat y + 2 * n := c, 160 * nat y + 2 * n + 1 := a], offset := offset s + 2\<rparr>)) y (take n t @ c # drop (Suc n) t)" for a
    using 6(2,4) cell b by (auto simp: headless_shows_def updateCursor_def nth_append nth_Cons')
  moreover have "Suc (Suc (160 * nat y + 2 * n)) mod 160 div 2 = n + 1" "Suc (Suc (160 * nat y + 2 * n)) div 160 = nat y"
    using offset_parts [of "n + 1" "nat y"] b(2) by simp_all
  ultimately show ?case using headless_write_at [OF 6(1) o b(1-3)] u2 6(1) b
    by (simp add: headless_defs headless_shows_def)
next
  case (7 s y t c)
  have o: "unat (offset s) = 160 * nat y + 2 * length t"
    using offset_at [of "unat (offset s)" "int (length t)" y] 7(1,3) by (simp add: headless_defs)
  have "length t < 80" "0 \<le> y" using 7(4) by (auto simp: headless_fits_def)
  with headless_remove_at [OF 7(1) o 7(2)] show ?case by (simp add: headless_screen_t_def)
next
  case (8 s y t c)
  have f: "length t < 79" "0 \<le> y" "y < 25" using 8(4) by (auto simp: headless_fits_def)
  have "unat (offset s) = 160 * nat y + 2 * Suc (length t)"
    using offset_at [of "unat (offset s)" "int (Suc (length t))" y] 8(1,3) by (simp add: headless_defs add.commute)
  then have o: "unat (offset s - 2) = 160 * nat y + 2 * length t"
    by (subst unat_sub) (simp_all add: word_le_nat_alt)
  have "headless_ok (s\<lparr>offset := offset s - 2\<rparr>)" "headless_shows (s\<lparr>offset := offset s - 2\<rparr>) y (t @ [c])"
    using 8(1,2) o by (simp_all add: headless_ok_def headless_shows_def)
  from headless_remove_at [OF this(1) _ this(2)] o f show ?case
    by (simp add: headless_screen_t_def headless_backspace_def)
next
  case (9 s)
  then show ?case using headless_newline [of s] by (simp add: headless_screen_t_def)
qed (simp_all add: headless_defs setColorForeground_def setColorBackground_def headless_shows_def fun_eq_iff)

section \<open>The view\<close>

text \<open>
  Without scrolling the window shows the end of the document: its last rows from top to bottom, all of them
  if they fit.
\<close>

theorem view_shows_end:
  assumes "0 < gui_getColumns s" "lines s \<noteq> []" "documentRows s = int (getRowCount (nat (gui_getColumns s)) (lines s))"
    "scrollY s = 0" "int y < gui_getRows s"
  shows "view_char s x y =
    (let rows = take (nat (gui_getRows s)) (document_rows (nat (gui_getColumns s)) (lines s)) in
      if y < length rows \<and> x < length (rev rows ! y) then rev rows ! y ! x else 0)"
proof -
  let ?n = "nat (gui_getColumns s)"
  let ?rows = "document_rows ?n (lines s)"
  have n: "0 < ?n" using assms(1) by simp
  have d: "documentRows s = int (length ?rows)" using assms(3) getRowCount_rows [OF n] by simp
  have start: "renderStartRow s = int (min (nat (gui_getRows s)) (length ?rows))"
    unfolding renderStartRow_def using assms(4,5) d
    by (cases "documentRows s < gui_getRows s", simp_all only: if_True if_False)
  have a: "acquireRow k ?n (lines s) = (if 0 \<le> k \<and> nat k < length ?rows then Some (?rows ! nat k) else None)" for k
    by (rule acquireRow_rows [OF n assms(2)])
  show ?thesis
  proof (cases "y < min (nat (gui_getRows s)) (length ?rows)")
    case True
    then have k: "nat (renderStartRow s - int y - 1) = min (nat (gui_getRows s)) (length ?rows) - Suc y" "0 \<le> renderStartRow s - int y - 1"
      unfolding start by linarith+
    have "rev (take (nat (gui_getRows s)) ?rows) ! y = ?rows ! (min (nat (gui_getRows s)) (length ?rows) - Suc y)"
    proof -
      have "min (nat (gui_getRows s)) (length ?rows) - Suc y < nat (gui_getRows s)" using True by linarith
      then show ?thesis using True by (simp add: rev_nth min.commute)
    qed
    moreover have "min (nat (gui_getRows s)) (length ?rows) - Suc y < length ?rows" using True by linarith
    ultimately show ?thesis using True k by (simp add: view_char_def a Let_def min.commute)
  next
    case False
    then have "\<not> 0 \<le> renderStartRow s - int y - 1" unfolding start by linarith
    moreover have "\<not> y < length (take (nat (gui_getRows s)) ?rows)" using False by auto
    ultimately show ?thesis unfolding Let_def by (simp only: view_char_def a if_False option.simps simp_thms)
  qed
qed

end
