(* ===== verification/Terminal_Stream.thy ===== *)
theory Terminal_Stream
  imports Screens Printf_Spec
begin

text \<open>
  The terminal (\<open>applications/terminal/src/terminal.cpp\<close>): the escape sequences in the output of the
  programs, the keyboard input, and what it sends to the shell.
\<close>

section \<open>State\<close>

text \<open>
  The pipe to the shell is written with the system call \<open>W\<close>, whose result is the number of bytes
  taken.  \<open>killed\<close> lists the processes given to \<open>g_kill\<close>.
\<close>

type_synonym 'p pipe_write = "byte list \<Rightarrow> 'p \<Rightarrow> int \<times> 'p"

datatype terminal_stream_status_t = STATUS_TEXT | LAST_WAS_ESC | WITHIN_VT100 | WITHIN_GHOSTTERM

record stream_control_status_t =
  status :: terminal_stream_status_t
  parameterCount :: int
  parameters :: "int list"
  controlCharacter :: byte

abbreviation (input) MAX_PARAMETERS :: nat where "MAX_PARAMETERS \<equiv> 4"

text \<open>The initialisers of the structure leave out the parameters, which are what the memory held before.\<close>

definition new_status :: "int list \<Rightarrow> byte \<Rightarrow> stream_control_status_t" where
  "new_status garbage c = \<lparr>status = STATUS_TEXT, parameterCount = 0, parameters = garbage, controlCharacter = c\<rparr>"

record ('s, 'p) terminal =
  scr :: 's
  shellStdin :: 'p
  inputMode :: int
  inputEcho :: bool
  controlProcess :: int
  shellProcess :: int
  killed :: "int list"

abbreviation (input) G_TERMKEY_SUB :: int where "G_TERMKEY_SUB \<equiv> 26"
abbreviation (input) G_TERMKEY_ESC :: int where "G_TERMKEY_ESC \<equiv> 27"
abbreviation (input) G_TERMKEY_DOWN :: int where "G_TERMKEY_DOWN \<equiv> 0x102"
abbreviation (input) G_TERMKEY_UP :: int where "G_TERMKEY_UP \<equiv> 0x103"
abbreviation (input) G_TERMKEY_LEFT :: int where "G_TERMKEY_LEFT \<equiv> 0x104"
abbreviation (input) G_TERMKEY_RIGHT :: int where "G_TERMKEY_RIGHT \<equiv> 0x105"
abbreviation (input) G_TERMKEY_BACKSPACE :: int where "G_TERMKEY_BACKSPACE \<equiv> 0x107"
abbreviation (input) G_TERMKEY_STAB :: int where "G_TERMKEY_STAB \<equiv> 0x154"
abbreviation (input) G_TERMKEY_ENTER :: int where "G_TERMKEY_ENTER \<equiv> 0x157"
abbreviation (input) G_TERMINAL_MODE_DEFAULT :: int where "G_TERMINAL_MODE_DEFAULT \<equiv> 0"
abbreviation (input) G_TERMINAL_MODE_RAW :: int where "G_TERMINAL_MODE_RAW \<equiv> 1"
abbreviation (input) SC_RED :: int where "SC_RED \<equiv> 4"

text \<open>The result of an arithmetic operation on \<open>int\<close>: an overflow is undefined.\<close>

definition int_result :: "int \<Rightarrow> int option" where
  "int_result x = (if INT_MIN \<le> x \<and> x \<le> INT_MAX then Some x else None)"

lemma int_result_Some [simp]: "INT_MIN \<le> x \<Longrightarrow> x \<le> INT_MAX \<Longrightarrow> int_result x = Some x"
  by (simp add: int_result_def)

section \<open>Sending to the shell\<close>

function write_line :: "'p pipe_write \<Rightarrow> byte list \<Rightarrow> 'p \<Rightarrow> 'p" where
  "write_line W rest p =
     (if rest = [] then p
      else let (len, p) = W rest p in
        if len \<le> 0 then p else write_line W (drop (nat len) rest) p)"
  by pat_completeness auto
termination
  by (relation "measure (\<lambda>(W, rest, p). length rest)") auto

declare write_line.simps [simp del]

text \<open>The line goes through \<open>c_str\<close> and \<open>strlen\<close>.\<close>

definition terminalWriteToShell :: "'p pipe_write \<Rightarrow> byte list \<Rightarrow> 'p \<Rightarrow> 'p" where
  "terminalWriteToShell W line p = write_line W (takeWhile (\<lambda>c. c \<noteq> 0) line) p"

definition termkey_bytes :: "int \<Rightarrow> byte list" where
  "termkey_bytes termkey = [to_byte G_TERMKEY_SUB, to_byte (and termkey 0xFF), to_byte (and (drop_bit 8 termkey) 0xFF)]"

definition terminalWriteTermkeyToShell :: "'p pipe_write \<Rightarrow> int \<Rightarrow> 'p \<Rightarrow> 'p" where
  "terminalWriteTermkeyToShell W termkey p = snd (W (termkey_bytes termkey) p)"

section \<open>Escape sequences\<close>

definition terminalColorFromVt100 :: "int \<Rightarrow> int" where
  "terminalColorFromVt100 color =
     (if color = 0 then 0x0
      else if color = 4 then 0x1
      else if color = 6 then 0x3
      else if color = 2 then 0x2
      else if color = 5 then 0x5
      else if color = 1 then 0x4
      else if color = 7 then 0xF
      else if color = 3 then 0xE
      else if color = 8 then 0x7
      else SC_WHITE)"

definition vt100_mode :: "'s screen_t \<Rightarrow> int \<Rightarrow> 's \<Rightarrow> 's" where
  "vt100_mode V par s =
     (if par = 0 then v_setColorForeground V SC_WHITE (v_setColorBackground V SC_BLACK s)
      else if 30 \<le> par \<and> par < 40 then v_setColorForeground V (terminalColorFromVt100 (par - 30)) s
      else if 40 \<le> par \<and> par < 50 then v_setColorBackground V (terminalColorFromVt100 (par - 40)) s
      else s)"

text \<open>\<open>n\<close> parameters from the \<open>i\<close>-th on; there is no test that the array has them.\<close>

fun vt100_modes :: "'s screen_t \<Rightarrow> int list \<Rightarrow> nat \<Rightarrow> nat \<Rightarrow> 's \<Rightarrow> 's option" where
  "vt100_modes V ps i 0 s = Some s"
| "vt100_modes V ps i (Suc n) s =
     (if i < length ps then vt100_modes V ps (Suc i) n (vt100_mode V (ps ! i) s) else None)"

definition on_screen :: "('s \<Rightarrow> 's option) \<Rightarrow> ('s, 'p) terminal \<Rightarrow> ('s, 'p) terminal option" where
  "on_screen f T = do { s \<leftarrow> f (scr T); Some (T\<lparr>scr := s\<rparr>) }"

definition move_cursor :: "'s screen_t \<Rightarrow> int \<Rightarrow> int \<Rightarrow> 's \<Rightarrow> 's option" where
  "move_cursor V dx dy s = do {
     x \<leftarrow> int_result (v_getCursorX V s + dx);
     y \<leftarrow> int_result (v_getCursorY V s + dy);
     Some (v_flush V (v_setCursor V x y s))
   }"

definition cursor_response :: "'s screen_t \<Rightarrow> 's \<Rightarrow> byte list" where
  "cursor_response V s = to_byte G_TERMKEY_ESC # lit ''['' @ decimal (v_getCursorY V s) @ lit '';'' @
     decimal (v_getCursorX V s) @ lit ''R''"

definition terminalProcessSequenceVt100 ::
    "'s screen_t \<Rightarrow> 'p pipe_write \<Rightarrow> stream_control_status_t \<Rightarrow> ('s, 'p) terminal \<Rightarrow> ('s, 'p) terminal option" where
  "terminalProcessSequenceVt100 V W st T =
     (let c = controlCharacter st; p = (!) (parameters st) in
      if c = bc CHR ''A'' then on_screen (move_cursor V 0 (- p 0)) T
      else if c = bc CHR ''B'' then on_screen (move_cursor V 0 (p 0)) T
      else if c = bc CHR ''C'' then on_screen (move_cursor V (p 0) 0) T
      else if c = bc CHR ''D'' then on_screen (move_cursor V (- p 0) 0) T
      else if c = bc CHR ''m'' then on_screen (vt100_modes V (parameters st) 0 (nat (parameterCount st))) T
      else if c = bc CHR ''J'' then
        (if parameterCount st = 1 \<and> p 0 = 2 then on_screen (v_clean V) T else Some T)
      else if c = bc CHR ''f'' then on_screen (\<lambda>s. Some (v_setCursor V (p 1) (p 0) s)) T
      else if c = bc CHR ''n'' then
        (if p 0 = 6 then Some (T\<lparr>shellStdin := snd (W (cursor_response V (scr T)) (shellStdin T))\<rparr>) else Some T)
      else if c = bc CHR ''r'' then
        on_screen (\<lambda>s. Some (if parameterCount st = 0 then v_setScrollAreaScreen V s else v_setScrollArea V (p 0) (p 1) s)) T
      else if c = bc CHR ''S'' then on_screen (\<lambda>s. Some (v_scroll V (p 0) s)) T
      else if c = bc CHR ''T'' then on_screen (\<lambda>s. do { v \<leftarrow> int_result (- p 0); Some (v_scroll V v s) }) T
      else Some T)"

definition size_response :: "'s screen_t \<Rightarrow> 's \<Rightarrow> byte list" where
  "size_response V s = to_byte G_TERMKEY_ESC # lit ''{'' @ decimal (v_getColumns V s) @ lit '';'' @
     decimal (v_getRows V s) @ lit ''i''"

definition terminalProcessSequenceGhostterm ::
    "'s screen_t \<Rightarrow> 'p pipe_write \<Rightarrow> stream_control_status_t \<Rightarrow> ('s, 'p) terminal \<Rightarrow> ('s, 'p) terminal option" where
  "terminalProcessSequenceGhostterm V W st T =
     (let c = controlCharacter st; p = (!) (parameters st) in
      if c = bc CHR ''m'' then Some (T\<lparr>inputMode := p 0\<rparr>)
      else if c = bc CHR ''e'' then Some (T\<lparr>inputEcho := (p 0 = 1)\<rparr>)
      else if c = bc CHR ''i'' then
        Some (T\<lparr>shellStdin := terminalWriteToShell W (size_response V (scr T)) (shellStdin T)\<rparr>)
      else if c = bc CHR ''p'' then on_screen (v_write V (to_byte (p 0))) T
      else if c = bc CHR ''x'' then on_screen (v_remove V) T
      else if c = bc CHR ''c'' then Some (T\<lparr>controlProcess := p 0\<rparr>)
      else if c = bc CHR ''C'' then
        (if p 0 = 0 then on_screen (\<lambda>s. Some (v_setCursorVisible V (p 1 \<noteq> 0) s)) T else Some T)
      else Some T)"

section \<open>Output of the programs\<close>

definition put_text :: "'s screen_t \<Rightarrow> bool \<Rightarrow> byte \<Rightarrow> 's \<Rightarrow> 's option" where
  "put_text V isStderr c s = do {
     let fg = v_getColorForeground V s;
     let s = (if isStderr then v_setColorForeground V SC_RED s else s);
     s \<leftarrow> v_write V c s;
     Some (if isStderr then v_setColorForeground V fg s else s)
   }"

definition digit_parameter :: "byte \<Rightarrow> stream_control_status_t \<Rightarrow> stream_control_status_t option" where
  "digit_parameter c st = do {
     let st = (if parameterCount st = 0 then st\<lparr>parameterCount := 1\<rparr> else st);
     if parameterCount st \<le> int MAX_PARAMETERS then do {
       let i = nat (parameterCount st - 1);
       v \<leftarrow> int_result (parameters st ! i * 10);
       v \<leftarrow> int_result (v + (cv c - ic CHR ''0''));
       Some (st\<lparr>parameters := (parameters st)[i := v]\<rparr>)
     } else Some st
   }"

definition reset_status :: "stream_control_status_t \<Rightarrow> stream_control_status_t" where
  "reset_status st = st\<lparr>status := STATUS_TEXT, parameterCount := 0, parameters := replicate MAX_PARAMETERS 0\<rparr>"

definition terminalProcessOutput ::
    "'s screen_t \<Rightarrow> 'p pipe_write \<Rightarrow> bool \<Rightarrow> byte \<Rightarrow> stream_control_status_t \<times> ('s, 'p) terminal \<Rightarrow>
      (stream_control_status_t \<times> ('s, 'p) terminal) option" where
  "terminalProcessOutput V W isStderr c x = (case x of (st, T) \<Rightarrow>
     (case status st of
       STATUS_TEXT \<Rightarrow>
         if c = 13 then Some (st, T)
         else if c = 9 then do {
           s \<leftarrow> v_write V 32 (scr T);
           s \<leftarrow> v_write V 32 s;
           s \<leftarrow> v_write V 32 s;
           s \<leftarrow> v_write V 32 s;
           Some (st, T\<lparr>scr := s\<rparr>)
         }
         else if c = 27 then Some (st\<lparr>status := LAST_WAS_ESC\<rparr>, T)
         else do { s \<leftarrow> put_text V isStderr c (scr T); Some (st, T\<lparr>scr := s\<rparr>) }
     | LAST_WAS_ESC \<Rightarrow>
         if c = bc CHR ''['' then Some (st\<lparr>status := WITHIN_VT100\<rparr>, T)
         else if c = bc CHR ''{'' then Some (st\<lparr>status := WITHIN_GHOSTTERM\<rparr>, T)
         else Some (st\<lparr>status := STATUS_TEXT\<rparr>, T)
     | _ \<Rightarrow>
         if ic CHR ''0'' \<le> cv c \<and> cv c \<le> ic CHR ''9'' then do { st \<leftarrow> digit_parameter c st; Some (st, T) }
         else if c = bc CHR '';'' then do {
           n \<leftarrow> int_result (parameterCount st + 1);
           Some (st\<lparr>parameterCount := n\<rparr>, T)
         }
         else do {
           let st = st\<lparr>controlCharacter := c\<rparr>;
           T \<leftarrow> (if status st = WITHIN_VT100 then terminalProcessSequenceVt100 V W st T
                 else terminalProcessSequenceGhostterm V W st T);
           Some (reset_status st, T)
         }))"

text \<open>One pass of the output routine: what a read returned, then a flush.\<close>

fun process_bytes ::
    "'s screen_t \<Rightarrow> 'p pipe_write \<Rightarrow> bool \<Rightarrow> byte list \<Rightarrow> stream_control_status_t \<times> ('s, 'p) terminal \<Rightarrow>
      (stream_control_status_t \<times> ('s, 'p) terminal) option" where
  "process_bytes V W isStderr [] x = Some x"
| "process_bytes V W isStderr (c # cs) x = do { x \<leftarrow> terminalProcessOutput V W isStderr c x; process_bytes V W isStderr cs x }"

definition output_chunk ::
    "'s screen_t \<Rightarrow> 'p pipe_write \<Rightarrow> bool \<Rightarrow> byte list \<Rightarrow> stream_control_status_t \<times> ('s, 'p) terminal \<Rightarrow>
      (stream_control_status_t \<times> ('s, 'p) terminal) option" where
  "output_chunk V W isStderr buf x = do {
     (st, T) \<leftarrow> process_bytes V W isStderr buf x;
     Some (st, T\<lparr>scr := v_flush V (scr T)\<rparr>)
   }"

text \<open>The routine from its start on, over the results of its successful reads of at most 1024 bytes.\<close>

fun output_reads ::
    "'s screen_t \<Rightarrow> 'p pipe_write \<Rightarrow> bool \<Rightarrow> byte list list \<Rightarrow> stream_control_status_t \<times> ('s, 'p) terminal \<Rightarrow>
      (stream_control_status_t \<times> ('s, 'p) terminal) option" where
  "output_reads V W isStderr [] x = Some x"
| "output_reads V W isStderr (buf # bufs) x = do { x \<leftarrow> output_chunk V W isStderr buf x; output_reads V W isStderr bufs x }"

definition terminalOutputRoutine ::
    "'s screen_t \<Rightarrow> 'p pipe_write \<Rightarrow> int list \<Rightarrow> byte \<Rightarrow> bool \<Rightarrow> byte list list \<Rightarrow> ('s, 'p) terminal \<Rightarrow> ('s, 'p) terminal option" where
  "terminalOutputRoutine V W garbage c isStderr bufs T = map_option snd (output_reads V W isStderr bufs (new_status garbage c, T))"

section \<open>Keyboard input\<close>

text \<open>
  What the input routine reads of a key.  \<open>chr\<close> stands for \<open>g_keyboard::charForKey\<close>, which is not part
  of the repository: the character of a key in the layout, -1 when it has none.
\<close>

record g_key_info =
  key :: string
  pressed :: bool
  ctrl :: bool
  shift :: bool

definition to_shell :: "('p \<Rightarrow> 'p) \<Rightarrow> ('s, 'p) terminal \<Rightarrow> ('s, 'p) terminal" where
  "to_shell f T = T\<lparr>shellStdin := f (shellStdin T)\<rparr>"

definition echo :: "('s \<Rightarrow> 's option) \<Rightarrow> ('s, 'p) terminal \<Rightarrow> ('s, 'p) terminal option" where
  "echo f T = (if inputEcho T then on_screen f T else Some T)"

definition default_input ::
    "'s screen_t \<Rightarrow> 'p pipe_write \<Rightarrow> (g_key_info \<Rightarrow> byte) \<Rightarrow> g_key_info \<Rightarrow> byte list \<times> ('s, 'p) terminal \<Rightarrow>
      (byte list \<times> ('s, 'p) terminal) option" where
  "default_input V W chr inp x = (case x of (buffer, T) \<Rightarrow>
     if key inp = ''KEY_ENTER'' \<and> pressed inp then do {
       T \<leftarrow> echo (v_write V 10) T;
       Some ([], to_shell (terminalWriteToShell W (buffer @ [10])) T)
     }
     else if (ctrl inp \<and> key inp = ''KEY_C'') \<or> key inp = ''KEY_ESC'' then
       Some (buffer, if controlProcess T \<noteq> 0 \<and> controlProcess T \<noteq> shellProcess T
         then T\<lparr>killed := killed T @ [controlProcess T]\<rparr> else T)
     else if key inp = ''KEY_BACKSPACE'' \<and> pressed inp then do {
       T \<leftarrow> on_screen (v_backspace V) T;
       Some (butlast buffer, T)
     }
     else if cv (chr inp) \<noteq> - 1 then do {
       T \<leftarrow> echo (v_write V (chr inp)) T;
       Some (buffer @ [chr inp], T)
     }
     else Some (buffer, T))"

definition raw_input ::
    "'s screen_t \<Rightarrow> 'p pipe_write \<Rightarrow> (g_key_info \<Rightarrow> byte) \<Rightarrow> g_key_info \<Rightarrow> ('s, 'p) terminal \<Rightarrow> ('s, 'p) terminal option" where
  "raw_input V W chr inp T =
     (let send = (\<lambda>k. to_shell (terminalWriteTermkeyToShell W k) T) in
      if key inp = ''KEY_ENTER'' \<and> pressed inp then echo (v_write V 10) (send G_TERMKEY_ENTER)
      else if key inp = ''KEY_BACKSPACE'' \<and> pressed inp then echo (v_backspace V) (send G_TERMKEY_BACKSPACE)
      else if key inp = ''KEY_ARROW_LEFT'' \<and> pressed inp then Some (send G_TERMKEY_LEFT)
      else if key inp = ''KEY_ARROW_RIGHT'' \<and> pressed inp then Some (send G_TERMKEY_RIGHT)
      else if key inp = ''KEY_ARROW_UP'' \<and> pressed inp then Some (send G_TERMKEY_UP)
      else if key inp = ''KEY_ARROW_DOWN'' \<and> pressed inp then Some (send G_TERMKEY_DOWN)
      else if key inp = ''KEY_TAB'' \<and> pressed inp \<and> shift inp then Some (to_shell (terminalWriteToShell W [9]) T)
      else if key inp = ''KEY_TAB'' \<and> pressed inp then Some (send G_TERMKEY_STAB)
      else if cv (chr inp) \<noteq> - 1 then echo (v_write V (chr inp)) (to_shell (\<lambda>p. snd (W [chr inp] p)) T)
      else Some T)"

text \<open>One pass of the input routine.\<close>

definition terminal_input ::
    "'s screen_t \<Rightarrow> 'p pipe_write \<Rightarrow> (g_key_info \<Rightarrow> byte) \<Rightarrow> g_key_info \<Rightarrow> byte list \<times> ('s, 'p) terminal \<Rightarrow>
      (byte list \<times> ('s, 'p) terminal) option" where
  "terminal_input V W chr inp x = (case x of (buffer, T) \<Rightarrow> do {
     (buffer, T) \<leftarrow>
       (if inputMode T = G_TERMINAL_MODE_DEFAULT then default_input V W chr inp (buffer, T)
        else if inputMode T = G_TERMINAL_MODE_RAW then do { T \<leftarrow> raw_input V W chr inp T; Some (buffer, T) }
        else Some (buffer, T));
     Some (buffer, T\<lparr>scr := v_flush V (scr T)\<rparr>)
   })"

fun terminalInputRoutine ::
    "'s screen_t \<Rightarrow> 'p pipe_write \<Rightarrow> (g_key_info \<Rightarrow> byte) \<Rightarrow> g_key_info list \<Rightarrow> byte list \<times> ('s, 'p) terminal \<Rightarrow>
      (byte list \<times> ('s, 'p) terminal) option" where
  "terminalInputRoutine V W chr [] x = Some x"
| "terminalInputRoutine V W chr (k # ks) x = do { x \<leftarrow> terminal_input V W chr k x; terminalInputRoutine V W chr ks x }"

section \<open>Reading a sequence\<close>

lemma process_append: "process_bytes V W e (xs @ ys) x = do { x \<leftarrow> process_bytes V W e xs x; process_bytes V W e ys x }"
proof (induction xs arbitrary: x)
  case (Cons c xs)
  then show ?case by (cases "terminalProcessOutput V W e c x") simp_all
qed simp

lemma process_snoc: "process_bytes V W e (xs @ [c]) x = do { x \<leftarrow> process_bytes V W e xs x; terminalProcessOutput V W e c x }"
  by (cases "process_bytes V W e xs x") (simp_all add: process_append split: Option.bind_split)

text \<open>The characters of decimal digits, and their values.\<close>

definition is_digit :: "byte \<Rightarrow> bool" where
  "is_digit c \<longleftrightarrow> ic CHR ''0'' \<le> cv c \<and> cv c \<le> ic CHR ''9''"

abbreviation within :: "stream_control_status_t \<Rightarrow> bool" where
  "within st \<equiv> status st = WITHIN_VT100 \<or> status st = WITHIN_GHOSTTERM"

lemma digits_of_range: "1 < base \<Longrightarrow> length digits = nat base \<Longrightarrow> c \<in> set (digits_of base digits v) \<Longrightarrow> c \<in> set digits"
proof (induction base digits v rule: digits_of.induct)
  case (1 base digits v)
  have "nat (v mod base) < length digits" using 1(2,3) by (simp add: nat_less_iff)
  then have "digits ! nat (v mod base) \<in> set digits" by (rule nth_mem)
  with 1 digits_of.simps [of base digits v] show ?case by (auto split: if_splits)
qed

lemma digit_value: "c \<in> set (lit ''0123456789'') \<Longrightarrow> is_digit c \<and> cv c - ic CHR ''0'' = digval c"
  by (auto simp: is_digit_def digval_def strto_digit_def ctype_defs cv_def)

lemma decimal_digits:
  assumes "0 \<le> v"
  shows "decimal v \<noteq> [] \<and> numval 10 0 (decimal v) = v \<and> (\<forall>c\<in>set (decimal v). is_digit c \<and> cv c - ic CHR ''0'' = digval c)"
  using digits_of_numval [OF assms proper_decimal] digits_of_range [of 10 "lit ''0123456789''"] digit_value assms
  by (simp add: decimal_def)

lemma numval_mono_start: "0 \<le> r \<Longrightarrow> r \<le> numval 10 r cs"
  by (rule numval_ge) simp_all

text \<open>One digit of the \<open>n\<close>-th parameter.\<close>

lemma process_digit:
  assumes "within st" "is_digit c" "parameterCount st = int n \<or> (parameterCount st = 0 \<and> n = 1)" "1 \<le> n" "n \<le> 4"
    "length (parameters st) = 4" "0 \<le> parameters st ! (n - 1)" "parameters st ! (n - 1) * 10 + (cv c - ic CHR ''0'') \<le> INT_MAX"
  shows "terminalProcessOutput V W e c (st, T) = Some (st\<lparr>parameterCount := int n,
    parameters := (parameters st)[n - 1 := parameters st ! (n - 1) * 10 + (cv c - ic CHR ''0'')]\<rparr>, T)"
proof -
  have d: "0 \<le> cv c - 48" "cv c - 48 \<le> 9" using assms(2) by (auto simp: is_digit_def)
  have "nat (int n - 1) = n - 1" by simp
  then have "digit_parameter c st = Some (st\<lparr>parameterCount := int n,
    parameters := (parameters st)[n - 1 := parameters st ! (n - 1) * 10 + (cv c - ic CHR ''0'')]\<rparr>)"
    using assms(3-8) d by (auto simp: digit_parameter_def Let_def)
  then show ?thesis using assms(1,2) by (auto simp: terminalProcessOutput_def is_digit_def)
qed

lemma process_digits:
  assumes "1 \<le> n" "n \<le> 4"
  shows "within st \<Longrightarrow> \<forall>c\<in>set cs. is_digit c \<and> cv c - ic CHR ''0'' = digval c \<Longrightarrow>
    parameterCount st = int n \<Longrightarrow> length (parameters st) = 4 \<Longrightarrow> 0 \<le> parameters st ! (n - 1) \<Longrightarrow>
    numval 10 (parameters st ! (n - 1)) cs \<le> INT_MAX \<Longrightarrow>
    process_bytes V W e cs (st, T) = Some (st\<lparr>parameters := (parameters st)[n - 1 := numval 10 (parameters st ! (n - 1)) cs]\<rparr>, T)"
proof (induction cs arbitrary: st)
  case (Cons c cs)
  let ?v = "parameters st ! (n - 1) * 10 + digval c"
  have d: "is_digit c" "cv c - ic CHR ''0'' = digval c" "0 \<le> digval c" using Cons.prems(2) by (auto simp: is_digit_def)
  then have v: "0 \<le> ?v" "?v \<le> INT_MAX" using Cons.prems(5,6) numval_mono_start [of ?v cs] by auto
  then have "terminalProcessOutput V W e c (st, T) = Some (st\<lparr>parameterCount := int n, parameters := (parameters st)[n - 1 := ?v]\<rparr>, T)"
    using process_digit [of st c n V W e T] Cons.prems d assms by simp
  moreover have "n - 1 < length (parameters st)" using Cons.prems(4) assms by simp
  ultimately show ?case
    using Cons.IH [of "st\<lparr>parameterCount := int n, parameters := (parameters st)[n - 1 := ?v]\<rparr>"] Cons.prems v by simp
qed simp

text \<open>The status after the parameters \<open>ps\<close> of a sequence.\<close>

definition with_params :: "terminal_stream_status_t \<Rightarrow> int list \<Rightarrow> stream_control_status_t \<Rightarrow> stream_control_status_t" where
  "with_params k ps st = st\<lparr>status := k, parameterCount := int (length ps), parameters := ps @ replicate (4 - length ps) 0\<rparr>"

definition idle :: "stream_control_status_t \<Rightarrow> bool" where
  "idle st \<longleftrightarrow> status st = STATUS_TEXT \<and> parameterCount st = 0 \<and> parameters st = replicate 4 0"

fun params_text :: "int list \<Rightarrow> byte list" where
  "params_text [] = []"
| "params_text [p] = decimal p"
| "params_text (p # ps) = decimal p @ lit '';'' @ params_text ps"

lemma params_text_snoc: "params_text (ps @ [p]) = params_text ps @ (if ps = [] then [] else lit '';'') @ decimal p"
  by (induction ps rule: params_text.induct) simp_all

lemma not_semicolon: "is_digit c \<Longrightarrow> c \<noteq> bc CHR '';''"
  by (auto simp: is_digit_def cv_def)

lemma read_number:
  assumes k: "k = WITHIN_VT100 \<or> k = WITHIN_GHOSTTERM"
    and p: "length ps < 4" "0 \<le> p" "p \<le> INT_MAX"
    and c: "parameterCount st = int (length ps) + 1 \<or> parameterCount st = 0 \<and> ps = []"
    and st: "status st = k" "parameters st = ps @ replicate (4 - length ps) 0"
  shows "process_bytes V W e (decimal p) (st, T) = Some (with_params k (ps @ [p]) st, T)"
proof -
  obtain d ds where d: "decimal p = d # ds" using decimal_digits [OF p(2)] by (cases "decimal p") auto
  note dd = decimal_digits [OF p(2), unfolded d]
  have d0: "is_digit d" "cv d - ic CHR ''0'' = digval d" "0 \<le> digval d" using dd by (auto simp: is_digit_def)
  have z: "parameters st ! length ps = 0" "length (parameters st) = 4" using st(2) p(1) by (simp_all add: nth_append)
  have n: "numval 10 (digval d) ds = p" using dd by simp
  then have "digval d \<le> INT_MAX" using numval_mono_start [OF d0(3), of ds] p(3) by simp
  then have one: "terminalProcessOutput V W e d (st, T) =
    Some (st\<lparr>parameterCount := int (Suc (length ps)), parameters := (parameters st)[length ps := digval d]\<rparr>, T)"
    using process_digit [of st d "Suc (length ps)" V W e T] c st(1) k p(1) d0 z by auto
  have "process_bytes V W e ds (st\<lparr>parameterCount := int (Suc (length ps)), parameters := (parameters st)[length ps := digval d]\<rparr>, T) =
    Some (st\<lparr>parameterCount := int (Suc (length ps)), parameters := (parameters st)[length ps := p]\<rparr>, T)"
    using process_digits [of "Suc (length ps)" "st\<lparr>parameterCount := int (Suc (length ps)), parameters := (parameters st)[length ps := digval d]\<rparr>" ds V W e T]
      k st(1) p dd d0(3) z n by auto
  moreover have "(parameters st)[length ps := p] = (ps @ [p]) @ replicate (4 - length (ps @ [p])) 0"
  proof -
    have "replicate (4 - length ps) (0 :: int) = 0 # replicate (4 - length (ps @ [p])) 0"
      using p(1) by (simp add: replicate_Suc [symmetric] Suc_diff_Suc del: replicate_Suc)
    then show ?thesis using st(2) by (simp add: list_update_append)
  qed
  ultimately show ?thesis using one st(1) by (simp add: d with_params_def)
qed

lemma read_params:
  assumes k: "k = WITHIN_VT100 \<or> k = WITHIN_GHOSTTERM" and st: "parameterCount st = 0" "parameters st = replicate 4 0" "status st = k"
  shows "length ps \<le> 4 \<Longrightarrow> \<forall>p\<in>set ps. 0 \<le> p \<and> p \<le> INT_MAX \<Longrightarrow>
    process_bytes V W e (params_text ps) (st, T) = Some (with_params k ps st, T)"
proof (induction ps rule: rev_induct)
  case Nil
  then show ?case using st by (simp add: with_params_def)
next
  case (snoc p ps)
  then have IH: "process_bytes V W e (params_text ps) (st, T) = Some (with_params k ps st, T)" by simp
  show ?case
  proof (cases "ps = []")
    case True
    then show ?thesis using read_number [OF k, of "[]" p st V W e T] snoc.prems st by simp
  next
    case False
    let ?st = "(with_params k ps st)\<lparr>parameterCount := int (length ps) + 1\<rparr>"
    have "terminalProcessOutput V W e (bc CHR '';'') (with_params k ps st, T) = Some (?st, T)"
      using k snoc.prems(1) by (auto simp: terminalProcessOutput_def with_params_def cv_def)
    moreover have "process_bytes V W e (decimal p) (?st, T) = Some (with_params k (ps @ [p]) ?st, T)"
      using read_number [OF k, of ps p ?st V W e T] snoc.prems by (simp add: with_params_def)
    ultimately show ?thesis using False IH by (simp add: params_text_snoc process_append with_params_def)
  qed
qed

text \<open>A whole sequence runs its command with the parameters and leaves the status as it was before.\<close>

definition command_status :: "terminal_stream_status_t \<Rightarrow> int list \<Rightarrow> byte \<Rightarrow> stream_control_status_t \<Rightarrow> stream_control_status_t" where
  "command_status k ps c st = (with_params k ps st)\<lparr>controlCharacter := c\<rparr>"

definition final_char :: "byte \<Rightarrow> bool" where
  "final_char c \<longleftrightarrow> \<not> is_digit c \<and> c \<noteq> bc CHR '';''"

lemma finish_command:
  assumes "final_char c"
  shows "terminalProcessOutput V W e c (with_params WITHIN_VT100 ps st, T) =
      map_option (Pair (reset_status (command_status WITHIN_VT100 ps c st)))
        (terminalProcessSequenceVt100 V W (command_status WITHIN_VT100 ps c st) T)"
    "terminalProcessOutput V W e c (with_params WITHIN_GHOSTTERM ps st, T) =
      map_option (Pair (reset_status (command_status WITHIN_GHOSTTERM ps c st)))
        (terminalProcessSequenceGhostterm V W (command_status WITHIN_GHOSTTERM ps c st) T)"
proof -
  have k: "status (with_params k ps st) = k" "status (command_status k ps c st) = k" for k
    by (simp_all add: with_params_def command_status_def)
  show "terminalProcessOutput V W e c (with_params WITHIN_VT100 ps st, T) =
      map_option (Pair (reset_status (command_status WITHIN_VT100 ps c st)))
        (terminalProcessSequenceVt100 V W (command_status WITHIN_VT100 ps c st) T)"
    using assms k unfolding terminalProcessOutput_def final_char_def is_digit_def
    by (cases "terminalProcessSequenceVt100 V W (command_status WITHIN_VT100 ps c st) T") (auto simp: command_status_def [symmetric])
  show "terminalProcessOutput V W e c (with_params WITHIN_GHOSTTERM ps st, T) =
      map_option (Pair (reset_status (command_status WITHIN_GHOSTTERM ps c st)))
        (terminalProcessSequenceGhostterm V W (command_status WITHIN_GHOSTTERM ps c st) T)"
    using assms k unfolding terminalProcessOutput_def final_char_def is_digit_def
    by (cases "terminalProcessSequenceGhostterm V W (command_status WITHIN_GHOSTTERM ps c st) T") (auto simp: command_status_def [symmetric])
qed

lemma reset_idle: "idle st \<Longrightarrow> reset_status (command_status k ps c st) = st\<lparr>controlCharacter := c\<rparr>"
  by (cases st) (simp add: reset_status_def command_status_def with_params_def idle_def)

lemma run_sequence:
  assumes "idle st" "length ps \<le> 4" "\<forall>p\<in>set ps. 0 \<le> p \<and> p \<le> INT_MAX" "final_char c"
  shows "process_bytes V W e (27 # bc CHR ''['' # params_text ps @ [c]) (st, T) =
      map_option (Pair (st\<lparr>controlCharacter := c\<rparr>)) (terminalProcessSequenceVt100 V W (command_status WITHIN_VT100 ps c st) T)"
    "process_bytes V W e (27 # bc CHR ''{'' # params_text ps @ [c]) (st, T) =
      map_option (Pair (st\<lparr>controlCharacter := c\<rparr>)) (terminalProcessSequenceGhostterm V W (command_status WITHIN_GHOSTTERM ps c st) T)"
proof -
  have esc: "terminalProcessOutput V W e 27 (st, T) = Some (st\<lparr>status := LAST_WAS_ESC\<rparr>, T)"
    using assms(1) by (simp add: terminalProcessOutput_def idle_def)
  have open_vt: "terminalProcessOutput V W e (bc CHR ''['') (st\<lparr>status := LAST_WAS_ESC\<rparr>, T) = Some (st\<lparr>status := WITHIN_VT100\<rparr>, T)"
    "terminalProcessOutput V W e (bc CHR ''{'') (st\<lparr>status := LAST_WAS_ESC\<rparr>, T) = Some (st\<lparr>status := WITHIN_GHOSTTERM\<rparr>, T)"
    by (simp_all add: terminalProcessOutput_def)
  have p: "process_bytes V W e (params_text ps) (st\<lparr>status := k\<rparr>, T) = Some (with_params k ps st, T)"
    if "k = WITHIN_VT100 \<or> k = WITHIN_GHOSTTERM" for k
    using read_params [OF that, of "st\<lparr>status := k\<rparr>"] assms(1-3) by (simp add: idle_def with_params_def)
  show "process_bytes V W e (27 # bc CHR ''['' # params_text ps @ [c]) (st, T) =
      map_option (Pair (st\<lparr>controlCharacter := c\<rparr>)) (terminalProcessSequenceVt100 V W (command_status WITHIN_VT100 ps c st) T)"
    using esc open_vt(1) p [of WITHIN_VT100] finish_command(1) [OF assms(4), of V W e ps st T] reset_idle [OF assms(1)]
    by (simp add: process_snoc)
  show "process_bytes V W e (27 # bc CHR ''{'' # params_text ps @ [c]) (st, T) =
      map_option (Pair (st\<lparr>controlCharacter := c\<rparr>)) (terminalProcessSequenceGhostterm V W (command_status WITHIN_GHOSTTERM ps c st) T)"
    using esc open_vt(2) p [of WITHIN_GHOSTTERM] finish_command(2) [OF assms(4), of V W e ps st T] reset_idle [OF assms(1)]
    by (simp add: process_snoc)
qed

section \<open>The line discipline\<close>

text \<open>
  In the default mode the terminal collects a line: a key that types a character, and backspace while
  there is something to erase.
\<close>

definition typed_key :: "(g_key_info \<Rightarrow> byte) \<Rightarrow> g_key_info \<Rightarrow> bool" where
  "typed_key chr k \<longleftrightarrow> printable (chr k) \<and> \<not> (key k = ''KEY_ENTER'' \<and> pressed k) \<and>
     \<not> (ctrl k \<and> key k = ''KEY_C'') \<and> key k \<noteq> ''KEY_ESC'' \<and> \<not> (key k = ''KEY_BACKSPACE'' \<and> pressed k)"

definition erase_key :: "g_key_info \<Rightarrow> bool" where
  "erase_key k \<longleftrightarrow> key k = ''KEY_BACKSPACE'' \<and> pressed k"

definition edit_line :: "(g_key_info \<Rightarrow> byte) \<Rightarrow> g_key_info \<Rightarrow> byte list \<Rightarrow> byte list" where
  "edit_line chr k b = (if erase_key k then butlast b else b @ [chr k])"

fun line_after :: "(g_key_info \<Rightarrow> byte) \<Rightarrow> g_key_info list \<Rightarrow> byte list \<Rightarrow> byte list" where
  "line_after chr [] b = b"
| "line_after chr (k # ks) b = line_after chr ks (edit_line chr k b)"

text \<open>The keys never erase more than was typed, and the line never exceeds \<open>m\<close> characters.\<close>

fun line_keys :: "(g_key_info \<Rightarrow> byte) \<Rightarrow> nat \<Rightarrow> g_key_info list \<Rightarrow> byte list \<Rightarrow> bool" where
  "line_keys chr m [] b \<longleftrightarrow> True"
| "line_keys chr m (k # ks) b \<longleftrightarrow>
     (erase_key k \<and> b \<noteq> [] \<or> typed_key chr k \<and> length b < m) \<and> line_keys chr m ks (edit_line chr k b)"

lemma cv_printable: "printable c \<Longrightarrow> cv c \<noteq> - 1"
  by (auto simp: printable_def)

lemma printable_plain: "printable c \<Longrightarrow> c \<noteq> 13 \<and> c \<noteq> 9 \<and> c \<noteq> 27 \<and> c \<noteq> 0 \<and> c \<noteq> 10"
  by (auto simp: printable_def cv_def)

context screen_row
begin

lemma input_key:
  assumes "inputMode T = 0" "inputEcho T" "ok (scr T)" "shows_row (scr T) y (pr @ b)"
    "cursor_at V (scr T) (int (length (pr @ b))) y" "fits (int (length pr + m)) y" "length b \<le> m"
    "erase_key k \<and> b \<noteq> [] \<or> typed_key chr k \<and> length b < m"
  shows "\<exists>s. terminal_input V W chr k (b, T) = Some (edit_line chr k b, T\<lparr>scr := s\<rparr>) \<and> ok s \<and>
    shows_row s y (pr @ edit_line chr k b) \<and> cursor_at V s (int (length (pr @ edit_line chr k b))) y"
  using assms(8)
proof
  assume e: "erase_key k \<and> b \<noteq> []"
  then obtain b' c where b: "b = b' @ [c]" by (cases b rule: rev_cases) auto
  have "fits (int (length (pr @ b')) + 1) y" using fits_less [OF assms(6)] assms(7) b by simp
  then obtain s where s: "v_backspace V (scr T) = Some s" "ok s" "shows_row s y (pr @ b')" "cursor_at V s (int (length (pr @ b'))) y"
    using backspace [OF assms(3), of y "pr @ b'" c] assms(4,5) b by (auto simp: add.commute)
  then have "terminal_input V W chr k (b, T) = Some (edit_line chr k b, T\<lparr>scr := v_flush V s\<rparr>)"
    using e b assms(1) by (simp add: terminal_input_def default_input_def erase_key_def edit_line_def on_screen_def)
  then show ?thesis using s flush [OF s(2)] e b by (intro exI [of _ "v_flush V s"]) (simp add: edit_line_def)
next
  assume t: "typed_key chr k \<and> length b < m"
  then have p: "printable (chr k)" "\<not> erase_key k" by (auto simp: typed_key_def erase_key_def)
  have "fits (int (length (pr @ b)) + 1) y" using fits_less [OF assms(6)] t by simp
  from writes [OF assms(3,4,5) _ p(1) this] obtain s where s: "v_write V (chr k) (scr T) = Some s" "ok s"
    "shows_row s y (pr @ b @ [chr k])" "cursor_at V s (int (length (pr @ b)) + 1) y" by auto
  then have "terminal_input V W chr k (b, T) = Some (edit_line chr k b, T\<lparr>scr := v_flush V s\<rparr>)"
    using t p assms(1,2) cv_printable [OF p(1)]
    by (auto simp: terminal_input_def default_input_def edit_line_def typed_key_def on_screen_def echo_def)
  then show ?thesis using s flush [OF s(2)] p by (intro exI [of _ "v_flush V s"]) (simp add: edit_line_def add.commute)
qed

lemma edit_line_length: "length b \<le> m \<Longrightarrow> erase_key k \<and> b \<noteq> [] \<or> typed_key chr k \<and> length b < m \<Longrightarrow> length (edit_line chr k b) \<le> m"
  by (auto simp: edit_line_def)

lemma input_line:
  "inputMode T = 0 \<Longrightarrow> inputEcho T \<Longrightarrow> ok (scr T) \<Longrightarrow> shows_row (scr T) y (pr @ b) \<Longrightarrow>
    cursor_at V (scr T) (int (length (pr @ b))) y \<Longrightarrow> fits (int (length pr + m)) y \<Longrightarrow> length b \<le> m \<Longrightarrow> line_keys chr m ks b \<Longrightarrow>
    \<exists>s. terminalInputRoutine V W chr ks (b, T) = Some (line_after chr ks b, T\<lparr>scr := s\<rparr>) \<and> ok s \<and>
      shows_row s y (pr @ line_after chr ks b) \<and> cursor_at V s (int (length (pr @ line_after chr ks b))) y"
proof (induction ks arbitrary: b T)
  case Nil
  then show ?case by (intro exI [of _ "scr T"]) simp
next
  case (Cons k ks)
  have k: "erase_key k \<and> b \<noteq> [] \<or> typed_key chr k \<and> length b < m" using Cons.prems(8) by simp
  from input_key [OF Cons.prems(1-7) k] obtain s where s: "terminal_input V W chr k (b, T) = Some (edit_line chr k b, T\<lparr>scr := s\<rparr>)"
    "ok s" "shows_row s y (pr @ edit_line chr k b)" "cursor_at V s (int (length (pr @ edit_line chr k b))) y" by blast
  have "\<exists>s'. terminalInputRoutine V W chr ks (edit_line chr k b, T\<lparr>scr := s\<rparr>) = Some (line_after chr ks (edit_line chr k b), T\<lparr>scr := s\<rparr>\<lparr>scr := s'\<rparr>) \<and> ok s' \<and>
      shows_row s' y (pr @ line_after chr ks (edit_line chr k b)) \<and> cursor_at V s' (int (length (pr @ line_after chr ks (edit_line chr k b)))) y"
    using Cons.prems s edit_line_length [OF Cons.prems(7) k] by (intro Cons.IH) auto
  then show ?case using s(1) by auto
qed

end

text \<open>A line that a pipe takes in parts is delivered whole.\<close>

definition takes :: "'p pipe_write \<Rightarrow> ('p \<Rightarrow> byte list) \<Rightarrow> bool" where
  "takes W content \<longleftrightarrow> (\<forall>bs p. bs \<noteq> [] \<longrightarrow>
     (\<exists>n p'. W bs p = (int n, p') \<and> 0 < n \<and> n \<le> length bs \<and> content p' = content p @ take n bs))"

lemma write_line_takes:
  assumes "takes W content"
  shows "content (write_line W bs p) = content p @ bs"
proof (induction bs arbitrary: p rule: length_induct)
  case (1 bs)
  show ?case
  proof (cases "bs = []")
    case True
    then show ?thesis by (simp add: write_line.simps)
  next
    case False
    with assms obtain n p' where n: "W bs p = (int n, p')" "0 < n" "n \<le> length bs" "content p' = content p @ take n bs"
      unfolding takes_def by blast
    moreover have "length (drop n bs) < length bs" using n(2,3) by simp
    ultimately show ?thesis using 1 False by (subst write_line.simps) simp
  qed
qed

lemma line_printable: "list_all printable b \<Longrightarrow> line_keys chr m ks b \<Longrightarrow> list_all printable (line_after chr ks b)"
proof (induction ks arbitrary: b)
  case (Cons k ks)
  have "list_all printable (edit_line chr k b)"
    using Cons.prems by (auto simp: edit_line_def typed_key_def list_all_iff dest: in_set_butlastD)
  with Cons show ?case by simp
qed simp

context screen_row
begin

lemma enter_key:
  assumes "inputMode T = 0" "inputEcho T" "ok (scr T)" "takes W content" "list_all printable b" "key k = ''KEY_ENTER''" "pressed k"
  shows "\<exists>T'. terminal_input V W chr k (b, T) = Some ([], T') \<and> content (shellStdin T') = content (shellStdin T) @ b @ [10]"
proof -
  obtain s where s: "v_write V 10 (scr T) = Some s" using newline [OF assms(3)] by auto
  have "takeWhile (\<lambda>c. c \<noteq> 0) (b @ [10]) = b @ [10]"
    using assms(5) printable_plain by (induction b) auto
  then have "content (terminalWriteToShell W (b @ [10]) p) = content p @ b @ [10]" for p
    using write_line_takes [OF assms(4)] by (simp add: terminalWriteToShell_def)
  then show ?thesis using assms(1,2,6,7) s
    by (simp add: terminal_input_def default_input_def echo_def on_screen_def to_shell_def)
qed

lemma typed_line:
  assumes "takes W content" "inputMode T = 0" "inputEcho T" "ok (scr T)" "shows_row (scr T) y pr"
    "cursor_at V (scr T) (int (length pr)) y" "fits (int (length pr + m)) y" "line_keys chr m ks []"
    "key k = ''KEY_ENTER''" "pressed k"
  shows "\<exists>s T'. terminalInputRoutine V W chr ks ([], T) = Some (line_after chr ks [], T\<lparr>scr := s\<rparr>) \<and>
    shows_row s y (pr @ line_after chr ks []) \<and> cursor_at V s (int (length (pr @ line_after chr ks []))) y \<and>
    terminal_input V W chr k (line_after chr ks [], T\<lparr>scr := s\<rparr>) = Some ([], T') \<and>
    content (shellStdin T') = content (shellStdin T) @ line_after chr ks [] @ [10]"
proof -
  from input_line [of T y pr "[]" m chr ks W] assms obtain s where s:
    "terminalInputRoutine V W chr ks ([], T) = Some (line_after chr ks [], T\<lparr>scr := s\<rparr>)" "ok s"
    "shows_row s y (pr @ line_after chr ks [])" "cursor_at V s (int (length (pr @ line_after chr ks []))) y" by auto
  have "list_all printable (line_after chr ks [])" using line_printable [of "[]"] assms(8) by simp
  with enter_key [of "T\<lparr>scr := s\<rparr>" W content "line_after chr ks []" k chr] assms s show ?thesis by auto
qed

end

section \<open>An example\<close>

text \<open>A pipe with room for everything, an empty window with a prompt, and a keyboard with two letters.\<close>

definition pipe_put :: "byte list pipe_write" where
  "pipe_put bs p = (int (length bs), p @ bs)"

lemma pipe_put_takes: "takes pipe_put (\<lambda>p. p)"
  by (simp add: takes_def pipe_put_def)

definition example_screen :: "byte list \<Rightarrow> gui_screen" where
  "example_screen t = \<lparr>colorForeground = SC_WHITE, colorBackground = SC_BLACK, lines = [t], documentRows = 1,
     cursor_x = int (length t), cursor_y = 0, cursor_blink = True, scrollY = 0, bounds_width = 700, bounds_height = 500,
     fullRepaint = False, wakeups = 0\<rparr>"

definition example_terminal :: "int \<Rightarrow> byte list \<Rightarrow> (gui_screen, byte list) terminal" where
  "example_terminal mode t = \<lparr>scr = example_screen t, shellStdin = [], inputMode = mode, inputEcho = (mode = 0), controlProcess = 0,
     shellProcess = 7, killed = []\<rparr>"

definition press :: "string \<Rightarrow> g_key_info" where
  "press k = \<lparr>key = k, pressed = True, ctrl = False, shift = False\<rparr>"

definition two_letters :: "g_key_info \<Rightarrow> byte" where
  "two_letters k = (if key k = ''KEY_A'' then bc CHR ''a'' else if key k = ''KEY_B'' then bc CHR ''b'' else 255)"

lemmas example_defs = example_screen_def example_terminal_def press_def two_letters_def

section \<open>Properties\<close>

text \<open>
  C8. The line discipline of the terminal window: while keys are typed and erased behind a prompt, the
  row shows the prompt and exactly the collected line, with the cursor behind it; enter then sends the
  line and a newline to the shell, whole, however little of it the pipe takes at a time.
\<close>

theorem terminal_line_delivered:
  assumes "takes W content" "inputMode T = 0" "inputEcho T" "gui_shows (scr T) y pr"
    "cursor_at gui_screen_t (scr T) (int (length pr)) y" "gui_fits (int (length pr + m)) y" "line_keys chr m ks []"
    "key k = ''KEY_ENTER''" "pressed k"
  shows "\<exists>s T'. terminalInputRoutine gui_screen_t W chr ks ([], T) = Some (line_after chr ks [], T\<lparr>scr := s\<rparr>) \<and>
    gui_shows s y (pr @ line_after chr ks []) \<and> cursor_at gui_screen_t s (int (length (pr @ line_after chr ks []))) y \<and>
    terminal_input gui_screen_t W chr k (line_after chr ks [], T\<lparr>scr := s\<rparr>) = Some ([], T') \<and>
    content (shellStdin T') = content (shellStdin T) @ line_after chr ks [] @ [10]"
  using gui.typed_line [OF assms(1-3) TrueI assms(4-9)] by blast

theorem terminal_line_delivered_witness:
  "\<exists>s T'. terminalInputRoutine gui_screen_t pipe_put two_letters [press ''KEY_A'', press ''KEY_A'', press ''KEY_BACKSPACE'', press ''KEY_B'']
      ([], example_terminal 0 (lit ''>'')) = Some (lit ''ab'', example_terminal 0 (lit ''>'')\<lparr>scr := s\<rparr>) \<and>
    gui_shows s 0 (lit ''>ab'') \<and>
    terminal_input gui_screen_t pipe_put two_letters (press ''KEY_ENTER'') (lit ''ab'', example_terminal 0 (lit ''>'')\<lparr>scr := s\<rparr>) = Some ([], T') \<and>
    shellStdin T' = lit ''ab'' @ [10]"
proof -
  have "gui_shows (scr (example_terminal 0 (lit ''>''))) 0 (lit ''>'')" "gui_fits (int (length (lit ''>'') + 5)) 0"
    "cursor_at gui_screen_t (scr (example_terminal 0 (lit ''>''))) (int (length (lit ''>''))) 0"
    "line_keys two_letters 5 [press ''KEY_A'', press ''KEY_A'', press ''KEY_BACKSPACE'', press ''KEY_B''] []"
    "line_after two_letters [press ''KEY_A'', press ''KEY_A'', press ''KEY_BACKSPACE'', press ''KEY_B''] [] = lit ''ab''"
    by (simp_all add: example_defs gui_shows_def getLine_def gui_fits_def cursor_at_def gui_screen_t_def erase_key_def typed_key_def
        edit_line_def printable_def cv_def)
  with terminal_line_delivered [OF pipe_put_takes, of "example_terminal 0 (lit ''>'')" 0 "lit ''>''" 5 two_letters
    "[press ''KEY_A'', press ''KEY_A'', press ''KEY_BACKSPACE'', press ''KEY_B'']" "press ''KEY_ENTER''"]
  show ?thesis by (simp add: example_terminal_def press_def) blast
qed

text \<open>
  Backspace at the left edge of the terminal window leaves the buffer of the line: on a line with
  text the copy has a length of -1, and on an empty line the next character is written before the buffer.
\<close>

theorem backspace_at_edge_faults:
  assumes "inputMode T = 0" "inputEcho T" "gui_shows (scr T) y t" "cursor_at gui_screen_t (scr T) 0 y" "erase_key e" "typed_key chr k"
  shows "if t \<noteq> [] then terminal_input gui_screen_t W chr e (b, T) = None
    else terminalInputRoutine gui_screen_t W chr [e, k] (b, T) = None"
proof -
  have y: "0 \<le> y \<and> nat y < length (lines (scr T))" "lines (scr T) ! nat y = t" using assms(3) by (auto simp: gui_shows_def getLine_eq)
  have c: "cursor_x (scr T) = 0" "cursor_y (scr T) = y" using assms(4) by (simp_all add: cursor_at_def gui_screen_t_def)
  have e: "terminal_input gui_screen_t W chr e (b, T) =
    do { s \<leftarrow> gui_backspace (scr T); Some (butlast b, T\<lparr>scr := repaint s\<rparr>) }"
    using assms(1,5) by (auto simp: terminal_input_def default_input_def erase_key_def on_screen_def gui_screen_t_def split: Option.bind_split)
  have same: "s\<lparr>lines := d\<rparr> = s" if "lines s = d" for s :: gui_screen and d
    using that by (cases s) simp
  have erased: "gui_backspace (scr T) = (if t \<noteq> [] then None else Some (recalculateView (gui_setCursor (- 1) y (scr T))))"
    using y c same [OF refl, of "gui_setCursor (- 1) y (scr T)"] list_update_id [of "lines (scr T)" "nat y"]
    by (auto simp: gui_backspace_def gui_remove_def gui_setCursor_def document_remove_def line_index_eq line_remove_def)
  have k: "charIsUtf8 (chr k)" "chr k \<noteq> 10" using assms(6) by (auto simp: typed_key_def printable_def charIsUtf8_def cv_def)
  have "gui_write (chr k) (repaint (recalculateView (gui_setCursor (- 1) y (scr T)))) = None" if "t = []"
    using k y that by (simp add: gui_write_def repaint_def gui_setCursor_def document_insert_def line_index_eq line_insert_def)
  moreover have "terminal_input gui_screen_t W chr k (b', T') = None" if "inputMode T' = 0" "inputEcho T'" "gui_write (chr k) (scr T') = None" for b' T'
    using that assms(6) cv_printable [of "chr k"]
    by (auto simp: terminal_input_def default_input_def typed_key_def echo_def on_screen_def gui_screen_t_def)
  ultimately show ?thesis using e erased assms(1,2) by simp
qed

theorem backspace_at_edge_faults_witness:
  "terminalInputRoutine gui_screen_t pipe_put two_letters [press ''KEY_BACKSPACE'', press ''KEY_A''] ([], example_terminal 0 []) = None"
proof -
  have "gui_shows (scr (example_terminal 0 [])) 0 []" "cursor_at gui_screen_t (scr (example_terminal 0 [])) 0 0"
    "erase_key (press ''KEY_BACKSPACE'')" "typed_key two_letters (press ''KEY_A'')"
    by (simp_all add: example_defs gui_shows_def getLine_def cursor_at_def gui_screen_t_def erase_key_def typed_key_def printable_def cv_def)
  with backspace_at_edge_faults [of "example_terminal 0 []" 0 "[]" "press ''KEY_BACKSPACE''" two_letters "press ''KEY_A''" pipe_put "[]"]
  show ?thesis by (simp add: example_terminal_def)
qed

end
