(* ===== verification/Terminal_Client.thy ===== *)
theory Terminal_Client
  imports Terminal_Stream
begin

text \<open>
  The terminal library of the programs (\<open>applications/libterminal/src/terminal.cpp\<close>), running against the
  terminal: a command goes out on \<open>stdout\<close> and is processed, an answer comes back through the pipe that
  also carries the keys.
\<close>

section \<open>A program at the terminal\<close>

text \<open>
  \<open>tterm\<close> is the terminal, whose pipe to the program has room for everything and holds what the program
  has not read; \<open>tstatus\<close> is the status of its output routine for \<open>stdout\<close>; \<open>buffered\<close> is the buffer of
  the library.  Text is processed as it is written.  When the pipe is empty, its other end is closed.
\<close>

record 's session =
  tstatus :: stream_control_status_t
  tterm :: "('s, byte list) terminal"
  buffered :: "int list"

abbreviation (input) bufferSize :: nat where "bufferSize \<equiv> 64"

abbreviation unread :: "'s session \<Rightarrow> byte list" where
  "unread S \<equiv> shellStdin (tterm S)"

definition set_unread :: "byte list \<Rightarrow> 's session \<Rightarrow> 's session" where
  "set_unread p S = S\<lparr>tterm := (tterm S)\<lparr>shellStdin := p\<rparr>\<rparr>"

definition client_write :: "'s screen_t \<Rightarrow> byte list \<Rightarrow> 's session \<Rightarrow> 's session option" where
  "client_write V bs S = do {
     (st, T) \<leftarrow> process_bytes V pipe_put False bs (tstatus S, tterm S);
     Some (S\<lparr>tstatus := st, tterm := T\<rparr>)
   }"

definition client_getc :: "'s session \<Rightarrow> int \<times> 's session" where
  "client_getc S = (case unread S of [] \<Rightarrow> (- 1, S) | c # cs \<Rightarrow> (uv c, set_unread cs S))"

section \<open>Commands\<close>

definition terminalCommand :: "'s screen_t \<Rightarrow> string \<Rightarrow> int list \<Rightarrow> 's session \<Rightarrow> 's session option" where
  "terminalCommand V fmt args S = do {
     (r, out, _, _) \<leftarrow> printed (lit fmt) (map VWord args) 0 Map.empty;
     client_write V (to_byte G_TERMKEY_ESC # out) S
   }"

definition setEcho :: "'s screen_t \<Rightarrow> bool \<Rightarrow> 's session \<Rightarrow> 's session option" where
  "setEcho V on = terminalCommand V ''{%de'' [if on then 1 else 0]"

definition setMode :: "'s screen_t \<Rightarrow> int \<Rightarrow> 's session \<Rightarrow> 's session option" where
  "setMode V mode = terminalCommand V ''{%dm'' [mode]"

definition putChar :: "'s screen_t \<Rightarrow> int \<Rightarrow> 's session \<Rightarrow> 's session option" where
  "putChar V c = terminalCommand V ''{%dp'' [c]"

definition setCursor :: "'s screen_t \<Rightarrow> int \<times> int \<Rightarrow> 's session \<Rightarrow> 's session option" where
  "setCursor V position = terminalCommand V ''[%d;%df'' [snd position, fst position]"

definition moveCursorUp :: "'s screen_t \<Rightarrow> int \<Rightarrow> 's session \<Rightarrow> 's session option" where
  "moveCursorUp V n = terminalCommand V ''[%dA'' [n]"

definition moveCursorDown :: "'s screen_t \<Rightarrow> int \<Rightarrow> 's session \<Rightarrow> 's session option" where
  "moveCursorDown V n = terminalCommand V ''[%dB'' [n]"

definition moveCursorForward :: "'s screen_t \<Rightarrow> int \<Rightarrow> 's session \<Rightarrow> 's session option" where
  "moveCursorForward V n = terminalCommand V ''[%dC'' [n]"

definition moveCursorBack :: "'s screen_t \<Rightarrow> int \<Rightarrow> 's session \<Rightarrow> 's session option" where
  "moveCursorBack V n = terminalCommand V ''[%dD'' [n]"

definition client_remove :: "'s screen_t \<Rightarrow> 's session \<Rightarrow> 's session option" where
  "client_remove V = terminalCommand V ''{x'' []"

definition setControlProcess :: "'s screen_t \<Rightarrow> int \<Rightarrow> 's session \<Rightarrow> 's session option" where
  "setControlProcess V pid = terminalCommand V ''{%dc'' [pid]"

definition client_clear :: "'s screen_t \<Rightarrow> 's session \<Rightarrow> 's session option" where
  "client_clear V = terminalCommand V ''[2J'' []"

definition setScrollAreaToScreen :: "'s screen_t \<Rightarrow> 's session \<Rightarrow> 's session option" where
  "setScrollAreaToScreen V = terminalCommand V ''[r'' []"

definition setScrollArea :: "'s screen_t \<Rightarrow> int \<Rightarrow> int \<Rightarrow> 's session \<Rightarrow> 's session option" where
  "setScrollArea V start stop = terminalCommand V ''[%d;%dr'' [start, stop]"

definition client_scroll :: "'s screen_t \<Rightarrow> int \<Rightarrow> 's session \<Rightarrow> 's session option" where
  "client_scroll V v = (if v \<ge> 0 then terminalCommand V ''[%dS'' [v] else terminalCommand V ''[%dT'' [s32 (- v)])"

definition client_setCursorVisible :: "'s screen_t \<Rightarrow> bool \<Rightarrow> 's session \<Rightarrow> 's session option" where
  "client_setCursorVisible V visible = terminalCommand V ''{0;%dC'' [if visible then 1 else 0]"

section \<open>Input\<close>

definition readUnbuffered :: "'s session \<Rightarrow> int \<times> 's session" where
  "readUnbuffered S =
     (let (c, S) = client_getc S in
      if c = G_TERMKEY_SUB then
        let (b1, S) = client_getc S in
        if b1 = - 1 then (- 1, S)
        else
          let (b2, S) = client_getc S in
          if b2 = - 1 then (- 1, S) else (or (push_bit 8 b2) b1, S)
      else (c, S))"

text \<open>The allocation of the buffer succeeds; a character that has no room in it is dropped.\<close>

definition bufferChar :: "int \<Rightarrow> 's session \<Rightarrow> 's session" where
  "bufferChar c S = (if length (buffered S) < bufferSize then S\<lparr>buffered := buffered S @ [c]\<rparr> else S)"

partial_function (option) readAndBufferUntilESC :: "'s session \<Rightarrow> 's session option" where
  "readAndBufferUntilESC S =
     (let (c, S) = readUnbuffered S in
      if c \<noteq> G_TERMKEY_ESC then readAndBufferUntilESC (bufferChar c S) else Some S)"

definition getChar :: "'s session \<Rightarrow> int \<times> 's session" where
  "getChar S = (case buffered S of c # cs \<Rightarrow> (c, S\<lparr>buffered := cs\<rparr>) | [] \<Rightarrow> readUnbuffered S)"

text \<open>The loop over the characters of an answer: each one is taken from the pipe, the end is not a digit.\<close>

lemma unread_set [simp]: "unread (set_unread p S) = p" "set_unread q (set_unread p S) = set_unread q S"
  by (simp_all add: set_unread_def)

lemma readUnbuffered_eq:
  "readUnbuffered S = (case unread S of
     [] \<Rightarrow> (- 1, S)
   | c # cs \<Rightarrow>
     if c = 26 then (case cs of
        b1 # b2 # r \<Rightarrow> (or (push_bit 8 (uv b2)) (uv b1), set_unread r S)
      | _ \<Rightarrow> (- 1, set_unread [] S))
     else (uv c, set_unread cs S))"
proof -
  have "uv c = 26 \<longleftrightarrow> c = 26" for c using uv_inj [of c 26] by (simp add: uv_def)
  moreover have "uv b \<noteq> - 1" for b using uv_range [of b] by simp
  ultimately show ?thesis
    by (auto simp: readUnbuffered_def client_getc_def Let_def split: list.splits)
qed

lemma readUnbuffered_less:
  "(c, S') = readUnbuffered S \<Longrightarrow> c \<noteq> - 1 \<Longrightarrow> length (unread S') < length (unread S)"
  by (auto simp: readUnbuffered_eq split: list.splits if_splits)

function readEscapedParameters :: "int list \<Rightarrow> int \<Rightarrow> 's session \<Rightarrow> (int \<times> int list \<times> 's session) option" where
  "readEscapedParameters ps count S =
     (let (c, S') = readUnbuffered S in
      if ic CHR ''0'' \<le> c \<and> c \<le> ic CHR ''9'' then
        let count = (if count = 0 then 1 else count) in
        if count \<le> int MAX_PARAMETERS then do {
          let i = nat (count - 1);
          v \<leftarrow> int_result (ps ! i * 10);
          v \<leftarrow> int_result (v + (c - ic CHR ''0''));
          readEscapedParameters (ps[i := v]) count S'
        } else readEscapedParameters ps count S'
      else if c = ic CHR '';'' then readEscapedParameters ps (count + 1) S'
      else Some (c, ps, S'))"
  by pat_completeness auto
termination
  by (relation "measure (\<lambda>(ps, count, S). length (unread S))") (auto dest!: readUnbuffered_less)

declare readEscapedParameters.simps [simp del]

definition getCursor :: "'s screen_t \<Rightarrow> 's session \<Rightarrow> ((int \<times> int) \<times> 's session) option" where
  "getCursor V S = do {
     S \<leftarrow> terminalCommand V ''[6n'' [] S;
     S \<leftarrow> readAndBufferUntilESC S;
     let (ch, S) = readUnbuffered S;
     if ch = ic CHR ''['' then do {
       (mode, ps, S) \<leftarrow> readEscapedParameters (replicate MAX_PARAMETERS 0) 0 S;
       Some (if mode = ic CHR ''R'' then ((ps ! 1, ps ! 0), S) else ((- 1, - 1), S))
     } else Some ((- 1, - 1), S)
   }"

definition getSize :: "'s screen_t \<Rightarrow> 's session \<Rightarrow> ((int \<times> int) \<times> 's session) option" where
  "getSize V S = do {
     S \<leftarrow> terminalCommand V ''{i'' [] S;
     S \<leftarrow> readAndBufferUntilESC S;
     let (ch, S) = readUnbuffered S;
     if ch = ic CHR ''{'' then do {
       (mode, ps, S) \<leftarrow> readEscapedParameters (replicate MAX_PARAMETERS 0) 0 S;
       Some (if mode = ic CHR ''i'' then ((ps ! 0, ps ! 1), S) else ((- 1, - 1), S))
     } else Some ((- 1, - 1), S)
   }"

section \<open>Commands reach the terminal\<close>

text \<open>The text of the commands: a bracket, up to two parameters and the final character.\<close>

lemma printed_0: "b \<noteq> 37 \<Longrightarrow> c \<noteq> 37 \<Longrightarrow> printed [b, c] [] 0 m = Some (2, [b, c], 0, m)"
  using vcb_plain_after [of b "[c]" "[]" "[]" 0 m] vcb_plain_after [of c "[]" "[]" "[b]" 0 m]
  by (simp add: printed_def start_after vcb_nil_after) (simp add: after_def s32_id)

lemma int_text_100: "INT_MIN \<le> p \<Longrightarrow> p \<le> INT_MAX \<Longrightarrow> int_text no_flags 0 100 True (u64 p) = decimal p"
  using int_text_decimal [of p] by simp

lemma printed_1:
  assumes "b \<noteq> 37" "c \<noteq> 37" "INT_MIN \<le> p" "p \<le> INT_MAX"
  shows "\<exists>r. printed [b, 37, 100, c] [VWord p] 0 m = Some (r, b # decimal p @ [c], 0, m)"
  using assms vcb_plain_after [of b "[37, 100, c]" "[VWord p]" "[]" 0 m] vcb_d [of "[c]" p "[]" "[b]" 0 m]
    vcb_plain_after [of c "[]" "[]" "b # decimal p" 0 m]
  by (simp add: printed_def start_after vcb_nil_after int_text_100 s32_id) (simp add: after_def)

lemma printed_2:
  assumes "b \<noteq> 37" "c \<noteq> 37" "INT_MIN \<le> p" "p \<le> INT_MAX" "INT_MIN \<le> q" "q \<le> INT_MAX"
  shows "\<exists>r. printed [b, 37, 100, 59, 37, 100, c] [VWord p, VWord q] 0 m = Some (r, b # decimal p @ 59 # decimal q @ [c], 0, m)"
  using assms vcb_plain_after [of b "[37, 100, 59, 37, 100, c]" "[VWord p, VWord q]" "[]" 0 m]
    vcb_d [of "[59, 37, 100, c]" p "[VWord q]" "[b]" 0 m] vcb_plain_after [of 59 "[37, 100, c]" "[VWord q]" "b # decimal p" 0 m]
    vcb_d [of "[c]" q "[]" "b # decimal p @ [59]" 0 m] vcb_plain_after [of c "[]" "[]" "b # decimal p @ 59 # decimal q" 0 m]
  by (simp add: printed_def start_after vcb_nil_after int_text_100 s32_id) (simp add: after_def)

text \<open>The session after a command.\<close>

definition finished :: "byte \<Rightarrow> 's session \<Rightarrow> ('s, byte list) terminal \<Rightarrow> 's session" where
  "finished c S T = S\<lparr>tstatus := (tstatus S)\<lparr>controlCharacter := c\<rparr>, tterm := T\<rparr>"

lemma finished_simps [simp]:
  "tterm (finished c S T) = T" "buffered (finished c S T) = buffered S" "idle (tstatus (finished c S T)) = idle (tstatus S)"
  by (simp_all add: finished_def idle_def)

definition run_vt100 :: "'s screen_t \<Rightarrow> byte \<Rightarrow> int list \<Rightarrow> 's session \<Rightarrow> 's session option" where
  "run_vt100 V c ps S = map_option (finished c S)
     (terminalProcessSequenceVt100 V pipe_put (command_status WITHIN_VT100 ps c (tstatus S)) (tterm S))"

definition run_ghostterm :: "'s screen_t \<Rightarrow> byte \<Rightarrow> int list \<Rightarrow> 's session \<Rightarrow> 's session option" where
  "run_ghostterm V c ps S = map_option (finished c S)
     (terminalProcessSequenceGhostterm V pipe_put (command_status WITHIN_GHOSTTERM ps c (tstatus S)) (tterm S))"

lemma client_write_sequence:
  assumes "idle (tstatus S)" "length ps \<le> 4" "\<forall>p\<in>set ps. 0 \<le> p \<and> p \<le> INT_MAX" "final_char c"
  shows "client_write V (27 # 91 # params_text ps @ [c]) S = run_vt100 V c ps S"
    "client_write V (27 # 123 # params_text ps @ [c]) S = run_ghostterm V c ps S"
proof -
  show "client_write V (27 # 91 # params_text ps @ [c]) S = run_vt100 V c ps S"
    using run_sequence(1) [OF assms, of V pipe_put False "tterm S"] unfolding client_write_def run_vt100_def finished_def
    by (cases "terminalProcessSequenceVt100 V pipe_put (command_status WITHIN_VT100 ps c (tstatus S)) (tterm S)") simp_all
  show "client_write V (27 # 123 # params_text ps @ [c]) S = run_ghostterm V c ps S"
    using run_sequence(2) [OF assms, of V pipe_put False "tterm S"] unfolding client_write_def run_ghostterm_def finished_def
    by (cases "terminalProcessSequenceGhostterm V pipe_put (command_status WITHIN_GHOSTTERM ps c (tstatus S)) (tterm S)") simp_all
qed

lemma command_0:
  assumes "idle (tstatus S)" "final_char (bc c)" "bc c \<noteq> 37"
  shows "terminalCommand V [CHR ''['', c] [] S = run_vt100 V (bc c) [] S"
    "terminalCommand V [CHR ''{'', c] [] S = run_ghostterm V (bc c) [] S"
  using printed_0 [of 91 "bc c" Map.empty] printed_0 [of 123 "bc c" Map.empty] assms client_write_sequence [of S "[]" "bc c" V]
  by (simp_all add: terminalCommand_def to_byte_def)

lemma command_1:
  assumes "idle (tstatus S)" "0 \<le> p" "p \<le> INT_MAX" "final_char (bc c)" "bc c \<noteq> 37"
  shows "terminalCommand V [CHR ''['', CHR ''%'', CHR ''d'', c] [p] S = run_vt100 V (bc c) [p] S"
    "terminalCommand V [CHR ''{'', CHR ''%'', CHR ''d'', c] [p] S = run_ghostterm V (bc c) [p] S"
proof -
  obtain r1 r2 where "printed [91, 37, 100, bc c] [VWord p] 0 Map.empty = Some (r1, 91 # decimal p @ [bc c], 0, Map.empty)"
    "printed [123, 37, 100, bc c] [VWord p] 0 Map.empty = Some (r2, 123 # decimal p @ [bc c], 0, Map.empty)"
    using printed_1 [of 91 "bc c" p Map.empty] printed_1 [of 123 "bc c" p Map.empty] assms by auto
  then show "terminalCommand V [CHR ''['', CHR ''%'', CHR ''d'', c] [p] S = run_vt100 V (bc c) [p] S"
    "terminalCommand V [CHR ''{'', CHR ''%'', CHR ''d'', c] [p] S = run_ghostterm V (bc c) [p] S"
    using assms client_write_sequence [of S "[p]" "bc c" V]
    by (simp_all add: terminalCommand_def to_byte_def)
qed

lemma command_2:
  assumes "idle (tstatus S)" "0 \<le> p" "p \<le> INT_MAX" "0 \<le> q" "q \<le> INT_MAX" "final_char (bc c)" "bc c \<noteq> 37"
  shows "terminalCommand V [CHR ''['', CHR ''%'', CHR ''d'', CHR '';'', CHR ''%'', CHR ''d'', c] [p, q] S = run_vt100 V (bc c) [p, q] S"
proof -
  obtain r where "printed [91, 37, 100, 59, 37, 100, bc c] [VWord p, VWord q] 0 Map.empty =
      Some (r, 91 # decimal p @ 59 # decimal q @ [bc c], 0, Map.empty)"
    using printed_2 [of 91 "bc c" p q Map.empty] assms by auto
  then show ?thesis
    using assms client_write_sequence [of S "[p, q]" "bc c" V]
    by (simp add: terminalCommand_def to_byte_def)
qed

lemma final_letter: "c \<noteq> 59 \<Longrightarrow> 57 < cv c \<Longrightarrow> final_char c"
  by (simp add: final_char_def is_digit_def)

lemma command_params [simp]:
  "controlCharacter (command_status k ps c st) = c" "parameters (command_status k ps c st) = ps @ replicate (4 - length ps) 0"
  "parameterCount (command_status k ps c st) = int (length ps)"
  by (simp_all add: command_status_def with_params_def)

section \<open>Input reaches the program\<close>

text \<open>How a key travels: a character as itself, a special key in three bytes.\<close>

definition key_bytes :: "int \<Rightarrow> byte list" where
  "key_bytes k = (if k < 256 then [to_byte k] else termkey_bytes k)"

definition sendable :: "int \<Rightarrow> bool" where
  "sendable k \<longleftrightarrow> 0 \<le> k \<and> k \<le> 0xFFFF \<and> k \<noteq> 26"

lemma set_unread_id: "unread S = p \<Longrightarrow> set_unread p S = S"
  by (cases S; cases "tterm S") (simp add: set_unread_def)

lemma uv_byte_mod: "uv (to_byte x) = x mod 256"
  by (simp add: uv_def to_byte_def uint_word_of_int)

lemma two_bytes: "0 \<le> k \<Longrightarrow> k \<le> 0xFFFF \<Longrightarrow> or (push_bit 8 (and (drop_bit 8 k) 255 mod 256)) (and k 255 mod 256) = (k :: int)"
proof -
  assume k: "0 \<le> k" "k \<le> 0xFFFF"
  have m: "and x 255 mod 256 = take_bit 8 x" for x :: int
    using take_bit_eq_mask [of 8 x] by (simp add: mask_eq_exp_minus_1 take_bit_eq_mod)
  have "take_bit 8 (drop_bit 8 k) = drop_bit 8 k" using k by (simp add: take_bit_int_eq_self_iff drop_bit_eq_div) presburger
  moreover have "or (push_bit 8 (drop_bit 8 k)) (take_bit 8 k) = k"
    by (rule bit_eqI) (auto simp: bit_or_iff bit_push_bit_iff bit_drop_bit_eq bit_take_bit_iff)
  ultimately show ?thesis by (simp add: m)
qed

lemma read_key:
  assumes "sendable k" "unread S = key_bytes k @ r"
  shows "readUnbuffered S = (k, set_unread r S)"
proof (cases "k < 256")
  case True
  have "to_byte k \<noteq> 26" using assms(1) True uv_byte_mod [of k] by (auto simp: sendable_def uv_def)
  with assms True show ?thesis by (simp add: readUnbuffered_eq key_bytes_def uv_byte_mod sendable_def)
next
  case False
  have "to_byte 26 = (26 :: byte)" by (simp add: to_byte_def)
  with assms False two_bytes [of k] show ?thesis
    by (simp add: readUnbuffered_eq key_bytes_def termkey_bytes_def uv_byte_mod sendable_def)
qed

lemma read_until_esc:
  assumes "list_all sendable ks" "27 \<notin> set ks"
  shows "length (buffered S) + length ks \<le> 64 \<Longrightarrow> unread S = concat (map key_bytes ks) @ 27 # r \<Longrightarrow>
    readAndBufferUntilESC S = Some ((set_unread r S)\<lparr>buffered := buffered S @ ks\<rparr>)"
  using assms
proof (induction ks arbitrary: S)
  case Nil
  have "readUnbuffered S = (27, set_unread r S)" using Nil(2) by (simp add: readUnbuffered_eq uv_def)
  then show ?case by (subst readAndBufferUntilESC.simps) (simp add: set_unread_def)
next
  case (Cons k ks)
  have "readUnbuffered S = (k, set_unread (concat (map key_bytes ks) @ 27 # r) S)"
    using Cons.prems read_key [of k S] by simp
  then have "readAndBufferUntilESC S = readAndBufferUntilESC (bufferChar k (set_unread (concat (map key_bytes ks) @ 27 # r) S))"
    using Cons.prems by (subst readAndBufferUntilESC.simps) simp
  also have "\<dots> = Some ((set_unread r S)\<lparr>buffered := buffered S @ k # ks\<rparr>)"
    using Cons.IH [of "bufferChar k (set_unread (concat (map key_bytes ks) @ 27 # r) S)"] Cons.prems
    by (simp add: bufferChar_def set_unread_def)
  finally show ?case .
qed

text \<open>The parameters of an answer.\<close>

lemma read_plain: "unread S = c # r \<Longrightarrow> c \<noteq> 26 \<Longrightarrow> readUnbuffered S = (uv c, set_unread r S)"
  by (simp add: readUnbuffered_eq)

lemma digit_uv: "is_digit c \<Longrightarrow> uv c = cv c \<and> c \<noteq> 26"
proof -
  assume d: "is_digit c"
  have "uv (to_byte (cv c)) = cv c mod 256" by (rule uv_byte_mod)
  with d have "uv c = cv c" by (simp add: is_digit_def)
  moreover have "c \<noteq> 26" using d by (auto simp: is_digit_def cv_def)
  ultimately show ?thesis by simp
qed

lemma esc_digit:
  assumes "unread S = c # r" "is_digit c" "cv c - ic CHR ''0'' = digval c" "count = int n \<or> count = 0 \<and> n = 1" "1 \<le> n" "n \<le> 4"
    "0 \<le> ps ! (n - 1)" "ps ! (n - 1) * 10 + digval c \<le> INT_MAX"
  shows "readEscapedParameters ps count S =
    readEscapedParameters (ps[n - 1 := ps ! (n - 1) * 10 + digval c]) (int n) (set_unread r S)"
proof -
  have d: "readUnbuffered S = (cv c, set_unread r S)" "48 \<le> cv c" "cv c \<le> 57"
    using read_plain [OF assms(1)] digit_uv [OF assms(2)] assms(2) by (auto simp: is_digit_def)
  have "nat (int n - 1) = n - 1" by simp
  then show ?thesis using d assms(3-8) by (subst readEscapedParameters.simps) (auto simp: Let_def)
qed

lemma esc_digits:
  assumes "1 \<le> n" "n \<le> 4"
  shows "unread S = cs @ r \<Longrightarrow> \<forall>c\<in>set cs. is_digit c \<and> cv c - ic CHR ''0'' = digval c \<Longrightarrow> length ps = 4 \<Longrightarrow>
    0 \<le> ps ! (n - 1) \<Longrightarrow> numval 10 (ps ! (n - 1)) cs \<le> INT_MAX \<Longrightarrow>
    readEscapedParameters ps (int n) S = readEscapedParameters (ps[n - 1 := numval 10 (ps ! (n - 1)) cs]) (int n) (set_unread r S)"
proof (induction cs arbitrary: S ps)
  case Nil
  then show ?case by (simp add: set_unread_id)
next
  case (Cons c cs)
  let ?v = "ps ! (n - 1) * 10 + digval c"
  have d: "is_digit c" "cv c - ic CHR ''0'' = digval c" "0 \<le> digval c" using Cons.prems(2) by (auto simp: is_digit_def)
  then have v: "0 \<le> ?v" "?v \<le> INT_MAX" using Cons.prems(4,5) numval_mono_start [of ?v cs] by auto
  have "readEscapedParameters ps (int n) S = readEscapedParameters (ps[n - 1 := ?v]) (int n) (set_unread (cs @ r) S)"
    using esc_digit [of S c "cs @ r" "int n" n ps] Cons.prems d v assms by simp
  then show ?case using Cons.IH [of "set_unread (cs @ r) S" "ps[n - 1 := ?v]"] Cons.prems v assms by simp
qed

lemma esc_number:
  assumes "unread S = decimal p @ r" "0 \<le> p" "p \<le> INT_MAX" "count = int n \<or> count = 0 \<and> n = 1" "1 \<le> n" "n \<le> 4"
    "length ps = 4" "ps ! (n - 1) = 0"
  shows "readEscapedParameters ps count S = readEscapedParameters (ps[n - 1 := p]) (int n) (set_unread r S)"
proof -
  obtain d ds where d: "decimal p = d # ds" using decimal_digits [OF assms(2)] by (cases "decimal p") auto
  note dd = decimal_digits [OF assms(2), unfolded d]
  have d0: "is_digit d" "cv d - ic CHR ''0'' = digval d" "0 \<le> digval d" using dd by (auto simp: is_digit_def)
  have n: "numval 10 (digval d) ds = p" using dd by simp
  then have "digval d \<le> INT_MAX" using numval_mono_start [OF d0(3), of ds] assms(3) by simp
  then have "readEscapedParameters ps count S = readEscapedParameters (ps[n - 1 := digval d]) (int n) (set_unread (ds @ r) S)"
    using esc_digit [of S d "ds @ r" count n ps] d0 assms d by simp
  also have "\<dots> = readEscapedParameters (ps[n - 1 := p]) (int n) (set_unread r S)"
    using esc_digits [OF assms(5,6), of "set_unread (ds @ r) S" ds r "ps[n - 1 := digval d]"] dd assms n d0(3) by simp
  finally show ?thesis .
qed

lemma esc_two:
  assumes "unread S = decimal p @ 59 # decimal q @ c # r" "0 \<le> p" "p \<le> INT_MAX" "0 \<le> q" "q \<le> INT_MAX" "final_char c" "c \<noteq> 26"
    "uv c = cv c"
  shows "readEscapedParameters (replicate 4 0) 0 S = Some (cv c, [p, q, 0, 0], set_unread r S)"
proof -
  have r4: "replicate 4 (0 :: int) = [0, 0, 0, 0]" by (simp add: numeral_eq_Suc)
  have "readEscapedParameters [0, 0, 0, 0] 0 S = readEscapedParameters [p, 0, 0, 0] 1 (set_unread (59 # decimal q @ c # r) S)"
    using esc_number [OF assms(1-3), of 0 1 "[0, 0, 0, 0]"] by simp
  also have "\<dots> = readEscapedParameters [p, 0, 0, 0] 2 (set_unread (decimal q @ c # r) S)"
    using read_plain [of "set_unread (59 # decimal q @ c # r) S" 59 "decimal q @ c # r"]
    by (subst readEscapedParameters.simps) (simp add: uv_def)
  also have "\<dots> = readEscapedParameters [p, q, 0, 0] 2 (set_unread (c # r) S)"
    using esc_number [of "set_unread (decimal q @ c # r) S" q "c # r" 2 2 "[p, 0, 0, 0]"] assms(4,5) by simp
  also have "\<dots> = Some (cv c, [p, q, 0, 0], set_unread r S)"
  proof -
    have "cv c \<noteq> 59" using assms(6) cv_inj [of c 59] by (auto simp: final_char_def cv_def)
    then show ?thesis using read_plain [of "set_unread (c # r) S" c r] assms(6-8)
      by (subst readEscapedParameters.simps) (auto simp: final_char_def is_digit_def)
  qed
  finally show ?thesis by (simp add: r4)
qed

section \<open>Queries\<close>

lemma printed_3: "b \<noteq> 37 \<Longrightarrow> d \<noteq> 37 \<Longrightarrow> c \<noteq> 37 \<Longrightarrow> printed [b, d, c] [] 0 m = Some (3, [b, d, c], 0, m)"
  using vcb_plain_after [of b "[d, c]" "[]" "[]" 0 m] vcb_plain_after [of d "[c]" "[]" "[b]" 0 m] vcb_plain_after [of c "[]" "[]" "[b, d]" 0 m]
  by (simp add: printed_def start_after vcb_nil_after) (simp add: after_def s32_id)

lemma decimal_digit: "decimal 6 = [54]" "decimal 2 = [50]" "decimal 1 = [49]" "decimal 0 = [48]"
  by (simp_all add: decimal_def digits_of.simps)

lemma command_digit:
  assumes "idle (tstatus S)"
  shows "terminalCommand V ''[6n'' [] S = run_vt100 V (bc CHR ''n'') [6] S" "terminalCommand V ''[2J'' [] S = run_vt100 V (bc CHR ''J'') [2] S"
  using client_write_sequence(1) [OF assms, of "[6]" 110 V] client_write_sequence(1) [OF assms, of "[2]" 74 V]
  by (simp_all add: terminalCommand_def printed_3 to_byte_def decimal_digit final_char_def is_digit_def cv_def)

fun get_chars :: "nat \<Rightarrow> 's session \<Rightarrow> int list \<times> 's session" where
  "get_chars 0 S = ([], S)"
| "get_chars (Suc n) S = (let (c, S) = getChar S; (cs, S) = get_chars n S in (c # cs, S))"

lemma get_chars_buffered: "buffered S = ks @ r \<Longrightarrow> get_chars (length ks) S = (ks, S\<lparr>buffered := r\<rparr>)"
  by (induction ks arbitrary: S) (simp_all add: getChar_def)

lemma get_chars_sent:
  "buffered S = [] \<Longrightarrow> list_all sendable ks \<Longrightarrow> unread S = concat (map key_bytes ks) @ r \<Longrightarrow>
    get_chars (length ks) S = (ks, set_unread r S)"
proof (induction ks arbitrary: S)
  case Nil
  then show ?case by (simp add: set_unread_id)
next
  case (Cons k ks)
  let ?p = "concat (map key_bytes ks) @ r"
  have "getChar S = (k, set_unread ?p S)" using Cons.prems read_key [of k S ?p] by (simp add: getChar_def)
  moreover have "get_chars (length ks) (set_unread ?p S) = (ks, set_unread r S)"
    using Cons.IH [of "set_unread ?p S"] Cons.prems by (simp add: set_unread_def)
  ultimately show ?case by simp
qed

lemma getCursor_correct:
  assumes "idle (tstatus S)" "cursor_at V (scr (tterm S)) x y" "0 \<le> x" "x \<le> INT_MAX" "0 \<le> y" "y \<le> INT_MAX"
    "unread S = concat (map key_bytes ks)" "list_all sendable ks" "27 \<notin> set ks" "length (buffered S) + length ks \<le> 64"
  shows "getCursor V S = Some ((x, y), (finished (bc CHR ''n'') S ((tterm S)\<lparr>shellStdin := []\<rparr>))\<lparr>buffered := buffered S @ ks\<rparr>)"
proof -
  let ?r = "91 # decimal y @ 59 # decimal x @ [82]"
  let ?S1 = "finished (bc CHR ''n'') S ((tterm S)\<lparr>shellStdin := concat (map key_bytes ks) @ 27 # ?r\<rparr>)"
  have "terminalCommand V ''[6n'' [] S = Some ?S1"
    using assms(1,2,7)
    by (simp add: command_digit run_vt100_def terminalProcessSequenceVt100_def pipe_put_def cursor_response_def cursor_at_def to_byte_def)
  moreover have "readAndBufferUntilESC ?S1 = Some ((set_unread ?r ?S1)\<lparr>buffered := buffered S @ ks\<rparr>)"
    using read_until_esc [OF assms(8,9), of ?S1 ?r] assms(10) by simp
  moreover have "readUnbuffered ((set_unread ?r ?S1)\<lparr>buffered := buffered S @ ks\<rparr>) =
    (91, (set_unread (tl ?r) ?S1)\<lparr>buffered := buffered S @ ks\<rparr>)"
    using read_plain [of "(set_unread ?r ?S1)\<lparr>buffered := buffered S @ ks\<rparr>" 91 "tl ?r"] by (simp add: set_unread_def uv_def)
  moreover have "readEscapedParameters (replicate 4 0) 0 ((set_unread (tl ?r) ?S1)\<lparr>buffered := buffered S @ ks\<rparr>) =
    Some (82, [y, x, 0, 0], (set_unread [] ?S1)\<lparr>buffered := buffered S @ ks\<rparr>)"
    using esc_two [of "(set_unread (tl ?r) ?S1)\<lparr>buffered := buffered S @ ks\<rparr>" y x 82 "[]"] assms(3-6) final_letter [of 82]
    by (simp add: set_unread_def uv_def cv_def)
  moreover have "(set_unread [] ?S1)\<lparr>buffered := buffered S @ ks\<rparr> =
    (finished (bc CHR ''n'') S ((tterm S)\<lparr>shellStdin := []\<rparr>))\<lparr>buffered := buffered S @ ks\<rparr>"
    by (simp add: set_unread_def finished_def)
  ultimately show ?thesis by (simp add: getCursor_def)
qed

lemma setCursor_correct:
  assumes "idle (tstatus S)" "0 \<le> x" "x \<le> INT_MAX" "0 \<le> y" "y \<le> INT_MAX"
  shows "setCursor V (x, y) S = Some (finished (bc CHR ''f'') S ((tterm S)\<lparr>scr := v_setCursor V x y (scr (tterm S))\<rparr>))"
  using command_2 [OF assms(1,4,5,2,3), of "CHR ''f''" V] final_letter [of 102]
  by (simp add: setCursor_def cv_def run_vt100_def terminalProcessSequenceVt100_def on_screen_def)

lemma setMode_correct:
  assumes "idle (tstatus S)" "0 \<le> p" "p \<le> INT_MAX"
  shows "setMode V p S = Some (finished (bc CHR ''m'') S ((tterm S)\<lparr>inputMode := p\<rparr>))"
  using command_1(2) [OF assms, of "CHR ''m''" V] final_letter [of 109]
  by (simp add: setMode_def cv_def run_ghostterm_def terminalProcessSequenceGhostterm_def)

lemma setEcho_correct:
  assumes "idle (tstatus S)"
  shows "setEcho V e S = Some (finished (bc CHR ''e'') S ((tterm S)\<lparr>inputEcho := e\<rparr>))"
  using command_1(2) [OF assms, of "if e then 1 else 0" "CHR ''e''" V] final_letter [of 101]
  by (simp add: setEcho_def cv_def run_ghostterm_def terminalProcessSequenceGhostterm_def)

lemma setControlProcess_correct:
  assumes "idle (tstatus S)" "0 \<le> p" "p \<le> INT_MAX"
  shows "setControlProcess V p S = Some (finished (bc CHR ''c'') S ((tterm S)\<lparr>controlProcess := p\<rparr>))"
  using command_1(2) [OF assms, of "CHR ''c''" V] final_letter [of 99]
  by (simp add: setControlProcess_def cv_def run_ghostterm_def terminalProcessSequenceGhostterm_def)

section \<open>Keys in the raw mode\<close>

text \<open>The code a program is to receive for a key.\<close>

definition key_code :: "(g_key_info \<Rightarrow> byte) \<Rightarrow> g_key_info \<Rightarrow> int option" where
  "key_code chr k =
     (if key k = ''KEY_ENTER'' \<and> pressed k then Some G_TERMKEY_ENTER
      else if key k = ''KEY_BACKSPACE'' \<and> pressed k then Some G_TERMKEY_BACKSPACE
      else if key k = ''KEY_ARROW_LEFT'' \<and> pressed k then Some G_TERMKEY_LEFT
      else if key k = ''KEY_ARROW_RIGHT'' \<and> pressed k then Some G_TERMKEY_RIGHT
      else if key k = ''KEY_ARROW_UP'' \<and> pressed k then Some G_TERMKEY_UP
      else if key k = ''KEY_ARROW_DOWN'' \<and> pressed k then Some G_TERMKEY_DOWN
      else if key k = ''KEY_TAB'' \<and> pressed k \<and> shift k then Some 9
      else if key k = ''KEY_TAB'' \<and> pressed k then Some G_TERMKEY_STAB
      else if cv (chr k) \<noteq> - 1 then Some (uv (chr k))
      else None)"

lemma raw_key:
  assumes "inputMode T = 1" "\<not> inputEcho T"
  shows "\<exists>s. terminal_input V pipe_put chr k (b, T) =
    Some (b, T\<lparr>scr := s, shellStdin := shellStdin T @ (case key_code chr k of None \<Rightarrow> [] | Some c \<Rightarrow> key_bytes c)\<rparr>)"
proof -
  define sent where "sent c = Some (T\<lparr>shellStdin := shellStdin T @ (case c of None \<Rightarrow> [] | Some c \<Rightarrow> key_bytes c)\<rparr>)" for c
  have quiet: "echo f (to_shell g T) = Some (to_shell g T)" for f g using assms(2) by (simp add: echo_def to_shell_def)
  have special: "Some (to_shell (terminalWriteTermkeyToShell pipe_put k) T) = sent (Some k)" if "256 \<le> k" for k
    using that by (simp add: to_shell_def terminalWriteTermkeyToShell_def pipe_put_def sent_def key_bytes_def)
  have tab: "Some (to_shell (terminalWriteToShell pipe_put [9]) T) = sent (Some 9)"
    by (simp add: to_shell_def terminalWriteToShell_def write_line.simps pipe_put_def sent_def key_bytes_def to_byte_def)
  have char: "Some (to_shell (\<lambda>p. snd (pipe_put [c] p)) T) = sent (Some (uv c))" for c
    using uv_range [of c] by (simp add: to_shell_def pipe_put_def sent_def key_bytes_def)
  have "Some T = sent None" by (simp add: sent_def)
  then have "raw_input V pipe_put chr k T = sent (key_code chr k)"
    unfolding raw_input_def key_code_def Let_def quiet tab char by (simp add: special if_distrib [of sent] quiet tab char del: if_split)
  then show ?thesis using assms(1)
    by (intro exI [of _ "v_flush V (scr T)"]) (simp add: terminal_input_def sent_def)
qed

lemma raw_keys:
  "inputMode T = 1 \<Longrightarrow> \<not> inputEcho T \<Longrightarrow> \<exists>s. terminalInputRoutine V pipe_put chr keys (b, T) =
    Some (b, T\<lparr>scr := s, shellStdin := shellStdin T @ concat (map key_bytes (List.map_filter (key_code chr) keys))\<rparr>)"
proof (induction keys arbitrary: T)
  case Nil
  then show ?case by (intro exI [of _ "scr T"]) (simp add: map_filter_simps)
next
  case (Cons k keys)
  from raw_key [OF Cons.prems, of V chr k b] obtain s where s: "terminal_input V pipe_put chr k (b, T) =
    Some (b, T\<lparr>scr := s, shellStdin := shellStdin T @ (case key_code chr k of None \<Rightarrow> [] | Some c \<Rightarrow> key_bytes c)\<rparr>)" by blast
  let ?T = "T\<lparr>scr := s, shellStdin := shellStdin T @ (case key_code chr k of None \<Rightarrow> [] | Some c \<Rightarrow> key_bytes c)\<rparr>"
  from Cons.IH [of ?T] Cons.prems obtain s' where "terminalInputRoutine V pipe_put chr keys (b, ?T) =
    Some (b, ?T\<lparr>scr := s', shellStdin := shellStdin ?T @ concat (map key_bytes (List.map_filter (key_code chr) keys))\<rparr>)" by auto
  then show ?case using s by (intro exI [of _ s']) (simp add: map_filter_simps split: option.split)
qed

text \<open>Below the last line of a window nothing is written.\<close>

lemma write_below: "cursor_y (scr T) < 0 \<Longrightarrow> status st = STATUS_TEXT \<Longrightarrow> list_all printable cs \<Longrightarrow>
  \<exists>T'. process_bytes gui_screen_t W False cs (st, T) = Some (st, T') \<and> lines (scr T') = lines (scr T)"
proof (induction cs arbitrary: T)
  case (Cons c cs)
  have c: "c \<noteq> 13" "c \<noteq> 9" "c \<noteq> 27" "c \<noteq> 10" using Cons.prems printable_plain [of c] by auto
  have "\<exists>s. gui_write c (scr T) = Some s \<and> lines s = lines (scr T) \<and> cursor_y s = cursor_y (scr T)"
    using Cons.prems(1) c(4) by (auto simp: gui_write_def document_insert_def line_index_eq gui_setCursor_def)
  then obtain s where s: "gui_write c (scr T) = Some s" "lines s = lines (scr T)" "cursor_y s = cursor_y (scr T)" by blast
  then have "terminalProcessOutput gui_screen_t W False c (st, T) = Some (st, T\<lparr>scr := s\<rparr>)"
    using Cons.prems(2) c by (simp add: terminalProcessOutput_def put_text_def gui_screen_t_def)
  then show ?case using Cons.IH [of "T\<lparr>scr := s\<rparr>"] Cons.prems s by auto
qed simp

definition example_session :: "gui_screen session" where
  "example_session = \<lparr>tstatus = new_status [0, 0, 0, 0] 0, tterm = example_terminal 1 (lit ''>''), buffered = []\<rparr>"

section \<open>Properties\<close>

text \<open>
  C22. Asking for the cursor: the library returns the position of the cursor of the terminal, and the
  keys that were typed before the answer are kept and given to the program afterwards, in order.
\<close>

theorem getCursor_answers:
  assumes "idle (tstatus S)" "cursor_at V (scr (tterm S)) x y" "0 \<le> x" "x \<le> INT_MAX" "0 \<le> y" "y \<le> INT_MAX"
    "unread S = concat (map key_bytes ks)" "list_all sendable ks" "27 \<notin> set ks" "length (buffered S) + length ks \<le> 64"
  shows "\<exists>S'. getCursor V S = Some ((x, y), S') \<and> scr (tterm S') = scr (tterm S) \<and> idle (tstatus S') \<and> unread S' = [] \<and>
    fst (get_chars (length (buffered S @ ks)) S') = buffered S @ ks"
  using getCursor_correct [OF assms] assms(1)
    get_chars_buffered [of "(finished (bc CHR ''n'') S ((tterm S)\<lparr>shellStdin := []\<rparr>))\<lparr>buffered := buffered S @ ks\<rparr>" "buffered S @ ks" "[]"]
  by simp

theorem getCursor_answers_witness:
  "\<exists>S'. getCursor gui_screen_t (set_unread [97, 26, 4, 1] example_session) = Some ((1, 0), S') \<and> fst (get_chars 2 S') = [97, 0x104]"
proof -
  have "idle (tstatus (set_unread [97, 26, 4, 1] example_session))"
    "cursor_at gui_screen_t (scr (tterm (set_unread [97, 26, 4, 1] example_session))) 1 0"
    "concat (map key_bytes [97, 0x104]) = [97, 26, 4, 1 :: byte]" "list_all sendable [97, 0x104]"
    by (simp_all add: example_session_def set_unread_def idle_def new_status_def example_defs cursor_at_def gui_screen_t_def numeral_eq_Suc
        key_bytes_def termkey_bytes_def to_byte_def sendable_def)
  with getCursor_answers [of "set_unread [97, 26, 4, 1] example_session" gui_screen_t 1 0 "[97, 0x104]"]
  show ?thesis by (simp add: example_session_def set_unread_def numeral_2_eq_2 del: get_chars.simps) blast
qed

text \<open>
  C9. The keys of the raw mode: whatever keys are pressed, the program receives exactly their codes, in
  order, the special keys as the values above 256.
\<close>

theorem keys_reach_program:
  assumes "inputMode (tterm S) = 1" "\<not> inputEcho (tterm S)" "unread S = []" "buffered S = []"
    "list_all sendable (List.map_filter (key_code chr) keys)"
  shows "\<exists>T'. terminalInputRoutine V pipe_put chr keys (b, tterm S) = Some (b, T') \<and>
    get_chars (length (List.map_filter (key_code chr) keys)) (S\<lparr>tterm := T'\<rparr>) =
      (List.map_filter (key_code chr) keys, S\<lparr>tterm := T'\<lparr>shellStdin := []\<rparr>\<rparr>)"
proof -
  from raw_keys [OF assms(1,2), of V chr keys b] obtain s where s: "terminalInputRoutine V pipe_put chr keys (b, tterm S) =
    Some (b, (tterm S)\<lparr>scr := s, shellStdin := concat (map key_bytes (List.map_filter (key_code chr) keys))\<rparr>)" using assms(3) by auto
  with get_chars_sent [of "S\<lparr>tterm := (tterm S)\<lparr>scr := s, shellStdin := concat (map key_bytes (List.map_filter (key_code chr) keys))\<rparr>\<rparr>"
    "List.map_filter (key_code chr) keys" "[]"] assms(4,5)
  show ?thesis by (simp add: set_unread_def)
qed

theorem keys_reach_program_witness:
  "\<exists>T'. terminalInputRoutine gui_screen_t pipe_put two_letters [press ''KEY_A'', press ''KEY_ARROW_LEFT''] ([], tterm example_session) = Some ([], T') \<and>
    get_chars 2 (example_session\<lparr>tterm := T'\<rparr>) = ([97, 0x104], example_session\<lparr>tterm := T'\<lparr>shellStdin := []\<rparr>\<rparr>)"
proof -
  have "List.map_filter (key_code two_letters) [press ''KEY_A'', press ''KEY_ARROW_LEFT''] = [97, 0x104]"
    by (simp add: map_filter_simps key_code_def press_def two_letters_def cv_def uv_def)
  with keys_reach_program [of example_session two_letters "[press ''KEY_A'', press ''KEY_ARROW_LEFT'']" gui_screen_t "[]"]
  show ?thesis by (simp add: example_session_def example_terminal_def sendable_def numeral_2_eq_2 del: get_chars.simps)
qed

text \<open>
  The first sequence of a stream is read with parameters that nobody set: the command that clears the
  screen does so only if the memory was zero by chance.  (The shell starts with this command.)
\<close>

theorem first_clear_lost:
  assumes "0 \<le> g" "g * 10 + 2 \<le> INT_MAX"
  shows "map_option snd (process_bytes V W e (27 # lit ''[2J'') (new_status [g, a, b, d] c, T)) =
    (if g = 0 then on_screen (v_clean V) T else Some T)"
proof -
  have "terminalProcessOutput V W e 50 (new_status [g, a, b, d] c\<lparr>status := WITHIN_VT100\<rparr>, T) =
    Some (new_status [g * 10 + 2, a, b, d] c\<lparr>status := WITHIN_VT100, parameterCount := 1\<rparr>, T)"
    using assms process_digit [of "new_status [g, a, b, d] c\<lparr>status := WITHIN_VT100\<rparr>" 50 1 V W e T]
    by (simp add: new_status_def is_digit_def cv_def)
  then show ?thesis
    by (cases "on_screen (v_clean V) T")
      (simp_all add: terminalProcessOutput_def new_status_def cv_def terminalProcessSequenceVt100_def)
qed

theorem first_clear_lost_witness:
  "map_option (lines \<circ> scr \<circ> snd) (process_bytes gui_screen_t pipe_put False (27 # lit ''[2J'') (new_status [7, 0, 0, 0] 0, example_terminal 1 (lit ''x'')))
    = Some [lit ''x'']"
proof -
  have "map_option snd (process_bytes gui_screen_t pipe_put False (27 # lit ''[2J'') (new_status [7, 0, 0, 0] 0, example_terminal 1 (lit ''x'')))
    = Some (example_terminal 1 (lit ''x''))"
    using first_clear_lost [of 7 gui_screen_t pipe_put False 0 0 0 0 "example_terminal 1 (lit ''x'')"] by simp
  then show ?thesis by (auto simp: example_terminal_def example_screen_def)
qed

text \<open>
  The cursor of a window counts its rows from the bottom, but the command "cursor up" subtracts: after
  it, nothing that a program prints appears in the window.
\<close>

theorem cursor_up_loses_text:
  assumes "idle st" "cursor_at gui_screen_t (scr T) x 0" "0 \<le> x" "x \<le> INT_MAX" "1 \<le> n" "n \<le> INT_MAX" "list_all printable cs"
  shows "\<exists>st' T'. process_bytes gui_screen_t W False (27 # lit ''['' @ decimal n @ lit ''A'' @ cs) (st, T) = Some (st', T') \<and>
    lines (scr T') = lines (scr T)"
proof -
  let ?T = "T\<lparr>scr := repaint (gui_setCursor x (- n) (scr T))\<rparr>"
  have "process_bytes gui_screen_t W False (27 # lit ''['' @ decimal n @ lit ''A'') (st, T) = Some (st\<lparr>controlCharacter := 65\<rparr>, ?T)"
    using run_sequence(1) [OF assms(1), of "[n]" 65 gui_screen_t W False T] assms final_letter [of 65]
    by (simp add: terminalProcessSequenceVt100_def on_screen_def move_cursor_def cursor_at_def gui_screen_t_def cv_def)
  moreover have "cursor_y (scr ?T) < 0" "lines (scr ?T) = lines (scr T)" "status (st\<lparr>controlCharacter := 65\<rparr>) = STATUS_TEXT"
    using assms(1,5) by (simp_all add: repaint_def gui_setCursor_def idle_def)
  ultimately show ?thesis
    using write_below [of ?T "st\<lparr>controlCharacter := 65\<rparr>" cs W] assms(7)
      process_append [of gui_screen_t W False "27 # lit ''['' @ decimal n @ lit ''A''" cs "(st, T)"] by auto
qed

theorem cursor_up_loses_text_witness:
  "\<exists>st T. process_bytes gui_screen_t pipe_put False (27 # lit ''['' @ decimal 1 @ lit ''Ahello'')
      (new_status [0, 0, 0, 0] 0, example_terminal 1 (lit ''>'')) = Some (st, T) \<and> lines (scr T) = [lit ''>'']"
  using cursor_up_loses_text [of "new_status [0, 0, 0, 0] 0" "example_terminal 1 (lit ''>'')" 1 1 "lit ''hello''" pipe_put]
  by (simp add: idle_def new_status_def example_defs cursor_at_def gui_screen_t_def printable_def cv_def numeral_eq_Suc)

end
