(* ===== verification/Line_Editor.thy ===== *)
theory Line_Editor
  imports Terminal_Client Libgen
begin

text \<open>
  The line editor of the shell: \<open>gshAutocomplete\<close> and \<open>gshReadInputLine\<close> of
  \<open>applications/gsh/src/gosh.cpp\<close>, at the terminal.
\<close>

section \<open>Completion\<close>

text \<open>
  \<open>D\<close> lists the names in a directory, \<open>None\<close> if it cannot be opened.  The start of the name is
  behind the last slash.
\<close>

type_synonym directories = "byte list \<Rightarrow> byte list list option"

definition before_slash :: "byte list \<Rightarrow> byte list" where
  "before_slash xs = rev (tl (dropWhile (\<lambda>c. c \<noteq> slash) (rev xs)))"

definition behind_slash :: "byte list \<Rightarrow> byte list" where
  "behind_slash xs = rev (takeWhile (\<lambda>c. c \<noteq> slash) (rev xs))"

definition found_first :: "byte list \<Rightarrow> byte list \<Rightarrow> bool" where
  "found_first xs ys \<longleftrightarrow> take (length xs) ys = xs"

definition gshAutocomplete :: "directories \<Rightarrow> byte list \<Rightarrow> byte list \<Rightarrow> byte list list" where
  "gshAutocomplete D cwd toComplete =
     (let (startDir, prepend, name) =
        (if toComplete \<noteq> [] \<and> hd toComplete = slash then
           (before_slash toComplete, before_slash toComplete @ [slash], behind_slash toComplete)
         else if slash \<in> set toComplete then
           (cwd @ slash # before_slash toComplete, before_slash toComplete @ [slash], behind_slash toComplete)
         else (cwd, [], toComplete)) in
      case D startDir of
        None \<Rightarrow> []
      | Some names \<Rightarrow>
          map (\<lambda>entname. prepend @ entname @ (if D (startDir @ slash # entname) \<noteq> None then [slash] else []))
            (filter (found_first name) names))"

section \<open>Editing\<close>

text \<open>
  The line, the caret and the terminal.  An access of the string behind its end throws; nothing catches
  the exception, and it is \<open>None\<close>.
\<close>

type_synonym 's editor = "byte list \<times> nat \<times> 's session"

fun removes :: "'s screen_t \<Rightarrow> nat \<Rightarrow> 's session \<Rightarrow> 's session option" where
  "removes V 0 S = Some S"
| "removes V (Suc n) S = do { S \<leftarrow> client_remove V S; removes V n S }"

definition at :: "byte list \<Rightarrow> nat \<Rightarrow> byte option" where
  "at line i = (if i < length line then Some (line ! i) else None)"

definition substr :: "nat \<Rightarrow> byte list \<Rightarrow> byte list option" where
  "substr i line = (if i \<le> length line then Some (drop i line) else None)"

definition edit_backspace :: "'s screen_t \<Rightarrow> 's editor \<Rightarrow> 's editor option" where
  "edit_backspace V x = (case x of (line, caret, S) \<Rightarrow>
     if length line > 0 \<and> caret > 0 then do {
       deleted \<leftarrow> at line (caret - 1);
       (pos, S) \<leftarrow> getCursor V S;
       afterCaret \<leftarrow> substr caret line;
       let line = take (caret - 1) line @ afterCaret;
       let caret = caret - 1;
       let n = (if deleted = 9 then 4 else 1);
       let pos = (fst pos - int n, snd pos);
       S \<leftarrow> setCursor V pos S;
       S \<leftarrow> client_write V afterCaret S;
       S \<leftarrow> removes V n S;
       S \<leftarrow> setCursor V pos S;
       Some (line, caret, S)
     } else Some (line, caret, S))"

definition edit_complete :: "'s screen_t \<Rightarrow> directories \<Rightarrow> byte list \<Rightarrow> 's editor \<Rightarrow> 's editor option" where
  "edit_complete V D cwd x = (case x of (line, caret, S) \<Rightarrow> do {
     let beforeCaret = take caret line;
     afterCaret \<leftarrow> substr caret line;
     let toComplete = rev (takeWhile (\<lambda>c. c \<noteq> 32) (rev beforeCaret));
     (case gshAutocomplete D cwd toComplete of
       [completion] \<Rightarrow> do {
         let caret = caret - length toComplete;
         let line = take caret line @ completion @ afterCaret;
         S \<leftarrow> moveCursorBack V (s32 (int (length toComplete))) S;
         (pos, S) \<leftarrow> getCursor V S;
         let caret = caret + length completion;
         let pos = (fst pos + int (length completion), snd pos);
         S \<leftarrow> client_write V (completion @ afterCaret) S;
         S \<leftarrow> setCursor V pos S;
         Some (line, caret, S)
       }
     | _ \<Rightarrow> Some (line, caret, S))
   })"

definition edit_left :: "'s screen_t \<Rightarrow> 's editor \<Rightarrow> 's editor option" where
  "edit_left V x = (case x of (line, caret, S) \<Rightarrow>
     if caret > 0 then do {
       beforeCaret \<leftarrow> at line (caret - 1);
       S \<leftarrow> moveCursorBack V (if beforeCaret = 9 then 4 else 1) S;
       Some (line, caret - 1, S)
     } else Some (line, caret, S))"

definition edit_right :: "'s screen_t \<Rightarrow> 's editor \<Rightarrow> 's editor option" where
  "edit_right V x = (case x of (line, caret, S) \<Rightarrow>
     if caret < length line then do {
       atCaret \<leftarrow> at line caret;
       S \<leftarrow> moveCursorForward V (if atCaret = 9 then 4 else 1) S;
       Some (line, caret + 1, S)
     } else Some (line, caret, S))"

definition edit_insert :: "'s screen_t \<Rightarrow> byte \<Rightarrow> 's editor \<Rightarrow> 's editor option" where
  "edit_insert V c x = (case x of (line, caret, S) \<Rightarrow> do {
     (pos, S) \<leftarrow> getCursor V S;
     S \<leftarrow> client_write V [c] S;
     afterCaret \<leftarrow> substr caret line;
     let line = take caret line @ c # afterCaret;
     let caret = caret + 1;
     let pos = (fst pos + 1, snd pos);
     S \<leftarrow> setCursor V pos S;
     S \<leftarrow> client_write V afterCaret S;
     S \<leftarrow> setCursor V pos S;
     Some (line, caret, S)
   })"

text \<open>One pass of the loop with a code other than -1 and enter.\<close>

definition edit_key :: "'s screen_t \<Rightarrow> directories \<Rightarrow> byte list \<Rightarrow> int \<Rightarrow> 's editor \<Rightarrow> 's editor option" where
  "edit_key V D cwd c x =
     (if c = G_TERMKEY_BACKSPACE then edit_backspace V x
      else if c = 9 \<or> c = G_TERMKEY_STAB then edit_complete V D cwd x
      else if c = G_TERMKEY_LEFT then edit_left V x
      else if c = G_TERMKEY_RIGHT then edit_right V x
      else if c < 0x100 then edit_insert V (to_byte c) x
      else Some x)"

partial_function (option) edit_loop ::
    "'s screen_t \<Rightarrow> directories \<Rightarrow> byte list \<Rightarrow> 's editor \<Rightarrow> (bool \<times> byte list \<times> 's session) option" where
  "edit_loop V D cwd x = (case x of (line, caret, S) \<Rightarrow>
     (case getChar S of (c, S) \<Rightarrow>
       if c = - 1 then Some (False, line, S)
       else if c = G_TERMKEY_ENTER then do { S \<leftarrow> client_write V [10] S; Some (True, line, S) }
       else do { x \<leftarrow> edit_key V D cwd c (line, caret, S); edit_loop V D cwd x }))"

definition gshReadInputLine ::
    "'s screen_t \<Rightarrow> directories \<Rightarrow> byte list \<Rightarrow> byte list \<Rightarrow> 's session \<Rightarrow> (bool \<times> byte list \<times> 's session) option" where
  "gshReadInputLine V D cwd line S = do {
     S \<leftarrow> setMode V G_TERMINAL_MODE_RAW S;
     S \<leftarrow> setEcho V False S;
     edit_loop V D cwd (line, 0, S)
   }"

section \<open>Reference\<close>

text \<open>A text with a caret: what is before it and what is behind it.\<close>

fun ref_edit :: "int \<Rightarrow> byte list \<times> byte list \<Rightarrow> byte list \<times> byte list" where
  "ref_edit c (l, r) =
     (if c = G_TERMKEY_BACKSPACE then (butlast l, r)
      else if c = G_TERMKEY_LEFT then (if l = [] then (l, r) else (butlast l, last l # r))
      else if c = G_TERMKEY_RIGHT then (case r of [] \<Rightarrow> (l, r) | d # r \<Rightarrow> (l @ [d], r))
      else (l @ [to_byte c], r))"

definition ref_line :: "int list \<Rightarrow> byte list \<times> byte list" where
  "ref_line cs = fold ref_edit cs ([], [])"

definition edit_code :: "int \<Rightarrow> bool" where
  "edit_code c \<longleftrightarrow> c = G_TERMKEY_BACKSPACE \<or> c = G_TERMKEY_LEFT \<or> c = G_TERMKEY_RIGHT \<or> (32 \<le> c \<and> c \<le> 126)"

lemma edit_code_sendable: "edit_code c \<Longrightarrow> sendable c \<and> c \<noteq> 27"
  by (auto simp: edit_code_def sendable_def)

lemma printable_edit_code: "printable c \<Longrightarrow> edit_code (uv c)"
proof -
  assume c: "printable c"
  have "uv (to_byte (cv c)) = cv c mod 256" by (rule uv_byte_mod)
  with c show ?thesis by (auto simp: printable_def edit_code_def)
qed

lemma edit_code_printable: "edit_code c \<Longrightarrow> c < 256 \<Longrightarrow> printable (to_byte c)"
proof -
  assume c: "edit_code c" "c < 256"
  then have "signed_take_bit 7 c = c" by (intro signed_take_bit_int_eq_self) (auto simp: edit_code_def)
  then have "cv (to_byte c) = c" by (simp add: cv_def to_byte_def sint_sbintrunc')
  with c show ?thesis by (auto simp: printable_def edit_code_def)
qed

text \<open>The editor with the next \<open>n\<close> keys.\<close>

fun edit_keys :: "'s screen_t \<Rightarrow> directories \<Rightarrow> byte list \<Rightarrow> nat \<Rightarrow> 's editor \<Rightarrow> 's editor option" where
  "edit_keys V D cwd 0 x = Some x"
| "edit_keys V D cwd (Suc n) (line, caret, S) =
     (case getChar S of (c, S) \<Rightarrow> do { x \<leftarrow> edit_key V D cwd c (line, caret, S); edit_keys V D cwd n x })"

lemma ref_edit_keeps:
  "edit_code c \<Longrightarrow> list_all printable (fst z @ snd z) \<Longrightarrow> list_all printable (fst (ref_edit c z) @ snd (ref_edit c z)) \<and>
    length (fst (ref_edit c z)) + length (snd (ref_edit c z)) \<le> length (fst z) + length (snd z) + 1"
proof -
  assume c: "edit_code c" "list_all printable (fst z @ snd z)"
  obtain l r where z: "z = (l, r)" by (cases z)
  have "printable (to_byte c)" if "c \<noteq> G_TERMKEY_BACKSPACE" "c \<noteq> G_TERMKEY_LEFT" "c \<noteq> G_TERMKEY_RIGHT"
    using edit_code_printable [OF c(1)] c(1) that by (auto simp: edit_code_def)
  moreover have "list_all printable (butlast l)" "l \<noteq> [] \<Longrightarrow> printable (last l)"
    using c(2) z by (auto simp: list_all_iff dest: in_set_butlastD)
  ultimately show ?thesis using c(2) z by (auto split: list.split)
qed

section \<open>The terminal under the editor\<close>

text \<open>The keys the program has not read: those buffered by the library and those in the pipe.\<close>

definition pending :: "int list \<Rightarrow> 's session \<Rightarrow> bool" where
  "pending ks S \<longleftrightarrow> (\<exists>r. ks = buffered S @ r \<and> unread S = concat (map key_bytes r)) \<and>
     list_all sendable ks \<and> 27 \<notin> set ks \<and> length ks \<le> 64"

lemma pending_getChar:
  assumes "pending (k # ks) S"
  shows "\<exists>S'. getChar S = (k, S') \<and> pending ks S' \<and> tstatus S' = tstatus S \<and> scr (tterm S') = scr (tterm S)"
proof (cases "buffered S")
  case (Cons b bs)
  with assms show ?thesis by (auto simp: pending_def getChar_def)
next
  case Nil
  with assms have "unread S = key_bytes k @ concat (map key_bytes ks)" "sendable k" by (auto simp: pending_def)
  then have "getChar S = (k, set_unread (concat (map key_bytes ks)) S)" using Nil read_key by (simp add: getChar_def)
  with assms Nil show ?thesis by (auto simp: pending_def set_unread_def)
qed

context screen_row
begin

definition at_row :: "int \<Rightarrow> byte list \<Rightarrow> nat \<Rightarrow> int list \<Rightarrow> 's session \<Rightarrow> bool" where
  "at_row y t x ks S \<longleftrightarrow> idle (tstatus S) \<and> ok (scr (tterm S)) \<and> shows_row (scr (tterm S)) y t \<and>
     cursor_at V (scr (tterm S)) (int x) y \<and> pending ks S"

lemma row_getChar: "at_row y t x (k # ks) S \<Longrightarrow> \<exists>S'. getChar S = (k, S') \<and> at_row y t x ks S'"
  using pending_getChar [of k ks S] by (auto simp: at_row_def)

lemma row_getCursor:
  assumes "at_row y t x ks S" "fits (int x) y"
  shows "\<exists>S'. getCursor V S = Some ((int x, y), S') \<and> at_row y t x ks S'"
proof -
  from assms(1) obtain r where r: "ks = buffered S @ r" "unread S = concat (map key_bytes r)" "list_all sendable r" "27 \<notin> set r"
    "length (buffered S) + length r \<le> 64" by (auto simp: at_row_def pending_def)
  from getCursor_correct [of S V "int x" y r] assms fits_range [OF assms(2)] r
  have "getCursor V S = Some ((int x, y), (finished (bc CHR ''n'') S ((tterm S)\<lparr>shellStdin := []\<rparr>))\<lparr>buffered := buffered S @ r\<rparr>)"
    by (simp add: at_row_def)
  then show ?thesis using assms(1) r(1) by (auto simp: at_row_def pending_def)
qed

lemma row_setCursor:
  assumes "at_row y t x ks S" "fits (int x') y"
  shows "\<exists>S'. setCursor V (int x', y) S = Some S' \<and> at_row y t x' ks S'"
  using assms setCursor_correct [of S "int x'" y V] fits_range [OF assms(2)] set_cursor [of "scr (tterm S)" "int x'" y]
  by (simp add: at_row_def pending_def)

lemma process_printable:
  "status st = STATUS_TEXT \<Longrightarrow> list_all printable cs \<Longrightarrow> write_all cs (scr T) = Some s \<Longrightarrow>
    process_bytes V W False cs (st, T) = Some (st, T\<lparr>scr := s\<rparr>)"
proof (induction cs arbitrary: T)
  case (Cons c cs)
  from Cons.prems(3) obtain s1 where s1: "v_write V c (scr T) = Some s1" "write_all cs s1 = Some s"
    by (auto simp: bind_eq_Some_conv)
  have "c \<noteq> 13" "c \<noteq> 9" "c \<noteq> 27" using Cons.prems(2) printable_plain [of c] by auto
  with Cons.prems(1) s1(1) have "terminalProcessOutput V W False c (st, T) = Some (st, T\<lparr>scr := s1\<rparr>)"
    by (simp add: terminalProcessOutput_def put_text_def)
  then show ?case using Cons.IH [of "T\<lparr>scr := s1\<rparr>"] Cons.prems s1(2) by simp
qed simp

lemma row_write:
  assumes "at_row y t x ks S" "x \<le> length t" "list_all printable cs" "fits (int (max (length t) (x + length cs)) + 1) y"
  shows "\<exists>S'. client_write V cs S = Some S' \<and> at_row y (take x t @ cs @ drop (x + length cs) t) (x + length cs) ks S'"
proof -
  from write_over [of "scr (tterm S)" y t x cs] assms obtain s where s: "write_all cs (scr (tterm S)) = Some s" "ok s"
    "shows_row s y (take x t @ cs @ drop (x + length cs) t)" "cursor_at V s (int (x + length cs)) y" by (auto simp: at_row_def)
  have "status (tstatus S) = STATUS_TEXT" using assms(1) by (simp add: at_row_def idle_def)
  from process_printable [OF this assms(3) s(1)] s assms(1) show ?thesis
    by (simp add: client_write_def at_row_def pending_def)
qed

lemma row_remove:
  assumes "at_row y (t @ [c]) (length t) ks S" "fits (int (length t)) y"
  shows "\<exists>S'. client_remove V S = Some S' \<and> at_row y t (length t) ks S'"
proof -
  from remove [of "scr (tterm S)" y t c] assms obtain s where s: "v_remove V (scr (tterm S)) = Some s" "ok s"
    "shows_row s y t" "cursor_at V s (int (length t)) y" by (auto simp: at_row_def)
  have "client_remove V S = run_ghostterm V 120 [] S"
    using command_0(2) [of S "CHR ''x''" V] assms(1) final_letter [of 120] by (simp add: client_remove_def at_row_def cv_def)
  with s assms(1) show ?thesis
    by (simp add: run_ghostterm_def terminalProcessSequenceGhostterm_def on_screen_def at_row_def pending_def)
qed

lemma row_move:
  assumes "at_row y t x ks S" "fits (int x') y" "fits (int x) y" "int x' = int x + d" "- INT_MAX \<le> d" "d \<le> INT_MAX"
  shows "\<exists>s. move_cursor V d 0 (scr (tterm S)) = Some s \<and> ok s \<and> shows_row s y t \<and> cursor_at V s (int x') y"
proof -
  have c: "v_getCursorX V (scr (tterm S)) = int x" "v_getCursorY V (scr (tterm S)) = y" "ok (scr (tterm S))"
    "shows_row (scr (tterm S)) y t" using assms(1) by (auto simp: at_row_def cursor_at_def)
  note sc = set_cursor [OF c(3) assms(2)]
  from c fits_range [OF assms(2)] assms(4) have "move_cursor V d 0 (scr (tterm S)) = Some (v_flush V (v_setCursor V (int x') y (scr (tterm S))))"
    by (simp add: move_cursor_def)
  then show ?thesis using sc flush [of "v_setCursor V (int x') y (scr (tterm S))"] c(4) by simp
qed

lemma row_back:
  assumes "at_row y t (Suc x) ks S" "fits (int (Suc x)) y"
  shows "\<exists>S'. moveCursorBack V 1 S = Some S' \<and> at_row y t x ks S'"
proof -
  have "fits (int x) y" using fits_less [OF assms(2)] by simp
  from row_move [OF assms(1) this assms(2), of "- 1"] obtain s where s: "move_cursor V (- 1) 0 (scr (tterm S)) = Some s" "ok s"
    "shows_row s y t" "cursor_at V s (int x) y" by auto
  have "moveCursorBack V 1 S = run_vt100 V 68 [1] S"
    using command_1(1) [of S 1 "CHR ''D''" V] assms(1) final_letter [of 68] by (simp add: moveCursorBack_def at_row_def cv_def)
  with s assms(1) show ?thesis
    by (simp add: run_vt100_def terminalProcessSequenceVt100_def on_screen_def at_row_def pending_def)
qed

lemma row_forward:
  assumes "at_row y t x ks S" "fits (int (Suc x)) y"
  shows "\<exists>S'. moveCursorForward V 1 S = Some S' \<and> at_row y t (Suc x) ks S'"
proof -
  have "fits (int x) y" using fits_less [OF assms(2)] by simp
  from row_move [OF assms(1,2) this, of 1] obtain s where s: "move_cursor V 1 0 (scr (tterm S)) = Some s" "ok s"
    "shows_row s y t" "cursor_at V s (int (Suc x)) y" by auto
  have "moveCursorForward V 1 S = run_vt100 V 67 [1] S"
    using command_1(1) [of S 1 "CHR ''C''" V] assms(1) final_letter [of 67] by (simp add: moveCursorForward_def at_row_def cv_def)
  with s assms(1) show ?thesis
    by (simp add: run_vt100_def terminalProcessSequenceVt100_def on_screen_def at_row_def pending_def)
qed

text \<open>One key: the line, the caret and the row follow the reference.\<close>

definition shown :: "byte list \<Rightarrow> int \<Rightarrow> byte list \<times> byte list \<Rightarrow> int list \<Rightarrow> 's session \<Rightarrow> bool" where
  "shown pr y z ks S \<longleftrightarrow> at_row y (pr @ fst z @ snd z) (length pr + length (fst z)) ks S"

lemma insert_shown:
  assumes "shown pr y (l, r) ks S" "printable c" "list_all printable r" "fits (int (length pr + length l + length r + 2)) y"
  shows "\<exists>S'. edit_insert V c (l @ r, length l, S) = Some (l @ c # r, Suc (length l), S') \<and> shown pr y (l @ [c], r) ks S'"
proof -
  let ?x = "length pr + length l"
  have f: "fits (int n) y" if "n \<le> length pr + length l + length r + 2" for n using fits_less [OF assms(4)] that by simp
  have S: "at_row y (pr @ l @ r) ?x ks S" using assms(1) by (simp add: shown_def)
  from row_getCursor [OF S f] obtain S1 where S1: "getCursor V S = Some ((int ?x, y), S1)" "at_row y (pr @ l @ r) ?x ks S1" by auto
  have "fits (int (max (length (pr @ l @ r)) (?x + length [c])) + 1) y" using f [of "Suc (max (length (pr @ l @ r)) (?x + 1))"] by (simp add: add.commute)
  from row_write [OF S1(2) _ _ this] assms(2) obtain S2 where S2: "client_write V [c] S1 = Some S2"
    "at_row y (pr @ l @ c # drop 1 r) (Suc ?x) ks S2" by auto
  from row_setCursor [OF S2(2) f, of "Suc ?x"] obtain S3 where S3: "setCursor V (int ?x + 1, y) S2 = Some S3"
    "at_row y (pr @ l @ c # drop 1 r) (Suc ?x) ks S3" by (auto simp: add.commute)
  let ?t = "pr @ l @ c # drop 1 r"
  have m: "max (length ?t) (Suc ?x + length r) = Suc ?x + length r" by simp
  have "fits (int (max (length ?t) (Suc ?x + length r)) + 1) y"
    unfolding m using f [of "Suc (Suc ?x + length r)"] by (simp add: add.commute)
  from row_write [OF S3(2) _ assms(3) this] obtain S4 where S4: "client_write V r S3 = Some S4"
    "at_row y (pr @ l @ c # r) (Suc ?x + length r) ks S4" by auto
  from row_setCursor [OF S4(2) f, of "Suc ?x"] obtain S5 where S5: "setCursor V (int ?x + 1, y) S4 = Some S5"
    "at_row y (pr @ l @ c # r) (Suc ?x) ks S5" by (auto simp: add.commute)
  from S1 S2 S3 S4 S5 show ?thesis by (simp add: edit_insert_def substr_def shown_def)
qed

lemma backspace_shown:
  assumes "shown pr y (l @ [d], r) ks S" "list_all printable (d # r)" "fits (int (length pr + length l + length r + 2)) y"
  shows "\<exists>S'. edit_backspace V ((l @ [d]) @ r, Suc (length l), S) = Some (l @ r, length l, S') \<and> shown pr y (l, r) ks S'"
proof -
  let ?x = "length pr + length l"
  have f: "fits (int n) y" if "n \<le> length pr + length l + length r + 2" for n using fits_less [OF assms(3)] that by simp
  have S: "at_row y (pr @ l @ d # r) (Suc ?x) ks S" using assms(1) by (simp add: shown_def)
  from row_getCursor [OF S f] obtain S1 where S1: "getCursor V S = Some ((int (Suc ?x), y), S1)" "at_row y (pr @ l @ d # r) (Suc ?x) ks S1" by auto
  from row_setCursor [OF S1(2) f, of ?x] obtain S2 where S2: "setCursor V (int ?x, y) S1 = Some S2" "at_row y (pr @ l @ d # r) ?x ks S2" by auto
  have m: "max (length (pr @ l @ d # r)) (?x + length r) = Suc ?x + length r" by simp
  have "fits (int (max (length (pr @ l @ d # r)) (?x + length r)) + 1) y"
    unfolding m using f [of "Suc (Suc ?x + length r)"] by (simp add: add.commute)
  moreover have "drop (length r) (d # r) = [last (d # r)]" by (induction r arbitrary: d) simp_all
  ultimately obtain S3 where S3: "client_write V r S2 = Some S3"
    "at_row y ((pr @ l @ r) @ [last (d # r)]) (length (pr @ l @ r)) ks S3"
    using row_write [OF S2(2), of r] assms(2) by (auto simp: add.assoc)
  from row_remove [OF S3(2)] f [of "length (pr @ l @ r)"] obtain S4 where S4: "client_remove V S3 = Some S4"
    "at_row y (pr @ l @ r) (length (pr @ l @ r)) ks S4" by auto
  from row_setCursor [OF S4(2) f, of ?x] obtain S5 where S5: "setCursor V (int ?x, y) S4 = Some S5" "at_row y (pr @ l @ r) ?x ks S5" by auto
  have "d \<noteq> 9" using assms(2) printable_plain [of d] by simp
  with S1 S2 S3 S4 S5 show ?thesis by (simp add: edit_backspace_def substr_def at_def shown_def nth_append)
qed

lemma left_shown:
  assumes "shown pr y (l @ [d], r) ks S" "printable d" "fits (int (length pr + length l + length r + 2)) y"
  shows "\<exists>S'. edit_left V ((l @ [d]) @ r, Suc (length l), S) = Some ((l @ [d]) @ r, length l, S') \<and> shown pr y (l, d # r) ks S'"
proof -
  have S: "at_row y (pr @ l @ d # r) (Suc (length pr + length l)) ks S" using assms(1) by (simp add: shown_def)
  have "fits (int (Suc (length pr + length l))) y" using fits_less [OF assms(3)] by simp
  from row_back [OF S this] obtain S1 where "moveCursorBack V 1 S = Some S1" "at_row y (pr @ l @ d # r) (length pr + length l) ks S1" by auto
  moreover have "d \<noteq> 9" using assms(2) printable_plain [of d] by simp
  ultimately show ?thesis by (simp add: edit_left_def at_def shown_def nth_append)
qed

lemma right_shown:
  assumes "shown pr y (l, d # r) ks S" "printable d" "fits (int (length pr + length l + length r + 2)) y"
  shows "\<exists>S'. edit_right V (l @ d # r, length l, S) = Some (l @ d # r, Suc (length l), S') \<and> shown pr y (l @ [d], r) ks S'"
proof -
  have S: "at_row y (pr @ l @ d # r) (length pr + length l) ks S" using assms(1) by (simp add: shown_def)
  have "fits (int (Suc (length pr + length l))) y" using fits_less [OF assms(3)] by simp
  from row_forward [OF S this] obtain S1 where "moveCursorForward V 1 S = Some S1" "at_row y (pr @ l @ d # r) (Suc (length pr + length l)) ks S1" by auto
  moreover have "d \<noteq> 9" using assms(2) printable_plain [of d] by simp
  ultimately show ?thesis by (simp add: edit_right_def at_def shown_def nth_append)
qed

lemma key_shown:
  assumes "shown pr y (l, r) ks S" "edit_code c" "list_all printable (l @ r)" "fits (int (length pr + length l + length r + 2)) y"
  shows "\<exists>S'. edit_key V D cwd c (l @ r, length l, S) =
      Some (fst (ref_edit c (l, r)) @ snd (ref_edit c (l, r)), length (fst (ref_edit c (l, r))), S') \<and>
    shown pr y (ref_edit c (l, r)) ks S'"
proof -
  consider (b) "c = G_TERMKEY_BACKSPACE" | (l) "c = G_TERMKEY_LEFT" | (r) "c = G_TERMKEY_RIGHT" | (i) "32 \<le> c" "c \<le> 126"
    using assms(2) by (auto simp: edit_code_def)
  then show ?thesis
  proof cases
    case b
    show ?thesis
    proof (cases l rule: rev_cases)
      case Nil
      then show ?thesis using b assms(1) by (auto simp: edit_key_def edit_backspace_def)
    next
      case (snoc l' d)
      have "fits (int (length pr + length l' + length r + 2)) y" using fits_less [OF assms(4)] snoc by simp
      then show ?thesis using backspace_shown [of pr y l' d r ks S] b assms(1,3) snoc by (simp add: edit_key_def)
    qed
  next
    case l
    show ?thesis
    proof (cases l rule: rev_cases)
      case Nil
      then show ?thesis using l assms(1) by (auto simp: edit_key_def edit_left_def)
    next
      case (snoc l' d)
      have "fits (int (length pr + length l' + length r + 2)) y" using fits_less [OF assms(4)] snoc by simp
      then show ?thesis using left_shown [of pr y l' d r ks S] l assms(1,3) snoc by (simp add: edit_key_def)
    qed
  next
    case r
    show ?thesis
    proof (cases r)
      case Nil
      then show ?thesis using r assms(1) by (auto simp: edit_key_def edit_right_def)
    next
      case (Cons d r')
      have "fits (int (length pr + length l + length r' + 2)) y" using fits_less [OF assms(4)] Cons by simp
      then show ?thesis using right_shown [of pr y l d r' ks S] r assms(1,3) Cons by (simp add: edit_key_def)
    qed
  next
    case i
    then show ?thesis using insert_shown [OF assms(1), of "to_byte c"] edit_code_printable [OF assms(2)] assms(3,4)
      by (simp add: edit_key_def)
  qed
qed

lemma keys_shown:
  "shown pr y z (cs @ ks) S \<Longrightarrow> list_all edit_code cs \<Longrightarrow> list_all printable (fst z @ snd z) \<Longrightarrow>
    fits (int (length pr + length (fst z) + length (snd z) + length cs + 2)) y \<Longrightarrow>
    \<exists>S'. edit_keys V D cwd (length cs) (fst z @ snd z, length (fst z), S) =
        Some (fst (fold ref_edit cs z) @ snd (fold ref_edit cs z), length (fst (fold ref_edit cs z)), S') \<and>
      edit_loop V D cwd (fst z @ snd z, length (fst z), S) =
        edit_loop V D cwd (fst (fold ref_edit cs z) @ snd (fold ref_edit cs z), length (fst (fold ref_edit cs z)), S') \<and>
      shown pr y (fold ref_edit cs z) ks S'"
proof (induction cs arbitrary: z S)
  case (Cons c cs)
  obtain l r where z: "z = (l, r)" by (cases z)
  have c: "edit_code c" "c \<noteq> - 1" "c \<noteq> G_TERMKEY_ENTER" using Cons.prems(2) by (auto simp: edit_code_def)
  from Cons.prems(1) obtain S1 where S1: "getChar S = (c, S1)" "shown pr y z (cs @ ks) S1"
    using row_getChar [of y _ _ c "cs @ ks" S] by (auto simp: shown_def)
  have "fits (int (length pr + length l + length r + 2)) y" using fits_less [OF Cons.prems(4)] z by simp
  with key_shown [of pr y l r "cs @ ks" S1 c D cwd] S1(2) c(1) Cons.prems(3) z obtain S2 where S2:
    "edit_key V D cwd c (fst z @ snd z, length (fst z), S1) = Some (fst (ref_edit c z) @ snd (ref_edit c z), length (fst (ref_edit c z)), S2)"
    "shown pr y (ref_edit c z) (cs @ ks) S2" by (auto simp del: ref_edit.simps)
  note k = ref_edit_keeps [OF c(1) Cons.prems(3)]
  have "fits (int (length pr + length (fst (ref_edit c z)) + length (snd (ref_edit c z)) + length cs + 2)) y"
    using fits_less [OF Cons.prems(4)] k by simp
  with Cons.IH [OF S2(2)] Cons.prems(2) k obtain S' where S':
    "edit_keys V D cwd (length cs) (fst (ref_edit c z) @ snd (ref_edit c z), length (fst (ref_edit c z)), S2) =
        Some (fst (fold ref_edit cs (ref_edit c z)) @ snd (fold ref_edit cs (ref_edit c z)), length (fst (fold ref_edit cs (ref_edit c z))), S')"
    "edit_loop V D cwd (fst (ref_edit c z) @ snd (ref_edit c z), length (fst (ref_edit c z)), S2) =
        edit_loop V D cwd (fst (fold ref_edit cs (ref_edit c z)) @ snd (fold ref_edit cs (ref_edit c z)), length (fst (fold ref_edit cs (ref_edit c z))), S')"
    "shown pr y (fold ref_edit cs (ref_edit c z)) ks S'" by auto
  have "edit_loop V D cwd (fst z @ snd z, length (fst z), S) =
    edit_loop V D cwd (fst (ref_edit c z) @ snd (ref_edit c z), length (fst (ref_edit c z)), S2)"
    by (subst edit_loop.simps) (simp add: S1(1) S2(1) c)
  then show ?case using S1 S2 S' by (intro exI [of _ S']) simp
qed auto

lemma row_mode:
  assumes "at_row y t x ks S"
  shows "\<exists>S'. setMode V 1 S = Some S' \<and> at_row y t x ks S'" "\<exists>S'. setEcho V e S = Some S' \<and> at_row y t x ks S'"
  using assms setMode_correct [of S 1 V] setEcho_correct [of S V e] by (simp_all add: at_row_def pending_def)

lemma editor_correct:
  assumes "at_row y pr (length pr) (cs @ [G_TERMKEY_ENTER]) S" "list_all edit_code cs" "fits (int (length pr + length cs + 2)) y"
  shows "\<exists>S0 S1 S'. (do { S \<leftarrow> setMode V G_TERMINAL_MODE_RAW S; setEcho V False S }) = Some S0 \<and>
    edit_keys V D cwd (length cs) ([], 0, S0) = Some (fst (ref_line cs) @ snd (ref_line cs), length (fst (ref_line cs)), S1) \<and>
    at_row y (pr @ fst (ref_line cs) @ snd (ref_line cs)) (length pr + length (fst (ref_line cs))) [G_TERMKEY_ENTER] S1 \<and>
    gshReadInputLine V D cwd [] S = Some (True, fst (ref_line cs) @ snd (ref_line cs), S') \<and> pending [] S' \<and>
    idle (tstatus S') \<and> ok (scr (tterm S'))"
proof -
  from row_mode(1) [OF assms(1)] obtain Sm where Sm: "setMode V 1 S = Some Sm" "at_row y pr (length pr) (cs @ [G_TERMKEY_ENTER]) Sm" by auto
  from row_mode(2) [OF Sm(2), of False] obtain S0 where S0: "setEcho V False Sm = Some S0" "at_row y pr (length pr) (cs @ [G_TERMKEY_ENTER]) S0" by auto
  from keys_shown [of pr y "([], [])" cs "[G_TERMKEY_ENTER]" S0 D cwd] S0(2) assms(2,3) obtain S1 where S1:
    "edit_keys V D cwd (length cs) ([], 0, S0) = Some (fst (ref_line cs) @ snd (ref_line cs), length (fst (ref_line cs)), S1)"
    "edit_loop V D cwd ([], 0, S0) = edit_loop V D cwd (fst (ref_line cs) @ snd (ref_line cs), length (fst (ref_line cs)), S1)"
    "shown pr y (ref_line cs) [G_TERMKEY_ENTER] S1" by (auto simp: shown_def ref_line_def)
  from S1(3) row_getChar [of y _ _ G_TERMKEY_ENTER "[]" S1] obtain S2 where S2: "getChar S1 = (G_TERMKEY_ENTER, S2)"
    "at_row y (pr @ fst (ref_line cs) @ snd (ref_line cs)) (length pr + length (fst (ref_line cs))) [] S2" by (auto simp: shown_def)
  from newline [of "scr (tterm S2)"] S2(2) obtain s where s: "v_write V 10 (scr (tterm S2)) = Some s" "ok s" by (auto simp: at_row_def)
  have "client_write V [10] S2 = Some (S2\<lparr>tterm := (tterm S2)\<lparr>scr := s\<rparr>\<rparr>)"
    using s(1) S2(2) by (simp add: client_write_def terminalProcessOutput_def put_text_def at_row_def idle_def)
  then have "edit_loop V D cwd (fst (ref_line cs) @ snd (ref_line cs), length (fst (ref_line cs)), S1) =
    Some (True, fst (ref_line cs) @ snd (ref_line cs), S2\<lparr>tterm := (tterm S2)\<lparr>scr := s\<rparr>\<rparr>)"
    by (subst edit_loop.simps) (simp add: S2(1))
  then show ?thesis using Sm(1) S0(1) S1 S2(2) s(2)
    by (auto simp: gshReadInputLine_def shown_def at_row_def pending_def)
qed

end

section \<open>Properties\<close>

text \<open>
  C3. The line editor of the shell in the terminal window: for every sequence of characters, backspaces
  and arrow keys, typed at any speed, the row shows the prompt and the line with the cursor at the caret
  after these keys, and with enter the line is returned, both as a text with a caret would have it.
\<close>

theorem editor_edits_and_shows:
  assumes "idle (tstatus S)" "gui_shows (scr (tterm S)) y pr" "cursor_at gui_screen_t (scr (tterm S)) (int (length pr)) y"
    "gui_fits (int (length pr + length cs + 2)) y" "buffered S = []"
    "unread S = concat (map key_bytes (cs @ [G_TERMKEY_ENTER]))" "list_all edit_code cs" "length cs < 64"
  shows "\<exists>S0 S1 S'. (do { S \<leftarrow> setMode gui_screen_t G_TERMINAL_MODE_RAW S; setEcho gui_screen_t False S }) = Some S0 \<and>
    edit_keys gui_screen_t D cwd (length cs) ([], 0, S0) = Some (fst (ref_line cs) @ snd (ref_line cs), length (fst (ref_line cs)), S1) \<and>
    gui_shows (scr (tterm S1)) y (pr @ fst (ref_line cs) @ snd (ref_line cs)) \<and>
    cursor_at gui_screen_t (scr (tterm S1)) (int (length pr + length (fst (ref_line cs)))) y \<and>
    gshReadInputLine gui_screen_t D cwd [] S = Some (True, fst (ref_line cs) @ snd (ref_line cs), S')"
proof -
  have "list_all sendable (cs @ [G_TERMKEY_ENTER])" "27 \<notin> set (cs @ [G_TERMKEY_ENTER])"
    using assms(7) edit_code_sendable by (auto simp: list_all_iff sendable_def)
  then have "gui.at_row y pr (length pr) (cs @ [G_TERMKEY_ENTER]) S"
    using assms by (simp add: gui.at_row_def pending_def)
  from gui.editor_correct [OF this assms(7,4), of D cwd] show ?thesis by (auto simp: gui.at_row_def)
qed

theorem editor_edits_and_shows_witness:
  "\<exists>S0 S1 S'. (do { S \<leftarrow> setMode gui_screen_t G_TERMINAL_MODE_RAW (set_unread [97, 26, 4, 1, 98, 26, 0x57, 1] example_session);
        setEcho gui_screen_t False S }) = Some S0 \<and>
    edit_keys gui_screen_t (\<lambda>d. None) [] 3 ([], 0, S0) = Some (lit ''ba'', 1, S1) \<and>
    gui_shows (scr (tterm S1)) 0 (lit ''>ba'') \<and>
    gshReadInputLine gui_screen_t (\<lambda>d. None) [] [] (set_unread [97, 26, 4, 1, 98, 26, 0x57, 1] example_session) = Some (True, lit ''ba'', S')"
proof -
  let ?S = "set_unread [97, 26, 4, 1, 98, 26, 0x57, 1] example_session"
  have "idle (tstatus ?S)" "gui_shows (scr (tterm ?S)) 0 (lit ''>'')" "cursor_at gui_screen_t (scr (tterm ?S)) (int (length (lit ''>''))) 0"
    "gui_fits (int (length (lit ''>'') + length [97, 0x104, 98 :: int] + 2)) 0" "buffered ?S = []"
    "unread ?S = concat (map key_bytes ([97, 0x104, 98] @ [G_TERMKEY_ENTER]))" "list_all edit_code [97, 0x104, 98]"
    by (simp_all add: example_session_def set_unread_def idle_def new_status_def example_defs cursor_at_def gui_screen_t_def numeral_eq_Suc
        key_bytes_def termkey_bytes_def to_byte_def edit_code_def gui_shows_def getLine_def gui_fits_def)
  moreover have "ref_line [97, 0x104, 98] = ([98], [97])" by (simp add: ref_line_def to_byte_def)
  ultimately show ?thesis
    using editor_edits_and_shows [of ?S 0 "lit ''>''" "[97, 0x104, 98]" "\<lambda>d. None" "[]"]
    by (simp add: numeral_3_eq_3 del: edit_keys.simps) blast
qed

end
