(* ===== verification/Shell.thy ===== *)
theory Shell
  imports Shell_Parser Line_Editor "HOL-Library.Multiset"
begin

text \<open>
  The shell (\<open>applications/gsh/src/gosh.cpp\<close>): finding programs, the built-in commands, running a
  pipeline and the main loop, with the terminal it talks to.
\<close>

section \<open>State\<close>

text \<open>
  The kernel and the C library are what they answer: a record of functions of the calls made so far.
  The calls are recorded in order with their results, \<open>g_join\<close> with the process that the terminal controls
  while the shell waits.  \<open>errout\<close> is what was written to \<open>cerr\<close>.
\<close>

datatype call =
    Pipe int int
  | Spawn "byte list" "byte list" "byte list" nat int "int \<times> int \<times> int"
  | Close int
  | Join int int
  | Set_Working_Directory "byte list"
  | Open "byte list" int

record system =
  file_exists :: "call list \<Rightarrow> byte list \<Rightarrow> bool"
  dir_listing :: "call list \<Rightarrow> directories"
  env_PATH :: "byte list option"
  pipe_answer :: "call list \<Rightarrow> int \<times> int \<times> int"
  spawn_answer :: "call list \<Rightarrow> byte list \<Rightarrow> byte list \<Rightarrow> int \<times> int"
  open_answer :: "call list \<Rightarrow> byte list \<Rightarrow> int"
  working_directory :: "call list \<Rightarrow> byte list option"

record 's shell =
  sess :: "'s session"
  calls :: "call list"
  errout :: "byte list"

abbreviation (input) G_FD_NONE :: int where "G_FD_NONE \<equiv> - 1"
abbreviation (input) G_PID_NONE :: int where "G_PID_NONE \<equiv> - 1"
abbreviation (input) STDIN :: int where "STDIN \<equiv> 0"
abbreviation (input) STDOUT :: int where "STDOUT \<equiv> 1"
abbreviation (input) STDERR :: int where "STDERR \<equiv> 2"
abbreviation (input) G_SPAWN_STATUS_SUCCESSFUL :: int where "G_SPAWN_STATUS_SUCCESSFUL \<equiv> 0"
abbreviation (input) G_SPAWN_STATUS_IO_ERROR :: int where "G_SPAWN_STATUS_IO_ERROR \<equiv> 1"
abbreviation (input) G_SPAWN_STATUS_FORMAT_ERROR :: int where "G_SPAWN_STATUS_FORMAT_ERROR \<equiv> 3"
abbreviation (input) G_SPAWN_STATUS_DEPENDENCY_ERROR :: int where "G_SPAWN_STATUS_DEPENDENCY_ERROR \<equiv> 5"
abbreviation (input) G_SECURITY_LEVEL_APPLICATION :: nat where "G_SECURITY_LEVEL_APPLICATION \<equiv> 2"

definition record_call :: "call \<Rightarrow> 's shell \<Rightarrow> 's shell" where
  "record_call c G = G\<lparr>calls := calls G @ [c]\<rparr>"

definition shell_cout :: "'s screen_t \<Rightarrow> byte list \<Rightarrow> 's shell \<Rightarrow> 's shell option" where
  "shell_cout V bs G = do { S \<leftarrow> client_write V bs (sess G); Some (G\<lparr>sess := S\<rparr>) }"

definition shell_cerr :: "byte list \<Rightarrow> 's shell \<Rightarrow> 's shell" where
  "shell_cerr bs G = G\<lparr>errout := errout G @ bs\<rparr>"

definition at_terminal :: "('s session \<Rightarrow> 's session option) \<Rightarrow> 's shell \<Rightarrow> 's shell option" where
  "at_terminal f G = do { S \<leftarrow> f (sess G); Some (G\<lparr>sess := S\<rparr>) }"

section \<open>Finding a program\<close>

text \<open>The directories of the search path are separated by colons; an empty one is the current directory.\<close>

definition path_dir :: "byte list \<Rightarrow> byte list" where
  "path_dir rest = (let dir = takeWhile (\<lambda>c. c \<noteq> bc CHR '':'') rest in if dir = [] then lit ''.'' else dir)"

function search_path :: "(byte list \<Rightarrow> bool) \<Rightarrow> byte list \<Rightarrow> byte list \<Rightarrow> byte list option" where
  "search_path E name rest =
     (let candidate = path_dir rest @ slash # name in
      if E candidate then Some candidate
      else (case dropWhile (\<lambda>c. c \<noteq> bc CHR '':'') rest of [] \<Rightarrow> None | _ # rest \<Rightarrow> search_path E name rest))"
  by pat_completeness auto
termination
proof (relation "measure (\<lambda>(E, name, rest). length rest)", goal_cases)
  case (2 E name rest x c rest')
  have "length (dropWhile (\<lambda>c. c \<noteq> bc CHR '':'') rest) \<le> length rest" by (rule length_dropWhile_le)
  with 2 show ?case by simp
qed simp

declare search_path.simps [simp del]

definition default_path :: "byte list" where
  "default_path = lit ''/system/bin:/system/sbin:/applications''"

definition path_value :: "byte list option \<Rightarrow> byte list" where
  "path_value env = (case env of None \<Rightarrow> default_path | Some p \<Rightarrow> if p = [] then default_path else p)"

definition ends_bin :: "byte list \<Rightarrow> bool" where
  "ends_bin name \<longleftrightarrow> length name \<ge> 4 \<and> drop (length name - 4) name = lit ''.bin''"

function gshFindProgram :: "(byte list \<Rightarrow> bool) \<Rightarrow> byte list option \<Rightarrow> byte list \<Rightarrow> byte list \<Rightarrow> byte list" where
  "gshFindProgram E env cwd name =
     (if E (cwd @ slash # name) then cwd @ slash # name
      else if E name then name
      else if E (lit ''/applications/'' @ name) then lit ''/applications/'' @ name
      else if E (lit ''/system/bin/'' @ name) then lit ''/system/bin/'' @ name
      else if E (lit ''/system/sbin/'' @ name) then lit ''/system/sbin/'' @ name
      else (case search_path E name (path_value env) of
        Some candidate \<Rightarrow> candidate
      | None \<Rightarrow> if \<not> ends_bin name then gshFindProgram E env cwd (name @ lit ''.bin'') else name))"
  by pat_completeness auto
termination
  by (relation "measure (\<lambda>(E, env, cwd, name). if ends_bin name then 0 else 1)") (auto simp: ends_bin_def)

declare gshFindProgram.simps [simp del]

definition find_program :: "system \<Rightarrow> byte list \<Rightarrow> byte list \<Rightarrow> 's shell \<Rightarrow> byte list" where
  "find_program K cwd name G = gshFindProgram (file_exists K (calls G)) (env_PATH K) cwd name"

definition gshSecurityLevelForProgram :: "byte list \<Rightarrow> byte list \<Rightarrow> nat" where
  "gshSecurityLevelForProgram programPath programName = G_SECURITY_LEVEL_APPLICATION"

section \<open>Built-in commands\<close>

text \<open>\<open>Throws\<close> is an exception that nothing catches: the shell is aborted.\<close>

datatype 's outcome = Handled "'s shell" | Not_Builtin | Exits int | Throws | Fault

definition handled :: "'s shell option \<Rightarrow> 's outcome" where
  "handled G = (case G of None \<Rightarrow> Fault | Some G \<Rightarrow> Handled G)"

definition builtin_cd :: "system \<Rightarrow> byte list \<Rightarrow> byte list list \<Rightarrow> 's shell \<Rightarrow> 's shell" where
  "builtin_cd K cwd args G = (case args of
     [a] \<Rightarrow>
       let newdir = (if a \<noteq> [] \<and> hd a = slash then a else cwd @ slash # a) in
       if dir_listing K (calls G) newdir \<noteq> None then record_call (Set_Working_Directory newdir) G
       else
         let fd = open_answer K (calls G) newdir; G = record_call (Open newdir fd) G in
         if fd \<noteq> - 1 then shell_cerr (10 # newdir @ lit '': Not a directory'') (record_call (Close fd) G)
         else shell_cerr (10 # newdir @ lit '': Not found'') G
   | _ \<Rightarrow> shell_cerr (10 # lit ''Usage:'' @ 9 # lit ''cd /path/to/target'') G)"

definition spawn_background :: "system \<Rightarrow> byte list \<Rightarrow> 's shell \<Rightarrow> 's shell" where
  "spawn_background K program G =
     (let (stat, pid) = spawn_answer K (calls G) program [] in
      record_call (Spawn program [] [] (gshSecurityLevelForProgram program program) pid (G_FD_NONE, G_FD_NONE, G_FD_NONE)) G)"

definition gshHandleBuiltin :: "'s screen_t \<Rightarrow> system \<Rightarrow> byte list \<Rightarrow> program_call_t \<Rightarrow> 's shell \<Rightarrow> 's outcome" where
  "gshHandleBuiltin V K cwd c G =
     (if c_program c = lit ''cd'' then Handled (builtin_cd K cwd (c_arguments c) G)
      else if c_program c = lit ''bg'' then
        (case c_arguments c of
           [] \<Rightarrow> Throws
         | a # _ \<Rightarrow> Handled (spawn_background K (find_program K cwd a G) G))
      else if c_program c = lit ''clear'' \<or> c_program c = lit ''cls'' then
        handled (do { G \<leftarrow> at_terminal (client_clear V) G; at_terminal (setCursor V (0, 0)) G })
      else if c_program c = lit ''which'' then
        (case c_arguments c of
           [a] \<Rightarrow> handled (shell_cout V (find_program K cwd a G @ [10]) G)
         | _ \<Rightarrow> Handled (shell_cerr (lit ''Usage:'' @ 9 # lit ''which command'' @ [10]) G))
      else if c_program c = lit ''exit'' then Exits 0
      else Not_Builtin)"

section \<open>Running a pipeline\<close>

text \<open>The arguments of a call as one string, separated by the unit separator.\<close>

fun argument_string :: "byte list list \<Rightarrow> byte list" where
  "argument_string [] = []"
| "argument_string [a] = a"
| "argument_string (a # b # as) = a @ G_CLIARGS_SEPARATOR # argument_string (b # as)"

text \<open>What the loop keeps: the read end of the last pipe, the last process, whether the last call succeeded.\<close>

record run_state =
  lastPipeRead :: int
  tailProcessId :: int
  success :: bool

definition spawn_message :: "int \<Rightarrow> byte list \<Rightarrow> byte list" where
  "spawn_message stat program = 27 # lit ''[31m'' @ program @
     (if stat = G_SPAWN_STATUS_FORMAT_ERROR then lit '': invalid binary format''
      else if stat = G_SPAWN_STATUS_DEPENDENCY_ERROR then lit '': failed to load a dependency''
      else if stat = G_SPAWN_STATUS_IO_ERROR then lit '': command not found''
      else lit '': unknown error during program execution'') @ 10 # 27 # lit ''[0m''"

text \<open>
  One pass of the loop for a call that is not a built-in one; \<open>only_first\<close> is \<open>callIndex == 0\<close>, \<open>final\<close> is
  \<open>callIndex == calls - 1\<close>.  The second result tells whether the loop goes on.  An empty string is passed
  for the paths that the kernel is given as null.
\<close>

definition run_call ::
    "'s screen_t \<Rightarrow> system \<Rightarrow> byte list \<Rightarrow> bool \<Rightarrow> bool \<Rightarrow> program_call_t \<Rightarrow> run_state \<Rightarrow> 's shell \<Rightarrow>
      (bool \<times> run_state \<times> 's shell) option" where
  "run_call V K cwd is_first final c R G = do {
     let args = argument_string (c_arguments c);
     let (pipe_stat, pipeWrite, pipeRead) = (if final then (0, G_FD_NONE, G_FD_NONE) else pipe_answer K (calls G));
     if pipe_stat \<noteq> 0 then
       Some (False, R\<lparr>success := False\<rparr>,
         shell_cerr (lit ''failed to create output pipe when spawning '' @ 39 # c_program c @ [39, 10]) G)
     else do {
       let G = (if final then G else record_call (Pipe pipeWrite pipeRead) G);
       let in_fd = (if is_first then STDIN else lastPipeRead R);
       let out_fd = (if final then STDOUT else pipeWrite);
       let path = find_program K cwd (c_program c) G;
       let level = gshSecurityLevelForProgram path (c_program c);
       let (stat, pid) = spawn_answer K (calls G) path args;
       if stat = G_SPAWN_STATUS_SUCCESSFUL then do {
         let G = record_call (Spawn path args cwd level pid (in_fd, out_fd, STDERR)) G;
         let G = (if pipeWrite \<noteq> G_FD_NONE then record_call (Close pipeWrite) G else G);
         let G = (if lastPipeRead R \<noteq> G_FD_NONE then record_call (Close (lastPipeRead R)) G else G);
         Some (True, R\<lparr>lastPipeRead := pipeRead, tailProcessId := pid, success := True\<rparr>, G)
       } else do {
         G \<leftarrow> shell_cout V (spawn_message stat (c_program c)) G;
         Some (False, R\<lparr>success := False\<rparr>, G)
       }
     }
   }"

fun run_calls ::
    "'s screen_t \<Rightarrow> system \<Rightarrow> byte list \<Rightarrow> bool \<Rightarrow> program_call_t list \<Rightarrow> run_state \<Rightarrow> 's shell \<Rightarrow> (run_state \<times> 's shell) option" where
  "run_calls V K cwd is_first [] R G = Some (R, G)"
| "run_calls V K cwd is_first (c # cs) R G = do {
     (go_on, R, G) \<leftarrow> run_call V K cwd is_first (cs = []) c R G;
     if go_on then run_calls V K cwd False cs R G else Some (R, G)
   }"

definition join_last :: "'s screen_t \<Rightarrow> run_state \<Rightarrow> 's shell \<Rightarrow> 's shell option" where
  "join_last V R G =
     (if success R then do {
        G \<leftarrow> at_terminal (setControlProcess V (tailProcessId R)) G;
        let G = record_call (Join (tailProcessId R) (controlProcess (tterm (sess G)))) G;
        at_terminal (setControlProcess V 0) G
      } else Some G)"

definition run_start :: run_state where
  "run_start = \<lparr>lastPipeRead = G_FD_NONE, tailProcessId = G_PID_NONE, success = False\<rparr>"

definition gshProcessExpression ::
    "'s screen_t \<Rightarrow> system \<Rightarrow> byte list \<Rightarrow> program_call_t list \<Rightarrow> 's shell \<Rightarrow> 's outcome" where
  "gshProcessExpression V K cwd cs G =
     (case (case cs of [c] \<Rightarrow> gshHandleBuiltin V K cwd c G | _ \<Rightarrow> Not_Builtin) of
        Not_Builtin \<Rightarrow> handled (do {
          (R, G) \<leftarrow> run_calls V K cwd True cs run_start G;
          join_last V R G
        })
      | r \<Rightarrow> r)"

section \<open>The main loop\<close>

text \<open>A message of the parser, red; only the unexpected character is written to \<open>cout\<close>.\<close>

definition report_error :: "'s screen_t \<Rightarrow> parse_error \<Rightarrow> 's shell \<Rightarrow> 's shell option" where
  "report_error V e G = do {
     G \<leftarrow> shell_cout V (27 # lit ''[31m'') G;
     G \<leftarrow> (case e of
        Unexpected c \<Rightarrow> shell_cout V (lit ''unexpected character: '' @ [to_byte c, 10]) G
      | Expected_Call n \<Rightarrow> Some (shell_cerr (lit ''syntax error: expected a program call at position: '' @ decimal (int n) @ [10]) G));
     shell_cout V (27 # lit ''[0m'') G
   }"

text \<open>
  One pass of the main loop; \<open>cwdbuf\<close> keeps its content when the working directory cannot be read.  The
  loop ends when the line editor returns false.
\<close>

definition print_prompt :: "'s screen_t \<Rightarrow> system \<Rightarrow> byte list \<Rightarrow> 's shell \<Rightarrow> (byte list \<times> 's shell) option" where
  "print_prompt V K cwdbuf G = do {
     G \<leftarrow> shell_cout V (27 # lit ''[38m'') G;
     let dir = working_directory K (calls G);
     G \<leftarrow> shell_cout V (case dir of Some d \<Rightarrow> d | None \<Rightarrow> lit ''?'') G;
     G \<leftarrow> shell_cout V (lit ''>'') G;
     G \<leftarrow> shell_cout V (27 # lit ''[0m'') G;
     (pos, S) \<leftarrow> getCursor V (sess G);
     S \<leftarrow> setCursor V pos S;
     Some (case dir of Some d \<Rightarrow> d | None \<Rightarrow> cwdbuf, G\<lparr>sess := S\<rparr>)
   }"

definition shell_pass :: "'s screen_t \<Rightarrow> system \<Rightarrow> byte list \<Rightarrow> 's shell \<Rightarrow> (byte list \<times> bool \<times> 's outcome) option" where
  "shell_pass V K cwdbuf G = do {
     (cwdbuf, G) \<leftarrow> print_prompt V K cwdbuf G;
     (more, line, S) \<leftarrow> gshReadInputLine V (dir_listing K (calls G)) cwdbuf [] (sess G);
     let G = G\<lparr>sess := S\<rparr>;
     if \<not> more then Some (cwdbuf, False, Handled G)
     else do {
       G \<leftarrow> at_terminal (setMode V G_TERMINAL_MODE_DEFAULT) G;
       G \<leftarrow> at_terminal (setEcho V True) G;
       (case parse_line line of
          Inl e \<Rightarrow> Some (cwdbuf, True, handled (report_error V e G))
        | Inr cs \<Rightarrow> Some (cwdbuf, True, gshProcessExpression V K cwdbuf cs G))
     }
   }"

text \<open>The passes until the end of the input, \<open>exit\<close> or an abort.\<close>

partial_function (option) shell_loop :: "'s screen_t \<Rightarrow> system \<Rightarrow> byte list \<Rightarrow> 's shell \<Rightarrow> 's outcome option" where
  "shell_loop V K cwdbuf G = do {
     (cwdbuf, more, r) \<leftarrow> shell_pass V K cwdbuf G;
     (case r of Handled G \<Rightarrow> if more then shell_loop V K cwdbuf G else Some r | _ \<Rightarrow> Some r)
   }"

definition gsh_main :: "'s screen_t \<Rightarrow> system \<Rightarrow> byte list \<Rightarrow> 's shell \<Rightarrow> 's outcome option" where
  "gsh_main V K garbage G = do {
     G \<leftarrow> at_terminal (client_clear V) G;
     G \<leftarrow> at_terminal (setCursor V (0, 0)) G;
     shell_loop V K garbage G
   }"

section \<open>The calls of a pipeline\<close>

definition pipes_of :: "call list \<Rightarrow> (int \<times> int) list" where
  "pipes_of h = concat (map (\<lambda>c. case c of Pipe w r \<Rightarrow> [(w, r)] | _ \<Rightarrow> []) h)"

definition closed_of :: "call list \<Rightarrow> int list" where
  "closed_of h = concat (map (\<lambda>c. case c of Close fd \<Rightarrow> [fd] | _ \<Rightarrow> []) h)"

definition programs_of :: "call list \<Rightarrow> (byte list \<times> byte list) list" where
  "programs_of h = concat (map (\<lambda>c. case c of Spawn p a d l pid io \<Rightarrow> [(p, a)] | _ \<Rightarrow> []) h)"

definition pids_of :: "call list \<Rightarrow> int list" where
  "pids_of h = concat (map (\<lambda>c. case c of Spawn p a d l pid io \<Rightarrow> [pid] | _ \<Rightarrow> []) h)"

definition stdio_of :: "call list \<Rightarrow> (int \<times> int \<times> int) list" where
  "stdio_of h = concat (map (\<lambda>c. case c of Spawn p a d l pid io \<Rightarrow> [io] | _ \<Rightarrow> []) h)"

lemmas history_defs = pipes_of_def closed_of_def programs_of_def pids_of_def stdio_of_def

lemma history_append [simp]:
  "pipes_of (h @ k) = pipes_of h @ pipes_of k" "closed_of (h @ k) = closed_of h @ closed_of k"
  "programs_of (h @ k) = programs_of h @ programs_of k" "pids_of (h @ k) = pids_of h @ pids_of k"
  "stdio_of (h @ k) = stdio_of h @ stdio_of k"
  by (simp_all add: history_defs)

text \<open>A system in which every pipe and every process can be created, and the files do not change.\<close>

definition willing :: "system \<Rightarrow> (byte list \<Rightarrow> bool) \<Rightarrow> bool" where
  "willing K E \<longleftrightarrow> file_exists K = (\<lambda>h. E) \<and>
     (\<forall>h. fst (pipe_answer K h) = 0 \<and> fst (snd (pipe_answer K h)) \<noteq> - 1 \<and> snd (snd (pipe_answer K h)) \<noteq> - 1) \<and>
     (\<forall>h p a. fst (spawn_answer K h p a) = 0 \<and> 0 \<le> snd (spawn_answer K h p a) \<and> snd (spawn_answer K h p a) \<le> INT_MAX)"

text \<open>What a pass of the loop adds to the calls.\<close>

lemma run_call_final:
  assumes "willing K E"
  shows "\<exists>pid. run_call V K cwd f True c R G = Some (True, R\<lparr>lastPipeRead := - 1, tailProcessId := pid, success := True\<rparr>,
      G\<lparr>calls := calls G @ Spawn (gshFindProgram E (env_PATH K) cwd (c_program c)) (argument_string (c_arguments c)) cwd 2 pid
        (if f then 0 else lastPipeRead R, 1, 2) # (if lastPipeRead R \<noteq> - 1 then [Close (lastPipeRead R)] else [])\<rparr>) \<and>
    0 \<le> pid \<and> pid \<le> INT_MAX"
proof -
  let ?p = "gshFindProgram E (env_PATH K) cwd (c_program c)" and ?a = "argument_string (c_arguments c)"
  obtain pid where "spawn_answer K (calls G) ?p ?a = (0, pid)" "0 \<le> pid" "pid \<le> INT_MAX"
    using assms unfolding willing_def by (metis prod.collapse)
  then show ?thesis using assms
    by (intro exI [of _ pid]) (simp add: run_call_def willing_def find_program_def record_call_def gshSecurityLevelForProgram_def)
qed

lemma run_call_piped:
  assumes "willing K E"
  shows "\<exists>w r pid. run_call V K cwd f False c R G = Some (True, R\<lparr>lastPipeRead := r, tailProcessId := pid, success := True\<rparr>,
      G\<lparr>calls := calls G @ Pipe w r # Spawn (gshFindProgram E (env_PATH K) cwd (c_program c)) (argument_string (c_arguments c)) cwd 2 pid
        (if f then 0 else lastPipeRead R, w, 2) # Close w # (if lastPipeRead R \<noteq> - 1 then [Close (lastPipeRead R)] else [])\<rparr>) \<and>
    r \<noteq> - 1"
proof -
  let ?p = "gshFindProgram E (env_PATH K) cwd (c_program c)" and ?a = "argument_string (c_arguments c)"
  obtain w r where w: "pipe_answer K (calls G) = (0, w, r)" "w \<noteq> - 1" "r \<noteq> - 1"
    using assms unfolding willing_def by (metis prod.collapse)
  obtain pid where "spawn_answer K (calls G @ [Pipe w r]) ?p ?a = (0, pid)"
    using assms unfolding willing_def by (metis prod.collapse)
  then show ?thesis using assms w
    by (intro exI [of _ w] exI [of _ r] exI [of _ pid]) (simp add: run_call_def willing_def find_program_def record_call_def gshSecurityLevelForProgram_def)
qed

lemma run_calls_wired:
  assumes K: "willing K E"
  shows "cs \<noteq> [] \<Longrightarrow> \<exists>R' h. run_calls V K cwd f cs R G = Some (R', G\<lparr>calls := calls G @ h\<rparr>) \<and> success R' \<and>
    programs_of h = map (\<lambda>c. (gshFindProgram E (env_PATH K) cwd (c_program c), argument_string (c_arguments c))) cs \<and>
    length (pipes_of h) = length cs - 1 \<and>
    stdio_of h = zip ((if f then 0 else lastPipeRead R) # map snd (pipes_of h))
      (zip (map fst (pipes_of h) @ [1]) (replicate (length cs) 2)) \<and>
    mset (closed_of h) = mset (map fst (pipes_of h)) + mset (map snd (pipes_of h)) +
      (if lastPipeRead R \<noteq> - 1 then {#lastPipeRead R#} else {#}) \<and>
    pids_of h \<noteq> [] \<and> tailProcessId R' = last (pids_of h) \<and> 0 \<le> tailProcessId R' \<and> tailProcessId R' \<le> INT_MAX"
proof (induction cs arbitrary: f R G)
  case (Cons c cs)
  show ?case
  proof (cases "cs = []")
    case True
    from run_call_final [OF K, of V cwd f c R G] obtain pid where
      "run_call V K cwd f True c R G = Some (True, R\<lparr>lastPipeRead := - 1, tailProcessId := pid, success := True\<rparr>,
        G\<lparr>calls := calls G @ Spawn (gshFindProgram E (env_PATH K) cwd (c_program c)) (argument_string (c_arguments c)) cwd 2 pid
        (if f then 0 else lastPipeRead R, 1, 2) # (if lastPipeRead R \<noteq> - 1 then [Close (lastPipeRead R)] else [])\<rparr>)"
      "0 \<le> pid" "pid \<le> INT_MAX" by blast
    then show ?thesis using True
      by (intro exI [of _ "R\<lparr>lastPipeRead := - 1, tailProcessId := pid, success := True\<rparr>"]
          exI [of _ "Spawn (gshFindProgram E (env_PATH K) cwd (c_program c)) (argument_string (c_arguments c)) cwd 2 pid
            (if f then 0 else lastPipeRead R, 1, 2) # (if lastPipeRead R \<noteq> - 1 then [Close (lastPipeRead R)] else [])"])
        (simp add: history_defs)
  next
    case False
    from run_call_piped [OF K, of V cwd f c R G] obtain w r pid where c:
      "run_call V K cwd f False c R G = Some (True, R\<lparr>lastPipeRead := r, tailProcessId := pid, success := True\<rparr>,
        G\<lparr>calls := calls G @ Pipe w r # Spawn (gshFindProgram E (env_PATH K) cwd (c_program c)) (argument_string (c_arguments c)) cwd 2 pid
        (if f then 0 else lastPipeRead R, w, 2) # Close w # (if lastPipeRead R \<noteq> - 1 then [Close (lastPipeRead R)] else [])\<rparr>)"
      "r \<noteq> - 1" by blast
    let ?h = "Pipe w r # Spawn (gshFindProgram E (env_PATH K) cwd (c_program c)) (argument_string (c_arguments c)) cwd 2 pid
        (if f then 0 else lastPipeRead R, w, 2) # Close w # (if lastPipeRead R \<noteq> - 1 then [Close (lastPipeRead R)] else [])"
    let ?R = "R\<lparr>lastPipeRead := r, tailProcessId := pid, success := True\<rparr>"
    from Cons.IH [OF False, of False ?R "G\<lparr>calls := calls G @ ?h\<rparr>"] obtain R' h where h:
      "run_calls V K cwd False cs ?R (G\<lparr>calls := calls G @ ?h\<rparr>) = Some (R', G\<lparr>calls := calls G @ ?h\<rparr>\<lparr>calls := calls (G\<lparr>calls := calls G @ ?h\<rparr>) @ h\<rparr>)"
      "success R'" "programs_of h = map (\<lambda>c. (gshFindProgram E (env_PATH K) cwd (c_program c), argument_string (c_arguments c))) cs"
      "length (pipes_of h) = length cs - 1"
      "stdio_of h = zip (r # map snd (pipes_of h)) (zip (map fst (pipes_of h) @ [1]) (replicate (length cs) 2))"
      "mset (closed_of h) = mset (map fst (pipes_of h)) + mset (map snd (pipes_of h)) + {#r#}"
      "pids_of h \<noteq> []" "tailProcessId R' = last (pids_of h)" "0 \<le> tailProcessId R'" "tailProcessId R' \<le> INT_MAX"
      using c(2) by auto
    have p: "pipes_of ?h = [(w, r)]" "programs_of ?h = [(gshFindProgram E (env_PATH K) cwd (c_program c), argument_string (c_arguments c))]"
      "stdio_of ?h = [(if f then 0 else lastPipeRead R, w, 2)]" "closed_of ?h = w # (if lastPipeRead R \<noteq> - 1 then [lastPipeRead R] else [])"
      "pids_of ?h = [pid]" by (auto simp: history_defs)
    have e: "run_calls V K cwd f (c # cs) R G = Some (R', G\<lparr>calls := calls G @ ?h @ h\<rparr>)" using c(1) h(1) False by simp
    show ?thesis unfolding e using h(2-10) p False
      by (intro exI [of _ R'] exI [of _ "?h @ h"], simp add: Suc_diff_Suc del: append_Cons, simp)
  qed
qed simp

definition builtin_name :: "byte list \<Rightarrow> bool" where
  "builtin_name p \<longleftrightarrow> p \<in> {lit ''cd'', lit ''bg'', lit ''clear'', lit ''cls'', lit ''which'', lit ''exit''}"

text \<open>What the calls \<open>h\<close> of a pipeline have to be, up to their order.\<close>

definition pipeline_calls :: "system \<Rightarrow> (byte list \<Rightarrow> bool) \<Rightarrow> byte list \<Rightarrow> program_call_t list \<Rightarrow> call list \<Rightarrow> bool" where
  "pipeline_calls K E cwd cs h \<longleftrightarrow>
     programs_of h = map (\<lambda>c. (gshFindProgram E (env_PATH K) cwd (c_program c), argument_string (c_arguments c))) cs \<and>
     length (pipes_of h) = length cs - 1 \<and>
     stdio_of h = zip (STDIN # map snd (pipes_of h)) (zip (map fst (pipes_of h) @ [STDOUT]) (replicate (length cs) STDERR)) \<and>
     mset (closed_of h) = mset (map fst (pipes_of h)) + mset (map snd (pipes_of h))"

lemma process_correct:
  assumes "willing K E" "cs \<noteq> []" "length cs = 1 \<Longrightarrow> \<not> builtin_name (c_program (hd cs))" "idle (tstatus (sess G))"
  shows "\<exists>h S. gshProcessExpression V K cwd cs G = Handled (G\<lparr>sess := S, calls := calls G @ h @ [Join (last (pids_of h)) (last (pids_of h))]\<rparr>) \<and>
    pipeline_calls K E cwd cs h \<and> tterm S = (tterm (sess G))\<lparr>controlProcess := 0\<rparr>"
proof -
  from run_calls_wired [OF assms(1,2), of V cwd True run_start G] obtain R h where h:
    "run_calls V K cwd True cs run_start G = Some (R, G\<lparr>calls := calls G @ h\<rparr>)" "success R" "pipeline_calls K E cwd cs h"
    "tailProcessId R = last (pids_of h)" "0 \<le> tailProcessId R" "tailProcessId R \<le> INT_MAX"
    by (auto simp: run_start_def pipeline_calls_def)
  have b: "(case cs of [c] \<Rightarrow> gshHandleBuiltin V K cwd c G | _ \<Rightarrow> Not_Builtin) = Not_Builtin"
  proof (cases cs rule: remdups_adj.cases)
    case (2 c)
    then show ?thesis using assms(3) by (simp add: gshHandleBuiltin_def builtin_name_def)
  qed (use assms(2) in simp_all)
  let ?S = "finished (bc CHR ''c'') (sess G) ((tterm (sess G))\<lparr>controlProcess := tailProcessId R\<rparr>)"
  have "setControlProcess V (tailProcessId R) (sess G) = Some ?S"
    using assms(4) h(5,6) by (simp add: setControlProcess_correct)
  moreover have "setControlProcess V 0 ?S = Some (finished (bc CHR ''c'') ?S ((tterm ?S)\<lparr>controlProcess := 0\<rparr>))"
    using assms(4) by (intro setControlProcess_correct) simp_all
  ultimately show ?thesis using h b
    by (intro exI [of _ h] exI [of _ "finished (bc CHR ''c'') ?S ((tterm ?S)\<lparr>controlProcess := 0\<rparr>)"])
      (simp add: gshProcessExpression_def join_last_def at_terminal_def record_call_def handled_def)
qed

section \<open>The search for a program\<close>

text \<open>The fields of the search path, and the candidates in the order of their preference.\<close>

fun path_fields :: "byte \<Rightarrow> byte list \<Rightarrow> byte list list" where
  "path_fields sep [] = [[]]"
| "path_fields sep (c # cs) = (if c = sep then [] # path_fields sep cs else (c # hd (path_fields sep cs)) # tl (path_fields sep cs))"

definition candidates :: "byte list option \<Rightarrow> byte list \<Rightarrow> byte list \<Rightarrow> byte list list" where
  "candidates env cwd name =
     [cwd @ slash # name, name, lit ''/applications/'' @ name, lit ''/system/bin/'' @ name, lit ''/system/sbin/'' @ name] @
     map (\<lambda>d. (if d = [] then lit ''.'' else d) @ slash # name) (path_fields (bc CHR '':'') (path_value env))"

lemma path_fields_unfold:
  "path_fields sep xs = takeWhile (\<lambda>c. c \<noteq> sep) xs # (case dropWhile (\<lambda>c. c \<noteq> sep) xs of [] \<Rightarrow> [] | _ # r \<Rightarrow> path_fields sep r)"
  by (induction xs) (auto split: list.split)

lemma search_path_find:
  "search_path E name rest = find E (map (\<lambda>d. (if d = [] then lit ''.'' else d) @ slash # name) (path_fields (bc CHR '':'') rest))"
proof (induction E name rest rule: search_path.induct)
  case (1 E name rest)
  show ?case
  proof (cases "dropWhile (\<lambda>c. c \<noteq> bc CHR '':'') rest")
    case Nil
    show ?thesis
      by (subst search_path.simps, subst path_fields_unfold) (simp only: Nil path_dir_def Let_def list.case list.map find.simps)
  next
    case (Cons c r)
    have u: "path_fields (bc CHR '':'') rest = takeWhile (\<lambda>c. c \<noteq> bc CHR '':'') rest # path_fields (bc CHR '':'') r"
      by (subst path_fields_unfold) (simp only: Cons list.case)
    have s: "search_path E name rest =
      (if E (path_dir rest @ slash # name) then Some (path_dir rest @ slash # name) else search_path E name r)"
      by (subst search_path.simps) (simp only: Cons list.case Let_def)
    show ?thesis unfolding u s using 1 [OF refl _ Cons] by (simp add: path_dir_def Let_def)
  qed
qed

lemma find_step: "gshFindProgram E env cwd name = (case find E (candidates env cwd name) of
    Some p \<Rightarrow> p
  | None \<Rightarrow> if ends_bin name then name else gshFindProgram E env cwd (name @ lit ''.bin''))"
  by (subst gshFindProgram.simps) (simp add: candidates_def search_path_find)

lemma bin_ends [simp]: "ends_bin (name @ [46, 98, 105, 110])"
  by (simp add: ends_bin_def)

section \<open>One pass of the shell\<close>

context screen_row
begin

text \<open>A colour command between the characters leaves the row alone.\<close>

lemma row_colour:
  assumes "at_row y t x ks S" "0 \<le> p" "p \<le> INT_MAX"
  shows "\<exists>S'. client_write V (27 # 91 # decimal p @ [109]) S = Some S' \<and> at_row y t x ks S'"
proof -
  have i: "idle (tstatus S)" "ok (scr (tterm S))" using assms(1) by (simp_all add: at_row_def)
  let ?s = "vt100_mode V p (scr (tterm S))"
  have "client_write V (27 # 91 # decimal p @ [109]) S = run_vt100 V 109 [p] S"
    using client_write_sequence(1) [OF i(1), of "[p]" 109 V] assms(2,3) final_letter [of 109] by (simp add: cv_def)
  also have "\<dots> = Some (finished 109 S ((tterm S)\<lparr>scr := ?s\<rparr>))"
    by (simp add: run_vt100_def terminalProcessSequenceVt100_def on_screen_def)
  finally have w: "client_write V (27 # 91 # decimal p @ [109]) S = Some (finished 109 S ((tterm S)\<lparr>scr := ?s\<rparr>))" .
  have "ok ?s \<and> cursor_at V ?s = cursor_at V (scr (tterm S)) \<and> shows_row ?s = shows_row (scr (tterm S))"
    using i(2) background [OF i(2)] foreground by (simp add: vt100_mode_def)
  then show ?thesis using w assms(1) by (simp add: at_row_def pending_def)
qed

lemma prompt_shown:
  assumes "at_row y [] 0 ks (sess G)" "working_directory K (calls G) = Some d" "list_all printable d" "fits (int (length d + 2)) y"
  shows "\<exists>S. print_prompt V K cwdbuf G = Some (d, G\<lparr>sess := S\<rparr>) \<and> at_row y (d @ lit ''>'') (length d + 1) ks S"
proof -
  have f: "fits (int n) y" if "n \<le> length d + 2" for n using fits_less [OF assms(4)] that by simp
  have f1: "fits (int (length d) + 1) y" "fits (int (Suc (length d)) + 1) y"
    using f [of "length d + 1"] f [of "length d + 2"] by (simp_all add: add.commute)
  have dec: "decimal 38 = [51, 56]" by (simp add: decimal_def digits_of.simps)
  from row_colour [OF assms(1), of 38] obtain S1 where S1: "client_write V (27 # lit ''[38m'') (sess G) = Some S1" "at_row y [] 0 ks S1"
    by (auto simp: dec)
  from row_write [OF S1(2), of d] assms(3) f1 obtain S2 where S2: "client_write V d S1 = Some S2" "at_row y d (length d) ks S2" by auto
  have p: "list_all printable (lit ''>'')" by (simp add: printable_def cv_def)
  have "fits (int (max (length d) (length d + length (lit ''>''))) + 1) y" using f1(2) by simp
  from row_write [OF S2(2) _ p this] obtain S3 where S3: "client_write V (lit ''>'') S2 = Some S3"
    "at_row y (d @ lit ''>'') (length d + 1) ks S3" by auto
  from row_colour [OF S3(2), of 0] obtain S4 where S4: "client_write V (27 # lit ''[0m'') S3 = Some S4"
    "at_row y (d @ lit ''>'') (length d + 1) ks S4" by (auto simp: decimal_digit)
  from row_getCursor [OF S4(2) f] obtain S5 where S5: "getCursor V S4 = Some ((int (length d + 1), y), S5)"
    "at_row y (d @ lit ''>'') (length d + 1) ks S5" by auto
  from row_setCursor [OF S5(2) f, of "length d + 1"] obtain S6 where S6: "setCursor V (int (length d + 1), y) S5 = Some S6"
    "at_row y (d @ lit ''>'') (length d + 1) ks S6" by auto
  from S1(1) S2(1) S3(1) S4(1) S5(1) S6 assms(2) show ?thesis
    by (intro exI [of _ S6]) (simp add: print_prompt_def shell_cout_def)
qed

lemma pass_correct:
  assumes row: "at_row y [] 0 (map uv line @ [G_TERMKEY_ENTER]) (sess G)"
    and dir: "working_directory K (calls G) = Some d" "list_all printable d" "fits (int (length d + length line + 3)) y"
    and line: "list_all printable line" "line = render cs" "cs \<noteq> []" "\<forall>c\<in>set cs. valid_call c"
      "length cs = 1 \<Longrightarrow> \<not> builtin_name (c_program (hd cs))"
    and K: "willing K E"
  shows "\<exists>h S. shell_pass V K cwdbuf G = Some (d, True, Handled (G\<lparr>sess := S, calls := calls G @ h @ [Join (last (pids_of h)) (last (pids_of h))]\<rparr>)) \<and>
    pipeline_calls K E d cs h \<and> inputMode (tterm S) = 0 \<and> inputEcho (tterm S)"
proof -
  let ?ks = "map uv line"
  have "fits (int (length d + 2)) y" using fits_less [OF dir(3)] by simp
  from prompt_shown [OF row dir(1,2) this] obtain S1 where S1: "print_prompt V K cwdbuf G = Some (d, G\<lparr>sess := S1\<rparr>)"
    "at_row y (d @ lit ''>'') (length (d @ lit ''>'')) (?ks @ [G_TERMKEY_ENTER]) S1" by auto
  have code: "edit_code (uv c) \<and> to_byte (uv c) = c" if "printable c" for c
    using printable_edit_code [OF that] by simp
  have codes: "list_all edit_code ?ks" using line(1) code by (simp add: list_all_iff)
  have "fold ref_edit (map uv l) (l0, []) = (l0 @ l, [])" if "list_all printable l" for l l0
    using that
  proof (induction l arbitrary: l0)
    case (Cons c l)
    have "ref_edit (uv c) (l0, []) = (l0 @ [c], [])" using code [of c] Cons.prems by (auto simp: edit_code_def printable_def uv_range)
      (use uv_range [of c] in simp_all)
    then show ?case using Cons by simp
  qed simp
  from this [OF line(1), of "[]"] have ref: "ref_line ?ks = (line, [])" by (simp add: ref_line_def)
  have "fits (int (length (d @ lit ''>'') + length ?ks + 2)) y" using dir(3) by (simp add: add.commute add.left_commute)
  from editor_correct [OF S1(2) codes this, of "dir_listing K (calls G)" d] obtain S2 where S2:
    "gshReadInputLine V (dir_listing K (calls G)) d [] S1 = Some (True, line, S2)" "idle (tstatus S2)" by (auto simp: ref)
  let ?S3 = "finished (bc CHR ''m'') S2 ((tterm S2)\<lparr>inputMode := 0\<rparr>)"
  let ?S4 = "finished (bc CHR ''e'') ?S3 ((tterm ?S3)\<lparr>inputEcho := True\<rparr>)"
  have S3: "setMode V 0 S2 = Some ?S3" using S2(2) by (simp add: setMode_correct)
  have S4: "setEcho V True ?S3 = Some ?S4" using S2(2) by (intro setEcho_correct) simp
  have "255 \<notin> set line" using line(1) by (auto simp: list_all_iff printable_def cv_def)
  then have parse: "parse_line line = Inr cs" using parse_rendered line(2-4) by simp
  from process_correct [OF K line(3,5), of "G\<lparr>sess := ?S4\<rparr>" V d] S2(2) obtain h S where h:
    "gshProcessExpression V K d cs (G\<lparr>sess := ?S4\<rparr>) = Handled (G\<lparr>sess := ?S4, sess := S, calls := calls G @ h @ [Join (last (pids_of h)) (last (pids_of h))]\<rparr>)"
    "pipeline_calls K E d cs h" "tterm S = (tterm ?S4)\<lparr>controlProcess := 0\<rparr>" by auto
  show ?thesis using S1(1) S2(1) S3 S4 parse h by (intro exI [of _ h] exI [of _ S]) (simp add: shell_pass_def at_terminal_def)
qed

end

section \<open>Arguments\<close>

text \<open>
  The string of the arguments, split where the started program splits it.  An argument can be passed if it has no
  separator and no terminator in it; it is plain if it has no backslash and no quotation mark either.
\<close>

definition passable :: "byte list \<Rightarrow> bool" where
  "passable a \<longleftrightarrow> 0 \<notin> set a \<and> G_CLIARGS_SEPARATOR \<notin> set a"

definition plain_argument :: "byte list \<Rightarrow> bool" where
  "plain_argument a \<longleftrightarrow> (\<forall>c\<in>set a. c \<noteq> bc CHR 0x5C \<and> c \<noteq> bc CHR 0x22)"

lemma unquote_plain: "plain_argument a \<Longrightarrow> unquote False a = a"
  by (induction a) (simp_all add: plain_argument_def)

lemma split_arguments: "\<forall>a\<in>set as. passable a \<Longrightarrow> (as \<noteq> [] \<Longrightarrow> last as \<noteq> []) \<Longrightarrow> split_units (argument_string as) = as"
proof (induction as rule: argument_string.induct)
  case (2 a)
  then show ?case unfolding argument_string.simps by (intro split_on_last) (auto simp: passable_def)
next
  case (3 a b as)
  have "G_CLIARGS_SEPARATOR \<notin> set a" using 3(2) by (auto simp: passable_def)
  then show ?case unfolding argument_string.simps using split_on_rest [of G_CLIARGS_SEPARATOR a "argument_string (b # as)"] 3 by simp
qed simp

lemma argument_string_passable: "\<forall>a\<in>set as. passable a \<Longrightarrow> 0 \<notin> set (argument_string as)"
  by (induction as rule: argument_string.induct) (auto simp: passable_def)

text \<open>
  When a process of a pipeline cannot be started, the pipe to it stays open in the shell and the processes
  before it are not waited for.
\<close>

theorem failed_spawn_leaks:
  assumes "file_exists K = (\<lambda>h. E)" "pipe_answer K (calls G) = (0, w, r)" "w \<noteq> - 1" "r \<noteq> - 1"
    "spawn_answer K (calls G @ [Pipe w r]) (gshFindProgram E (env_PATH K) cwd (c_program c)) (argument_string (c_arguments c)) = (0, pid)"
    "h = [Pipe w r, Spawn (gshFindProgram E (env_PATH K) cwd (c_program c)) (argument_string (c_arguments c)) cwd 2 pid (0, w, 2), Close w]"
    "spawn_answer K (calls G @ h) (gshFindProgram E (env_PATH K) cwd (c_program d)) (argument_string (c_arguments d)) = (stat, pid')"
    "stat \<noteq> 0" "client_write V (spawn_message stat (c_program d)) (sess G) = Some S"
  shows "gshProcessExpression V K cwd [c, d] G = Handled (G\<lparr>calls := calls G @ h, sess := S\<rparr>) \<and> r \<notin> set (closed_of h)
    \<or> r = w"
  using assms
  by (simp add: gshProcessExpression_def run_call_def run_start_def find_program_def record_call_def gshSecurityLevelForProgram_def
      shell_cout_def join_last_def handled_def closed_of_def)

section \<open>An example\<close>

lemma idle_new: "idle (new_status [0, 0, 0, 0] c)"
  by (simp add: idle_def new_status_def numeral_eq_Suc)

definition example_system :: system where
  "example_system = \<lparr>file_exists = (\<lambda>h p. p = lit ''/applications/a'' \<or> p = lit ''b''), dir_listing = (\<lambda>h d. None), env_PATH = None,
     pipe_answer = (\<lambda>h. (0, 10 + int (length h), 11 + int (length h))), spawn_answer = (\<lambda>h p a. (0, 20)), open_answer = (\<lambda>h p. - 1),
     working_directory = (\<lambda>h. Some (lit ''/''))\<rparr>"

definition two_calls :: "program_call_t list" where
  "two_calls = [\<lparr>c_program = lit ''a'', c_arguments = []\<rparr>, \<lparr>c_program = lit ''b'', c_arguments = [lit ''c d'']\<rparr>]"

lemma example_willing: "willing example_system (\<lambda>p. p = lit ''/applications/a'' \<or> p = lit ''b'')"
  by (simp add: willing_def example_system_def)

definition example_shell :: "gui_screen shell" where
  "example_shell = \<lparr>sess = \<lparr>tstatus = new_status [0, 0, 0, 0] 0,
       tterm = (example_terminal 0 [])\<lparr>shellStdin := concat (map key_bytes (map uv (render two_calls) @ [G_TERMKEY_ENTER]))\<rparr>, buffered = []\<rparr>,
     calls = [], errout = []\<rparr>"

section \<open>Properties\<close>

text \<open>
  C2. From the keyboard to the processes: a command line, typed with the keys of its text and enter in the
  terminal window, makes one pass of the shell start exactly the programs it names, with their arguments,
  each reading from the pipe its predecessor writes to, close every end of the pipes once, and wait for the
  last program while the terminal has it as its controlled process; then the terminal collects lines and
  echoes again.
\<close>

theorem shell_runs_typed_line:
  assumes "idle (tstatus (sess G))" "gui_shows (scr (tterm (sess G))) y []" "cursor_at gui_screen_t (scr (tterm (sess G))) 0 y"
    "gui_fits (int (length d + length line + 3)) y" "buffered (sess G) = []"
    "unread (sess G) = concat (map key_bytes (map uv line @ [G_TERMKEY_ENTER]))" "length line < 64"
    "working_directory K (calls G) = Some d" "list_all printable (d @ line)"
    "line = render cs" "cs \<noteq> []" "\<forall>c\<in>set cs. valid_call c" "length cs = 1 \<Longrightarrow> \<not> builtin_name (c_program (hd cs))" "willing K E"
  shows "\<exists>h S. shell_pass gui_screen_t K cwdbuf G = Some (d, True, Handled (G\<lparr>sess := S, calls := calls G @ h @ [Join (last (pids_of h)) (last (pids_of h))]\<rparr>)) \<and>
    pipeline_calls K E d cs h \<and> inputMode (tterm S) = 0 \<and> inputEcho (tterm S)"
proof -
  have k: "sendable (uv c) \<and> uv c \<noteq> 27" if "printable c" for c
    using edit_code_sendable [OF printable_edit_code [OF that]] .
  have "list_all sendable (map uv line @ [G_TERMKEY_ENTER])" "27 \<notin> set (map uv line @ [G_TERMKEY_ENTER])"
    using assms(9) k by (auto simp: list_all_iff) (auto simp: sendable_def)
  then have "gui.at_row y [] 0 (map uv line @ [G_TERMKEY_ENTER]) (sess G)"
    using assms(1-3,5-7) by (simp add: gui.at_row_def pending_def)
  from gui.pass_correct [OF this assms(8) _ assms(4) _ assms(10-14)] assms(9) show ?thesis by simp
qed

theorem shell_runs_typed_line_witness:
  "\<exists>h S. shell_pass gui_screen_t example_system [] example_shell =
      Some (lit ''/'', True, Handled (example_shell\<lparr>sess := S, calls := h @ [Join (last (pids_of h)) (last (pids_of h))]\<rparr>)) \<and>
    programs_of h = [(lit ''/applications/a'', []), (lit ''b'', lit ''c d'')]"
proof -
  let ?E = "\<lambda>p. p = lit ''/applications/a'' \<or> p = lit ''b''"
  have S: "idle (tstatus (sess example_shell))" "buffered (sess example_shell) = []" "calls example_shell = []"
    "unread (sess example_shell) = concat (map key_bytes (map uv (render two_calls) @ [G_TERMKEY_ENTER]))"
    by (simp_all add: example_shell_def idle_new)
  have T: "scr (tterm (sess example_shell)) = example_screen []" by (simp add: example_shell_def example_terminal_def)
  have line: "render two_calls = [97, 32, 124, 32, 98, 32, 34, 99, 32, 100, 34]"
    by (simp add: two_calls_def render_call_def quoted_def escape_def)
  have row: "gui_shows (scr (tterm (sess example_shell))) 0 []" "cursor_at gui_screen_t (scr (tterm (sess example_shell))) 0 0"
    unfolding T by (simp_all add: example_screen_def gui_shows_def getLine_def cursor_at_def gui_screen_t_def)
  have size: "gui_fits (int (length (lit ''/'') + length (render two_calls) + 3)) 0" "length (render two_calls) < 64"
    by (simp_all add: line gui_fits_def)
  have dir: "working_directory example_system (calls example_shell) = Some (lit ''/'')" by (simp add: example_system_def)
  have print: "list_all printable (lit ''/'' @ render two_calls)" by (simp add: line printable_def cv_def)
  have two: "two_calls \<noteq> []" "\<forall>c\<in>set two_calls. valid_call c" "length two_calls = 1 \<Longrightarrow> \<not> builtin_name (c_program (hd two_calls))"
    by (simp_all add: two_calls_def valid_call_def isspace_def cv_def)
  from shell_runs_typed_line [OF S(1) row size(1) S(2,4) size(2) dir print refl two example_willing, of "[]"]
  obtain h S where "shell_pass gui_screen_t example_system [] example_shell =
      Some (lit ''/'', True, Handled (example_shell\<lparr>sess := S, calls := calls example_shell @ h @ [Join (last (pids_of h)) (last (pids_of h))]\<rparr>))"
    "pipeline_calls example_system ?E (lit ''/'') two_calls h" by blast
  moreover have "map (\<lambda>c. (gshFindProgram ?E (env_PATH example_system) (lit ''/'') (c_program c), argument_string (c_arguments c))) two_calls =
      [(lit ''/applications/a'', []), (lit ''b'', lit ''c d'')]"
    by (simp add: two_calls_def gshFindProgram.simps)
  ultimately show ?thesis by (auto simp: example_shell_def pipeline_calls_def)
qed

text \<open>
  C4. Running a pipeline: each program is started with its arguments, standard input the read end of the pipe
  before it and standard output the write end of the pipe behind it; every end of every pipe is closed in the
  shell exactly once; the last process is waited for, and during this call it is the controlled process of the
  terminal, which has none afterwards.
\<close>

theorem pipeline_wired:
  assumes "willing K E" "cs \<noteq> []" "length cs = 1 \<Longrightarrow> \<not> builtin_name (c_program (hd cs))" "idle (tstatus (sess G))"
  shows "\<exists>h S. gshProcessExpression V K cwd cs G = Handled (G\<lparr>sess := S, calls := calls G @ h @ [Join (last (pids_of h)) (last (pids_of h))]\<rparr>) \<and>
    programs_of h = map (\<lambda>c. (gshFindProgram E (env_PATH K) cwd (c_program c), argument_string (c_arguments c))) cs \<and>
    stdio_of h = zip (STDIN # map snd (pipes_of h)) (zip (map fst (pipes_of h) @ [STDOUT]) (replicate (length cs) STDERR)) \<and>
    length (pipes_of h) = length cs - 1 \<and>
    mset (closed_of h) = mset (map fst (pipes_of h)) + mset (map snd (pipes_of h)) \<and> controlProcess (tterm S) = 0"
proof -
  from process_correct [OF assms, of V cwd] obtain h S where
    "gshProcessExpression V K cwd cs G = Handled (G\<lparr>sess := S, calls := calls G @ h @ [Join (last (pids_of h)) (last (pids_of h))]\<rparr>)"
    "pipeline_calls K E cwd cs h" "tterm S = (tterm (sess G))\<lparr>controlProcess := 0\<rparr>" by blast
  then show ?thesis by (intro exI [of _ h] exI [of _ S]) (simp add: pipeline_calls_def)
qed

theorem pipeline_wired_witness:
  "\<exists>h S. gshProcessExpression gui_screen_t example_system [] two_calls example_shell =
      Handled (example_shell\<lparr>sess := S, calls := h @ [Join (last (pids_of h)) (last (pids_of h))]\<rparr>) \<and> length (pipes_of h) = 1 \<and>
    mset (closed_of h) = mset (map fst (pipes_of h)) + mset (map snd (pipes_of h))"
proof -
  have "idle (tstatus (sess example_shell))" by (simp add: example_shell_def idle_new)
  with pipeline_wired [OF example_willing, of two_calls example_shell gui_screen_t "[]"] show ?thesis
    by (simp add: two_calls_def example_shell_def) blast
qed

text \<open>
  C27. Finding a program: the result is the first candidate that exists, of the current directory, the name
  itself, the standard directories and the directories of \<open>PATH\<close> in their order, then of the same places with
  the suffix \<open>.bin\<close>; if there is none, it is the name with the suffix.
\<close>

theorem find_program_first:
  "gshFindProgram E env cwd name =
    (case find E (candidates env cwd name @ (if ends_bin name then [] else candidates env cwd (name @ lit ''.bin''))) of
       Some p \<Rightarrow> p
     | None \<Rightarrow> if ends_bin name then name else name @ lit ''.bin'')"
  unfolding find_append find_step [of E env cwd name] find_step [of E env cwd "name @ lit ''.bin''"]
  by (simp split: option.split)

text \<open>
  C19. The arguments of a call arrive: when the kernel hands the string of the shell over to the program, its
  start-up code makes \<open>argv\<close> of as many arguments as the call has, in their order, if none has a separator in
  it and the last one is not empty.  Each is resolved once more: a backslash protects the character behind it,
  and quotation marks are dropped, although the parser of the shell has done both already.  An argument without
  these two characters arrives as it is.
\<close>

theorem arguments_arrive:
  assumes args: "\<forall>a\<in>set as. passable a" "as \<noteq> [] \<Longrightarrow> last as \<noteq> []" "length (argument_string as) < G_CLIARGS_BUFFER_LENGTH"
    and malloc: "good_malloc malloc" "malloc G_CLIARGS_BUFFER_LENGTH m = (l, m0)" "l \<noteq> NULL"
    and line: "cli_args l m0 = Some (store m0 l (argument_string as @ [0]))"
    and path: "malloc G_PATH_MAX (store m0 l (argument_string as @ [0])) = (p, m1)" "p \<noteq> NULL"
      "exec_path p m1 = Some (store m1 p (d @ slash # w @ [0]))"
      "w \<noteq> []" "slash \<notin> set w" "0 \<notin> set (d @ w)" "length (d @ slash # w) < G_PATH_MAX"
    and name: "malloc (length w + 1) (store m1 p (d @ slash # w @ [0])) = (q, m2)" "q \<noteq> NULL"
    and free: "\<forall>m a. a < p \<or> p + G_PATH_MAX \<le> a \<longrightarrow> free p m a = m a"
    and array: "\<forall>n. array_ok n"
  shows "\<exists>argv m'. parseargs malloc free array_ok cli_args exec_path b m = Some (0, Some (length as + 1, q # argv), m') \<and>
    length argv = length as \<and> str_at m' q w \<and> (\<forall>i<length as. str_at m' (argv ! i) (unquote False (as ! i)) \<and>
      (plain_argument (as ! i) \<longrightarrow> str_at m' (argv ! i) (as ! i)))"
proof -
  have s: "split_units (argument_string as) = as" using args by (intro split_arguments) auto
  have "\<exists>argv m'. parseargs malloc free array_ok cli_args exec_path b m = Some (0, Some (length argv + 1, q # argv), m') \<and>
    length argv = length (split_units (argument_string as)) \<and> str_at m' q w \<and>
    (\<forall>i<length argv. str_at m' (argv ! i) (unquote False (split_units (argument_string as) ! i)))"
    by (rule parseargs_correct [where d = d]) (fact malloc line argument_string_passable [OF args(1)] args(3) path name free array)+
  then obtain argv m' where run: "parseargs malloc free array_ok cli_args exec_path b m = Some (0, Some (length argv + 1, q # argv), m')"
      "length argv = length as" "str_at m' q w" "\<forall>i<length argv. str_at m' (argv ! i) (unquote False (as ! i))"
    unfolding s by blast
  moreover have "\<forall>i<length as. plain_argument (as ! i) \<longrightarrow> str_at m' (argv ! i) (as ! i)"
    using run(2,4) unquote_plain by metis
  ultimately show ?thesis by (intro exI [of _ argv] exI [of _ m']) (simp del: str_at.simps)
qed

theorem arguments_arrive_witness:
  "\<exists>argv m'. parseargs three_malloc (\<lambda>p m. m) (\<lambda>n. True)
      (\<lambda>l m. Some (store m l (argument_string [lit [CHR ''a'', CHR 0x5C, CHR 0x22, CHR 0x22], lit ''| b''] @ [0])))
      (\<lambda>p m. Some (store m p (lit ''/bin'' @ slash # lit ''x'' @ [0]))) 50 Map.empty = Some (0, Some (3, 20000 # argv), m') \<and>
    str_at m' (argv ! 0) (lit [CHR ''a'', CHR 0x22]) \<and> str_at m' (argv ! 1) (lit ''| b'')"
proof -
  let ?as = "[lit [CHR ''a'', CHR 0x5C, CHR 0x22, CHR 0x22], lit ''| b'']"
  let ?m0 = "store Map.empty 1000 (replicate 1024 0)"
  let ?m1 = "store (store ?m0 1000 (argument_string ?as @ [0])) 5000 (replicate 4096 0)"
  have r: "length (argument_string ?as) < 1024" by simp
  note run = three_malloc_run [OF r]
  have c: "three_malloc (length (lit ''x'') + 1) (store ?m1 5000 (lit ''/bin'' @ slash # lit ''x'' @ [0])) =
    (20000, store (store ?m1 5000 (lit ''/bin'' @ slash # lit ''x'' @ [0])) 20000 [0, 0])"
    using run(3) by (simp del: store.simps argument_string.simps add: numeral_2_eq_2)
  have "\<exists>argv m'. parseargs three_malloc (\<lambda>p m. m) (\<lambda>n. True) (\<lambda>l m. Some (store m l (argument_string ?as @ [0])))
      (\<lambda>p m. Some (store m p (lit ''/bin'' @ slash # lit ''x'' @ [0]))) 50 Map.empty = Some (0, Some (length ?as + 1, 20000 # argv), m') \<and>
    length argv = length ?as \<and> str_at m' 20000 (lit ''x'') \<and> (\<forall>i<length ?as. str_at m' (argv ! i) (unquote False (?as ! i)) \<and>
      (plain_argument (?as ! i) \<longrightarrow> str_at m' (argv ! i) (?as ! i)))"
    by (rule arguments_arrive [OF _ _ _ three_malloc_good run(1) _ _ run(2) _ _ _ _ _ _ c]) (simp_all add: passable_def)
  moreover have "unquote False (?as ! 0) = lit [CHR ''a'', CHR 0x22]" "unquote False (?as ! 1) = lit ''| b''" by simp_all
  ultimately show ?thesis by (fastforce simp del: str_at.simps)
qed

end
