(* ===== verification/Net_Packets.thy ===== *)
theory Net_Packets
  imports Printf_Spec
begin

text \<open>
  The packets of \<open>applications/ping/src/ping.cpp\<close>: byte order, the packed structures in a buffer, the
  internet checksum, and addresses as text.  A field of 16 or 32 bits lies in memory with its low byte first,
  as on x86.
\<close>

unbundle bit_operations_syntax

section \<open>Byte order\<close>

definition hostToNetwork16 :: "16 word \<Rightarrow> 16 word" where
  "hostToNetwork16 v = push_bit 8 v OR drop_bit 8 v"

definition hostToNetwork32 :: "32 word \<Rightarrow> 32 word" where
  "hostToNetwork32 v = push_bit 24 v OR push_bit 8 (v AND 0xFF00) OR (drop_bit 8 v AND 0xFF00) OR drop_bit 24 v"

definition networkToHost16 :: "16 word \<Rightarrow> 16 word" where
  "networkToHost16 v = hostToNetwork16 v"

definition networkToHost32 :: "32 word \<Rightarrow> 32 word" where
  "networkToHost32 v = hostToNetwork32 v"

definition bytes16 :: "16 word \<Rightarrow> byte list" where
  "bytes16 v = [ucast v, ucast (drop_bit 8 v)]"

definition bytes32 :: "32 word \<Rightarrow> byte list" where
  "bytes32 v = [ucast v, ucast (drop_bit 8 v), ucast (drop_bit 16 v), ucast (drop_bit 24 v)]"

definition word16_at :: "nat \<Rightarrow> byte list \<Rightarrow> 16 word" where
  "word16_at i d = ucast (d ! i) OR push_bit 8 (ucast (d ! (i + 1)))"

definition word32_at :: "nat \<Rightarrow> byte list \<Rightarrow> 32 word" where
  "word32_at i d = ucast (d ! i) OR push_bit 8 (ucast (d ! (i + 1))) OR push_bit 16 (ucast (d ! (i + 2)))
     OR push_bit 24 (ucast (d ! (i + 3)))"

section \<open>Structures\<close>

text \<open>
  Each structure with its bytes, and the structure that \<open>reinterpret_cast\<close> finds at an offset of a
  buffer; \<open>None\<close> is a read outside the buffer.
\<close>

record ethernet_header =
  eth_dest :: "byte list"
  eth_src :: "byte list"
  eth_type :: "16 word"

record arp_packet =
  htype :: "16 word"
  ptype :: "16 word"
  hlen :: byte
  plen :: byte
  oper :: "16 word"
  sha :: "byte list"
  spa :: "32 word"
  tha :: "byte list"
  tpa :: "32 word"

record ipv4_header =
  versionAndHeaderLength :: byte
  dscpEcn :: byte
  totalLength :: "16 word"
  identification :: "16 word"
  flagsAndFragment :: "16 word"
  ttl :: byte
  protocol :: byte
  headerChecksum :: "16 word"
  ip_source :: "32 word"
  ip_dest :: "32 word"

record icmp_echo =
  icmp_type :: byte
  icmp_code :: byte
  icmp_checksum :: "16 word"
  icmp_identifier :: "16 word"
  icmp_sequence :: "16 word"
  payload :: "byte list"

definition ethernet_bytes :: "ethernet_header \<Rightarrow> byte list" where
  "ethernet_bytes e = eth_dest e @ eth_src e @ bytes16 (eth_type e)"

definition arp_bytes :: "arp_packet \<Rightarrow> byte list" where
  "arp_bytes a = bytes16 (htype a) @ bytes16 (ptype a) @ [hlen a, plen a] @ bytes16 (oper a) @
     sha a @ bytes32 (spa a) @ tha a @ bytes32 (tpa a)"

definition ipv4_bytes :: "ipv4_header \<Rightarrow> byte list" where
  "ipv4_bytes h = [versionAndHeaderLength h, dscpEcn h] @ bytes16 (totalLength h) @ bytes16 (identification h) @
     bytes16 (flagsAndFragment h) @ [ttl h, protocol h] @ bytes16 (headerChecksum h) @
     bytes32 (ip_source h) @ bytes32 (ip_dest h)"

definition icmp_bytes :: "icmp_echo \<Rightarrow> byte list" where
  "icmp_bytes p = [icmp_type p, icmp_code p] @ bytes16 (icmp_checksum p) @ bytes16 (icmp_identifier p) @
     bytes16 (icmp_sequence p) @ payload p"

definition ethernet_at :: "nat \<Rightarrow> byte list \<Rightarrow> ethernet_header option" where
  "ethernet_at i d = (if i + 14 \<le> length d then
     Some \<lparr>eth_dest = take 6 (drop i d), eth_src = take 6 (drop (i + 6) d), eth_type = word16_at (i + 12) d\<rparr> else None)"

definition arp_at :: "nat \<Rightarrow> byte list \<Rightarrow> arp_packet option" where
  "arp_at i d = (if i + 28 \<le> length d then
     Some \<lparr>htype = word16_at i d, ptype = word16_at (i + 2) d, hlen = d ! (i + 4), plen = d ! (i + 5),
       oper = word16_at (i + 6) d, sha = take 6 (drop (i + 8) d), spa = word32_at (i + 14) d,
       tha = take 6 (drop (i + 18) d), tpa = word32_at (i + 24) d\<rparr> else None)"

definition ipv4_at :: "nat \<Rightarrow> byte list \<Rightarrow> ipv4_header option" where
  "ipv4_at i d = (if i + 20 \<le> length d then
     Some \<lparr>versionAndHeaderLength = d ! i, dscpEcn = d ! (i + 1), totalLength = word16_at (i + 2) d,
       identification = word16_at (i + 4) d, flagsAndFragment = word16_at (i + 6) d, ttl = d ! (i + 8),
       protocol = d ! (i + 9), headerChecksum = word16_at (i + 10) d, ip_source = word32_at (i + 12) d,
       ip_dest = word32_at (i + 16) d\<rparr> else None)"

definition icmp_at :: "nat \<Rightarrow> byte list \<Rightarrow> icmp_echo option" where
  "icmp_at i d = (if i + 40 \<le> length d then
     Some \<lparr>icmp_type = d ! i, icmp_code = d ! (i + 1), icmp_checksum = word16_at (i + 2) d,
       icmp_identifier = word16_at (i + 4) d, icmp_sequence = word16_at (i + 6) d, payload = take 32 (drop (i + 8) d)\<rparr>
     else None)"

section \<open>Checksum\<close>

text \<open>A byte that is left over is the high byte of the last summand.\<close>

fun checksum_sum :: "byte list \<Rightarrow> 32 word \<Rightarrow> 32 word" where
  "checksum_sum [] s = s"
| "checksum_sum [b] s = s + ucast (push_bit 8 (ucast b) :: 16 word)"
| "checksum_sum (a # b # d) s = checksum_sum d (s + ucast (word16_at 0 [a, b]))"

function checksum_fold :: "32 word \<Rightarrow> 32 word" where
  "checksum_fold s = (if drop_bit 16 s \<noteq> 0 then checksum_fold ((s AND 0xFFFF) + drop_bit 16 s) else s)"
  by pat_completeness auto

definition fold_once :: "32 word \<Rightarrow> 32 word" where
  "fold_once s = (s AND 0xFFFF) + drop_bit 16 s"

lemma fold_once_unat: "unat (fold_once s) = unat s mod 65536 + unat s div 65536"
proof -
  have "s AND 0xFFFF = take_bit 16 s" by (simp add: take_bit_eq_mask mask_numeral)
  then have a: "unat (s AND 0xFFFF) = unat s mod 65536"
    using unsigned_take_bit_eq [of 16 s, where 'a = nat] by (simp add: take_bit_eq_mod)
  have b: "unat (drop_bit 16 s) = unat s div 65536"
    using unat_drop_bit_eq [of 16 s] by (simp add: drop_bit_eq_div)
  have "unat s < 65536 * 65536" using unsigned_less [of s, where 'a = nat] by simp
  then have "unat s div 65536 < 65536" by (simp add: less_mult_imp_div_less)
  then have "unat s mod 65536 + unat s div 65536 < 65536 + 65536" using mod_less_divisor [of 65536 "unat s"] by linarith
  then show ?thesis unfolding fold_once_def using a b by (subst unat_add_lem [THEN iffD1]) simp_all
qed

lemma high_zero: "drop_bit 16 s = (0 :: 32 word) \<longleftrightarrow> unat s < 65536"
proof -
  have "unat (drop_bit 16 s) = unat s div 65536"
    using unat_drop_bit_eq [of 16 s] by (simp add: drop_bit_eq_div)
  then have "drop_bit 16 s = 0 \<longleftrightarrow> unat s div 65536 = 0" by (metis unat_0 unat_eq_zero)
  then show ?thesis by (simp add: div_eq_0_iff)
qed

termination checksum_fold
proof (relation "measure unat", goal_cases)
  case (2 s)
  then have "65536 \<le> unat s" by (simp add: high_zero not_less)
  then have "unat s mod 65536 + unat s div 65536 < unat s"
    using div_mult_mod_eq [of "unat s" 65536] div_greater_zero_iff [of "unat s" 65536] by linarith
  then show ?case using fold_once_unat [of s] by (simp add: fold_once_def)
qed simp

declare checksum_fold.simps [simp del]

definition checksum16 :: "byte list \<Rightarrow> 16 word" where
  "checksum16 d = ucast (NOT (checksum_fold (checksum_sum d 0)))"

section \<open>Round trips of the layout\<close>

lemma swap_swap [simp]: "hostToNetwork16 (hostToNetwork16 v) = v"
  by (rule bit_word_eqI) (auto simp: hostToNetwork16_def bit_simps)

lemma bit_swap32:
  assumes "n < 32"
  shows "bit (hostToNetwork32 v) n = bit v (if n < 8 then n + 24 else if n < 16 then n + 8 else if n < 24 then n - 8 else n - 24)"
proof -
  have m: "0xFF00 = (push_bit 8 (mask 8) :: 32 word)" by (simp add: mask_numeral)
  consider "n < 8" | "8 \<le> n" "n < 16" | "16 \<le> n" "n < 24" | "24 \<le> n" by linarith
  then show ?thesis
    unfolding hostToNetwork32_def m using assms by cases (auto simp: bit_simps add.commute dest: bit_imp_le_length)
qed

lemma swap_swap32 [simp]: "hostToNetwork32 (hostToNetwork32 v) = v"
proof (rule bit_word_eqI)
  fix n assume n: "n < LENGTH(32)"
  then consider "n < 8" | "8 \<le> n" "n < 16" | "16 \<le> n" "n < 24" | "24 \<le> n" by linarith
  then show "bit (hostToNetwork32 (hostToNetwork32 v)) n = bit v n"
    using n by cases (simp_all add: bit_swap32 less_diff_conv2)
qed

lemma join16 [simp]: "ucast (ucast v :: byte) OR push_bit 8 (ucast (ucast (drop_bit 8 v) :: byte)) = (v :: 16 word)"
  by (rule bit_word_eqI) (auto simp: bit_simps)

lemma join32 [simp]: "ucast (ucast v :: byte) OR push_bit 8 (ucast (ucast (drop_bit 8 v) :: byte)) OR
    push_bit 16 (ucast (ucast (drop_bit 16 v) :: byte)) OR push_bit 24 (ucast (ucast (drop_bit 24 v) :: byte)) = (v :: 32 word)"
proof (rule bit_word_eqI)
  fix n assume n: "n < LENGTH(32)"
  then consider "n < 8" | "8 \<le> n" "n < 16" | "16 \<le> n" "n < 24" | "24 \<le> n" by linarith
  then show "bit (ucast (ucast v :: byte) OR push_bit 8 (ucast (ucast (drop_bit 8 v) :: byte)) OR
    push_bit 16 (ucast (ucast (drop_bit 16 v) :: byte)) OR push_bit 24 (ucast (ucast (drop_bit 24 v) :: byte)) :: 32 word) n = bit v n"
    using n by cases (auto simp: bit_simps)
qed

lemma length_bytes [simp]: "length (bytes16 v) = 2" "length (bytes32 w) = 4"
  by (simp_all add: bytes16_def bytes32_def)

lemma six_bytes: "length xs = 6 \<Longrightarrow> \<exists>a b c d e f. xs = [a, b, c, d, e, f]"
  by (auto simp: length_Suc_conv eval_nat_numeral)

lemmas layout = bytes16_def bytes32_def word16_at_def word32_at_def

lemma ethernet_at_bytes:
  assumes "length (eth_dest e) = 6" "length (eth_src e) = 6"
  shows "ethernet_at 0 (ethernet_bytes e @ r) = Some e"
proof -
  obtain a1 a2 a3 a4 a5 a6 where a: "eth_dest e = [a1, a2, a3, a4, a5, a6]" using six_bytes [OF assms(1)] by auto
  obtain b1 b2 b3 b4 b5 b6 where b: "eth_src e = [b1, b2, b3, b4, b5, b6]" using six_bytes [OF assms(2)] by auto
  show ?thesis by (cases e) (use a b in \<open>simp add: ethernet_at_def ethernet_bytes_def layout\<close>)
qed

lemma at_prefix:
  "arp_at (length d + i) (d @ b) = arp_at i b" "ipv4_at (length d + i) (d @ b) = ipv4_at i b"
  "icmp_at (length d + i) (d @ b) = icmp_at i b"
  by (simp_all add: arp_at_def ipv4_at_def icmp_at_def layout nth_append add.assoc numeral_3_eq_3)

lemma arp_at_bytes:
  assumes "length (sha p) = 6" "length (tha p) = 6"
  shows "arp_at 0 (arp_bytes p @ r) = Some p"
proof -
  obtain a1 a2 a3 a4 a5 a6 where a: "sha p = [a1, a2, a3, a4, a5, a6]" using six_bytes [OF assms(1)] by auto
  obtain b1 b2 b3 b4 b5 b6 where b: "tha p = [b1, b2, b3, b4, b5, b6]" using six_bytes [OF assms(2)] by auto
  show ?thesis by (cases p) (use a b in \<open>simp add: arp_at_def arp_bytes_def layout\<close>)
qed

lemma ipv4_at_bytes: "ipv4_at 0 (ipv4_bytes h @ r) = Some h"
  by (cases h) (simp add: ipv4_at_def ipv4_bytes_def layout)

lemma icmp_at_bytes: "length (payload p) = 32 \<Longrightarrow> icmp_at 0 (icmp_bytes p @ r) = Some p"
  by (cases p) (simp add: icmp_at_def icmp_bytes_def layout)

section \<open>The checksum verifies\<close>

text \<open>The sum of the 16-bit words of a buffer, and what folding makes of it.\<close>

fun word_sum :: "byte list \<Rightarrow> nat" where
  "word_sum (a # b # d) = unat (word16_at 0 [a, b]) + word_sum d"
| "word_sum _ = 0"

lemma word_sum_append: "even (length d) \<Longrightarrow> word_sum (d @ e) = word_sum d + word_sum e"
  by (induction d rule: word_sum.induct) auto

lemma word_sum_bound: "word_sum d \<le> 65535 * (length d div 2)"
proof (induction d rule: word_sum.induct)
  case (1 a b d)
  have "unat (word16_at 0 [a, b]) < 65536" using unsigned_less [of "word16_at 0 [a, b]", where 'a = nat] by simp
  then show ?case using 1 by simp
qed simp_all

lemma checksum_sum_correct:
  "even (length d) \<Longrightarrow> unat s + word_sum d < 2 ^ 32 \<Longrightarrow> unat (checksum_sum d s) = unat s + word_sum d"
proof (induction d s rule: checksum_sum.induct)
  case (3 a b d s)
  have "unat (ucast (word16_at 0 [a, b]) :: 32 word) = unat (word16_at 0 [a, b])"
    using unsigned_less [of "word16_at 0 [a, b]", where 'a = nat] by (simp add: unsigned_ucast_eq take_bit_nat_eq_self)
  then have "unat (s + ucast (word16_at 0 [a, b])) = unat s + unat (word16_at 0 [a, b])"
    using 3(3) by (subst unat_add_lem [THEN iffD1]) simp_all
  then show ?case using 3 by simp
qed simp_all

lemma checksum_fold_correct:
  "unat (checksum_fold s) = (if unat s = 0 then 0 else if unat s mod 65535 = 0 then 65535 else unat s mod 65535)"
proof (induction s rule: checksum_fold.induct)
  case (1 s)
  show ?case
  proof (cases "drop_bit 16 s = 0")
    case True
    then have s: "unat s < 65536" by (simp add: high_zero)
    then have "unat s mod 65535 = (if unat s = 65535 then 0 else unat s)" by auto
    then show ?thesis using True by (simp add: checksum_fold.simps)
  next
    case False
    then have s: "65536 \<le> unat s" by (simp add: high_zero)
    let ?t = "unat s mod 65536 + unat s div 65536"
    have "unat s = ?t + 65535 * (unat s div 65536)" using div_mult_mod_eq [of "unat s" 65536] by linarith
    then have m: "unat s mod 65535 = ?t mod 65535" by (metis mod_mult_self2)
    have "?t \<noteq> 0" using s by (simp add: div_eq_0_iff)
    then show ?thesis
      using 1 [OF False] s m by (subst checksum_fold.simps) (simp add: False fold_once_unat [unfolded fold_once_def])
  qed
qed

lemma checksum16_correct:
  assumes "even (length d)" "length d < 131072"
  shows "unat (checksum16 d) = 65535 - (if word_sum d = 0 then 0 else if word_sum d mod 65535 = 0 then 65535 else word_sum d mod 65535)"
proof -
  have "word_sum d < 2 ^ 32" using word_sum_bound [of d] assms(2) by simp
  then have "unat (checksum_sum d 0) = word_sum d" using checksum_sum_correct [OF assms(1), of 0] by simp
  then have f: "unat (checksum_fold (checksum_sum d 0)) =
    (if word_sum d = 0 then 0 else if word_sum d mod 65535 = 0 then 65535 else word_sum d mod 65535)" (is "unat ?f = ?v")
    using checksum_fold_correct [of "checksum_sum d 0"] by simp
  have v: "?v < 65536" using mod_less_divisor [of 65535 "word_sum d"] by (auto split: if_splits)
  have "(ucast (NOT ?f) :: 16 word) = NOT (ucast ?f)"
    by (rule bit_word_eqI) (auto simp: bit_simps)
  moreover have "unat (ucast ?f :: 16 word) = ?v"
    using f v by (simp add: unsigned_ucast_eq take_bit_nat_eq_self)
  moreover have "unat (NOT w) = 65535 - unat w" for w :: "16 word"
  proof -
    have "NOT w = - 1 - w" by (simp add: not_eq_complement)
    moreover have "w \<le> - 1" by (rule word_order.extremum)
    moreover have "unat (- 1 :: 16 word) = 65535" by (simp add: unsigned_minus_1_eq_mask mask_eq_exp_minus_1)
    ultimately show ?thesis by (simp add: unat_sub)
  qed
  ultimately show ?thesis unfolding checksum16_def by simp
qed

text \<open>A receiver that sums up a packet whose checksum field was zero when it was computed gets zero.\<close>

lemma checksum_verifies:
  assumes "even (length a)" "even (length b)" "length a + length b < 131000"
  shows "checksum16 (a @ bytes16 (checksum16 (a @ bytes16 0 @ b)) @ b) = 0"
proof -
  let ?c = "checksum16 (a @ bytes16 0 @ b)"
  let ?S = "word_sum a + word_sum b"
  have w: "word_sum (bytes16 v) = unat v" for v by (simp add: bytes16_def word16_at_def)
  have c: "unat ?c = 65535 - (if ?S = 0 then 0 else if ?S mod 65535 = 0 then 65535 else ?S mod 65535)"
    using checksum16_correct [of "a @ bytes16 0 @ b"] assms by (simp add: word_sum_append w)
  have t: "word_sum (a @ bytes16 ?c @ b) = ?S + unat ?c" using assms by (simp add: word_sum_append w)
  have "(n + (65535 - (if n = 0 then 0 else if n mod 65535 = 0 then 65535 else n mod 65535))) mod 65535 = 0 \<and>
    n + (65535 - (if n = 0 then 0 else if n mod 65535 = 0 then 65535 else n mod 65535)) \<noteq> 0" for n :: nat
  proof (cases "n mod 65535 = 0")
    case False
    have "n + (65535 - n mod 65535) = 65535 * (n div 65535) + 65535"
      using mult_div_mod_eq [of 65535 n] mod_less_divisor [of 65535 n] by linarith
    then show ?thesis using False by (auto simp del: mult_Suc_right)
  qed auto
  from this [of ?S, folded c] have "(?S + unat ?c) mod 65535 = 0 \<and> ?S + unat ?c \<noteq> 0" .
  then have "unat (checksum16 (a @ bytes16 ?c @ b)) = 0"
    using checksum16_correct [of "a @ bytes16 ?c @ b"] assms by (simp add: t)
  then show ?thesis by (simp add: unat_eq_zero)
qed

section \<open>Addresses as text\<close>

definition formatIp :: "mem \<Rightarrow> int \<Rightarrow> 32 word \<Rightarrow> addr \<Rightarrow> nat \<Rightarrow> (int \<times> mem) option" where
  "formatIp m e ip out len = do {
     (_, e, m) \<leftarrow> vsnprintf_lit m e out len (lit ''%u.%u.%u.%u'')
       [VWord (uint (drop_bit 24 ip AND 0xFF)), VWord (uint (drop_bit 16 ip AND 0xFF)),
        VWord (uint (drop_bit 8 ip AND 0xFF)), VWord (uint (ip AND 0xFF))];
     Some (e, m)
   }"

text \<open>The loop over the parts; the inner \<open>None\<close> is \<open>false\<close>.\<close>

fun parse_parts :: "mem \<Rightarrow> addr \<Rightarrow> nat \<Rightarrow> int list \<Rightarrow> (addr \<times> int list) option option" where
  "parse_parts m cursor 0 parts = Some (Some (cursor, parts))"
| "parse_parts m cursor (Suc n) parts = do {
     (val, fin) \<leftarrow> strtol m cursor 10;
     if fin = cursor \<or> val < 0 \<or> val > 255 then Some None
     else if n > 0 then do {
       c \<leftarrow> m fin;
       if c \<noteq> bc CHR ''.'' then Some None else parse_parts m (fin + 1) n (parts @ [val])
     }
     else parse_parts m fin n (parts @ [val])
   }"

definition parseIp :: "mem \<Rightarrow> addr \<Rightarrow> 32 word option option" where
  "parseIp m txt =
     (if txt = NULL then Some None
      else do {
        r \<leftarrow> parse_parts m txt 4 [];
        (case r of
          None \<Rightarrow> Some None
        | Some (cursor, parts) \<Rightarrow> do {
            c \<leftarrow> m cursor;
            Some (if c \<noteq> 0 then None
              else Some (push_bit 24 (word_of_int (parts ! 0)) OR push_bit 16 (word_of_int (parts ! 1)) OR
                push_bit 8 (word_of_int (parts ! 2)) OR word_of_int (parts ! 3)))
          })
      })"

text \<open>The text of an address, and what printing and parsing do with it.\<close>

definition ip_text :: "int \<Rightarrow> int \<Rightarrow> int \<Rightarrow> int \<Rightarrow> byte list" where
  "ip_text a b c d = decimal a @ bc CHR ''.'' # decimal b @ bc CHR ''.'' # decimal c @ bc CHR ''.'' # decimal d"

lemma int_text_unsigned:
  "0 \<le> v \<Longrightarrow> v \<le> 255 \<Longrightarrow> int_text no_flags 0 (bc CHR ''u'') False (u32 v) = decimal v"
  by (simp add: int_text_def padded_def decimal_def Let_def pf_base_def int_prefix_def sign_of_def no_flags_def u32_id)

lemma vcb_u:
  "0 \<le> x \<Longrightarrow> x \<le> 255 \<Longrightarrow> vcbprintf collect (bc CHR ''%'' # bc CHR ''u'' # s) (VWord x # args) (after out e m)
    = vcbprintf collect s args (after (out @ decimal x) e m)"
  by (subst vcb_letter) (simp_all add: letter_def pf_directive_def plain_directive_def pf_star_def
      pf_switch_def int_spec_def pf_int_value_def Let_def print_int_text int_text_unsigned [simplified])

lemma ip_printed:
  assumes "0 \<le> a" "a \<le> 255" "0 \<le> b" "b \<le> 255" "0 \<le> c" "c \<le> 255" "0 \<le> d" "d \<le> 255"
  shows "\<exists>r. printed (lit ''%u.%u.%u.%u'') [VWord a, VWord b, VWord c, VWord d] e m = Some (r, ip_text a b c d, e, m)"
  using assms vcb_u [of a "lit ''.%u.%u.%u''" "[VWord b, VWord c, VWord d]" "[]" e m]
    vcb_plain_after [of "bc CHR ''.''" "lit ''%u.%u.%u''" "[VWord b, VWord c, VWord d]" "decimal a" e m]
    vcb_u [of b "lit ''.%u.%u''" "[VWord c, VWord d]" "decimal a @ [bc CHR ''.'']" e m]
    vcb_plain_after [of "bc CHR ''.''" "lit ''%u.%u''" "[VWord c, VWord d]" "decimal a @ bc CHR ''.'' # decimal b" e m]
    vcb_u [of c "lit ''.%u''" "[VWord d]" "decimal a @ bc CHR ''.'' # decimal b @ [bc CHR ''.'']" e m]
    vcb_plain_after [of "bc CHR ''.''" "lit ''%u''" "[VWord d]" "decimal a @ bc CHR ''.'' # decimal b @ bc CHR ''.'' # decimal c" e m]
    vcb_u [of d "[]" "[]" "decimal a @ bc CHR ''.'' # decimal b @ bc CHR ''.'' # decimal c @ [bc CHR ''.'']" e m]
  by (simp add: printed_def start_after vcb_nil_after ip_text_def) (simp add: after_def)

lemma strtol_decimal:
  assumes "str_at m p (decimal x @ r)" "0 \<le> x" "x \<le> 255" "r = [] \<or> \<not> dig 10 (hd r)"
  shows "strtol m p 10 = Some (x, p + length (decimal x))"
proof -
  obtain sg ds where n: "decimal x = [] @ sg @ ds @ []" "numeral_ok 10 [] sg ds []"
    "(if sg = [bc CHR ''-''] then - 1 else 1) * numval 10 0 ds = x" using decimal_numeral by blast
  have o: "numeral_ok 10 [] sg ds r" using n(2) assms(4) by (simp add: numeral_ok_def)
  have v: "0 \<le> numval 10 0 ds" using numval_ge [of 10 0 ds] by simp
  then have l: "numval 10 0 ds \<le> LONG_MAX" using n(3) assms(2,3) by (auto split: if_splits)
  have "str_at m p ([] @ sg @ ds @ r)" using assms(1) n(1) by simp
  from strtol_correct [OF this o] l show ?thesis using n by (auto simp: min_absorb1)
qed

lemma decimal_nonzero: "0 \<notin> set (decimal x)" "0 < length (decimal x)"
proof -
  obtain sg ds where "decimal x = [] @ sg @ ds @ []" "numeral_ok 10 [] sg ds []" using decimal_numeral by blast
  then show "0 \<notin> set (decimal x)" "0 < length (decimal x)" by (auto simp: numeral_ok_def sgn_ok_def dig_def)
qed

lemma str_at_suffix: "str_at m p (u @ v) \<Longrightarrow> str_at m (p + length u) v"
  using str_at_drop [of m p "u @ v" "length u"] by simp

lemma after_dot:
  assumes "str_at m p (decimal x @ bc CHR ''.'' # r)"
  shows "m (p + length (decimal x)) = Some (bc CHR ''.'')" "str_at m (p + length (decimal x) + 1) r"
  using str_at_suffix [OF assms] by simp_all

lemma parse_part:
  assumes "strtol m p 10 = Some (v, q)" "q \<noteq> p" "0 \<le> v" "v \<le> 255" "m q = Some (bc CHR ''.'')" "0 < n"
  shows "parse_parts m p (Suc n) ps = parse_parts m (q + 1) n (ps @ [v])"
  using assms by simp

lemma parse_part_dot:
  assumes "str_at m p (decimal x @ bc CHR ''.'' # r)" "0 \<le> x" "x \<le> 255" "0 < n"
  shows "parse_parts m p (Suc n) ps = parse_parts m (p + length (decimal x) + 1) n (ps @ [x])"
proof (rule parse_part)
  have "\<not> dig 10 (bc CHR ''.'')" by (simp add: dig_def strto_digit_def ctype_defs cv_def tolower_def)
  with strtol_decimal [OF assms(1-3)] show "strtol m p 10 = Some (x, p + length (decimal x))" by simp
qed (use assms(2-4) after_dot(1) [OF assms(1)] decimal_nonzero(2) [of x] in auto)

lemma parse_ip_text:
  assumes "str_at m p (ip_text a b c d)" "p \<noteq> NULL"
    and "0 \<le> a" "a \<le> 255" "0 \<le> b" "b \<le> 255" "0 \<le> c" "c \<le> 255" "0 \<le> d" "d \<le> 255"
  shows "parseIp m p = Some (Some (push_bit 24 (word_of_int a) OR push_bit 16 (word_of_int b) OR push_bit 8 (word_of_int c) OR word_of_int d))"
proof -
  note s1 = assms(1) [unfolded ip_text_def]
  note s2 = after_dot(2) [OF s1]
  note s3 = after_dot(2) [OF s2]
  note 1 = parse_part_dot [OF s1 assms(3,4), of 3 "[]"]
  note 2 = parse_part_dot [OF s2 assms(5,6), of 2 "[a]"]
  note 3 = parse_part_dot [OF s3 assms(7,8), of 1 "[a, b]"]
  define q where "q = p + length (decimal a) + 1 + length (decimal b) + 1 + length (decimal c) + 1"
  have q: "str_at m q (decimal d @ [])" using after_dot(2) [OF s3] by (simp add: q_def)
  have "m (q + length (decimal d)) = Some 0" using str_at_suffix [OF q] by simp
  then have 4: "parse_parts m q 1 [a, b, c] = Some (Some (q + length (decimal d), [a, b, c, d]))"
    using strtol_decimal [OF q assms(9,10)] assms(9,10) decimal_nonzero(2) [of d] by simp
  have "parse_parts m p 4 [] = Some (Some (q + length (decimal d), [a, b, c, d]))"
    using 1 2 3 4 by (simp add: q_def eval_nat_numeral)
  then show ?thesis using \<open>m (q + length (decimal d)) = Some 0\<close> assms(2) by (simp add: parseIp_def)
qed

lemma byte_parts:
  "push_bit 24 (drop_bit 24 ip AND 0xFF) OR push_bit 16 (drop_bit 16 ip AND 0xFF) OR push_bit 8 (drop_bit 8 ip AND 0xFF) OR (ip AND 0xFF)
    = (ip :: 32 word)"
proof (rule bit_word_eqI)
  have m: "0xFF = (mask 8 :: 32 word)" by (simp add: mask_numeral)
  fix n assume n: "n < LENGTH(32)"
  then consider "n < 8" | "8 \<le> n" "n < 16" | "16 \<le> n" "n < 24" | "24 \<le> n" by linarith
  then show "bit (push_bit 24 (drop_bit 24 ip AND 0xFF) OR push_bit 16 (drop_bit 16 ip AND 0xFF) OR push_bit 8 (drop_bit 8 ip AND 0xFF) OR (ip AND 0xFF)) n
    = bit ip n"
    unfolding m using n by cases (auto simp: bit_simps)
qed

lemma byte_range: "0 \<le> uint (w AND 0xFF :: 32 word)" "uint (w AND 0xFF :: 32 word) \<le> 255"
proof -
  have "w AND 0xFF = take_bit 8 w" by (simp add: take_bit_eq_mask mask_numeral)
  then have "uint (w AND 0xFF) = take_bit 8 (uint w)" by (simp add: unsigned_take_bit_eq)
  then show "uint (w AND 0xFF) \<le> 255" using take_bit_int_less_exp [of 8 "uint w"] by simp
qed simp

text \<open>A part that is only a sign is a number for \<open>strtol\<close>, so \<open>-.+.-.7\<close> is an address.\<close>

lemma strtol_sign_only:
  assumes "m p = Some c" "m (p + 1) = Some (bc CHR ''.'')" "c = bc CHR ''+'' \<or> c = bc CHR ''-''"
  shows "strtol m p 10 = Some (0, p + 1)"
proof -
  have "\<not> isspace (cv c)" using assms(3) by (auto simp: ctype_defs cv_def)
  then have "strto_skip m p = Some p" using assms(1) by (subst strto_skip.simps) simp
  moreover have "strto_sign m p = Some (c = bc CHR ''-'', p + 1)" using assms by (simp add: strto_sign_def)
  moreover have "strto_digit (bc CHR ''.'') = None" by (simp add: strto_digit_def ctype_defs cv_def)
  then have "strtol_loop m (p + 1) 10 0 = Some (0, p + 1)" using assms(2) by (subst strtol_loop.simps) simp
  ultimately show ?thesis by (simp add: strtol_def strto_base_def s64_id)
qed

theorem sign_is_a_part:
  assumes "p \<noteq> NULL" "m p = Some (bc CHR ''-'')" "m (p + 1) = Some (bc CHR ''.'')" "m (p + 2) = Some (bc CHR ''+'')"
    "m (p + 3) = Some (bc CHR ''.'')" "m (p + 4) = Some (bc CHR ''-'')" "m (p + 5) = Some (bc CHR ''.'')"
    "str_at m (p + 6) (decimal x)" "0 \<le> x" "x \<le> 255"
  shows "parseIp m p = Some (Some (word_of_int x))"
proof -
  have s: "strtol m p 10 = Some (0, p + 1)" "strtol m (p + 2) 10 = Some (0, p + 3)" "strtol m (p + 4) 10 = Some (0, p + 5)"
    using strtol_sign_only [of m p] strtol_sign_only [of m "p + 2"] strtol_sign_only [of m "p + 4"] assms(2-7) by (simp_all add: eval_nat_numeral)
  have l: "strtol m (p + 6) 10 = Some (x, p + 6 + length (decimal x))"
    using strtol_decimal [of m "p + 6" x "[]"] assms(8-10) by simp
  have e: "m (p + 6 + length (decimal x)) = Some 0" using str_at_suffix [of m "p + 6" "decimal x" "[]"] assms(8) by simp
  have 4: "parse_parts m (p + 6) 1 [0, 0, 0] = Some (Some (p + 6 + length (decimal x), [0, 0, 0, x]))"
    using l assms(9,10) decimal_nonzero(2) [of x] by simp
  have "parse_parts m p (Suc 3) [] = parse_parts m (p + 1 + 1) 3 ([] @ [0])"
    by (rule parse_part [OF s(1)]) (use assms in auto)
  moreover have "parse_parts m (p + 2) (Suc 2) [0] = parse_parts m (p + 3 + 1) 2 ([0] @ [0])"
    by (rule parse_part [OF s(2)]) (use assms in auto)
  moreover have "parse_parts m (p + 4) (Suc 1) [0, 0] = parse_parts m (p + 5 + 1) 1 ([0, 0] @ [0])"
    by (rule parse_part [OF s(3)]) (use assms in auto)
  ultimately have "parse_parts m p 4 [] = Some (Some (p + 6 + length (decimal x), [0, 0, 0, x]))"
    using 4 by (simp add: eval_nat_numeral)
  then show ?thesis using e assms(1) by (simp add: parseIp_def)
qed

section \<open>Properties\<close>

lemma decimal_short: "0 \<le> x \<Longrightarrow> x \<le> 255 \<Longrightarrow> length (decimal x) \<le> 3"
  using digits_of_length [of 3 x 10 "lit ''0123456789''"] by (simp add: decimal_def)

text \<open>
  C21. An address printed into a buffer of at least 16 bytes and parsed again is the same address.
\<close>

theorem address_roundtrip:
  assumes "mapped m out len" "16 \<le> len" "out \<noteq> NULL"
  shows "\<exists>m'. formatIp m e ip out len = Some (e, m') \<and> parseIp m' out = Some (Some ip)"
proof -
  define a b c d where parts: "a = uint (drop_bit 24 ip AND 0xFF)" "b = uint (drop_bit 16 ip AND 0xFF)"
    "c = uint (drop_bit 8 ip AND 0xFF)" "d = uint (ip AND 0xFF)"
  have r: "0 \<le> a" "a \<le> 255" "0 \<le> b" "b \<le> 255" "0 \<le> c" "c \<le> 255" "0 \<le> d" "d \<le> 255"
    unfolding parts by (rule byte_range)+
  obtain q where "printed (lit ''%u.%u.%u.%u'') [VWord a, VWord b, VWord c, VWord d] e (m |` (- ({out..<out + len} \<union> {})))
    = Some (q, ip_text a b c d, e, m |` (- ({out..<out + len} \<union> {})))" using ip_printed [OF r] by blast
  from vsnprintf_lit_correct [OF assms(1) this] assms(2) obtain m' where
    "vsnprintf_lit m e out len (lit ''%u.%u.%u.%u'') [VWord a, VWord b, VWord c, VWord d] = Some (q, e, m')"
    and t: "bytes_at m' out (take (len - 1) (ip_text a b c d) @ [0])" by auto
  then have f: "formatIp m e ip out len = Some (e, m')" by (simp add: formatIp_def parts)
  have "length (ip_text a b c d) \<le> 15"
    using decimal_short [OF r(1,2)] decimal_short [OF r(3,4)] decimal_short [OF r(5,6)] decimal_short [OF r(7,8)]
    by (simp add: ip_text_def)
  then have "take (len - 1) (ip_text a b c d) = ip_text a b c d" using assms(2) by simp
  moreover have "0 \<notin> set (ip_text a b c d)" by (simp add: ip_text_def decimal_nonzero)
  ultimately have "str_at m' out (ip_text a b c d)" using t by (simp add: str_at_iff)
  from parse_ip_text [OF this assms(3) r] have "parseIp m' out = Some (Some ip)"
    unfolding parts word_of_int_uint byte_parts .
  with f show ?thesis by blast
qed

theorem address_roundtrip_witness:
  "\<exists>m'. formatIp (\<lambda>_. Some 0) 0 0x0A00020F 100 32 = Some (0, m') \<and> parseIp m' 100 = Some (Some 0x0A00020F)"
  by (rule address_roundtrip) (simp_all add: mapped_iff)

end
