(* ===== verification/Ping.thy ===== *)
theory Ping
  imports Net_Packets
begin

text \<open>
  \<open>applications/ping/src/ping.cpp\<close>: resolving an address, sending an echo request and waiting for the
  answer.  The ethernet driver is not part of the repository: it answers each read with a frame, or with
  less than a frame (\<open>None\<close>), and each write with whether it took the whole frame.  What is printed and
  logged is left out.
\<close>

unbundle bit_operations_syntax

record g_eth_frame =
  frame_length :: "16 word"
  frame_data :: "byte list"

text \<open>\<open>G_ETH_FRAME_DATA_SIZE\<close>, and the answers to writes after the frames written so far.\<close>

record eth_driver =
  frame_data_size :: nat
  tx_ok :: "g_eth_frame list \<Rightarrow> bool"

record network =
  sent :: "g_eth_frame list"
  incoming :: "g_eth_frame option list"
  slept :: nat

text \<open>\<open>g_channel.mac\<close>, \<open>g_localIp\<close> and \<open>g_targetIp\<close>.\<close>

record ping_host =
  host_mac :: "byte list"
  localIp :: "32 word"
  targetIp :: "32 word"

section \<open>Frames\<close>

definition sendFrame :: "eth_driver \<Rightarrow> byte list \<Rightarrow> network \<Rightarrow> bool \<times> network" where
  "sendFrame K data w =
     (if length data > frame_data_size K then (False, w)
      else
        let frame = \<lparr>frame_length = word_of_nat (length data), frame_data = data @ replicate (frame_data_size K - length data) 0\<rparr>;
            w = w\<lparr>sent := sent w @ [frame]\<rparr>
        in (tx_ok K (sent w), w))"

definition receiveFrame :: "network \<Rightarrow> g_eth_frame option \<times> network" where
  "receiveFrame w = (case incoming w of [] \<Rightarrow> (None, w) | r # rs \<Rightarrow> (r, w\<lparr>incoming := rs\<rparr>))"

section \<open>Address resolution\<close>

definition sendArpReply :: "eth_driver \<Rightarrow> ping_host \<Rightarrow> byte list \<Rightarrow> 32 word \<Rightarrow> network \<Rightarrow> network" where
  "sendArpReply K H mac ip w =
     (let eth = \<lparr>eth_dest = mac, eth_src = host_mac H, eth_type = hostToNetwork16 0x0806\<rparr>;
          arp = \<lparr>htype = hostToNetwork16 1, ptype = hostToNetwork16 0x0800, hlen = 6, plen = 4, oper = hostToNetwork16 2,
            sha = host_mac H, spa = hostToNetwork32 (localIp H), tha = mac, tpa = hostToNetwork32 ip\<rparr>
      in snd (sendFrame K (ethernet_bytes eth @ arp_bytes arp) w))"

definition sendArpRequest :: "eth_driver \<Rightarrow> ping_host \<Rightarrow> network \<Rightarrow> network" where
  "sendArpRequest K H w =
     (let eth = \<lparr>eth_dest = replicate 6 0xFF, eth_src = host_mac H, eth_type = hostToNetwork16 0x0806\<rparr>;
          arp = \<lparr>htype = hostToNetwork16 1, ptype = hostToNetwork16 0x0800, hlen = 6, plen = 4, oper = hostToNetwork16 1,
            sha = host_mac H, spa = hostToNetwork32 (localIp H), tha = replicate 6 0, tpa = hostToNetwork32 (targetIp H)\<rparr>
      in snd (sendFrame K (ethernet_bytes eth @ arp_bytes arp) w))"

definition handleArpRequest :: "eth_driver \<Rightarrow> ping_host \<Rightarrow> g_eth_frame \<Rightarrow> network \<Rightarrow> (bool \<times> network) option" where
  "handleArpRequest K H frame w =
     (if unat (frame_length frame) < 14 + 28 then Some (False, w)
      else do {
        eth \<leftarrow> ethernet_at 0 (frame_data frame);
        if networkToHost16 (eth_type eth) \<noteq> 0x0806 then Some (False, w)
        else do {
          arp \<leftarrow> arp_at 14 (frame_data frame);
          if networkToHost16 (oper arp) \<noteq> 1 then Some (False, w)
          else if networkToHost32 (tpa arp) \<noteq> localIp H then Some (False, w)
          else Some (True, sendArpReply K H (sha arp) (networkToHost32 (spa arp)) w)
        }
      })"

text \<open>The inner \<open>None\<close> is \<open>false\<close>, the address is what is copied to \<open>outMac\<close>.\<close>

definition tryParseArpReply :: "ping_host \<Rightarrow> g_eth_frame \<Rightarrow> byte list option option" where
  "tryParseArpReply H frame =
     (if unat (frame_length frame) < 14 + 28 then Some None
      else do {
        eth \<leftarrow> ethernet_at 0 (frame_data frame);
        if networkToHost16 (eth_type eth) \<noteq> 0x0806 then Some None
        else do {
          arp \<leftarrow> arp_at 14 (frame_data frame);
          if networkToHost16 (oper arp) \<noteq> 2 then Some None
          else if networkToHost32 (spa arp) \<noteq> targetIp H then Some None
          else if networkToHost32 (tpa arp) \<noteq> localIp H then Some None
          else Some (Some (sha arp))
        }
      })"

definition retry_request :: "eth_driver \<Rightarrow> ping_host \<Rightarrow> nat \<Rightarrow> network \<Rightarrow> network" where
  "retry_request K H attempt w = (if attempt mod 100 = 0 then sendArpRequest K H w else w)"

function resolve_loop :: "eth_driver \<Rightarrow> ping_host \<Rightarrow> nat \<Rightarrow> network \<Rightarrow> (byte list option \<times> network) option" where
  "resolve_loop K H attempt w =
     (if attempt \<ge> 400 then Some (None, w)
      else (case receiveFrame w of
        (None, w) \<Rightarrow> resolve_loop K H (attempt + 1) (retry_request K H attempt (w\<lparr>slept := slept w + 10\<rparr>))
      | (Some frame, w) \<Rightarrow> do {
          (handled, w) \<leftarrow> handleArpRequest K H frame w;
          if handled then resolve_loop K H (attempt + 1) w
          else do {
            r \<leftarrow> tryParseArpReply H frame;
            (case r of
              Some mac \<Rightarrow> Some (Some mac, w)
            | None \<Rightarrow> resolve_loop K H (attempt + 1) (retry_request K H attempt w))
          }
        }))"
  by pat_completeness auto
termination by (relation "measure (\<lambda>(K, H, attempt, w). 400 - attempt)") auto

definition resolveTargetMac :: "eth_driver \<Rightarrow> ping_host \<Rightarrow> network \<Rightarrow> (byte list option \<times> network) option" where
  "resolveTargetMac K H w = resolve_loop K H 0 (sendArpRequest K H w)"

section \<open>Echo\<close>

definition echo_payload :: "byte list" where
  "echo_payload = lit ''ghost ping utility'' @ replicate 14 0"

definition echo_ip :: "ping_host \<Rightarrow> ipv4_header" where
  "echo_ip H =
     (let ip = \<lparr>versionAndHeaderLength = 0x45, dscpEcn = 0, totalLength = hostToNetwork16 (20 + 40), identification = 0,
        flagsAndFragment = 0, ttl = 64, protocol = 1, headerChecksum = 0, ip_source = hostToNetwork32 (localIp H),
        ip_dest = hostToNetwork32 (targetIp H)\<rparr>
      in ip\<lparr>headerChecksum := checksum16 (ipv4_bytes ip)\<rparr>)"

definition echo_icmp :: "16 word \<Rightarrow> icmp_echo" where
  "echo_icmp sequ =
     (let icmp = \<lparr>icmp_type = 8, icmp_code = 0, icmp_checksum = 0, icmp_identifier = hostToNetwork16 0x1337,
        icmp_sequence = hostToNetwork16 sequ, payload = echo_payload\<rparr>
      in icmp\<lparr>icmp_checksum := checksum16 (icmp_bytes icmp)\<rparr>)"

definition sendIcmpEcho :: "eth_driver \<Rightarrow> ping_host \<Rightarrow> 16 word \<Rightarrow> byte list \<Rightarrow> network \<Rightarrow> bool \<times> network" where
  "sendIcmpEcho K H sequ mac w =
     (let eth = \<lparr>eth_dest = mac, eth_src = host_mac H, eth_type = hostToNetwork16 0x0800\<rparr>
      in sendFrame K (ethernet_bytes eth @ ipv4_bytes (echo_ip H) @ icmp_bytes (echo_icmp sequ)) w)"

definition tryHandleIcmpReply :: "ping_host \<Rightarrow> g_eth_frame \<Rightarrow> 16 word \<Rightarrow> bool option" where
  "tryHandleIcmpReply H frame sequ =
     (if unat (frame_length frame) < 14 + 20 + 40 then Some False
      else do {
        eth \<leftarrow> ethernet_at 0 (frame_data frame);
        if networkToHost16 (eth_type eth) \<noteq> 0x0800 then Some False
        else do {
          ip \<leftarrow> ipv4_at 14 (frame_data frame);
          if drop_bit 4 (versionAndHeaderLength ip) \<noteq> 4 then Some False
          else if versionAndHeaderLength ip AND 0x0F < 5 then Some False
          else if protocol ip \<noteq> 1 then Some False
          else if networkToHost32 (ip_source ip) \<noteq> targetIp H \<or> networkToHost32 (ip_dest ip) \<noteq> localIp H then Some False
          else
            let ipHeaderLength = unat (versionAndHeaderLength ip AND 0x0F) * 4 in
            if unat (frame_length frame) < 14 + ipHeaderLength + 40 then Some False
            else do {
              icmp \<leftarrow> icmp_at (14 + ipHeaderLength) (frame_data frame);
              Some (icmp_type icmp = 0 \<and> icmp_code icmp = 0 \<and> networkToHost16 (icmp_identifier icmp) = 0x1337 \<and>
                networkToHost16 (icmp_sequence icmp) = sequ)
            }
        }
      })"

function await_loop :: "eth_driver \<Rightarrow> ping_host \<Rightarrow> 16 word \<Rightarrow> nat \<Rightarrow> network \<Rightarrow> (bool \<times> network) option" where
  "await_loop K H sequ attempt w =
     (if attempt \<ge> 500 then Some (False, w)
      else (case receiveFrame w of
        (None, w) \<Rightarrow> await_loop K H sequ (attempt + 1) (w\<lparr>slept := slept w + 10\<rparr>)
      | (Some frame, w) \<Rightarrow> do {
          (handled, w) \<leftarrow> handleArpRequest K H frame w;
          if handled then await_loop K H sequ (attempt + 1) w
          else do {
            answered \<leftarrow> tryHandleIcmpReply H frame sequ;
            if answered then Some (True, w) else await_loop K H sequ (attempt + 1) w
          }
        }))"
  by pat_completeness auto
termination by (relation "measure (\<lambda>(K, H, sequ, attempt, w). 500 - attempt)") auto

definition awaitIcmpReply :: "eth_driver \<Rightarrow> ping_host \<Rightarrow> 16 word \<Rightarrow> network \<Rightarrow> (bool \<times> network) option" where
  "awaitIcmpReply K H sequ w = await_loop K H sequ 0 w"

declare resolve_loop.simps [simp del] await_loop.simps [simp del]

text \<open>
  \<open>main\<close> and its exit code.  \<open>init\<close> is the address of the interface that \<open>ethDriverInitialize\<close> reports, \<open>None\<close> when
  it fails.
\<close>

definition ping_main :: "eth_driver \<Rightarrow> byte list option \<Rightarrow> mem \<Rightarrow> addr list \<Rightarrow> network \<Rightarrow> (int \<times> network) option" where
  "ping_main K init m argv w =
     (if length argv < 3 then Some (- 1, w)
      else do {
        target \<leftarrow> parseIp m (argv ! 1);
        (case target of
          None \<Rightarrow> Some (- 1, w)
        | Some target \<Rightarrow> do {
            loc \<leftarrow> parseIp m (argv ! 2);
            (case loc of
              None \<Rightarrow> Some (- 1, w)
            | Some loc \<Rightarrow>
                if target AND 0xFFFFFF00 \<noteq> loc AND 0xFFFFFF00 then Some (- 1, w)
                else (case init of
                  None \<Rightarrow> Some (- 1, w)
                | Some mac \<Rightarrow>
                    let H = \<lparr>host_mac = mac, localIp = loc, targetIp = target\<rparr> in
                    do {
                      (r, w) \<leftarrow> resolveTargetMac K H w;
                      (case r of
                        None \<Rightarrow> Some (- 1, w)
                      | Some targetMac \<Rightarrow>
                          let (ok, w) = sendIcmpEcho K H 1 targetMac w in
                          if \<not> ok then Some (- 1, w)
                          else do {
                            (answered, w) \<leftarrow> awaitIcmpReply K H 1 w;
                            Some (if answered then 0 else - 1, w)
                          })
                    }))
          })
      })"

section \<open>Sending and reading\<close>

definition frame_of :: "eth_driver \<Rightarrow> byte list \<Rightarrow> g_eth_frame" where
  "frame_of K data = \<lparr>frame_length = word_of_nat (length data), frame_data = data @ replicate (frame_data_size K - length data) 0\<rparr>"

lemma sendFrame_fits:
  "length data \<le> frame_data_size K \<Longrightarrow>
    sendFrame K data w = (tx_ok K (sent w @ [frame_of K data]), w\<lparr>sent := sent w @ [frame_of K data]\<rparr>)"
  by (simp add: sendFrame_def frame_of_def Let_def)

lemma struct_lengths [simp]:
  "length (eth_dest e) = 6 \<Longrightarrow> length (eth_src e) = 6 \<Longrightarrow> length (ethernet_bytes e) = 14"
  "length (sha p) = 6 \<Longrightarrow> length (tha p) = 6 \<Longrightarrow> length (arp_bytes p) = 28"
  "length (ipv4_bytes h) = 20" "length (payload q) = 32 \<Longrightarrow> length (icmp_bytes q) = 40"
  by (simp_all add: ethernet_bytes_def arp_bytes_def ipv4_bytes_def icmp_bytes_def)

lemma arp_behind: "length d = 14 \<Longrightarrow> length (sha p) = 6 \<Longrightarrow> length (tha p) = 6 \<Longrightarrow> arp_at 14 (d @ arp_bytes p @ r) = Some p"
  using at_prefix(1) [of d 0 "arp_bytes p @ r"] by (simp add: arp_at_bytes)

lemma ipv4_behind: "length d = 14 \<Longrightarrow> ipv4_at 14 (d @ ipv4_bytes h @ r) = Some h"
  using at_prefix(2) [of d 0 "ipv4_bytes h @ r"] by (simp add: ipv4_at_bytes)

lemma icmp_behind: "length d = 34 \<Longrightarrow> length (payload p) = 32 \<Longrightarrow> icmp_at 34 (d @ icmp_bytes p @ r) = Some p"
  using at_prefix(3) [of d 0 "icmp_bytes p @ r"] by (simp add: icmp_at_bytes)

text \<open>The handlers on the frame of an ARP packet.\<close>

lemma handle_arp_frame:
  assumes "length (eth_dest e) = 6" "length (eth_src e) = 6" "length (sha p) = 6" "length (tha p) = 6" "eth_type e = hostToNetwork16 0x0806"
  shows "handleArpRequest K H (frame_of L (ethernet_bytes e @ arp_bytes p)) w =
      (if networkToHost16 (oper p) = 1 \<and> networkToHost32 (tpa p) = localIp H
       then Some (True, sendArpReply K H (sha p) (networkToHost32 (spa p)) w) else Some (False, w))"
    "tryParseArpReply H (frame_of L (ethernet_bytes e @ arp_bytes p)) =
      Some (if networkToHost16 (oper p) = 2 \<and> networkToHost32 (spa p) = targetIp H \<and> networkToHost32 (tpa p) = localIp H
        then Some (sha p) else None)"
  using assms
  by (simp_all add: handleArpRequest_def tryParseArpReply_def frame_of_def ethernet_at_bytes arp_behind networkToHost16_def)

lemma arp_frame_length:
  "length (eth_dest e) = 6 \<Longrightarrow> length (eth_src e) = 6 \<Longrightarrow> length (sha p) = 6 \<Longrightarrow> length (tha p) = 6 \<Longrightarrow>
    length (ethernet_bytes e @ arp_bytes p) = 42"
  by simp

section \<open>Reading answers\<close>

text \<open>What a read means to the two waiting loops.\<close>

definition arp_answer :: "ping_host \<Rightarrow> g_eth_frame option \<Rightarrow> byte list option" where
  "arp_answer H r = (case r of None \<Rightarrow> None | Some f \<Rightarrow> (case tryParseArpReply H f of None \<Rightarrow> None | Some x \<Rightarrow> x))"

definition echo_answer :: "ping_host \<Rightarrow> 16 word \<Rightarrow> g_eth_frame option \<Rightarrow> bool" where
  "echo_answer H sequ r = (case r of None \<Rightarrow> False | Some f \<Rightarrow> tryHandleIcmpReply H f sequ = Some True)"

text \<open>Frames as the driver delivers them: with room for the longest headers.\<close>

definition whole_frames :: "g_eth_frame option list \<Rightarrow> bool" where
  "whole_frames rs \<longleftrightarrow> (\<forall>f. Some f \<in> set rs \<longrightarrow> 114 \<le> length (frame_data f))"

lemma headers_read:
  assumes "114 \<le> length d"
  shows "\<exists>e. ethernet_at 0 d = Some e" "\<exists>p. arp_at 14 d = Some p" "\<exists>h. ipv4_at 14 d = Some h"
    "i \<le> 74 \<Longrightarrow> \<exists>q. icmp_at i d = Some q"
  using assms by (simp_all add: ethernet_at_def arp_at_def ipv4_at_def icmp_at_def)

lemma arp_total:
  assumes "114 \<le> length (frame_data f)"
  shows "\<exists>b w'. handleArpRequest K H f w = Some (b, w') \<and> incoming w' = incoming w \<and> (b \<longrightarrow> tryParseArpReply H f = Some None)"
    "\<exists>r. tryParseArpReply H f = Some r"
proof -
  obtain e p where "ethernet_at 0 (frame_data f) = Some e" "arp_at 14 (frame_data f) = Some p"
    using headers_read(1,2) [OF assms] by blast
  then show "\<exists>b w'. handleArpRequest K H f w = Some (b, w') \<and> incoming w' = incoming w \<and> (b \<longrightarrow> tryParseArpReply H f = Some None)"
    "\<exists>r. tryParseArpReply H f = Some r"
    by (auto simp: handleArpRequest_def tryParseArpReply_def sendArpReply_def sendFrame_def Let_def)
qed

lemma low_nibble: "unat (v AND 0x0F :: byte) \<le> 15"
proof -
  have "v AND 0x0F = take_bit 4 v" by (simp add: take_bit_eq_mask mask_numeral)
  then have "unat (v AND 0x0F) = take_bit 4 (unat v)" by (simp add: unsigned_take_bit_eq)
  then show ?thesis using take_bit_nat_less_exp [of 4 "unat v"] by simp
qed

lemma echo_total:
  assumes "114 \<le> length (frame_data f)"
  shows "tryHandleIcmpReply H f sequ \<noteq> None"
proof -
  obtain e h where eh: "ethernet_at 0 (frame_data f) = Some e" "ipv4_at 14 (frame_data f) = Some h"
    using headers_read(1,3) [OF assms] by blast
  have "14 + unat (versionAndHeaderLength h AND 0x0F) * 4 \<le> 74" using low_nibble [of "versionAndHeaderLength h"] by linarith
  from headers_read(4) [OF assms this] obtain q where
    "icmp_at (14 + unat (versionAndHeaderLength h AND 0x0F) * 4) (frame_data f) = Some q" by blast
  with eh show ?thesis by (simp add: tryHandleIcmpReply_def Let_def del: not_None_eq)
qed

lemma request_no_echo:
  assumes "handleArpRequest K H f w = Some (True, w')"
  shows "tryHandleIcmpReply H f sequ \<noteq> Some True"
proof -
  from assms obtain e where e: "ethernet_at 0 (frame_data f) = Some e" "networkToHost16 (eth_type e) = 0x0806"
    by (auto simp: handleArpRequest_def split: if_splits bind_splits)
  then show ?thesis by (auto simp: tryHandleIcmpReply_def)
qed

lemma sent_only [simp]: "incoming (sendArpRequest K H w) = incoming w" "incoming (retry_request K H a w) = incoming w"
  by (simp_all add: sendArpRequest_def retry_request_def sendFrame_def Let_def)

lemma receive_cases:
  "receiveFrame w = (case incoming w of [] \<Rightarrow> (None, w) | r # rs \<Rightarrow> (r, w\<lparr>incoming := rs\<rparr>))"
  by (simp add: receiveFrame_def)

text \<open>The first answer among the first \<open>n\<close> reads, and the reads behind it.\<close>

fun first_answer :: "('r \<Rightarrow> 'a option) \<Rightarrow> nat \<Rightarrow> 'r list \<Rightarrow> ('a \<times> 'r list) option" where
  "first_answer f 0 rs = None"
| "first_answer f (Suc n) [] = None"
| "first_answer f (Suc n) (r # rs) = (case f r of Some a \<Rightarrow> Some (a, rs) | None \<Rightarrow> first_answer f n rs)"

lemma first_answer_at:
  "\<forall>r\<in>set xs. f r = None \<Longrightarrow> length xs < n \<Longrightarrow> f r = Some a \<Longrightarrow> first_answer f n (xs @ r # rs) = Some (a, rs)"
  by (induction f n xs rule: first_answer.induct) auto

lemma first_answer_none: "first_answer f n rs = None \<longleftrightarrow> (\<forall>r\<in>set (take n rs). f r = None)"
  by (induction f n rs rule: first_answer.induct) (auto split: option.splits)

lemma first_answer_subset: "first_answer f n rs = Some (a, qs) \<Longrightarrow> set qs \<subseteq> set rs"
  by (induction f n rs rule: first_answer.induct) (auto split: option.splits)

lemma first_answer_from: "first_answer f n rs = Some (a, qs) \<Longrightarrow> \<exists>r\<in>set rs. f r = Some a"
  by (induction f n rs rule: first_answer.induct) (auto split: option.splits)

lemma no_frame [simp]: "arp_answer H None = None" "\<not> echo_answer H sequ None"
  by (simp_all add: arp_answer_def echo_answer_def)

text \<open>Both loops find the first answer among the reads they have left.\<close>

lemma resolve_loop_correct:
  assumes "whole_frames (incoming w)" "n \<le> 400"
  shows "\<exists>w'. resolve_loop K H (400 - n) w = Some (map_option fst (first_answer (arp_answer H) n (incoming w)), w') \<and>
    (\<forall>a rs. first_answer (arp_answer H) n (incoming w) = Some (a, rs) \<longrightarrow> incoming w' = rs)"
  using assms
proof (induction n arbitrary: w)
  case 0
  then show ?case by (subst resolve_loop.simps) simp
next
  case (Suc n)
  have a: "\<not> 400 \<le> 400 - Suc n" "400 - Suc n + 1 = 400 - n" using Suc.prems(2) by simp_all
  have n: "n \<le> 400" using Suc.prems(2) by simp
  show ?case
  proof (cases "incoming w")
    case Nil
    let ?w = "retry_request K H (400 - Suc n) (w\<lparr>slept := slept w + 10\<rparr>)"
    have "first_answer (arp_answer H) n (incoming ?w) = None" using Nil by (cases n) simp_all
    with Suc.IH [of ?w] Nil n a show ?thesis
      by (subst resolve_loop.simps) (simp add: receive_cases whole_frames_def)
  next
    case (Cons r rs)
    have wf: "whole_frames rs" using Suc.prems(1) Cons by (simp add: whole_frames_def)
    show ?thesis
    proof (cases r)
      case None
      let ?w = "retry_request K H (400 - Suc n) (w\<lparr>incoming := rs, slept := slept w + 10\<rparr>)"
      from Suc.IH [of ?w] Cons None n a wf show ?thesis
        by (subst resolve_loop.simps) (simp add: receive_cases)
    next
      case (Some f)
      have "114 \<le> length (frame_data f)" using Suc.prems(1) Cons Some by (simp add: whole_frames_def)
      from arp_total(1) [OF this, of K H "w\<lparr>incoming := rs\<rparr>"] obtain b w1 x where
        h: "handleArpRequest K H f (w\<lparr>incoming := rs\<rparr>) = Some (b, w1)" "incoming w1 = rs" "b \<longrightarrow> tryParseArpReply H f = Some None"
        and x: "tryParseArpReply H f = Some x" using arp_total(2) [OF \<open>114 \<le> length (frame_data f)\<close>] by fastforce
      show ?thesis
      proof (cases "b \<or> x = None")
        case True
        let ?w = "if b then w1 else retry_request K H (400 - Suc n) w1"
        have "arp_answer H r = None" using True h(3) x Some by (auto simp: arp_answer_def)
        moreover have "resolve_loop K H (400 - Suc n) w = resolve_loop K H (400 - n) ?w"
          using True h x Some Cons a by (subst resolve_loop.simps) (auto simp: receive_cases)
        moreover have "incoming ?w = rs" using h(2) by simp
        ultimately show ?thesis using Suc.IH [of ?w] wf n Cons by simp
      next
        case False
        then obtain mac where "x = Some mac" "\<not> b" by auto
        then show ?thesis
          using h x Some Cons a by (subst resolve_loop.simps) (simp add: receive_cases arp_answer_def)
      qed
    qed
  qed
qed

lemma await_loop_correct:
  assumes "whole_frames (incoming w)" "n \<le> 500"
  shows "\<exists>w'. await_loop K H sequ (500 - n) w = Some (\<exists>r\<in>set (take n (incoming w)). echo_answer H sequ r, w')"
  using assms
proof (induction n arbitrary: w)
  case 0
  then show ?case by (subst await_loop.simps) simp
next
  case (Suc n)
  have a: "\<not> 500 \<le> 500 - Suc n" "500 - Suc n + 1 = 500 - n" using Suc.prems(2) by simp_all
  have n: "n \<le> 500" using Suc.prems(2) by simp
  show ?case
  proof (cases "incoming w")
    case Nil
    with Suc.IH [of "w\<lparr>slept := slept w + 10\<rparr>"] n a show ?thesis
      by (subst await_loop.simps) (simp add: receive_cases whole_frames_def)
  next
    case (Cons r rs)
    have wf: "whole_frames rs" using Suc.prems(1) Cons by (simp add: whole_frames_def)
    show ?thesis
    proof (cases r)
      case None
      from Suc.IH [of "w\<lparr>incoming := rs, slept := slept w + 10\<rparr>"] Cons None n a wf show ?thesis
        by (subst await_loop.simps) (simp add: receive_cases)
    next
      case (Some f)
      have l: "114 \<le> length (frame_data f)" using Suc.prems(1) Cons Some by (simp add: whole_frames_def)
      from arp_total(1) [OF l, of K H "w\<lparr>incoming := rs\<rparr>"] obtain b w1 where
        h: "handleArpRequest K H f (w\<lparr>incoming := rs\<rparr>) = Some (b, w1)" "incoming w1 = rs" by auto
      obtain x where x: "tryHandleIcmpReply H f sequ = Some x" using echo_total [OF l] by blast
      have nb: "b \<longrightarrow> \<not> x" using request_no_echo [of K H f "w\<lparr>incoming := rs\<rparr>" w1 sequ] h(1) x by auto
      show ?thesis
      proof (cases x)
        case True
        then show ?thesis using h x nb Some Cons a by (subst await_loop.simps) (simp add: receive_cases echo_answer_def)
      next
        case False
        then have "await_loop K H sequ (500 - Suc n) w = await_loop K H sequ (500 - n) w1"
          using h x Some Cons a by (subst await_loop.simps) (auto simp: receive_cases)
        moreover have "\<not> echo_answer H sequ r" using False x Some by (simp add: echo_answer_def)
        ultimately show ?thesis using Suc.IH [of w1] wf n Cons h(2) by simp
      qed
    qed
  qed
qed

section \<open>The echo request\<close>

text \<open>What a peer makes of a request: the addresses are exchanged, the type is that of a reply.\<close>

definition peer_reply :: "eth_driver \<Rightarrow> ethernet_header \<Rightarrow> ipv4_header \<Rightarrow> icmp_echo \<Rightarrow> byte \<Rightarrow> 16 word \<Rightarrow> 16 word \<Rightarrow> g_eth_frame" where
  "peer_reply K e h p t hc pc = frame_of K
     (ethernet_bytes (e\<lparr>eth_dest := eth_src e, eth_src := eth_dest e\<rparr>) @
      ipv4_bytes (h\<lparr>ip_source := ip_dest h, ip_dest := ip_source h, ttl := t, headerChecksum := hc\<rparr>) @
      icmp_bytes (p\<lparr>icmp_type := 0, icmp_checksum := pc\<rparr>))"

lemma echo_payload_length [simp]: "length echo_payload = 32" "length (payload (echo_icmp sequ)) = 32"
  by (simp_all add: echo_payload_def echo_icmp_def Let_def)

lemma echo_checksums: "checksum16 (ipv4_bytes (echo_ip H)) = 0" "checksum16 (icmp_bytes (echo_icmp sequ)) = 0"
proof -
  define h where "h = (echo_ip H)\<lparr>headerChecksum := 0\<rparr>"
  have "ipv4_bytes (h\<lparr>headerChecksum := c\<rparr>) = take 10 (ipv4_bytes h) @ bytes16 c @ drop 12 (ipv4_bytes h)" for c
    by (simp add: ipv4_bytes_def bytes16_def bytes32_def)
  moreover have "echo_ip H = h\<lparr>headerChecksum := checksum16 (ipv4_bytes (h\<lparr>headerChecksum := 0\<rparr>))\<rparr>"
    by (simp add: h_def echo_ip_def Let_def)
  ultimately show "checksum16 (ipv4_bytes (echo_ip H)) = 0"
    using checksum_verifies [of "take 10 (ipv4_bytes h)" "drop 12 (ipv4_bytes h)"] by simp
  define p where "p = (echo_icmp sequ)\<lparr>icmp_checksum := 0\<rparr>"
  have "icmp_bytes (p\<lparr>icmp_checksum := c\<rparr>) = take 2 (icmp_bytes p) @ bytes16 c @ drop 4 (icmp_bytes p)" for c
    by (simp add: icmp_bytes_def bytes16_def)
  moreover have "echo_icmp sequ = p\<lparr>icmp_checksum := checksum16 (icmp_bytes (p\<lparr>icmp_checksum := 0\<rparr>))\<rparr>"
    by (simp add: p_def echo_icmp_def Let_def)
  moreover have "length (icmp_bytes p) = 40" by (simp add: p_def)
  ultimately show "checksum16 (icmp_bytes (echo_icmp sequ)) = 0"
    using checksum_verifies [of "take 2 (icmp_bytes p)" "drop 4 (icmp_bytes p)"] by simp
qed

lemma echo_frame:
  assumes "length (eth_dest e) = 6" "length (eth_src e) = 6" "length (payload p) = 32"
  shows "ethernet_at 0 (frame_data (frame_of K (ethernet_bytes e @ ipv4_bytes h @ icmp_bytes p))) = Some e"
    "ipv4_at 14 (frame_data (frame_of K (ethernet_bytes e @ ipv4_bytes h @ icmp_bytes p))) = Some h"
    "icmp_at 34 (frame_data (frame_of K (ethernet_bytes e @ ipv4_bytes h @ icmp_bytes p))) = Some p"
    "frame_length (frame_of K (ethernet_bytes e @ ipv4_bytes h @ icmp_bytes p)) = 74"
  using assms icmp_behind [of "ethernet_bytes e @ ipv4_bytes h" p]
  by (simp_all add: frame_of_def ethernet_at_bytes ipv4_behind)

lemma peer_reply_read:
  assumes "length (eth_dest e) = 6" "length (eth_src e) = 6" "ip_source h = hostToNetwork32 (localIp H)"
    "ip_dest h = hostToNetwork32 (targetIp H)" "versionAndHeaderLength h = 0x45" "protocol h = 1" "icmp_code p = 0"
    "icmp_identifier p = hostToNetwork16 0x1337" "length (payload p) = 32" "eth_type e = hostToNetwork16 0x0800"
  shows "tryHandleIcmpReply H (peer_reply K e h p t hc pc) sequ = Some (networkToHost16 (icmp_sequence p) = sequ)"
  using assms echo_frame [of "e\<lparr>eth_dest := eth_src e, eth_src := eth_dest e\<rparr>" "p\<lparr>icmp_type := 0, icmp_checksum := pc\<rparr>" K
      "h\<lparr>ip_source := ip_dest h, ip_dest := ip_source h, ttl := t, headerChecksum := hc\<rparr>"]
  by (simp add: tryHandleIcmpReply_def peer_reply_def networkToHost16_def networkToHost32_def)

section \<open>Addresses of a network\<close>

definition ip_of :: "int \<Rightarrow> int \<Rightarrow> int \<Rightarrow> int \<Rightarrow> 32 word" where
  "ip_of a b c d = push_bit 24 (word_of_int a) OR push_bit 16 (word_of_int b) OR push_bit 8 (word_of_int c) OR word_of_int d"

lemma last_part: "0 \<le> d \<Longrightarrow> d \<le> 255 \<Longrightarrow> (word_of_int d :: 32 word) AND 0xFFFFFF00 = 0"
proof -
  assume d: "0 \<le> d" "d \<le> 255"
  then have "take_bit 8 d = d" by (simp add: take_bit_int_eq_self)
  then have w: "(word_of_int d :: 32 word) = take_bit 8 (word_of_int d)" by (metis take_bit_word_beyond_length_eq of_int_take_bit)
  have m: "0xFFFFFF00 = (push_bit 8 (mask 24) :: 32 word)" by (simp add: mask_numeral)
  show ?thesis unfolding m by (subst w) (rule bit_word_eqI, auto simp: bit_simps)
qed

lemma same_network:
  assumes "0 \<le> d" "d \<le> 255" "0 \<le> e" "e \<le> 255"
  shows "ip_of a b c d AND 0xFFFFFF00 = ip_of a b c e AND 0xFFFFFF00"
  using last_part [OF assms(1,2)] last_part [OF assms(3,4)] by (simp add: ip_of_def bit.conj_disj_distrib2)

lemma arp_answer_length: "whole_frames rs \<Longrightarrow> r \<in> set rs \<Longrightarrow> arp_answer H r = Some mac \<Longrightarrow> length mac = 6"
  by (auto simp: arp_answer_def tryParseArpReply_def whole_frames_def arp_at_def ethernet_at_def
      split: option.splits if_splits)

text \<open>Hosts for the examples: 10.0.2.15 asks for 10.0.2.2.\<close>

definition example_driver :: eth_driver where
  "example_driver = \<lparr>frame_data_size = 1500, tx_ok = \<lambda>fs. True\<rparr>"

definition asking :: ping_host where
  "asking = \<lparr>host_mac = [2, 0, 0, 0, 0, 1], localIp = ip_of 10 0 2 15, targetIp = ip_of 10 0 2 2\<rparr>"

definition asked :: ping_host where
  "asked = \<lparr>host_mac = [2, 0, 0, 0, 0, 2], localIp = ip_of 10 0 2 2, targetIp = 0\<rparr>"

definition example_arp :: g_eth_frame where
  "example_arp = frame_of example_driver
     (ethernet_bytes \<lparr>eth_dest = host_mac asking, eth_src = host_mac asked, eth_type = hostToNetwork16 0x0806\<rparr> @
      arp_bytes \<lparr>htype = hostToNetwork16 1, ptype = hostToNetwork16 0x0800, hlen = 6, plen = 4, oper = hostToNetwork16 2,
        sha = host_mac asked, spa = hostToNetwork32 (localIp asked), tha = host_mac asking, tpa = hostToNetwork32 (localIp asking)\<rparr>)"

definition example_echo :: g_eth_frame where
  "example_echo = peer_reply example_driver
     \<lparr>eth_dest = host_mac asked, eth_src = host_mac asking, eth_type = hostToNetwork16 0x0800\<rparr> (echo_ip asking) (echo_icmp 1) 64 0 0"

section \<open>Properties\<close>

text \<open>
  C10. Address resolution between two hosts: the request that one sends for the address of the other is
  answered by the other and by no host with another address, and the answer gives the asking host, and no
  host with another address, the hardware address of the other.
\<close>

theorem arp_resolves:
  assumes "length (host_mac A) = 6" "length (host_mac B) = 6" "42 \<le> frame_data_size K" "localIp B = targetIp A"
  shows "\<exists>req rep. sendArpRequest K A w = w\<lparr>sent := sent w @ [req]\<rparr> \<and>
    handleArpRequest K B req u = Some (True, u\<lparr>sent := sent u @ [rep]\<rparr>) \<and> tryParseArpReply A rep = Some (Some (host_mac B)) \<and>
    (localIp C \<noteq> targetIp A \<longrightarrow> handleArpRequest K C req v = Some (False, v)) \<and>
    (localIp C \<noteq> localIp A \<longrightarrow> tryParseArpReply C rep = Some None)"
proof -
  let ?e = "\<lparr>eth_dest = replicate 6 0xFF, eth_src = host_mac A, eth_type = hostToNetwork16 0x0806\<rparr>"
  let ?p = "\<lparr>htype = hostToNetwork16 1, ptype = hostToNetwork16 0x0800, hlen = 6, plen = 4, oper = hostToNetwork16 1,
    sha = host_mac A, spa = hostToNetwork32 (localIp A), tha = replicate 6 0, tpa = hostToNetwork32 (targetIp A)\<rparr>"
  let ?f = "\<lparr>eth_dest = host_mac A, eth_src = host_mac B, eth_type = hostToNetwork16 0x0806\<rparr>"
  let ?q = "\<lparr>htype = hostToNetwork16 1, ptype = hostToNetwork16 0x0800, hlen = 6, plen = 4, oper = hostToNetwork16 2,
    sha = host_mac B, spa = hostToNetwork32 (localIp B), tha = host_mac A, tpa = hostToNetwork32 (localIp A)\<rparr>"
  have "sendArpRequest K A w = w\<lparr>sent := sent w @ [frame_of K (ethernet_bytes ?e @ arp_bytes ?p)]\<rparr>"
    using assms(1,3) by (simp add: sendArpRequest_def sendFrame_fits)
  moreover have "sendArpReply K B (host_mac A) (localIp A) u = u\<lparr>sent := sent u @ [frame_of K (ethernet_bytes ?f @ arp_bytes ?q)]\<rparr>"
    using assms(1-3) by (simp add: sendArpReply_def sendFrame_fits)
  ultimately show ?thesis
    using assms handle_arp_frame(1) [of ?e ?p K B K u] handle_arp_frame(1) [of ?e ?p K C K v] handle_arp_frame(2) [of ?f ?q A K]
      handle_arp_frame(2) [of ?f ?q C K]
    by (intro exI [of _ "frame_of K (ethernet_bytes ?e @ arp_bytes ?p)"] exI [of _ "frame_of K (ethernet_bytes ?f @ arp_bytes ?q)"])
      (simp add: networkToHost16_def networkToHost32_def)
qed

theorem arp_resolves_witness:
  "\<exists>req rep. sendArpRequest example_driver asking \<lparr>sent = [], incoming = [], slept = 0\<rparr> = \<lparr>sent = [req], incoming = [], slept = 0\<rparr> \<and>
    handleArpRequest example_driver asked req \<lparr>sent = [], incoming = [], slept = 0\<rparr> = Some (True, \<lparr>sent = [rep], incoming = [], slept = 0\<rparr>) \<and>
    tryParseArpReply asking rep = Some (Some [2, 0, 0, 0, 0, 2])"
  using arp_resolves [of asking asked example_driver "\<lparr>sent = [], incoming = [], slept = 0\<rparr>" "\<lparr>sent = [], incoming = [], slept = 0\<rparr>"]
  by (simp add: asking_def asked_def example_driver_def) blast

text \<open>
  C20. The echo request: a receiver that checks them finds both checksums right, and a reply to it (type and
  addresses exchanged, with any time to live and checksums) is taken as the answer to exactly its sequence number.
\<close>

theorem echo_answered:
  assumes "length (host_mac H) = 6" "length mac = 6" "74 \<le> frame_data_size K"
  shows "\<exists>f e h p. sendIcmpEcho K H sequ mac w = (tx_ok K (sent w @ [f]), w\<lparr>sent := sent w @ [f]\<rparr>) \<and> frame_length f = 74 \<and>
    ethernet_at 0 (frame_data f) = Some e \<and> ipv4_at 14 (frame_data f) = Some h \<and> icmp_at 34 (frame_data f) = Some p \<and>
    eth_dest e = mac \<and> checksum16 (take 20 (drop 14 (frame_data f))) = 0 \<and> checksum16 (take 40 (drop 34 (frame_data f))) = 0 \<and>
    tryHandleIcmpReply H (peer_reply K e h p t hc pc) sequ' = Some (sequ' = sequ)"
proof -
  let ?e = "\<lparr>eth_dest = mac, eth_src = host_mac H, eth_type = hostToNetwork16 0x0800\<rparr>"
  let ?h = "echo_ip H" and ?p = "echo_icmp sequ"
  let ?f = "frame_of K (ethernet_bytes ?e @ ipv4_bytes ?h @ icmp_bytes ?p)"
  have "take 20 (drop 14 (frame_data ?f)) = ipv4_bytes ?h" "take 40 (drop 34 (frame_data ?f)) = icmp_bytes ?p"
    using assms(1,2) by (simp_all add: frame_of_def)
  moreover have "tryHandleIcmpReply H (peer_reply K ?e ?h ?p t hc pc) sequ' = Some (sequ = sequ')"
    using peer_reply_read [of ?e ?h H ?p K t hc pc sequ'] assms(1,2)
    by (simp add: echo_ip_def echo_icmp_def Let_def networkToHost16_def echo_payload_def)
  moreover have "sendIcmpEcho K H sequ mac w = (tx_ok K (sent w @ [?f]), w\<lparr>sent := sent w @ [?f]\<rparr>)"
    using assms by (simp add: sendIcmpEcho_def Let_def sendFrame_fits)
  ultimately show ?thesis
    using assms echo_frame [of ?e ?p K ?h] echo_checksums(1) [of H] echo_checksums(2) [of sequ]
    by (intro exI [of _ ?f] exI [of _ ?e] exI [of _ ?h] exI [of _ ?p]) auto
qed

theorem echo_answered_witness:
  "\<exists>f e h p. sendIcmpEcho example_driver asking 1 [2, 0, 0, 0, 0, 2] \<lparr>sent = [], incoming = [], slept = 0\<rparr>
      = (True, \<lparr>sent = [f], incoming = [], slept = 0\<rparr>) \<and>
    tryHandleIcmpReply asking (peer_reply example_driver e h p 63 0 0) 2 = Some False"
  using echo_answered [of asking "[2, 0, 0, 0, 0, 2]" example_driver 1 "\<lparr>sent = [], incoming = [], slept = 0\<rparr>" 63 0 0 2]
  by (auto simp: asking_def example_driver_def)

text \<open>
  C12. The program ends for every traffic on the network: with two addresses of one network as arguments it
  makes at most 400 reads for the hardware address and at most 500 for the echo, and returns 0 exactly when
  the first 400 reads have an answer to the ARP request and the 500 reads behind it an echo reply.
\<close>

theorem ping_outcome:
  assumes "3 \<le> length argv" "argv ! 1 \<noteq> NULL" "argv ! 2 \<noteq> NULL"
    and "str_at m (argv ! 1) (ip_text a b c d)" "str_at m (argv ! 2) (ip_text a b c e)"
    and "0 \<le> a" "a \<le> 255" "0 \<le> b" "b \<le> 255" "0 \<le> c" "c \<le> 255" "0 \<le> d" "d \<le> 255" "0 \<le> e" "e \<le> 255"
    and "length mac = 6" "whole_frames (incoming w)" "74 \<le> frame_data_size K" "\<And>fs. tx_ok K fs"
  defines "H \<equiv> \<lparr>host_mac = mac, localIp = ip_of a b c e, targetIp = ip_of a b c d\<rparr>"
  shows "\<exists>w'. ping_main K (Some mac) m argv w = Some (case first_answer (arp_answer H) 400 (incoming w) of
      None \<Rightarrow> - 1
    | Some (_, rs) \<Rightarrow> if \<exists>r\<in>set (take 500 rs). echo_answer H 1 r then 0 else - 1, w')"
proof -
  have p: "parseIp m (argv ! 1) = Some (Some (ip_of a b c d))" "parseIp m (argv ! 2) = Some (Some (ip_of a b c e))"
    using parse_ip_text [OF assms(4,2,6-13)] parse_ip_text [OF assms(5,3,6-11,14,15)] by (simp_all add: ip_of_def)
  have i: "incoming (sendArpRequest K H w) = incoming w" by simp
  from resolve_loop_correct [of "sendArpRequest K H w" 400 K H] assms(17) obtain w1 where
    r: "resolveTargetMac K H w = Some (map_option fst (first_answer (arp_answer H) 400 (incoming w)), w1)"
      "\<forall>x rs. first_answer (arp_answer H) 400 (incoming w) = Some (x, rs) \<longrightarrow> incoming w1 = rs"
    unfolding i by (auto simp: resolveTargetMac_def)
  show ?thesis
  proof (cases "first_answer (arp_answer H) 400 (incoming w)")
    case None
    then show ?thesis
      using p r(1) same_network [OF assms(12-15), of a b c] assms(1) by (simp add: ping_main_def H_def)
  next
    case (Some x)
    then obtain t rs where x: "first_answer (arp_answer H) 400 (incoming w) = Some (t, rs)" by (cases x) simp
    from first_answer_from [OF x] arp_answer_length [OF assms(17)] have t: "length t = 6" by blast
    have "fst (sendIcmpEcho K H 1 t w1)" "incoming (snd (sendIcmpEcho K H 1 t w1)) = rs"
      using r(2) x t assms(16,18,19) by (simp_all add: sendIcmpEcho_def Let_def sendFrame_fits H_def)
    then obtain w2 where s: "sendIcmpEcho K H 1 t w1 = (True, w2)" "incoming w2 = rs" by (cases "sendIcmpEcho K H 1 t w1") auto
    have "whole_frames rs" using first_answer_subset [OF x] assms(17) by (auto simp: whole_frames_def)
    then obtain w3 where "awaitIcmpReply K H 1 w2 = Some (\<exists>r\<in>set (take 500 rs). echo_answer H 1 r, w3)"
      using await_loop_correct [of w2 500 K H 1] s(2) by (auto simp: awaitIcmpReply_def)
    then have "ping_main K (Some mac) m argv w = Some (if \<exists>r\<in>set (take 500 rs). echo_answer H 1 r then 0 else - 1, w3)"
      using p r(1) x s(1) same_network [OF assms(12-15), of a b c] assms(1) by (simp add: ping_main_def H_def Let_def)
    then show ?thesis using x by (simp only: option.case prod.case) blast
  qed
qed

theorem ping_outcome_witness:
  "\<exists>w'. ping_main example_driver (Some [2, 0, 0, 0, 0, 1])
      (store (store (\<lambda>_. Some 0) 100 (lit ''10.0.2.2'')) 200 (lit ''10.0.2.15'')) [50, 100, 200]
      \<lparr>sent = [], incoming = [None, Some example_arp, None, Some example_echo], slept = 0\<rparr> = Some (0, w')"
proof -
  let ?m = "store (store (\<lambda>_. Some 0) 100 (lit ''10.0.2.2'')) 200 (lit ''10.0.2.15'')"
  let ?w = "\<lparr>sent = [], incoming = [None, Some example_arp, None, Some example_echo], slept = 0\<rparr>"
  have H: "asking = \<lparr>host_mac = [2, 0, 0, 0, 0, 1], localIp = ip_of 10 0 2 15, targetIp = ip_of 10 0 2 2\<rparr>" by (rule asking_def)
  have "tryParseArpReply asking example_arp = Some (Some [2, 0, 0, 0, 0, 2])"
    unfolding example_arp_def by (subst handle_arp_frame(2)) (simp_all add: asking_def asked_def networkToHost16_def networkToHost32_def)
  then have a: "first_answer (arp_answer asking) 400 (incoming ?w) = Some ([2, 0, 0, 0, 0, 2], [None, Some example_echo])"
    using first_answer_at [of "[None]" "arp_answer asking" 400 "Some example_arp"] by (simp add: arp_answer_def)
  have "tryHandleIcmpReply asking example_echo 1 = Some True"
    unfolding example_echo_def by (subst peer_reply_read)
      (simp_all add: asking_def asked_def echo_ip_def echo_icmp_def echo_payload_def Let_def networkToHost16_def)
  then have e: "echo_answer asking 1 (Some example_echo)" by (simp add: echo_answer_def)
  have t: "ip_text 10 0 2 2 = lit ''10.0.2.2''" "ip_text 10 0 2 15 = lit ''10.0.2.15''"
    by (simp_all add: ip_text_def decimal_def digits_of.simps)
  have f: "whole_frames (incoming ?w)"
    by (simp add: whole_frames_def example_arp_def example_echo_def peer_reply_def frame_of_def example_driver_def asking_def asked_def)
  show ?thesis
    using ping_outcome [of "[50, 100, 200]" ?m 10 0 2 2 15 "[2, 0, 0, 0, 0, 1]" ?w example_driver] a e f
    unfolding H [symmetric] by (simp add: t example_driver_def)
qed

end
