(* ===== verification/Ramdisk.thy ===== *)
theory Ramdisk
  imports Ctype
begin

text \<open>
  The ramdisk writer (\<open>tools/ramdisk-writer/src/ghost_ramdisk.cpp\<close>), which packs a folder into one file, and the
  format that \<open>documentation/ramdisk/ramdisk-format.adoc\<close> gives for it.
\<close>

section \<open>The folder\<close>

text \<open>
  What \<open>opendir\<close>, \<open>readdir\<close>, \<open>stat\<close> and reading the file find at a path: nothing if \<open>stat\<close> fails, otherwise the
  mode, the size, the bytes of the file and, if it can be opened as a directory, its entries in the order
  of \<open>readdir\<close>, with \<open>.\<close> and \<open>..\<close>.
\<close>

datatype fs_node =
    No_Stat
  | Fs_Node int int "byte list" "(byte list \<times> fs_node) list option"

abbreviation (input) HOST_S_IFREG :: int where "HOST_S_IFREG \<equiv> 0x8000"
abbreviation (input) HOST_S_IFDIR :: int where "HOST_S_IFDIR \<equiv> 0x4000"

section \<open>Ignored paths\<close>

text \<open>\<open>std::string::find\<close>: the first position, \<open>npos\<close> if there is none.\<close>

abbreviation (input) npos :: int where "npos \<equiv> ULONG_MAX"

fun str_find :: "byte list \<Rightarrow> byte list \<Rightarrow> nat option" where
  "str_find part s =
     (if take (length part) s = part then Some 0
      else (case s of [] \<Rightarrow> None | _ # s \<Rightarrow> map_option Suc (str_find part s)))"

declare str_find.simps [simp del]

definition find_pos :: "byte list \<Rightarrow> byte list \<Rightarrow> int" where
  "find_pos part s = (case str_find part s of None \<Rightarrow> npos | Some i \<Rightarrow> int i)"

definition ignored_by :: "byte list \<Rightarrow> byte list \<Rightarrow> byte list \<Rightarrow> bool" where
  "ignored_by base path ign \<longleftrightarrow>
     find_pos (lit ''*'') ign = 0 \<and>
       find_pos (drop 1 ign) path = u64 (int (length path) - int (length (drop 1 ign))) \<or>
     find_pos (lit ''*'') ign = u64 (int (length ign) - 1) \<and>
       find_pos (base @ bc CHR ''/'' # butlast ign) path = 0 \<or>
     base @ bc CHR ''/'' # ign = path"

definition ignored :: "byte list list \<Rightarrow> byte list \<Rightarrow> byte list \<Rightarrow> bool" where
  "ignored ignores base path \<longleftrightarrow> list_ex (ignored_by base path) ignores"

text \<open>\<open>None\<close> is the exception that \<open>substr\<close> throws when the line has only white space.\<close>

definition trim :: "byte list \<Rightarrow> byte list option" where
  "trim str =
     (if str = [] then Some str
      else let blank = (\<lambda>c. c \<in> set [32, 13, 10, 9]) in
        if list_all blank str then None
        else Some (rev (dropWhile blank (rev (dropWhile blank str)))))"

text \<open>The lines that \<open>getline\<close> reads.\<close>

function read_lines :: "byte list \<Rightarrow> byte list list" where
  "read_lines s =
     (if s = [] then []
      else takeWhile (\<lambda>c. c \<noteq> 10) s # (case dropWhile (\<lambda>c. c \<noteq> 10) s of [] \<Rightarrow> [] | _ # r \<Rightarrow> read_lines r))"
  by pat_completeness auto
termination
proof (relation "measure length", goal_cases)
  case (2 s x r)
  have "length (dropWhile (\<lambda>c. c \<noteq> 10) s) \<le> length s" by (rule length_dropWhile_le)
  with 2 show ?case by simp
qed simp

declare read_lines.simps [simp del]

fun trim_all :: "byte list list \<Rightarrow> byte list list option" where
  "trim_all [] = Some []"
| "trim_all (line # lines) =
     (if length line > 0 then do { t \<leftarrow> trim line; ts \<leftarrow> trim_all lines; Some (t # ts) } else trim_all lines)"

section \<open>Writing\<close>

definition le32 :: "int \<Rightarrow> byte list" where
  "le32 n = [to_byte (and n 0xFF), to_byte (and (drop_bit 8 n) 0xFF), to_byte (and (drop_bit 16 n) 0xFF), to_byte (and (drop_bit 24 n) 0xFF)]"

definition entry_header :: "bool \<Rightarrow> int \<Rightarrow> int \<Rightarrow> byte list \<Rightarrow> byte list" where
  "entry_header isFile entryId parentId name =
     (if isFile then 1 else 0) # le32 entryId @ le32 parentId @ le32 (int (length name)) @ name"

text \<open>
  The state is \<open>idCounter\<close>, an \<open>int\<close>, and what was written.  The root is not written; its number is 0.  \<open>None\<close> is
  undefined behaviour: the counter leaves the range of its type, or the name does not fit into the buffer.
\<close>

fun writeRecursive ::
    "byte list list \<Rightarrow> byte list \<Rightarrow> byte list \<Rightarrow> byte list \<Rightarrow> int \<Rightarrow> int \<Rightarrow> bool \<Rightarrow> fs_node \<Rightarrow> int \<times> byte list \<Rightarrow> (int \<times> byte list) option"
  and write_folder ::
    "byte list list \<Rightarrow> byte list \<Rightarrow> byte list \<Rightarrow> int \<Rightarrow> (byte list \<times> fs_node) list \<Rightarrow> int \<times> byte list \<Rightarrow> (int \<times> byte list) option" where
  "writeRecursive ignores base path name contentLength parentId isFile node (idCounter, out) =
     (if ignored ignores base path then Some (idCounter, out)
      else if idCounter = INT_MAX then None
      else
        let entryId = u32 idCounter; idCounter = idCounter + 1;
            out = (if entryId > 0 then out @ entry_header isFile entryId parentId name else out) in
        if entryId > 0 \<and> 0x10000 < length name then None
        else (case node of
           No_Stat \<Rightarrow> Some (idCounter, if isFile then out @ le32 contentLength else out)
         | Fs_Node mode fsize content children \<Rightarrow>
             if isFile then Some (idCounter, out @ le32 contentLength @ content)
             else (case children of
               None \<Rightarrow> Some (idCounter, out)
             | Some es \<Rightarrow> write_folder ignores base path entryId es (idCounter, out))))"
| "write_folder ignores base path entryId [] s = Some s"
| "write_folder ignores base path entryId ((d_name, node) # es) s =
     (case node of
        No_Stat \<Rightarrow> Some s
      | Fs_Node mode fsize content children \<Rightarrow>
          let entryPath = path @ bc CHR ''/'' # d_name in
          if and mode HOST_S_IFREG \<noteq> 0 then
            Option.bind (writeRecursive ignores base entryPath d_name (u32 fsize) entryId True node s)
              (write_folder ignores base path entryId es)
          else if and mode HOST_S_IFDIR \<noteq> 0 \<and> \<not> (d_name = lit ''.'' \<or> d_name = lit ''..'') then
            Option.bind (writeRecursive ignores base entryPath d_name 0 entryId False node s)
              (write_folder ignores base path entryId es)
          else write_folder ignores base path entryId es s)"

text \<open>
  \<open>create\<close>: the bytes of the image.  \<open>rdignore\<close> is the content of \<open>.rdignore\<close>, if there is one, and the target can be
  opened.
\<close>

definition patterns :: "byte list option \<Rightarrow> byte list list option" where
  "patterns rdignore = (case rdignore of None \<Rightarrow> Some [] | Some s \<Rightarrow> trim_all (read_lines s))"

definition create :: "byte list option \<Rightarrow> byte list \<Rightarrow> fs_node \<Rightarrow> byte list option" where
  "create rdignore sourcePath root = do {
     ignores \<leftarrow> patterns rdignore;
     (_, out) \<leftarrow> writeRecursive ignores sourcePath sourcePath [] 0 0 False root (0, []);
     Some out
   }"

section \<open>The format\<close>

text \<open>An entry as the document describes it, its bytes, and reading a whole image.\<close>

record rd_entry =
  e_file :: bool
  e_id :: int
  e_parent :: int
  e_name :: "byte list"
  e_data :: "byte list"

definition entry_bytes :: "rd_entry \<Rightarrow> byte list" where
  "entry_bytes e = entry_header (e_file e) (e_id e) (e_parent e) (e_name e) @
     (if e_file e then le32 (int (length (e_data e))) @ e_data e else [])"

definition num32 :: "byte list \<Rightarrow> int" where
  "num32 s = uv (s ! 0) + 256 * uv (s ! 1) + 65536 * uv (s ! 2) + 16777216 * uv (s ! 3)"

function read_image :: "byte list \<Rightarrow> rd_entry list option" where
  "read_image s =
     (if s = [] then Some []
      else if length s < 13 then None
      else
        let n = nat (num32 (drop 9 s)); name = take n (drop 13 s); rest = drop (13 + n) s;
            e = \<lparr>e_file = (s ! 0 = 1), e_id = num32 (drop 1 s), e_parent = num32 (drop 5 s), e_name = name, e_data = []\<rparr> in
        if length s < 13 + n then None
        else if s ! 0 = 0 then map_option (\<lambda>es. e # es) (read_image rest)
        else if s ! 0 = 1 \<and> 4 \<le> length rest \<and> 4 + nat (num32 rest) \<le> length rest then
          map_option (\<lambda>es. e\<lparr>e_data := take (nat (num32 rest)) (drop 4 rest)\<rparr> # es) (read_image (drop (4 + nat (num32 rest)) rest))
        else None)"
  by pat_completeness auto
termination by (relation "measure length") auto

declare read_image.simps [simp del]

text \<open>Following a path through the folders of an image, from the folder with number \<open>d\<close>.\<close>

fun image_at :: "rd_entry list \<Rightarrow> int \<Rightarrow> byte list list \<Rightarrow> rd_entry option" where
  "image_at es d [] = None"
| "image_at es d (n # ns) = (case find (\<lambda>e. e_parent e = d \<and> e_name e = n) es of
     None \<Rightarrow> None
   | Some e \<Rightarrow> if ns = [] then Some e else if e_file e then None else image_at es (e_id e) ns)"

section \<open>The source\<close>

text \<open>
  Following a path in the source folder: it leads to a regular file or a folder if no part of it is ignored, and
  not through \<open>.\<close> or \<open>..\<close>.  The type of a node is in the upper bits of its mode.
\<close>

definition S_ISREG :: "int \<Rightarrow> bool" where
  "S_ISREG mode \<longleftrightarrow> and mode 0xF000 = 0x8000"

definition S_ISDIR :: "int \<Rightarrow> bool" where
  "S_ISDIR mode \<longleftrightarrow> and mode 0xF000 = 0x4000"

fun source_at ::
    "byte list list \<Rightarrow> byte list \<Rightarrow> byte list \<Rightarrow> (byte list \<times> fs_node) list \<Rightarrow> byte list list \<Rightarrow> (bool \<times> byte list) option" where
  "source_at ignores base path es [] = None"
| "source_at ignores base path es (n # ns) =
     (case map_of es n of
        Some (Fs_Node mode fsize content children) \<Rightarrow>
          let p = path @ bc CHR ''/'' # n in
          if ignored ignores base p then None
          else if S_ISREG mode then if ns = [] then Some (True, content) else None
          else if S_ISDIR mode \<and> n \<noteq> lit ''.'' \<and> n \<noteq> lit ''..'' then
            if ns = [] then Some (False, []) else Option.bind children (\<lambda>fs. source_at ignores base p fs ns)
          else None
      | _ \<Rightarrow> None)"

text \<open>The nodes such paths lead to, as a tree, and following a path in it.\<close>

datatype packed = Packed_File "byte list" | Packed_Folder "(byte list \<times> packed) list"

fun pack :: "byte list list \<Rightarrow> byte list \<Rightarrow> byte list \<Rightarrow> (byte list \<times> fs_node) list \<Rightarrow> (byte list \<times> packed) list" where
  "pack ignores base path [] = []"
| "pack ignores base path ((n, No_Stat) # es) = pack ignores base path es"
| "pack ignores base path ((n, Fs_Node mode fsize content children) # es) =
     (if ignored ignores base (path @ bc CHR ''/'' # n) then []
      else if S_ISREG mode then [(n, Packed_File content)]
      else if S_ISDIR mode \<and> n \<noteq> lit ''.'' \<and> n \<noteq> lit ''..'' then
        [(n, Packed_Folder (case children of None \<Rightarrow> [] | Some fs \<Rightarrow> pack ignores base (path @ bc CHR ''/'' # n) fs))]
      else []) @ pack ignores base path es"

fun packed_at :: "packed \<Rightarrow> byte list list \<Rightarrow> packed option" where
  "packed_at p [] = Some p"
| "packed_at (Packed_File c) (n # ns) = None"
| "packed_at (Packed_Folder es) (n # ns) = (case map_of es n of None \<Rightarrow> None | Some p \<Rightarrow> packed_at p ns)"

section \<open>Numbers\<close>

fun entries :: "(byte list \<times> packed) list \<Rightarrow> int" where
  "entries [] = 0"
| "entries ((n, Packed_File c) # es) = 1 + entries es"
| "entries ((n, Packed_Folder fs) # es) = 1 + entries fs + entries es"

fun number :: "int \<Rightarrow> int \<Rightarrow> (byte list \<times> packed) list \<Rightarrow> rd_entry list" where
  "number d c [] = []"
| "number d c ((n, Packed_File x) # es) =
     \<lparr>e_file = True, e_id = c, e_parent = d, e_name = n, e_data = x\<rparr> # number d (c + 1) es"
| "number d c ((n, Packed_Folder fs) # es) =
     \<lparr>e_file = False, e_id = c, e_parent = d, e_name = n, e_data = []\<rparr> # number c (c + 1) fs @ number d (c + 1 + entries fs) es"

lemma entries_nonneg: "0 \<le> entries es"
  by (induction es rule: entries.induct) auto

lemma entries_append: "entries (as @ bs) = entries as + entries bs"
  by (induction as rule: entries.induct) auto

lemma number_append: "number d c (as @ bs) = number d c as @ number d (c + entries as) bs"
  by (induction as arbitrary: d c rule: entries.induct) (auto simp: add.assoc)

lemma number_range:
  "e \<in> set (number d c es) \<Longrightarrow> c \<le> e_id e \<and> e_id e < c + entries es \<and> (e_parent e = d \<or> c \<le> e_parent e \<and> e_parent e < c + entries es)"
proof (induction d c es rule: number.induct)
  case (2 d c n x es)
  then show ?case using entries_nonneg [of es] by auto
next
  case (3 d c n fs es)
  then show ?case using entries_nonneg [of fs] entries_nonneg [of es] by auto
qed simp

section \<open>Paths\<close>

definition kind :: "packed \<Rightarrow> bool \<times> byte list" where
  "kind p = (case p of Packed_File x \<Rightarrow> (True, x) | Packed_Folder es \<Rightarrow> (False, []))"

text \<open>The entry of a name in a numbered folder.\<close>

lemma no_child:
  "d < c \<Longrightarrow> n \<notin> fst ` set es \<Longrightarrow> find (\<lambda>e. e_parent e = d \<and> e_name e = n) (number d c es) = None"
proof (induction d c es rule: number.induct)
  case (3 d c k fs es)
  have "find (\<lambda>e. e_parent e = d \<and> e_name e = n) (number c (c + 1) fs) = None"
    using number_range [of _ c "c + 1" fs] 3(3) by (fastforce simp: find_None_iff)
  moreover have "d < c + 1 + entries fs" using 3(3) entries_nonneg [of fs] by simp
  ultimately show ?case using 3 by (auto simp: find_append)
qed auto

lemma find_child:
  assumes "d < c" "n \<notin> fst ` set as"
  shows "\<exists>e. find (\<lambda>e. e_parent e = d \<and> e_name e = n) (number d c (as @ (n, p) # bs)) = Some e \<and>
    e_id e = c + entries as \<and> (e_file e, e_data e) = kind p"
  using no_child [OF assms]
  by (cases p) (simp_all add: number_append find_append kind_def)

lemma map_of_split: "map_of es n = Some p \<Longrightarrow> \<exists>as bs. es = as @ (n, p) # bs \<and> n \<notin> fst ` set as"
proof (induction es)
  case (Cons x es)
  show ?case
  proof (cases "fst x = n")
    case True
    then show ?thesis using Cons.prems by (intro exI [of _ "[]"] exI [of _ es]) (cases x, auto)
  next
    case False
    then obtain as bs where "es = as @ (n, p) # bs" "n \<notin> fst ` set as" using Cons by (cases x) auto
    then show ?thesis using False by (intro exI [of _ "x # as"] exI [of _ bs]) auto
  qed
qed simp

text \<open>Following a path in the image and in the folder; the entries around those of the folder belong elsewhere.\<close>

definition elsewhere :: "int \<Rightarrow> int \<Rightarrow> int \<Rightarrow> rd_entry list \<Rightarrow> bool" where
  "elsewhere d c n es \<longleftrightarrow> (\<forall>e\<in>set es. e_parent e \<noteq> d \<and> \<not> (c \<le> e_parent e \<and> e_parent e < c + n))"

lemma image_at_packed:
  assumes "d < c" "elsewhere d c (entries es) pre" "elsewhere d c (entries es) post" "ns \<noteq> []"
  shows "map_option (\<lambda>e. (e_file e, e_data e)) (image_at (pre @ number d c es @ post) d ns) =
    map_option kind (packed_at (Packed_Folder es) ns)"
  using assms
proof (induction ns arbitrary: d c es pre post)
  case (Cons n ns)
  have out: "find (\<lambda>e. e_parent e = d \<and> e_name e = n) pre = None" "find (\<lambda>e. e_parent e = d \<and> e_name e = n) post = None"
    using Cons.prems(2,3) by (auto simp: elsewhere_def find_None_iff)
  show ?case
  proof (cases "map_of es n")
    case None
    then have "n \<notin> fst ` set es" by (simp add: map_of_eq_None_iff)
    with no_child [OF Cons.prems(1), of n es] out None show ?thesis by (simp add: find_append)
  next
    case (Some p)
    then obtain as bs where es: "es = as @ (n, p) # bs" "n \<notin> fst ` set as" using map_of_split [OF Some] by blast
    obtain e where e: "find (\<lambda>e. e_parent e = d \<and> e_name e = n) (number d c es) = Some e"
      "e_id e = c + entries as" "(e_file e, e_data e) = kind p"
      using find_child [OF Cons.prems(1) es(2), of p bs] es(1) by auto
    then have f: "find (\<lambda>e. e_parent e = d \<and> e_name e = n) (pre @ number d c es @ post) = Some e"
      using out by (simp add: find_append)
    show ?thesis
    proof (cases "ns = []")
      case True
      then show ?thesis using f e(3) Some by simp
    next
      case ns: False
      show ?thesis
      proof (cases p)
        case (Packed_File x)
        then have "e_file e" using e(3) by (simp add: kind_def)
        then show ?thesis using f Some Packed_File ns by (cases ns) simp_all
      next
        case (Packed_Folder fs)
        let ?c = "c + entries as"
        let ?pre = "pre @ number d c as @ [\<lparr>e_file = False, e_id = ?c, e_parent = d, e_name = n, e_data = []\<rparr>]"
        let ?post = "number d (?c + 1 + entries fs) bs @ post"
        have n: "entries es = entries as + 1 + entries fs + entries bs" by (simp add: es(1) Packed_Folder entries_append)
        have "elsewhere ?c (?c + 1) (entries fs) ?pre"
          using Cons.prems(1,2) number_range [of _ d c as] n entries_nonneg [of as] entries_nonneg [of bs] entries_nonneg [of fs]
          by (fastforce simp: elsewhere_def)
        moreover have "elsewhere ?c (?c + 1) (entries fs) ?post"
          using Cons.prems(1,3) number_range [of _ d "?c + 1 + entries fs" bs] n entries_nonneg [of as] entries_nonneg [of bs] entries_nonneg [of fs]
          by (fastforce simp: elsewhere_def)
        moreover have "pre @ number d c es @ post = ?pre @ number ?c (?c + 1) fs @ ?post"
          by (simp add: es(1) Packed_Folder number_append)
        ultimately have "map_option (\<lambda>e. (e_file e, e_data e)) (image_at (pre @ number d c es @ post) ?c ns) =
            map_option kind (packed_at (Packed_Folder fs) ns)"
          using Cons.IH [of ?c "?c + 1" fs ?pre ?post] ns by simp
        moreover have "\<not> e_file e" using e(3) Packed_Folder by (simp add: kind_def)
        ultimately show ?thesis using f e(2) Some Packed_Folder ns by simp
      qed
    qed
  qed
qed simp

section \<open>The image of a folder\<close>

text \<open>
  A folder that can be packed: \<open>stat\<close> succeeds for every entry and reports the size of a file, the names differ and
  fit into the buffer, the sizes into the format, and there are neither sockets nor block devices, whose modes
  have the bits of files and folders.
\<close>

fun folder_ok :: "(byte list \<times> fs_node) list \<Rightarrow> bool" where
  "folder_ok [] \<longleftrightarrow> True"
| "folder_ok ((n, No_Stat) # es) \<longleftrightarrow> False"
| "folder_ok ((n, Fs_Node mode fsize content children) # es) \<longleftrightarrow>
     n \<notin> fst ` set es \<and> length n \<le> 0x10000 \<and> and mode 0xF000 \<in> {0x8000, 0x4000, 0x2000, 0x1000} \<and>
     (S_ISREG mode \<longrightarrow> fsize = int (length content) \<and> fsize < 2 ^ 32) \<and>
     (case children of None \<Rightarrow> True | Some fs \<Rightarrow> folder_ok fs) \<and> folder_ok es"

lemma mode_bits:
  assumes "and mode 0xF000 \<in> {0x8000, 0x4000, 0x2000, 0x1000}"
  shows "and mode HOST_S_IFREG \<noteq> 0 \<longleftrightarrow> S_ISREG mode" "and mode HOST_S_IFDIR \<noteq> 0 \<longleftrightarrow> S_ISDIR mode"
proof -
  have "and mode 0x8000 = and (and mode 0xF000) 0x8000" "and mode 0x4000 = and (and mode 0xF000) 0x4000"
    by (simp_all add: and.assoc)
  with assms show "and mode HOST_S_IFREG \<noteq> 0 \<longleftrightarrow> S_ISREG mode" "and mode HOST_S_IFDIR \<noteq> 0 \<longleftrightarrow> S_ISDIR mode"
    by (auto simp: S_ISREG_def S_ISDIR_def)
qed

lemma write_folder_correct:
  assumes "folder_ok es" "0 < c" "c + entries (pack ignores base path es) \<le> INT_MAX"
  shows "write_folder ignores base path d es (c, out) =
    Some (c + entries (pack ignores base path es), out @ concat (map entry_bytes (number d c (pack ignores base path es))))"
  using assms
proof (induction ignores base path es arbitrary: d c out rule: pack.induct)
  case (3 ignores base path n mode fsize content children es)
  let ?p = "path @ bc CHR ''/'' # n"
  note rest = 3(2)
  have s: "folder_ok es" "length n \<le> 0x10000" "S_ISREG mode \<Longrightarrow> u32 fsize = int (length content)" using 3(3) by (simp_all add: u32_id)
  have bits: "and mode HOST_S_IFREG \<noteq> 0 \<longleftrightarrow> S_ISREG mode" "and mode HOST_S_IFDIR \<noteq> 0 \<longleftrightarrow> S_ISDIR mode"
    using 3(3) mode_bits [of mode] by simp_all
  have c: "u32 c = c" using 3(4,5) entries_nonneg [of "pack ignores base path ((n, Fs_Node mode fsize content children) # es)"]
    by (simp add: u32_id)
  show ?case
  proof (cases "ignored ignores base ?p \<or> \<not> S_ISREG mode \<and> \<not> (S_ISDIR mode \<and> n \<noteq> lit ''.'' \<and> n \<noteq> lit ''..'')")
    case True
    then show ?thesis using rest [OF s(1) 3(4), of d out] 3(5) by (auto simp: Let_def bits)
  next
    case False
    show ?thesis
    proof (cases "S_ISREG mode")
      case True
      have i: "c + 1 + entries (pack ignores base path es) \<le> INT_MAX" using 3(5) False True by simp
      then have "c \<noteq> INT_MAX" using entries_nonneg [of "pack ignores base path es"] by simp
      with rest [OF s(1) _ i] 3(4) False True s(2,3) c show ?thesis
        by (simp add: Let_def entry_bytes_def add.assoc bits)
    next
      case dir: False
      show ?thesis
      proof (cases children)
        case None
        have i: "c + 1 + entries (pack ignores base path es) \<le> INT_MAX" using 3(5) False dir None by simp
        then have "c \<noteq> INT_MAX" using entries_nonneg [of "pack ignores base path es"] by simp
        with rest [OF s(1) _ i] 3(4) False dir None s(2) c show ?thesis
          by (simp add: Let_def entry_bytes_def add.assoc bits)
      next
        case (Some fs)
        let ?fs = "pack ignores base ?p fs"
        have i: "c + 1 + entries ?fs \<le> INT_MAX" "c + 1 + entries ?fs + entries (pack ignores base path es) \<le> INT_MAX"
          using 3(5) False dir Some entries_nonneg [of "pack ignores base path es"] by simp_all
        have f: "folder_ok fs" "c \<noteq> INT_MAX" using 3(3) Some i(1) entries_nonneg [of ?fs] by simp_all
        have b: "\<not> ignored ignores base ?p" "S_ISDIR mode \<and> n \<noteq> lit ''.'' \<and> n \<noteq> lit ''..''" using False dir by auto
        have inner: "write_folder ignores base ?p c fs (c + 1, out @ entry_header False c d n) =
          Some (c + 1 + entries ?fs, (out @ entry_header False c d n) @ concat (map entry_bytes (number c (c + 1) ?fs)))"
          using 3(4) by (intro 3(1) [OF b(1) dir b(2) Some f(1) _ i(1)]) simp
        have outer: "write_folder ignores base path d es (c + 1 + entries ?fs, z) =
          Some (c + 1 + entries ?fs + entries (pack ignores base path es), z @ concat (map entry_bytes (number d (c + 1 + entries ?fs) (pack ignores base path es))))" for z
          using 3(4) entries_nonneg [of ?fs] by (intro rest [OF s(1) _ i(2)]) simp
        have head: "entry_bytes \<lparr>e_file = False, e_id = c, e_parent = d, e_name = n, e_data = []\<rparr> = entry_header False c d n"
          by (simp add: entry_bytes_def)
        show ?thesis using 3(4) b dir Some s(2) c f(2)
          by (simp add: Let_def bits inner [simplified] outer [unfolded add.assoc, simplified] head add.assoc)
      qed
    qed
  qed
qed simp_all

lemma low_byte: "uv (to_byte (and x 0xFF)) = x mod 256"
proof -
  have "and x 0xFF = take_bit 8 x" by (simp add: take_bit_eq_mask mask_numeral)
  then show ?thesis by (simp add: uv_def to_byte_def uint_word_of_int take_bit_eq_mod)
qed

lemma num32_le32:
  assumes "0 \<le> n" "n < 2 ^ 32"
  shows "num32 (le32 n @ r) = n"
proof -
  let ?a = "n div 256" and ?b = "n div 256 div 256" and ?c = "n div 256 div 256 div 256"
  have "n div 65536 = ?b" "n div 16777216 = ?c" by (simp_all add: zdiv_zmult2_eq [symmetric])
  then have "num32 (le32 n @ r) = n mod 256 + 256 * (?a mod 256) + 65536 * (?b mod 256) + 16777216 * (?c mod 256)"
    by (simp add: num32_def le32_def low_byte drop_bit_eq_div)
  moreover have "?c < 256" "0 \<le> ?c" using assms by (simp_all add: zdiv_zmult2_eq [symmetric] pos_imp_zdiv_nonneg_iff)
  then have "?c mod 256 = ?c" by simp
  ultimately show ?thesis using mult_div_mod_eq [of 256 n] mult_div_mod_eq [of 256 ?a] mult_div_mod_eq [of 256 ?b] by linarith
qed

lemma length_le32 [simp]: "length (le32 n) = 4"
  by (simp add: le32_def)

text \<open>Entries the format can hold, and reading them back.\<close>

definition entry_ok :: "rd_entry \<Rightarrow> bool" where
  "entry_ok e \<longleftrightarrow> 0 \<le> e_id e \<and> e_id e < 2 ^ 32 \<and> 0 \<le> e_parent e \<and> e_parent e < 2 ^ 32 \<and>
     int (length (e_name e)) < 2 ^ 32 \<and> int (length (e_data e)) < 2 ^ 32 \<and> (e_file e \<or> e_data e = [])"

lemma drop_le32: "drop 4 (le32 n @ r) = r"
  by simp

lemma read_entry:
  assumes "entry_ok e"
  shows "read_image (entry_bytes e @ r) = map_option (\<lambda>es. e # es) (read_image r)"
proof -
  let ?t = "if e_file e then 1 else 0 :: byte"
  let ?s = "entry_bytes e @ r"
  let ?d = "if e_file e then le32 (int (length (e_data e))) @ e_data e else []"
  have s: "?s = ?t # le32 (e_id e) @ le32 (e_parent e) @ le32 (int (length (e_name e))) @ e_name e @ ?d @ r"
    by (simp add: entry_bytes_def entry_header_def)
  have h: "?s ! 0 = ?t" "length ?s \<ge> 13" "num32 (drop 1 ?s) = e_id e" "num32 (drop 5 ?s) = e_parent e"
    "num32 (drop 9 ?s) = int (length (e_name e))" "drop 13 ?s = e_name e @ ?d @ r"
    "length ?s = 13 + length (e_name e) + length ?d + length r"
    unfolding s using assms by (simp_all add: num32_le32 entry_ok_def)
  have n: "drop (13 + length (e_name e)) ?s = ?d @ r"
    unfolding drop_drop [symmetric] add.commute [of 13] h(6) by simp
  show ?thesis
  proof (cases "e_file e")
    case True
    have l: "num32 (?d @ r) = int (length (e_data e))" using True assms by (simp add: num32_le32 entry_ok_def)
    have eq: "\<lparr>e_file = True, e_id = e_id e, e_parent = e_parent e, e_name = e_name e, e_data = e_data e\<rparr> = e"
      using True by (cases e) simp
    show ?thesis
      using True h n l by (subst read_image.simps) (auto simp: Let_def eq)
  next
    case False
    then have eq: "\<lparr>e_file = False, e_id = e_id e, e_parent = e_parent e, e_name = e_name e, e_data = []\<rparr> = e"
      using assms by (cases e) (simp add: entry_ok_def)
    show ?thesis using False h n assms by (subst read_image.simps) (auto simp: Let_def entry_ok_def eq)
  qed
qed

lemma read_entries: "list_all entry_ok es \<Longrightarrow> read_image (concat (map entry_bytes es)) = Some es"
proof (induction es)
  case Nil
  show ?case by (subst read_image.simps) simp
qed (simp add: read_entry)

fun packed_ok :: "(byte list \<times> packed) list \<Rightarrow> bool" where
  "packed_ok [] \<longleftrightarrow> True"
| "packed_ok ((n, Packed_File x) # es) \<longleftrightarrow> length n \<le> 0x10000 \<and> int (length x) < 2 ^ 32 \<and> packed_ok es"
| "packed_ok ((n, Packed_Folder fs) # es) \<longleftrightarrow> length n \<le> 0x10000 \<and> packed_ok fs \<and> packed_ok es"

lemma pack_ok: "folder_ok es \<Longrightarrow> packed_ok (pack ignores base path es)"
  by (induction ignores base path es rule: pack.induct) (auto split: option.splits)

lemma number_ok:
  "packed_ok es \<Longrightarrow> 0 \<le> d \<Longrightarrow> d < 2 ^ 32 \<Longrightarrow> 0 \<le> c \<Longrightarrow> c + entries es < 2 ^ 32 \<Longrightarrow> list_all entry_ok (number d c es)"
proof (induction d c es rule: number.induct)
  case (2 d c n x es)
  then show ?case using entries_nonneg [of es] by (simp add: entry_ok_def)
next
  case (3 d c n fs es)
  then show ?case using entries_nonneg [of es] entries_nonneg [of fs] by (simp add: entry_ok_def)
qed simp

lemma number_ids: "distinct (map e_id (number d c es))"
proof (induction d c es rule: number.induct)
  case (2 d c n x es)
  then show ?case using number_range [of _ d "c + 1" es] by fastforce
next
  case (3 d c n fs es)
  have "e_id a \<noteq> e_id b" if "a \<in> set (number c (c + 1) fs)" "b \<in> set (number d (c + 1 + entries fs) es)" for a b
    using number_range [OF that(1)] number_range [OF that(2)] by simp
  moreover have "c \<notin> e_id ` set (number c (c + 1) fs)" "c \<notin> e_id ` set (number d (c + 1 + entries fs) es)"
    using number_range [of _ c "c + 1" fs] number_range [of _ d "c + 1 + entries fs" es] entries_nonneg [of fs] by fastforce+
  ultimately show ?case using 3 by auto
qed simp

text \<open>Paths in the source and in the tree.\<close>

lemma pack_names: "fst ` set (pack ignores base path es) \<subseteq> fst ` set es"
  by (induction ignores base path es rule: pack.induct) auto

lemma map_of_pack:
  assumes "folder_ok es"
  shows "map_of (pack ignores base path es) n =
    (case map_of es n of
       Some (Fs_Node mode fsize content children) \<Rightarrow> map_of (pack ignores base path [(n, Fs_Node mode fsize content children)]) n
     | _ \<Rightarrow> None)"
  using assms
proof (induction es)
  case (Cons x es)
  obtain k mode fsize content children where x: "x = (k, Fs_Node mode fsize content children)" "k \<notin> fst ` set es" "folder_ok es"
    using Cons.prems by (cases x; cases "snd x") auto
  have "map_of (pack ignores base path es) k = None"
    using x(2) pack_names [of ignores base path es] by (auto simp: map_of_eq_None_iff)
  then show ?case using Cons.IH [OF x(3)] by (cases "n = k") (auto simp: x(1) map_add_def)
qed simp

lemma packed_source:
  assumes "folder_ok es"
  shows "map_option kind (packed_at (Packed_Folder (pack ignores base path es)) (n # ns)) = source_at ignores base path es (n # ns)"
  using assms
proof (induction ns arbitrary: n es path)
  case Nil
  then show ?case by (simp add: map_of_pack kind_def Let_def split: option.split fs_node.split)
next
  case (Cons m ns)
  have sub: "folder_ok fs" if "map_of es n = Some (Fs_Node mode fsize content (Some fs))" for mode fsize content fs
    using Cons.prems that by (induction es rule: folder_ok.induct) (auto split: if_splits)
  have empty: "packed_at (Packed_Folder []) (m # ns) = None" by simp
  show ?case
  proof (cases "map_of es n")
    case None
    then show ?thesis using map_of_pack [OF Cons.prems] by simp
  next
    case (Some node)
    show ?thesis
    proof (cases node)
      case No_Stat
      then show ?thesis using Some map_of_pack [OF Cons.prems] by simp
    next
      case (Fs_Node mode fsize content children)
      then show ?thesis using Some map_of_pack [OF Cons.prems, of ignores base path n] Cons.IH [where path = "path @ bc CHR ''/'' # n" and n = m] sub
        by (cases children) (simp_all add: Let_def del: packed_at.simps(3) source_at.simps(2) add: packed_at.simps(3) [of _ n] source_at.simps(2) [of _ _ _ es n] empty)
    qed
  qed
qed

section \<open>Properties\<close>

text \<open>
  A pattern that starts with a star ignores a path only if the rest of the pattern does not occur earlier in it.
\<close>

lemma suffix_kept: "ignored_by (lit ''s'') (lit ''s/b.o'') (lit ''*.o'')" "\<not> ignored_by (lit ''s'') (lit ''s/a.o/b.o'') (lit ''*.o'')"
  by (simp_all add: ignored_by_def find_pos_def str_find.simps u64_id)

text \<open>
  If the rest of a pattern with a star in front is by one longer than the path and does not occur in it, the difference
  of the lengths wraps to \<open>npos\<close> and the path is ignored: here the source folder itself.
\<close>

lemma short_path_ignored: "ignored_by (lit ''s'') (lit ''s'') (lit ''*.o'')"
  by (simp add: ignored_by_def find_pos_def str_find.simps u64_def mask_numeral)

text \<open>
  The folder is left at the first entry for which \<open>stat\<close> fails, such as a dangling link: the entries behind it are
  not in the image.
\<close>

lemma stat_failure_drops_rest:
  "create None (lit ''s'') (Fs_Node 0x41ED 4096 [] (Some [(lit ''l'', No_Stat), (lit ''a'', Fs_Node 0x81A4 1 [7] None)])) = Some []"
  "source_at [] (lit ''s'') (lit ''s'') [(lit ''l'', No_Stat), (lit ''a'', Fs_Node 0x81A4 1 [7] None)] [lit ''a''] = Some (True, [7])"
  by (simp_all add: create_def patterns_def ignored_def S_ISREG_def Let_def u32_id)

text \<open>
  C11. Packing a folder in which \<open>stat\<close> succeeds for every entry: the image is made, it is in the documented format
  with different numbers, and every path of names that leads in the source to a regular file or a folder with no part
  of it ignored leads, followed through the numbers of the image, to an entry of that type with that content; no other
  path leads anywhere.
\<close>

theorem packed_paths_read_back:
  assumes "patterns rdignore = Some ignores" "\<not> ignored ignores source source"
    and "folder_ok es" "1 + entries (pack ignores source source es) \<le> INT_MAX"
  shows "\<exists>img ds. create rdignore source (Fs_Node mode fsize content (Some es)) = Some img \<and> read_image img = Some ds \<and>
    distinct (map e_id ds) \<and>
    (\<forall>n ns. map_option (\<lambda>e. (e_file e, e_data e)) (image_at ds 0 (n # ns)) = source_at ignores source source es (n # ns))"
proof -
  let ?es = "pack ignores source source es"
  have "create rdignore source (Fs_Node mode fsize content (Some es)) = Some (concat (map entry_bytes (number 0 1 ?es)))"
    using assms(1,2) write_folder_correct [OF assms(3) _ assms(4), of 0 "[]"] by (simp add: create_def u32_id)
  moreover have "list_all entry_ok (number 0 1 ?es)" using number_ok [OF pack_ok [OF assms(3)], of 0 1] assms(4) by simp
  then have "read_image (concat (map entry_bytes (number 0 1 ?es))) = Some (number 0 1 ?es)" by (rule read_entries)
  moreover have "map_option (\<lambda>e. (e_file e, e_data e)) (image_at (number 0 1 ?es) 0 (n # ns)) =
    source_at ignores source source es (n # ns)" for n ns
    using image_at_packed [of 0 1 ?es "[]" "[]" "n # ns"] packed_source [OF assms(3), of ignores source source n ns]
    by (simp add: elsewhere_def del: packed_at.simps source_at.simps image_at.simps)
  ultimately show ?thesis using number_ids [of 0 1 ?es] by blast
qed

theorem packed_paths_read_back_witness:
  "\<exists>img ds. create (Some (lit ''*.o'')) (lit ''src'') (Fs_Node 0x41ED 4096 [] (Some [(lit ''.'', Fs_Node 0x41ED 4096 [] None),
      (lit ''a.o'', Fs_Node 0x81A4 2 [1, 2] None), (lit ''d'', Fs_Node 0x41ED 4096 [] (Some [(lit ''b'', Fs_Node 0x81A4 1 [7] None)]))])) = Some img \<and>
    read_image img = Some ds \<and> image_at ds 0 [lit ''a.o''] = None \<and>
    map_option (\<lambda>e. (e_file e, e_data e)) (image_at ds 0 [lit ''d'', lit ''b'']) = Some (True, [7])"
proof -
  let ?es = "[(lit ''.'', Fs_Node 0x41ED 4096 [] None), (lit ''a.o'', Fs_Node 0x81A4 2 [1, 2] None),
    (lit ''d'', Fs_Node 0x41ED 4096 [] (Some [(lit ''b'', Fs_Node 0x81A4 1 [7] None)]))]"
  have pat: "patterns (Some (lit ''*.o'')) = Some [lit ''*.o'']"
    by (simp add: patterns_def read_lines.simps trim_def)
  have ign: "\<not> ignored [lit ''*.o''] (lit ''src'') (lit ''src'')" "ignored [lit ''*.o''] (lit ''src'') (lit ''src/a.o'')"
    "\<not> ignored [lit ''*.o''] (lit ''src'') (lit ''src/d'')" "\<not> ignored [lit ''*.o''] (lit ''src'') (lit ''src/d/b'')" 
    "\<not> ignored [lit ''*.o''] (lit ''src'') (lit ''src/.'')"
    by (simp_all add: ignored_def ignored_by_def find_pos_def str_find.simps u64_def mask_numeral)
  have p: "pack [lit ''*.o''] (lit ''src'') (lit ''src'') ?es = [(lit ''d'', Packed_Folder [(lit ''b'', Packed_File [7])])]"
    using ign by (simp add: S_ISREG_def S_ISDIR_def)
  have ok: "folder_ok ?es" "1 + entries (pack [lit ''*.o''] (lit ''src'') (lit ''src'') ?es) \<le> INT_MAX"
    unfolding p by (simp_all add: S_ISREG_def)
  have at: "source_at [lit ''*.o''] (lit ''src'') (lit ''src'') ?es [lit ''a.o''] = None"
    "source_at [lit ''*.o''] (lit ''src'') (lit ''src'') ?es [lit ''d'', lit ''b''] = Some (True, [7])"
    using ign by (simp_all add: S_ISREG_def S_ISDIR_def Let_def)
  from packed_paths_read_back [OF pat ign(1) ok, of "0x41ED" 4096 "[]"] obtain img ds where
    img: "create (Some (lit ''*.o'')) (lit ''src'') (Fs_Node 0x41ED 4096 [] (Some ?es)) = Some img" "read_image img = Some ds"
    and f: "map_option (\<lambda>e. (e_file e, e_data e)) (image_at ds 0 (n # ns)) = source_at [lit ''*.o''] (lit ''src'') (lit ''src'') ?es (n # ns)" for n ns
    by blast
  note found = f [of "lit ''a.o''" "[]", unfolded at(1)] f [of "lit ''d''" "[lit ''b'']", unfolded at(2)]
  show ?thesis using img found by (intro exI [of _ img] exI [of _ ds]) (simp del: image_at.simps)
qed

end
