(* ===== verification/Spec2Isabelle.thy ===== *)
theory Spec2Isabelle
  imports Mem_Ops C_String C_Token Stdlib_Num Stdlib_Sort Stdlib_Float Libgen Printf_Spec Env Getopt Stdio_Exit
    Startup Args Process Files Signals Times Terminal System_Info Shell Ping Ramdisk
begin

text \<open>
  Heartix: the C library, the terminal and the shell, ping, and the ramdisk writer.

  The program.  Heartix is an operating system; the repository holds its user space (paths below are
  relative to \<open>src\<close>).  Every program links the C library \<open>libc/src\<close>, which turns the calls of the C standard
  into system calls.  The terminal \<open>applications/terminal/src\<close> owns a screen (a window, or the text mode of the
  machine): it draws what the programs write, interprets the control sequences in it, and sends the keys to
  the program.  A program talks back to it through \<open>applications/libterminal/src\<close>, whose functions are
  control sequences out and answers in.  The shell \<open>applications/gsh/src\<close> is such a program: it edits a
  line on the terminal, parses it, and starts the programs it names, connected by pipes.  A program started
  takes its arguments apart with \<open>parseargs\<close>, runs \<open>main\<close>, and leaves through \<open>exit\<close>.  One program beside the
  shell is modelled as a whole: \<open>applications/ping\<close>, which speaks ARP and ICMP over the ethernet driver and reads
  its arguments with \<open>strtol\<close>.  \<open>tools/ramdisk-writer\<close> runs on the host and packs the system folder into the image
  that the system boots from.

  How it is modelled.  Shallowly: a C function is a function of the same name.  The types are those of the
  x86_64 target (\<open>C_Prelude\<close>): a byte is an \<open>8 word\<close> read signed by \<open>cv\<close> (\<open>char\<close>) and unsigned by \<open>uv\<close>;
  \<open>int\<close>, \<open>long\<close> and the unsigned types are integers cut to their width by \<open>s32\<close>, \<open>s64\<close>, \<open>u32\<close> and \<open>u64\<close> where the
  code can wrap.  The memory is a partial map from addresses to bytes; an access outside it makes the result
  \<open>None\<close>, as does any behaviour that C leaves undefined.  Structures are records, static variables are part of
  the state that is passed on, and system calls, allocators and everything else outside the repository are
  arguments, their documented behaviour named hypotheses (\<open>good_malloc\<close>, \<open>takes_data\<close>, \<open>good_mutexes\<close>,
  \<open>willing\<close>, ...).  The screen operations are passed as a record \<open>screen_t\<close>, which is the table of virtual
  functions of the class.

  The theories, in the order in which they build on each other:

  \<^item> \<open>C_Prelude\<close>: integers, the memory and what a range of it holds, with the rewrite rules for stores.
  \<^item> \<open>Mem_Ops\<close>, \<open>Ctype\<close>, \<open>C_String\<close>, \<open>C_Token\<close>: \<open>string\<close>, \<open>strings\<close> and \<open>ctype\<close> of the library.  Each loop has a
    lemma that says what it does to the bytes; overlapping moves, tokens and searches are properties.
  \<^item> \<open>Stdlib_Num\<close>, \<open>Stdlib_Sort\<close>, \<open>Stdlib_Float\<close>, \<open>Libgen\<close>, \<open>Env\<close>, \<open>Args\<close>: \<open>stdlib\<close> and \<open>libgen\<close>: numerals, the random
    generator, \<open>qsort\<close> and \<open>bsearch\<close>, floating-point numerals, path names, the environment, and the arguments of
    \<open>main\<close>.
  \<^item> \<open>Printf\<close>, \<open>Printf_Spec\<close>: the format interpreter \<open>vcbprintf\<close> over its callback, and the text it prints.  Its rounds
    are \<open>pf_round\<close>; a format in memory is read again in every round (\<open>vcbprintf_at\<close>), so that it may lie in the buffer
    that is written, and a literal is a list.
  \<^item> \<open>Getopt\<close>: \<open>unistd/getopt.c\<close> and \<open>unistd/getopt_long.c\<close>.
  \<^item> \<open>Kernel_IO\<close>: the record \<open>platform\<close> of file and mutex calls, and the wrappers with their error numbers.
  \<^item> \<open>Stdio\<close>, \<open>Stdio_Streams\<close>, \<open>Stdio_API\<close>: the streams of \<open>stdio\<close>: one stream, the list of open streams, the
    rest of the interface.  \<open>Stdio_Write\<close>, \<open>Stdio_Read\<close>, \<open>Stdio_Files\<close>, \<open>Stdio_Exit\<close> prove them: an output stream
    stands for the data its device has taken and what is pending (\<open>out_stream\<close>), an input stream for what is
    left in its buffer and on the device (\<open>in_stream\<close>), the list of open streams is well linked (\<open>open_list\<close>),
    and the end of the process is what these give together.
  \<^item> \<open>Startup\<close>: \<open>main.c\<close>, \<open>itanium_cxx_abi_support.c\<close>, \<open>atexit\<close>, \<open>exit\<close>: the life of a process as a step relation
    over the stack of pending calls.
  \<^item> \<open>Process\<close>, \<open>Files\<close>, \<open>Signals\<close>, \<open>Times\<close>, \<open>Terminal\<close>, \<open>System_Info\<close>: \<open>unistd\<close>, \<open>sys\<close>, \<open>signal\<close>, \<open>time\<close>, \<open>poll\<close>,
    \<open>termios\<close>, \<open>dirent\<close>, \<open>pwd\<close> and \<open>locale\<close>.
  \<^item> \<open>Shell_Parser\<close>: \<open>gsh/src/parser.cpp\<close>, and the text of a pipeline, which it reads back.
  \<^item> \<open>Terminal_Document\<close>, \<open>Screens\<close>: \<open>terminal/src/screen\<close>: the lines of a window and their rows; the window
    \<open>gui_screen_t\<close> and the text mode \<open>headless_screen_t\<close>.
  \<^item> \<open>Terminal_Stream\<close>: \<open>terminal/src/terminal.cpp\<close>: control sequences (\<open>process_bytes\<close>) and keys
    (\<open>terminal_input\<close>).
  \<^item> \<open>Terminal_Client\<close>: \<open>libterminal/src/terminal.cpp\<close>.  A \<open>session\<close> is a terminal, the state of the stream to it
    and the buffer of the library; what the library writes the terminal processes, and what that answers is
    what the library reads next.
  \<^item> \<open>Line_Editor\<close>, \<open>Shell\<close>: \<open>gsh/src/gosh.cpp\<close>: the editor of the line and its completion; the search for programs,
    the built-in commands, \<open>gshProcessExpression\<close> and the loop of \<open>main\<close>.  The kernel is the record \<open>system\<close>
    of what it answers after the calls made so far, which are recorded in order.

  \<^item> \<open>Net_Packets\<close>, \<open>Ping\<close>: \<open>ping/src/ping.cpp\<close>: byte order, packets, checksum and addresses; the handlers of
    frames, the two waiting loops and \<open>main\<close>.  The ethernet driver answers reads and writes.
  \<^item> \<open>Ramdisk\<close>: \<open>ghost_ramdisk.cpp\<close>, the format of \<open>documentation/ramdisk\<close>, and following paths in an image and in the
    source.

  The interfaces.  \<open>pf_runs\<close> and \<open>sink\<close> (\<open>Printf\<close>) are what \<open>vcbprintf\<close> asks of its callback: every piece given is
  taken.  Their clients are proved once, and the callbacks of \<open>vsnprintf\<close> and of \<open>vfprintf\<close> are instances.
  \<open>comparator\<close> (\<open>Stdlib_Sort\<close>) is a comparison function, with \<open>memcmp\<close> as its instance; \<open>registry\<close> (\<open>Stdio_Files\<close>)
  a list that grows and shrinks in place, with the list of open streams as its instance; \<open>signal_set\<close> (\<open>Signals\<close>)
  a set under insertions and deletions, with the words of \<open>sigset.c\<close>.  \<open>screen_row\<close> (\<open>Screens\<close>) is what the terminal
  needs of a screen to keep a row of text: writing, removing and moving the cursor within the row.  The window
  and the text mode are its instances; the line discipline, the editor and the pass of the shell are proved
  inside it, and the properties are their statements for the window.

  What is shown.  Functional behaviour of the library functions on memory (moves, tokens, searches, sorting,
  numerals, formats); that streams deliver exactly the bytes written and read, whatever the devices take or
  give per call, and what of it survives the end of a process; the list of open streams; that exit handlers
  run once; that option parsing ends; that lookups find what was stored.  For the programs: rows of a window
  are its lines cut at its width; typed keys reach the program, as lines or as codes; the library gets the
  answers it asks for; the editor does what a text with a caret does and shows it; command lines are read
  back as they are meant; a pipeline is wired completely; and, through all of these, that a command line typed
  at the terminal starts the programs it names.  Two hosts that run the ARP handlers resolve each other's address;
  ping ends whatever arrives, with success exactly on an answer; an image leads from every path to its file if \<open>stat\<close> fails for none.  Several properties state faults of the code, in the
  generality in which they hold.

  Loops and bounds.  Nothing runs on fuel.  A recursion over a count or a list ends by a measure, proved where
  it is defined.  A loop over memory, and every other loop that ends only on good inputs, is a partial function:
  its \<open>None\<close> is both a fault and not ending, so the lemma that it gives a result is the lemma that it returns.
  This covers the loops over strings and streams, the growing buffer of \<open>kvlog\<close>, the wait for an escape code of the
  terminal library, and the loops of the editor and of the shell.  The bounds in
  statements are those of the code: 64 keys in the buffer of the terminal library (a line of the editor
  may be typed ahead up to it), 1024 bytes of arguments, \<open>INT_MAX\<close> for coordinates and numbers in control
  sequences, the row of the window, within which a line must fit, 400 and 500 reads of ping, 32-bit sizes and
  \<open>INT_MAX\<close> entries in an image.

  Not modelled.  The kernel and the libraries for keyboard and mouse are not in the repository.  Of
  \<open>libc\<close>: the allocator (\<open>malloc/dlmalloc.c\<close>) and mathematics (\<open>musl\<close>), which are vendored; assembly; functions that
  only report that they are not implemented.  Of the terminal: creating windows, drawing glyphs, reading the
  keyboard driver, and the start of its threads; its threads are not interleaved with each other, each
  read or key is processed to its end.  Of \<open>libterminal\<close>: the lock of the buffer.  The system call library
  \<open>libapi\<close> fills in records for the kernel.  The JavaScript interpreter is vendored.  The other applications
  (drivers, editor, desktop, a second terminal) are not modelled.
\<close>

end
